(* ===== verification/Purple_Base.thy ===== *)
theory Purple_Base
  imports Main "HOL-Library.Word"
begin

section \<open>Prelude: C data, GLib lists and byte words\<close>

text \<open>
  What the component theories share.  A C string is a \<open>string\<close> (its bytes before the NUL),
  a nullable \<open>char *\<close> a \<open>string option\<close>, a \<open>guint8\<close> buffer a list of 8-bit words.
  The source leans on GLib containers for everything; they are the standard library of
  this program and are read as such: a \<open>GList\<close> or \<open>GSList\<close> is a list, a
  \<open>GHashTable\<close> a partial map.  The one list operation whose order matters,
  \<open>g_list_insert_sorted\<close>, is written out here together with the locale that states what
  its callers (the signal handlers of \<open>signals.c\<close>, the commands of \<open>cmds.c\<close>) rely on.
  The theory also holds the lemmas on bytes and words and the fact collections that the
  component proofs use.
\<close>

unbundle bit_operations_syntax

type_synonym byte = "8 word"
type_synonym bytes = "byte list"
type_synonym cstring = "string option"

named_theorems wf_simps \<open>unfolding rules of the components' well-formedness predicates\<close>
named_theorems op_defs \<open>definitions of the components' operations\<close>

lemma unat_byte_less [simp]: "unat (b :: byte) < 256"
  using unsigned_less [of b, where 'a = nat] by simp

subsection \<open>Strings\<close>

text \<open>\<open>purple_strequal\<close> of \<open>util.c\<close>: \<open>NULL\<close> is equal to \<open>NULL\<close> only.\<close>

definition purple_strequal :: "cstring \<Rightarrow> cstring \<Rightarrow> bool" where
  "purple_strequal left right = (left = right)"

lemma purple_strequal_iff [simp]: "purple_strequal a b \<longleftrightarrow> a = b"
  by (simp add: purple_strequal_def)

text \<open>The case folding of \<open>g_ascii_strcasecmp\<close>: ASCII letters only.\<close>

definition ascii_lower :: "string \<Rightarrow> string" where
  "ascii_lower s = map (\<lambda>c. let n = of_char c :: nat in if 65 \<le> n \<and> n \<le> 90 then char_of (n + 32) else c) s"

lemma ascii_lower_idem [simp]: "ascii_lower (ascii_lower s) = ascii_lower s"
proof -
  have "of_char (char_of (of_char c + 32 :: nat) :: char) = (of_char c + 32 :: nat)"
    if "of_char c \<le> (90 :: nat)" for c :: char
    using that by simp
  then show ?thesis by (simp add: ascii_lower_def Let_def)
qed

subsection \<open>Sorted insertion into a GList\<close>

text \<open>
  GLib walks the list while the comparison of the new datum with the visited one is
  positive and inserts before the first element for which it is not.
\<close>

fun g_list_insert_sorted :: "('a \<Rightarrow> 'a \<Rightarrow> int) \<Rightarrow> 'a \<Rightarrow> 'a list \<Rightarrow> 'a list" where
  "g_list_insert_sorted cmp x [] = [x]"
| "g_list_insert_sorted cmp x (y # ys) =
     (if cmp x y > 0 then y # g_list_insert_sorted cmp x ys else x # y # ys)"

lemma set_g_list_insert_sorted [simp]:
  "set (g_list_insert_sorted cmp x xs) = insert x (set xs)"
  by (induction xs) auto

lemma length_g_list_insert_sorted [simp]:
  "length (g_list_insert_sorted cmp x xs) = Suc (length xs)"
  by (induction xs) auto

lemma filter_g_list_insert_sorted [simp]:
  "\<not> P x \<Longrightarrow> filter P (g_list_insert_sorted cmp x xs) = filter P xs"
  by (induction xs) auto

lemma distinct_map_g_list_insert_sorted:
  "f x \<notin> f ` set xs \<Longrightarrow> distinct (map f (g_list_insert_sorted cmp x xs)) = distinct (map f xs)"
  by (induction xs) auto

text \<open>
  The contract of a comparison function that orders by an integer key: all the callers of
  \<open>g_list_insert_sorted\<close> pass such a function, and what they rely on (the list stays
  ordered, elements of equal rank keep their order and the new one goes first) holds for
  each of them.
\<close>

locale ranked_cmp =
  fixes cmp :: "'a \<Rightarrow> 'a \<Rightarrow> int"
    and rank :: "'a \<Rightarrow> int"
  assumes cmp_pos: "cmp x y > 0 \<longleftrightarrow> rank x > rank y"
begin

lemma insert_sorted_takeWhile:
  "g_list_insert_sorted cmp x xs =
     takeWhile (\<lambda>y. rank y < rank x) xs @ x # dropWhile (\<lambda>y. rank y < rank x) xs"
  by (induction xs) (auto simp: cmp_pos)

lemma sorted_insert_sorted:
  "sorted (map rank xs) \<Longrightarrow> sorted (map rank (g_list_insert_sorted cmp x xs))"
  by (induction xs) (auto simp: cmp_pos)

lemma insert_sorted_stable:
  "sorted (map rank xs) \<Longrightarrow>
   filter (\<lambda>y. rank y = r) (g_list_insert_sorted cmp x xs) =
     (if rank x = r then x # filter (\<lambda>y. rank y = r) xs else filter (\<lambda>y. rank y = r) xs)"
proof (induction xs)
  case Nil
  then show ?case by simp
next
  case (Cons y ys)
  then show ?case by (cases "rank y < rank x") (auto simp: cmp_pos)
qed

end

subsection \<open>Lists updated by index\<close>

text \<open>\<open>memcpy\<close> of \<open>src\<close> into \<open>dst\<close> at offset \<open>n\<close>, both inside one allocation.\<close>

definition memcpy_at :: "nat \<Rightarrow> 'a list \<Rightarrow> 'a list \<Rightarrow> 'a list" where
  "memcpy_at n src dst = take n dst @ src @ drop (n + length src) dst"

lemma length_memcpy_at [simp]:
  "n + length src \<le> length dst \<Longrightarrow> length (memcpy_at n src dst) = length dst"
  by (simp add: memcpy_at_def)

lemma memcpy_at_Nil [simp]: "n \<le> length dst \<Longrightarrow> memcpy_at n [] dst = dst"
  by (simp add: memcpy_at_def)

lemma memcpy_at_end: "memcpy_at (length xs) src (xs @ ys) = xs @ src @ drop (length src) ys"
  by (simp add: memcpy_at_def)

lemma nth_memcpy_at:
  "n + length src \<le> length dst \<Longrightarrow> i < length dst \<Longrightarrow>
   memcpy_at n src dst ! i =
     (if n \<le> i \<and> i < n + length src then src ! (i - n) else dst ! i)"
  by (auto simp: memcpy_at_def nth_append min_def)

lemma memcpy_at_append:
  "n + length a + length b \<le> length dst \<Longrightarrow>
   memcpy_at n (a @ b) dst = memcpy_at (n + length a) b (memcpy_at n a dst)"
  by (simp add: memcpy_at_def ac_simps)

end
