(* ===== verification/Circ_Buffer.thy ===== *)
theory Circ_Buffer
  imports Purple_Base
begin

section \<open>The circular buffer (\<open>libpurple/circbuffer.c\<close>)\<close>

text \<open>
  \<open>PurpleCircBuffer\<close> is the output queue of most protocol plugins.  The record keeps the
  fields of the C struct; the two pointers are offsets into \<open>buffer\<close>, \<open>None\<close> for
  \<open>NULL\<close>.  \<open>g_realloc\<close> leaves the bytes it adds indeterminate: they are the values of
  an arbitrary function \<open>junk\<close>, which every theorem quantifies over.  The growing loop
  is a \<open>partial_function\<close>, so that its termination is a theorem.
  \<open>contents\<close> is the abstraction (the queued bytes, oldest first), \<open>circ_wf\<close> the
  invariant.  A buffer that was filled exactly to its end and then drained is
  \<open>drained\<close>: its fill pointer stays at the end while its read pointer wraps; growing it
  in that state loses the order of the bytes, which the append theorem has to exclude.
\<close>

record circ_buffer =
  buffer :: bytes
  growsize :: nat
  buflen :: nat
  bufused :: nat
  inptr :: "nat option"
  outptr :: "nat option"

definition DEFAULT_BUF_SIZE :: nat where
  "DEFAULT_BUF_SIZE = 256"

definition purple_circ_buffer_new :: "nat \<Rightarrow> circ_buffer" where
  "purple_circ_buffer_new gs =
     \<lparr>buffer = [], growsize = (if gs \<noteq> 0 then gs else DEFAULT_BUF_SIZE),
      buflen = 0, bufused = 0, inptr = None, outptr = None\<rparr>"

text \<open>The offset \<open>ptr - buf->buffer\<close>, 0 for the \<open>NULL\<close> pointers of a fresh buffer.\<close>

definition ptr_off :: "nat option \<Rightarrow> nat" where
  "ptr_off p = (case p of None \<Rightarrow> 0 | Some i \<Rightarrow> i)"

lemma ptr_off_simps [simp]: "ptr_off None = 0" "ptr_off (Some i) = i"
  by (simp_all add: ptr_off_def)

definition g_realloc :: "(nat \<Rightarrow> byte) \<Rightarrow> nat \<Rightarrow> bytes \<Rightarrow> bytes" where
  "g_realloc junk n xs = take n xs @ map junk [length xs..<n]"

lemma length_g_realloc [simp]: "length (g_realloc junk n xs) = n"
  by (auto simp: g_realloc_def min_def)

lemma g_realloc_grow: "length xs \<le> n \<Longrightarrow> g_realloc junk n xs = xs @ map junk [length xs..<n]"
  by (simp add: g_realloc_def)

partial_function (option) grow_buflen :: "nat \<Rightarrow> nat \<Rightarrow> nat \<Rightarrow> nat \<Rightarrow> nat option" where
  "grow_buflen gs bl used len =
     (if bl - used < len then grow_buflen gs (bl + gs) used len else Some bl)"

definition grow_circ_buffer ::
  "(nat \<Rightarrow> byte) \<Rightarrow> circ_buffer \<Rightarrow> nat \<Rightarrow> circ_buffer option" where
  "grow_circ_buffer junk buf len =
     (case grow_buflen (growsize buf) (buflen buf) (bufused buf) len of
        None \<Rightarrow> None
      | Some newlen \<Rightarrow>
          let start_buflen = buflen buf;
              in_offset = (case inptr buf of None \<Rightarrow> 0 | Some i \<Rightarrow> i);
              out_offset = (case inptr buf of None \<Rightarrow> 0 | Some _ \<Rightarrow> ptr_off (outptr buf));
              mem = g_realloc junk newlen (buffer buf);
              buf1 = buf\<lparr>buflen := newlen, buffer := mem,
                         inptr := Some in_offset, outptr := Some out_offset\<rparr>
          in if in_offset < out_offset \<or> in_offset = out_offset \<and> 0 < bufused buf
             then let shift_n = min (newlen - start_buflen) in_offset;
                      mem1 = memcpy_at start_buflen (take shift_n mem) mem
                  in if shift_n < in_offset
                     then Some (buf1\<lparr>buffer := memcpy_at 0 (take (in_offset - shift_n) (drop shift_n mem1)) mem1,
                                     inptr := Some (in_offset - shift_n)\<rparr>)
                     else Some (buf1\<lparr>buffer := mem1, inptr := Some (start_buflen + in_offset)\<rparr>)
             else Some buf1)"

definition purple_circ_buffer_append ::
  "(nat \<Rightarrow> byte) \<Rightarrow> circ_buffer \<Rightarrow> bytes \<Rightarrow> circ_buffer option" where
  "purple_circ_buffer_append junk buf0 src =
     (let len = length src in
      case (if buflen buf0 - bufused buf0 < len then grow_circ_buffer junk buf0 len else Some buf0) of
        None \<Rightarrow> None
      | Some buf \<Rightarrow>
          let in_offset = ptr_off (inptr buf);
              len_stored = (if ptr_off (outptr buf) \<le> in_offset
                            then min len (buflen buf - in_offset) else len);
              mem = (if 0 < len_stored then memcpy_at in_offset (take len_stored src) (buffer buf)
                     else buffer buf)
          in Some (if len_stored < len
                   then buf\<lparr>buffer := memcpy_at 0 (drop len_stored src) mem,
                            inptr := Some (len - len_stored), bufused := bufused buf + len\<rparr>
                   else buf\<lparr>buffer := mem, inptr := map_option (\<lambda>i. i + len_stored) (inptr buf),
                            bufused := bufused buf + len\<rparr>))"

definition purple_circ_buffer_get_max_read :: "circ_buffer \<Rightarrow> nat" where
  "purple_circ_buffer_get_max_read buf =
     (if bufused buf = 0 then 0
      else if ptr_off (inptr buf) \<le> ptr_off (outptr buf) then buflen buf - ptr_off (outptr buf)
      else ptr_off (inptr buf) - ptr_off (outptr buf))"

definition purple_circ_buffer_mark_read :: "circ_buffer \<Rightarrow> nat \<Rightarrow> bool \<times> circ_buffer" where
  "purple_circ_buffer_mark_read buf len =
     (if len \<le> purple_circ_buffer_get_max_read buf
      then let o' = ptr_off (outptr buf) + len in
           (True, buf\<lparr>outptr := map_option (\<lambda>_. if o' = buflen buf then 0 else o') (outptr buf),
                      bufused := bufused buf - len\<rparr>)
      else (False, buf))"

text \<open>The bytes a reader finds at \<open>outptr\<close>, at most \<open>len\<close> of them.\<close>

definition outptr_bytes :: "circ_buffer \<Rightarrow> nat \<Rightarrow> bytes" where
  "outptr_bytes buf len = take len (drop (ptr_off (outptr buf)) (buffer buf))"

subsection \<open>Abstraction and invariant\<close>

definition contents :: "circ_buffer \<Rightarrow> bytes" where
  "contents buf = take (bufused buf) (drop (ptr_off (outptr buf)) (buffer buf) @ buffer buf)"

definition drained :: "circ_buffer \<Rightarrow> bool" where
  "drained buf \<longleftrightarrow> bufused buf = 0 \<and> outptr buf = Some 0 \<and> inptr buf = Some (buflen buf)"

definition circ_wf :: "circ_buffer \<Rightarrow> bool" where
  "circ_wf buf \<longleftrightarrow>
     0 < growsize buf \<and> length (buffer buf) = buflen buf \<and> bufused buf \<le> buflen buf \<and>
     (case (inptr buf, outptr buf) of
        (None, None) \<Rightarrow> buflen buf = 0
      | (Some i, Some j) \<Rightarrow>
          growsize buf \<le> buflen buf \<and> j < buflen buf \<and>
          (i = j + bufused buf \<and> j + bufused buf \<le> buflen buf \<or>
           i + buflen buf = j + bufused buf \<and> 0 < i \<or>
           drained buf)
      | _ \<Rightarrow> False)"

lemma circ_wf_cases:
  assumes "circ_wf buf"
  obtains (fresh) "inptr buf = None" "outptr buf = None" "buflen buf = 0" "bufused buf = 0" "buffer buf = []"
    | (linear) i j where "inptr buf = Some i" "outptr buf = Some j" "j < buflen buf"
        "i = j + bufused buf" "i \<le> buflen buf" "growsize buf \<le> buflen buf"
    | (wrapped) i j where "inptr buf = Some i" "outptr buf = Some j" "j < buflen buf" "0 < i" "i \<le> j"
        "i + buflen buf = j + bufused buf" "growsize buf \<le> buflen buf"
    | (drained) "drained buf" "0 < buflen buf" "growsize buf \<le> buflen buf"
  using assms by (auto simp: circ_wf_def split: option.splits)

lemma circ_wf_length: "circ_wf buf \<Longrightarrow> length (buffer buf) = buflen buf"
  by (simp add: circ_wf_def)

lemma circ_wf_used: "circ_wf buf \<Longrightarrow> bufused buf \<le> buflen buf"
  by (simp add: circ_wf_def)

lemma circ_wf_outptr: "circ_wf buf \<Longrightarrow> ptr_off (outptr buf) \<le> buflen buf"
  by (erule circ_wf_cases) (auto simp: drained_def)

lemma length_contents: "circ_wf buf \<Longrightarrow> length (contents buf) = bufused buf"
  using circ_wf_length [of buf] circ_wf_used [of buf] circ_wf_outptr [of buf]
  by (simp add: contents_def)

lemma purple_circ_buffer_new_wf [simp]:
  "circ_wf (purple_circ_buffer_new gs)" "contents (purple_circ_buffer_new gs) = []"
  by (simp_all add: circ_wf_def contents_def purple_circ_buffer_new_def DEFAULT_BUF_SIZE_def)

text \<open>The readable run is the part of the contents before the end of the allocation.\<close>

lemma get_max_read_eq:
  assumes "circ_wf buf"
  shows "purple_circ_buffer_get_max_read buf = min (bufused buf) (buflen buf - ptr_off (outptr buf))"
  using assms
  by (cases rule: circ_wf_cases) (auto simp: purple_circ_buffer_get_max_read_def drained_def)

lemma outptr_bytes_contents:
  assumes wf: "circ_wf buf" and len: "len \<le> purple_circ_buffer_get_max_read buf"
  shows "outptr_bytes buf len = take len (contents buf)"
proof -
  from len have "len \<le> bufused buf" "len \<le> buflen buf - ptr_off (outptr buf)"
    by (simp_all add: get_max_read_eq [OF wf])
  then show ?thesis
    by (simp add: outptr_bytes_def contents_def circ_wf_length [OF wf] min_absorb1 del: take_take)
       (simp add: min_absorb1)
qed

subsection \<open>Reading\<close>

lemma mark_read_True_iff:
  "purple_circ_buffer_mark_read buf len = (True, buf') \<longleftrightarrow>
     len \<le> purple_circ_buffer_get_max_read buf \<and>
     buf' = buf\<lparr>outptr := map_option (\<lambda>_. if ptr_off (outptr buf) + len = buflen buf then 0
                                    else ptr_off (outptr buf) + len) (outptr buf),
                bufused := bufused buf - len\<rparr>"
  by (auto simp: purple_circ_buffer_mark_read_def Let_def)

lemma mark_read_contents:
  assumes wf: "circ_wf buf" and ok: "purple_circ_buffer_mark_read buf len = (True, buf')"
  shows "contents buf' = drop len (contents buf)"
proof -
  note len = ok [unfolded mark_read_True_iff, THEN conjunct1]
    and buf' = ok [unfolded mark_read_True_iff, THEN conjunct2]
  have le: "len \<le> bufused buf" "ptr_off (outptr buf) + len \<le> buflen buf"
    using len circ_wf_outptr [OF wf] by (auto simp: get_max_read_eq [OF wf])
  show ?thesis
  proof (cases "outptr buf")
    case None
    with wf have "bufused buf = 0" by (auto elim!: circ_wf_cases simp: drained_def)
    then show ?thesis by (simp add: buf' contents_def)
  next
    case (Some j)
    have "j + bufused buf - buflen buf = bufused buf - len" if "j + len = buflen buf"
      using that le by arith
    with Some le circ_wf_length [OF wf] circ_wf_used [OF wf] show ?thesis
      by (auto simp: buf' contents_def drop_take add.commute)
  qed
qed

lemma mark_read_wf:
  assumes wf: "circ_wf buf" and ok: "purple_circ_buffer_mark_read buf len = (True, buf')"
  shows "circ_wf buf'"
proof -
  note len = ok [unfolded mark_read_True_iff, THEN conjunct1]
    and buf' = ok [unfolded mark_read_True_iff, THEN conjunct2]
  have le: "len \<le> bufused buf" "ptr_off (outptr buf) + len \<le> buflen buf"
    using len circ_wf_outptr [OF wf] by (auto simp: get_max_read_eq [OF wf])
  have g: "0 < growsize buf" using wf by (simp add: circ_wf_def)
  from wf show ?thesis
    by (cases rule: circ_wf_cases)
       (use g le circ_wf_length [OF wf] in \<open>auto simp: buf' circ_wf_def drained_def\<close>)
qed

subsection \<open>Growing\<close>

lemma grow_buflen_total:
  assumes "0 < gs"
  shows "\<exists>n. grow_buflen gs bl used len = Some n"
proof (induction "len + used - bl" arbitrary: bl rule: less_induct)
  case less
  show ?case
  proof (cases "bl - used < len")
    case True
    with assms have "len + used - (bl + gs) < len + used - bl" by arith
    from less [OF this] True show ?thesis by (subst grow_buflen.simps) simp
  next
    case False
    then show ?thesis by (subst grow_buflen.simps) simp
  qed
qed

lemma grow_buflen_result:
  "grow_buflen gs bl used len = Some n \<Longrightarrow> len \<le> n - used \<and> bl \<le> n \<and> (bl - used < len \<longrightarrow> bl + gs \<le> n)"
proof (erule grow_buflen.raw_induct
    [where P = "\<lambda>gs bl used len n. len \<le> n - used \<and> bl \<le> n \<and> (bl - used < len \<longrightarrow> bl + gs \<le> n)", rotated])
  fix f :: "nat \<Rightarrow> nat \<Rightarrow> nat \<Rightarrow> nat \<Rightarrow> nat option" and gs bl used len n :: nat
  assume IH: "\<And>gs bl used len n. f gs bl used len = Some n \<Longrightarrow>
      len \<le> n - used \<and> bl \<le> n \<and> (bl - used < len \<longrightarrow> bl + gs \<le> n)"
    and eq: "(if bl - used < len then f gs (bl + gs) used len else Some bl) = Some n"
  show "len \<le> n - used \<and> bl \<le> n \<and> (bl - used < len \<longrightarrow> bl + gs \<le> n)"
  proof (cases "bl - used < len")
    case True
    with eq have "f gs (bl + gs) used len = Some n" by simp
    from IH [OF this] show ?thesis by linarith
  next
    case False
    with eq show ?thesis by simp
  qed
qed

text \<open>What growing does to the two shapes of a non-drained buffer.\<close>

lemma grow_linear:
  assumes grow: "grow_circ_buffer junk buf len = Some buf'" and wf: "circ_wf buf"
    and lin: "inptr buf = Some i" "outptr buf = Some j" "i = j + bufused buf"
    and n: "grow_buflen (growsize buf) (buflen buf) (bufused buf) len = Some n"
  shows "buf' = buf\<lparr>buflen := n, buffer := g_realloc junk n (buffer buf), inptr := Some i, outptr := Some j\<rparr>"
  using grow lin n by (cases "bufused buf = 0") (simp_all add: grow_circ_buffer_def Let_def)

lemma grow_wrapped:
  assumes grow: "grow_circ_buffer junk buf len = Some buf'"
    and wr: "inptr buf = Some i" "outptr buf = Some j" "i \<le> j" "0 < bufused buf"
    and n: "grow_buflen (growsize buf) (buflen buf) (bufused buf) len = Some n"
  shows "buf' = (let mem = g_realloc junk n (buffer buf); k = min (n - buflen buf) i;
                     mem1 = memcpy_at (buflen buf) (take k mem) mem in
       if k < i
       then buf\<lparr>buflen := n, buffer := memcpy_at 0 (take (i - k) (drop k mem1)) mem1,
                inptr := Some (i - k), outptr := Some j\<rparr>
       else buf\<lparr>buflen := n, buffer := mem1, inptr := Some (buflen buf + i), outptr := Some j\<rparr>)"
proof -
  from wr have "i < j \<or> i = j" by auto
  with grow wr n show ?thesis by (auto simp: grow_circ_buffer_def Let_def split: if_splits)
qed

lemma memcpy_wrap_fits:
  assumes "length xs = bl" and "i \<le> bl" and "bl + i \<le> n"
  shows "memcpy_at bl (take i (g_realloc junk n xs)) (g_realloc junk n xs) =
      xs @ take i xs @ map junk [bl + i..<n]"
  using assms by (simp add: memcpy_at_def g_realloc_grow drop_map min_def)

lemma memcpy_wrap_short:
  assumes "length xs = bl" and "n - bl \<le> bl" and "bl \<le> n"
  shows "memcpy_at bl (take (n - bl) (g_realloc junk n xs)) (g_realloc junk n xs) =
      xs @ take (n - bl) xs"
  using assms by (simp add: memcpy_at_def g_realloc_grow drop_map)

lemma contents_linear:
  "j + used \<le> length mem \<Longrightarrow> take used (drop j mem @ mem) = take used (drop j mem)"
  by simp

lemma grow_ok:
  assumes wf: "circ_wf buf" and nd: "\<not> drained buf" and need: "buflen buf - bufused buf < len"
    and grow: "grow_circ_buffer junk buf len = Some buf'"
  shows "circ_wf buf' \<and> contents buf' = contents buf \<and> bufused buf' = bufused buf \<and>
    len \<le> buflen buf' - bufused buf' \<and> \<not> drained buf' \<and> inptr buf' \<noteq> None"
proof -
  from grow obtain n where n: "grow_buflen (growsize buf) (buflen buf) (bufused buf) len = Some n"
    by (auto simp: grow_circ_buffer_def split: option.splits)
  from grow_buflen_result [OF n] need have bounds: "len \<le> n - bufused buf" "buflen buf + growsize buf \<le> n"
    by auto
  have g: "0 < growsize buf" using wf by (simp add: circ_wf_def)
  have L: "length (buffer buf) = buflen buf" by (rule circ_wf_length [OF wf])
  from wf show ?thesis
  proof (cases rule: circ_wf_cases)
    case fresh
    then have "buf' = buf\<lparr>buflen := n, buffer := g_realloc junk n (buffer buf), inptr := Some 0, outptr := Some 0\<rparr>"
      using grow n by (auto simp: grow_circ_buffer_def Let_def)
    with fresh bounds g show ?thesis by (auto simp: circ_wf_def drained_def contents_def)
  next
    case (linear i j)
    note buf' = grow_linear [OF grow wf linear(1,2,4) n]
    from linear bounds g L show ?thesis
      by (auto simp: buf' circ_wf_def drained_def contents_def g_realloc_grow)
  next
    case (wrapped i j)
    then have used: "0 < bufused buf" by auto
    note buf' = grow_wrapped [OF grow wrapped(1,2,5) used n]
    show ?thesis
    proof (cases "n - buflen buf < i")
      case False
      with wrapped bounds L have eq:
        "buf' = buf\<lparr>buflen := n, buffer := buffer buf @ take i (buffer buf) @ map junk [buflen buf + i..<n],
                    inptr := Some (buflen buf + i), outptr := Some j\<rparr>"
        by (simp add: buf' Let_def min_def memcpy_wrap_fits)
      have "bufused buf = (buflen buf - j) + i" using wrapped by arith
      with wrapped False bounds g L show ?thesis by (auto simp: eq circ_wf_def drained_def contents_def)
    next
      case True
      define k where "k = n - buflen buf"
      have k: "k < i" "buflen buf + k = n" "i \<le> buflen buf" using True bounds wrapped by (auto simp: k_def)
      have mem1: "memcpy_at (buflen buf) (take k (g_realloc junk n (buffer buf))) (g_realloc junk n (buffer buf)) =
          buffer buf @ take k (buffer buf)"
        using memcpy_wrap_short [OF L, of n junk] k by (simp add: k_def)
      have eq: "buf' = buf\<lparr>buflen := n,
          buffer := memcpy_at 0 (take (i - k) (drop k (buffer buf))) (buffer buf @ take k (buffer buf)),
          inptr := Some (i - k), outptr := Some j\<rparr>"
        using k L by (simp add: buf' Let_def mem1 min_absorb1 flip: k_def)
      have used': "bufused buf = (buflen buf - j) + k + (i - k)" using wrapped k by arith
      have d: "drop j (memcpy_at 0 (take (i - k) (drop k (buffer buf))) (buffer buf @ take k (buffer buf))) =
          drop j (buffer buf) @ take k (buffer buf)"
        using wrapped k L by (simp add: memcpy_at_def min_def)
      have t: "take (i - k) (memcpy_at 0 (take (i - k) (drop k (buffer buf))) (buffer buf @ take k (buffer buf))) =
          take (i - k) (drop k (buffer buf))"
        using k L by (simp add: memcpy_at_def min_def)
      have "take k (buffer buf) @ take (i - k) (drop k (buffer buf)) = take i (buffer buf)"
        using k by (metis le_add_diff_inverse less_imp_le take_add)
      with wrapped k g L bounds used' show ?thesis
        by (auto simp: eq circ_wf_def drained_def contents_def d t)
    qed
  next
    case drained
    with nd show ?thesis by simp
  qed
qed

subsection \<open>Appending\<close>

text \<open>The part of \<open>purple_circ_buffer_append\<close> after the growth check.\<close>

lemma append_no_grow:
  "length src \<le> buflen buf - bufused buf \<Longrightarrow>
   purple_circ_buffer_append junk buf src =
     (let s = (if ptr_off (outptr buf) \<le> ptr_off (inptr buf)
               then min (length src) (buflen buf - ptr_off (inptr buf)) else length src);
          mem = (if 0 < s then memcpy_at (ptr_off (inptr buf)) (take s src) (buffer buf) else buffer buf)
      in Some (if s < length src
         then buf\<lparr>buffer := memcpy_at 0 (drop s src) mem, inptr := Some (length src - s),
                  bufused := bufused buf + length src\<rparr>
         else buf\<lparr>buffer := mem, inptr := map_option (\<lambda>i. i + s) (inptr buf),
                  bufused := bufused buf + length src\<rparr>))"
  by (simp add: purple_circ_buffer_append_def Let_def)

lemma append_Nil_buf: "purple_circ_buffer_append junk buf [] = Some buf"
  by (cases buf) (simp add: purple_circ_buffer_append_def Let_def option.map_ident)

lemma append_fits:
  assumes wf: "circ_wf buf" and room: "length src \<le> buflen buf - bufused buf"
  shows "\<exists>buf'. purple_circ_buffer_append junk buf src = Some buf' \<and> circ_wf buf' \<and>
    contents buf' = contents buf @ src"
proof (cases "src = []")
  case True
  with wf show ?thesis by (simp add: append_Nil_buf)
next
  case nonempty: False
  have g: "0 < growsize buf" using wf by (simp add: circ_wf_def)
  have L: "length (buffer buf) = buflen buf" by (rule circ_wf_length [OF wf])
  from nonempty have pos: "0 < length src" by simp
  from wf show ?thesis
  proof (cases rule: circ_wf_cases)
    case fresh
    with room nonempty show ?thesis by simp
  next
    case (linear i j)
    show ?thesis
    proof (cases "length src \<le> buflen buf - i")
      case True
      have eq: "purple_circ_buffer_append junk buf src =
          Some (buf\<lparr>buffer := memcpy_at i src (buffer buf), inptr := Some (i + length src),
                    bufused := bufused buf + length src\<rparr>)"
        using linear True pos by (simp add: append_no_grow [OF room] Let_def)
      have "drop j (memcpy_at i src (buffer buf)) =
          take (bufused buf) (drop j (buffer buf)) @ src @ drop (i + length src) (buffer buf)"
        using linear L by (simp add: memcpy_at_def drop_take)
      with linear True pos g L show ?thesis
        by (auto simp: eq circ_wf_def contents_def)
    next
      case False
      define s where "s = buflen buf - i"
      have s: "s < length src" "i + s = buflen buf" "length src - s \<le> j" "min (length src) s = s"
        using False linear room by (auto simp: s_def)
      let ?mem = "take i (buffer buf) @ take s src"
      have mem: "(if 0 < s then memcpy_at i (take s src) (buffer buf) else buffer buf) = ?mem"
        using s L linear by (auto simp: memcpy_at_def)
      have eq: "purple_circ_buffer_append junk buf src =
          Some (buf\<lparr>buffer := memcpy_at 0 (drop s src) ?mem, inptr := Some (length src - s),
                    bufused := bufused buf + length src\<rparr>)"
      proof -
        have S: "(if j \<le> i then min (length src) (buflen buf - i) else length src) = s"
          using linear s by (simp add: s_def)
        show ?thesis
          unfolding append_no_grow [OF room] linear(1) linear(2) ptr_off_simps S mem Let_def
          using s by simp
      qed
      have d: "drop j (memcpy_at 0 (drop s src) ?mem) = take (bufused buf) (drop j (buffer buf)) @ take s src"
      proof -
        have "buflen buf - (j + s) = bufused buf" using s linear by arith
        then show ?thesis using linear s L by (simp add: memcpy_at_def drop_take)
      qed
      have t: "take (length src - s) (memcpy_at 0 (drop s src) ?mem) = drop s src"
        by (simp add: memcpy_at_def)
      define M where "M = memcpy_at 0 (drop s src) ?mem"
      have M: "length M = buflen buf" using s L linear by (simp add: M_def memcpy_at_def)
      have "take (bufused buf + length src) (drop j M @ M) = drop j M @ take (length src - s) M"
        using d s linear L by (simp add: M_def)
      then have c: "take (bufused buf + length src) (drop j M @ M) = take (bufused buf) (drop j (buffer buf)) @ src"
        using d t by (simp add: M_def)
      have "length src - s + buflen buf = j + (bufused buf + length src)" using s linear by arith
      moreover have "contents buf = take (bufused buf) (drop j (buffer buf))"
        using linear L by (simp add: contents_def)
      ultimately show ?thesis using linear(2,3,6) s(1) g room M c circ_wf_used [OF wf]
        unfolding eq [folded M_def] by (simp add: circ_wf_def contents_def del: take_append)
    qed
  next
    case (wrapped i j)
    have ij: "i < j" "i + length src \<le> j" using wrapped room pos by linarith+
    have eq: "purple_circ_buffer_append junk buf src =
        Some (buf\<lparr>buffer := memcpy_at i src (buffer buf), inptr := Some (i + length src),
                  bufused := bufused buf + length src\<rparr>)"
      using wrapped ij pos by (simp add: append_no_grow [OF room] Let_def)
    have d: "drop j (memcpy_at i src (buffer buf)) = drop j (buffer buf)"
      using wrapped ij L by (simp add: memcpy_at_def)
    have t: "take (i + length src) (memcpy_at i src (buffer buf)) = take i (buffer buf) @ src"
      using wrapped ij L by (simp add: memcpy_at_def)
    have u: "bufused buf = (buflen buf - j) + i" using wrapped by arith
    show ?thesis using wrapped ij g L pos
      by (auto simp: eq circ_wf_def contents_def d t u add.assoc)
  next
    case drained
    have "purple_circ_buffer_append junk buf src =
        Some (buf\<lparr>buffer := memcpy_at 0 src (buffer buf), inptr := Some (length src),
                  bufused := bufused buf + length src\<rparr>)"
      using drained pos by (simp add: append_no_grow [OF room] Let_def drained_def)
    with drained g L room show ?thesis
      by (auto simp: circ_wf_def contents_def drained_def memcpy_at_def)
  qed
qed

lemma append_grows:
  assumes "buflen buf - bufused buf < length src" and "grow_circ_buffer junk buf (length src) = Some buf1"
    and "length src \<le> buflen buf1 - bufused buf1"
  shows "purple_circ_buffer_append junk buf src = purple_circ_buffer_append junk buf1 src"
  using assms by (simp add: purple_circ_buffer_append_def)

lemma grow_total:
  assumes "0 < growsize buf"
  shows "\<exists>buf'. grow_circ_buffer junk buf len = Some buf'"
  using grow_buflen_total [OF assms, of "buflen buf" "bufused buf" len]
  by (auto simp: grow_circ_buffer_def Let_def)

lemma append_contents:
  assumes wf: "circ_wf buf" and ok: "length src \<le> buflen buf - bufused buf \<or> \<not> drained buf"
  shows "\<exists>buf'. purple_circ_buffer_append junk buf src = Some buf' \<and> circ_wf buf' \<and>
    contents buf' = contents buf @ src"
proof (cases "length src \<le> buflen buf - bufused buf")
  case True
  then show ?thesis by (rule append_fits [OF wf])
next
  case False
  then have need: "buflen buf - bufused buf < length src" and nd: "\<not> drained buf" using ok by auto
  from wf have "0 < growsize buf" by (simp add: circ_wf_def)
  then obtain buf1 where grow: "grow_circ_buffer junk buf (length src) = Some buf1"
    using grow_total by blast
  note g = grow_ok [OF wf nd need grow]
  with append_grows [OF need grow] append_fits [of buf1 src junk] show ?thesis by auto
qed

subsection \<open>The queue interface of the protocol plugins\<close>

text \<open>
  What a protocol plugin relies on when it keeps unsent bytes in a buffer: appending puts
  bytes behind the queued ones, the run at the read pointer is a prefix of the queue, and
  acknowledging part of that run removes exactly that part.  \<open>accepts\<close> says which
  appends the provider promises to get right.
\<close>

locale byte_queue =
  fixes invar :: "'q \<Rightarrow> bool"
    and abs :: "'q \<Rightarrow> bytes"
    and append :: "'q \<Rightarrow> bytes \<Rightarrow> 'q option"
    and max_read :: "'q \<Rightarrow> nat"
    and peek :: "'q \<Rightarrow> nat \<Rightarrow> bytes"
    and mark_read :: "'q \<Rightarrow> nat \<Rightarrow> bool \<times> 'q"
    and accepts :: "'q \<Rightarrow> bytes \<Rightarrow> bool"
  assumes append_abs: "invar q \<Longrightarrow> accepts q bs \<Longrightarrow>
      \<exists>q'. append q bs = Some q' \<and> invar q' \<and> abs q' = abs q @ bs"
    and mark_read_abs: "invar q \<Longrightarrow> n \<le> max_read q \<Longrightarrow>
      \<exists>q'. mark_read q n = (True, q') \<and> invar q' \<and> abs q' = drop n (abs q)"
    and peek_abs: "invar q \<Longrightarrow> n \<le> max_read q \<Longrightarrow> peek q n = take n (abs q)"
    and max_read_progress: "invar q \<Longrightarrow> max_read q = 0 \<longleftrightarrow> abs q = []"
begin

lemma peek_mark_read:
  "invar q \<Longrightarrow> n \<le> max_read q \<Longrightarrow> mark_read q n = (b, q') \<Longrightarrow>
   b \<and> invar q' \<and> peek q n @ abs q' = abs q"
  using mark_read_abs [of q n] peek_abs [of q n] by auto

lemma append_result:
  "invar q \<Longrightarrow> accepts q bs \<Longrightarrow> append q bs = Some q' \<Longrightarrow> invar q' \<and> abs q' = abs q @ bs"
  using append_abs [of q bs] by auto

end

definition circ_accepts :: "circ_buffer \<Rightarrow> bytes \<Rightarrow> bool" where
  "circ_accepts buf src \<longleftrightarrow> length src \<le> buflen buf - bufused buf \<or> \<not> drained buf"

interpretation cb: byte_queue circ_wf contents "purple_circ_buffer_append junk"
    purple_circ_buffer_get_max_read outptr_bytes purple_circ_buffer_mark_read circ_accepts
  for junk
proof (unfold_locales, goal_cases)
  case (1 q bs)
  then show ?case unfolding circ_accepts_def by (rule append_contents)
next
  case (2 q n)
  then have "purple_circ_buffer_mark_read q n = (True, snd (purple_circ_buffer_mark_read q n))"
    by (simp add: purple_circ_buffer_mark_read_def Let_def)
  with mark_read_wf [OF 2(1) this] mark_read_contents [OF 2(1) this] show ?case by blast
next
  case (3 q n)
  then show ?case by (rule outptr_bytes_contents)
next
  case (4 q)
  then have "length (contents q) = bufused q" by (rule length_contents)
  moreover have "0 < buflen q - ptr_off (outptr q) \<or> bufused q = 0"
    using 4 by (cases rule: circ_wf_cases) (auto simp: drained_def)
  ultimately show ?case using get_max_read_eq [OF 4]
    by (auto simp: min_def simp flip: length_0_conv split: if_splits)
qed

subsection \<open>Properties\<close>

text \<open>C2: Appending to a well-formed circular buffer returns (the growing loop stops), keeps the
  buffer well-formed and puts the new bytes, in order, behind the queued ones, whatever the
  reallocated memory holds; the one state excluded is a drained buffer that has to grow.\<close>

theorem circ_append_refines_queue:
  assumes "circ_wf buf" and "length src \<le> buflen buf - bufused buf \<or> \<not> drained buf"
  shows "\<exists>buf'. purple_circ_buffer_append junk buf src = Some buf' \<and> circ_wf buf' \<and>
    contents buf' = contents buf @ src"
  using assms by (intro cb.append_abs) (simp_all add: circ_accepts_def)

theorem circ_append_refines_queue_witness:
  "\<exists>buf'. purple_circ_buffer_append (\<lambda>_. 0) (purple_circ_buffer_new 4) [1, 2, 3, 4, 5] = Some buf' \<and>
     circ_wf buf' \<and> contents buf' = [1, 2, 3, 4, 5]"
proof -
  have "\<not> drained (purple_circ_buffer_new 4)" by (simp add: drained_def purple_circ_buffer_new_def)
  with circ_append_refines_queue [of "purple_circ_buffer_new 4" "[1, 2, 3, 4, 5]" "\<lambda>_. 0"]
  show ?thesis by simp
qed

text \<open>C3: Reading is first-in first-out: a nonempty queue always offers a nonempty run, the bytes
  at the read pointer are the oldest ones, acknowledging \<open>len\<close> of them succeeds exactly when
  \<open>len\<close> is at most the offered run, and it removes exactly those bytes.\<close>

theorem circ_read_refines_queue:
  assumes "circ_wf buf"
  shows "(purple_circ_buffer_get_max_read buf = 0 \<longleftrightarrow> contents buf = []) \<and>
    (fst (purple_circ_buffer_mark_read buf len) \<longleftrightarrow> len \<le> purple_circ_buffer_get_max_read buf) \<and>
    (fst (purple_circ_buffer_mark_read buf len) \<longrightarrow>
       circ_wf (snd (purple_circ_buffer_mark_read buf len)) \<and>
       outptr_bytes buf len @ contents (snd (purple_circ_buffer_mark_read buf len)) = contents buf) \<and>
    (\<not> fst (purple_circ_buffer_mark_read buf len) \<longrightarrow> snd (purple_circ_buffer_mark_read buf len) = buf)"
proof -
  have "fst (purple_circ_buffer_mark_read buf len) \<longleftrightarrow> len \<le> purple_circ_buffer_get_max_read buf"
    by (simp add: purple_circ_buffer_mark_read_def Let_def)
  moreover have "\<not> len \<le> purple_circ_buffer_get_max_read buf \<Longrightarrow> snd (purple_circ_buffer_mark_read buf len) = buf"
    by (simp add: purple_circ_buffer_mark_read_def)
  ultimately show ?thesis
    using cb.max_read_progress [OF assms] cb.peek_mark_read [OF assms, of len] by (metis prod.collapse)
qed

theorem circ_read_refines_queue_witness:
  "purple_circ_buffer_get_max_read (purple_circ_buffer_new 4) = 0 \<longleftrightarrow> contents (purple_circ_buffer_new 4) = []"
  using circ_read_refines_queue [of "purple_circ_buffer_new 4" 0] by simp

subsection \<open>The drained buffer\<close>

lemma grow_buflen_minimal:
  "grow_buflen gs bl used len = Some n \<Longrightarrow> bl - used < len + gs \<longrightarrow> n - used < len + gs"
proof (erule grow_buflen.raw_induct
    [where P = "\<lambda>gs bl used len n. bl - used < len + gs \<longrightarrow> n - used < len + gs", rotated])
  fix f :: "nat \<Rightarrow> nat \<Rightarrow> nat \<Rightarrow> nat \<Rightarrow> nat option" and gs bl used len n :: nat
  assume IH: "\<And>gs bl used len n. f gs bl used len = Some n \<Longrightarrow>
      bl - used < len + gs \<longrightarrow> n - used < len + gs"
    and eq: "(if bl - used < len then f gs (bl + gs) used len else Some bl) = Some n"
  show "bl - used < len + gs \<longrightarrow> n - used < len + gs"
  proof (cases "bl - used < len")
    case True
    with eq have "f gs (bl + gs) used len = Some n" by simp
    from IH [OF this] True show ?thesis by linarith
  next
    case False
    with eq show ?thesis by simp
  qed
qed

lemma drained_grow:
  assumes "drained buf" and "grow_circ_buffer junk buf len = Some buf'"
    and "grow_buflen (growsize buf) (buflen buf) 0 len = Some n"
  shows "buf' = buf\<lparr>buflen := n, buffer := g_realloc junk n (buffer buf),
                    inptr := Some (buflen buf), outptr := Some 0\<rparr>"
  using assms by (auto simp: grow_circ_buffer_def Let_def drained_def)

text \<open>A drained buffer that must grow hands its bytes out in the wrong order: its fill pointer
  still stands at the old end, so the append fills the new space first and wraps the last
  \<open>k\<close> bytes to the front, where the read pointer is; the run offered to the reader is the
  end of the data, not its beginning.\<close>

theorem circ_drained_append_reorders:
  assumes wf: "circ_wf buf" and dr: "drained buf" and big: "buflen buf < length src"
    and app: "purple_circ_buffer_append junk buf src = Some buf'"
  shows "\<exists>k. 0 < k \<and> k < length src \<and> purple_circ_buffer_get_max_read buf' = k \<and>
    outptr_bytes buf' k = drop (length src - k) src"
proof -
  have used: "bufused buf = 0" and gs: "growsize buf \<le> buflen buf" "0 < growsize buf"
    using wf dr by (auto simp: drained_def circ_wf_def)
  obtain n where n: "grow_buflen (growsize buf) (buflen buf) 0 (length src) = Some n"
    using grow_buflen_total [OF gs(2)] by blast
  obtain buf1 where grow: "grow_circ_buffer junk buf (length src) = Some buf1"
    using grow_total [OF gs(2)] by blast
  note buf1 = drained_grow [OF dr grow n]
  define s where "s = n - buflen buf"
  have s: "0 < s" "s < length src" "min (length src) s = s" "buflen buf + s = n" "length src \<le> n"
    using grow_buflen_result [OF n] grow_buflen_minimal [OF n] gs big by (auto simp: s_def)
  have L: "length (g_realloc junk n (buffer buf)) = n" by simp
  let ?M = "memcpy_at 0 (drop s src) (memcpy_at (buflen buf) (take s src) (g_realloc junk n (buffer buf)))"
  have "buf' = buf1\<lparr>buffer := ?M, inptr := Some (length src - s), bufused := length src\<rparr>"
    using app [symmetric] s big used grow
    by (simp add: purple_circ_buffer_append_def buf1 Let_def flip: s_def)
  moreover have "take (length src - s) ?M = drop s src" by (simp add: memcpy_at_def)
  moreover have "src \<noteq> []" using s by auto
  ultimately show ?thesis using s
    by (intro exI [of _ "length src - s"])
       (simp add: purple_circ_buffer_get_max_read_def outptr_bytes_def buf1)
qed

definition drained_example :: circ_buffer where
  "drained_example = \<lparr>buffer = [1, 2], growsize = 2, buflen = 2, bufused = 0, inptr = Some 2, outptr = Some 0\<rparr>"

lemma drained_example_reached:
  "Option.bind (purple_circ_buffer_append junk (purple_circ_buffer_new 2) [1, 2])
     (\<lambda>b. Some (snd (purple_circ_buffer_mark_read b 2))) = Some drained_example"
  by (simp add: drained_example_def purple_circ_buffer_append_def purple_circ_buffer_new_def Let_def
      grow_circ_buffer_def grow_buflen.simps memcpy_at_def g_realloc_def upt_rec
      purple_circ_buffer_mark_read_def purple_circ_buffer_get_max_read_def)

theorem circ_drained_append_reorders_witness:
  "\<exists>buf' k. purple_circ_buffer_append (\<lambda>_. 0) drained_example [3, 4, 5] = Some buf' \<and>
     0 < k \<and> k < 3 \<and> outptr_bytes buf' k = drop (3 - k) [3, 4, 5]"
proof -
  have wf: "circ_wf drained_example" and dr: "drained drained_example" and big: "buflen drained_example < length [3 :: byte, 4, 5]"
    by (simp_all add: drained_example_def circ_wf_def drained_def)
  have "\<exists>buf'. purple_circ_buffer_append (\<lambda>_. 0) drained_example [3, 4, 5] = Some buf'"
    by (simp add: drained_example_def purple_circ_buffer_append_def Let_def
        grow_circ_buffer_def grow_buflen.simps)
  then obtain buf' where app: "purple_circ_buffer_append (\<lambda>_. 0) drained_example [3, 4, 5] = Some buf'" ..
  from circ_drained_append_reorders [OF wf dr big app] obtain k where
    "0 < k" "k < length [3 :: byte, 4, 5]" "outptr_bytes buf' k = drop (length [3 :: byte, 4, 5] - k) [3, 4, 5]"
    by blast
  with app show ?thesis by (intro exI [of _ buf'] exI [of _ k]) (simp add: numeral_3_eq_3)
qed

end
