(* ===== verification/Jabber_Tx.thy ===== *)
theory Jabber_Tx
  imports Circ_Buffer
begin

section \<open>Buffered socket writes (\<open>protocols/jabber/jabber.c\<close>)\<close>

text \<open>
  \<open>do_jabber_send_raw\<close> writes straight to the socket while no write handler is installed
  and queues what the socket did not take; \<open>jabber_send_cb\<close>, run when the socket becomes
  writable, drains the queue.  The IRC, Yahoo, MSN and SIMPLE plugins copy the pattern.
  A call of \<open>write\<close> (or \<open>purple_ssl_write\<close>) is an outcome chosen by the environment;
  the ghost field \<open>wire\<close> holds the bytes the socket has accepted.  Timers and the text of
  error messages are not modelled; that an error was raised is.
\<close>

datatype sock_result = Wrote nat | Again | SockError

record jabber_tx =
  write_buffer :: circ_buffer
  writeh :: nat
  disconnecting :: bool
  conn_error :: bool
  wire :: bytes

definition jabber_tx_init :: jabber_tx where
  "jabber_tx_init = \<lparr>write_buffer = purple_circ_buffer_new 512, writeh = 0, disconnecting = False,
                     conn_error = False, wire = []\<rparr>"

definition jabber_send_cb :: "jabber_tx \<Rightarrow> sock_result \<Rightarrow> jabber_tx" where
  "jabber_send_cb js r =
     (let writelen = purple_circ_buffer_get_max_read (write_buffer js) in
      if writelen = 0 then js\<lparr>writeh := 0\<rparr>
      else case r of
        Again \<Rightarrow> js
      | SockError \<Rightarrow> js\<lparr>conn_error := True\<rparr>
      | Wrote ret \<Rightarrow>
          if ret = 0 then js\<lparr>conn_error := True\<rparr>
          else js\<lparr>wire := wire js @ take ret (outptr_bytes (write_buffer js) writelen),
                  write_buffer := snd (purple_circ_buffer_mark_read (write_buffer js) ret)\<rparr>)"

definition do_jabber_send_raw ::
  "(nat \<Rightarrow> byte) \<Rightarrow> nat \<Rightarrow> jabber_tx \<Rightarrow> bytes \<Rightarrow> sock_result \<Rightarrow> (bool \<times> jabber_tx) option" where
  "do_jabber_send_raw junk handle js data r =
     (if data = [] then Some (False, js)
      else case (if writeh js = 0 then r else Again) of
        SockError \<Rightarrow>
          Some (False, if disconnecting js then js else js\<lparr>conn_error := True\<rparr>)
      | res \<Rightarrow>
          let n = (case res of Wrote k \<Rightarrow> k | _ \<Rightarrow> 0);
              js1 = js\<lparr>wire := wire js @ take n data\<rparr>
          in if n < length data
             then map_option (\<lambda>buf. (True, js1\<lparr>writeh := (if writeh js = 0 then handle else writeh js),
                                               write_buffer := buf\<rparr>))
                    (purple_circ_buffer_append junk (write_buffer js) (drop n data))
             else Some (True, js1))"

text \<open>
  The runs of a connection: sends of nonempty data and callbacks, in any order, with any
  socket outcome that respects the contract of \<open>write\<close> (never more than was passed).
  \<open>sent\<close> collects the data of the sends that reported success.  The side condition on the
  queue is the one \<open>circbuffer.c\<close> needs.
\<close>

inductive tx_reach :: "jabber_tx \<Rightarrow> bytes \<Rightarrow> bool" where
  tx_init: "tx_reach jabber_tx_init []"
| tx_send: "tx_reach js sent \<Longrightarrow> handle \<noteq> 0 \<Longrightarrow> (\<And>n. r = Wrote n \<Longrightarrow> n \<le> length data) \<Longrightarrow>
    circ_accepts (write_buffer js) data \<Longrightarrow>
    do_jabber_send_raw junk handle js data r = Some (ok, js') \<Longrightarrow>
    tx_reach js' (if ok then sent @ data else sent)"
| tx_cb: "tx_reach js sent \<Longrightarrow>
    (\<And>n. r = Wrote n \<Longrightarrow> n \<le> purple_circ_buffer_get_max_read (write_buffer js)) \<Longrightarrow>
    tx_reach (jabber_send_cb js r) sent"

definition tx_inv :: "jabber_tx \<Rightarrow> bytes \<Rightarrow> bool" where
  "tx_inv js sent \<longleftrightarrow> circ_wf (write_buffer js) \<and> wire js @ contents (write_buffer js) = sent \<and>
     (writeh js = 0 \<longrightarrow> contents (write_buffer js) = [])"

lemma circ_accepts_drop: "circ_accepts buf bs \<Longrightarrow> circ_accepts buf (drop n bs)"
  by (auto simp: circ_accepts_def)

lemma send_cb_inv:
  assumes inv: "tx_inv js sent"
    and r: "\<And>n. r = Wrote n \<Longrightarrow> n \<le> purple_circ_buffer_get_max_read (write_buffer js)"
  shows "tx_inv (jabber_send_cb js r) sent"
proof -
  let ?b = "write_buffer js"
  have wf: "circ_wf ?b" using inv by (simp add: tx_inv_def)
  show ?thesis
  proof (cases "purple_circ_buffer_get_max_read ?b = 0")
    case True
    with inv cb.max_read_progress [OF wf] show ?thesis by (simp add: tx_inv_def jabber_send_cb_def Let_def)
  next
    case False
    then have ne: "contents ?b \<noteq> []" using cb.max_read_progress [OF wf] by simp
    show ?thesis
    proof (cases r)
      case (Wrote n)
      with r have n: "n \<le> purple_circ_buffer_get_max_read ?b" by simp
      have "take n (outptr_bytes ?b (purple_circ_buffer_get_max_read ?b)) = outptr_bytes ?b n"
        using n by (simp add: outptr_bytes_def min_def)
      with Wrote False inv ne cb.peek_mark_read [OF wf n surjective_pairing] show ?thesis
        by (auto simp: tx_inv_def jabber_send_cb_def Let_def)
    qed (use inv False in \<open>simp_all add: tx_inv_def jabber_send_cb_def Let_def\<close>)
  qed
qed

lemma send_raw_inv:
  assumes inv: "tx_inv js sent" and h: "handle \<noteq> 0" and r: "\<And>n. r = Wrote n \<Longrightarrow> n \<le> length data"
    and acc: "circ_accepts (write_buffer js) data"
    and step: "do_jabber_send_raw junk handle js data r = Some (ok, js')"
  shows "tx_inv js' (if ok then sent @ data else sent)"
proof -
  have wf: "circ_wf (write_buffer js)" using inv by (simp add: tx_inv_def)
  note app = cb.append_result [OF wf acc] cb.append_result [OF wf circ_accepts_drop [OF acc]]
  from step inv r show ?thesis
    using h by (cases r; cases "writeh js = 0")
       (auto simp: do_jabber_send_raw_def tx_inv_def Let_def dest!: app split: if_splits)
qed

text \<open>C1: As long as no send meets a queue that has to grow from a drained state, no byte of an XMPP
  stream is lost, duplicated or reordered by the write buffering: in every state reached from a fresh
  connection, what the socket accepted followed by what is queued is exactly the data of the successful
  sends, in the order they were made, and the queue is empty whenever no write handler is installed.
  The excluded sends carry more bytes than the buffer has free while it is empty with its write
  pointer at the end of the memory; that state can be reached, and an append that grows it hands its
  bytes out in another order (\<open>circ_drained_append_reorders\<close> of \<open>Circ_Buffer\<close>).\<close>

theorem jabber_tx_in_order:
  assumes "tx_reach js sent"
  shows "wire js @ contents (write_buffer js) = sent \<and>
    (writeh js = 0 \<longrightarrow> contents (write_buffer js) = [])"
proof -
  have "tx_inv js sent"
    using assms
  proof (induction rule: tx_reach.induct)
    case tx_init
    show ?case by (simp add: tx_inv_def jabber_tx_init_def)
  next
    case (tx_send js sent handle r data junk ok js')
    then show ?case by (blast intro: send_raw_inv)
  next
    case (tx_cb js sent r)
    then show ?case by (blast intro: send_cb_inv)
  qed
  then show ?thesis by (simp add: tx_inv_def)
qed

definition tx_example :: jabber_tx where
  "tx_example = the (map_option snd (do_jabber_send_raw (\<lambda>_. 0) 7 jabber_tx_init [10, 20, 30] (Wrote 1)))"

lemma tx_example_reach: "tx_reach tx_example [10, 20, 30]"
proof -
  have step: "do_jabber_send_raw (\<lambda>_. 0) 7 jabber_tx_init [10, 20, 30] (Wrote 1) = Some (True, tx_example)"
    by (simp add: tx_example_def do_jabber_send_raw_def jabber_tx_init_def Let_def
        purple_circ_buffer_append_def purple_circ_buffer_new_def grow_circ_buffer_def grow_buflen.simps)
  have "circ_accepts (write_buffer jabber_tx_init) [10, 20, 30]"
    by (simp add: circ_accepts_def jabber_tx_init_def purple_circ_buffer_new_def drained_def)
  from tx_send [OF tx_init _ _ this step] show ?thesis by simp
qed

theorem jabber_tx_in_order_witness:
  "wire tx_example @ contents (write_buffer tx_example) = [10, 20, 30]"
  using jabber_tx_in_order [OF tx_example_reach] by simp

end
