(* ===== verification/Cipher_Rc4.thy ===== *)
theory Cipher_Rc4
  imports Purple_Base "HOL-Library.Multiset"
begin

section \<open>The RC4 cipher (\<open>libpurple/ciphers/rc4.c\<close>)\<close>

text \<open>
  The context keeps the 256-byte state, the two \<open>guchar\<close> indices and the \<open>gint\<close> key
  length.  \<open>rc4_set_key\<close> computes \<open>(x + 1) % key_len\<close> and reads \<open>key[x]\<close>: a zero key
  length divides by zero and a key shorter than the indices reached is read past its end,
  so the model answers \<open>None\<close> there.  All other operations are total.
\<close>

declare upt_rec_numeral [simp del]

record rc4_context =
  state :: bytes
  rc4_x :: byte
  rc4_y :: byte
  key_len :: int

definition rc4_init_state :: bytes where
  "rc4_init_state = map word_of_nat [0..<256]"

definition rc4_reset :: "rc4_context \<Rightarrow> rc4_context" where
  "rc4_reset ctx = ctx\<lparr>state := rc4_init_state, rc4_x := 0, rc4_y := 0, key_len := 5\<rparr>"

text \<open>\<open>rc4_init\<close> allocates a zeroed context and resets it.\<close>

definition rc4_init :: rc4_context where
  "rc4_init = rc4_reset \<lparr>state = replicate 256 0, rc4_x = 0, rc4_y = 0, key_len = 0\<rparr>"

definition rc4_set_opt :: "rc4_context \<Rightarrow> string \<Rightarrow> int \<Rightarrow> rc4_context" where
  "rc4_set_opt ctx name val = (if name = ''key_len'' then ctx\<lparr>key_len := val\<rparr> else ctx)"

definition rc4_get_opt :: "rc4_context \<Rightarrow> string \<Rightarrow> int" where
  "rc4_get_opt ctx name = (if name = ''key_len'' then key_len ctx else 0)"

definition rc4_get_key_size :: "rc4_context option option \<Rightarrow> int" where
  "rc4_get_key_size context =
     (case context of None \<Rightarrow> -1 | Some None \<Rightarrow> -1 | Some (Some ctx) \<Rightarrow> key_len ctx)"

text \<open>\<open>temp_swap = s[i]; s[i] = s[j]; s[j] = temp_swap\<close>\<close>

definition swap_bytes :: "bytes \<Rightarrow> nat \<Rightarrow> nat \<Rightarrow> bytes" where
  "swap_bytes s i j = s[i := s ! j, j := s ! i]"

fun rc4_key_loop :: "bytes \<Rightarrow> int \<Rightarrow> nat list \<Rightarrow> byte \<Rightarrow> byte \<Rightarrow> bytes \<Rightarrow> bytes option" where
  "rc4_key_loop key klen [] x y s = Some s"
| "rc4_key_loop key klen (i # is) x y s =
     (if length key \<le> unat x \<or> klen = 0 then None
      else let y' = key ! unat x + s ! i + y;
               s' = swap_bytes s i (unat y');
               x' = word_of_int ((uint x + 1) mod \<bar>klen\<bar>)
           in rc4_key_loop key klen is x' y' s')"

definition rc4_set_key :: "rc4_context \<Rightarrow> bytes \<Rightarrow> rc4_context option" where
  "rc4_set_key ctx key =
     map_option (\<lambda>s. ctx\<lparr>state := s\<rparr>) (rc4_key_loop key (key_len ctx) [0..<256] 0 0 (state ctx))"

text \<open>One round of the generator: the new indices, the new state and the key-stream byte.\<close>

definition rc4_step :: "byte \<times> byte \<times> bytes \<Rightarrow> byte \<times> byte \<times> byte \<times> bytes" where
  "rc4_step = (\<lambda>(x, y, s).
     let x' = x + 1;
         y' = s ! unat x' + y;
         s' = swap_bytes s (unat x') (unat y');
         z = s' ! unat x' + s' ! unat y'
     in (s' ! unat z, x', y', s'))"

fun rc4_crypt_loop :: "bytes \<Rightarrow> byte \<times> byte \<times> bytes \<Rightarrow> bytes \<times> byte \<times> byte \<times> bytes" where
  "rc4_crypt_loop [] g = ([], g)"
| "rc4_crypt_loop (d # ds) g =
     (let (k, g') = rc4_step g; (out, g'') = rc4_crypt_loop ds g' in ((d XOR k) # out, g''))"

definition rc4_encrypt :: "rc4_context \<Rightarrow> bytes \<Rightarrow> bytes \<times> rc4_context" where
  "rc4_encrypt ctx data =
     (let (out, x, y, s) = rc4_crypt_loop data (rc4_x ctx, rc4_y ctx, state ctx)
      in (out, ctx\<lparr>state := s, rc4_x := x, rc4_y := y\<rparr>))"

subsection \<open>The state is always a permutation of the 256 bytes\<close>

definition rc4_perm :: "bytes \<Rightarrow> bool" where
  "rc4_perm s \<longleftrightarrow> mset s = mset rc4_init_state"

lemma length_rc4_init_state [simp]: "length rc4_init_state = 256"
  by (simp add: rc4_init_state_def)

lemma rc4_perm_length: "rc4_perm s \<Longrightarrow> length s = 256"
  by (metis rc4_perm_def length_rc4_init_state mset_eq_length)

lemma mset_swap_bytes: "i < length s \<Longrightarrow> j < length s \<Longrightarrow> mset (swap_bytes s i j) = mset s"
  unfolding swap_bytes_def by (rule mset_swap)

lemma rc4_perm_swap: "rc4_perm s \<Longrightarrow> i < 256 \<Longrightarrow> j < 256 \<Longrightarrow> rc4_perm (swap_bytes s i j)"
  by (simp add: rc4_perm_def mset_swap_bytes rc4_perm_length [unfolded rc4_perm_def])

lemma rc4_key_loop_perm:
  "rc4_key_loop key klen is x y s = Some s' \<Longrightarrow> rc4_perm s \<Longrightarrow> set is \<subseteq> {..<256} \<Longrightarrow> rc4_perm s'"
  by (induction key klen "is" x y s rule: rc4_key_loop.induct)
     (auto simp: Let_def rc4_perm_swap split: if_splits)

lemma rc4_crypt_loop_perm:
  "rc4_perm (snd (snd g)) \<Longrightarrow> rc4_perm (snd (snd (snd (rc4_crypt_loop ds g))))"
proof (induction ds arbitrary: g)
  case (Cons d ds)
  obtain x y s where g: "g = (x, y, s)" by (cases g)
  have "rc4_perm (snd (snd (snd (rc4_step g))))"
    using Cons.prems by (simp add: g rc4_step_def Let_def rc4_perm_swap)
  with Cons.IH [of "snd (rc4_step g)"] show ?case
    by (simp add: Let_def split_beta)
qed simp

lemma rc4_perm_iff: "rc4_perm s \<longleftrightarrow> length s = 256 \<and> distinct s"
proof
  have set_all: "set rc4_init_state = UNIV"
  proof -
    have "b \<in> set rc4_init_state" for b
    proof -
      have "b = word_of_nat (unat b)" "unat b \<in> {0..<256}" by simp_all
      then show ?thesis unfolding rc4_init_state_def set_map set_upt by (rule image_eqI)
    qed
    then show ?thesis by blast
  qed
  have d: "distinct rc4_init_state"
    by (auto simp: rc4_init_state_def distinct_map inj_on_def word_of_nat_eq_iff take_bit_nat_eq_self)
  {
    assume p: "rc4_perm s"
    then show "length s = 256 \<and> distinct s"
      using d rc4_perm_length unfolding rc4_perm_def by (metis mset_eq_imp_distinct_iff)
  next
    assume s: "length s = 256 \<and> distinct s"
    then have "card (set s) = card (UNIV :: byte set)" by (simp add: distinct_card card_word)
    then have "set s = UNIV" by (simp add: card_subset_eq)
    with s d set_all show "rc4_perm s" by (simp add: rc4_perm_def set_eq_iff_mset_eq_distinct [symmetric])
  }
qed

text \<open>Whatever the key and however the calls are mixed, the RC4 state stays a permutation of the
  256 byte values: a reset establishes it, keying and encrypting preserve it.\<close>

theorem rc4_state_permutation:
  "length (state (rc4_reset ctx)) = 256 \<and> distinct (state (rc4_reset ctx)) \<and>
   (length (state ctx) = 256 \<and> distinct (state ctx) \<longrightarrow>
     (\<forall>key ctx'. rc4_set_key ctx key = Some ctx' \<longrightarrow>
        length (state ctx') = 256 \<and> distinct (state ctx')) \<and>
     length (state (snd (rc4_encrypt ctx data))) = 256 \<and> distinct (state (snd (rc4_encrypt ctx data))))"
proof -
  have "rc4_perm (state (rc4_reset ctx))" by (simp add: rc4_reset_def rc4_perm_def)
  moreover {
    assume p: "rc4_perm (state ctx)"
    have "rc4_perm (state ctx')" if "rc4_set_key ctx key = Some ctx'" for key ctx'
      using that p rc4_key_loop_perm [of key "key_len ctx" "[0..<256]" 0 0 "state ctx"]
      by (auto simp: rc4_set_key_def atLeast0LessThan)
    moreover have "rc4_perm (state (snd (rc4_encrypt ctx data)))"
      using rc4_crypt_loop_perm [of "(rc4_x ctx, rc4_y ctx, state ctx)" data] p
      by (simp add: rc4_encrypt_def split_beta Let_def)
    ultimately have "(\<forall>key ctx'. rc4_set_key ctx key = Some ctx' \<longrightarrow> rc4_perm (state ctx')) \<and>
        rc4_perm (state (snd (rc4_encrypt ctx data)))" by blast
  }
  ultimately show ?thesis unfolding rc4_perm_iff by blast
qed

theorem rc4_state_permutation_witness:
  "length (state (snd (rc4_encrypt rc4_init [1, 2]))) = 256 \<and>
   distinct (state (snd (rc4_encrypt rc4_init [1, 2])))"
proof -
  have "length (state rc4_init) = 256 \<and> distinct (state rc4_init)"
    using rc4_state_permutation by (simp add: rc4_init_def)
  with rc4_state_permutation [of rc4_init "[1, 2]"] show ?thesis by blast
qed

subsection \<open>Encryption\<close>

lemma rc4_crypt_loop_append:
  "rc4_crypt_loop (a @ b) g =
     (let (oa, g') = rc4_crypt_loop a g; (ob, g'') = rc4_crypt_loop b g' in (oa @ ob, g''))"
  by (induction a arbitrary: g) (auto simp: Let_def split_beta)

lemma xor_xor_cancel [simp]: "((a :: 'a :: len word) XOR b) XOR b = a"
  by (simp add: xor.assoc)

lemma rc4_crypt_loop_twice: "fst (rc4_crypt_loop (fst (rc4_crypt_loop ds g)) g) = ds"
  by (induction ds arbitrary: g) (simp_all add: Let_def split_beta)

lemma rc4_crypt_loop_state:
  "length ds = length es \<Longrightarrow> snd (rc4_crypt_loop ds g) = snd (rc4_crypt_loop es g)"
  by (induction ds es arbitrary: g rule: list_induct2) (simp_all add: Let_def split_beta)

lemma length_rc4_crypt_loop [simp]: "length (fst (rc4_crypt_loop ds g)) = length ds"
  by (induction ds arbitrary: g) (simp_all add: Let_def split_beta)

text \<open>RC4 decrypts with the same routine: running it over a ciphertext from the context the
  plaintext was encrypted from gives the plaintext back, of the same length, and leaves both
  sides in the same context, so a conversation stays in step.\<close>

theorem rc4_encrypt_involution:
  "fst (rc4_encrypt ctx (fst (rc4_encrypt ctx data))) = data \<and>
   length (fst (rc4_encrypt ctx data)) = length data \<and>
   snd (rc4_encrypt ctx (fst (rc4_encrypt ctx data))) = snd (rc4_encrypt ctx data)"
proof -
  let ?g = "(rc4_x ctx, rc4_y ctx, state ctx)"
  have "snd (rc4_crypt_loop (fst (rc4_crypt_loop data ?g)) ?g) = snd (rc4_crypt_loop data ?g)"
    by (rule rc4_crypt_loop_state) simp
  then show ?thesis
    by (simp add: rc4_encrypt_def split_beta Let_def rc4_crypt_loop_twice)
qed

text \<open>The cut of a message into calls does not matter: encrypting two chunks one after the other
  produces the bytes and the context of encrypting their concatenation.\<close>

theorem rc4_encrypt_chunks:
  "rc4_encrypt ctx (a @ b) =
     (fst (rc4_encrypt ctx a) @ fst (rc4_encrypt (snd (rc4_encrypt ctx a)) b),
      snd (rc4_encrypt (snd (rc4_encrypt ctx a)) b))"
  by (simp add: rc4_encrypt_def split_beta Let_def rc4_crypt_loop_append)

text \<open>Keying succeeds for every positive key length that the key covers.\<close>

lemma rc4_key_loop_total:
  "0 < klen \<Longrightarrow> klen \<le> int (length key) \<Longrightarrow> int (unat x) < klen \<Longrightarrow>
   \<exists>s'. rc4_key_loop key klen is x y s = Some s'"
proof (induction key klen "is" x y s rule: rc4_key_loop.induct)
  case (2 key klen i "is" x y s)
  have "uint (word_of_int ((uint x + 1) mod klen) :: byte) \<le> (uint x + 1) mod klen"
    using 2(2) by (simp add: uint_word_of_int zmod_le_nonneg_dividend)
  also have "\<dots> < klen" using 2(2) by simp
  finally have x': "int (unat (word_of_int ((uint x + 1) mod klen) :: byte)) < klen" by simp
  have "unat x < length key" using 2(3,4) by linarith
  moreover have "klen \<noteq> 0" "\<bar>klen\<bar> = klen" using 2(2) by auto
  ultimately show ?case using 2(1) [OF _ refl refl refl] 2(2,3) x' by (auto simp: Let_def abs_of_pos [OF 2(2)])
qed simp

text \<open>Keying an RC4 context always succeeds when the declared key length is positive and not
  longer than the key, and it changes neither the indices nor the key length.\<close>

theorem rc4_set_key_total:
  assumes "0 < key_len ctx" and "key_len ctx \<le> int (length key)"
  shows "\<exists>ctx'. rc4_set_key ctx key = Some ctx' \<and> rc4_x ctx' = rc4_x ctx \<and>
    rc4_y ctx' = rc4_y ctx \<and> rc4_get_opt ctx' ''key_len'' = rc4_get_key_size (Some (Some ctx))"
  using rc4_key_loop_total [of "key_len ctx" key 0 "[0..<256]" 0 "state ctx"] assms
  by (auto simp: rc4_set_key_def rc4_get_opt_def rc4_get_key_size_def)

theorem rc4_set_key_total_witness:
  "\<exists>ctx'. rc4_set_key rc4_init [1, 2, 3, 4, 5] = Some ctx'"
  using rc4_set_key_total [of rc4_init "[1, 2, 3, 4, 5]"] by (auto simp: rc4_init_def rc4_reset_def)

end
