(* ===== verification/Cipher_Des.thy ===== *)
theory Cipher_Des
  imports Purple_Base
begin

section \<open>DES and triple DES (\<open>libpurple/ciphers/des.c\<close>)\<close>

text \<open>
  The cipher as the code has it: the combined S-box and permutation tables, the bit-swapping
  macros as functions on 32-bit words, the key schedule, the unrolled sixteen rounds of
  \<open>des_ecb_crypt\<close>, and the buffer routines of DES and of triple DES in ECB and CBC mode.  A
  routine that fills \<open>output\<close> and \<open>*outlen\<close> returns the pair of the bytes it writes
  and the length it reports.  The locale \<open>block_cipher\<close> states what the buffer routines
  need of the block routine; DES and the encrypt-decrypt-encrypt composition are its two
  interpretations.
\<close>

type_synonym word32 = "32 word"

definition sbox1 :: "word32 list" where
  "sbox1 =
    [0x808200, 0x0, 0x8000, 0x808202, 0x808002, 0x8202, 0x2, 0x8000,
     0x200, 0x808200, 0x808202, 0x200, 0x800202, 0x808002, 0x800000, 0x2,
     0x202, 0x800200, 0x800200, 0x8200, 0x8200, 0x808000, 0x808000, 0x800202,
     0x8002, 0x800002, 0x800002, 0x8002, 0x0, 0x202, 0x8202, 0x800000,
     0x8000, 0x808202, 0x2, 0x808000, 0x808200, 0x800000, 0x800000, 0x200,
     0x808002, 0x8000, 0x8200, 0x800002, 0x200, 0x2, 0x800202, 0x8202,
     0x808202, 0x8002, 0x808000, 0x800202, 0x800002, 0x202, 0x8202, 0x808200,
     0x202, 0x800200, 0x800200, 0x0, 0x8002, 0x8200, 0x0, 0x808002]"

definition sbox2 :: "word32 list" where
  "sbox2 =
    [0x40084010, 0x40004000, 0x4000, 0x84010, 0x80000, 0x10, 0x40080010, 0x40004010,
     0x40000010, 0x40084010, 0x40084000, 0x40000000, 0x40004000, 0x80000, 0x10, 0x40080010,
     0x84000, 0x80010, 0x40004010, 0x0, 0x40000000, 0x4000, 0x84010, 0x40080000,
     0x80010, 0x40000010, 0x0, 0x84000, 0x4010, 0x40084000, 0x40080000, 0x4010,
     0x0, 0x84010, 0x40080010, 0x80000, 0x40004010, 0x40080000, 0x40084000, 0x4000,
     0x40080000, 0x40004000, 0x10, 0x40084010, 0x84010, 0x10, 0x4000, 0x40000000,
     0x4010, 0x40084000, 0x80000, 0x40000010, 0x80010, 0x40004010, 0x40000010, 0x80010,
     0x84000, 0x0, 0x40004000, 0x4010, 0x40000000, 0x40080010, 0x40084010, 0x84000]"

definition sbox3 :: "word32 list" where
  "sbox3 =
    [0x104, 0x4010100, 0x0, 0x4010004, 0x4000100, 0x0, 0x10104, 0x4000100,
     0x10004, 0x4000004, 0x4000004, 0x10000, 0x4010104, 0x10004, 0x4010000, 0x104,
     0x4000000, 0x4, 0x4010100, 0x100, 0x10100, 0x4010000, 0x4010004, 0x10104,
     0x4000104, 0x10100, 0x10000, 0x4000104, 0x4, 0x4010104, 0x100, 0x4000000,
     0x4010100, 0x4000000, 0x10004, 0x104, 0x10000, 0x4010100, 0x4000100, 0x0,
     0x100, 0x10004, 0x4010104, 0x4000100, 0x4000004, 0x100, 0x0, 0x4010004,
     0x4000104, 0x10000, 0x4000000, 0x4010104, 0x4, 0x10104, 0x10100, 0x4000004,
     0x4010000, 0x4000104, 0x104, 0x4010000, 0x10104, 0x4, 0x4010004, 0x10100]"

definition sbox4 :: "word32 list" where
  "sbox4 =
    [0x80401000, 0x80001040, 0x80001040, 0x40, 0x401040, 0x80400040, 0x80400000, 0x80001000,
     0x0, 0x401000, 0x401000, 0x80401040, 0x80000040, 0x0, 0x400040, 0x80400000,
     0x80000000, 0x1000, 0x400000, 0x80401000, 0x40, 0x400000, 0x80001000, 0x1040,
     0x80400040, 0x80000000, 0x1040, 0x400040, 0x1000, 0x401040, 0x80401040, 0x80000040,
     0x400040, 0x80400000, 0x401000, 0x80401040, 0x80000040, 0x0, 0x0, 0x401000,
     0x1040, 0x400040, 0x80400040, 0x80000000, 0x80401000, 0x80001040, 0x80001040, 0x40,
     0x80401040, 0x80000040, 0x80000000, 0x1000, 0x80400000, 0x80001000, 0x401040, 0x80400040,
     0x80001000, 0x1040, 0x400000, 0x80401000, 0x40, 0x400000, 0x1000, 0x401040]"

definition sbox5 :: "word32 list" where
  "sbox5 =
    [0x80, 0x1040080, 0x1040000, 0x21000080, 0x40000, 0x80, 0x20000000, 0x1040000,
     0x20040080, 0x40000, 0x1000080, 0x20040080, 0x21000080, 0x21040000, 0x40080, 0x20000000,
     0x1000000, 0x20040000, 0x20040000, 0x0, 0x20000080, 0x21040080, 0x21040080, 0x1000080,
     0x21040000, 0x20000080, 0x0, 0x21000000, 0x1040080, 0x1000000, 0x21000000, 0x40080,
     0x40000, 0x21000080, 0x80, 0x1000000, 0x20000000, 0x1040000, 0x21000080, 0x20040080,
     0x1000080, 0x20000000, 0x21040000, 0x1040080, 0x20040080, 0x80, 0x1000000, 0x21040000,
     0x21040080, 0x40080, 0x21000000, 0x21040080, 0x1040000, 0x0, 0x20040000, 0x21000000,
     0x40080, 0x1000080, 0x20000080, 0x40000, 0x0, 0x20040000, 0x1040080, 0x20000080]"

definition sbox6 :: "word32 list" where
  "sbox6 =
    [0x10000008, 0x10200000, 0x2000, 0x10202008, 0x10200000, 0x8, 0x10202008, 0x200000,
     0x10002000, 0x202008, 0x200000, 0x10000008, 0x200008, 0x10002000, 0x10000000, 0x2008,
     0x0, 0x200008, 0x10002008, 0x2000, 0x202000, 0x10002008, 0x8, 0x10200008,
     0x10200008, 0x0, 0x202008, 0x10202000, 0x2008, 0x202000, 0x10202000, 0x10000000,
     0x10002000, 0x8, 0x10200008, 0x202000, 0x10202008, 0x200000, 0x2008, 0x10000008,
     0x200000, 0x10002000, 0x10000000, 0x2008, 0x10000008, 0x10202008, 0x202000, 0x10200000,
     0x202008, 0x10202000, 0x0, 0x10200008, 0x8, 0x2000, 0x10200000, 0x202008,
     0x2000, 0x200008, 0x10002008, 0x0, 0x10202000, 0x10000000, 0x200008, 0x10002008]"

definition sbox7 :: "word32 list" where
  "sbox7 =
    [0x100000, 0x2100001, 0x2000401, 0x0, 0x400, 0x2000401, 0x100401, 0x2100400,
     0x2100401, 0x100000, 0x0, 0x2000001, 0x1, 0x2000000, 0x2100001, 0x401,
     0x2000400, 0x100401, 0x100001, 0x2000400, 0x2000001, 0x2100000, 0x2100400, 0x100001,
     0x2100000, 0x400, 0x401, 0x2100401, 0x100400, 0x1, 0x2000000, 0x100400,
     0x2000000, 0x100400, 0x100000, 0x2000401, 0x2000401, 0x2100001, 0x2100001, 0x1,
     0x100001, 0x2000000, 0x2000400, 0x100000, 0x2100400, 0x401, 0x100401, 0x2100400,
     0x401, 0x2000001, 0x2100401, 0x2100000, 0x100400, 0x0, 0x1, 0x2100401,
     0x0, 0x100401, 0x2100000, 0x400, 0x2000001, 0x2000400, 0x400, 0x100001]"

definition sbox8 :: "word32 list" where
  "sbox8 =
    [0x8000820, 0x800, 0x20000, 0x8020820, 0x8000000, 0x8000820, 0x20, 0x8000000,
     0x20020, 0x8020000, 0x8020820, 0x20800, 0x8020800, 0x20820, 0x800, 0x20,
     0x8020000, 0x8000020, 0x8000800, 0x820, 0x20800, 0x20020, 0x8020020, 0x8020800,
     0x820, 0x0, 0x0, 0x8020020, 0x8000020, 0x8000800, 0x20820, 0x20000,
     0x20820, 0x20000, 0x8020800, 0x800, 0x20, 0x8020020, 0x800, 0x20820,
     0x8000800, 0x20, 0x8000020, 0x8020000, 0x8020020, 0x8000000, 0x20000, 0x8000820,
     0x0, 0x8020820, 0x20020, 0x8000020, 0x8020000, 0x8000800, 0x8000820, 0x0,
     0x8020820, 0x20800, 0x20800, 0x820, 0x820, 0x20020, 0x8000000, 0x8020800]"

definition leftkey_swap :: "word32 list" where
  "leftkey_swap =
    [0x0, 0x1, 0x100, 0x101, 0x10000, 0x10001, 0x10100, 0x10101,
     0x1000000, 0x1000001, 0x1000100, 0x1000101, 0x1010000, 0x1010001, 0x1010100, 0x1010101]"

definition rightkey_swap :: "word32 list" where
  "rightkey_swap =
    [0x0, 0x1000000, 0x10000, 0x1010000, 0x100, 0x1000100, 0x10100, 0x1010100,
     0x1, 0x1000001, 0x10001, 0x1010001, 0x101, 0x1000101, 0x10101, 0x1010101]"

definition encrypt_rotate_tab :: "nat list" where
  "encrypt_rotate_tab = [1, 1, 2, 2, 2, 2, 2, 2, 1, 2, 2, 2, 2, 2, 2, 1]"

subsection \<open>The macros\<close>

definition DO_PERMUTATION :: "nat \<Rightarrow> word32 \<Rightarrow> word32 \<times> word32 \<Rightarrow> word32 \<times> word32" where
  "DO_PERMUTATION off msk = (\<lambda>(a, b).
     let temp = (drop_bit off a XOR b) AND msk
     in (a XOR push_bit off temp, b XOR temp))"

definition INITIAL_PERMUTATION :: "word32 \<times> word32 \<Rightarrow> word32 \<times> word32" where
  "INITIAL_PERMUTATION = (\<lambda>(left, right).
     let (left, right) = DO_PERMUTATION 4 0x0f0f0f0f (left, right);
         (left, right) = DO_PERMUTATION 16 0x0000ffff (left, right);
         (right, left) = DO_PERMUTATION 2 0x33333333 (right, left);
         (right, left) = DO_PERMUTATION 8 0x00ff00ff (right, left)
     in DO_PERMUTATION 1 0x55555555 (left, right))"

definition FINAL_PERMUTATION :: "word32 \<times> word32 \<Rightarrow> word32 \<times> word32" where
  "FINAL_PERMUTATION = (\<lambda>(left, right).
     let (left, right) = DO_PERMUTATION 1 0x55555555 (left, right);
         (right, left) = DO_PERMUTATION 8 0x00ff00ff (right, left);
         (right, left) = DO_PERMUTATION 2 0x33333333 (right, left);
         (left, right) = DO_PERMUTATION 16 0x0000ffff (left, right)
     in DO_PERMUTATION 4 0x0f0f0f0f (left, right))"

definition sbox_at :: "word32 list \<Rightarrow> nat \<Rightarrow> word32 \<Rightarrow> word32" where
  "sbox_at box sh work = box ! unat (drop_bit sh work AND 0x3f)"

definition DES_ROUND :: "word32 \<Rightarrow> word32 \<Rightarrow> word32 \<times> word32 \<Rightarrow> word32" where
  "DES_ROUND from to subkey =
     (let work = (push_bit 1 from OR drop_bit 31 from) XOR fst subkey;
          to = to XOR sbox_at sbox8 0 work;
          to = to XOR sbox_at sbox6 8 work;
          to = to XOR sbox_at sbox4 16 work;
          to = to XOR sbox_at sbox2 24 work;
          work = (drop_bit 3 from OR push_bit 29 from) XOR snd subkey;
          to = to XOR sbox_at sbox7 0 work;
          to = to XOR sbox_at sbox5 8 work;
          to = to XOR sbox_at sbox3 16 work
      in to XOR sbox_at sbox1 24 work)"

definition READ_32BIT :: "bytes \<Rightarrow> word32" where
  "READ_32BIT d = push_bit 24 (ucast (d ! 0)) OR push_bit 16 (ucast (d ! 1)) OR
                  push_bit 8 (ucast (d ! 2)) OR ucast (d ! 3)"

definition READ_64BIT_DATA :: "bytes \<Rightarrow> word32 \<times> word32" where
  "READ_64BIT_DATA data = (READ_32BIT data, READ_32BIT (drop 4 data))"

definition WRITE_32BIT :: "word32 \<Rightarrow> bytes" where
  "WRITE_32BIT w = [ucast (drop_bit 24 w AND 0xff), ucast (drop_bit 16 w AND 0xff),
                    ucast (drop_bit 8 w AND 0xff), ucast (w AND 0xff)]"

definition WRITE_64BIT_DATA :: "word32 \<times> word32 \<Rightarrow> bytes" where
  "WRITE_64BIT_DATA = (\<lambda>(left, right). WRITE_32BIT left @ WRITE_32BIT right)"

subsection \<open>Key schedule and block routine\<close>

definition pc2_even :: "word32 \<Rightarrow> word32 \<Rightarrow> word32" where
  "pc2_even left right =
      (push_bit 4 left AND 0x24000000) OR (push_bit 28 left AND 0x10000000) OR (push_bit 14 left AND 0x8000000) OR
      (push_bit 18 left AND 0x2080000) OR (push_bit 6 left AND 0x1000000) OR (push_bit 9 left AND 0x200000) OR
      (drop_bit 1 left AND 0x100000) OR (push_bit 10 left AND 0x40000) OR (push_bit 2 left AND 0x20000) OR
      (drop_bit 10 left AND 0x10000) OR (drop_bit 13 right AND 0x2000) OR (drop_bit 4 right AND 0x1000) OR
      (push_bit 6 right AND 0x800) OR (drop_bit 1 right AND 0x400) OR (drop_bit 14 right AND 0x200) OR
      (right AND 0x100) OR (drop_bit 5 right AND 0x20) OR (drop_bit 10 right AND 0x10) OR
      (drop_bit 3 right AND 0x8) OR (drop_bit 18 right AND 0x4) OR (drop_bit 26 right AND 0x2) OR
      (drop_bit 24 right AND 0x1)"

definition pc2_odd :: "word32 \<Rightarrow> word32 \<Rightarrow> word32" where
  "pc2_odd left right =
      (push_bit 15 left AND 0x20000000) OR (push_bit 17 left AND 0x10000000) OR (push_bit 10 left AND 0x8000000) OR
      (push_bit 22 left AND 0x4000000) OR (drop_bit 2 left AND 0x2000000) OR (push_bit 1 left AND 0x1000000) OR
      (push_bit 16 left AND 0x200000) OR (push_bit 11 left AND 0x100000) OR (push_bit 3 left AND 0x80000) OR
      (drop_bit 6 left AND 0x40000) OR (push_bit 15 left AND 0x20000) OR (drop_bit 4 left AND 0x10000) OR
      (drop_bit 2 right AND 0x2000) OR (push_bit 8 right AND 0x1000) OR (drop_bit 14 right AND 0x808) OR
      (drop_bit 9 right AND 0x400) OR (right AND 0x200) OR (push_bit 7 right AND 0x100) OR
      (drop_bit 7 right AND 0x20) OR (drop_bit 3 right AND 0x11) OR (push_bit 2 right AND 0x4) OR
      (drop_bit 21 right AND 0x2)"

definition rotate28 :: "nat \<Rightarrow> word32 \<Rightarrow> word32" where
  "rotate28 n w = (push_bit n w OR drop_bit (28 - n) w) AND 0x0fffffff"

fun des_key_rounds :: "nat list \<Rightarrow> word32 \<Rightarrow> word32 \<Rightarrow> word32 list" where
  "des_key_rounds [] left right = []"
| "des_key_rounds (n # ns) left right =
     (let left = rotate28 n left; right = rotate28 n right
      in pc2_even left right # pc2_odd left right # des_key_rounds ns left right)"

definition key_swap_at :: "word32 list \<Rightarrow> nat \<Rightarrow> word32 \<Rightarrow> word32" where
  "key_swap_at tab sh w = tab ! unat (drop_bit sh w AND 0xf)"

definition des_key_schedule :: "bytes \<Rightarrow> word32 list" where
  "des_key_schedule rawkey =
     (let (left, right) = READ_64BIT_DATA rawkey;
          (right, left) = DO_PERMUTATION 4 0x0f0f0f0f (right, left);
          (right, left) = DO_PERMUTATION 0 0x10101010 (right, left);
          left = push_bit 3 (key_swap_at leftkey_swap 0 left) OR push_bit 2 (key_swap_at leftkey_swap 8 left) OR
                 push_bit 1 (key_swap_at leftkey_swap 16 left) OR key_swap_at leftkey_swap 24 left OR
                 push_bit 7 (key_swap_at leftkey_swap 5 left) OR push_bit 6 (key_swap_at leftkey_swap 13 left) OR
                 push_bit 5 (key_swap_at leftkey_swap 21 left) OR push_bit 4 (key_swap_at leftkey_swap 29 left);
          left = left AND 0x0fffffff;
          right = push_bit 3 (key_swap_at rightkey_swap 1 right) OR push_bit 2 (key_swap_at rightkey_swap 9 right) OR
                  push_bit 1 (key_swap_at rightkey_swap 17 right) OR key_swap_at rightkey_swap 25 right OR
                  push_bit 7 (key_swap_at rightkey_swap 4 right) OR push_bit 6 (key_swap_at rightkey_swap 12 right) OR
                  push_bit 5 (key_swap_at rightkey_swap 20 right) OR push_bit 4 (key_swap_at rightkey_swap 28 right);
          right = right AND 0x0fffffff
      in des_key_rounds encrypt_rotate_tab left right)"

record des_ctx =
  encrypt_subkeys :: "word32 list"
  decrypt_subkeys :: "word32 list"

definition reorder_subkeys :: "word32 list \<Rightarrow> word32 list" where
  "reorder_subkeys ks = concat (map (\<lambda>m. [ks ! (30 - 2 * m), ks ! (31 - 2 * m)]) [0..<16])"

definition des_set_key :: "bytes \<Rightarrow> des_ctx" where
  "des_set_key key =
     (let ks = des_key_schedule key
      in \<lparr>encrypt_subkeys = ks, decrypt_subkeys = reorder_subkeys ks\<rparr>)"

text \<open>The unrolled rounds, two at a time: \<open>right\<close> into \<open>left\<close>, then \<open>left\<close> into \<open>right\<close>.\<close>

fun des_rounds :: "word32 list \<Rightarrow> word32 \<times> word32 \<Rightarrow> word32 \<times> word32" where
  "des_rounds (k1 # k2 # k3 # k4 # ks) (left, right) =
     (let left = DES_ROUND right left (k1, k2); right = DES_ROUND left right (k3, k4)
      in des_rounds ks (left, right))"
| "des_rounds _ lr = lr"

definition des_ecb_crypt :: "des_ctx \<Rightarrow> bool \<Rightarrow> bytes \<Rightarrow> bytes" where
  "des_ecb_crypt ctx mode from =
     (let keys = (if mode then decrypt_subkeys ctx else encrypt_subkeys ctx);
          (left, right) = INITIAL_PERMUTATION (READ_64BIT_DATA from);
          (left, right) = des_rounds keys (left, right);
          (right, left) = FINAL_PERMUTATION (right, left)
      in WRITE_64BIT_DATA (right, left))"

subsection \<open>The macros undo each other\<close>

lemma xor_word_cancel [simp]:
  "(a XOR (a XOR b)) = b" "((a XOR b) XOR b) = a" "(a XOR (b XOR a)) = b"
  for a b :: "'a :: len word"
  by (simp_all add: bit_eq_iff bit_xor_iff) auto

lemma DO_PERMUTATION_involution:
  assumes fits: "drop_bit off (push_bit off m) = m"
  shows "DO_PERMUTATION off m (DO_PERMUTATION off m p) = p"
proof -
  obtain a b where p: "p = (a, b)" by (cases p)
  define t where "t = (drop_bit off a XOR b) AND m"
  have dp: "drop_bit off (push_bit off t) = t"
  proof (rule bit_word_eqI)
    fix n assume n: "n < LENGTH(32)"
    have shift: "bit (drop_bit off (push_bit off w)) n \<longleftrightarrow> off + n < 32 \<and> bit w n" for w :: word32
      by (simp add: bit_simps)
    have "bit m n \<longrightarrow> off + n < 32" using shift [of m] unfolding fits by blast
    moreover have "bit t n \<longrightarrow> bit m n" by (simp add: t_def bit_and_iff)
    ultimately show "bit (drop_bit off (push_bit off t)) n = bit t n" unfolding shift by blast
  qed
  have c: "(x XOR t) XOR (b XOR t) = x XOR b" for x
    by (rule bit_word_eqI) (simp only: bit_xor_iff, blast)
  have "(drop_bit off (a XOR push_bit off t) XOR (b XOR t)) AND m = t"
    unfolding drop_bit_xor dp c by (rule t_def [symmetric])
  then show ?thesis unfolding p DO_PERMUTATION_def Let_def prod.case t_def [symmetric] by simp
qed

lemma DO_PERMUTATION_twice [simp]:
  "DO_PERMUTATION 4 0x0f0f0f0f (DO_PERMUTATION 4 0x0f0f0f0f p) = p"
  "DO_PERMUTATION 16 0x0000ffff (DO_PERMUTATION 16 0x0000ffff p) = p"
  "DO_PERMUTATION 2 0x33333333 (DO_PERMUTATION 2 0x33333333 p) = p"
  "DO_PERMUTATION 8 0x00ff00ff (DO_PERMUTATION 8 0x00ff00ff p) = p"
  "DO_PERMUTATION (Suc 0) 0x55555555 (DO_PERMUTATION (Suc 0) 0x55555555 p) = p"
  by (rule DO_PERMUTATION_involution, simp)+

lemma INITIAL_FINAL_PERMUTATION [simp]: "INITIAL_PERMUTATION (FINAL_PERMUTATION p) = p"
  by (simp add: INITIAL_PERMUTATION_def FINAL_PERMUTATION_def split_beta Let_def)

lemma FINAL_INITIAL_PERMUTATION [simp]: "FINAL_PERMUTATION (INITIAL_PERMUTATION p) = p"
  by (simp add: INITIAL_PERMUTATION_def FINAL_PERMUTATION_def split_beta Let_def)

lemma length_WRITE_64BIT_DATA [simp]: "length (WRITE_64BIT_DATA p) = 8"
  by (simp add: WRITE_64BIT_DATA_def WRITE_32BIT_def split_beta)

lemma READ_WRITE_32BIT: "READ_32BIT (WRITE_32BIT w @ xs) = w"
proof (rule bit_word_eqI)
  fix n :: nat assume n: "n < LENGTH(32)"
  have ff: "(0xff :: word32) = mask 8" by (simp add: mask_eq_exp_minus_1)
  have "READ_32BIT (WRITE_32BIT w @ xs) =
      push_bit 24 (ucast (ucast (drop_bit 24 w AND mask 8) :: byte)) OR
      push_bit 16 (ucast (ucast (drop_bit 16 w AND mask 8) :: byte)) OR
      push_bit 8 (ucast (ucast (drop_bit 8 w AND mask 8) :: byte)) OR
      ucast (ucast (w AND mask 8) :: byte)"
    by (simp add: READ_32BIT_def WRITE_32BIT_def ff)
  note eq = this
  from n consider "n < 8" | "8 \<le> n" "n < 16" | "16 \<le> n" "n < 24" | "24 \<le> n" "n < 32"
    by fastforce
  then show "bit (READ_32BIT (WRITE_32BIT w @ xs)) n = bit w n"
    by cases (simp_all add: eq bit_simps less_diff_conv2)
qed

lemma WRITE_READ_32BIT:
  assumes "length d = 4"
  shows "WRITE_32BIT (READ_32BIT d) = d"
proof -
  obtain a b c e where d: "d = [a, b, c, e]"
    using assms by (auto simp: length_Suc_conv eval_nat_numeral)
  have ff: "(0xff :: word32) = mask 8" by (simp add: mask_eq_exp_minus_1)
  show ?thesis unfolding d WRITE_32BIT_def READ_32BIT_def ff
    by simp (intro conjI bit_word_eqI; auto simp: bit_simps dest: bit_imp_le_length)
qed

lemma length_WRITE_32BIT [simp]: "length (WRITE_32BIT w) = 4"
  by (simp add: WRITE_32BIT_def)

lemma READ_WRITE_64BIT [simp]: "READ_64BIT_DATA (WRITE_64BIT_DATA p) = p"
  using READ_WRITE_32BIT [where xs = "[]"]
  by (cases p) (simp add: READ_64BIT_DATA_def WRITE_64BIT_DATA_def READ_WRITE_32BIT)

lemma WRITE_READ_64BIT:
  assumes "length d = 8"
  shows "WRITE_64BIT_DATA (READ_64BIT_DATA d) = d"
proof -
  have "READ_32BIT (take 4 d) = READ_32BIT d" by (simp add: READ_32BIT_def)
  then have "WRITE_32BIT (READ_32BIT d) = take 4 d"
    using WRITE_READ_32BIT [of "take 4 d"] assms by simp
  with WRITE_READ_32BIT [of "drop 4 d"] assms show ?thesis
    by (simp add: WRITE_64BIT_DATA_def READ_64BIT_DATA_def)
qed

subsection \<open>The rounds undo each other\<close>

lemma DES_ROUND_involution [simp]: "DES_ROUND from (DES_ROUND from to k) k = to"
  by (simp add: DES_ROUND_def Let_def ac_simps xor.left_commute)

text \<open>One round in the textbook form, on a pair that is swapped after the round.\<close>

definition feistel :: "word32 \<times> word32 \<Rightarrow> word32 \<times> word32 \<Rightarrow> word32 \<times> word32" where
  "feistel lr k = (snd lr, DES_ROUND (snd lr) (fst lr) k)"

lemma feistel_undo: "feistel (prod.swap (feistel lr k)) k = prod.swap lr"
  by (cases lr) (simp add: feistel_def)

lemma foldl_feistel_undo: "foldl feistel (prod.swap (foldl feistel lr ks)) (rev ks) = prod.swap lr"
proof (induction ks rule: rev_induct)
  case (snoc k ks)
  then show ?case by (simp add: feistel_undo)
qed simp

fun key_pairs :: "'a list \<Rightarrow> ('a \<times> 'a) list" where
  "key_pairs (a # b # xs) = (a, b) # key_pairs xs"
| "key_pairs _ = []"

lemma des_rounds_feistel: "des_rounds ks lr = foldl feistel lr (take (2 * (length ks div 4)) (key_pairs ks))"
proof (induction ks lr rule: des_rounds.induct)
  case (1 k1 k2 k3 k4 ks left right)
  have "(4 + length ks) div 4 = Suc (length ks div 4)" by simp
  with 1 show ?case by (simp add: feistel_def Let_def)
qed simp_all

lemma key_pairs_nth: "key_pairs (concat (map (\<lambda>m. [f m, g m]) ms)) = map (\<lambda>m. (f m, g m)) ms"
  by (induction ms) auto

lemma upt_16: "[0..<16] = [0, 1, 2, 3, 4, 5, 6, 7, 8, 9, 10, 11, 12, 13, 14, 15 :: nat]"
  by code_simp

lemma upt_32: "[0..<32] = [0..<16] @ [16, 17, 18, 19, 20, 21, 22, 23, 24, 25, 26, 27, 28, 29, 30, 31 :: nat]"
  by code_simp

lemma list_32_pairs:
  assumes "length ks = 32"
  shows "ks = concat (map (\<lambda>m. [ks ! (2 * m), ks ! (2 * m + 1)]) [0..<16])"
proof -
  have "ks = map ((!) ks) [0..<32]" using assms by (simp add: map_nth flip: assms)
  also have "\<dots> = concat (map (\<lambda>m. [ks ! (2 * m), ks ! (2 * m + 1)]) [0..<16])"
    by (simp add: upt_32 upt_16)
  finally show ?thesis .
qed

lemma key_pairs_reorder:
  assumes "length ks = 32"
  shows "key_pairs (reorder_subkeys ks) = rev (key_pairs ks)"
proof -
  have "key_pairs ks = map (\<lambda>m. (ks ! (2 * m), ks ! (2 * m + 1))) [0..<16]"
    by (subst list_32_pairs [OF assms]) (rule key_pairs_nth)
  then show ?thesis unfolding reorder_subkeys_def key_pairs_nth by (simp add: upt_16)
qed

lemma length_key_pairs [simp]: "length (key_pairs ks) = length ks div 2"
  by (induction ks rule: key_pairs.induct) auto

lemma length_reorder_subkeys [simp]: "length (reorder_subkeys ks) = 32"
  by (simp add: reorder_subkeys_def upt_16)

lemma length_des_key_rounds [simp]: "length (des_key_rounds ns l r) = 2 * length ns"
  by (induction ns arbitrary: l r) (auto simp: Let_def)

lemma length_des_key_schedule [simp]: "length (des_key_schedule key) = 32"
  by (simp add: des_key_schedule_def split_beta Let_def encrypt_rotate_tab_def)

lemma des_rounds_32: "length ks = 32 \<Longrightarrow> des_rounds ks lr = foldl feistel lr (key_pairs ks)"
  by (simp add: des_rounds_feistel)

text \<open>A context as \<open>des_set_key\<close> leaves it.\<close>

definition des_ctx_ok :: "des_ctx \<Rightarrow> bool" where
  "des_ctx_ok ctx \<longleftrightarrow> length (encrypt_subkeys ctx) = 32 \<and>
     decrypt_subkeys ctx = reorder_subkeys (encrypt_subkeys ctx)"

lemma des_set_key_ok [simp]: "des_ctx_ok (des_set_key key)"
  by (simp add: des_ctx_ok_def des_set_key_def Let_def)

lemma des_ecb_crypt_eq:
  "des_ecb_crypt ctx mode b =
     WRITE_64BIT_DATA (FINAL_PERMUTATION (prod.swap
       (des_rounds (if mode then decrypt_subkeys ctx else encrypt_subkeys ctx)
         (INITIAL_PERMUTATION (READ_64BIT_DATA b)))))"
  by (simp add: des_ecb_crypt_def split_beta Let_def prod.swap_def)

lemma length_des_ecb_crypt [simp]: "length (des_ecb_crypt ctx mode b) = 8"
  by (simp add: des_ecb_crypt_eq)

lemma des_ecb_crypt_inverse:
  assumes ok: "des_ctx_ok ctx" and b: "length b = 8"
  shows "des_ecb_crypt ctx (\<not> mode) (des_ecb_crypt ctx mode b) = b"
proof -
  define ks where "ks = (\<lambda>m. if m then decrypt_subkeys ctx else encrypt_subkeys ctx)"
  have len: "length (ks m) = 32" for m using ok by (simp add: ks_def des_ctx_ok_def)
  have rev: "key_pairs (ks (\<not> mode)) = rev (key_pairs (ks mode))"
    using ok by (simp add: ks_def des_ctx_ok_def key_pairs_reorder)
  have "des_rounds (ks (\<not> mode)) (prod.swap (des_rounds (ks mode) lr)) = prod.swap lr" for lr
    by (simp add: des_rounds_32 len rev foldl_feistel_undo)
  moreover have "des_ecb_crypt ctx m c = WRITE_64BIT_DATA (FINAL_PERMUTATION (prod.swap
      (des_rounds (ks m) (INITIAL_PERMUTATION (READ_64BIT_DATA c)))))" for m c
    unfolding des_ecb_crypt_eq ks_def ..
  ultimately show ?thesis by (simp add: WRITE_READ_64BIT [OF b])
qed

subsection \<open>The buffer routines\<close>

text \<open>
  The loop shared by the ECB routines: whole blocks while eight bytes are left, then the
  rest in a zeroed block.
\<close>

fun ecb_loop :: "(bytes \<Rightarrow> bytes) \<Rightarrow> bytes \<Rightarrow> bytes" where
  "ecb_loop crypt data =
     (if 8 \<le> length data then crypt (take 8 data) @ ecb_loop crypt (drop 8 data)
      else if data \<noteq> [] then crypt (data @ replicate (8 - length data) 0)
      else [])"

declare ecb_loop.simps [simp del]

text \<open>\<open>*outlen\<close> as the routines set it: \<open>len\<close>, plus the length of the partial block.\<close>

definition block_outlen :: "nat \<Rightarrow> nat" where
  "block_outlen len = (let offset = 8 * (len div 8) in if offset < len then len + (len - offset) else len)"

definition des_encrypt :: "des_ctx \<Rightarrow> bytes \<Rightarrow> bytes \<times> nat" where
  "des_encrypt ctx data = (ecb_loop (des_ecb_crypt ctx False) data, block_outlen (length data))"

definition des_decrypt :: "des_ctx \<Rightarrow> bytes \<Rightarrow> bytes \<times> nat" where
  "des_decrypt ctx data = (ecb_loop (des_ecb_crypt ctx True) data, block_outlen (length data))"

datatype PurpleCipherBatchMode = PURPLE_CIPHER_BATCH_MODE_ECB | PURPLE_CIPHER_BATCH_MODE_CBC

record des3_ctx =
  mode3 :: PurpleCipherBatchMode
  iv :: bytes
  key1 :: des_ctx
  key2 :: des_ctx
  key3 :: des_ctx

definition des3_init :: des3_ctx where
  "des3_init = (let z = \<lparr>encrypt_subkeys = replicate 32 0, decrypt_subkeys = replicate 32 0\<rparr>
     in \<lparr>mode3 = PURPLE_CIPHER_BATCH_MODE_ECB, iv = replicate 8 0, key1 = z, key2 = z, key3 = z\<rparr>)"

definition des3_set_key :: "des3_ctx \<Rightarrow> bytes \<Rightarrow> des3_ctx" where
  "des3_set_key ctx key = ctx\<lparr>key1 := des_set_key key, key2 := des_set_key (drop 8 key),
                              key3 := des_set_key (drop 16 key)\<rparr>"

definition des3_set_batch :: "des3_ctx \<Rightarrow> PurpleCipherBatchMode \<Rightarrow> des3_ctx" where
  "des3_set_batch ctx m = ctx\<lparr>mode3 := m\<rparr>"

definition des3_get_batch :: "des3_ctx \<Rightarrow> PurpleCipherBatchMode" where
  "des3_get_batch ctx = mode3 ctx"

definition des3_set_iv :: "des3_ctx \<Rightarrow> bytes \<Rightarrow> des3_ctx" where
  "des3_set_iv ctx v = (if length v = 8 then ctx\<lparr>iv := v\<rparr> else ctx)"

text \<open>The three block calls of the loop bodies.\<close>

definition des3_block_encrypt :: "des3_ctx \<Rightarrow> bytes \<Rightarrow> bytes" where
  "des3_block_encrypt ctx b =
     des_ecb_crypt (key3 ctx) False (des_ecb_crypt (key2 ctx) True (des_ecb_crypt (key1 ctx) False b))"

definition des3_block_decrypt :: "des3_ctx \<Rightarrow> bytes \<Rightarrow> bytes" where
  "des3_block_decrypt ctx b =
     des_ecb_crypt (key1 ctx) True (des_ecb_crypt (key2 ctx) False (des_ecb_crypt (key3 ctx) True b))"

definition des3_ecb_encrypt :: "des3_ctx \<Rightarrow> bytes \<Rightarrow> bytes \<times> nat" where
  "des3_ecb_encrypt ctx data = (ecb_loop (des3_block_encrypt ctx) data, block_outlen (length data))"

definition des3_ecb_decrypt :: "des3_ctx \<Rightarrow> bytes \<Rightarrow> bytes \<times> nat" where
  "des3_ecb_decrypt ctx data = (ecb_loop (des3_block_decrypt ctx) data, block_outlen (length data))"

text \<open>\<open>buf[i] ^= data[i]\<close> for the bytes of \<open>data\<close>.\<close>

definition xor_into :: "bytes \<Rightarrow> bytes \<Rightarrow> bytes" where
  "xor_into buf data = map2 (XOR) buf data @ drop (length data) buf"

fun cbc_encrypt_loop :: "(bytes \<Rightarrow> bytes) \<Rightarrow> bytes \<Rightarrow> bytes \<Rightarrow> bytes" where
  "cbc_encrypt_loop crypt buf data =
     (if 8 \<le> length data
      then let out = crypt (xor_into buf (take 8 data)) in out @ cbc_encrypt_loop crypt out (drop 8 data)
      else if data \<noteq> [] then crypt (xor_into buf data)
      else [])"

fun cbc_decrypt_loop :: "(bytes \<Rightarrow> bytes) \<Rightarrow> bytes \<Rightarrow> bytes \<Rightarrow> bytes" where
  "cbc_decrypt_loop crypt link data =
     (if 8 \<le> length data
      then xor_into (crypt (take 8 data)) link @ cbc_decrypt_loop crypt (take 8 data) (drop 8 data)
      else if data \<noteq> [] then xor_into (crypt (data @ replicate (8 - length data) 0)) link
      else [])"

declare cbc_encrypt_loop.simps [simp del] cbc_decrypt_loop.simps [simp del]

definition des3_cbc_encrypt :: "des3_ctx \<Rightarrow> bytes \<Rightarrow> bytes \<times> nat" where
  "des3_cbc_encrypt ctx data =
     (cbc_encrypt_loop (des3_block_encrypt ctx) (iv ctx) data, block_outlen (length data))"

definition des3_cbc_decrypt :: "des3_ctx \<Rightarrow> bytes \<Rightarrow> bytes \<times> nat" where
  "des3_cbc_decrypt ctx data =
     (cbc_decrypt_loop (des3_block_decrypt ctx) (iv ctx) data, block_outlen (length data))"

definition des3_encrypt :: "des3_ctx \<Rightarrow> bytes \<Rightarrow> bytes \<times> nat" where
  "des3_encrypt ctx data =
     (case mode3 ctx of
        PURPLE_CIPHER_BATCH_MODE_ECB \<Rightarrow> des3_ecb_encrypt ctx data
      | PURPLE_CIPHER_BATCH_MODE_CBC \<Rightarrow> des3_cbc_encrypt ctx data)"

definition des3_decrypt :: "des3_ctx \<Rightarrow> bytes \<Rightarrow> bytes \<times> nat" where
  "des3_decrypt ctx data =
     (case mode3 ctx of
        PURPLE_CIPHER_BATCH_MODE_ECB \<Rightarrow> des3_ecb_decrypt ctx data
      | PURPLE_CIPHER_BATCH_MODE_CBC \<Rightarrow> des3_cbc_decrypt ctx data)"

subsection \<open>Block ciphers in ECB and CBC mode\<close>

text \<open>
  What the buffer loops rely on: a block routine and its inverse on blocks of eight bytes.
  The round trips of both modes are proved here once, for DES and for the
  encrypt-decrypt-encrypt composition of Triple-DES.
\<close>

definition zero_padded :: "bytes \<Rightarrow> bytes" where
  "zero_padded data = (if length data mod 8 = 0 then data else data @ replicate (8 - length data mod 8) 0)"

lemma zero_padded_drop: "8 \<le> length data \<Longrightarrow> zero_padded data = take 8 data @ zero_padded (drop 8 data)"
  by (simp add: zero_padded_def le_mod_geq)

lemma zero_padded_short: "length data < 8 \<Longrightarrow> data \<noteq> [] \<Longrightarrow> zero_padded data = data @ replicate (8 - length data) 0"
  by (simp add: zero_padded_def)

lemma zero_padded_Nil [simp]: "zero_padded [] = []"
  by (simp add: zero_padded_def)

lemma length_xor_into [simp]: "length (xor_into buf data) = max (length buf) (min (length buf) (length data))"
  by (simp add: xor_into_def)

lemma xor_into_twice: "length data \<le> length buf \<Longrightarrow> xor_into (xor_into buf data) data = buf"
proof (induction data arbitrary: buf)
  case (Cons x data)
  then show ?case by (cases buf) (auto simp: xor_into_def)
qed (simp add: xor_into_def)

lemma xor_into_replicate: "xor_into xs (replicate n 0) = xs"
proof (induction n arbitrary: xs)
  case (Suc n)
  then show ?case by (cases xs) (auto simp: xor_into_def)
qed (simp add: xor_into_def)

lemma xor_into_padded:
  "length data \<le> length buf \<Longrightarrow>
   xor_into buf data = xor_into buf (data @ replicate (length buf - length data) 0)"
proof (induction data arbitrary: buf)
  case Nil
  then show ?case by (simp add: xor_into_replicate) (simp add: xor_into_def)
next
  case (Cons x data)
  then show ?case by (cases buf) (auto simp: xor_into_def)
qed

lemma xor_into_cancel: "length a = length b \<Longrightarrow> xor_into (xor_into a b) a = b"
  by (induction a b rule: list_induct2) (auto simp: xor_into_def xor.commute)

lemma chunks8_induct [case_names chunk rest empty]:
  assumes "\<And>data. 8 \<le> length data \<Longrightarrow> P (drop 8 data) \<Longrightarrow> P data"
    and "\<And>data. length data < 8 \<Longrightarrow> data \<noteq> [] \<Longrightarrow> P data" and "P []"
  shows "P data"
proof (induction data rule: length_induct)
  case (1 data)
  show ?case
  proof (cases "8 \<le> length data")
    case True
    then have "P (drop 8 data)" using 1 by simp
    with True show ?thesis by (rule assms(1))
  next
    case False
    then show ?thesis using assms(2,3) by (cases "data = []") auto
  qed
qed

locale block_cipher =
  fixes enc dec :: "bytes \<Rightarrow> bytes"
  assumes dec_enc: "length b = 8 \<Longrightarrow> dec (enc b) = b"
    and enc_dec: "length b = 8 \<Longrightarrow> enc (dec b) = b"
    and length_enc: "length (enc b) = 8"
    and length_dec: "length (dec b) = 8"
begin

lemma ecb_roundtrip: "ecb_loop dec (ecb_loop enc data) = zero_padded data"
proof (induction data rule: chunks8_induct)
  case (chunk data)
  then show ?case
    by (simp add: ecb_loop.simps [of enc data] ecb_loop.simps [of dec "enc _ @ _"]
        length_enc dec_enc zero_padded_drop [of data])
next
  case (rest data)
  then show ?case
    by (simp add: ecb_loop.simps [of enc data] ecb_loop.simps [of dec "enc _"] ecb_loop.simps [of dec "[]"]
        length_enc dec_enc zero_padded_short)
qed (simp add: ecb_loop.simps)

lemma cbc_roundtrip:
  "length v = 8 \<Longrightarrow> cbc_decrypt_loop dec v (cbc_encrypt_loop enc v data) = zero_padded data"
proof (induction data arbitrary: v rule: chunks8_induct)
  case (chunk data)
  then show ?case
    by (simp add: cbc_encrypt_loop.simps [of enc v data] cbc_decrypt_loop.simps [of dec v "enc _ @ _"]
        length_enc dec_enc zero_padded_drop [of data] Let_def xor_into_cancel)
next
  case (rest data)
  then show ?case
    by (simp add: cbc_encrypt_loop.simps [of enc v data] cbc_decrypt_loop.simps [of dec v "enc _"]
        cbc_decrypt_loop.simps [of dec _ "[]"] length_enc dec_enc zero_padded_short
        xor_into_padded [of data v] xor_into_cancel)
qed (simp add: cbc_encrypt_loop.simps cbc_decrypt_loop.simps)

end

lemma block_cipher_ede:
  assumes "block_cipher e1 d1" and "block_cipher e2 d2" and "block_cipher e3 d3"
  shows "block_cipher (\<lambda>b. e3 (d2 (e1 b))) (\<lambda>b. d1 (e2 (d3 b)))"
  using assms by (auto simp: block_cipher_def)

lemma des_block_cipher:
  "des_ctx_ok ctx \<Longrightarrow> block_cipher (des_ecb_crypt ctx False) (des_ecb_crypt ctx True)"
  using des_ecb_crypt_inverse [of ctx _ False] des_ecb_crypt_inverse [of ctx _ True]
  by unfold_locales auto

interpretation des: block_cipher "des_ecb_crypt (des_set_key key) False" "des_ecb_crypt (des_set_key key) True"
  for key
  by (rule des_block_cipher) simp

definition des3_ctx_ok :: "des3_ctx \<Rightarrow> bool" where
  "des3_ctx_ok ctx \<longleftrightarrow> des_ctx_ok (key1 ctx) \<and> des_ctx_ok (key2 ctx) \<and> des_ctx_ok (key3 ctx) \<and> length (iv ctx) = 8"

interpretation des3: block_cipher "des3_block_encrypt (des3_set_key ctx key)"
    "des3_block_decrypt (des3_set_key ctx key)"
  for ctx key
  unfolding des3_block_encrypt_def des3_block_decrypt_def
  by (rule block_cipher_ede [OF des_block_cipher des_block_cipher des_block_cipher])
     (simp_all add: des3_set_key_def)

lemma des3_block_mode [simp]:
  "des3_block_encrypt (c\<lparr>iv := v\<rparr>) = des3_block_encrypt c"
  "des3_block_decrypt (c\<lparr>iv := v\<rparr>) = des3_block_decrypt c"
  "des3_block_encrypt (c\<lparr>mode3 := m\<rparr>) = des3_block_encrypt c"
  "des3_block_decrypt (c\<lparr>mode3 := m\<rparr>) = des3_block_decrypt c"
  by (simp_all add: des3_block_encrypt_def des3_block_decrypt_def fun_eq_iff)

lemma length_ecb_loop:
  "(\<And>b. length (crypt b) = 8) \<Longrightarrow> length (ecb_loop crypt data) = length (zero_padded data)"
  by (induction data rule: chunks8_induct)
     (auto simp: ecb_loop.simps [of crypt] zero_padded_drop zero_padded_short)

lemma length_cbc_encrypt_loop:
  "(\<And>b. length (crypt b) = 8) \<Longrightarrow> length (cbc_encrypt_loop crypt v data) = length (zero_padded data)"
  by (induction data arbitrary: v rule: chunks8_induct)
     (auto simp: cbc_encrypt_loop.simps [of crypt] zero_padded_drop zero_padded_short Let_def)

lemma block_outlen_padded:
  "block_outlen (length data) = length (zero_padded data) \<longleftrightarrow> length data mod 8 \<in> {0, 4}"
proof -
  define q where "q = length data div 8"
  define r where "r = length data mod 8"
  have len: "length data = 8 * q + r" unfolding q_def r_def by simp
  have r: "r < 8" unfolding r_def by simp
  have "length (zero_padded data) = (if r = 0 then 8 * q else 8 * q + 8)"
    using r by (simp add: zero_padded_def len)
  moreover have "block_outlen (length data) = 8 * q + 2 * r"
    using r by (simp add: block_outlen_def len Let_def)
  ultimately show ?thesis using r unfolding len by auto
qed

subsection \<open>Properties\<close>

text \<open>C26: Decrypting what \<open>des_encrypt\<close> wrote under the same key gives the data back, filled up with
  zero bytes to whole blocks, for every key and every data.\<close>

theorem des_roundtrip:
  "fst (des_decrypt (des_set_key key) (fst (des_encrypt (des_set_key key) data))) = zero_padded data"
  by (simp add: des_encrypt_def des_decrypt_def des.ecb_roundtrip)

text \<open>C32: The same for Triple-DES in both batch modes, for every 24-byte key and every initialisation
  vector handed to \<open>des3_set_iv\<close> (which keeps the old one unless it has eight bytes).\<close>

theorem des3_roundtrip:
  "fst (des3_decrypt (des3_set_iv (des3_set_batch (des3_set_key des3_init key) m) v)
     (fst (des3_encrypt (des3_set_iv (des3_set_batch (des3_set_key des3_init key) m) v) data)))
   = zero_padded data"
proof -
  have "length (iv (des3_set_key des3_init key)) = 8" by (simp add: des3_set_key_def des3_init_def Let_def)
  then show ?thesis
    by (cases m) (simp_all add: des3_encrypt_def des3_decrypt_def des3_set_iv_def des3_set_batch_def
        des3_ecb_encrypt_def des3_ecb_decrypt_def des3_cbc_encrypt_def des3_cbc_decrypt_def
        des3.ecb_roundtrip des3.cbc_roundtrip)
qed

text \<open>The length the encryption routines report is the number of bytes they wrote only for data
  whose last block has no bytes or four: they add the size of the rest where they wrote a
  whole block.\<close>

theorem des_outlen_wrong:
  "(snd (des_encrypt ctx data) = length (fst (des_encrypt ctx data)) \<longleftrightarrow> length data mod 8 \<in> {0, 4}) \<and>
   (snd (des3_encrypt ctx3 data) = length (fst (des3_encrypt ctx3 data)) \<longleftrightarrow> length data mod 8 \<in> {0, 4})"
proof -
  have "length (des3_block_encrypt ctx3 b) = 8" for b by (simp add: des3_block_encrypt_def)
  then show ?thesis
    by (auto simp: des_encrypt_def des3_encrypt_def des3_ecb_encrypt_def des3_cbc_encrypt_def
        length_ecb_loop length_cbc_encrypt_loop block_outlen_padded
        split: PurpleCipherBatchMode.splits)
qed

end
