(* ===== verification/Cipher_Md4.thy ===== *)
theory Cipher_Md4
  imports Purple_Base
begin

section \<open>MD4 (\<open>libpurple/ciphers/md4.c\<close>)\<close>

text \<open>
  \<open>struct MD4_Context\<close> is a record: the four chaining words, the 64-byte block (the code
  fills it through a \<open>char *\<close> and reads it as sixteen \<open>guint32\<close>, so it is kept as bytes
  and \<open>block_words\<close> is the little-endian reading that \<open>le32_to_cpu_array\<close> gives on every
  host) and the 64-bit byte counter.  The specification is RFC 1320's: the compression
  function folded over the padded message.  The theorems say that however the message is
  cut into calls of \<open>md4_append\<close>, \<open>md4_digest\<close> returns that.
\<close>

type_synonym word32 = "32 word"
type_synonym word64 = "64 word"

record md4_ctx =
  hash :: "word32 list"
  block :: bytes
  byte_count :: word64

subsection \<open>The compression function\<close>

definition lshift :: "word32 \<Rightarrow> nat \<Rightarrow> word32" where
  "lshift x s = (let x = x AND 0xFFFFFFFF in (push_bit s x AND 0xFFFFFFFF) OR drop_bit (32 - s) x)"

definition md4_F :: "word32 \<Rightarrow> word32 \<Rightarrow> word32 \<Rightarrow> word32" where
  "md4_F x y z = (x AND y) OR (NOT x AND z)"

definition md4_G :: "word32 \<Rightarrow> word32 \<Rightarrow> word32 \<Rightarrow> word32" where
  "md4_G x y z = (x AND y) OR (x AND z) OR (y AND z)"

definition md4_H :: "word32 \<Rightarrow> word32 \<Rightarrow> word32 \<Rightarrow> word32" where
  "md4_H x y z = x XOR y XOR z"

text \<open>The new value that each macro assigns to its first argument.\<close>

definition ROUND1 :: "word32 \<Rightarrow> word32 \<Rightarrow> word32 \<Rightarrow> word32 \<Rightarrow> word32 \<Rightarrow> nat \<Rightarrow> word32" where
  "ROUND1 a b c d k s = lshift (a + md4_F b c d + k) s"

definition ROUND2 :: "word32 \<Rightarrow> word32 \<Rightarrow> word32 \<Rightarrow> word32 \<Rightarrow> word32 \<Rightarrow> nat \<Rightarrow> word32" where
  "ROUND2 a b c d k s = lshift (a + md4_G b c d + k + 0x5A827999) s"

definition ROUND3 :: "word32 \<Rightarrow> word32 \<Rightarrow> word32 \<Rightarrow> word32 \<Rightarrow> word32 \<Rightarrow> nat \<Rightarrow> word32" where
  "ROUND3 a b c d k s = lshift (a + md4_H b c d + k + 0x6ED9EBA1) s"

definition md4_transform :: "word32 list \<Rightarrow> word32 list \<Rightarrow> word32 list" where
  "md4_transform hsh inp =
     (let a = hsh ! 0; b = hsh ! 1; c = hsh ! 2; d = hsh ! 3;
          a = ROUND1 a b c d (inp ! 0) 3;
          d = ROUND1 d a b c (inp ! 1) 7;
          c = ROUND1 c d a b (inp ! 2) 11;
          b = ROUND1 b c d a (inp ! 3) 19;
          a = ROUND1 a b c d (inp ! 4) 3;
          d = ROUND1 d a b c (inp ! 5) 7;
          c = ROUND1 c d a b (inp ! 6) 11;
          b = ROUND1 b c d a (inp ! 7) 19;
          a = ROUND1 a b c d (inp ! 8) 3;
          d = ROUND1 d a b c (inp ! 9) 7;
          c = ROUND1 c d a b (inp ! 10) 11;
          b = ROUND1 b c d a (inp ! 11) 19;
          a = ROUND1 a b c d (inp ! 12) 3;
          d = ROUND1 d a b c (inp ! 13) 7;
          c = ROUND1 c d a b (inp ! 14) 11;
          b = ROUND1 b c d a (inp ! 15) 19;
          a = ROUND2 a b c d (inp ! 0) 3;
          d = ROUND2 d a b c (inp ! 4) 5;
          c = ROUND2 c d a b (inp ! 8) 9;
          b = ROUND2 b c d a (inp ! 12) 13;
          a = ROUND2 a b c d (inp ! 1) 3;
          d = ROUND2 d a b c (inp ! 5) 5;
          c = ROUND2 c d a b (inp ! 9) 9;
          b = ROUND2 b c d a (inp ! 13) 13;
          a = ROUND2 a b c d (inp ! 2) 3;
          d = ROUND2 d a b c (inp ! 6) 5;
          c = ROUND2 c d a b (inp ! 10) 9;
          b = ROUND2 b c d a (inp ! 14) 13;
          a = ROUND2 a b c d (inp ! 3) 3;
          d = ROUND2 d a b c (inp ! 7) 5;
          c = ROUND2 c d a b (inp ! 11) 9;
          b = ROUND2 b c d a (inp ! 15) 13;
          a = ROUND3 a b c d (inp ! 0) 3;
          d = ROUND3 d a b c (inp ! 8) 9;
          c = ROUND3 c d a b (inp ! 4) 11;
          b = ROUND3 b c d a (inp ! 12) 15;
          a = ROUND3 a b c d (inp ! 2) 3;
          d = ROUND3 d a b c (inp ! 10) 9;
          c = ROUND3 c d a b (inp ! 6) 11;
          b = ROUND3 b c d a (inp ! 14) 15;
          a = ROUND3 a b c d (inp ! 1) 3;
          d = ROUND3 d a b c (inp ! 9) 9;
          c = ROUND3 c d a b (inp ! 5) 11;
          b = ROUND3 b c d a (inp ! 13) 15;
          a = ROUND3 a b c d (inp ! 3) 3;
          d = ROUND3 d a b c (inp ! 11) 9;
          c = ROUND3 c d a b (inp ! 7) 11;
          b = ROUND3 b c d a (inp ! 15) 15
      in [hsh ! 0 + a, hsh ! 1 + b, hsh ! 2 + c, hsh ! 3 + d])"

text \<open>The little-endian readings of memory, and \<open>GUINT_TO_LE\<close> followed by \<open>memcpy\<close>.\<close>

definition le32 :: "bytes \<Rightarrow> word32" where
  "le32 b = ucast (b ! 0) OR push_bit 8 (ucast (b ! 1)) OR push_bit 16 (ucast (b ! 2)) OR
            push_bit 24 (ucast (b ! 3))"

definition to_le32 :: "word32 \<Rightarrow> bytes" where
  "to_le32 w = [ucast w, ucast (drop_bit 8 w), ucast (drop_bit 16 w), ucast (drop_bit 24 w)]"

definition block_words :: "bytes \<Rightarrow> word32 list" where
  "block_words b = map (\<lambda>i. le32 (drop (4 * i) b)) [0..<16]"

definition md4_transform_helper :: "md4_ctx \<Rightarrow> md4_ctx" where
  "md4_transform_helper ctx = ctx\<lparr>hash := md4_transform (hash ctx) (block_words (block ctx))\<rparr>"

subsection \<open>The cipher operations\<close>

definition md4_iv :: "word32 list" where
  "md4_iv = [0x67452301, 0xefcdab89, 0x98badcfe, 0x10325476]"

definition md4_reset :: "md4_ctx \<Rightarrow> md4_ctx" where
  "md4_reset ctx = ctx\<lparr>hash := md4_iv, byte_count := 0\<rparr>"

definition md4_init :: md4_ctx where
  "md4_init =
     (let mctx = md4_reset \<lparr>hash = replicate 4 0, block = replicate 64 0, byte_count = 0\<rparr>
      in mctx\<lparr>hash := md4_iv, byte_count := 0\<rparr>)"

text \<open>The loop of \<open>md4_append\<close> on the whole blocks, and the \<open>memcpy\<close> of the rest.\<close>

function md4_append_loop :: "md4_ctx \<Rightarrow> bytes \<Rightarrow> md4_ctx" where
  "md4_append_loop mctx data =
     (if 64 \<le> length data
      then md4_append_loop (md4_transform_helper (mctx\<lparr>block := memcpy_at 0 (take 64 data) (block mctx)\<rparr>))
             (drop 64 data)
      else mctx\<lparr>block := memcpy_at 0 data (block mctx)\<rparr>)"
  by pat_completeness auto
termination by (relation "measure (\<lambda>(_, data). length data)") auto

declare md4_append_loop.simps [simp del]

definition md4_append :: "md4_ctx \<Rightarrow> bytes \<Rightarrow> md4_ctx" where
  "md4_append mctx data =
     (let avail = 64 - unat (byte_count mctx AND 0x3f);
          mctx = mctx\<lparr>byte_count := byte_count mctx + of_nat (length data)\<rparr>
      in if length data < avail
         then mctx\<lparr>block := memcpy_at (64 - avail) data (block mctx)\<rparr>
         else md4_append_loop
                (md4_transform_helper (mctx\<lparr>block := memcpy_at (64 - avail) (take avail data) (block mctx)\<rparr>))
                (drop avail data))"

text \<open>
  \<open>md4_digest\<close>: \<open>None\<close> is \<open>FALSE\<close>.  \<open>padding\<close> is an \<open>int\<close>; the two stores into
  \<open>block[14]\<close> and \<open>block[15]\<close> truncate to 32 bits.
\<close>

definition md4_digest :: "md4_ctx \<Rightarrow> nat \<Rightarrow> bytes option \<times> md4_ctx" where
  "md4_digest mctx in_len =
     (let offset = unat (byte_count mctx AND 0x3f);
          padding = 56 - (int offset + 1)
      in if in_len < 16 then (None, mctx)
         else
           let mctx = mctx\<lparr>block := memcpy_at offset [0x80] (block mctx)\<rparr>;
               (mctx, p, padding) =
                 (if padding < 0
                  then (md4_transform_helper
                          (mctx\<lparr>block := memcpy_at (offset + 1) (replicate (nat (padding + 8)) 0) (block mctx)\<rparr>),
                        0, 56)
                  else (mctx, offset + 1, padding));
               mctx = mctx\<lparr>block := memcpy_at p (replicate (nat padding) 0) (block mctx)\<rparr>;
               mctx = mctx\<lparr>block := memcpy_at 56 (to_le32 (ucast (push_bit 3 (byte_count mctx)))) (block mctx)\<rparr>;
               mctx = mctx\<lparr>block := memcpy_at 60 (to_le32 (ucast (drop_bit 29 (byte_count mctx)))) (block mctx)\<rparr>;
               mctx = md4_transform_helper mctx
           in (Some (concat (map to_le32 (hash mctx))),
               \<lparr>hash = replicate 4 0, block = replicate 64 0, byte_count = 0\<rparr>))"

definition md4_get_block_size :: "md4_ctx \<Rightarrow> nat" where
  "md4_get_block_size ctx = 64"

subsection \<open>The specification\<close>

text \<open>Chaining over the whole blocks of a message.\<close>

function md4_blocks :: "word32 list \<Rightarrow> bytes \<Rightarrow> word32 list" where
  "md4_blocks h m =
     (if 64 \<le> length m then md4_blocks (md4_transform h (block_words (take 64 m))) (drop 64 m) else h)"
  by pat_completeness auto
termination by (relation "measure (\<lambda>(_, m). length m)") auto

declare md4_blocks.simps [simp del]

text \<open>
  Step 1 and 2 of RFC 1320: a byte \<open>0x80\<close>, zero bytes up to 56 modulo 64, and the number of
  bits of the message, modulo \<open>2 ^ 64\<close>, low word first.
\<close>

definition md4_pad :: "bytes \<Rightarrow> bytes" where
  "md4_pad m =
     (let bits = of_nat (8 * length m) :: word64
      in m @ 0x80 # replicate ((119 - length m mod 64) mod 64) 0 @
         to_le32 (ucast bits) @ to_le32 (ucast (drop_bit 32 bits)))"

definition md4_spec :: "bytes \<Rightarrow> bytes" where
  "md4_spec m = concat (map to_le32 (md4_blocks md4_iv (md4_pad m)))"

text \<open>The context after the bytes \<open>m\<close> have been appended.\<close>

definition md4_repr :: "md4_ctx \<Rightarrow> bytes \<Rightarrow> bool" where
  "md4_repr ctx m \<longleftrightarrow>
     hash ctx = md4_blocks md4_iv m \<and> byte_count ctx = of_nat (length m) \<and> length (block ctx) = 64 \<and>
     take (length m mod 64) (block ctx) = drop (length m - length m mod 64) m"

subsection \<open>Appending\<close>

lemma md4_blocks_short [simp]: "length m < 64 \<Longrightarrow> md4_blocks h m = h"
  by (simp add: md4_blocks.simps)

lemma md4_blocks_append:
  "length a mod 64 = 0 \<Longrightarrow> md4_blocks h (a @ b) = md4_blocks (md4_blocks h a) b"
proof (induction h a rule: md4_blocks.induct)
  case (1 h m)
  show ?case
  proof (cases "64 \<le> length m")
    case True
    then have "length (drop 64 m) mod 64 = 0" using 1(2) by (simp add: le_mod_geq)
    with 1(1) True show ?thesis by (simp add: md4_blocks.simps [of h "m @ b"] md4_blocks.simps [of h m])
  next
    case False
    with 1(2) have "m = []" by auto
    then show ?thesis by simp
  qed
qed

lemma md4_blocks_one: "length b = 64 \<Longrightarrow> md4_blocks h b = md4_transform h (block_words b)"
  by (simp add: md4_blocks.simps)

lemma whole_and_rest:
  obtains w t where "m = w @ t" "length w mod 64 = 0" "length t = length m mod 64"
    "t = drop (length m - length m mod 64) m"
proof
  let ?k = "length m - length m mod 64"
  show "m = take ?k m @ drop ?k m" by simp
  have "?k = 64 * (length m div 64)" by (simp add: minus_mod_eq_mult_div)
  then show "length (take ?k m) mod 64 = 0" by simp
  show "length (drop ?k m) = length m mod 64" by (simp add: mod_less_eq_dividend)
qed rule

lemma md4_reprI:
  assumes "hash ctx = md4_blocks md4_iv w" and "length w mod 64 = 0" and "length t < 64"
    and "byte_count ctx = of_nat (length w + length t)" and "length (block ctx) = 64"
    and "take (length t) (block ctx) = t"
  shows "md4_repr ctx (w @ t)"
proof -
  have "(length w + length t) mod 64 = length t" using assms(2,3) by (simp flip: mod_add_eq)
  with assms show ?thesis by (simp add: md4_repr_def md4_blocks_append)
qed

lemma unat_and_3f: "unat (x AND 0x3f) = unat x mod 64" for x :: word64
proof -
  have "(0x3f :: word64) = mask 6" by (simp add: mask_eq_exp_minus_1)
  then have eq: "x AND 0x3f = take_bit 6 x" by (simp only: take_bit_eq_mask)
  show ?thesis unfolding eq unsigned_take_bit_eq by (simp add: take_bit_eq_mod)
qed

lemma md4_reprE:
  assumes "md4_repr ctx m"
  obtains w t where "m = w @ t" "length w mod 64 = 0" "length t < 64"
    "hash ctx = md4_blocks md4_iv w" "byte_count ctx = of_nat (length w + length t)"
    "length (block ctx) = 64" "take (length t) (block ctx) = t"
    "unat (byte_count ctx AND 0x3f) = length t"
proof -
  obtain w t where w: "m = w @ t" "length w mod 64 = 0" "length t = length m mod 64"
    "t = drop (length m - length m mod 64) m" by (rule whole_and_rest)
  have t: "length t < 64" using w(3) by simp
  have bc: "byte_count ctx = of_nat (length m)" using assms by (simp add: md4_repr_def)
  have "unat (byte_count ctx AND 0x3f) = unat (byte_count ctx) mod 64" by (rule unat_and_3f)
  also have "\<dots> = length m mod 64"
    unfolding bc by (simp add: unat_of_nat) (rule mod_mod_cancel, simp)
  finally have off: "unat (byte_count ctx AND 0x3f) = length t" using w(3) by simp
  show ?thesis
  proof (rule that [OF w(1,2) t])
    show "hash ctx = md4_blocks md4_iv w"
      using assms t by (simp add: md4_repr_def w(1) md4_blocks_append [OF w(2)])
    show "byte_count ctx = of_nat (length w + length t)" unfolding bc by (simp add: w(1))
    show "length (block ctx) = 64" using assms by (simp add: md4_repr_def)
    show "take (length t) (block ctx) = t" using assms w(3,4) by (simp add: md4_repr_def)
  qed (rule off)
qed

lemma md4_append_loop_repr:
  assumes "hash ctx = md4_blocks md4_iv w" and "length w mod 64 = 0" and "length (block ctx) = 64"
    and "byte_count ctx = of_nat (length w + length data)"
  shows "md4_repr (md4_append_loop ctx data) (w @ data)"
  using assms
proof (induction ctx data arbitrary: w rule: md4_append_loop.induct)
  case (1 ctx data)
  show ?case
  proof (cases "64 \<le> length data")
    case True
    let ?ctx = "md4_transform_helper (ctx\<lparr>block := memcpy_at 0 (take 64 data) (block ctx)\<rparr>)"
    have blk: "memcpy_at 0 (take 64 data) (block ctx) = take 64 data"
      using True 1(4) by (simp add: memcpy_at_def)
    have "md4_repr (md4_append_loop ?ctx (drop 64 data)) ((w @ take 64 data) @ drop 64 data)"
    proof (rule 1(1) [OF True])
      show "hash ?ctx = md4_blocks md4_iv (w @ take 64 data)"
        using True 1(2,3) by (simp add: md4_transform_helper_def blk md4_blocks_append md4_blocks_one)
      show "length (w @ take 64 data) mod 64 = 0" using True 1(3) by simp
      show "length (block ?ctx) = 64" using True by (simp add: md4_transform_helper_def blk)
      show "byte_count ?ctx = of_nat (length (w @ take 64 data) + length (drop 64 data))"
        using True 1(5) by (simp add: md4_transform_helper_def)
    qed
    then show ?thesis using True by (simp add: md4_append_loop.simps [of ctx])
  next
    case False
    with 1(2-) show ?thesis
      by (simp add: md4_append_loop.simps [of ctx]) (rule md4_reprI, auto simp: memcpy_at_def)
  qed
qed

lemma md4_repr_append:
  assumes "md4_repr ctx m"
  shows "md4_repr (md4_append ctx data) (m @ data)"
proof -
  obtain w t where wt: "m = w @ t" "length w mod 64 = 0" "length t < 64"
    "hash ctx = md4_blocks md4_iv w" "byte_count ctx = of_nat (length w + length t)"
    "length (block ctx) = 64" "take (length t) (block ctx) = t"
    and off: "unat (byte_count ctx AND 0x3f) = length t"
    using assms by (rule md4_reprE)
  show ?thesis
  proof (cases "length data < 64 - length t")
    case True
    have eq: "md4_append ctx data = ctx\<lparr>byte_count := byte_count ctx + of_nat (length data),
        block := memcpy_at (length t) data (block ctx)\<rparr>"
      using True wt(3) by (simp add: md4_append_def off Let_def)
    have "md4_repr (md4_append ctx data) (w @ (t @ data))"
      unfolding eq using True wt by (intro md4_reprI) (simp_all add: memcpy_at_def)
    then show ?thesis by (simp add: wt)
  next
    case False
    let ?ctx = "md4_transform_helper (ctx\<lparr>byte_count := byte_count ctx + of_nat (length data),
       block := memcpy_at (length t) (take (64 - length t) data) (block ctx)\<rparr>)"
    have blk: "memcpy_at (length t) (take (64 - length t) data) (block ctx) = t @ take (64 - length t) data"
      using False wt by (simp add: memcpy_at_def)
    have eq: "md4_append ctx data = md4_append_loop ?ctx (drop (64 - length t) data)"
      using False wt(3) by (simp add: md4_append_def off Let_def)
    have "md4_repr (md4_append ctx data)
        ((w @ t @ take (64 - length t) data) @ drop (64 - length t) data)"
      unfolding eq using False wt
      by (intro md4_append_loop_repr)
        (simp_all add: md4_transform_helper_def blk md4_blocks_append md4_blocks_one)
    then show ?thesis by (simp add: wt)
  qed
qed

lemma md4_repr_reset: "length (block ctx) = 64 \<Longrightarrow> md4_repr (md4_reset ctx) []"
  by (simp add: md4_repr_def md4_reset_def)

lemma md4_repr_init: "md4_repr md4_init []"
  by (simp add: md4_repr_def md4_init_def md4_reset_def)

subsection \<open>The digest\<close>

lemma to_le32_length [simp]: "length (to_le32 w) = 4"
  by (simp add: to_le32_def)

lemma bit_length_words:
  "ucast (push_bit 3 (of_nat n :: word64)) = (ucast (of_nat (8 * n) :: word64) :: word32)"
  "ucast (drop_bit 29 (of_nat n :: word64)) = (ucast (drop_bit 32 (of_nat (8 * n) :: word64)) :: word32)"
proof -
  have eq: "(of_nat (8 * n) :: word64) = push_bit 3 (of_nat n)"
    by (simp add: push_bit_eq_mult)
  show "ucast (push_bit 3 (of_nat n :: word64)) = (ucast (of_nat (8 * n) :: word64) :: word32)"
    unfolding eq ..
  show "ucast (drop_bit 29 (of_nat n :: word64)) = (ucast (drop_bit 32 (of_nat (8 * n) :: word64)) :: word32)"
    unfolding eq by (rule bit_word_eqI) (auto simp: bit_simps)
qed

lemma md4_pad_cases:
  assumes "length w mod 64 = 0" and "length t < 64"
  shows "md4_pad (w @ t) =
    (if length t < 56 then w @ (t @ 0x80 # replicate (55 - length t) 0 @
        to_le32 (ucast (of_nat (8 * (length w + length t)) :: word64)) @
        to_le32 (ucast (drop_bit 32 (of_nat (8 * (length w + length t)) :: word64))))
     else w @ (t @ 0x80 # replicate (63 - length t) 0) @ (replicate 56 0 @
        to_le32 (ucast (of_nat (8 * (length w + length t)) :: word64)) @
        to_le32 (ucast (drop_bit 32 (of_nat (8 * (length w + length t)) :: word64)))))"
proof -
  have m: "(length w + length t) mod 64 = length t" using assms by (simp flip: mod_add_eq)
  show ?thesis
  proof (cases "length t < 56")
    case True
    then have "(119 - length t) mod 64 = 55 - length t" by (simp add: le_mod_geq)
    with True m show ?thesis by (simp add: md4_pad_def Let_def)
  next
    case False
    then have "(119 - length t) mod 64 = (63 - length t) + 56" using assms(2) by simp
    with False m show ?thesis by (simp add: md4_pad_def Let_def replicate_add del: add_diff_assoc2)
  qed
qed

text \<open>The two branches of the padding, for a block whose first \<open>length t\<close> bytes are \<open>t\<close>.\<close>

lemma md4_digest_branches:
  assumes off: "unat (byte_count ctx AND 0x3f) = length t" and len: "length (block ctx) = 64"
    and t: "take (length t) (block ctx) = t" and t64: "length t < 64" and size: "16 \<le> in_len"
  shows "length t < 56 \<Longrightarrow> fst (md4_digest ctx in_len) = Some (concat (map to_le32
      (md4_transform (hash ctx) (block_words (t @ 0x80 # replicate (55 - length t) 0 @
         to_le32 (ucast (push_bit 3 (byte_count ctx))) @ to_le32 (ucast (drop_bit 29 (byte_count ctx))))))))"
    and "\<not> length t < 56 \<Longrightarrow> fst (md4_digest ctx in_len) = Some (concat (map to_le32
      (md4_transform (md4_transform (hash ctx) (block_words (t @ 0x80 # replicate (63 - length t) 0)))
         (block_words (replicate 56 0 @
         to_le32 (ucast (push_bit 3 (byte_count ctx))) @ to_le32 (ucast (drop_bit 29 (byte_count ctx))))))))"
proof -
  have mc: "memcpy_at (length t) [0x80] (block ctx) = t @ 0x80 # drop (Suc (length t)) (block ctx)"
    using t len t64 by (simp add: memcpy_at_def)
  show "fst (md4_digest ctx in_len) = Some (concat (map to_le32
      (md4_transform (hash ctx) (block_words (t @ 0x80 # replicate (55 - length t) 0 @
         to_le32 (ucast (push_bit 3 (byte_count ctx))) @ to_le32 (ucast (drop_bit 29 (byte_count ctx))))))))"
    if "length t < 56"
  proof -
    have "nat (55 - int (length t)) = 55 - length t" by simp
    moreover have "memcpy_at (Suc (length t)) (replicate (55 - length t) 0) (t @ 0x80 # drop (Suc (length t)) (block ctx))
        = (t @ 0x80 # replicate (55 - length t) 0) @ drop 56 (block ctx)"
      using that len by (simp add: memcpy_at_def drop_Cons')
    moreover have "memcpy_at 60 c (memcpy_at 56 a (P @ drop 56 (block ctx))) = P @ a @ c"
      if "length P = 56" "length a = 4" "length c = 4" for P a c :: bytes
      using len that by (simp add: memcpy_at_def)
    moreover have "length (t @ 0x80 # replicate (55 - length t) 0) = 56" using that by simp
    ultimately show ?thesis using that size mc
      by (simp add: md4_digest_def off Let_def md4_transform_helper_def del: append_assoc append_Cons) simp
  qed
  show "fst (md4_digest ctx in_len) = Some (concat (map to_le32
      (md4_transform (md4_transform (hash ctx) (block_words (t @ 0x80 # replicate (63 - length t) 0)))
         (block_words (replicate 56 0 @
         to_le32 (ucast (push_bit 3 (byte_count ctx))) @ to_le32 (ucast (drop_bit 29 (byte_count ctx))))))))"
    if "\<not> length t < 56"
  proof -
    have "nat (63 - int (length t)) = 63 - length t" by simp
    moreover have "memcpy_at (Suc (length t)) (replicate (63 - length t) 0) (t @ 0x80 # drop (Suc (length t)) (block ctx))
        = t @ 0x80 # replicate (63 - length t) 0"
      using that len t64 by (simp add: memcpy_at_def)
    moreover have "memcpy_at 60 c (memcpy_at 56 a (memcpy_at 0 (replicate 56 0) b)) = replicate 56 0 @ a @ c"
      if "length a = 4" "length c = 4" "length b = 64" for a b c :: bytes
      using that by (simp add: memcpy_at_def)
    ultimately show ?thesis using that size mc t64
      by (simp add: md4_digest_def off Let_def md4_transform_helper_def)
  qed
qed

lemma md4_digest_repr:
  assumes "md4_repr ctx m" and "16 \<le> in_len"
  shows "fst (md4_digest ctx in_len) = Some (md4_spec m)"
proof -
  obtain w t where wt: "m = w @ t" "length w mod 64 = 0" "length t < 64"
    "hash ctx = md4_blocks md4_iv w" "byte_count ctx = of_nat (length w + length t)"
    "length (block ctx) = 64" "take (length t) (block ctx) = t"
    "unat (byte_count ctx AND 0x3f) = length t"
    using assms(1) by (rule md4_reprE)
  define lo where "lo = to_le32 (ucast (of_nat (8 * (length w + length t)) :: word64))"
  define hi where "hi = to_le32 (ucast (drop_bit 32 (of_nat (8 * (length w + length t)) :: word64)))"
  have len: "length lo = 4" "length hi = 4" by (simp_all add: lo_def hi_def)
  have one: "md4_blocks md4_iv (w @ b) = md4_transform (hash ctx) (block_words b)" if "length b = 64" for b
    using that by (simp add: md4_blocks_append [OF wt(2)] md4_blocks_one wt(4))
  have two: "md4_blocks md4_iv (w @ b @ c) =
      md4_transform (md4_transform (hash ctx) (block_words b)) (block_words c)"
    if "length b = 64" "length c = 64" for b c
    using that by (simp add: md4_blocks_append [OF wt(2)] md4_blocks_append md4_blocks_one wt(4))
  note pad = md4_pad_cases [OF wt(2,3), folded lo_def hi_def]
  note branches = md4_digest_branches [OF wt(8,6,7,3) assms(2), unfolded wt(5) bit_length_words,
      folded lo_def hi_def]
  show ?thesis
  proof (cases "length t < 56")
    case True
    then show ?thesis unfolding branches(1) [OF True] wt(1) md4_spec_def pad
      using len by (simp add: one del: append_assoc append_Cons)
  next
    case False
    have b: "length (t @ 0x80 # replicate (63 - length t) 0) = 64" using False wt(3) by simp
    have c: "length (replicate 56 0 @ lo @ hi) = 64" using len by simp
    show ?thesis unfolding branches(2) [OF False] wt(1) md4_spec_def pad if_not_P [OF False] two [OF b c] ..
  qed
qed

text \<open>What every operation keeps, after a digest as well.\<close>

lemma length_md4_append_loop [simp]: "length (block c) = 64 \<Longrightarrow> length (block (md4_append_loop c d)) = 64"
proof (induction c d rule: md4_append_loop.induct)
  case (1 c d)
  then show ?case
    by (simp add: md4_append_loop.simps [of c d] md4_transform_helper_def)
qed

lemma length_md4_append:
  assumes "length (block c) = 64"
  shows "length (block (md4_append c d)) = 64"
proof -
  have "unat (byte_count c AND 0x3f) < 64" unfolding unat_and_3f by simp
  with assms show ?thesis by (auto simp: md4_append_def Let_def md4_transform_helper_def)
qed

lemma length_md4_digest: "length (block c) = 64 \<Longrightarrow> length (block (snd (md4_digest c n))) = 64"
  by (simp add: md4_digest_def Let_def split_beta)

lemma length_Let: "(\<And>x. length (f x) = n) \<Longrightarrow> length (Let v f) = n"
  by (simp add: Let_def)

lemma length_md4_transform [simp]: "length (md4_transform h inp) = 4"
  unfolding md4_transform_def by (intro length_Let) simp

lemma length_md4_blocks [simp]: "length h = 4 \<Longrightarrow> length (md4_blocks h m) = 4"
  by (induction h m rule: md4_blocks.induct) (simp add: md4_blocks.simps)

lemma length_concat_to_le32 [simp]: "length (concat (map to_le32 ws)) = 4 * length ws"
  by (induction ws) auto

lemma length_md4_spec [simp]: "length (md4_spec m) = 16"
  by (simp add: md4_spec_def md4_iv_def)

lemma md4_repr_appends: "md4_repr c m \<Longrightarrow> md4_repr (foldl md4_append c parts) (m @ concat parts)"
proof (induction parts arbitrary: c m)
  case (Cons p parts)
  from Cons.IH [OF md4_repr_append [OF Cons.prems, of p]] show ?case by simp
qed simp

lemma md4_digest_small: "in_len < 16 \<Longrightarrow> md4_digest c in_len = (None, c)"
  by (simp add: md4_digest_def Let_def)

subsection \<open>Properties\<close>

text \<open>C31: For every message, cut in any way into calls of \<open>md4_append\<close> on a context that was just
  created, or just reset after any use, \<open>md4_digest\<close> returns the MD4 digest of the whole
  message as RFC 1320 pads and chains it; with less than sixteen bytes of room it fails.\<close>

theorem md4_digest_correct:
  assumes "length (block used) = 64"
  shows "fst (md4_digest (foldl md4_append (md4_reset used) parts) in_len) =
           (if in_len < 16 then None else Some (md4_spec (concat parts))) \<and>
         fst (md4_digest (foldl md4_append md4_init parts) in_len) =
           (if in_len < 16 then None else Some (md4_spec (concat parts)))"
  using md4_digest_repr [OF md4_repr_appends [OF md4_repr_reset [OF assms]], of in_len parts]
    md4_digest_repr [OF md4_repr_appends [OF md4_repr_init], of in_len parts]
  by (simp add: md4_digest_small)

theorem md4_digest_correct_witness:
  "fst (md4_digest (foldl md4_append (md4_reset md4_init) [[0x61], [0x62, 0x63]]) 16) =
     Some (md4_spec [0x61, 0x62, 0x63])"
  using md4_digest_correct [of md4_init "[[0x61], [0x62, 0x63]]" 16] by (simp add: md4_init_def md4_reset_def)

end
