(* ===== verification/Cipher_Hmac.thy ===== *)
theory Cipher_Hmac
  imports Cipher_Md4
begin

section \<open>Cipher dispatch and HMAC (\<open>libpurple/cipher.c\<close>, \<open>ciphers/hmac.c\<close>)\<close>

text \<open>
  HMAC drives another cipher through the function table of \<open>cipher.c\<close>.  The table
  \<open>PurpleCipherOps\<close> is a record of optional functions on the cipher's private data, a
  \<open>PurpleCipherContext\<close> the table with the data; the dispatching functions test the entry
  and do nothing (or return \<open>FALSE\<close>) when it is missing.  Only the entries HMAC and its callers
  reach are kept.  Registered ciphers are a list searched by name without regard to case.
  The locale \<open>hash_cipher\<close> states what a message digest promises its clients; HMAC's
  correctness is proved in it once and interpreted on MD4's table.  The 100-byte scratch
  buffers of the code are its own bound on the digest size, one of the locale's laws.
\<close>

record 'd cipher_ops =
  op_init :: "'d option"
  op_reset :: "('d \<Rightarrow> 'd) option"
  op_append :: "('d \<Rightarrow> bytes \<Rightarrow> 'd) option"
  op_digest :: "('d \<Rightarrow> nat \<Rightarrow> bytes option \<times> 'd) option"
  op_get_block_size :: "('d \<Rightarrow> nat) option"

record 'd cipher =
  cipher_name :: string
  ops :: "'d cipher_ops"

record 'd cipher_context =
  cipher :: "'d cipher"
  data :: "'d option"

subsection \<open>Dispatch\<close>

fun purple_ciphers_find_cipher :: "'d cipher list \<Rightarrow> string \<Rightarrow> 'd cipher option" where
  "purple_ciphers_find_cipher [] n = None"
| "purple_ciphers_find_cipher (c # cs) n =
     (if ascii_lower (cipher_name c) = ascii_lower n then Some c else purple_ciphers_find_cipher cs n)"

definition purple_cipher_context_new :: "'d cipher \<Rightarrow> 'd cipher_context" where
  "purple_cipher_context_new c = \<lparr>cipher = c, data = op_init (ops c)\<rparr>"

definition purple_cipher_context_new_by_name :: "'d cipher list \<Rightarrow> string \<Rightarrow> 'd cipher_context option" where
  "purple_cipher_context_new_by_name cs n =
     (case purple_ciphers_find_cipher cs n of
        None \<Rightarrow> None
      | Some c \<Rightarrow> Some (purple_cipher_context_new c))"

definition purple_cipher_context_reset :: "'d cipher_context \<Rightarrow> 'd cipher_context" where
  "purple_cipher_context_reset ctx =
     (case op_reset (ops (cipher ctx)) of
        None \<Rightarrow> ctx
      | Some f \<Rightarrow> ctx\<lparr>data := map_option f (data ctx)\<rparr>)"

definition purple_cipher_context_append :: "'d cipher_context \<Rightarrow> bytes \<Rightarrow> 'd cipher_context" where
  "purple_cipher_context_append ctx bs =
     (case op_append (ops (cipher ctx)) of
        None \<Rightarrow> ctx
      | Some f \<Rightarrow> ctx\<lparr>data := map_option (\<lambda>d. f d bs) (data ctx)\<rparr>)"

definition purple_cipher_context_digest :: "'d cipher_context \<Rightarrow> nat \<Rightarrow> bytes option \<times> 'd cipher_context" where
  "purple_cipher_context_digest ctx in_len =
     (case (op_digest (ops (cipher ctx)), data ctx) of
        (Some f, Some d) \<Rightarrow> (case f d in_len of (r, d') \<Rightarrow> (r, ctx\<lparr>data := Some d'\<rparr>))
      | _ \<Rightarrow> (None, ctx))"

definition purple_cipher_context_get_block_size :: "'d cipher_context \<Rightarrow> int" where
  "purple_cipher_context_get_block_size ctx =
     (case (op_get_block_size (ops (cipher ctx)), data ctx) of
        (Some f, Some d) \<Rightarrow> int (f d)
      | _ \<Rightarrow> - 1)"

subsection \<open>HMAC\<close>

record 'd hmac_ctx =
  hhash :: "'d cipher_context option"
  hname :: cstring
  blocksize :: int
  opad :: "bytes option"

definition hmac_reset :: "'d hmac_ctx \<Rightarrow> 'd hmac_ctx" where
  "hmac_reset hctx = hctx\<lparr>hname := None, hhash := None, blocksize := 0, opad := None\<rparr>"

definition hmac_init :: "'d hmac_ctx" where
  "hmac_init = hmac_reset \<lparr>hhash = None, hname = None, blocksize = 0, opad = None\<rparr>"

text \<open>\<open>purple_cipher_context_get_block_size\<close> of a \<open>NULL\<close> context returns \<open>-1\<close>.\<close>

definition hmac_set_opt :: "'d cipher list \<Rightarrow> 'd hmac_ctx \<Rightarrow> string \<Rightarrow> string \<Rightarrow> 'd hmac_ctx" where
  "hmac_set_opt cs hctx n v =
     (if purple_strequal (Some n) (Some ''hash'')
      then let h = purple_cipher_context_new_by_name cs v
           in hctx\<lparr>hname := Some v, hhash := h,
                   blocksize := (case h of None \<Rightarrow> - 1 | Some c \<Rightarrow> purple_cipher_context_get_block_size c)\<rparr>
      else hctx)"

definition hmac_get_opt :: "'d hmac_ctx \<Rightarrow> string \<Rightarrow> cstring" where
  "hmac_get_opt hctx n = (if purple_strequal (Some n) (Some ''hash'') then hname hctx else None)"

definition hmac_append :: "'d hmac_ctx \<Rightarrow> bytes \<Rightarrow> 'd hmac_ctx" where
  "hmac_append hctx bs =
     (case hhash hctx of
        None \<Rightarrow> hctx
      | Some h \<Rightarrow> hctx\<lparr>hhash := Some (purple_cipher_context_append h bs)\<rparr>)"

text \<open>
  \<open>hmac_digest\<close>.  The outer option is \<open>None\<close> where the code reads memory it never set: no key
  (\<open>opad\<close> is \<open>NULL\<close>), or an inner digest that failed and left \<open>hash_len\<close> unset.
\<close>

definition hmac_digest :: "'d hmac_ctx \<Rightarrow> nat \<Rightarrow> (bytes option \<times> 'd hmac_ctx) option" where
  "hmac_digest hctx in_len =
     (case hhash hctx of
        None \<Rightarrow> Some (None, hctx)
      | Some h \<Rightarrow>
          (case (purple_cipher_context_digest h 100, opad hctx) of
             ((Some inner_hash, h), Some op) \<Rightarrow>
               let h = purple_cipher_context_reset h;
                   h = purple_cipher_context_append h (take (nat (blocksize hctx)) op);
                   h = purple_cipher_context_append h inner_hash
               in (case purple_cipher_context_digest h in_len of
                     (r, h) \<Rightarrow> Some (r, hctx\<lparr>hhash := Some h\<rparr>))
           | _ \<Rightarrow> None))"

text \<open>
  \<open>hmac_set_key_with_len\<close>.  \<open>None\<close> where the code cannot go on: a negative block size
  (the allocation of \<open>(gsize) -1\<close> bytes aborts) or a key digest that fails.
\<close>

definition hmac_set_key_with_len :: "'d hmac_ctx \<Rightarrow> bytes \<Rightarrow> 'd hmac_ctx option" where
  "hmac_set_key_with_len hctx key =
     (case hhash hctx of
        None \<Rightarrow> Some hctx
      | Some h \<Rightarrow>
          if blocksize hctx < 0 then None
          else
            let bsize = nat (blocksize hctx) in
            (case (if length key > bsize
                   then (case purple_cipher_context_digest
                                (purple_cipher_context_append (purple_cipher_context_reset h) key) 100 of
                           (r, h) \<Rightarrow> (r, h))
                   else (Some key, h)) of
               (None, _) \<Rightarrow> None
             | (Some full_key, h) \<Rightarrow>
                 let full_key = full_key @ replicate (bsize - length full_key) 0;
                     ipad = map (\<lambda>i. 0x36 XOR full_key ! i) [0..<bsize];
                     op = map (\<lambda>i. 0x5c XOR full_key ! i) [0..<bsize];
                     h = purple_cipher_context_reset h;
                     h = purple_cipher_context_append h ipad
                 in Some (hctx\<lparr>opad := Some op, hhash := Some h\<rparr>)))"

text \<open>\<open>hmac_set_key\<close> takes the length from the terminating NUL.\<close>

definition hmac_set_key :: "'d hmac_ctx \<Rightarrow> bytes \<Rightarrow> 'd hmac_ctx option" where
  "hmac_set_key hctx key = hmac_set_key_with_len hctx (takeWhile (\<lambda>b. b \<noteq> 0) key)"

definition hmac_get_block_size :: "'d hmac_ctx \<Rightarrow> int" where
  "hmac_get_block_size hctx = blocksize hctx"

subsection \<open>Message digests as HMAC uses them\<close>

text \<open>RFC 2104, over a digest function \<open>dig\<close> with block size \<open>bs\<close>.\<close>

definition hmac_key :: "(bytes \<Rightarrow> bytes) \<Rightarrow> nat \<Rightarrow> bytes \<Rightarrow> bytes" where
  "hmac_key dig bs key =
     (let k = (if bs < length key then dig key else key) in k @ replicate (bs - length k) 0)"

definition hmac_spec :: "(bytes \<Rightarrow> bytes) \<Rightarrow> nat \<Rightarrow> bytes \<Rightarrow> bytes \<Rightarrow> bytes" where
  "hmac_spec dig bs key msg =
     dig (map ((XOR) 0x5c) (hmac_key dig bs key) @
          dig (map ((XOR) 0x36) (hmac_key dig bs key) @ msg))"

locale hash_cipher =
  fixes tab :: "'d cipher_ops"
    and valid :: "'d \<Rightarrow> bool"
    and repr :: "'d \<Rightarrow> bytes \<Rightarrow> bool"
    and dig :: "bytes \<Rightarrow> bytes"
    and bsize :: nat
    and dsize :: nat
    and rst :: "'d \<Rightarrow> 'd"
    and app :: "'d \<Rightarrow> bytes \<Rightarrow> 'd"
    and fin :: "'d \<Rightarrow> nat \<Rightarrow> bytes option \<times> 'd"
  assumes table: "op_reset tab = Some rst" "op_append tab = Some app" "op_digest tab = Some fin"
    and repr_valid: "repr d m \<Longrightarrow> valid d"
    and reset_repr: "valid d \<Longrightarrow> repr (rst d) []"
    and append_repr: "repr d m \<Longrightarrow> repr (app d bs) (m @ bs)"
    and digest_repr: "repr d m \<Longrightarrow> fst (fin d n) = (if n < dsize then None else Some (dig m))"
    and digest_valid: "valid d \<Longrightarrow> valid (snd (fin d n))"
    and dsize: "dsize \<le> 100" "length (dig m) = dsize" "dsize \<le> bsize"
begin

text \<open>A context of this cipher whose private data stands for the bytes \<open>m\<close>.\<close>

definition ctx_repr :: "'d cipher_context \<Rightarrow> bytes \<Rightarrow> bool" where
  "ctx_repr h m \<longleftrightarrow> ops (cipher h) = tab \<and> (\<exists>d. data h = Some d \<and> repr d m)"

definition ctx_valid :: "'d cipher_context \<Rightarrow> bool" where
  "ctx_valid h \<longleftrightarrow> ops (cipher h) = tab \<and> (\<exists>d. data h = Some d \<and> valid d)"

lemma ctx_repr_valid: "ctx_repr h m \<Longrightarrow> ctx_valid h"
  by (auto simp: ctx_repr_def ctx_valid_def intro: repr_valid)

lemma ctx_reset: "ctx_valid h \<Longrightarrow> ctx_repr (purple_cipher_context_reset h) []"
  by (auto simp: ctx_repr_def ctx_valid_def purple_cipher_context_reset_def table reset_repr)

lemma ctx_append: "ctx_repr h m \<Longrightarrow> ctx_repr (purple_cipher_context_append h bs) (m @ bs)"
  by (auto simp: ctx_repr_def purple_cipher_context_append_def table append_repr)

lemma ctx_digest:
  assumes "ctx_repr h m"
  obtains h' where "purple_cipher_context_digest h n = ((if n < dsize then None else Some (dig m)), h')"
    and "ctx_valid h'"
proof -
  from assms obtain d where d: "ops (cipher h) = tab" "data h = Some d" "repr d m"
    by (auto simp: ctx_repr_def)
  show ?thesis
  proof (rule that)
    show "purple_cipher_context_digest h n =
        ((if n < dsize then None else Some (dig m)), h\<lparr>data := Some (snd (fin d n))\<rparr>)"
      using d digest_repr [OF d(3), of n]
      by (cases "fin d n") (simp add: purple_cipher_context_digest_def table)
    show "ctx_valid (h\<lparr>data := Some (snd (fin d n))\<rparr>)"
      using d digest_valid [OF repr_valid [OF d(3)]] by (simp add: ctx_valid_def)
  qed
qed

lemma map_nth_upt: "length xs = n \<Longrightarrow> map (\<lambda>i. f (xs ! i)) [0..<n] = map f xs"
  by (rule nth_equalityI) auto

text \<open>A keyed HMAC context: the inner hash has eaten the masked key and the bytes \<open>m\<close>.\<close>

definition keyed :: "'d hmac_ctx \<Rightarrow> bytes \<Rightarrow> bytes \<Rightarrow> bool" where
  "keyed hctx key m \<longleftrightarrow>
     blocksize hctx = int bsize \<and> opad hctx = Some (map ((XOR) 0x5c) (hmac_key dig bsize key)) \<and>
     (\<exists>h. hhash hctx = Some h \<and> ctx_repr h (map ((XOR) 0x36) (hmac_key dig bsize key) @ m))"

lemma length_hmac_key [simp]: "length (hmac_key dig bsize key) = bsize"
  using dsize by (simp add: hmac_key_def Let_def)

lemma set_key_keyed:
  assumes "hhash hctx = Some h" and "ctx_valid h" and "blocksize hctx = int bsize"
  shows "\<exists>hctx'. hmac_set_key_with_len hctx key = Some hctx' \<and> keyed hctx' key []"
proof -
  define fk where "fk = (if bsize < length key then dig key else key)"
  have "\<exists>h'. (if length key > bsize
         then (case purple_cipher_context_digest
                      (purple_cipher_context_append (purple_cipher_context_reset h) key) 100 of
                 (r, h) \<Rightarrow> (r, h))
         else (Some key, h)) = (Some fk, h') \<and> ctx_valid h'"
  proof (cases "length key > bsize")
    case True
    obtain h' where "purple_cipher_context_digest
        (purple_cipher_context_append (purple_cipher_context_reset h) key) 100 =
        ((if 100 < dsize then None else Some (dig ([] @ key))), h')" "ctx_valid h'"
      using ctx_append [OF ctx_reset [OF assms(2)]] by (rule ctx_digest)
    with True dsize show ?thesis by (auto simp: fk_def)
  qed (use assms(2) in \<open>auto simp: fk_def\<close>)
  then obtain h' where h': "(if length key > bsize
         then (case purple_cipher_context_digest
                      (purple_cipher_context_append (purple_cipher_context_reset h) key) 100 of
                 (r, h) \<Rightarrow> (r, h))
         else (Some key, h)) = (Some fk, h')" "ctx_valid h'" by blast
  have key: "hmac_key dig bsize key = fk @ replicate (bsize - length fk) 0"
    by (simp add: hmac_key_def fk_def Let_def)
  have len: "length (fk @ replicate (bsize - length fk) 0) = bsize"
    using length_hmac_key [of key] unfolding key .
  from ctx_append [OF ctx_reset [OF h'(2)], of "map ((XOR) 0x36) (hmac_key dig bsize key)"]
  show ?thesis using assms h'(1)
    by (simp add: hmac_set_key_with_len_def keyed_def Let_def map_nth_upt [OF len] key)
qed

lemma append_keyed: "keyed hctx key m \<Longrightarrow> keyed (hmac_append hctx bs) key (m @ bs)"
  using ctx_append [where bs = bs] by (fastforce simp: keyed_def hmac_append_def)

lemma appends_keyed: "keyed hctx key m \<Longrightarrow> keyed (foldl hmac_append hctx parts) key (m @ concat parts)"
proof (induction parts arbitrary: hctx m)
  case (Cons p parts)
  from Cons.IH [OF append_keyed [OF Cons.prems, of p]] show ?case by simp
qed simp

lemma digest_keyed:
  assumes "keyed hctx key m"
  shows "\<exists>hctx'. hmac_digest hctx in_len =
    Some (if in_len < dsize then None else Some (hmac_spec dig bsize key m), hctx')"
proof -
  let ?ip = "map ((XOR) 0x36) (hmac_key dig bsize key)"
  let ?op = "map ((XOR) 0x5c) (hmac_key dig bsize key)"
  obtain h where h: "hhash hctx = Some h" "ctx_repr h (?ip @ m)" using assms by (auto simp: keyed_def)
  obtain h1 where h1: "purple_cipher_context_digest h 100 =
      ((if 100 < dsize then None else Some (dig (?ip @ m))), h1)" "ctx_valid h1"
    using h(2) by (rule ctx_digest)
  have "ctx_repr (purple_cipher_context_append (purple_cipher_context_append
      (purple_cipher_context_reset h1) ?op) (dig (?ip @ m))) (([] @ ?op) @ dig (?ip @ m))"
    by (intro ctx_append ctx_reset h1(2))
  then obtain h2 where h2: "purple_cipher_context_digest (purple_cipher_context_append (purple_cipher_context_append
      (purple_cipher_context_reset h1) ?op) (dig (?ip @ m))) in_len =
      ((if in_len < dsize then None else Some (dig (([] @ ?op) @ dig (?ip @ m)))), h2)"
    by (rule ctx_digest)
  have "\<not> 100 < dsize" using dsize by simp
  then show ?thesis using assms h h1 h2 by (simp add: hmac_digest_def keyed_def hmac_spec_def Let_def)
qed

end

definition MD4Ops :: "md4_ctx cipher_ops" where
  "MD4Ops = \<lparr>op_init = Some md4_init, op_reset = Some md4_reset, op_append = Some md4_append,
             op_digest = Some md4_digest, op_get_block_size = Some md4_get_block_size\<rparr>"

interpretation md4: hash_cipher MD4Ops "\<lambda>d. length (block d) = 64" md4_repr md4_spec 64 16
    md4_reset md4_append md4_digest
proof
  fix d m n
  assume d: "md4_repr d m"
  show "fst (md4_digest d n) = (if n < 16 then None else Some (md4_spec m))"
    using md4_digest_repr [OF d, of n] by (simp add: md4_digest_small)
  show "length (block d) = 64" using d by (simp add: md4_repr_def)
qed (simp_all add: MD4Ops_def md4_repr_reset md4_repr_append length_md4_digest)

definition md4_cipher :: "md4_ctx cipher" where
  "md4_cipher = \<lparr>cipher_name = ''md4'', ops = MD4Ops\<rparr>"

lemma find_md4_cipher: "purple_ciphers_find_cipher [md4_cipher] ''md4'' = Some md4_cipher"
  by (simp add: md4_cipher_def)

subsection \<open>Properties\<close>

text \<open>C30: HMAC over MD4, set up the way its callers do (option \<open>hash\<close>, then the key, then any number
  of appends), never reads unset memory and returns the RFC 2104 code of the whole message,
  for keys of every length; with less than sixteen bytes of room it returns failure.\<close>

theorem hmac_md4_correct:
  "\<exists>hctx hctx'. hmac_set_key_with_len (hmac_set_opt [md4_cipher] hmac_init ''hash'' ''md4'') key = Some hctx \<and>
     hmac_digest (foldl hmac_append hctx parts) in_len =
       Some (if in_len < 16 then None else Some (hmac_spec md4_spec 64 key (concat parts)), hctx')"
proof -
  let ?h = "purple_cipher_context_new md4_cipher"
  let ?c = "hmac_set_opt [md4_cipher] hmac_init ''hash'' ''md4''"
  have "hhash ?c = Some ?h" "blocksize ?c = int 64"
    by (simp_all add: hmac_set_opt_def purple_cipher_context_new_by_name_def find_md4_cipher Let_def
        purple_cipher_context_get_block_size_def purple_cipher_context_new_def md4_cipher_def MD4Ops_def
        md4_get_block_size_def)
  moreover have "md4.ctx_valid ?h"
    unfolding md4.ctx_valid_def
    by (simp add: purple_cipher_context_new_def md4_cipher_def MD4Ops_def md4_init_def md4_reset_def)
  ultimately obtain hctx where set: "hmac_set_key_with_len ?c key = Some hctx" "md4.keyed hctx key []"
    using md4.set_key_keyed by blast
  from md4.digest_keyed [OF md4.appends_keyed [OF set(2)], of parts in_len] set(1)
  show ?thesis by auto
qed

end
