(* ===== verification/Oscar_Bstream.thy ===== *)
theory Oscar_Bstream
  imports Purple_Base
begin

section \<open>The OSCAR byte stream (\<open>libpurple/protocols/oscar/bstream.c\<close>)\<close>

text \<open>
  \<open>ByteStream\<close> is the cursor through which every OSCAR packet is read and written.  The record
  keeps the fields of the struct, \<open>bs_ok\<close> is its invariant (the allocation has \<open>len\<close> bytes and
  the cursor is inside it).  A \<open>g_return_val_if_fail\<close> is an early return that changes nothing.
  The macros \<open>aimutil_put*\<close> and \<open>aimutil_get*\<close> of \<open>oscar.h\<close> are functions between words and
  byte lists.  The locale \<open>wire_codec\<close> states what the fixed-width fields promise; it is
  interpreted for the six widths and byte orders, so that the TLV code can read back what it
  wrote.
\<close>

type_synonym word16 = "16 word"
type_synonym word32 = "32 word"

record byte_stream =
  bs_data :: bytes
  bs_len :: nat
  bs_offset :: nat

definition bs_ok :: "byte_stream \<Rightarrow> bool" where
  "bs_ok bs \<longleftrightarrow> length (bs_data bs) = bs_len bs \<and> bs_offset bs \<le> bs_len bs"

subsection \<open>The macros of \<open>oscar.h\<close>\<close>

definition aimutil_put8 :: "byte \<Rightarrow> bytes" where
  "aimutil_put8 v = [v AND 0xff]"

definition aimutil_get8 :: "bytes \<Rightarrow> byte" where
  "aimutil_get8 buf = buf ! 0 AND 0xff"

definition aimutil_put16 :: "word16 \<Rightarrow> bytes" where
  "aimutil_put16 v = [ucast (drop_bit 8 v) AND 0xff, ucast v AND 0xff]"

definition aimutil_get16 :: "bytes \<Rightarrow> word16" where
  "aimutil_get16 buf = (push_bit 8 (ucast (buf ! 0)) AND 0xff00) + (ucast (buf ! 1) AND 0xff)"

definition aimutil_put32 :: "word32 \<Rightarrow> bytes" where
  "aimutil_put32 v = [ucast (drop_bit 24 v) AND 0xff, ucast (drop_bit 16 v) AND 0xff,
                      ucast (drop_bit 8 v) AND 0xff, ucast v AND 0xff]"

definition aimutil_get32 :: "bytes \<Rightarrow> word32" where
  "aimutil_get32 buf =
     (push_bit 24 (ucast (buf ! 0)) AND 0xff000000) + (push_bit 16 (ucast (buf ! 1)) AND 0x00ff0000) +
     (push_bit 8 (ucast (buf ! 2)) AND 0x0000ff00) + (ucast (buf ! 3) AND 0x000000ff)"

definition aimutil_putle8 :: "byte \<Rightarrow> bytes" where
  "aimutil_putle8 v = [v AND 0xff]"

definition aimutil_getle8 :: "bytes \<Rightarrow> byte" where
  "aimutil_getle8 buf = buf ! 0 AND 0xff"

definition aimutil_putle16 :: "word16 \<Rightarrow> bytes" where
  "aimutil_putle16 v = [ucast (drop_bit 0 v) AND 0xff, ucast (drop_bit 8 v) AND 0xff]"

definition aimutil_getle16 :: "bytes \<Rightarrow> word16" where
  "aimutil_getle16 buf = (push_bit 0 (ucast (buf ! 0)) AND 0x00ff) + (push_bit 8 (ucast (buf ! 1)) AND 0xff00)"

definition aimutil_putle32 :: "word32 \<Rightarrow> bytes" where
  "aimutil_putle32 v = [ucast (drop_bit 0 v) AND 0xff, ucast (drop_bit 8 v) AND 0xff,
                        ucast (drop_bit 16 v) AND 0xff, ucast (drop_bit 24 v) AND 0xff]"

definition aimutil_getle32 :: "bytes \<Rightarrow> word32" where
  "aimutil_getle32 buf =
     (push_bit 0 (ucast (buf ! 0)) AND 0x000000ff) + (push_bit 8 (ucast (buf ! 1)) AND 0x0000ff00) +
     (push_bit 16 (ucast (buf ! 2)) AND 0x00ff0000) + (push_bit 24 (ucast (buf ! 3)) AND 0xff000000)"

subsection \<open>Cursor operations\<close>

definition byte_stream_init :: "bytes \<Rightarrow> nat \<Rightarrow> byte_stream" where
  "byte_stream_init d len = \<lparr>bs_data = d, bs_len = len, bs_offset = 0\<rparr>"

text \<open>\<open>g_malloc\<close> leaves the bytes as they are: the values of an arbitrary function.\<close>

definition byte_stream_new :: "(nat \<Rightarrow> byte) \<Rightarrow> nat \<Rightarrow> byte_stream" where
  "byte_stream_new junk len = byte_stream_init (map junk [0..<len]) len"

definition byte_stream_bytes_left :: "byte_stream \<Rightarrow> nat" where
  "byte_stream_bytes_left bs = bs_len bs - bs_offset bs"

definition byte_stream_curpos :: "byte_stream \<Rightarrow> int" where
  "byte_stream_curpos bs = int (bs_offset bs)"

definition byte_stream_setpos :: "byte_stream \<Rightarrow> nat \<Rightarrow> int \<times> byte_stream" where
  "byte_stream_setpos bs off = (if off \<le> bs_len bs then (int off, bs\<lparr>bs_offset := off\<rparr>) else (- 1, bs))"

definition byte_stream_rewind :: "byte_stream \<Rightarrow> byte_stream" where
  "byte_stream_rewind bs = snd (byte_stream_setpos bs 0)"

text \<open>The cast \<open>(gsize)n\<close> of an \<open>int\<close>, on a 64-bit \<open>gsize\<close>.\<close>

definition byte_stream_advance :: "byte_stream \<Rightarrow> int \<Rightarrow> int \<times> byte_stream" where
  "byte_stream_advance bs n =
     (if \<not> byte_stream_curpos bs + n \<ge> 0 then (0, bs)
      else if \<not> nat (n mod 2 ^ 64) \<le> byte_stream_bytes_left bs then (0, bs)
      else (n, bs\<lparr>bs_offset := nat (int (bs_offset bs) + n)\<rparr>))"

subsection \<open>Reading\<close>

definition byte_stream_get8 :: "byte_stream \<Rightarrow> byte \<times> byte_stream" where
  "byte_stream_get8 bs =
     (if byte_stream_bytes_left bs \<ge> 1
      then (aimutil_get8 (drop (bs_offset bs) (bs_data bs)), bs\<lparr>bs_offset := bs_offset bs + 1\<rparr>)
      else (0, bs))"

definition byte_stream_get16 :: "byte_stream \<Rightarrow> word16 \<times> byte_stream" where
  "byte_stream_get16 bs =
     (if byte_stream_bytes_left bs \<ge> 2
      then (aimutil_get16 (drop (bs_offset bs) (bs_data bs)), bs\<lparr>bs_offset := bs_offset bs + 2\<rparr>)
      else (0, bs))"

definition byte_stream_get32 :: "byte_stream \<Rightarrow> word32 \<times> byte_stream" where
  "byte_stream_get32 bs =
     (if byte_stream_bytes_left bs \<ge> 4
      then (aimutil_get32 (drop (bs_offset bs) (bs_data bs)), bs\<lparr>bs_offset := bs_offset bs + 4\<rparr>)
      else (0, bs))"

definition byte_stream_getle8 :: "byte_stream \<Rightarrow> byte \<times> byte_stream" where
  "byte_stream_getle8 bs =
     (if byte_stream_bytes_left bs \<ge> 1
      then (aimutil_getle8 (drop (bs_offset bs) (bs_data bs)), bs\<lparr>bs_offset := bs_offset bs + 1\<rparr>)
      else (0, bs))"

definition byte_stream_getle16 :: "byte_stream \<Rightarrow> word16 \<times> byte_stream" where
  "byte_stream_getle16 bs =
     (if byte_stream_bytes_left bs \<ge> 2
      then (aimutil_getle16 (drop (bs_offset bs) (bs_data bs)), bs\<lparr>bs_offset := bs_offset bs + 2\<rparr>)
      else (0, bs))"

definition byte_stream_getle32 :: "byte_stream \<Rightarrow> word32 \<times> byte_stream" where
  "byte_stream_getle32 bs =
     (if byte_stream_bytes_left bs \<ge> 4
      then (aimutil_getle32 (drop (bs_offset bs) (bs_data bs)), bs\<lparr>bs_offset := bs_offset bs + 4\<rparr>)
      else (0, bs))"

definition byte_stream_getrawbuf_nocheck :: "byte_stream \<Rightarrow> nat \<Rightarrow> bytes \<times> byte_stream" where
  "byte_stream_getrawbuf_nocheck bs len =
     (take len (drop (bs_offset bs) (bs_data bs)), bs\<lparr>bs_offset := bs_offset bs + len\<rparr>)"

text \<open>\<open>byte_stream_getrawbuf\<close> copies over the front of the caller's buffer.\<close>

definition byte_stream_getrawbuf :: "byte_stream \<Rightarrow> bytes \<Rightarrow> nat \<Rightarrow> int \<times> bytes \<times> byte_stream" where
  "byte_stream_getrawbuf bs buf len =
     (if byte_stream_bytes_left bs \<ge> len
      then (case byte_stream_getrawbuf_nocheck bs len of (ob, bs) \<Rightarrow> (int len, memcpy_at 0 ob buf, bs))
      else (0, buf, bs))"

definition byte_stream_getraw :: "byte_stream \<Rightarrow> nat \<Rightarrow> bytes option \<times> byte_stream" where
  "byte_stream_getraw bs len =
     (if byte_stream_bytes_left bs \<ge> len
      then (case byte_stream_getrawbuf_nocheck bs len of (ob, bs) \<Rightarrow> (Some ob, bs))
      else (None, bs))"

definition byte_stream_getstr :: "byte_stream \<Rightarrow> nat \<Rightarrow> bytes option \<times> byte_stream" where
  "byte_stream_getstr bs len =
     (if byte_stream_bytes_left bs \<ge> len
      then (case byte_stream_getrawbuf_nocheck bs len of (ob, bs) \<Rightarrow> (Some (ob @ [0]), bs))
      else (None, bs))"

subsection \<open>Writing\<close>

text \<open>Store \<open>v\<close> at the cursor and move the cursor past it.\<close>

definition bs_store :: "byte_stream \<Rightarrow> bytes \<Rightarrow> byte_stream" where
  "bs_store bs v = bs\<lparr>bs_data := memcpy_at (bs_offset bs) v (bs_data bs), bs_offset := bs_offset bs + length v\<rparr>"

definition byte_stream_put8 :: "byte_stream \<Rightarrow> byte \<Rightarrow> int \<times> byte_stream" where
  "byte_stream_put8 bs v =
     (if byte_stream_bytes_left bs \<ge> 1 then (1, bs_store bs (aimutil_put8 v)) else (0, bs))"

definition byte_stream_put16 :: "byte_stream \<Rightarrow> word16 \<Rightarrow> int \<times> byte_stream" where
  "byte_stream_put16 bs v =
     (if byte_stream_bytes_left bs \<ge> 2 then (2, bs_store bs (aimutil_put16 v)) else (0, bs))"

definition byte_stream_put32 :: "byte_stream \<Rightarrow> word32 \<Rightarrow> int \<times> byte_stream" where
  "byte_stream_put32 bs v =
     (if byte_stream_bytes_left bs \<ge> 4 then (1, bs_store bs (aimutil_put32 v)) else (0, bs))"

definition byte_stream_putle8 :: "byte_stream \<Rightarrow> byte \<Rightarrow> int \<times> byte_stream" where
  "byte_stream_putle8 bs v =
     (if byte_stream_bytes_left bs \<ge> 1 then (1, bs_store bs (aimutil_putle8 v)) else (0, bs))"

definition byte_stream_putle16 :: "byte_stream \<Rightarrow> word16 \<Rightarrow> int \<times> byte_stream" where
  "byte_stream_putle16 bs v =
     (if byte_stream_bytes_left bs \<ge> 2 then (2, bs_store bs (aimutil_putle16 v)) else (0, bs))"

definition byte_stream_putle32 :: "byte_stream \<Rightarrow> word32 \<Rightarrow> int \<times> byte_stream" where
  "byte_stream_putle32 bs v =
     (if byte_stream_bytes_left bs \<ge> 4 then (1, bs_store bs (aimutil_putle32 v)) else (0, bs))"

definition byte_stream_putraw :: "byte_stream \<Rightarrow> bytes \<Rightarrow> nat \<Rightarrow> int \<times> byte_stream" where
  "byte_stream_putraw bs v len =
     (if byte_stream_bytes_left bs \<ge> len then (int len, bs_store bs (take len v)) else (0, bs))"

text \<open>A C string is its bytes before the NUL.\<close>

definition byte_stream_putstr :: "byte_stream \<Rightarrow> bytes \<Rightarrow> int \<times> byte_stream" where
  "byte_stream_putstr bs str = byte_stream_putraw bs str (length str)"

definition byte_stream_putbs :: "byte_stream \<Rightarrow> byte_stream \<Rightarrow> nat \<Rightarrow> int \<times> byte_stream \<times> byte_stream" where
  "byte_stream_putbs bs srcbs len =
     (if \<not> byte_stream_bytes_left srcbs \<ge> len then (0, bs, srcbs)
      else if \<not> byte_stream_bytes_left bs \<ge> len then (0, bs, srcbs)
      else (int len, bs_store bs (take len (drop (bs_offset srcbs) (bs_data srcbs))),
            srcbs\<lparr>bs_offset := bs_offset srcbs + len\<rparr>))"

definition byte_stream_put_bart_asset ::
  "byte_stream \<Rightarrow> word16 \<Rightarrow> byte_stream option \<Rightarrow> byte_stream \<times> byte_stream option" where
  "byte_stream_put_bart_asset bs type dat =
     (let bs = snd (byte_stream_put16 bs type) in
      case dat of
        Some d \<Rightarrow>
          if bs_len d > 0
          then let bs = snd (byte_stream_put8 bs 0x04);
                   bs = snd (byte_stream_put8 bs (of_nat (bs_len d)));
                   d = byte_stream_rewind d;
                   (_, bs, d) = byte_stream_putbs bs d (bs_len d)
               in (bs, Some d)
          else let bs = snd (byte_stream_put8 bs 0x00) in (snd (byte_stream_put8 bs 0x00), dat)
      | None \<Rightarrow> let bs = snd (byte_stream_put8 bs 0x00) in (snd (byte_stream_put8 bs 0x00), dat))"

definition byte_stream_put_bart_asset_str ::
  "(nat \<Rightarrow> byte) \<Rightarrow> byte_stream \<Rightarrow> word16 \<Rightarrow> bytes option \<Rightarrow> byte_stream" where
  "byte_stream_put_bart_asset_str junk bs type datastr =
     (let len = (case datastr of Some s \<Rightarrow> length s | None \<Rightarrow> 0)
      in if len > 0
         then let d = byte_stream_new junk (2 + len + 2);
                  d = snd (byte_stream_put16 d (of_nat len));
                  d = snd (byte_stream_putstr d (case datastr of Some s \<Rightarrow> s | None \<Rightarrow> []));
                  d = snd (byte_stream_put16 d 0x0000)
              in fst (byte_stream_put_bart_asset bs type (Some d))
         else fst (byte_stream_put_bart_asset bs type None))"

text \<open>
  Reading a NUL-terminated name as the file transfer code of \<open>family_icbm.c\<close> does: count the
  bytes before the NUL, step back, read that many bytes as a string.
\<close>

function count_to_nul :: "byte_stream \<Rightarrow> nat \<Rightarrow> nat \<times> byte_stream" where
  "count_to_nul bs flen =
     (case byte_stream_get8 bs of (c, bs') \<Rightarrow> if c \<noteq> 0 then count_to_nul bs' (flen + 1) else (flen, bs'))"
  by pat_completeness auto
termination
  by (relation "measure (\<lambda>(bs, _). byte_stream_bytes_left bs)")
     (auto simp: byte_stream_get8_def byte_stream_bytes_left_def split: if_splits)

declare count_to_nul.simps [simp del]

definition sendfile_filename :: "byte_stream \<Rightarrow> bytes option \<times> byte_stream" where
  "sendfile_filename servdata =
     (let (flen, servdata) = count_to_nul servdata 0;
          servdata = snd (byte_stream_advance servdata (- int flen - 1))
      in byte_stream_getstr servdata flen)"

subsection \<open>The cursor invariant\<close>

definition bs_written :: "byte_stream \<Rightarrow> bytes" where
  "bs_written bs = take (bs_offset bs) (bs_data bs)"

definition bs_rest :: "byte_stream \<Rightarrow> bytes" where
  "bs_rest bs = drop (bs_offset bs) (bs_data bs)"

lemma bs_split: "bs_written bs @ bs_rest bs = bs_data bs"
  by (simp add: bs_written_def bs_rest_def)

lemma bytes_left_rest: "bs_ok bs \<Longrightarrow> byte_stream_bytes_left bs = length (bs_rest bs)"
  by (simp add: bs_ok_def byte_stream_bytes_left_def bs_rest_def)

lemma bs_store_ok:
  assumes "bs_ok bs" and "length v \<le> byte_stream_bytes_left bs"
  shows "bs_ok (bs_store bs v)" and "bs_written (bs_store bs v) = bs_written bs @ v"
    and "bs_rest (bs_store bs v) = drop (length v) (bs_rest bs)"
    and "byte_stream_bytes_left (bs_store bs v) = byte_stream_bytes_left bs - length v"
    and "bs_len (bs_store bs v) = bs_len bs"
  using assms
  by (auto simp: bs_ok_def byte_stream_bytes_left_def bs_store_def bs_written_def bs_rest_def memcpy_at_def
      add.commute)

lemma bs_new_ok [simp]:
  "bs_ok (byte_stream_new junk n)" "byte_stream_bytes_left (byte_stream_new junk n) = n"
  "bs_written (byte_stream_new junk n) = []" "bs_len (byte_stream_new junk n) = n"
  "bs_offset (byte_stream_new junk n) = 0"
  by (simp_all add: byte_stream_new_def byte_stream_init_def bs_ok_def byte_stream_bytes_left_def bs_written_def)

lemma bs_rewind [simp]: "byte_stream_rewind bs = bs\<lparr>bs_offset := 0\<rparr>"
  by (simp add: byte_stream_rewind_def byte_stream_setpos_def)

subsection \<open>Fixed-width fields\<close>

lemma byte_mask [simp]: "(x :: byte) AND 0xff = x"
proof -
  have eq: "(0xff :: byte) = - 1" by simp
  show ?thesis unfolding eq by (rule and.right_neutral)
qed

lemma add_or_disjoint:
  fixes a b :: "'a :: len word"
  assumes "a AND b = 0"
  shows "a + b = a OR b"
  by (rule disjunctive_add_eq_or [OF assms])

text \<open>What the fields promise: writing advances by the width, reading undoes writing.\<close>

locale wire_codec =
  fixes enc :: "'a \<Rightarrow> bytes"
    and dec :: "bytes \<Rightarrow> 'a"
    and width :: nat
    and put :: "byte_stream \<Rightarrow> 'a \<Rightarrow> int \<times> byte_stream"
    and get :: "byte_stream \<Rightarrow> 'a \<times> byte_stream"
    and ret :: int
    and nil :: 'a
  assumes width: "length (enc v) = width"
    and dec_enc: "dec (enc v @ xs) = v"
    and put_eq: "put bs v = (if byte_stream_bytes_left bs \<ge> width then (ret, bs_store bs (enc v)) else (0, bs))"
    and get_eq: "get bs = (if byte_stream_bytes_left bs \<ge> width
        then (dec (drop (bs_offset bs) (bs_data bs)), bs\<lparr>bs_offset := bs_offset bs + width\<rparr>) else (nil, bs))"
begin

lemma put_ok:
  assumes "bs_ok bs" and "width \<le> byte_stream_bytes_left bs"
  shows "bs_ok (snd (put bs v))" and "bs_written (snd (put bs v)) = bs_written bs @ enc v"
    and "byte_stream_bytes_left (snd (put bs v)) = byte_stream_bytes_left bs - width"
    and "bs_len (snd (put bs v)) = bs_len bs"
  using assms bs_store_ok [of bs "enc v"] by (simp_all add: put_eq width)

lemma put_full: "byte_stream_bytes_left bs < width \<Longrightarrow> put bs v = (0, bs)"
  by (simp add: put_eq)

lemma get_empty: "byte_stream_bytes_left bs < width \<Longrightarrow> get bs = (nil, bs)"
  by (simp add: get_eq)

lemma get_ok:
  assumes "bs_ok bs" and "bs_rest bs = enc v @ xs"
  shows "\<exists>bs'. get bs = (v, bs') \<and> bs_ok bs' \<and> bs_rest bs' = xs \<and> bs_data bs' = bs_data bs \<and> bs_len bs' = bs_len bs"
proof -
  have room: "width \<le> byte_stream_bytes_left bs"
    using assms by (simp add: bytes_left_rest width)
  have "dec (drop (bs_offset bs) (bs_data bs)) = v" using assms(2) by (simp add: bs_rest_def dec_enc)
  moreover have "drop (bs_offset bs + width) (bs_data bs) = xs"
  proof -
    have "drop (bs_offset bs + width) (bs_data bs) = drop width (bs_rest bs)"
      by (simp add: bs_rest_def add.commute)
    then show ?thesis using assms(2) by (simp add: width)
  qed
  ultimately show ?thesis using room assms(1)
    by (auto simp: get_eq bs_ok_def bs_rest_def byte_stream_bytes_left_def)
qed

lemma put_get:
  assumes "bs_ok bs" and "width \<le> byte_stream_bytes_left bs"
  shows "get (snd (byte_stream_setpos (snd (put bs v)) (bs_offset bs))) = (v, snd (put bs v))"
proof -
  have "bs_offset bs + width \<le> bs_len bs" "bs_offset bs \<le> bs_len bs"
    using assms by (auto simp: bs_ok_def byte_stream_bytes_left_def)
  moreover have "drop (bs_offset bs) (memcpy_at (bs_offset bs) (enc v) (bs_data bs)) =
      enc v @ drop (bs_offset bs + width) (bs_data bs)"
    using assms calculation by (simp add: memcpy_at_def width bs_ok_def)
  ultimately show ?thesis
    using assms by (simp add: put_eq get_eq byte_stream_setpos_def bs_store_def width dec_enc
        byte_stream_bytes_left_def)
qed

lemma get_bytes_left:
  "bs_ok bs \<Longrightarrow> width \<le> byte_stream_bytes_left bs \<Longrightarrow>
   bs_ok (snd (get bs)) \<and> byte_stream_bytes_left (snd (get bs)) = byte_stream_bytes_left bs - width"
  by (auto simp: get_eq bs_ok_def byte_stream_bytes_left_def)

end

text \<open>A byte at bit position \<open>k\<close> of a wider word: the masks of the macros do nothing and the sums
  have disjoint summands.\<close>

definition byte_at :: "nat \<Rightarrow> byte \<Rightarrow> 'a :: len word" where
  "byte_at k b = push_bit k (ucast b)"

lemma bit_byte_at: "bit (byte_at k b :: 'a :: len word) n \<longleftrightarrow> n < LENGTH('a) \<and> k \<le> n \<and> bit b (n - k)"
  by (auto simp: byte_at_def bit_simps)

lemma byte_bit_less: "bit (b :: byte) n \<Longrightarrow> n < 8"
  using bit_imp_le_length [of b n] by simp

lemma byte_at_mask: "byte_at k b AND push_bit k (mask 8) = (byte_at k b :: 'a :: len word)"
  by (rule bit_word_eqI) (auto simp: bit_byte_at bit_simps dest: byte_bit_less)

lemma byte_at_masks:
  "push_bit 8 (ucast b) AND 0xff00 = (byte_at 8 b :: word16)" "ucast b AND 0xff = (byte_at 0 b :: word16)"
  "push_bit 24 (ucast b) AND 0xff000000 = (byte_at 24 b :: word32)"
  "push_bit 16 (ucast b) AND 0x00ff0000 = (byte_at 16 b :: word32)"
  "push_bit 8 (ucast b) AND 0x0000ff00 = (byte_at 8 b :: word32)"
  "ucast b AND 0x000000ff = (byte_at 0 b :: word32)"
  using byte_at_mask [of 8 b, where 'a = 16] byte_at_mask [of 0 b, where 'a = 16]
    byte_at_mask [of 24 b, where 'a = 32] byte_at_mask [of 16 b, where 'a = 32]
    byte_at_mask [of 8 b, where 'a = 32] byte_at_mask [of 0 b, where 'a = 32]
  by (simp_all add: byte_at_def mask_eq_exp_minus_1)

lemma byte_at_disjoint: "8 + k \<le> l \<or> 8 + l \<le> k \<Longrightarrow> byte_at k a AND byte_at l b = (0 :: 'a :: len word)"
  by (rule bit_word_eqI) (auto simp: bit_byte_at bit_simps dest!: byte_bit_less)

lemma or_disjoint: "a AND c = 0 \<Longrightarrow> b AND c = 0 \<Longrightarrow> (a OR b) AND c = (0 :: 'a :: len word)"
  by (simp add: bit.conj_disj_distrib2)

lemma get16_or:
  "aimutil_get16 (a # b # xs) = byte_at 8 a OR byte_at 0 b"
  "aimutil_getle16 (a # b # xs) = byte_at 0 a OR byte_at 8 b"
  by (simp_all add: aimutil_get16_def aimutil_getle16_def byte_at_masks add_or_disjoint byte_at_disjoint)

lemma get32_or:
  "aimutil_get32 (a # b # c # d # xs) = byte_at 24 a OR byte_at 16 b OR byte_at 8 c OR byte_at 0 d"
  "aimutil_getle32 (a # b # c # d # xs) = byte_at 0 a OR byte_at 8 b OR byte_at 16 c OR byte_at 24 d"
  by (simp_all add: aimutil_get32_def aimutil_getle32_def byte_at_masks add_or_disjoint byte_at_disjoint
      or_disjoint or.assoc)

lemma word16_bytes: "byte_at 8 (ucast (drop_bit 8 v)) OR byte_at 0 (ucast v) = (v :: word16)"
  by (rule bit_word_eqI) (auto simp: bit_byte_at bit_simps)

lemma word32_bytes:
  "byte_at 24 (ucast (drop_bit 24 v)) OR byte_at 16 (ucast (drop_bit 16 v)) OR
   byte_at 8 (ucast (drop_bit 8 v)) OR byte_at 0 (ucast v) = (v :: word32)"
proof (rule bit_word_eqI)
  fix n :: nat assume "n < LENGTH(32)"
  then consider "n < 8" | "8 \<le> n" "n < 16" | "16 \<le> n" "n < 24" | "24 \<le> n" "n < 32" by fastforce
  then show "bit (byte_at 24 (ucast (drop_bit 24 v)) OR byte_at 16 (ucast (drop_bit 16 v)) OR
      byte_at 8 (ucast (drop_bit 8 v)) OR byte_at 0 (ucast v) :: word32) n = bit v n"
    by cases (auto simp: bit_byte_at bit_simps)
qed

interpretation c8: wire_codec aimutil_put8 aimutil_get8 1 byte_stream_put8 byte_stream_get8 1 0
  by unfold_locales (auto simp: aimutil_put8_def aimutil_get8_def byte_stream_put8_def byte_stream_get8_def)

interpretation c16: wire_codec aimutil_put16 aimutil_get16 2 byte_stream_put16 byte_stream_get16 2 0
  by unfold_locales
     (simp_all add: aimutil_put16_def get16_or word16_bytes byte_stream_put16_def byte_stream_get16_def)

interpretation c32: wire_codec aimutil_put32 aimutil_get32 4 byte_stream_put32 byte_stream_get32 1 0
  by unfold_locales
     (simp_all add: aimutil_put32_def get32_or word32_bytes byte_stream_put32_def byte_stream_get32_def)

interpretation cle8: wire_codec aimutil_putle8 aimutil_getle8 1 byte_stream_putle8 byte_stream_getle8 1 0
  by unfold_locales
     (auto simp: aimutil_putle8_def aimutil_getle8_def byte_stream_putle8_def byte_stream_getle8_def)

interpretation cle16: wire_codec aimutil_putle16 aimutil_getle16 2 byte_stream_putle16 byte_stream_getle16 2 0
  by unfold_locales
     (simp_all add: aimutil_putle16_def get16_or word16_bytes or.commute [of "byte_at 0 _"] byte_stream_putle16_def byte_stream_getle16_def)

interpretation cle32: wire_codec aimutil_putle32 aimutil_getle32 4 byte_stream_putle32 byte_stream_getle32 1 0
proof
  show "aimutil_getle32 (aimutil_putle32 v @ xs) = v" for v xs
    using word32_bytes [of v] by (simp add: aimutil_putle32_def get32_or or.commute or.left_commute)
qed (simp_all add: aimutil_putle32_def byte_stream_putle32_def byte_stream_getle32_def)

subsection \<open>Moving the cursor and reading names\<close>

lemma advance_negative:
  assumes "bs_len bs < 2 ^ 63" and "- (2 ^ 31) \<le> n" and "n < 0"
  shows "byte_stream_advance bs n = (0, bs)"
proof -
  have "n mod 2 ^ 64 = (n + 2 ^ 64) mod 2 ^ 64" by simp
  also have "\<dots> = n + 2 ^ 64" using assms(2,3) by (intro mod_pos_pos_trivial) simp_all
  finally have "n mod 2 ^ 64 = n + 2 ^ 64" .
  moreover have "int (bs_len bs) < 2 ^ 63" using assms(1) by (metis of_nat_less_iff of_nat_numeral of_nat_power)
  ultimately have "\<not> nat (n mod 2 ^ 64) \<le> byte_stream_bytes_left bs"
    using assms(2) by (simp add: byte_stream_bytes_left_def)
  then show ?thesis by (simp add: byte_stream_advance_def)
qed

lemma advance_forward:
  "n \<le> byte_stream_bytes_left bs \<Longrightarrow> n < 2 ^ 31 \<Longrightarrow>
   byte_stream_advance bs (int n) = (int n, bs\<lparr>bs_offset := bs_offset bs + n\<rparr>)"
  by (simp add: byte_stream_advance_def byte_stream_curpos_def nat_add_distrib)

lemma get8_Cons:
  assumes "bs_ok bs" and "bs_rest bs = c # xs"
  obtains bs' where "byte_stream_get8 bs = (c, bs')" "bs_ok bs'" "bs_rest bs' = xs" "bs_len bs' = bs_len bs"
proof -
  have "bs_rest bs = aimutil_put8 c @ xs" using assms(2) by (simp add: aimutil_put8_def)
  from c8.get_ok [OF assms(1) this] show ?thesis using that by blast
qed

lemma count_to_nul_name:
  assumes "bs_ok bs" and "bs_rest bs = name @ 0 # rest" and "0 \<notin> set name"
  shows "\<exists>bs'. count_to_nul bs k = (k + length name, bs') \<and> bs_ok bs' \<and> bs_rest bs' = rest \<and>
    bs_len bs' = bs_len bs"
  using assms
proof (induction name arbitrary: bs k)
  case Nil
  then have "bs_rest bs = 0 # rest" by simp
  with Nil.prems(1) obtain bs' where "byte_stream_get8 bs = (0, bs')" "bs_ok bs'" "bs_rest bs' = rest"
    "bs_len bs' = bs_len bs" by (rule get8_Cons)
  then show ?case by (simp add: count_to_nul.simps [of bs])
next
  case (Cons c name)
  then have "bs_rest bs = c # name @ 0 # rest" by simp
  with Cons.prems(1) obtain bs' where bs': "byte_stream_get8 bs = (c, bs')" "bs_ok bs'"
    "bs_rest bs' = name @ 0 # rest" "bs_len bs' = bs_len bs" by (rule get8_Cons)
  from Cons.IH [OF bs'(2,3), of "k + 1"] Cons.prems(3) bs'(1,4) show ?case
    by (simp add: count_to_nul.simps [of bs])
qed

lemma getstr_rest:
  "bs_ok bs \<Longrightarrow> fst (byte_stream_getstr bs n) =
     (if n \<le> length (bs_rest bs) then Some (take n (bs_rest bs) @ [0]) else None)"
  by (simp add: byte_stream_getstr_def byte_stream_getrawbuf_nocheck_def bytes_left_rest) (simp add: bs_rest_def)

subsection \<open>Properties\<close>

text \<open>Every fixed-width field that is written where there is room is read back unchanged from the
  same position, in both byte orders, and the reader ends where the writer ended.\<close>

theorem bstream_put_get:
  assumes "bs_ok bs" and "4 \<le> byte_stream_bytes_left bs"
  shows "byte_stream_get8 (snd (byte_stream_setpos (snd (byte_stream_put8 bs a)) (bs_offset bs))) =
           (a, snd (byte_stream_put8 bs a)) \<and>
         byte_stream_get16 (snd (byte_stream_setpos (snd (byte_stream_put16 bs b)) (bs_offset bs))) =
           (b, snd (byte_stream_put16 bs b)) \<and>
         byte_stream_get32 (snd (byte_stream_setpos (snd (byte_stream_put32 bs c)) (bs_offset bs))) =
           (c, snd (byte_stream_put32 bs c)) \<and>
         byte_stream_getle8 (snd (byte_stream_setpos (snd (byte_stream_putle8 bs a)) (bs_offset bs))) =
           (a, snd (byte_stream_putle8 bs a)) \<and>
         byte_stream_getle16 (snd (byte_stream_setpos (snd (byte_stream_putle16 bs b)) (bs_offset bs))) =
           (b, snd (byte_stream_putle16 bs b)) \<and>
         byte_stream_getle32 (snd (byte_stream_setpos (snd (byte_stream_putle32 bs c)) (bs_offset bs))) =
           (c, snd (byte_stream_putle32 bs c))"
  using assms by (intro conjI c8.put_get c16.put_get c32.put_get cle8.put_get cle16.put_get cle32.put_get) simp_all

theorem bstream_put_get_witness:
  "byte_stream_get32 (snd (byte_stream_setpos (snd (byte_stream_put32 (byte_stream_new (\<lambda>_. 0) 6) 0x01020304)) 0)) =
     (0x01020304, snd (byte_stream_put32 (byte_stream_new (\<lambda>_. 0) 6) 0x01020304))"
  using bstream_put_get [of "byte_stream_new (\<lambda>_. 0) 6" 0 0 "0x01020304"] by simp

text \<open>\<open>byte_stream_advance\<close> never moves the cursor backwards: every negative \<open>n\<close> is refused,
  because the second guard compares \<open>(gsize)n\<close>; moves forward inside the stream succeed.\<close>

theorem bstream_advance_forward_only:
  assumes "bs_ok bs" and "bs_len bs < 2 ^ 63" and "- (2 ^ 31) \<le> n" and "n < 2 ^ 31"
  shows "byte_stream_advance bs n =
    (if 0 \<le> n \<and> nat n \<le> byte_stream_bytes_left bs
     then (n, bs\<lparr>bs_offset := bs_offset bs + nat n\<rparr>) else (0, bs))"
proof (cases "n < 0")
  case True
  with advance_negative [of bs n] assms show ?thesis by simp
next
  case False
  then have n: "n = int (nat n)" by simp
  have "nat n < 2 ^ 31" using assms(4) False by (simp add: nat_less_iff)
  with advance_forward [of "nat n" bs] n show ?thesis
    by (auto simp: byte_stream_advance_def)
qed

theorem bstream_advance_forward_only_witness:
  "byte_stream_advance \<lparr>bs_data = [1, 2, 0], bs_len = 3, bs_offset = 3\<rparr> (- 3) =
     (0, \<lparr>bs_data = [1, 2, 0], bs_len = 3, bs_offset = 3\<rparr>)"
  using bstream_advance_forward_only [of "\<lparr>bs_data = [1, 2, 0], bs_len = 3, bs_offset = 3\<rparr>" "- 3"]
  by (simp add: bs_ok_def)

text \<open>The name of an offered file is not what the peer sent: stepping back over the name fails
  silently, so the code reads the bytes that follow the terminating NUL (or nothing, when
  there are fewer of them than the name has).\<close>

theorem sendfile_filename_wrong:
  assumes "bs_ok bs" and "bs_len bs < 2 ^ 31" and "bs_rest bs = name @ 0 # rest" and "0 \<notin> set name"
  shows "fst (sendfile_filename bs) =
    (if length name \<le> length rest then Some (take (length name) rest @ [0]) else None)"
proof -
  obtain bs' where bs': "count_to_nul bs 0 = (0 + length name, bs')" "bs_ok bs'" "bs_rest bs' = rest"
    "bs_len bs' = bs_len bs"
    using count_to_nul_name [OF assms(1,3,4)] by blast
  have "length (name @ 0 # rest) \<le> bs_len bs"
    using assms(1) unfolding assms(3) [symmetric] by (simp add: bs_rest_def bs_ok_def)
  then have "int (length name) + 1 \<le> 2 ^ 31" using assms(2) by simp
  then have "byte_stream_advance bs' (- int (length name) - 1) = (0, bs')"
    using assms(2) bs'(4) by (intro advance_negative) simp_all
  then show ?thesis using bs' by (simp add: sendfile_filename_def getstr_rest)
qed

theorem sendfile_filename_wrong_witness:
  "fst (sendfile_filename \<lparr>bs_data = [0x61, 0x62, 0, 0x78, 0x79, 0x7a], bs_len = 6, bs_offset = 0\<rparr>) =
     Some [0x78, 0x79, 0]"
  using sendfile_filename_wrong [of "\<lparr>bs_data = [0x61, 0x62, 0, 0x78, 0x79, 0x7a], bs_len = 6, bs_offset = 0\<rparr>"
      "[0x61, 0x62]" "[0x78, 0x79, 0x7a]"]
  by (simp add: bs_ok_def bs_rest_def)

subsection \<open>BART assets\<close>

lemma putstr_ok:
  assumes "bs_ok bs" and "length s \<le> byte_stream_bytes_left bs"
  shows "bs_ok (snd (byte_stream_putstr bs s))"
    and "bs_written (snd (byte_stream_putstr bs s)) = bs_written bs @ s"
    and "byte_stream_bytes_left (snd (byte_stream_putstr bs s)) = byte_stream_bytes_left bs - length s"
    and "bs_len (snd (byte_stream_putstr bs s)) = bs_len bs"
  using assms bs_store_ok [of bs s] by (simp_all add: byte_stream_putstr_def byte_stream_putraw_def)

lemma written_full: "bs_ok bs \<Longrightarrow> byte_stream_bytes_left bs = 0 \<Longrightarrow> bs_data bs = bs_written bs"
  by (simp add: bs_ok_def byte_stream_bytes_left_def bs_written_def)

lemma putbs_all:
  assumes "bs_ok bs" and "bs_ok d" and "bs_len d \<le> byte_stream_bytes_left bs"
  shows "bs_written (fst (snd (byte_stream_putbs bs (d\<lparr>bs_offset := 0\<rparr>) (bs_len d)))) = bs_written bs @ bs_data d"
  using assms bs_store_ok(2) [of bs "bs_data d"]
  by (simp add: byte_stream_putbs_def byte_stream_bytes_left_def bs_ok_def)

text \<open>A nonempty asset string is written, where there is room, as type, flag 4, a length byte and
  the payload (16-bit length, string, two zero bytes); the length byte is the payload's length
  exactly for strings of at most 251 bytes and wraps around above.\<close>

theorem bart_asset_str_layout:
  assumes "bs_ok bs" and "0 < length s" and "length s + 8 \<le> byte_stream_bytes_left bs"
  shows "bs_written (byte_stream_put_bart_asset_str junk bs type (Some s)) =
      bs_written bs @ aimutil_put16 type @ [0x04, of_nat (length s + 4)] @
      (aimutil_put16 (of_nat (length s)) @ s @ [0, 0]) \<and>
    (unat (of_nat (length s + 4) :: byte) = length (aimutil_put16 (of_nat (length s)) @ s @ [0, 0])
       \<longleftrightarrow> length s \<le> 251)"
proof -
  define d1 where "d1 = snd (byte_stream_put16 (byte_stream_new junk (2 + length s + 2)) (of_nat (length s)))"
  have d1: "bs_ok d1" "bs_written d1 = aimutil_put16 (of_nat (length s))"
    "byte_stream_bytes_left d1 = length s + 2" "bs_len d1 = length s + 4"
    using c16.put_ok [of "byte_stream_new junk (2 + length s + 2)" "of_nat (length s)"]
    by (simp_all add: d1_def)
  define d2 where "d2 = snd (byte_stream_putstr d1 s)"
  have d2: "bs_ok d2" "bs_written d2 = aimutil_put16 (of_nat (length s)) @ s"
    "byte_stream_bytes_left d2 = 2" "bs_len d2 = length s + 4"
    using putstr_ok [of d1 s] d1 by (simp_all add: d2_def)
  define d where "d = snd (byte_stream_put16 d2 0)"
  have d: "bs_ok d" "bs_written d = aimutil_put16 (of_nat (length s)) @ s @ [0, 0]"
    "byte_stream_bytes_left d = 0" "bs_len d = length s + 4"
    using c16.put_ok [of d2 0] d2 by (simp_all add: d_def aimutil_put16_def)
  have data: "bs_data d = aimutil_put16 (of_nat (length s)) @ s @ [0, 0]"
    using written_full [OF d(1,3)] d(2) by simp
  define b1 where "b1 = snd (byte_stream_put16 bs type)"
  have b1: "bs_ok b1" "bs_written b1 = bs_written bs @ aimutil_put16 type"
    "length s + 6 \<le> byte_stream_bytes_left b1"
    using c16.put_ok [of bs type] assms by (simp_all add: b1_def)
  define b2 where "b2 = snd (byte_stream_put8 b1 4)"
  have b2: "bs_ok b2" "bs_written b2 = bs_written b1 @ [4]" "length s + 5 \<le> byte_stream_bytes_left b2"
    using c8.put_ok [of b1 4] b1 by (simp_all add: b2_def aimutil_put8_def)
  define b3 where "b3 = snd (byte_stream_put8 b2 (of_nat (length s + 4)))"
  have b3: "bs_ok b3" "bs_written b3 = bs_written b2 @ [of_nat (length s + 4)]"
    "length s + 4 \<le> byte_stream_bytes_left b3"
    using c8.put_ok [of b2 "of_nat (length s + 4)"] b2 by (simp_all add: b3_def aimutil_put8_def)
  have "byte_stream_put_bart_asset_str junk bs type (Some s) = fst (byte_stream_put_bart_asset bs type (Some d))"
    using assms(2) by (simp add: byte_stream_put_bart_asset_str_def Let_def d_def d2_def d1_def)
  also have "\<dots> = fst (snd (byte_stream_putbs b3 (d\<lparr>bs_offset := 0\<rparr>) (bs_len d)))"
    using d(4) by (simp add: byte_stream_put_bart_asset_def Let_def split_beta b1_def b2_def b3_def)
  finally have "byte_stream_put_bart_asset_str junk bs type (Some s) =
      fst (snd (byte_stream_putbs b3 (d\<lparr>bs_offset := 0\<rparr>) (bs_len d)))" .
  moreover have "unat (of_nat (length s + 4) :: byte) = length s + 4 \<longleftrightarrow> length s + 4 < 256"
    by (simp add: unat_of_nat mod_eq_self_iff_div_eq_0 div_eq_0_iff del: of_nat_add)
  ultimately show ?thesis
    using putbs_all [OF b3(1) d(1)] b3 b2(2) b1(2) data d(4) c16.width by (auto simp del: of_nat_add)
qed

theorem bart_asset_str_layout_witness:
  "bs_written (byte_stream_put_bart_asset_str (\<lambda>_. 0) (byte_stream_new (\<lambda>_. 0) 10) 2 (Some [0x68, 0x69])) =
     [0, 2, 4, 6, 0, 2, 0x68, 0x69, 0, 0]"
  using bart_asset_str_layout [of "byte_stream_new (\<lambda>_. 0) 10" "[0x68, 0x69]" "\<lambda>_. 0" 2]
  by (simp add: aimutil_put16_def)

end
