(* ===== verification/Oscar_Tlv.thy ===== *)
theory Oscar_Tlv
  imports Oscar_Bstream
begin

section \<open>TLV chains (\<open>libpurple/protocols/oscar/tlv.c\<close>)\<close>

text \<open>
  A chain is a \<open>GSList\<close> of type-length-value records, a list here; \<open>NULL\<close> is the empty list, so
  a reader that fails and a reader of nothing return the same, as in the code.  The three
  readers loop until the stream is empty: they are \<open>partial_function\<close>s with value \<open>None\<close> when they
  never return, and their termination is a theorem (or its failure is one).  The getters that
  read a fixed number of bytes from a value return \<open>None\<close> when they read past its allocation.
  \<open>aim_tlvlist_add_caps\<close> and \<open>aim_tlvlist_add_chatroom\<close> are not modelled; list arguments are
  never \<open>NULL\<close> pointers to a list head.
\<close>

record aim_tlv =
  tlv_type :: word16
  tlv_length :: word16
  tlv_value :: bytes

definition createtlv :: "word16 \<Rightarrow> word16 \<Rightarrow> bytes \<Rightarrow> aim_tlv" where
  "createtlv t l v = \<lparr>tlv_type = t, tlv_length = l, tlv_value = v\<rparr>"

subsection \<open>Reading\<close>

definition aim_tlv_read :: "aim_tlv list \<Rightarrow> byte_stream \<Rightarrow> aim_tlv list \<times> byte_stream" where
  "aim_tlv_read lst bs =
     (let (type, bs) = byte_stream_get16 bs;
          (len, bs) = byte_stream_get16 bs
      in if unat len > byte_stream_bytes_left bs then ([], bs)
         else if unat len > 0
         then (case byte_stream_getraw bs (unat len) of
                 (None, bs) \<Rightarrow> ([], bs)
               | (Some v, bs) \<Rightarrow> (createtlv type len v # lst, bs))
         else (createtlv type len [] # lst, bs))"

partial_function (option) tlvlist_read_loop ::
  "aim_tlv list \<Rightarrow> byte_stream \<Rightarrow> (aim_tlv list \<times> byte_stream) option" where
  "tlvlist_read_loop lst bs =
     (if byte_stream_bytes_left bs > 0
      then (case aim_tlv_read lst bs of
              (lst, bs) \<Rightarrow> if lst = [] then Some ([], bs) else tlvlist_read_loop lst bs)
      else Some (rev lst, bs))"

definition aim_tlvlist_read :: "byte_stream \<Rightarrow> (aim_tlv list \<times> byte_stream) option" where
  "aim_tlvlist_read bs = tlvlist_read_loop [] bs"

text \<open>Here the counter bounds the loop.\<close>

function tlvlist_readnum_loop :: "aim_tlv list \<Rightarrow> byte_stream \<Rightarrow> word16 \<Rightarrow> aim_tlv list \<times> byte_stream" where
  "tlvlist_readnum_loop lst bs num =
     (if byte_stream_bytes_left bs > 0 \<and> num \<noteq> 0
      then (case aim_tlv_read lst bs of
              (lst, bs) \<Rightarrow> if lst = [] then ([], bs) else tlvlist_readnum_loop lst bs (num - 1))
      else (rev lst, bs))"
  by pat_completeness auto
termination
  by (relation "measure (\<lambda>(_, _, num). unat num)") (auto simp: unat_gt_0 word_neq_0_conv measure_unat)

declare tlvlist_readnum_loop.simps [simp del]

definition aim_tlvlist_readnum :: "byte_stream \<Rightarrow> word16 \<Rightarrow> aim_tlv list \<times> byte_stream" where
  "aim_tlvlist_readnum bs num = tlvlist_readnum_loop [] bs num"

partial_function (option) tlvlist_readlen_loop ::
  "aim_tlv list \<Rightarrow> byte_stream \<Rightarrow> word16 \<Rightarrow> (aim_tlv list \<times> byte_stream) option" where
  "tlvlist_readlen_loop lst bs len =
     (if byte_stream_bytes_left bs > 0 \<and> len > 0
      then (case aim_tlv_read lst bs of
              (lst, bs) \<Rightarrow>
                (case lst of
                   [] \<Rightarrow> Some ([], bs)
                 | tlv # _ \<Rightarrow> tlvlist_readlen_loop lst bs (len - (2 + 2 + tlv_length tlv))))
      else Some (rev lst, bs))"

definition aim_tlvlist_readlen :: "byte_stream \<Rightarrow> word16 \<Rightarrow> (aim_tlv list \<times> byte_stream) option" where
  "aim_tlvlist_readlen bs len = tlvlist_readlen_loop [] bs len"

subsection \<open>Building and writing\<close>

definition aim_tlvlist_count :: "aim_tlv list \<Rightarrow> nat" where
  "aim_tlvlist_count lst = length lst"

fun aim_tlvlist_size :: "aim_tlv list \<Rightarrow> nat" where
  "aim_tlvlist_size [] = 0"
| "aim_tlvlist_size (tlv # lst) = (4 + unat (tlv_length tlv)) + aim_tlvlist_size lst"

text \<open>\<open>g_memdup\<close> of \<open>length\<close> bytes of the caller's value.\<close>

definition aim_tlvlist_add_raw :: "aim_tlv list \<Rightarrow> word16 \<Rightarrow> word16 \<Rightarrow> bytes \<Rightarrow> int \<times> aim_tlv list" where
  "aim_tlvlist_add_raw lst type len v =
     (let tlv = createtlv type len (if unat len > 0 then take (unat len) v else [])
      in (int (unat len), lst @ [tlv]))"

definition aim_tlvlist_add_8 :: "aim_tlv list \<Rightarrow> word16 \<Rightarrow> byte \<Rightarrow> int \<times> aim_tlv list" where
  "aim_tlvlist_add_8 lst type v = aim_tlvlist_add_raw lst type 1 (aimutil_put8 v)"

definition aim_tlvlist_add_16 :: "aim_tlv list \<Rightarrow> word16 \<Rightarrow> word16 \<Rightarrow> int \<times> aim_tlv list" where
  "aim_tlvlist_add_16 lst type v = aim_tlvlist_add_raw lst type 2 (aimutil_put16 v)"

definition aim_tlvlist_add_32 :: "aim_tlv list \<Rightarrow> word16 \<Rightarrow> word32 \<Rightarrow> int \<times> aim_tlv list" where
  "aim_tlvlist_add_32 lst type v = aim_tlvlist_add_raw lst type 4 (aimutil_put32 v)"

text \<open>\<open>strlen\<close> is truncated to the 16-bit parameter.\<close>

definition aim_tlvlist_add_str :: "aim_tlv list \<Rightarrow> word16 \<Rightarrow> bytes \<Rightarrow> int \<times> aim_tlv list" where
  "aim_tlvlist_add_str lst type v = aim_tlvlist_add_raw lst type (of_nat (length v)) v"

definition aim_tlvlist_add_noval :: "aim_tlv list \<Rightarrow> word16 \<Rightarrow> int \<times> aim_tlv list" where
  "aim_tlvlist_add_noval lst type = aim_tlvlist_add_raw lst type 0 []"

fun aim_tlvlist_copy_loop :: "aim_tlv list \<Rightarrow> aim_tlv list \<Rightarrow> aim_tlv list" where
  "aim_tlvlist_copy_loop new [] = new"
| "aim_tlvlist_copy_loop new (tlv # orig) =
     aim_tlvlist_copy_loop (snd (aim_tlvlist_add_raw new (tlv_type tlv) (tlv_length tlv) (tlv_value tlv))) orig"

definition aim_tlvlist_copy :: "aim_tlv list \<Rightarrow> aim_tlv list" where
  "aim_tlvlist_copy orig = aim_tlvlist_copy_loop [] orig"

fun tlvlist_write_loop :: "byte_stream \<Rightarrow> aim_tlv list \<Rightarrow> byte_stream" where
  "tlvlist_write_loop bs [] = bs"
| "tlvlist_write_loop bs (tlv # lst) =
     (let bs = snd (byte_stream_put16 bs (tlv_type tlv));
          bs = snd (byte_stream_put16 bs (tlv_length tlv));
          bs = (if unat (tlv_length tlv) > 0
                then snd (byte_stream_putraw bs (tlv_value tlv) (unat (tlv_length tlv))) else bs)
      in tlvlist_write_loop bs lst)"

definition aim_tlvlist_write :: "byte_stream \<Rightarrow> aim_tlv list \<Rightarrow> int \<times> byte_stream" where
  "aim_tlvlist_write bs lst =
     (if aim_tlvlist_size lst > byte_stream_bytes_left bs then (0, bs)
      else (1, tlvlist_write_loop bs lst))"

definition aim_tlvlist_add_frozentlvlist ::
  "(nat \<Rightarrow> byte) \<Rightarrow> aim_tlv list \<Rightarrow> word16 \<Rightarrow> aim_tlv list \<Rightarrow> int \<times> aim_tlv list" where
  "aim_tlvlist_add_frozentlvlist junk lst type tlvlist =
     (let buflen = aim_tlvlist_size tlvlist
      in if buflen = 0 then (0, lst)
         else let bs = snd (aim_tlvlist_write (byte_stream_new junk buflen) tlvlist)
              in (int buflen,
                  snd (aim_tlvlist_add_raw lst type (of_int (byte_stream_curpos bs)) (bs_data bs))))"

definition aim_tlvlist_cmp :: "(nat \<Rightarrow> byte) \<Rightarrow> (nat \<Rightarrow> byte) \<Rightarrow> aim_tlv list \<Rightarrow> aim_tlv list \<Rightarrow> int" where
  "aim_tlvlist_cmp junk1 junk2 one two =
     (if aim_tlvlist_size one \<noteq> aim_tlvlist_size two then 1
      else let bs1 = snd (aim_tlvlist_write (byte_stream_new junk1 (aim_tlvlist_size one)) one);
               bs2 = snd (aim_tlvlist_write (byte_stream_new junk2 (aim_tlvlist_size two)) two)
           in if take (bs_len bs1) (bs_data bs1) \<noteq> take (bs_len bs1) (bs_data bs2) then 1 else 0)"

subsection \<open>Updating\<close>

text \<open>The search for the first record of a type, and the change of that record in place.\<close>

fun tlvlist_set_first :: "aim_tlv list \<Rightarrow> word16 \<Rightarrow> word16 \<Rightarrow> bytes \<Rightarrow> aim_tlv list option" where
  "tlvlist_set_first [] type len v = None"
| "tlvlist_set_first (tlv # lst) type len v =
     (if tlv_type tlv = type
      then Some (tlv\<lparr>tlv_length := len, tlv_value := (if unat len > 0 then take (unat len) v else [])\<rparr> # lst)
      else map_option ((#) tlv) (tlvlist_set_first lst type len v))"

definition aim_tlvlist_replace_raw :: "aim_tlv list \<Rightarrow> word16 \<Rightarrow> word16 \<Rightarrow> bytes \<Rightarrow> int \<times> aim_tlv list" where
  "aim_tlvlist_replace_raw lst type len v =
     (case tlvlist_set_first lst type len v of
        None \<Rightarrow> aim_tlvlist_add_raw lst type len v
      | Some lst' \<Rightarrow> (int (unat len), lst'))"

definition aim_tlvlist_replace_str :: "aim_tlv list \<Rightarrow> word16 \<Rightarrow> bytes \<Rightarrow> int \<times> aim_tlv list" where
  "aim_tlvlist_replace_str lst type str = aim_tlvlist_replace_raw lst type (of_nat (length str)) str"

definition aim_tlvlist_replace_noval :: "aim_tlv list \<Rightarrow> word16 \<Rightarrow> int \<times> aim_tlv list" where
  "aim_tlvlist_replace_noval lst type = aim_tlvlist_replace_raw lst type 0 []"

definition aim_tlvlist_replace_8 :: "aim_tlv list \<Rightarrow> word16 \<Rightarrow> byte \<Rightarrow> int \<times> aim_tlv list" where
  "aim_tlvlist_replace_8 lst type v = aim_tlvlist_replace_raw lst type 1 (aimutil_put8 v)"

definition aim_tlvlist_replace_32 :: "aim_tlv list \<Rightarrow> word16 \<Rightarrow> word32 \<Rightarrow> int \<times> aim_tlv list" where
  "aim_tlvlist_replace_32 lst type v = aim_tlvlist_replace_raw lst type 4 (aimutil_put32 v)"

definition aim_tlvlist_remove :: "aim_tlv list \<Rightarrow> word16 \<Rightarrow> aim_tlv list" where
  "aim_tlvlist_remove lst type = filter (\<lambda>tlv. tlv_type tlv \<noteq> type) lst"

subsection \<open>Looking up\<close>

fun gettlv_loop :: "aim_tlv list \<Rightarrow> word16 \<Rightarrow> int \<Rightarrow> int \<Rightarrow> aim_tlv option" where
  "gettlv_loop [] type n i = None"
| "gettlv_loop (tlv # lst) type n i =
     (let i = (if tlv_type tlv = type then i + 1 else i)
      in if i \<ge> n then Some tlv else gettlv_loop lst type n i)"

definition aim_tlv_gettlv :: "aim_tlv list \<Rightarrow> word16 \<Rightarrow> int \<Rightarrow> aim_tlv option" where
  "aim_tlv_gettlv lst type n = gettlv_loop lst type n 0"

definition aim_tlv_getlength :: "aim_tlv list \<Rightarrow> word16 \<Rightarrow> int \<Rightarrow> int" where
  "aim_tlv_getlength lst type n =
     (case aim_tlv_gettlv lst type n of None \<Rightarrow> - 1 | Some tlv \<Rightarrow> int (unat (tlv_length tlv)))"

definition aim_tlv_getvalue_as_string :: "aim_tlv \<Rightarrow> bytes" where
  "aim_tlv_getvalue_as_string tlv = take (unat (tlv_length tlv)) (tlv_value tlv) @ [0]"

definition aim_tlv_getstr :: "aim_tlv list \<Rightarrow> word16 \<Rightarrow> int \<Rightarrow> bytes option" where
  "aim_tlv_getstr lst type n = map_option aim_tlv_getvalue_as_string (aim_tlv_gettlv lst type n)"

definition aim_tlv_get8 :: "aim_tlv list \<Rightarrow> word16 \<Rightarrow> int \<Rightarrow> byte option" where
  "aim_tlv_get8 lst type n =
     (case aim_tlv_gettlv lst type n of
        None \<Rightarrow> Some 0
      | Some tlv \<Rightarrow> if length (tlv_value tlv) < 1 then None else Some (aimutil_get8 (tlv_value tlv)))"

definition aim_tlv_get16 :: "aim_tlv list \<Rightarrow> word16 \<Rightarrow> int \<Rightarrow> word16 option" where
  "aim_tlv_get16 lst type n =
     (case aim_tlv_gettlv lst type n of
        None \<Rightarrow> Some 0
      | Some tlv \<Rightarrow> if length (tlv_value tlv) < 2 then None else Some (aimutil_get16 (tlv_value tlv)))"

definition aim_tlv_get32 :: "aim_tlv list \<Rightarrow> word16 \<Rightarrow> int \<Rightarrow> word32 option" where
  "aim_tlv_get32 lst type n =
     (case aim_tlv_gettlv lst type n of
        None \<Rightarrow> Some 0
      | Some tlv \<Rightarrow> if length (tlv_value tlv) < 4 then None else Some (aimutil_get32 (tlv_value tlv)))"

subsection \<open>Wire format\<close>

definition tlv_wf :: "aim_tlv \<Rightarrow> bool" where
  "tlv_wf tlv \<longleftrightarrow> length (tlv_value tlv) = unat (tlv_length tlv)"

definition tlv_bytes :: "aim_tlv \<Rightarrow> bytes" where
  "tlv_bytes tlv = aimutil_put16 (tlv_type tlv) @ aimutil_put16 (tlv_length tlv) @ tlv_value tlv"

definition tlvs_bytes :: "aim_tlv list \<Rightarrow> bytes" where
  "tlvs_bytes lst = concat (map tlv_bytes lst)"

lemma tlvs_bytes_simps [simp]:
  "tlvs_bytes [] = []" "tlvs_bytes (tlv # lst) = tlv_bytes tlv @ tlvs_bytes lst"
  by (simp_all add: tlvs_bytes_def)

lemma length_tlv_bytes [simp]: "tlv_wf tlv \<Longrightarrow> length (tlv_bytes tlv) = 4 + unat (tlv_length tlv)"
  by (simp add: tlv_bytes_def tlv_wf_def c16.width)

lemma length_tlvs_bytes [simp]: "\<forall>tlv \<in> set lst. tlv_wf tlv \<Longrightarrow> length (tlvs_bytes lst) = aim_tlvlist_size lst"
  by (induction lst) auto

lemma write_loop_ok:
  assumes "bs_ok bs" and "\<forall>tlv \<in> set lst. tlv_wf tlv" and "aim_tlvlist_size lst \<le> byte_stream_bytes_left bs"
  shows "bs_ok (tlvlist_write_loop bs lst) \<and>
    bs_written (tlvlist_write_loop bs lst) = bs_written bs @ tlvs_bytes lst \<and>
    byte_stream_bytes_left (tlvlist_write_loop bs lst) = byte_stream_bytes_left bs - aim_tlvlist_size lst \<and>
    bs_len (tlvlist_write_loop bs lst) = bs_len bs"
  using assms
proof (induction lst arbitrary: bs)
  case (Cons tlv lst)
  define b1 where "b1 = snd (byte_stream_put16 bs (tlv_type tlv))"
  define b2 where "b2 = snd (byte_stream_put16 b1 (tlv_length tlv))"
  define b3 where "b3 = bs_store b2 (tlv_value tlv)"
  have wf: "length (tlv_value tlv) = unat (tlv_length tlv)" using Cons.prems by (simp add: tlv_wf_def)
  have b1: "bs_ok b1" "bs_written b1 = bs_written bs @ aimutil_put16 (tlv_type tlv)"
    "byte_stream_bytes_left b1 = byte_stream_bytes_left bs - 2" "bs_len b1 = bs_len bs"
    using c16.put_ok [of bs "tlv_type tlv"] Cons.prems by (simp_all add: b1_def)
  have b2: "bs_ok b2" "bs_written b2 = bs_written b1 @ aimutil_put16 (tlv_length tlv)"
    "byte_stream_bytes_left b2 = byte_stream_bytes_left b1 - 2" "bs_len b2 = bs_len b1"
    using c16.put_ok [of b1 "tlv_length tlv"] Cons.prems b1 by (simp_all add: b2_def)
  have fit: "length (tlv_value tlv) \<le> byte_stream_bytes_left b2" using Cons.prems b1 b2 wf by simp
  have b3: "bs_ok b3" "bs_written b3 = bs_written b2 @ tlv_value tlv"
    "byte_stream_bytes_left b3 = byte_stream_bytes_left b2 - unat (tlv_length tlv)" "bs_len b3 = bs_len b2"
    using bs_store_ok [OF b2(1) fit] wf by (simp_all add: b3_def)
  have "(if unat (tlv_length tlv) > 0
      then snd (byte_stream_putraw b2 (tlv_value tlv) (unat (tlv_length tlv))) else b2) = b3"
  proof (cases "unat (tlv_length tlv) = 0")
    case True
    with wf have "tlv_value tlv = []" by simp
    then have "b3 = b2" using b2(1)
      by (cases b2) (simp add: b3_def bs_store_def memcpy_at_def)
    with True show ?thesis by simp
  next
    case False
    have "take (unat (tlv_length tlv)) (tlv_value tlv) = tlv_value tlv" using wf by simp
    with False fit wf show ?thesis by (simp add: byte_stream_putraw_def b3_def)
  qed
  then have "tlvlist_write_loop bs (tlv # lst) = tlvlist_write_loop b3 lst"
    by (simp only: tlvlist_write_loop.simps Let_def b1_def b2_def)
  with Cons.IH [OF b3(1)] Cons.prems b1 b2 b3 show ?case by (simp add: tlv_bytes_def)
qed simp

lemma write_ok:
  assumes "bs_ok bs" and "\<forall>tlv \<in> set lst. tlv_wf tlv" and "aim_tlvlist_size lst \<le> byte_stream_bytes_left bs"
  shows "fst (aim_tlvlist_write bs lst) = 1" and "bs_ok (snd (aim_tlvlist_write bs lst))"
    and "bs_written (snd (aim_tlvlist_write bs lst)) = bs_written bs @ tlvs_bytes lst"
    and "bs_len (snd (aim_tlvlist_write bs lst)) = bs_len bs"
    and "byte_stream_bytes_left (snd (aim_tlvlist_write bs lst)) = byte_stream_bytes_left bs - aim_tlvlist_size lst"
  using write_loop_ok [OF assms] assms(3) by (simp_all add: aim_tlvlist_write_def)

lemma write_new:
  assumes "\<forall>tlv \<in> set lst. tlv_wf tlv"
  shows "bs_data (snd (aim_tlvlist_write (byte_stream_new junk (aim_tlvlist_size lst)) lst)) = tlvs_bytes lst"
    and "bs_len (snd (aim_tlvlist_write (byte_stream_new junk (aim_tlvlist_size lst)) lst)) = aim_tlvlist_size lst"
    and "bs_ok (snd (aim_tlvlist_write (byte_stream_new junk (aim_tlvlist_size lst)) lst))"
  using write_ok [of "byte_stream_new junk (aim_tlvlist_size lst)" lst] assms
  by (simp_all add: written_full)

subsection \<open>Reading what was written\<close>

lemma read_one:
  assumes ok: "bs_ok bs" and rest: "bs_rest bs = tlv_bytes tlv @ xs" and wf: "tlv_wf tlv"
  shows "\<exists>bs'. aim_tlv_read lst bs = (tlv # lst, bs') \<and> bs_ok bs' \<and> bs_rest bs' = xs"
proof -
  obtain b1 where b1: "byte_stream_get16 bs = (tlv_type tlv, b1)" "bs_ok b1"
    "bs_rest b1 = aimutil_put16 (tlv_length tlv) @ tlv_value tlv @ xs"
    using c16.get_ok [OF ok, of "tlv_type tlv"] rest by (auto simp: tlv_bytes_def)
  obtain b2 where b2: "byte_stream_get16 b1 = (tlv_length tlv, b2)" "bs_ok b2" "bs_rest b2 = tlv_value tlv @ xs"
    using c16.get_ok [OF b1(2,3)] by auto
  have left: "byte_stream_bytes_left b2 = unat (tlv_length tlv) + length xs"
    using wf b2 by (simp add: bytes_left_rest tlv_wf_def)
  show ?thesis
  proof (cases "unat (tlv_length tlv) = 0")
    case True
    with wf have "tlv_value tlv = []" by (simp add: tlv_wf_def)
    then show ?thesis using True b1(1) b2 by (cases tlv) (simp add: aim_tlv_read_def createtlv_def)
  next
    case False
    let ?b3 = "b2\<lparr>bs_offset := bs_offset b2 + unat (tlv_length tlv)\<rparr>"
    have "byte_stream_getraw b2 (unat (tlv_length tlv)) = (Some (tlv_value tlv), ?b3)"
      using left wf b2(3) by (simp add: byte_stream_getraw_def byte_stream_getrawbuf_nocheck_def
          tlv_wf_def flip: bs_rest_def)
    moreover have "bs_rest ?b3 = drop (unat (tlv_length tlv)) (bs_rest b2)"
      by (simp add: bs_rest_def add.commute)
    moreover have "bs_ok ?b3" using b2(2) left unfolding bs_ok_def byte_stream_bytes_left_def by auto
    ultimately show ?thesis using False left wf b1(1) b2(1,3)
      by (cases tlv) (simp add: aim_tlv_read_def createtlv_def tlv_wf_def)
  qed
qed

lemma read_loop_chain:
  assumes "bs_ok bs" and "bs_rest bs = tlvs_bytes l @ xs" and "\<forall>tlv \<in> set l. tlv_wf tlv"
  shows "\<exists>bs'. tlvlist_read_loop lst bs = tlvlist_read_loop (rev l @ lst) bs' \<and> bs_ok bs' \<and> bs_rest bs' = xs"
  using assms
proof (induction l arbitrary: lst bs)
  case (Cons tlv l)
  then have rest: "bs_rest bs = tlv_bytes tlv @ tlvs_bytes l @ xs" and wf: "tlv_wf tlv" by auto
  obtain bs' where bs': "aim_tlv_read lst bs = (tlv # lst, bs')" "bs_ok bs'" "bs_rest bs' = tlvs_bytes l @ xs"
    using read_one [OF Cons.prems(1) rest wf] by blast
  have "0 < byte_stream_bytes_left bs" using Cons.prems(1) rest wf by (simp add: bytes_left_rest)
  then have "tlvlist_read_loop lst bs = tlvlist_read_loop (tlv # lst) bs'"
    using bs'(1) by (simp add: tlvlist_read_loop.simps [of lst bs])
  with Cons.IH [OF bs'(2,3)] Cons.prems(3) show ?case by simp
qed auto

lemma read_loop_empty: "byte_stream_bytes_left bs = 0 \<Longrightarrow> tlvlist_read_loop lst bs = Some (rev lst, bs)"
  by (simp add: tlvlist_read_loop.simps)

lemma read_all:
  assumes "bs_ok bs" and "bs_rest bs = tlvs_bytes l" and "\<forall>tlv \<in> set l. tlv_wf tlv"
  shows "\<exists>bs'. aim_tlvlist_read bs = Some (l, bs') \<and> byte_stream_bytes_left bs' = 0"
proof -
  obtain bs' where "tlvlist_read_loop [] bs = tlvlist_read_loop (rev l @ []) bs'" "bs_ok bs'" "bs_rest bs' = []"
    using read_loop_chain [of bs l "[]" "[]"] assms by auto
  then show ?thesis using read_loop_empty [of bs' "rev l @ []"]
    by (auto simp: aim_tlvlist_read_def bytes_left_rest)
qed

lemma tlvs_bytes_inject:
  assumes "tlvs_bytes l = tlvs_bytes l'" and "\<forall>tlv \<in> set l. tlv_wf tlv" and "\<forall>tlv \<in> set l'. tlv_wf tlv"
  shows "l = l'"
proof -
  let ?bs = "byte_stream_init (tlvs_bytes l) (length (tlvs_bytes l))"
  have "bs_ok ?bs" "bs_rest ?bs = tlvs_bytes l" by (simp_all add: byte_stream_init_def bs_ok_def bs_rest_def)
  moreover have "bs_rest ?bs = tlvs_bytes l'" unfolding assms(1) by (simp add: byte_stream_init_def bs_rest_def)
  ultimately obtain b b' where "aim_tlvlist_read ?bs = Some (l, b)" "aim_tlvlist_read ?bs = Some (l', b')"
    using read_all [of ?bs l] read_all [of ?bs l'] assms(2,3) by blast
  then show ?thesis by simp
qed

text \<open>Reading with a count or a length that covers a prefix of the stream.\<close>

lemma readnum_loop_chain:
  assumes "bs_ok bs" and "bs_rest bs = tlvs_bytes l @ xs" and "\<forall>tlv \<in> set l. tlv_wf tlv"
    and "length l < 2 ^ 16"
  shows "\<exists>bs'. tlvlist_readnum_loop lst bs (of_nat (length l)) = (rev lst @ l, bs') \<and> bs_rest bs' = xs"
  using assms
proof (induction l arbitrary: lst bs)
  case Nil
  then show ?case by (simp add: tlvlist_readnum_loop.simps)
next
  case (Cons tlv l)
  then have rest: "bs_rest bs = tlv_bytes tlv @ tlvs_bytes l @ xs" and wf: "tlv_wf tlv" by auto
  obtain bs' where bs': "aim_tlv_read lst bs = (tlv # lst, bs')" "bs_ok bs'" "bs_rest bs' = tlvs_bytes l @ xs"
    using read_one [OF Cons.prems(1) rest wf] by blast
  have "0 < byte_stream_bytes_left bs" using Cons.prems(1) rest wf by (simp add: bytes_left_rest)
  moreover have "(of_nat (length (tlv # l)) :: word16) \<noteq> 0"
    using Cons.prems(4) by (simp add: word_of_nat_eq_0_iff nat_dvd_not_less del: of_nat_Suc)
  ultimately have "tlvlist_readnum_loop lst bs (of_nat (length (tlv # l))) =
      tlvlist_readnum_loop (tlv # lst) bs' (of_nat (length l))"
    using bs'(1) by (subst tlvlist_readnum_loop.simps) simp
  moreover obtain b where "tlvlist_readnum_loop (tlv # lst) bs' (of_nat (length l)) = (rev (tlv # lst) @ l, b)"
    "bs_rest b = xs"
    using Cons.IH [OF bs'(2,3), of "tlv # lst"] Cons.prems(3,4) by auto
  ultimately show ?case by simp
qed

lemma readlen_loop_step:
  assumes "bs_ok bs" and "bs_rest bs = tlv_bytes tlv @ xs" and "tlv_wf tlv" and "len \<noteq> 0"
  shows "\<exists>bs'. tlvlist_readlen_loop lst bs len =
      tlvlist_readlen_loop (tlv # lst) bs' (len - of_nat (4 + unat (tlv_length tlv))) \<and>
    bs_ok bs' \<and> bs_rest bs' = xs"
proof -
  obtain bs' where bs': "aim_tlv_read lst bs = (tlv # lst, bs')" "bs_ok bs'" "bs_rest bs' = xs"
    using read_one [OF assms(1-3)] by blast
  have "0 < byte_stream_bytes_left bs" using assms(1-3) by (simp add: bytes_left_rest)
  then show ?thesis using bs' assms(4)
    by (subst tlvlist_readlen_loop.simps) (auto simp: word_greater_zero_iff)
qed

lemma readlen_loop_chain:
  assumes "bs_ok bs" and "bs_rest bs = tlvs_bytes l @ xs" and "\<forall>tlv \<in> set l. tlv_wf tlv"
    and "aim_tlvlist_size l < 2 ^ 16"
  shows "\<exists>bs'. tlvlist_readlen_loop lst bs (of_nat (aim_tlvlist_size l)) = Some (rev lst @ l, bs') \<and> bs_rest bs' = xs"
  using assms
proof (induction l arbitrary: lst bs)
  case Nil
  then show ?case by (simp add: tlvlist_readlen_loop.simps)
next
  case (Cons tlv l)
  then have rest: "bs_rest bs = tlv_bytes tlv @ tlvs_bytes l @ xs" and wf: "tlv_wf tlv" by auto
  have "(of_nat (aim_tlvlist_size (tlv # l)) :: word16) \<noteq> 0"
    using Cons.prems(4) by (simp add: word_of_nat_eq_0_iff nat_dvd_not_less del: of_nat_add)
  from readlen_loop_step [OF Cons.prems(1) rest wf this, of lst] obtain bs' where
    "tlvlist_readlen_loop lst bs (of_nat (aim_tlvlist_size (tlv # l))) =
       tlvlist_readlen_loop (tlv # lst) bs' (of_nat (aim_tlvlist_size l))" "bs_ok bs'" "bs_rest bs' = tlvs_bytes l @ xs"
    by auto
  moreover obtain b where "tlvlist_readlen_loop (tlv # lst) bs' (of_nat (aim_tlvlist_size l)) =
      Some (rev (tlv # lst) @ l, b)" "bs_rest b = xs"
    using Cons.IH [OF calculation(2,3), of "tlv # lst"] Cons.prems(3,4) by auto
  ultimately show ?case by simp
qed

subsection \<open>Stray bytes\<close>

lemma put16_get16: "aimutil_put16 (aimutil_get16 (a # b # xs)) = [a, b]"
proof -
  have "ucast (drop_bit 8 (byte_at 8 a OR byte_at 0 b :: word16)) = a"
    by (rule bit_word_eqI) (auto simp: bit_byte_at bit_simps dest: byte_bit_less)
  moreover have "ucast (byte_at 8 a OR byte_at 0 b :: word16) = b"
    by (rule bit_word_eqI) (auto simp: bit_byte_at bit_simps dest: byte_bit_less)
  ultimately show ?thesis by (simp add: get16_or aimutil_put16_def)
qed

text \<open>A TLV header whose length is more than what follows it.\<close>

definition bad_header :: "bytes \<Rightarrow> bool" where
  "bad_header r \<longleftrightarrow> 4 \<le> length r \<and> length r - 4 < unat (aimutil_get16 (drop 2 r))"

lemma chain_decomposition:
  "\<exists>l xs. r = tlvs_bytes l @ xs \<and> (\<forall>tlv \<in> set l. tlv_wf tlv) \<and> (length xs < 4 \<or> bad_header xs)"
proof (induction r rule: length_induct)
  case (1 r)
  show ?case
  proof (cases "length r < 4 \<or> bad_header r")
    case True
    then show ?thesis by (intro exI [of _ "[]"] exI [of _ r]) auto
  next
    case False
    then have "Suc (Suc (Suc (Suc 0))) \<le> length r" by simp
    then obtain a b c d r' where r: "r = a # b # c # d # r'"
      by (auto simp: Suc_le_length_iff)
    define len where "len = unat (aimutil_get16 (c # d # r'))"
    have fit: "len \<le> length r'" using False r by (simp add: bad_header_def len_def)
    define tlv where "tlv = createtlv (aimutil_get16 (a # b # c # d # r')) (aimutil_get16 (c # d # r')) (take len r')"
    have wf: "tlv_wf tlv" using fit by (simp add: tlv_def createtlv_def tlv_wf_def len_def)
    have r2: "r = tlv_bytes tlv @ drop len r'"
      by (simp add: r tlv_def createtlv_def tlv_bytes_def put16_get16)
    have "length (drop len r') < length r" by (simp add: r)
    with 1 obtain l xs where "drop len r' = tlvs_bytes l @ xs" "\<forall>tlv \<in> set l. tlv_wf tlv"
      "length xs < 4 \<or> bad_header xs" by blast
    with wf r2 show ?thesis by (intro exI [of _ "tlv # l"] exI [of _ xs]) simp
  qed
qed

lemma read_stuck: "byte_stream_bytes_left bs = 1 \<Longrightarrow> aim_tlv_read lst bs = (createtlv 0 0 [] # lst, bs)"
  by (simp add: aim_tlv_read_def c16.get_empty)

lemma read_loop_stuck: "tlvlist_read_loop lst bs = Some r \<Longrightarrow> byte_stream_bytes_left bs \<noteq> 1"
proof (erule tlvlist_read_loop.raw_induct [where P = "\<lambda>lst bs r. byte_stream_bytes_left bs \<noteq> 1", rotated])
  fix f :: "aim_tlv list \<Rightarrow> byte_stream \<Rightarrow> (aim_tlv list \<times> byte_stream) option"
    and lst :: "aim_tlv list" and bs :: byte_stream and r :: "aim_tlv list \<times> byte_stream"
  assume IH: "\<And>lst bs r. f lst bs = Some r \<Longrightarrow> byte_stream_bytes_left bs \<noteq> 1"
    and eq: "(if byte_stream_bytes_left bs > 0
      then (case aim_tlv_read lst bs of (lst, bs) \<Rightarrow> if lst = [] then Some ([], bs) else f lst bs)
      else Some (rev lst, bs)) = Some r"
  show "byte_stream_bytes_left bs \<noteq> 1"
  proof
    assume "byte_stream_bytes_left bs = 1"
    with eq IH show False by (auto simp: read_stuck split: if_splits)
  qed
qed

lemma read_loop_tail:
  assumes ok: "bs_ok bs" and len: "length (bs_rest bs) < 4"
  shows "tlvlist_read_loop lst bs = None \<longleftrightarrow> length (bs_rest bs) \<in> {1, 3}"
proof -
  have left: "byte_stream_bytes_left bs = length (bs_rest bs)" using ok by (rule bytes_left_rest)
  have stuck: "tlvlist_read_loop l b = None" if "byte_stream_bytes_left b = 1" for l b
    using read_loop_stuck [of l b] that by (cases "tlvlist_read_loop l b") auto
  consider "length (bs_rest bs) = 0" | "length (bs_rest bs) = 1" | "2 \<le> length (bs_rest bs)" using len by linarith
  then show ?thesis
  proof cases
    case 3
    define b1 where "b1 = snd (byte_stream_get16 bs)"
    have b1: "byte_stream_bytes_left b1 = length (bs_rest bs) - 2"
      using c16.get_bytes_left [OF ok] 3 left by (simp add: b1_def)
    then have "byte_stream_get16 b1 = (0, b1)" using len by (intro c16.get_empty) simp
    then have "aim_tlv_read lst bs = (createtlv (fst (byte_stream_get16 bs)) 0 [] # lst, b1)"
      by (simp add: aim_tlv_read_def split_beta b1_def)
    then have "tlvlist_read_loop lst bs = tlvlist_read_loop (createtlv (fst (byte_stream_get16 bs)) 0 [] # lst) b1"
      using 3 left by (subst tlvlist_read_loop.simps) auto
    then show ?thesis using stuck [of b1] read_loop_empty [of b1] b1 3 len by fastforce
  qed (use left stuck [of bs] read_loop_empty [of bs] in auto)
qed

lemma read_loop_bad_header:
  assumes "bs_ok bs" and "bad_header (bs_rest bs)"
  shows "\<exists>bs'. tlvlist_read_loop lst bs = Some ([], bs')"
proof -
  have left: "byte_stream_bytes_left bs = length (bs_rest bs)" using assms(1) by (rule bytes_left_rest)
  have four: "4 \<le> length (bs_rest bs)" using assms(2) by (simp add: bad_header_def)
  define b1 where "b1 = bs\<lparr>bs_offset := bs_offset bs + 2\<rparr>"
  define b2 where "b2 = b1\<lparr>bs_offset := bs_offset b1 + 2\<rparr>"
  have g1: "byte_stream_get16 bs = (aimutil_get16 (bs_rest bs), b1)"
    using left four by (simp add: byte_stream_get16_def b1_def bs_rest_def)
  have "2 \<le> byte_stream_bytes_left b1"
    using left four unfolding b1_def byte_stream_bytes_left_def by simp
  then have g2: "byte_stream_get16 b1 = (aimutil_get16 (drop 2 (bs_rest bs)), b2)"
    by (simp add: byte_stream_get16_def b2_def) (simp add: b1_def bs_rest_def)
  have "byte_stream_bytes_left b2 = length (bs_rest bs) - 4"
    using left four by (simp add: b2_def b1_def byte_stream_bytes_left_def)
  then have "aim_tlv_read lst bs = ([], b2)"
    using assms(2) by (simp add: aim_tlv_read_def g1 g2 bad_header_def)
  moreover have "0 < byte_stream_bytes_left bs" using left four by linarith
  ultimately show ?thesis by (subst tlvlist_read_loop.simps) simp
qed

subsection \<open>Lookup and update\<close>

lemma gettlv_found:
  "\<exists>tlv \<in> set lst. tlv_type tlv = type \<Longrightarrow> gettlv_loop lst type 1 0 = find (\<lambda>tlv. tlv_type tlv = type) lst"
  by (induction lst) (auto simp: Let_def)

lemma gettlv_first: "aim_tlv_gettlv lst type 1 = find (\<lambda>tlv. tlv_type tlv = type) lst"
  unfolding aim_tlv_gettlv_def by (induction lst) (auto simp: Let_def)

lemma set_first_find:
  "tlvlist_set_first lst type len v = Some lst' \<Longrightarrow> length v = unat len \<Longrightarrow>
   find (\<lambda>tlv. tlv_type tlv = t) lst' =
     (if t = type then Some (createtlv type len v) else find (\<lambda>tlv. tlv_type tlv = t) lst)"
  by (induction lst arbitrary: lst') (auto simp: createtlv_def split: if_splits)

lemma set_first_None: "tlvlist_set_first lst type len v = None \<longleftrightarrow> (\<forall>tlv \<in> set lst. tlv_type tlv \<noteq> type)"
  by (induction lst) auto

lemma find_append: "find P (xs @ ys) = (case find P xs of None \<Rightarrow> find P ys | Some x \<Rightarrow> Some x)"
  by (induction xs) auto

lemma replace_find:
  assumes "length v = unat len"
  shows "find (\<lambda>tlv. tlv_type tlv = t) (snd (aim_tlvlist_replace_raw lst type len v)) =
    (if t = type then Some (createtlv type len v) else find (\<lambda>tlv. tlv_type tlv = t) lst)"
proof (cases "tlvlist_set_first lst type len v")
  case None
  then have "find (\<lambda>tlv. tlv_type tlv = type) lst = None"
    by (simp add: set_first_None find_None_iff)
  with None assms show ?thesis
    by (auto simp: aim_tlvlist_replace_raw_def aim_tlvlist_add_raw_def find_append createtlv_def split: option.splits)
next
  case (Some lst')
  with assms show ?thesis by (simp add: aim_tlvlist_replace_raw_def set_first_find)
qed

lemma remove_find: "find (\<lambda>tlv. tlv_type tlv = t) (aim_tlvlist_remove lst type) =
    (if t = type then None else find (\<lambda>tlv. tlv_type tlv = t) lst)"
  by (induction lst) (auto simp: aim_tlvlist_remove_def)

lemma copy_loop: "\<forall>tlv \<in> set l. tlv_wf tlv \<Longrightarrow> aim_tlvlist_copy_loop new l = new @ l"
proof (induction l arbitrary: new)
  case (Cons tlv l)
  then have "snd (aim_tlvlist_add_raw new (tlv_type tlv) (tlv_length tlv) (tlv_value tlv)) = new @ [tlv]"
    by (cases tlv) (auto simp: aim_tlvlist_add_raw_def createtlv_def tlv_wf_def)
  with Cons show ?case by simp
qed simp

subsection \<open>Properties\<close>

text \<open>C28: A chain of less than 2^16 bytes, whose records have their length fields right, is written into a
  stream of exactly its size and read back as the same chain: by the unbounded reader, and with its count or its size as bound also when other bytes
  follow it, which are left unread.  (At 2^16 bytes the 16-bit bounds wrap around to 0.)\<close>

theorem tlv_write_read_roundtrip:
  assumes "\<forall>tlv \<in> set lst. tlv_wf tlv" and "aim_tlvlist_size lst < 2 ^ 16" and "bs_ok bs"
    and "bs_rest bs = bs_data (snd (aim_tlvlist_write (byte_stream_new junk (aim_tlvlist_size lst)) lst)) @ rest"
  shows "(rest = [] \<longrightarrow> (\<exists>bs'. aim_tlvlist_read bs = Some (lst, bs') \<and> byte_stream_bytes_left bs' = 0)) \<and>
    (\<exists>bs'. aim_tlvlist_readnum bs (of_nat (aim_tlvlist_count lst)) = (lst, bs') \<and> bs_rest bs' = rest) \<and>
    (\<exists>bs'. aim_tlvlist_readlen bs (of_nat (aim_tlvlist_size lst)) = Some (lst, bs') \<and> bs_rest bs' = rest)"
proof -
  have r: "bs_rest bs = tlvs_bytes lst @ rest" using assms(4) write_new [OF assms(1)] by simp
  have "length lst \<le> aim_tlvlist_size lst" by (induction lst) auto
  then have "length lst < 2 ^ 16" using assms(2) by linarith
  then show ?thesis
    using read_all [OF assms(3) _ assms(1)] readnum_loop_chain [OF assms(3) r assms(1), of "[]"]
      readlen_loop_chain [OF assms(3) r assms(1,2), of "[]"] r
    by (simp add: aim_tlvlist_readnum_def aim_tlvlist_readlen_def aim_tlvlist_count_def)
qed

theorem tlv_write_read_roundtrip_witness:
  "\<exists>bs'. aim_tlvlist_readnum \<lparr>bs_data = [0, 1, 0, 2, 7, 8, 9], bs_len = 7, bs_offset = 0\<rparr> 1 =
     ([createtlv 1 2 [7, 8]], bs') \<and> bs_rest bs' = [9]"
proof -
  let ?l = "[createtlv 1 2 [7, 8]]" and ?bs = "\<lparr>bs_data = [0, 1, 0, 2, 7, 8, 9], bs_len = 7, bs_offset = 0\<rparr> :: byte_stream"
  have wf: "\<forall>tlv \<in> set ?l. tlv_wf tlv" by (simp add: tlv_wf_def createtlv_def)
  have "bs_rest ?bs = bs_data (snd (aim_tlvlist_write (byte_stream_new (\<lambda>_. 0) (aim_tlvlist_size ?l)) ?l)) @ [9]"
    unfolding write_new [OF wf] by (simp add: bs_rest_def tlv_bytes_def aimutil_put16_def createtlv_def)
  from tlv_write_read_roundtrip [OF wf _ _ this] show ?thesis
    by (simp add: bs_ok_def aim_tlvlist_count_def createtlv_def)
qed

text \<open>C39: The unbounded reader does not return exactly for streams that are a chain followed by one
  stray byte, or by three: at one byte \<open>byte_stream_get16\<close> fails without moving, and the loop
  prepends empty records for ever.\<close>

theorem tlvlist_read_diverges_iff:
  assumes "bs_ok bs"
  shows "aim_tlvlist_read bs = None \<longleftrightarrow>
    (\<exists>lst tail. bs_rest bs = tlvs_bytes lst @ tail \<and> (\<forall>tlv \<in> set lst. tlv_wf tlv) \<and> length tail \<in> {1, 3})"
proof -
  have step: "aim_tlvlist_read bs = None \<longleftrightarrow> length tail \<in> {1, 3}"
    if t: "bs_rest bs = tlvs_bytes lst @ tail" "\<forall>tlv \<in> set lst. tlv_wf tlv" "length tail < 4" for lst tail
  proof -
    obtain bs' where "tlvlist_read_loop [] bs = tlvlist_read_loop (rev lst @ []) bs'" "bs_ok bs'" "bs_rest bs' = tail"
      using read_loop_chain [OF assms t(1,2), of "[]"] by blast
    with read_loop_tail [of bs' "rev lst @ []"] t(3) show ?thesis by (simp add: aim_tlvlist_read_def)
  qed
  obtain lst tail where d: "bs_rest bs = tlvs_bytes lst @ tail" "\<forall>tlv \<in> set lst. tlv_wf tlv"
    "length tail < 4 \<or> bad_header tail" using chain_decomposition by blast
  obtain bs' where "tlvlist_read_loop [] bs = tlvlist_read_loop (rev lst @ []) bs'" "bs_ok bs'" "bs_rest bs' = tail"
    using read_loop_chain [OF assms d(1,2), of "[]"] by blast
  then have "bad_header tail \<Longrightarrow> aim_tlvlist_read bs \<noteq> None"
    using read_loop_bad_header [of bs' "rev lst @ []"] by (auto simp: aim_tlvlist_read_def)
  then have "aim_tlvlist_read bs = None \<Longrightarrow> length tail \<in> {1, 3}" using step [OF d(1,2)] d(3) by blast
  with d(1,2) have "aim_tlvlist_read bs = None \<Longrightarrow> \<exists>lst tail. bs_rest bs = tlvs_bytes lst @ tail \<and>
      (\<forall>tlv \<in> set lst. tlv_wf tlv) \<and> length tail \<in> {1, 3}" by blast
  moreover have "aim_tlvlist_read bs = None" if "bs_rest bs = tlvs_bytes l @ x"
    "\<forall>tlv \<in> set l. tlv_wf tlv" "length x \<in> {1, 3}" for l x
    using step [OF that(1,2)] that(3) by auto
  ultimately show ?thesis by blast
qed

theorem tlvlist_read_diverges_iff_witness:
  "aim_tlvlist_read \<lparr>bs_data = [0, 1, 0, 0, 9], bs_len = 5, bs_offset = 0\<rparr> = None"
proof -
  have "bs_rest \<lparr>bs_data = [0, 1, 0, 0, 9], bs_len = 5, bs_offset = 0\<rparr> = tlvs_bytes [createtlv 1 0 []] @ [9]"
    by (simp add: bs_rest_def tlv_bytes_def aimutil_put16_def createtlv_def)
  moreover have "\<forall>tlv \<in> set [createtlv 1 0 []]. tlv_wf tlv" by (simp add: tlv_wf_def createtlv_def)
  moreover have "length [9 :: byte] \<in> {1, 3}" by simp
  moreover have "bs_ok \<lparr>bs_data = [0, 1, 0, 0, 9], bs_len = 5, bs_offset = 0\<rparr>" by (simp add: bs_ok_def)
  ultimately show ?thesis using tlvlist_read_diverges_iff by blast
qed

lemma unat16_less: "unat (w :: word16) < 2 ^ 16"
  using unsigned_less [of w] by simp

lemma unat16_of_nat: "n < 2 ^ 16 \<Longrightarrow> unat (of_nat n :: word16) = n"
  by (simp add: unat_of_nat)

lemma readlen_loop_all:
  assumes "bs_ok bs" and "bs_rest bs = tlvs_bytes l" and "\<forall>tlv \<in> set l. tlv_wf tlv"
    and "aim_tlvlist_size l < unat len"
  shows "\<exists>bs'. tlvlist_readlen_loop lst bs len = Some (rev lst @ l, bs')"
  using assms
proof (induction l arbitrary: lst bs len)
  case Nil
  then show ?case by (simp add: tlvlist_readlen_loop.simps bytes_left_rest)
next
  case (Cons tlv l)
  then have rest: "bs_rest bs = tlv_bytes tlv @ tlvs_bytes l" and wf: "tlv_wf tlv" and nz: "len \<noteq> 0" by auto
  obtain bs' where bs': "tlvlist_readlen_loop lst bs len =
      tlvlist_readlen_loop (tlv # lst) bs' (len - of_nat (4 + unat (tlv_length tlv)))" "bs_ok bs'"
    "bs_rest bs' = tlvs_bytes l"
    using readlen_loop_step [OF Cons.prems(1) rest wf nz] by blast
  have "4 + unat (tlv_length tlv) \<le> unat len" using Cons.prems(4) by simp
  then have "unat (len - of_nat (4 + unat (tlv_length tlv))) = unat len - (4 + unat (tlv_length tlv))"
    using unat16_of_nat [OF le_less_trans [OF \<open>4 + unat (tlv_length tlv) \<le> unat len\<close> unat16_less]]
    by (simp add: unat_sub word_le_nat_alt del: of_nat_add)
  then have "aim_tlvlist_size l < unat (len - of_nat (4 + unat (tlv_length tlv)))" using Cons.prems(4) by simp
  from Cons.IH [OF bs'(2,3) _ this, of "tlv # lst"] Cons.prems(3) bs'(1) show ?case by auto
qed

text \<open>A record that is longer than the byte count given to \<open>aim_tlvlist_readlen\<close> makes the 16-bit
  count wrap around: the reader accepts the record and goes on to consume everything that
  follows it in the stream.\<close>

theorem tlvlist_readlen_overruns:
  assumes "bs_ok bs" and "bs_rest bs = tlvs_bytes (tlv # lst)" and "\<forall>t \<in> set (tlv # lst). tlv_wf t"
    and "len \<noteq> 0" and "unat len < 4 + unat (tlv_length tlv)" and "aim_tlvlist_size (tlv # lst) < 2 ^ 16"
  shows "\<exists>bs'. aim_tlvlist_readlen bs len = Some (tlv # lst, bs')"
proof -
  obtain bs' where bs': "tlvlist_readlen_loop [] bs len =
      tlvlist_readlen_loop [tlv] bs' (len - of_nat (4 + unat (tlv_length tlv)))" "bs_ok bs'" "bs_rest bs' = tlvs_bytes lst"
    using readlen_loop_step [of bs tlv "tlvs_bytes lst" len "[]"] assms(1-4) by auto
  have size: "4 + unat (tlv_length tlv) < 2 ^ 16" using assms(6) by simp
  then have u: "unat (of_nat (4 + unat (tlv_length tlv)) :: word16) = 4 + unat (tlv_length tlv)"
    by (rule unat16_of_nat)
  have "unat (len - of_nat (4 + unat (tlv_length tlv))) = unat len + 2 ^ 16 - (4 + unat (tlv_length tlv))"
    using assms(5) u by (simp add: unat_sub_if_size word_size del: of_nat_add)
  then have "aim_tlvlist_size lst < unat (len - of_nat (4 + unat (tlv_length tlv)))"
    using assms(6) by simp
  from readlen_loop_all [OF bs'(2,3) _ this, of "[tlv]"] assms(3) bs'(1) show ?thesis
    by (auto simp: aim_tlvlist_readlen_def)
qed

theorem tlvlist_readlen_overruns_witness:
  "\<exists>bs'. aim_tlvlist_readlen \<lparr>bs_data = [0, 1, 0, 1, 7, 0, 2, 0, 0], bs_len = 9, bs_offset = 0\<rparr> 4 =
     Some ([createtlv 1 1 [7], createtlv 2 0 []], bs')"
  using tlvlist_readlen_overruns [of "\<lparr>bs_data = [0, 1, 0, 1, 7, 0, 2, 0, 0], bs_len = 9, bs_offset = 0\<rparr>"
      "createtlv 1 1 [7]" "[createtlv 2 0 []]" 4]
  by (simp add: bs_ok_def bs_rest_def tlv_bytes_def aimutil_put16_def createtlv_def tlv_wf_def)

text \<open>Two well-formed chains compare equal (result 0) exactly when they are the same chain, and a
  copy of a well-formed chain is the chain.\<close>

theorem tlvlist_cmp_copy_correct:
  assumes "\<forall>tlv \<in> set one. tlv_wf tlv" and "\<forall>tlv \<in> set two. tlv_wf tlv"
  shows "(aim_tlvlist_cmp junk1 junk2 one two = 0 \<longleftrightarrow> one = two) \<and> aim_tlvlist_copy one = one"
proof -
  have "aim_tlvlist_cmp junk1 junk2 one two = 0 \<longleftrightarrow>
      aim_tlvlist_size one = aim_tlvlist_size two \<and> tlvs_bytes one = tlvs_bytes two"
    using write_new [OF assms(1), of junk1] write_new [OF assms(2), of junk2]
      length_tlvs_bytes [OF assms(1)] length_tlvs_bytes [OF assms(2)]
    by (auto simp: aim_tlvlist_cmp_def Let_def)
  with tlvs_bytes_inject [OF _ assms] copy_loop [OF assms(1)] show ?thesis
    by (auto simp: aim_tlvlist_copy_def)
qed

theorem tlvlist_cmp_copy_correct_witness:
  "aim_tlvlist_cmp (\<lambda>_. 0) (\<lambda>_. 1) [createtlv 1 1 [5]] [createtlv 1 1 [6]] \<noteq> 0"
  using tlvlist_cmp_copy_correct [of "[createtlv 1 1 [5]]" "[createtlv 1 1 [6]]" "\<lambda>_. 0" "\<lambda>_. 1"]
  by (simp add: tlv_wf_def createtlv_def)

text \<open>Replacing and removing act on lookup as on a map: after a replacement the first record of
  the type is the new one and the other types are untouched; after a removal none of the type
  is left and the others are untouched; a 32-bit value stored by replacement is read back.\<close>

theorem tlvlist_replace_remove_lookup:
  assumes "length v = unat len"
  shows "aim_tlv_gettlv (snd (aim_tlvlist_replace_raw lst type len v)) t 1 =
      (if t = type then Some (createtlv type len v) else aim_tlv_gettlv lst t 1) \<and>
    aim_tlv_gettlv (aim_tlvlist_remove lst type) t 1 = (if t = type then None else aim_tlv_gettlv lst t 1) \<and>
    aim_tlv_get32 (snd (aim_tlvlist_replace_32 lst type x)) type 1 = Some x"
proof -
  have "aim_tlv_gettlv (snd (aim_tlvlist_replace_32 lst type x)) type 1 = Some (createtlv type 4 (aimutil_put32 x))"
    by (simp add: gettlv_first aim_tlvlist_replace_32_def replace_find c32.width)
  then have "aim_tlv_get32 (snd (aim_tlvlist_replace_32 lst type x)) type 1 = Some x"
    using c32.dec_enc [of x "[]"] by (simp add: aim_tlv_get32_def createtlv_def c32.width)
  with assms show ?thesis by (simp add: gettlv_first replace_find remove_find)
qed

theorem tlvlist_replace_remove_lookup_witness:
  "aim_tlv_gettlv (snd (aim_tlvlist_replace_raw [createtlv 1 1 [5], createtlv 2 0 []] 1 2 [6, 7])) 1 1 =
     Some (createtlv 1 2 [6, 7])"
  using tlvlist_replace_remove_lookup [of "[6, 7]" 2 "[createtlv 1 1 [5], createtlv 2 0 []]" 1 1] by simp

end
