(* ===== verification/Purple_Privacy.thy ===== *)
theory Purple_Privacy
  imports Purple_Base
begin

section \<open>Privacy lists (\<open>libpurple/privacy.c\<close>)\<close>

text \<open>
  An account carries an allow list, a deny list and a mode.  \<open>priv_env\<close> holds what the code asks
  others for: the protocol's \<open>normalize\<close> function (a plugin hook), the names of the account's
  buddies, whether the account is connected, which user-interface callbacks are set, and
  \<open>g_utf8_collate\<close>.  The calls out (server, user interface, signals) are collected in a log.
  \<open>purple_find_buddy\<close> compares normalized names, as the buddy hash table of \<open>blist.c\<close> does.
  The lists hold normalized names without repetition (\<open>priv_wf\<close>); under that invariant the loops that
  delete while they walk a list delete the node they stand on, and a loop over a snapshot
  reads the same.  \<open>purple_normalize\<close> returns a static buffer: in the loops that empty a list,
  \<open>norm\<close> is that buffer and each removal overwrites it.
\<close>

datatype PurplePrivacyType =
  PURPLE_PRIVACY_ALLOW_ALL | PURPLE_PRIVACY_DENY_ALL | PURPLE_PRIVACY_ALLOW_USERS
  | PURPLE_PRIVACY_DENY_USERS | PURPLE_PRIVACY_ALLOW_BUDDYLIST

datatype priv_event =
    Serv_add_permit string | Serv_rem_permit string | Serv_add_deny string | Serv_rem_deny string
  | Serv_set_permit_deny
  | Ui_permit_added string | Ui_permit_removed string | Ui_deny_added string | Ui_deny_removed string
  | Ui_save_account | Buddy_privacy_changed string

record priv_env =
  normalize :: "string \<Rightarrow> string"
  buddies :: "string list"
  connected :: bool
  op_permit_added :: bool
  op_permit_removed :: bool
  op_deny_added :: bool
  op_deny_removed :: bool
  op_save_account :: bool
  collate_eq :: "string \<Rightarrow> string \<Rightarrow> bool"

record account =
  permit :: "string list"
  deny :: "string list"
  perm_deny :: PurplePrivacyType
  log :: "priv_event list"

definition emit :: "bool \<Rightarrow> priv_event \<Rightarrow> account \<Rightarrow> account" where
  "emit c e a = (if c then a\<lparr>log := log a @ [e]\<rparr> else a)"

definition purple_find_buddy :: "priv_env \<Rightarrow> string \<Rightarrow> bool" where
  "purple_find_buddy env name \<longleftrightarrow> name \<noteq> [] \<and> (\<exists>b \<in> set (buddies env). normalize env b = normalize env name)"

subsection \<open>The four list operations\<close>

definition purple_privacy_permit_add :: "priv_env \<Rightarrow> account \<Rightarrow> string \<Rightarrow> bool \<Rightarrow> bool \<times> account" where
  "purple_privacy_permit_add env a who local_only =
     (let name = normalize env who in
      if name \<in> set (permit a) then (False, a)
      else let a = a\<lparr>permit := permit a @ [name]\<rparr>;
               a = emit (\<not> local_only \<and> connected env) (Serv_add_permit who) a;
               a = emit (op_permit_added env) (Ui_permit_added who) a;
               a = emit (op_save_account env) Ui_save_account a
           in (True, emit (purple_find_buddy env name) (Buddy_privacy_changed name) a))"

definition purple_privacy_permit_remove :: "priv_env \<Rightarrow> account \<Rightarrow> string \<Rightarrow> bool \<Rightarrow> bool \<times> account" where
  "purple_privacy_permit_remove env a who local_only =
     (let name = normalize env who in
      if name \<notin> set (permit a) then (False, a)
      else let a = a\<lparr>permit := remove1 name (permit a)\<rparr>;
               a = emit (\<not> local_only \<and> connected env) (Serv_rem_permit who) a;
               a = emit (op_permit_removed env) (Ui_permit_removed who) a;
               a = emit (op_save_account env) Ui_save_account a
           in (True, emit (purple_find_buddy env name) (Buddy_privacy_changed name) a))"

definition purple_privacy_deny_add :: "priv_env \<Rightarrow> account \<Rightarrow> string \<Rightarrow> bool \<Rightarrow> bool \<times> account" where
  "purple_privacy_deny_add env a who local_only =
     (let name = normalize env who in
      if name \<in> set (deny a) then (False, a)
      else let a = a\<lparr>deny := deny a @ [name]\<rparr>;
               a = emit (\<not> local_only \<and> connected env) (Serv_add_deny who) a;
               a = emit (op_deny_added env) (Ui_deny_added who) a;
               a = emit (op_save_account env) Ui_save_account a
           in (True, emit (purple_find_buddy env name) (Buddy_privacy_changed name) a))"

definition purple_privacy_deny_remove :: "priv_env \<Rightarrow> account \<Rightarrow> string \<Rightarrow> bool \<Rightarrow> bool \<times> account" where
  "purple_privacy_deny_remove env a who local_only =
     (let normalized = normalize env who in
      if normalized \<notin> set (deny a) then (False, a)
      else let a = a\<lparr>deny := remove1 normalized (deny a)\<rparr>;
               a = emit (\<not> local_only \<and> connected env) (Serv_rem_deny normalized) a;
               a = emit (op_deny_removed env) (Ui_deny_removed who) a;
               a = emit (purple_find_buddy env normalized) (Buddy_privacy_changed normalized) a
           in (True, emit (op_save_account env) Ui_save_account a))"

subsection \<open>Changing what an account accepts\<close>

text \<open>The two loops of \<open>add_all_buddies_to_permit_list\<close>.\<close>

fun drop_non_buddies :: "priv_env \<Rightarrow> bool \<Rightarrow> string list \<Rightarrow> account \<Rightarrow> account" where
  "drop_non_buddies env local [] a = a"
| "drop_non_buddies env local (person # list) a =
     drop_non_buddies env local list
       (if \<not> purple_find_buddy env person then snd (purple_privacy_permit_remove env a person local) else a)"

fun permit_buddies :: "priv_env \<Rightarrow> bool \<Rightarrow> string list \<Rightarrow> account \<Rightarrow> account" where
  "permit_buddies env local [] a = a"
| "permit_buddies env local (name # list) a =
     permit_buddies env local list
       (if \<not> (\<exists>p \<in> set (permit a). collate_eq env p name)
        then snd (purple_privacy_permit_add env a name local) else a)"

definition add_all_buddies_to_permit_list :: "priv_env \<Rightarrow> account \<Rightarrow> bool \<Rightarrow> account" where
  "add_all_buddies_to_permit_list env a local =
     permit_buddies env local (buddies env) (drop_non_buddies env local (permit a) a)"

text \<open>
  \<open>Empty the allow-list\<close> and \<open>Empty the deny-list\<close>: the same loop over the two removals.  The
  removal leaves the normalized name of \<open>person\<close> in the static buffer.
\<close>

fun remove_others ::
  "(account \<Rightarrow> string \<Rightarrow> bool \<Rightarrow> bool \<times> account) \<Rightarrow> priv_env \<Rightarrow> bool \<Rightarrow> string \<Rightarrow> string list \<Rightarrow> account \<Rightarrow> account" where
  "remove_others rem env local norm [] a = a"
| "remove_others rem env local norm (person # list) a =
     (if \<not> purple_strequal (Some norm) (Some person)
      then remove_others rem env local (normalize env (normalize env person)) list (snd (rem a person local))
      else remove_others rem env local norm list a)"

definition purple_privacy_allow :: "priv_env \<Rightarrow> account \<Rightarrow> string \<Rightarrow> bool \<Rightarrow> bool \<Rightarrow> account" where
  "purple_privacy_allow env a who local restore =
     (let type = perm_deny a;
          notify = (\<lambda>a. emit (type \<noteq> perm_deny a \<and> connected env) Serv_set_permit_deny a)
      in case perm_deny a of
           PURPLE_PRIVACY_ALLOW_ALL \<Rightarrow> a
         | PURPLE_PRIVACY_ALLOW_USERS \<Rightarrow> notify (snd (purple_privacy_permit_add env a who local))
         | PURPLE_PRIVACY_DENY_USERS \<Rightarrow> notify (snd (purple_privacy_deny_remove env a who local))
         | PURPLE_PRIVACY_DENY_ALL \<Rightarrow>
             let a = (if \<not> restore
                      then remove_others (purple_privacy_permit_remove env) env local (normalize env who) (permit a) a
                      else a);
                 a = snd (purple_privacy_permit_add env a who local)
             in notify (a\<lparr>perm_deny := PURPLE_PRIVACY_ALLOW_USERS\<rparr>)
         | PURPLE_PRIVACY_ALLOW_BUDDYLIST \<Rightarrow>
             if \<not> purple_find_buddy env who
             then let a = add_all_buddies_to_permit_list env a local;
                      a = snd (purple_privacy_permit_add env a who local)
                  in notify (a\<lparr>perm_deny := PURPLE_PRIVACY_ALLOW_USERS\<rparr>)
             else notify a)"

definition purple_privacy_deny :: "priv_env \<Rightarrow> account \<Rightarrow> string \<Rightarrow> bool \<Rightarrow> bool \<Rightarrow> account" where
  "purple_privacy_deny env a who local restore =
     (let type = perm_deny a;
          notify = (\<lambda>a. emit (type \<noteq> perm_deny a \<and> connected env) Serv_set_permit_deny a)
      in case perm_deny a of
           PURPLE_PRIVACY_ALLOW_ALL \<Rightarrow>
             let a = (if \<not> restore
                      then remove_others (purple_privacy_deny_remove env) env local (normalize env who) (deny a) a
                      else a);
                 a = snd (purple_privacy_deny_add env a who local)
             in notify (a\<lparr>perm_deny := PURPLE_PRIVACY_DENY_USERS\<rparr>)
         | PURPLE_PRIVACY_ALLOW_USERS \<Rightarrow> notify (snd (purple_privacy_permit_remove env a who local))
         | PURPLE_PRIVACY_DENY_USERS \<Rightarrow> notify (snd (purple_privacy_deny_add env a who local))
         | PURPLE_PRIVACY_DENY_ALL \<Rightarrow> notify a
         | PURPLE_PRIVACY_ALLOW_BUDDYLIST \<Rightarrow>
             if purple_find_buddy env who
             then let a = add_all_buddies_to_permit_list env a local;
                      a = snd (purple_privacy_permit_remove env a who local)
                  in notify (a\<lparr>perm_deny := PURPLE_PRIVACY_ALLOW_USERS\<rparr>)
             else notify a)"

definition purple_privacy_check :: "priv_env \<Rightarrow> account \<Rightarrow> string \<Rightarrow> bool" where
  "purple_privacy_check env a who =
     (case perm_deny a of
        PURPLE_PRIVACY_ALLOW_ALL \<Rightarrow> True
      | PURPLE_PRIVACY_DENY_ALL \<Rightarrow> False
      | PURPLE_PRIVACY_ALLOW_USERS \<Rightarrow> normalize env who \<in> set (permit a)
      | PURPLE_PRIVACY_DENY_USERS \<Rightarrow> normalize env who \<notin> set (deny a)
      | PURPLE_PRIVACY_ALLOW_BUDDYLIST \<Rightarrow> purple_find_buddy env who)"

subsection \<open>The contract of a privacy list\<close>

lemma emit_simps [simp]:
  "permit (emit c e a) = permit a" "deny (emit c e a) = deny a" "perm_deny (emit c e a) = perm_deny a"
  by (simp_all add: emit_def)

text \<open>What both lists promise; the loops and the invariant need no more.\<close>

locale privacy_list =
  fixes env :: priv_env
    and lst other :: "account \<Rightarrow> string list"
    and add rem :: "account \<Rightarrow> string \<Rightarrow> bool \<Rightarrow> bool \<times> account"
  assumes add_lst: "lst (snd (add a who lo)) =
      (if normalize env who \<in> set (lst a) then lst a else lst a @ [normalize env who])"
    and rem_lst: "lst (snd (rem a who lo)) = remove1 (normalize env who) (lst a)"
    and add_result: "fst (add a who lo) \<longleftrightarrow> normalize env who \<notin> set (lst a)"
    and rem_result: "fst (rem a who lo) \<longleftrightarrow> normalize env who \<in> set (lst a)"
    and frame: "other (snd (add a who lo)) = other a" "other (snd (rem a who lo)) = other a"
      "perm_deny (snd (add a who lo)) = perm_deny a" "perm_deny (snd (rem a who lo)) = perm_deny a"
begin

definition wf :: "account \<Rightarrow> bool" where
  "wf a \<longleftrightarrow> distinct (lst a) \<and> (\<forall>p \<in> set (lst a). normalize env p = p)"

lemma add_set: "set (lst (snd (add a who lo))) = insert (normalize env who) (set (lst a))"
  by (auto simp: add_lst)

lemma rem_set: "wf a \<Longrightarrow> set (lst (snd (rem a who lo))) = set (lst a) - {normalize env who}"
  by (auto simp: rem_lst wf_def)

lemma add_wf: "wf a \<Longrightarrow> (\<And>s. normalize env (normalize env s) = normalize env s) \<Longrightarrow> wf (snd (add a who lo))"
  by (auto simp: wf_def add_lst)

lemma rem_wf: "wf a \<Longrightarrow> wf (snd (rem a who lo))"
  by (auto simp: wf_def rem_lst dest: in_set_remove1 [THEN iffD1, rotated] notin_set_remove1)

text \<open>The emptying loop leaves at most \<open>norm\<close>, although its buffer is overwritten on the way.\<close>

lemma remove_others_lst:
  assumes "wf a" and "lst a = ks @ ps" and "set ks \<subseteq> {w}" and "norm = w \<or> norm \<notin> set ps"
  shows "set (lst (remove_others rem env lo norm ps a)) \<subseteq> {w}"
    and "wf (remove_others rem env lo norm ps a)"
    and "perm_deny (remove_others rem env lo norm ps a) = perm_deny a"
    and "other (remove_others rem env lo norm ps a) = other a"
proof -
  have "set (lst (remove_others rem env lo norm ps a)) \<subseteq> {w} \<and> wf (remove_others rem env lo norm ps a) \<and>
    perm_deny (remove_others rem env lo norm ps a) = perm_deny a \<and>
    other (remove_others rem env lo norm ps a) = other a"
    using assms
  proof (induction ps arbitrary: a ks norm)
    case Nil
    then show ?case by simp
  next
    case (Cons p ps)
    have p: "normalize env p = p" "p \<notin> set ks" "p \<notin> set ps" "distinct ps"
      using Cons.prems(1,2) by (auto simp: wf_def)
    show ?case
    proof (cases "norm = p")
      case True
      with Cons.prems(4) have "p = w" by auto
      with True Cons.IH [of a "ks @ [p]" norm] Cons.prems show ?thesis by simp
    next
      case False
      have l: "lst (snd (rem a p lo)) = ks @ ps"
        using p Cons.prems(2) by (simp add: rem_lst remove1_append)
      have "p = w \<or> p \<notin> set ps" using p(3) by simp
      from Cons.IH [OF rem_wf [OF Cons.prems(1)] l Cons.prems(3) this] False p(1) show ?thesis
        by (simp add: frame)
    qed
  qed
  then show "set (lst (remove_others rem env lo norm ps a)) \<subseteq> {w}"
    and "wf (remove_others rem env lo norm ps a)"
    and "perm_deny (remove_others rem env lo norm ps a) = perm_deny a"
    and "other (remove_others rem env lo norm ps a) = other a" by auto
qed

end

interpretation permit_list: privacy_list env permit deny
    "purple_privacy_permit_add env" "purple_privacy_permit_remove env" for env
  by unfold_locales
     (simp_all add: purple_privacy_permit_add_def purple_privacy_permit_remove_def Let_def remove1_idem)

interpretation deny_list: privacy_list env deny permit
    "purple_privacy_deny_add env" "purple_privacy_deny_remove env" for env
  by unfold_locales
     (simp_all add: purple_privacy_deny_add_def purple_privacy_deny_remove_def Let_def remove1_idem)

subsection \<open>Turning the buddy list into an allow list\<close>

definition priv_wf :: "priv_env \<Rightarrow> account \<Rightarrow> bool" where
  "priv_wf env a \<longleftrightarrow> distinct (permit a) \<and> distinct (deny a) \<and>
     (\<forall>p \<in> set (permit a) \<union> set (deny a). normalize env p = p)"

lemma priv_wf_iff: "priv_wf env a \<longleftrightarrow> permit_list.wf env a \<and> deny_list.wf env a"
  by (auto simp: priv_wf_def permit_list.wf_def deny_list.wf_def)

text \<open>What the hook of the protocol is expected to do: normalizing twice is normalizing once.  Nothing
  is assumed of the collation; \<open>collate_exact\<close> is the case in which it tells the names on the allow
  list from the names of the buddies.\<close>

definition env_ok :: "priv_env \<Rightarrow> bool" where
  "env_ok env \<longleftrightarrow> (\<forall>s. normalize env (normalize env s) = normalize env s)"

definition collate_exact :: "priv_env \<Rightarrow> bool" where
  "collate_exact env \<longleftrightarrow> (\<forall>p. \<forall>n \<in> set (buddies env). collate_eq env p n \<longrightarrow> p = n)"

lemma env_okD: "env_ok env \<Longrightarrow> normalize env (normalize env s) = normalize env s"
  by (simp add: env_ok_def)

lemma deny_wf_frame: "deny b = deny a \<Longrightarrow> deny_list.wf env b = deny_list.wf env a"
  by (simp add: deny_list.wf_def)

lemma permit_wf_frame: "permit b = permit a \<Longrightarrow> permit_list.wf env b = permit_list.wf env a"
  by (simp add: permit_list.wf_def)

lemma priv_wf_steps:
  assumes "env_ok env" and "priv_wf env a"
  shows "priv_wf env (snd (purple_privacy_permit_add env a who lo))"
    and "priv_wf env (snd (purple_privacy_permit_remove env a who lo))"
    and "priv_wf env (snd (purple_privacy_deny_add env a who lo))"
    and "priv_wf env (snd (purple_privacy_deny_remove env a who lo))"
  using assms permit_list.add_wf [of env a who lo] permit_list.rem_wf [of env a who lo]
    deny_list.add_wf [of env a who lo] deny_list.rem_wf [of env a who lo]
  by (simp_all add: priv_wf_iff env_okD deny_wf_frame [OF permit_list.frame(1)] deny_wf_frame [OF permit_list.frame(2)]
      permit_wf_frame [OF deny_list.frame(1)] permit_wf_frame [OF deny_list.frame(2)])

lemma priv_wf_mode [simp]:
  "priv_wf env (a\<lparr>perm_deny := t\<rparr>) = priv_wf env a" "priv_wf env (emit c e a) = priv_wf env a"
  by (simp_all add: priv_wf_def)

lemma drop_non_buddies_permit:
  assumes "priv_wf env a" and "env_ok env" and "\<forall>p \<in> set ps. normalize env p = p"
  shows "priv_wf env (drop_non_buddies env lo ps a) \<and> deny (drop_non_buddies env lo ps a) = deny a \<and>
    set (permit (drop_non_buddies env lo ps a)) = set (permit a) - {p \<in> set ps. \<not> purple_find_buddy env p}"
  using assms
proof (induction ps arbitrary: a)
  case (Cons p ps)
  let ?a = "if \<not> purple_find_buddy env p then snd (purple_privacy_permit_remove env a p lo) else a"
  have "priv_wf env ?a" "deny ?a = deny a"
    using Cons.prems by (simp_all add: priv_wf_steps permit_list.frame)
  moreover have "set (permit ?a) = (if \<not> purple_find_buddy env p then set (permit a) - {p} else set (permit a))"
    using Cons.prems by (simp add: permit_list.rem_set priv_wf_iff)
  ultimately show ?case using Cons.IH [of ?a] Cons.prems by (auto split: if_splits)
qed simp

lemma permit_buddies_permit:
  assumes "priv_wf env a" and "env_ok env"
  shows "priv_wf env (permit_buddies env lo ns a) \<and> deny (permit_buddies env lo ns a) = deny a"
  using assms
proof (induction ns arbitrary: a)
  case (Cons n ns)
  let ?a = "if \<not> (\<exists>p \<in> set (permit a). collate_eq env p n) then snd (purple_privacy_permit_add env a n lo) else a"
  have wf: "priv_wf env ?a" "deny ?a = deny a"
    using Cons.prems by (simp_all add: priv_wf_steps permit_list.frame)
  with Cons.IH [of ?a] Cons.prems(2) show ?case by auto
qed simp

lemma permit_buddies_exact:
  assumes "priv_wf env a" and "env_ok env" and "collate_exact env" and "set ns \<subseteq> set (buddies env)"
  shows "set (permit (permit_buddies env lo ns a)) = set (permit a) \<union> normalize env ` set ns"
  using assms(1,4)
proof (induction ns arbitrary: a)
  case (Cons n ns)
  let ?a = "if \<not> (\<exists>p \<in> set (permit a). collate_eq env p n) then snd (purple_privacy_permit_add env a n lo) else a"
  have wf: "priv_wf env ?a" using Cons.prems(1) assms(2) by (simp add: priv_wf_steps)
  have "set (permit ?a) = insert (normalize env n) (set (permit a))"
  proof (cases "\<exists>p \<in> set (permit a). collate_eq env p n")
    case True
    then have "n \<in> set (permit a)" using Cons.prems(2) assms(3) by (auto simp: collate_exact_def)
    moreover from this have "normalize env n = n" using Cons.prems(1) by (simp add: priv_wf_def)
    ultimately show ?thesis using True by auto
  qed (simp add: permit_list.add_set)
  with wf Cons.IH [of ?a] Cons.prems(2) show ?case by auto
qed simp

lemma add_all_buddies_permit:
  assumes "priv_wf env a" and "env_ok env"
  shows "priv_wf env (add_all_buddies_to_permit_list env a lo)"
    and "deny (add_all_buddies_to_permit_list env a lo) = deny a"
    and "collate_exact env \<Longrightarrow>
      set (permit (add_all_buddies_to_permit_list env a lo)) = normalize env ` set (buddies env)"
proof -
  let ?d = "drop_non_buddies env lo (permit a) a"
  have n: "\<forall>p \<in> set (permit a). normalize env p = p" using assms(1) by (simp add: priv_wf_def)
  note d = drop_non_buddies_permit [OF assms n]
  note p = permit_buddies_permit [of env ?d lo "buddies env"]
  show "priv_wf env (add_all_buddies_to_permit_list env a lo)"
    and "deny (add_all_buddies_to_permit_list env a lo) = deny a"
    using d p assms(2) by (simp_all add: add_all_buddies_to_permit_list_def)
  have "x \<in> normalize env ` set (buddies env)" if "x \<in> set (permit ?d)" for x
  proof -
    have "purple_find_buddy env x" "normalize env x = x" using that d n by auto
    then show ?thesis by (auto simp: purple_find_buddy_def)
  qed
  then show "set (permit (add_all_buddies_to_permit_list env a lo)) = normalize env ` set (buddies env)"
    if "collate_exact env"
    using d permit_buddies_exact [of env ?d "buddies env" lo] that assms(2)
    by (auto simp: add_all_buddies_to_permit_list_def)
qed

lemma empty_permit:
  fixes w :: string and lo :: bool
  assumes "priv_wf env a"
  defines "b \<equiv> remove_others (purple_privacy_permit_remove env) env lo w (permit a) a"
  shows "set (permit b) \<subseteq> {w}" and "priv_wf env b" and "deny b = deny a"
proof -
  have wf: "permit_list.wf env a" "deny_list.wf env a" using assms(1) by (simp_all add: priv_wf_iff)
  note r = permit_list.remove_others_lst [of env a "[]" "permit a" w w lo, folded b_def, OF wf(1)]
  show "set (permit b) \<subseteq> {w}" and "deny b = deny a" using r(1,4) by simp_all
  then show "priv_wf env b" using r(2) wf(2) deny_wf_frame [of b a env] by (simp add: priv_wf_iff)
qed

lemma empty_deny:
  fixes w :: string and lo :: bool
  assumes "priv_wf env a"
  defines "b \<equiv> remove_others (purple_privacy_deny_remove env) env lo w (deny a) a"
  shows "set (deny b) \<subseteq> {w}" and "priv_wf env b" and "permit b = permit a"
proof -
  have wf: "permit_list.wf env a" "deny_list.wf env a" using assms(1) by (simp_all add: priv_wf_iff)
  note r = deny_list.remove_others_lst [of env a "[]" "deny a" w w lo, folded b_def, OF wf(2)]
  show "set (deny b) \<subseteq> {w}" and "permit b = permit a" using r(1,4) by simp_all
  then show "priv_wf env b" using r(2) wf(1) permit_wf_frame [of b a env] by (simp add: priv_wf_iff)
qed

lemmas list_sets = permit_list.add_set deny_list.add_set permit_list.rem_set deny_list.rem_set
  permit_list.frame deny_list.frame

subsection \<open>Properties\<close>

text \<open>The invariant of the lists (normalized names, no repetition) is kept by adding, removing,
  allowing and denying.\<close>

theorem privacy_wf_invariant:
  assumes "env_ok env" and "priv_wf env a"
  shows "priv_wf env (snd (purple_privacy_permit_add env a who lo)) \<and>
    priv_wf env (snd (purple_privacy_permit_remove env a who lo)) \<and>
    priv_wf env (snd (purple_privacy_deny_add env a who lo)) \<and>
    priv_wf env (snd (purple_privacy_deny_remove env a who lo)) \<and>
    priv_wf env (purple_privacy_allow env a who lo restore) \<and>
    priv_wf env (purple_privacy_deny env a who lo restore)"
  using priv_wf_steps [OF assms] priv_wf_steps [OF assms(1) empty_permit(2) [OF assms(2)]]
    priv_wf_steps [OF assms(1) empty_deny(2) [OF assms(2)]]
    priv_wf_steps [OF assms(1) add_all_buddies_permit(1) [OF assms(2,1)]] assms(2)
  by (simp add: purple_privacy_allow_def purple_privacy_deny_def Let_def split: PurplePrivacyType.split)

text \<open>C29: After \<open>purple_privacy_allow\<close> the contact passes the check, after \<open>purple_privacy_deny\<close> it does
  not, in every mode.  The lists hold normalized names without repetition (priv_wf, which all
  operations keep), and the protocol's normalization is idempotent (env_ok).\<close>

theorem privacy_allow_deny_decide:
  assumes "env_ok env" and "priv_wf env a"
  shows "purple_privacy_check env (purple_privacy_allow env a who lo restore) who \<and>
    \<not> purple_privacy_check env (purple_privacy_deny env a who lo restore) who"
  using assms add_all_buddies_permit(1) [OF assms(2,1), of lo]
  by (cases "perm_deny a") (simp_all add: purple_privacy_check_def purple_privacy_allow_def
      purple_privacy_deny_def Let_def list_sets priv_wf_iff)

text \<open>Allowing or denying one contact, with the default of not restoring the old lists, changes the
  decision for no other contact, although the mode may change and a list may be rebuilt, as long as the
  collation does not take a name on the allow list for that of another buddy.\<close>

theorem privacy_frame:
  assumes "env_ok env" and "collate_exact env" and "priv_wf env a"
    and "normalize env x \<noteq> normalize env who" and "x \<noteq> []"
  shows "purple_privacy_check env (purple_privacy_allow env a who lo False) x = purple_privacy_check env a x \<and>
    purple_privacy_check env (purple_privacy_deny env a who lo False) x = purple_privacy_check env a x"
proof -
  have "purple_find_buddy env x \<longleftrightarrow> normalize env x \<in> normalize env ` set (buddies env)"
    using assms(5) by (auto simp: purple_find_buddy_def image_iff) metis
  moreover have "normalize env x \<notin> set (permit (remove_others (purple_privacy_permit_remove env) env lo
      (normalize env who) (permit a) a))"
    and "normalize env x \<notin> set (deny (remove_others (purple_privacy_deny_remove env) env lo
      (normalize env who) (deny a) a))"
    using empty_permit(1) [OF assms(3), of lo "normalize env who"]
      empty_deny(1) [OF assms(3), of lo "normalize env who"] assms(4) by auto
  ultimately show ?thesis
    using assms add_all_buddies_permit [OF assms(3,1), of lo]
    by (cases "perm_deny a") (simp_all add: purple_privacy_check_def purple_privacy_allow_def
        purple_privacy_deny_def Let_def list_sets priv_wf_iff)
qed

definition env_example :: priv_env where
  "env_example = \<lparr>normalize = ascii_lower, buddies = [''Bob''], connected = True, op_permit_added = True,
     op_permit_removed = True, op_deny_added = True, op_deny_removed = True, op_save_account = True,
     collate_eq = (=)\<rparr>"

lemma env_example_ok: "env_ok env_example" "collate_exact env_example"
  by (auto simp: env_ok_def collate_exact_def env_example_def ascii_lower_idem)

definition account_example :: account where
  "account_example = \<lparr>permit = [''carl''], deny = [], perm_deny = PURPLE_PRIVACY_ALLOW_BUDDYLIST, log = []\<rparr>"

lemma account_example_wf: "priv_wf env_example account_example"
  by (simp add: priv_wf_def account_example_def env_example_def ascii_lower_def)

theorem privacy_wf_invariant_witness:
  "priv_wf env_example (purple_privacy_allow env_example account_example ''Eve'' False False)"
  using privacy_wf_invariant [OF env_example_ok(1) account_example_wf, of "''Eve''" False False] by blast

theorem privacy_allow_deny_decide_witness:
  "purple_privacy_check env_example (purple_privacy_allow env_example account_example ''Eve'' False False) ''Eve''"
  using privacy_allow_deny_decide [OF env_example_ok(1) account_example_wf, of "''Eve''" False False] by blast

theorem privacy_frame_witness:
  "purple_privacy_check env_example (purple_privacy_deny env_example account_example ''BOB'' False False) ''Eve'' =
   purple_privacy_check env_example account_example ''Eve''"
  using privacy_frame [OF env_example_ok account_example_wf, of "''Eve''" "''BOB''" False]
  by (simp add: env_example_def ascii_lower_def)

end
