(* ===== verification/Purple_Imgstore.thy ===== *)
theory Purple_Imgstore
  imports Purple_Base
begin

section \<open>The image store (\<open>libpurple/imgstore.c\<close>)\<close>

text \<open>
  Images are shared by reference count; some are also registered under a number that marked-up
  messages refer to.  The heap is a map from addresses to images, so that a freed image is an
  address without one: an operation that touches it is \<open>None\<close>.  The hash table maps 32-bit ids to
  addresses, \<open>nextid\<close> wraps around and \<open>refcount\<close> is the 8-bit field of the struct.  An allocation
  takes an unused address as argument.  The search for the next id is a \<open>partial_function\<close>; that it
  ends is a theorem.  \<open>deleting\<close> logs the \<open>image-deleting\<close> signals.
\<close>

type_synonym word32 = "32 word"
type_synonym addr = nat

record stored_image =
  img_id :: word32
  refcount :: byte
  img_data :: bytes
  filename :: cstring

record imgstore =
  heap :: "addr \<Rightarrow> stored_image option"
  imgstore :: "word32 \<Rightarrow> addr option"
  nextid :: word32
  deleting :: "addr list"

definition imgstore_init :: imgstore where
  "imgstore_init = \<lparr>heap = (\<lambda>_. None), imgstore = (\<lambda>_. None), nextid = 0, deleting = []\<rparr>"

text \<open>\<open>data\<close> is \<open>None\<close> for a \<open>NULL\<close> pointer; the result is the image's address, or \<open>None\<close> for \<open>NULL\<close>.\<close>

definition purple_imgstore_add ::
  "addr \<Rightarrow> imgstore \<Rightarrow> bytes option \<Rightarrow> nat \<Rightarrow> cstring \<Rightarrow> addr option \<times> imgstore" where
  "purple_imgstore_add p st dat len fname =
     (case dat of
        None \<Rightarrow> (None, st)
      | Some d \<Rightarrow>
          if len = 0 then (None, st)
          else (Some p, st\<lparr>heap := (heap st)(p \<mapsto>
                 \<lparr>img_id = 0, refcount = 1, img_data = take len d, filename = fname\<rparr>)\<rparr>))"

partial_function (option) next_free_id :: "(word32 \<Rightarrow> addr option) \<Rightarrow> word32 \<Rightarrow> word32 option" where
  "next_free_id tab n =
     (let i = n + 1 in if i = 0 \<or> tab i \<noteq> None then next_free_id tab i else Some i)"

definition set_id :: "addr \<Rightarrow> word32 \<Rightarrow> imgstore \<Rightarrow> imgstore" where
  "set_id p i st =
     (case heap st p of None \<Rightarrow> st | Some img \<Rightarrow> st\<lparr>heap := (heap st)(p \<mapsto> img\<lparr>img_id := i\<rparr>)\<rparr>)"

text \<open>\<open>None\<close> when the search for an id never ends.\<close>

definition purple_imgstore_add_with_id ::
  "addr \<Rightarrow> imgstore \<Rightarrow> bytes option \<Rightarrow> nat \<Rightarrow> cstring \<Rightarrow> (word32 \<times> imgstore) option" where
  "purple_imgstore_add_with_id p st dat len fname =
     (case purple_imgstore_add p st dat len fname of
        (None, st) \<Rightarrow> Some (0, st)
      | (Some img, st) \<Rightarrow>
          (case next_free_id (imgstore st) (nextid st) of
             None \<Rightarrow> None
           | Some i \<Rightarrow>
               let st = set_id img i st
               in Some (i, st\<lparr>nextid := i, imgstore := (imgstore st)(i \<mapsto> img)\<rparr>)))"

definition purple_imgstore_find_by_id :: "imgstore \<Rightarrow> word32 \<Rightarrow> addr option" where
  "purple_imgstore_find_by_id st i = imgstore st i"

text \<open>\<open>refcount++\<close> wraps at eight bits.\<close>

definition purple_imgstore_ref :: "imgstore \<Rightarrow> addr option \<Rightarrow> (addr option \<times> imgstore) option" where
  "purple_imgstore_ref st q =
     (case q of
        None \<Rightarrow> Some (None, st)
      | Some p \<Rightarrow>
          (case heap st p of
             None \<Rightarrow> None
           | Some img \<Rightarrow> Some (Some p, st\<lparr>heap := (heap st)(p \<mapsto> img\<lparr>refcount := refcount img + 1\<rparr>)\<rparr>)))"

definition purple_imgstore_unref :: "imgstore \<Rightarrow> addr option \<Rightarrow> (addr option \<times> imgstore) option" where
  "purple_imgstore_unref st q =
     (case q of
        None \<Rightarrow> Some (None, st)
      | Some p \<Rightarrow>
          (case heap st p of
             None \<Rightarrow> None
           | Some img \<Rightarrow>
               if \<not> refcount img > 0 then Some (None, st)
               else if refcount img - 1 = 0
               then Some (None, st\<lparr>deleting := deleting st @ [p],
                                  imgstore := (if img_id img \<noteq> 0 then (imgstore st)(img_id img := None)
                                               else imgstore st),
                                  heap := (heap st)(p := None)\<rparr>)
               else Some (Some p, st\<lparr>heap := (heap st)(p \<mapsto> img\<lparr>refcount := refcount img - 1\<rparr>)\<rparr>)))"

definition purple_imgstore_ref_by_id :: "imgstore \<Rightarrow> word32 \<Rightarrow> imgstore option" where
  "purple_imgstore_ref_by_id st i =
     (case purple_imgstore_find_by_id st i of
        None \<Rightarrow> Some st
      | Some p \<Rightarrow> map_option snd (purple_imgstore_ref st (Some p)))"

definition purple_imgstore_unref_by_id :: "imgstore \<Rightarrow> word32 \<Rightarrow> imgstore option" where
  "purple_imgstore_unref_by_id st i =
     (case purple_imgstore_find_by_id st i of
        None \<Rightarrow> Some st
      | Some p \<Rightarrow> map_option snd (purple_imgstore_unref st (Some p)))"

subsection \<open>The search for an id\<close>

lemma next_free_id_result:
  "next_free_id tab n = Some i \<Longrightarrow> i \<noteq> 0 \<and> tab i = None"
proof (erule next_free_id.raw_induct [where P = "\<lambda>tab n i. i \<noteq> 0 \<and> tab i = None", rotated])
  fix f :: "(word32 \<Rightarrow> addr option) \<Rightarrow> word32 \<Rightarrow> word32 option" and tab :: "word32 \<Rightarrow> addr option" and n i :: word32
  assume IH: "\<And>tab n i. f tab n = Some i \<Longrightarrow> i \<noteq> 0 \<and> tab i = None"
    and eq: "(let i = n + 1 in if i = 0 \<or> tab i \<noteq> None then f tab i else Some i) = Some i"
  show "i \<noteq> 0 \<and> tab i = None"
    using eq IH [of tab "n + 1" i] by (auto simp: Let_def split: if_splits)
qed

lemma next_free_id_total:
  assumes "f \<noteq> 0" and "tab f = None"
  shows "\<exists>i. next_free_id tab n = Some i"
proof (induction "unat (f - 1 - n)" arbitrary: n)
  case 0
  then have "n + 1 = f" by (metis diff_add_cancel eq_iff_diff_eq_0 unat_eq_zero)
  with assms show ?case by (simp add: next_free_id.simps [of tab n] Let_def)
next
  case (Suc k)
  have "f - 1 - n \<noteq> 0" using Suc(2) by auto
  then have "unat (f - 1 - n - 1) = unat (f - 1 - n) - 1" by (rule unat_minus_one)
  moreover have "f - 1 - (n + 1) = f - 1 - n - 1" by simp
  ultimately have "k = unat (f - 1 - (n + 1))" using Suc(2) by simp
  from Suc(1) [OF this] show ?case by (subst next_free_id.simps) (auto simp: Let_def)
qed

subsection \<open>The invariant\<close>

text \<open>
  The table and the ids in the images agree, id 0 is never registered, and no live image has
  a count of zero.
\<close>

definition img_wf :: "imgstore \<Rightarrow> bool" where
  "img_wf st \<longleftrightarrow>
     (\<forall>i p. imgstore st i = Some p \<longrightarrow> i \<noteq> 0 \<and> (\<exists>img. heap st p = Some img \<and> img_id img = i)) \<and>
     (\<forall>p img. heap st p = Some img \<longrightarrow>
        refcount img \<noteq> 0 \<and> (img_id img \<noteq> 0 \<longrightarrow> imgstore st (img_id img) = Some p))"

lemma img_wf_init: "img_wf imgstore_init"
  by (simp add: img_wf_def imgstore_init_def)

lemma img_wf_table: "img_wf st \<Longrightarrow> imgstore st i = Some p \<Longrightarrow> i \<noteq> 0 \<and> (\<exists>img. heap st p = Some img \<and> img_id img = i)"
  by (simp add: img_wf_def)

lemma img_wf_heap: "img_wf st \<Longrightarrow> heap st p = Some img \<Longrightarrow>
  refcount img \<noteq> 0 \<and> (img_id img \<noteq> 0 \<longrightarrow> imgstore st (img_id img) = Some p)"
  unfolding img_wf_def by blast

lemma img_wfI:
  assumes "\<And>i p. imgstore st i = Some p \<Longrightarrow> i \<noteq> 0 \<and> (\<exists>img. heap st p = Some img \<and> img_id img = i)"
    and "\<And>p img. heap st p = Some img \<Longrightarrow> refcount img \<noteq> 0 \<and> (img_id img \<noteq> 0 \<longrightarrow> imgstore st (img_id img) = Some p)"
  shows "img_wf st"
  unfolding img_wf_def using assms by blast

lemma img_wf_update:
  assumes wf: "img_wf st" and "heap st p = Some img" and "refcount img' \<noteq> 0" and "img_id img' = img_id img"
  shows "img_wf (st\<lparr>heap := (heap st)(p \<mapsto> img')\<rparr>)"
proof (rule img_wfI)
  fix i q assume "imgstore (st\<lparr>heap := (heap st)(p \<mapsto> img')\<rparr>) i = Some q"
  then have "imgstore st i = Some q" by simp
  from img_wf_table [OF wf this] assms(2,4)
  show "i \<noteq> 0 \<and> (\<exists>img. heap (st\<lparr>heap := (heap st)(p \<mapsto> img')\<rparr>) q = Some img \<and> img_id img = i)" by auto
next
  fix q im assume "heap (st\<lparr>heap := (heap st)(p \<mapsto> img')\<rparr>) q = Some im"
  then show "refcount im \<noteq> 0 \<and> (img_id im \<noteq> 0 \<longrightarrow> imgstore (st\<lparr>heap := (heap st)(p \<mapsto> img')\<rparr>) (img_id im) = Some q)"
    using assms img_wf_heap [OF wf] by (cases "q = p") auto
qed

lemma img_add_wf:
  assumes wf: "img_wf st" and p: "heap st p = None"
  shows "img_wf (snd (purple_imgstore_add p st dat len fname))"
proof -
  have "imgstore st i \<noteq> Some p" for i using img_wf_table [OF wf, of i p] p by auto
  note nop = this
  have "img_wf (st\<lparr>heap := (heap st)(p \<mapsto> im)\<rparr>)" if "refcount im = 1" "img_id im = 0" for im
  proof (rule img_wfI, goal_cases)
    case (1 i q)
    then show ?case using img_wf_table [OF wf, of i q] nop [of i] by auto
  next
    case (2 q im')
    then show ?case using that img_wf_heap [OF wf, of q im'] by (auto split: if_splits)
  qed
  then show ?thesis using wf by (simp add: purple_imgstore_add_def split: option.split)
qed

lemma img_ref_wf:
  assumes "img_wf st" and "purple_imgstore_ref st (Some p) = Some (r, st')"
    and "heap st p = Some img" and "refcount img \<noteq> - 1"
  shows "img_wf st'"
proof -
  have "refcount img + 1 \<noteq> 0" using assms(4) by (metis add_eq_0_iff add.commute)
  with assms show ?thesis by (auto simp: purple_imgstore_ref_def intro!: img_wf_update)
qed

lemma img_unref_wf:
  assumes wf: "img_wf st" and "purple_imgstore_unref st q = Some (r, st')"
  shows "img_wf st'"
proof (cases q)
  case (Some p)
  with assms obtain img where img: "heap st p = Some img"
    by (auto simp: purple_imgstore_unref_def split: option.splits)
  have pos: "refcount img > 0" using img_wf_heap [OF wf img] by (simp add: word_neq_0_conv)
  show ?thesis
  proof (cases "refcount img - 1 = 0")
    case True
    then have st': "st' = st\<lparr>deleting := deleting st @ [p],
        imgstore := (if img_id img \<noteq> 0 then (imgstore st)(img_id img := None) else imgstore st),
        heap := (heap st)(p := None)\<rparr>"
      using assms(2) Some img pos by (simp add: purple_imgstore_unref_def)
    have only: "imgstore st i = Some p \<Longrightarrow> i = img_id img \<and> i \<noteq> 0" for i
      using img_wf_table [OF wf, of i p] img by auto
    show ?thesis unfolding st'
    proof (rule img_wfI, goal_cases)
      case (1 i r)
      then have t: "imgstore st i = Some r" "i \<noteq> img_id img \<or> img_id img = 0" by (auto split: if_splits)
      then have "r \<noteq> p" using only [of i] by auto
      with img_wf_table [OF wf t(1)] show ?case by auto
    next
      case (2 r im)
      then have h: "heap st r = Some im" "r \<noteq> p" by (auto split: if_splits)
      from img_wf_heap [OF wf h(1)] h(2) img_wf_heap [OF wf img] show ?case by auto
    qed
  next
    case False
    then have "st' = st\<lparr>heap := (heap st)(p \<mapsto> img\<lparr>refcount := refcount img - 1\<rparr>)\<rparr>"
      using assms(2) Some img pos by (simp add: purple_imgstore_unref_def)
    then show ?thesis using img_wf_update [OF wf img] False by simp
  qed
qed (use assms in \<open>simp add: purple_imgstore_unref_def\<close>)

lemma img_add_with_id_wf:
  assumes wf: "img_wf st" and p: "heap st p = None"
    and "purple_imgstore_add_with_id p st dat len fname = Some (i, st')"
  shows "img_wf st'"
proof (cases "purple_imgstore_add p st dat len fname")
  case (Pair q st1)
  show ?thesis
  proof (cases q)
    case None
    with Pair have "st1 = st" by (auto simp: purple_imgstore_add_def split: option.splits if_splits)
    with None Pair assms show ?thesis by (simp add: purple_imgstore_add_with_id_def)
  next
    case (Some a)
    then have a: "a = p" and st1: "imgstore st1 = imgstore st" "\<exists>img. heap st1 p = Some img \<and> img_id img = 0"
      using Pair by (auto simp: purple_imgstore_add_def split: option.splits if_splits)
    obtain img where img: "heap st1 p = Some img" "img_id img = 0" using st1(2) by blast
    have wf1: "img_wf st1" using img_add_wf [OF wf p, of dat len fname] Pair by simp
    obtain n where n: "next_free_id (imgstore st1) (nextid st1) = Some n"
      and st': "i = n" "st' = (set_id p n st1)\<lparr>nextid := n, imgstore := (imgstore (set_id p n st1))(n \<mapsto> p)\<rparr>"
      using assms(3) Pair Some a by (auto simp: purple_imgstore_add_with_id_def Let_def split: option.splits)
    have free: "n \<noteq> 0" "imgstore st1 n = None" using next_free_id_result [OF n] by auto
    have eq: "set_id p n st1 = st1\<lparr>heap := (heap st1)(p \<mapsto> img\<lparr>img_id := n\<rparr>)\<rparr>" using img by (simp add: set_id_def)
    have nop: "imgstore st1 j \<noteq> Some p" for j using img_wf_table [OF wf1, of j p] img by auto
    show ?thesis unfolding st' eq
    proof (rule img_wfI, goal_cases)
      case (1 j r)
      then consider "j = n" "r = p" | "j \<noteq> n" "imgstore st1 j = Some r" by (auto split: if_splits)
      then show ?case using free img_wf_table [OF wf1, of j r] nop [of j] by cases auto
    next
      case (2 r im)
      then show ?case using img_wf_heap [OF wf1, of r im] img_wf_heap [OF wf1 img(1)] free
        by (auto split: if_splits)
    qed
  qed
qed

subsection \<open>Properties\<close>

text \<open>Storing an image under an id returns, if any nonzero id is free, a nonzero id that was not in
  use (also after \<open>nextid\<close> wrapped around); the id finds the new image and every other id what it
  found before.  If all are in use the search never ends.\<close>

theorem imgstore_add_with_id_fresh:
  assumes "img_wf st" and "heap st p = None" and "0 < len"
  shows "(purple_imgstore_add_with_id p st (Some d) len fname = None \<longleftrightarrow> (\<forall>i. i \<noteq> 0 \<longrightarrow> imgstore st i \<noteq> None)) \<and>
    (purple_imgstore_add_with_id p st (Some d) len fname = Some (i, st') \<longrightarrow>
       i \<noteq> 0 \<and> purple_imgstore_find_by_id st i = None \<and> img_wf st' \<and>
       purple_imgstore_find_by_id st' = (purple_imgstore_find_by_id st)(i \<mapsto> p) \<and>
       heap st' = (heap st)(p \<mapsto> \<lparr>img_id = i, refcount = 1, img_data = take len d, filename = fname\<rparr>))"
proof -
  have "next_free_id (imgstore st) (nextid st) = None \<longleftrightarrow> (\<forall>i. i \<noteq> 0 \<longrightarrow> imgstore st i \<noteq> None)"
    using next_free_id_total [of _ "imgstore st" "nextid st"] next_free_id_result [of "imgstore st" "nextid st"]
    by (metis not_None_eq)
  moreover have "i \<noteq> 0 \<and> imgstore st i = None" if "next_free_id (imgstore st) (nextid st) = Some i"
    using next_free_id_result [OF that] .
  ultimately show ?thesis
    using assms(3) img_add_with_id_wf [OF assms(1,2), of "Some d" len fname i st']
    by (auto simp: purple_imgstore_add_with_id_def purple_imgstore_add_def purple_imgstore_find_by_id_def
        Let_def set_id_def fun_eq_iff split: option.splits)
qed

lemma numeral_byte_255: "(255 :: byte) = - 1"
  by simp

definition img_example :: imgstore where
  "img_example = \<lparr>heap = [7 \<mapsto> \<lparr>img_id = 1, refcount = - 1, img_data = [9], filename = None\<rparr>],
     imgstore = [1 \<mapsto> 7], nextid = - 1, deleting = []\<rparr>"

lemma img_example_wf: "img_wf img_example"
  by (rule img_wfI) (auto simp: img_example_def split: if_splits)

theorem imgstore_add_with_id_fresh_witness:
  "\<exists>st'. purple_imgstore_add_with_id 8 img_example (Some [5]) 1 None = Some (2, st') \<and>
     purple_imgstore_find_by_id st' = (purple_imgstore_find_by_id img_example)(2 \<mapsto> 8)"
proof -
  have "next_free_id [1 \<mapsto> 7] (- 1) = Some 2"
    by (simp add: next_free_id.simps Let_def)
  then obtain st' where st': "purple_imgstore_add_with_id 8 img_example (Some [5]) 1 None = Some (2, st')"
    by (auto simp: purple_imgstore_add_with_id_def purple_imgstore_add_def img_example_def Let_def)
  have "heap img_example 8 = None" by (simp add: img_example_def)
  from imgstore_add_with_id_fresh [OF img_example_wf this, of 1 "[5]" None 2 st'] st' show ?thesis by simp
qed

text \<open>Every operation keeps the id table and the images consistent; taking a reference does unless
  the count already is 255.\<close>

theorem imgstore_wf_invariant:
  assumes "img_wf st"
  shows "(heap st p = None \<longrightarrow> img_wf (snd (purple_imgstore_add p st dat len fname))) \<and>
    (heap st p = None \<longrightarrow> purple_imgstore_add_with_id p st dat len fname = Some (i, st1) \<longrightarrow> img_wf st1) \<and>
    (heap st p = Some img \<longrightarrow> refcount img \<noteq> 255 \<longrightarrow> purple_imgstore_ref st (Some p) = Some (r, st2) \<longrightarrow> img_wf st2) \<and>
    (purple_imgstore_unref st q = Some (r', st3) \<longrightarrow> img_wf st3)"
  using img_add_wf [OF assms] img_add_with_id_wf [OF assms] img_ref_wf [OF assms] img_unref_wf [OF assms]
  unfolding numeral_byte_255 by blast

theorem imgstore_wf_invariant_witness:
  "img_wf (snd (purple_imgstore_add 8 img_example (Some [5]) 1 None))"
  using imgstore_wf_invariant [OF img_example_wf, of 8 "Some [5]" 1 None 0 img_example undefined None img_example
      None None img_example]
  by (simp add: img_example_def)

text \<open>Taking and dropping a reference cancel, and dropping the last one frees the image, releases
  its id and emits \<open>image-deleting\<close> once; but at 255 references one more wraps the 8-bit count
  to zero, and from then on dropping references does nothing.\<close>

theorem imgstore_refcounting:
  assumes "img_wf st" and "heap st p = Some img"
  shows "(refcount img \<noteq> 255 \<longrightarrow>
      (\<exists>st1. purple_imgstore_ref st (Some p) = Some (Some p, st1) \<and>
             purple_imgstore_unref st1 (Some p) = Some (Some p, st))) \<and>
    (refcount img = 1 \<longrightarrow>
      (\<exists>st1. purple_imgstore_unref st (Some p) = Some (None, st1) \<and> heap st1 = (heap st)(p := None) \<and>
             deleting st1 = deleting st @ [p] \<and> (\<forall>i. purple_imgstore_find_by_id st1 i \<noteq> Some p))) \<and>
    (refcount img = 255 \<longrightarrow>
      (\<exists>st1. purple_imgstore_ref st (Some p) = Some (Some p, st1) \<and>
             purple_imgstore_unref st1 (Some p) = Some (None, st1) \<and> heap st1 p \<noteq> None))"
proof (intro conjI impI)
  have nz: "refcount img \<noteq> 0" using img_wf_heap [OF assms] by simp
  show "\<exists>st1. purple_imgstore_ref st (Some p) = Some (Some p, st1) \<and>
      purple_imgstore_unref st1 (Some p) = Some (Some p, st)" if "refcount img \<noteq> 255"
  proof -
    have "refcount img + 1 \<noteq> 0" using that by (metis add_eq_0_iff add.commute numeral_byte_255)
    then have "refcount img + 1 > 0" by (simp add: word_neq_0_conv)
    moreover have "st\<lparr>heap := (heap st)(p \<mapsto> img)\<rparr> = st" using assms(2) by (cases st) (auto simp: map_upd_triv)
    ultimately show ?thesis using assms(2) nz
      by (simp add: purple_imgstore_ref_def purple_imgstore_unref_def)
  qed
  show "\<exists>st1. purple_imgstore_unref st (Some p) = Some (None, st1) \<and> heap st1 = (heap st)(p := None) \<and>
      deleting st1 = deleting st @ [p] \<and> (\<forall>i. purple_imgstore_find_by_id st1 i \<noteq> Some p)" if "refcount img = 1"
  proof -
    have "imgstore st i = Some p \<Longrightarrow> i = img_id img \<and> i \<noteq> 0" for i
      using img_wf_table [OF assms(1), of i p] assms(2) by auto
    then show ?thesis using assms(2) that
      by (auto simp: purple_imgstore_unref_def purple_imgstore_find_by_id_def)
  qed
  show "\<exists>st1. purple_imgstore_ref st (Some p) = Some (Some p, st1) \<and>
      purple_imgstore_unref st1 (Some p) = Some (None, st1) \<and> heap st1 p \<noteq> None" if "refcount img = 255"
    using assms(2) that by (simp add: purple_imgstore_ref_def purple_imgstore_unref_def)
qed

theorem imgstore_refcounting_witness:
  "\<exists>st1. purple_imgstore_ref img_example (Some 7) = Some (Some 7, st1) \<and>
     purple_imgstore_unref st1 (Some 7) = Some (None, st1) \<and> heap st1 7 \<noteq> None"
  using imgstore_refcounting [OF img_example_wf, of 7 "\<lparr>img_id = 1, refcount = - 1, img_data = [9], filename = None\<rparr>"]
  by (simp add: img_example_def)

end
