(* ===== verification/Purple_Stringref.thy ===== *)
theory Purple_Stringref
  imports Purple_Base
begin

section \<open>Reference-counted strings (\<open>libpurple/stringref.c\<close>)\<close>

text \<open>
  A string reference is a heap cell with a 32-bit word: 31 bits of count and, in the top bit, the
  mark of a string that was created without a reference and waits in \<open>gclist\<close> for the idle
  callback.  An operation on a freed cell is \<open>None\<close>.  Allocation takes an unused address;
  \<open>purple_stringref_printf\<close> is \<open>purple_stringref_new\<close> of the formatted text.  The callers' contract is
  that only a holder of a reference drops one, and that fewer than \<open>2 ^ 31 - 1\<close> are held.
\<close>

type_synonym word32 = "32 word"
type_synonym addr = nat

record stringref =
  ref :: word32
  val :: string

record sr_state =
  sheap :: "addr \<Rightarrow> stringref option"
  gclist :: "addr list"
  timeouts :: nat

definition REFCOUNT :: "word32 \<Rightarrow> word32" where
  "REFCOUNT x = x AND 0x7fffffff"

definition purple_stringref_new :: "addr \<Rightarrow> sr_state \<Rightarrow> cstring \<Rightarrow> addr option \<times> sr_state" where
  "purple_stringref_new p st v =
     (case v of
        None \<Rightarrow> (None, st)
      | Some s \<Rightarrow> (Some p, st\<lparr>sheap := (sheap st)(p \<mapsto> \<lparr>ref = 1, val = s\<rparr>)\<rparr>))"

definition purple_stringref_new_noref :: "addr \<Rightarrow> sr_state \<Rightarrow> cstring \<Rightarrow> addr option \<times> sr_state" where
  "purple_stringref_new_noref p st v =
     (case v of
        None \<Rightarrow> (None, st)
      | Some s \<Rightarrow>
          (Some p, st\<lparr>sheap := (sheap st)(p \<mapsto> \<lparr>ref = 0x80000000, val = s\<rparr>),
                      timeouts := (if gclist st = [] then timeouts st + 1 else timeouts st),
                      gclist := p # gclist st\<rparr>))"

definition purple_stringref_ref :: "sr_state \<Rightarrow> addr option \<Rightarrow> (addr option \<times> sr_state) option" where
  "purple_stringref_ref st q =
     (case q of
        None \<Rightarrow> Some (None, st)
      | Some p \<Rightarrow>
          (case sheap st p of
             None \<Rightarrow> None
           | Some r \<Rightarrow> Some (Some p, st\<lparr>sheap := (sheap st)(p \<mapsto> r\<lparr>ref := ref r + 1\<rparr>)\<rparr>)))"

definition stringref_free :: "addr \<Rightarrow> sr_state \<Rightarrow> sr_state" where
  "stringref_free p st = st\<lparr>sheap := (sheap st)(p := None)\<rparr>"

definition purple_stringref_unref :: "sr_state \<Rightarrow> addr option \<Rightarrow> sr_state option" where
  "purple_stringref_unref st q =
     (case q of
        None \<Rightarrow> Some st
      | Some p \<Rightarrow>
          (case sheap st p of
             None \<Rightarrow> None
           | Some r \<Rightarrow>
               let r = r\<lparr>ref := ref r - 1\<rparr>;
                   st = st\<lparr>sheap := (sheap st)(p \<mapsto> r)\<rparr>
               in if REFCOUNT (ref r) = 0
                  then let st = (if ref r AND 0x80000000 \<noteq> 0
                                 then st\<lparr>gclist := remove1 p (gclist st)\<rparr> else st)
                       in Some (stringref_free p st)
                  else Some st))"

definition purple_stringref_value :: "sr_state \<Rightarrow> addr option \<Rightarrow> cstring option" where
  "purple_stringref_value st q =
     (case q of
        None \<Rightarrow> Some None
      | Some p \<Rightarrow> (case sheap st p of None \<Rightarrow> None | Some r \<Rightarrow> Some (Some (val r))))"

text \<open>The idle callback empties \<open>gclist\<close>.\<close>

fun gs_idle_loop :: "addr list \<Rightarrow> sr_state \<Rightarrow> sr_state option" where
  "gs_idle_loop [] st = Some (st\<lparr>gclist := []\<rparr>)"
| "gs_idle_loop (p # l) st =
     (case sheap st p of
        None \<Rightarrow> None
      | Some r \<Rightarrow> gs_idle_loop l (if REFCOUNT (ref r) = 0 then stringref_free p st else st))"

definition gs_idle_cb :: "sr_state \<Rightarrow> sr_state option" where
  "gs_idle_cb st = gs_idle_loop (gclist st) st"

subsection \<open>The two fields of the word\<close>

definition cnt :: "word32 \<Rightarrow> nat" where
  "cnt w = unat (REFCOUNT w)"

definition gc_bit :: "word32 \<Rightarrow> bool" where
  "gc_bit w \<longleftrightarrow> w AND 0x80000000 \<noteq> 0"

lemma REFCOUNT_take_bit: "REFCOUNT w = take_bit 31 w"
proof -
  have "(0x7fffffff :: word32) = mask 31" by (simp add: mask_eq_exp_minus_1)
  then show ?thesis by (simp only: REFCOUNT_def take_bit_eq_mask)
qed

lemma cnt_mod: "cnt w = unat w mod 2 ^ 31"
  unfolding cnt_def REFCOUNT_take_bit unsigned_take_bit_eq by (simp add: take_bit_eq_mod)

lemma gc_bit_unat: "gc_bit w \<longleftrightarrow> 2 ^ 31 \<le> unat w"
proof -
  have e: "(0x80000000 :: word32) = 2 ^ 31" by simp
  have "gc_bit w \<longleftrightarrow> bit w 31" unfolding gc_bit_def e by (simp only: and_exp_eq_0_iff_not_bit not_not)
  also have "\<dots> \<longleftrightarrow> bit (unat w) 31" by (simp add: bit_unsigned_iff)
  also have "\<dots> \<longleftrightarrow> odd (unat w div 2 ^ 31)" by (rule bit_iff_odd)
  also have "\<dots> \<longleftrightarrow> 2 ^ 31 \<le> unat w"
  proof -
    have "unat w < 2 ^ 32" using unsigned_less [of w] by simp
    then have "unat w div 2 ^ 31 < 2" by (simp add: less_mult_imp_div_less)
    then have "unat w div 2 ^ 31 = 0 \<or> unat w div 2 ^ 31 = 1" by linarith
    then show ?thesis by (auto simp: div_eq_0_iff)
  qed
  finally show ?thesis .
qed

lemma word_inc:
  assumes "cnt w < 2 ^ 31 - 1"
  shows "cnt (w + 1) = cnt w + 1" and "gc_bit (w + 1) = gc_bit w"
proof -
  have u: "unat w < 2 ^ 32" using unsigned_less [of w] by simp
  have "unat w + 1 \<noteq> 2 ^ 32" using assms by (auto simp: cnt_mod)
  then have s: "unat (w + 1) = unat w + 1" using u by (simp add: unat_word_ariths)
  show "cnt (w + 1) = cnt w + 1" using assms by (simp add: cnt_mod s mod_Suc)
  have "unat w + 1 \<noteq> 2 ^ 31" using assms by (auto simp: cnt_mod)
  then show "gc_bit (w + 1) = gc_bit w" by (auto simp: gc_bit_unat s)
qed

lemma word_dec:
  assumes "0 < cnt w"
  shows "cnt (w - 1) = cnt w - 1" and "gc_bit (w - 1) = gc_bit w"
proof -
  have "w \<noteq> 0" using assms by (auto simp: cnt_mod)
  then have s: "unat (w - 1) = unat w - 1" by (rule unat_minus_one)
  have "unat w mod 2 ^ 31 = Suc ((unat w - 1) mod 2 ^ 31)"
    using assms mod_Suc [of "unat w - 1" "2 ^ 31"] by (auto simp: cnt_mod split: if_splits)
  then show "cnt (w - 1) = cnt w - 1" by (simp add: cnt_mod s)
  have "unat w \<noteq> 2 ^ 31" using assms by (auto simp: cnt_mod)
  then show "gc_bit (w - 1) = gc_bit w" by (auto simp: gc_bit_unat s)
qed

subsection \<open>The invariant\<close>

text \<open>
  The waiting list has no repetition and no freed cell, its cells carry the mark, and a cell
  without references is on it.
\<close>

definition sr_wf :: "sr_state \<Rightarrow> bool" where
  "sr_wf st \<longleftrightarrow> distinct (gclist st) \<and>
     (\<forall>p \<in> set (gclist st). \<exists>r. sheap st p = Some r \<and> gc_bit (ref r)) \<and>
     (\<forall>p r. sheap st p = Some r \<longrightarrow> cnt (ref r) = 0 \<longrightarrow> p \<in> set (gclist st))"

lemma word_constants [simp]: "cnt 1 = 1" "cnt 0x80000000 = 0" "gc_bit 0x80000000" "\<not> gc_bit 1"
  by (simp_all add: cnt_mod gc_bit_unat)

lemma REFCOUNT_cnt: "REFCOUNT w = 0 \<longleftrightarrow> cnt w = 0"
  by (simp add: cnt_def unat_eq_zero)

lemma new_wf: "sr_wf st \<Longrightarrow> sheap st p = None \<Longrightarrow> sr_wf (snd (purple_stringref_new p st v))"
  by (force simp: sr_wf_def purple_stringref_new_def split: option.split)

lemma new_noref_wf: "sr_wf st \<Longrightarrow> sheap st p = None \<Longrightarrow> sr_wf (snd (purple_stringref_new_noref p st v))"
  by (force simp: sr_wf_def purple_stringref_new_noref_def split: option.split)

lemma update_wf:
  assumes "sr_wf st" and "sheap st p = Some r" and "gc_bit (ref r') = gc_bit (ref r)"
    and "cnt (ref r') \<noteq> 0"
  shows "sr_wf (st\<lparr>sheap := (sheap st)(p \<mapsto> r')\<rparr>)"
  using assms by (auto simp: sr_wf_def split: if_splits)

lemma sr_ref_wf:
  assumes "sr_wf st" and "sheap st p = Some r" and "cnt (ref r) < 2 ^ 31 - 1"
  shows "\<exists>st'. purple_stringref_ref st (Some p) = Some (Some p, st') \<and> sr_wf st' \<and> gclist st' = gclist st \<and>
    sheap st' = (sheap st)(p \<mapsto> r\<lparr>ref := ref r + 1\<rparr>)"
  using assms update_wf [OF assms(1,2), of "r\<lparr>ref := ref r + 1\<rparr>"] word_inc [OF assms(3)]
  by (simp add: purple_stringref_ref_def)

lemma sr_unref_wf:
  assumes wf: "sr_wf st" and p: "sheap st p = Some r" and pos: "0 < cnt (ref r)"
  shows "\<exists>st'. purple_stringref_unref st (Some p) = Some st' \<and> sr_wf st' \<and>
    sheap st' = (if cnt (ref r) = 1 then (sheap st)(p := None) else (sheap st)(p \<mapsto> r\<lparr>ref := ref r - 1\<rparr>))"
proof (cases "cnt (ref r) = 1")
  case True
  have c: "cnt (ref r - 1) = 0" and g: "ref r - 1 AND 0x80000000 \<noteq> 0 \<longleftrightarrow> gc_bit (ref r)"
    using word_dec [OF pos] True by (simp_all add: gc_bit_def)
  define st' where "st' = st\<lparr>sheap := (sheap st)(p := None), gclist := remove1 p (gclist st)\<rparr>"
  have "remove1 p (gclist st) = gclist st" if "\<not> gc_bit (ref r)"
    using wf p that by (intro remove1_idem) (auto simp: sr_wf_def)
  then have "purple_stringref_unref st (Some p) = Some st'"
    using p c g by (cases st) (auto simp: purple_stringref_unref_def Let_def REFCOUNT_cnt stringref_free_def st'_def)
  moreover have "sr_wf st'" using wf by (auto simp: sr_wf_def st'_def)
  ultimately show ?thesis using True by (simp add: st'_def)
next
  case False
  then have "cnt (ref r - 1) \<noteq> 0" using word_dec(1) [OF pos] pos by simp
  then show ?thesis using False p update_wf [OF wf p, of "r\<lparr>ref := ref r - 1\<rparr>"] word_dec [OF pos]
    by (simp add: purple_stringref_unref_def Let_def REFCOUNT_cnt)
qed

lemma idle_loop:
  assumes "distinct l" and "\<forall>p \<in> set l. \<exists>r. sheap st p = Some r"
  shows "gs_idle_loop l st = Some (st\<lparr>gclist := [],
    sheap := (\<lambda>p. case sheap st p of None \<Rightarrow> None
                   | Some r \<Rightarrow> if p \<in> set l \<and> cnt (ref r) = 0 then None else Some r)\<rparr>)"
  using assms
proof (induction l arbitrary: st)
  case Nil
  have "sheap st = (\<lambda>p. case sheap st p of None \<Rightarrow> None
      | Some r \<Rightarrow> if p \<in> set [] \<and> cnt (ref r) = 0 then None else Some r)"
    by (auto split: option.splits)
  then show ?case by (cases st) simp
next
  case (Cons p l)
  then obtain r where r: "sheap st p = Some r" by auto
  let ?st = "if REFCOUNT (ref r) = 0 then stringref_free p st else st"
  have "\<forall>q \<in> set l. \<exists>r. sheap ?st q = Some r" using Cons.prems by (auto simp: stringref_free_def)
  with Cons have "gs_idle_loop l ?st = Some (?st\<lparr>gclist := [],
    sheap := (\<lambda>p. case sheap ?st p of None \<Rightarrow> None
                   | Some r \<Rightarrow> if p \<in> set l \<and> cnt (ref r) = 0 then None else Some r)\<rparr>)" by simp
  moreover have "(\<lambda>q. case sheap ?st q of None \<Rightarrow> None
        | Some r \<Rightarrow> if q \<in> set l \<and> cnt (ref r) = 0 then None else Some r) =
      (\<lambda>q. case sheap st q of None \<Rightarrow> None
        | Some r \<Rightarrow> if q \<in> set (p # l) \<and> cnt (ref r) = 0 then None else Some r)"
    using r by (auto simp: stringref_free_def REFCOUNT_cnt fun_eq_iff split: option.splits)
  ultimately show ?case using r by (simp add: stringref_free_def)
qed

subsection \<open>Properties\<close>

text \<open>C38: Under the callers' contract no operation and no idle callback touches a freed string: all
  return, and the waiting list and the heap stay consistent.\<close>

theorem stringref_memory_safe:
  assumes "sr_wf st"
  shows "(sheap st p = None \<longrightarrow> sr_wf (snd (purple_stringref_new p st v)) \<and> sr_wf (snd (purple_stringref_new_noref p st v))) \<and>
    (sheap st p = Some r \<longrightarrow> cnt (ref r) < 2 ^ 31 - 1 \<longrightarrow>
       (\<exists>st'. purple_stringref_ref st (Some p) = Some (Some p, st') \<and> sr_wf st')) \<and>
    (sheap st p = Some r \<longrightarrow> 0 < cnt (ref r) \<longrightarrow>
       (\<exists>st'. purple_stringref_unref st (Some p) = Some st' \<and> sr_wf st' \<and>
              (sheap st' p = None \<longleftrightarrow> cnt (ref r) = 1) \<and> (\<forall>q. q \<noteq> p \<longrightarrow> sheap st' q = sheap st q))) \<and>
    (\<exists>st'. gs_idle_cb st = Some st' \<and> sr_wf st')"
proof (intro conjI impI)
  show "sr_wf (snd (purple_stringref_new p st v))" and "sr_wf (snd (purple_stringref_new_noref p st v))"
    if "sheap st p = None" using new_wf new_noref_wf assms that by blast+
  show "\<exists>st'. purple_stringref_ref st (Some p) = Some (Some p, st') \<and> sr_wf st'"
    if "sheap st p = Some r" "cnt (ref r) < 2 ^ 31 - 1" using sr_ref_wf [OF assms that] by blast
  show "\<exists>st'. purple_stringref_unref st (Some p) = Some st' \<and> sr_wf st' \<and>
      (sheap st' p = None \<longleftrightarrow> cnt (ref r) = 1) \<and> (\<forall>q. q \<noteq> p \<longrightarrow> sheap st' q = sheap st q)"
    if "sheap st p = Some r" "0 < cnt (ref r)" using sr_unref_wf [OF assms that] by auto
  have "gs_idle_loop (gclist st) st = Some (st\<lparr>gclist := [],
    sheap := (\<lambda>p. case sheap st p of None \<Rightarrow> None
                   | Some r \<Rightarrow> if p \<in> set (gclist st) \<and> cnt (ref r) = 0 then None else Some r)\<rparr>)"
    using assms by (intro idle_loop) (auto simp: sr_wf_def)
  then show "\<exists>st'. gs_idle_cb st = Some st' \<and> sr_wf st'"
    using assms by (auto simp: gs_idle_cb_def sr_wf_def split: option.splits if_splits)
qed

definition sr_example :: sr_state where
  "sr_example = \<lparr>sheap = [3 \<mapsto> \<lparr>ref = 0x80000000, val = ''a''\<rparr>, 4 \<mapsto> \<lparr>ref = 0x80000001, val = ''b''\<rparr>],
     gclist = [4, 3], timeouts = 1\<rparr>"

lemma sr_example_wf: "sr_wf sr_example"
  by (auto simp: sr_wf_def sr_example_def cnt_mod gc_bit_unat split: if_splits)

theorem stringref_memory_safe_witness: "\<exists>st'. gs_idle_cb sr_example = Some st' \<and> sr_wf st'"
  using stringref_memory_safe [OF sr_example_wf] by blast

text \<open>The idle callback frees exactly the strings that nobody has referenced, and leaves no string
  waiting.\<close>

theorem stringref_idle_collects:
  assumes "sr_wf st" and "gs_idle_cb st = Some st'"
  shows "gclist st' = [] \<and>
    sheap st' q = (case sheap st q of None \<Rightarrow> None | Some r \<Rightarrow> if cnt (ref r) = 0 then None else Some r)"
proof -
  have "gs_idle_loop (gclist st) st = Some (st\<lparr>gclist := [],
    sheap := (\<lambda>p. case sheap st p of None \<Rightarrow> None
                   | Some r \<Rightarrow> if p \<in> set (gclist st) \<and> cnt (ref r) = 0 then None else Some r)\<rparr>)"
    using assms(1) by (intro idle_loop) (auto simp: sr_wf_def)
  with assms show ?thesis by (auto simp: gs_idle_cb_def sr_wf_def split: option.splits)
qed

theorem stringref_idle_collects_witness:
  "\<exists>st'. gs_idle_cb sr_example = Some st' \<and> sheap st' 3 = None \<and> sheap st' 4 \<noteq> None"
proof -
  have "\<exists>st'. gs_idle_cb sr_example = Some st'"
    by (simp add: gs_idle_cb_def sr_example_def REFCOUNT_cnt cnt_mod stringref_free_def)
  then obtain st' where st': "gs_idle_cb sr_example = Some st'" ..
  from stringref_idle_collects [OF sr_example_wf st', of 3] stringref_idle_collects [OF sr_example_wf st', of 4]
  show ?thesis using st' by (auto simp: sr_example_def cnt_mod)
qed

end
