(* ===== verification/Purple_Signals.thy ===== *)
theory Purple_Signals
  imports Purple_Base
begin

section \<open>Signals (\<open>libpurple/signals.c\<close>)\<close>

text \<open>
  The signal bus: a table of instances, each with its named signals, each with its connected
  handlers in order of priority.  Pointers are numbers, 0 is \<open>NULL\<close>.  Callbacks are parameters
  (\<open>run\<close>): a callback may change the whole table, connect, disconnect and emit.  Every list node
  carries the number it was allocated under, so that the walk of an emission, which fetches
  \<open>l->next\<close> before each callback and follows it afterwards, can be told to stand on a freed node
  (\<open>Use_after_free\<close>); the walk is a \<open>partial_function\<close>, since callbacks can keep it going.  Marshalling
  of arguments, value descriptions and the D-Bus echo are not modelled.
\<close>

type_synonym ptr = nat

record handler =
  h_node :: nat
  h_id :: nat
  h_cb :: ptr
  h_handle :: ptr
  h_data :: ptr
  h_use_vargs :: bool
  h_priority :: int

record signal_data =
  sd_id :: nat
  sd_handlers :: "handler list"
  sd_handler_count :: nat
  sd_next_handler_id :: nat

record instance_data =
  in_signals :: "string \<Rightarrow> signal_data option"
  in_signal_count :: nat
  in_next_signal_id :: nat

record signals =
  instance_table :: "ptr \<Rightarrow> instance_data option"
  next_node :: nat

definition purple_signals_init :: signals where
  "purple_signals_init = \<lparr>instance_table = (\<lambda>_. None), next_node = 0\<rparr>"

definition PURPLE_SIGNAL_PRIORITY_DEFAULT :: int where
  "PURPLE_SIGNAL_PRIORITY_DEFAULT = 0"

subsection \<open>Registration\<close>

definition purple_signal_register :: "signals \<Rightarrow> ptr \<Rightarrow> string \<Rightarrow> nat \<times> signals" where
  "purple_signal_register st inst sig =
     (if inst = 0 then (0, st)
      else
        let d = (case instance_table st inst of
                   Some d \<Rightarrow> d
                 | None \<Rightarrow> \<lparr>in_signals = (\<lambda>_. None), in_signal_count = 0, in_next_signal_id = 1\<rparr>);
            sd = \<lparr>sd_id = in_next_signal_id d, sd_handlers = [], sd_handler_count = 0, sd_next_handler_id = 1\<rparr>
        in (sd_id sd,
            st\<lparr>instance_table := (instance_table st)(inst \<mapsto>
              d\<lparr>in_signals := (in_signals d)(sig \<mapsto> sd), in_next_signal_id := in_next_signal_id d + 1,
                in_signal_count := in_signal_count d + 1\<rparr>)\<rparr>))"

definition purple_signal_unregister :: "signals \<Rightarrow> ptr \<Rightarrow> string \<Rightarrow> signals" where
  "purple_signal_unregister st inst sig =
     (case instance_table st inst of
        None \<Rightarrow> st
      | Some d \<Rightarrow>
          let d = d\<lparr>in_signals := (in_signals d)(sig := None), in_signal_count := in_signal_count d - 1\<rparr>
          in if in_signal_count d = 0
             then st\<lparr>instance_table := (instance_table st)(inst := None)\<rparr>
             else st\<lparr>instance_table := (instance_table st)(inst \<mapsto> d)\<rparr>)"

definition purple_signals_unregister_by_instance :: "signals \<Rightarrow> ptr \<Rightarrow> signals" where
  "purple_signals_unregister_by_instance st inst =
     (if inst = 0 then st else st\<lparr>instance_table := (instance_table st)(inst := None)\<rparr>)"

subsection \<open>Connecting and disconnecting\<close>

definition find_signal :: "signals \<Rightarrow> ptr \<Rightarrow> string \<Rightarrow> signal_data option" where
  "find_signal st inst sig = Option.bind (instance_table st inst) (\<lambda>d. in_signals d sig)"

definition put_signal :: "signals \<Rightarrow> ptr \<Rightarrow> string \<Rightarrow> signal_data \<Rightarrow> signals" where
  "put_signal st inst sig sd =
     (case instance_table st inst of
        None \<Rightarrow> st
      | Some d \<Rightarrow> st\<lparr>instance_table := (instance_table st)(inst \<mapsto> d\<lparr>in_signals := (in_signals d)(sig \<mapsto> sd)\<rparr>)\<rparr>)"

definition handler_priority :: "handler \<Rightarrow> handler \<Rightarrow> int" where
  "handler_priority ah bh =
     (if h_priority ah > h_priority bh then 1
      else if h_priority ah < h_priority bh then - 1 else 0)"

definition signal_connect_common ::
  "signals \<Rightarrow> ptr \<Rightarrow> string \<Rightarrow> ptr \<Rightarrow> ptr \<Rightarrow> ptr \<Rightarrow> int \<Rightarrow> bool \<Rightarrow> nat \<times> signals" where
  "signal_connect_common st inst sig handle func dat priority use_vargs =
     (if inst = 0 \<or> handle = 0 \<or> func = 0 then (0, st)
      else case find_signal st inst sig of
             None \<Rightarrow> (0, st)
           | Some sd \<Rightarrow>
               let h = \<lparr>h_node = next_node st, h_id = sd_next_handler_id sd, h_cb = func, h_handle = handle,
                        h_data = dat, h_use_vargs = use_vargs, h_priority = priority\<rparr>;
                   sd = sd\<lparr>sd_handlers := g_list_insert_sorted handler_priority h (sd_handlers sd),
                           sd_handler_count := sd_handler_count sd + 1,
                           sd_next_handler_id := sd_next_handler_id sd + 1\<rparr>
               in (h_id h, put_signal (st\<lparr>next_node := next_node st + 1\<rparr>) inst sig sd))"

definition purple_signal_connect_priority ::
  "signals \<Rightarrow> ptr \<Rightarrow> string \<Rightarrow> ptr \<Rightarrow> ptr \<Rightarrow> ptr \<Rightarrow> int \<Rightarrow> nat \<times> signals" where
  "purple_signal_connect_priority st inst sig handle func dat priority =
     signal_connect_common st inst sig handle func dat priority False"

definition purple_signal_connect :: "signals \<Rightarrow> ptr \<Rightarrow> string \<Rightarrow> ptr \<Rightarrow> ptr \<Rightarrow> ptr \<Rightarrow> nat \<times> signals" where
  "purple_signal_connect st inst sig handle func dat =
     signal_connect_common st inst sig handle func dat PURPLE_SIGNAL_PRIORITY_DEFAULT False"

definition purple_signal_connect_priority_vargs ::
  "signals \<Rightarrow> ptr \<Rightarrow> string \<Rightarrow> ptr \<Rightarrow> ptr \<Rightarrow> ptr \<Rightarrow> int \<Rightarrow> nat \<times> signals" where
  "purple_signal_connect_priority_vargs st inst sig handle func dat priority =
     signal_connect_common st inst sig handle func dat priority True"

definition purple_signal_connect_vargs :: "signals \<Rightarrow> ptr \<Rightarrow> string \<Rightarrow> ptr \<Rightarrow> ptr \<Rightarrow> ptr \<Rightarrow> nat \<times> signals" where
  "purple_signal_connect_vargs st inst sig handle func dat =
     signal_connect_common st inst sig handle func dat PURPLE_SIGNAL_PRIORITY_DEFAULT True"

definition purple_signal_connected :: "signals \<Rightarrow> ptr \<Rightarrow> string \<Rightarrow> ptr \<Rightarrow> ptr \<Rightarrow> ptr \<Rightarrow> bool" where
  "purple_signal_connected st inst sig handle func dat =
     (if inst = 0 \<or> handle = 0 \<or> func = 0 then False
      else case find_signal st inst sig of
             None \<Rightarrow> False
           | Some sd \<Rightarrow> \<exists>h \<in> set (sd_handlers sd). h_handle h = handle \<and> h_cb h = func \<and> h_data h = dat)"

definition purple_signal_connect_once :: "signals \<Rightarrow> ptr \<Rightarrow> string \<Rightarrow> ptr \<Rightarrow> ptr \<Rightarrow> ptr \<Rightarrow> nat \<times> signals" where
  "purple_signal_connect_once st inst sig handle func dat =
     (if purple_signal_connected st inst sig handle func dat then (0, st)
      else purple_signal_connect st inst sig handle func dat)"

fun remove_first :: "('a \<Rightarrow> bool) \<Rightarrow> 'a list \<Rightarrow> 'a list" where
  "remove_first P [] = []"
| "remove_first P (x # xs) = (if P x then xs else x # remove_first P xs)"

definition purple_signal_disconnect :: "signals \<Rightarrow> ptr \<Rightarrow> string \<Rightarrow> ptr \<Rightarrow> ptr \<Rightarrow> signals" where
  "purple_signal_disconnect st inst sig handle func =
     (if inst = 0 \<or> handle = 0 \<or> func = 0 then st
      else case find_signal st inst sig of
             None \<Rightarrow> st
           | Some sd \<Rightarrow>
               if \<exists>h \<in> set (sd_handlers sd). h_handle h = handle \<and> h_cb h = func
               then put_signal st inst sig
                      (sd\<lparr>sd_handlers := remove_first (\<lambda>h. h_handle h = handle \<and> h_cb h = func) (sd_handlers sd),
                          sd_handler_count := sd_handler_count sd - 1\<rparr>)
               else st)"

fun disconnect_loop :: "ptr \<Rightarrow> handler list \<Rightarrow> nat \<Rightarrow> handler list \<times> nat" where
  "disconnect_loop handle [] count = ([], count)"
| "disconnect_loop handle (h # l) count =
     (if h_handle h = handle then disconnect_loop handle l (count - 1)
      else case disconnect_loop handle l count of (l, count) \<Rightarrow> (h # l, count))"

definition disconnect_handle_from_signals :: "ptr \<Rightarrow> signal_data \<Rightarrow> signal_data" where
  "disconnect_handle_from_signals handle sd =
     (case disconnect_loop handle (sd_handlers sd) (sd_handler_count sd) of
        (l, count) \<Rightarrow> sd\<lparr>sd_handlers := l, sd_handler_count := count\<rparr>)"

definition disconnect_handle_from_instance :: "ptr \<Rightarrow> instance_data \<Rightarrow> instance_data" where
  "disconnect_handle_from_instance handle d =
     d\<lparr>in_signals := (\<lambda>s. map_option (disconnect_handle_from_signals handle) (in_signals d s))\<rparr>"

definition purple_signals_disconnect_by_handle :: "signals \<Rightarrow> ptr \<Rightarrow> signals" where
  "purple_signals_disconnect_by_handle st handle =
     (if handle = 0 then st
      else st\<lparr>instance_table := (\<lambda>i. map_option (disconnect_handle_from_instance handle) (instance_table st i))\<rparr>)"

subsection \<open>Emission\<close>

datatype emit_status = Emitted | Use_after_free

text \<open>The handler at a node, and the node after it.\<close>

fun at_node :: "nat \<Rightarrow> handler list \<Rightarrow> (handler \<times> nat option) option" where
  "at_node n [] = None"
| "at_node n (h # l) =
     (if h_node h = n then Some (h, (case l of [] \<Rightarrow> None | h' # _ \<Rightarrow> Some (h_node h'))) else at_node n l)"

definition handlers_of :: "signals \<Rightarrow> ptr \<Rightarrow> string \<Rightarrow> handler list" where
  "handlers_of st inst sig = (case find_signal st inst sig of None \<Rightarrow> [] | Some sd \<Rightarrow> sd_handlers sd)"

definition first_node :: "handler list \<Rightarrow> nat option" where
  "first_node l = (case l of [] \<Rightarrow> None | h # _ \<Rightarrow> Some (h_node h))"

partial_function (option) emit_loop ::
  "(handler \<Rightarrow> signals \<Rightarrow> signals \<times> ptr) \<Rightarrow> ptr \<Rightarrow> string \<Rightarrow> nat option \<Rightarrow> signals \<Rightarrow> nat list
    \<Rightarrow> (emit_status \<times> signals \<times> nat list) option" where
  "emit_loop run inst sig l st called =
     (case l of
        None \<Rightarrow> Some (Emitted, st, called)
      | Some n \<Rightarrow>
          (case at_node n (handlers_of st inst sig) of
             None \<Rightarrow> Some (Use_after_free, st, called)
           | Some (h, l_next) \<Rightarrow> emit_loop run inst sig l_next (fst (run h st)) (called @ [n])))"

definition purple_signal_emit ::
  "(handler \<Rightarrow> signals \<Rightarrow> signals \<times> ptr) \<Rightarrow> signals \<Rightarrow> ptr \<Rightarrow> string \<Rightarrow> (emit_status \<times> signals \<times> nat list) option" where
  "purple_signal_emit run st inst sig =
     (if inst = 0 then Some (Emitted, st, [])
      else emit_loop run inst sig (first_node (handlers_of st inst sig)) st [])"

partial_function (option) emit_return_1_loop ::
  "(handler \<Rightarrow> signals \<Rightarrow> signals \<times> ptr) \<Rightarrow> ptr \<Rightarrow> string \<Rightarrow> nat option \<Rightarrow> signals
    \<Rightarrow> (emit_status \<times> signals \<times> ptr) option" where
  "emit_return_1_loop run inst sig l st =
     (case l of
        None \<Rightarrow> Some (Emitted, st, 0)
      | Some n \<Rightarrow>
          (case at_node n (handlers_of st inst sig) of
             None \<Rightarrow> Some (Use_after_free, st, 0)
           | Some (h, l_next) \<Rightarrow>
               if snd (run h st) \<noteq> 0 then Some (Emitted, fst (run h st), snd (run h st))
               else emit_return_1_loop run inst sig l_next (fst (run h st))))"

definition purple_signal_emit_return_1 ::
  "(handler \<Rightarrow> signals \<Rightarrow> signals \<times> ptr) \<Rightarrow> signals \<Rightarrow> ptr \<Rightarrow> string \<Rightarrow> (emit_status \<times> signals \<times> ptr) option" where
  "purple_signal_emit_return_1 run st inst sig =
     (if inst = 0 then Some (Emitted, st, 0)
      else emit_return_1_loop run inst sig (first_node (handlers_of st inst sig)) st)"

interpretation prio: ranked_cmp handler_priority h_priority
  by unfold_locales (auto simp: handler_priority_def)

subsection \<open>The invariant\<close>

definition sd_wf :: "nat \<Rightarrow> signal_data \<Rightarrow> bool" where
  "sd_wf n sd \<longleftrightarrow> sorted (map h_priority (sd_handlers sd)) \<and> sd_handler_count sd = length (sd_handlers sd) \<and>
     distinct (map h_node (sd_handlers sd)) \<and> distinct (map h_id (sd_handlers sd)) \<and>
     (\<forall>h \<in> set (sd_handlers sd). h_node h < n \<and> 0 < h_id h \<and> h_id h < sd_next_handler_id sd) \<and>
     0 < sd_next_handler_id sd"

definition sig_wf :: "signals \<Rightarrow> bool" where
  "sig_wf st \<longleftrightarrow> (\<forall>inst sig sd. find_signal st inst sig = Some sd \<longrightarrow> sd_wf (next_node st) sd)"

lemma sig_wfD: "sig_wf st \<Longrightarrow> find_signal st inst sig = Some sd \<Longrightarrow> sd_wf (next_node st) sd"
  by (simp add: sig_wf_def)

lemma find_signal_put:
  "find_signal st inst sig = Some sd0 \<Longrightarrow>
   find_signal (put_signal st inst sig sd) i s = (if i = inst \<and> s = sig then Some sd else find_signal st i s)"
  by (auto simp: find_signal_def put_signal_def split: option.splits bind_splits)

lemma next_node_put [simp]: "next_node (put_signal st inst sig sd) = next_node st"
  by (simp add: put_signal_def split: option.split)

lemma find_signal_more [simp]: "find_signal (st\<lparr>next_node := n\<rparr>) = find_signal st"
  by (simp add: find_signal_def fun_eq_iff)

lemma put_wf:
  assumes "sig_wf st" and "find_signal st inst sig = Some sd0" and "sd_wf (next_node st) sd"
  shows "sig_wf (put_signal st inst sig sd)"
  using assms(1,3) unfolding sig_wf_def find_signal_put [OF assms(2)] by auto

lemma sd_wf_mono: "sd_wf n sd \<Longrightarrow> n \<le> m \<Longrightarrow> sd_wf m sd"
  by (fastforce simp: sd_wf_def)

lemma wf_mono: "sig_wf st \<Longrightarrow> next_node st \<le> m \<Longrightarrow> sig_wf (st\<lparr>next_node := m\<rparr>)"
  by (auto simp: sig_wf_def intro: sd_wf_mono)

lemma insert_wf:
  assumes "sd_wf n sd" and "h_node h = n" and "h_id h = sd_next_handler_id sd"
  shows "sd_wf (Suc n) (sd\<lparr>sd_handlers := g_list_insert_sorted handler_priority h (sd_handlers sd),
      sd_handler_count := sd_handler_count sd + 1, sd_next_handler_id := sd_next_handler_id sd + 1\<rparr>)"
proof -
  have "h_node h \<notin> h_node ` set (sd_handlers sd)" "h_id h \<notin> h_id ` set (sd_handlers sd)"
    using assms by (auto simp: sd_wf_def)
  with assms show ?thesis
    by (auto simp: sd_wf_def prio.sorted_insert_sorted distinct_map_g_list_insert_sorted less_Suc_eq)
qed

lemma connect_wf:
  assumes "sig_wf st"
  shows "sig_wf (snd (signal_connect_common st inst sig handle func dat p v))"
proof (cases "find_signal st inst sig")
  case (Some sd)
  let ?h = "\<lparr>h_node = next_node st, h_id = sd_next_handler_id sd, h_cb = func, h_handle = handle,
                        h_data = dat, h_use_vargs = v, h_priority = p\<rparr>"
  have "sd_wf (Suc (next_node st)) (sd\<lparr>sd_handlers := g_list_insert_sorted handler_priority ?h (sd_handlers sd),
      sd_handler_count := sd_handler_count sd + 1, sd_next_handler_id := sd_next_handler_id sd + 1\<rparr>)"
    by (rule insert_wf [OF sig_wfD [OF assms Some]]) simp_all
  moreover have "sig_wf (st\<lparr>next_node := next_node st + 1\<rparr>)" using assms by (intro wf_mono) simp_all
  ultimately have "sig_wf (put_signal (st\<lparr>next_node := next_node st + 1\<rparr>) inst sig
      (sd\<lparr>sd_handlers := g_list_insert_sorted handler_priority ?h (sd_handlers sd),
      sd_handler_count := sd_handler_count sd + 1, sd_next_handler_id := sd_next_handler_id sd + 1\<rparr>))"
    using Some put_wf [of "st\<lparr>next_node := next_node st + 1\<rparr>" inst sig sd] by simp
  then show ?thesis using Some assms by (simp add: signal_connect_common_def Let_def)
qed (use assms in \<open>simp add: signal_connect_common_def\<close>)

lemma filter_wf: "sd_wf n sd \<Longrightarrow>
  sd_wf n (sd\<lparr>sd_handlers := filter P (sd_handlers sd), sd_handler_count := length (filter P (sd_handlers sd))\<rparr>)"
  by (auto simp: sd_wf_def sorted_filter distinct_map_filter)

lemma disconnect_loop_eq:
  "c = length l \<Longrightarrow> disconnect_loop handle l c =
     (filter (\<lambda>h. h_handle h \<noteq> handle) l, length (filter (\<lambda>h. h_handle h \<noteq> handle) l))"
proof -
  have "disconnect_loop handle l (k + length l) = (filter (\<lambda>h. h_handle h \<noteq> handle) l,
      k + length (filter (\<lambda>h. h_handle h \<noteq> handle) l))" for k
  proof (induction l arbitrary: k)
    case (Cons h l)
    from Cons.IH [of k] Cons.IH [of "Suc k"] show ?case by simp
  qed simp
  from this [of 0] show "c = length l \<Longrightarrow> disconnect_loop handle l c =
     (filter (\<lambda>h. h_handle h \<noteq> handle) l, length (filter (\<lambda>h. h_handle h \<noteq> handle) l))" by simp
qed

lemma disconnect_signals_eq:
  "sd_wf n sd \<Longrightarrow> disconnect_handle_from_signals handle sd =
     sd\<lparr>sd_handlers := filter (\<lambda>h. h_handle h \<noteq> handle) (sd_handlers sd),
        sd_handler_count := length (filter (\<lambda>h. h_handle h \<noteq> handle) (sd_handlers sd))\<rparr>"
  by (simp add: disconnect_handle_from_signals_def sd_wf_def disconnect_loop_eq)

lemma remove_first_split:
  "\<exists>x \<in> set xs. P x \<Longrightarrow> \<exists>a y b. xs = a @ y # b \<and> P y \<and> remove_first P xs = a @ b \<and> (\<forall>x \<in> set a. \<not> P x)"
proof (induction xs)
  case (Cons x xs)
  show ?case
  proof (cases "P x")
    case True
    then show ?thesis by (intro exI [of _ "[]"]) auto
  next
    case False
    with Cons obtain a y b where "xs = a @ y # b" "P y" "remove_first P xs = a @ b" "\<forall>x \<in> set a. \<not> P x" by auto
    with False show ?thesis by (intro exI [of _ "x # a"] exI [of _ y] exI [of _ b]) auto
  qed
qed simp

lemma disconnect_wf:
  assumes "sig_wf st"
  shows "sig_wf (purple_signal_disconnect st inst sig handle func)"
proof (cases "find_signal st inst sig")
  case (Some sd)
  let ?P = "\<lambda>h. h_handle h = handle \<and> h_cb h = func"
  show ?thesis
  proof (cases "\<exists>h \<in> set (sd_handlers sd). ?P h")
    case True
    from remove_first_split [OF this] obtain a y b where
      l: "sd_handlers sd = a @ y # b" "remove_first ?P (sd_handlers sd) = a @ b" by blast
    have "sd_wf (next_node st) (sd\<lparr>sd_handlers := a @ b, sd_handler_count := sd_handler_count sd - 1\<rparr>)"
      using sig_wfD [OF assms Some] by (auto simp: sd_wf_def l(1) sorted_append)
    with True Some assms l(2) show ?thesis
      by (auto simp: purple_signal_disconnect_def intro!: put_wf)
  qed (use assms Some in \<open>auto simp: purple_signal_disconnect_def\<close>)
qed (use assms in \<open>simp add: purple_signal_disconnect_def\<close>)

lemma find_by_handle:
  "handle \<noteq> 0 \<Longrightarrow> find_signal (purple_signals_disconnect_by_handle st handle) i s =
     map_option (disconnect_handle_from_signals handle) (find_signal st i s)"
  by (auto simp: find_signal_def purple_signals_disconnect_by_handle_def disconnect_handle_from_instance_def
      split: option.splits bind_splits)

lemma by_handle_wf:
  assumes "sig_wf st"
  shows "sig_wf (purple_signals_disconnect_by_handle st handle)"
proof (cases "handle = 0")
  case False
  have "next_node (purple_signals_disconnect_by_handle st handle) = next_node st"
    by (simp add: purple_signals_disconnect_by_handle_def)
  moreover have "sd_wf (next_node st) (disconnect_handle_from_signals handle sd)"
    if "find_signal st i s = Some sd" for i s sd
    using filter_wf [OF sig_wfD [OF assms that]] by (simp add: disconnect_signals_eq [OF sig_wfD [OF assms that]])
  ultimately show ?thesis
    using False by (auto simp: sig_wf_def find_by_handle)
qed (use assms in \<open>simp add: purple_signals_disconnect_by_handle_def\<close>)

lemma find_register:
  "inst \<noteq> 0 \<Longrightarrow> find_signal (snd (purple_signal_register st inst sig)) i s =
     (if i = inst \<and> s = sig then Some \<lparr>sd_id = fst (purple_signal_register st inst sig), sd_handlers = [],
        sd_handler_count = 0, sd_next_handler_id = 1\<rparr> else find_signal st i s)"
  by (auto simp: purple_signal_register_def find_signal_def Let_def split: option.splits)

lemma register_wf: "sig_wf st \<Longrightarrow> sig_wf (snd (purple_signal_register st inst sig))"
proof (cases "inst = 0")
  case False
  assume "sig_wf st"
  moreover have "next_node (snd (purple_signal_register st inst sig)) = next_node st"
    by (simp add: purple_signal_register_def Let_def)
  ultimately show ?thesis using False by (auto simp: sig_wf_def find_register sd_wf_def)
qed (simp add: purple_signal_register_def)

lemma unregister_wf: "sig_wf st \<Longrightarrow> sig_wf (purple_signal_unregister st inst sig)"
proof -
  assume wf: "sig_wf st"
  have "find_signal st i s = Some sd" if "find_signal (purple_signal_unregister st inst sig) i s = Some sd" for i s sd
    using that by (auto simp: purple_signal_unregister_def find_signal_def Let_def
        split: option.splits if_splits bind_splits)
  moreover have "next_node (purple_signal_unregister st inst sig) = next_node st"
    by (simp add: purple_signal_unregister_def Let_def split: option.split)
  ultimately show ?thesis using wf unfolding sig_wf_def by metis
qed

lemma unregister_instance_wf: "sig_wf st \<Longrightarrow> sig_wf (purple_signals_unregister_by_instance st inst)"
  by (auto simp: sig_wf_def purple_signals_unregister_by_instance_def find_signal_def split: if_splits)

lemma init_wf: "sig_wf purple_signals_init"
  by (simp add: sig_wf_def purple_signals_init_def find_signal_def)

subsection \<open>Walking the handlers\<close>

lemma at_node_split:
  assumes "distinct (map h_node (a @ h # b))"
  shows "at_node (h_node h) (a @ h # b) = Some (h, first_node b)"
proof -
  have "at_node n (a @ h # b) = at_node n (h # b)" if "n \<notin> h_node ` set a" for n
    using that by (induction a) auto
  with assms show ?thesis by (simp add: first_node_def)
qed

lemma at_node_None: "n \<notin> h_node ` set l \<Longrightarrow> at_node n l = None"
  by (induction l) auto

lemma distinct_nodes_filter: "distinct (map h_node l) \<Longrightarrow> distinct (map h_node (filter P l))"
  by (rule distinct_map_filter)

lemma emit_loop_self:
  assumes dist: "distinct (map h_node (pre @ l))"
    and run: "\<And>h st' Q. h \<in> set (pre @ l) \<Longrightarrow> Q h \<Longrightarrow> handlers_of st' inst sig = filter Q (pre @ l) \<Longrightarrow>
      handlers_of (fst (run h st')) inst sig = (if once h then filter (\<lambda>x. Q x \<and> x \<noteq> h) (pre @ l) else filter Q (pre @ l))"
    and now: "handlers_of st inst sig = filter (\<lambda>h. \<not> once h) pre @ l"
  shows "\<exists>st'. emit_loop run inst sig (first_node l) st called = Some (Emitted, st', called @ map h_node l) \<and>
    handlers_of st' inst sig = filter (\<lambda>h. \<not> once h) (pre @ l)"
  using assms
proof (induction l arbitrary: pre st called)
  case Nil
  then show ?case by (simp add: first_node_def emit_loop.simps)
next
  case (Cons h l)
  let ?Q = "\<lambda>x. x \<notin> set pre \<or> \<not> once x"
  have dis: "distinct (pre @ h # l)" using Cons.prems(1) by (simp only: distinct_map)
  have f: "filter ?Q (pre @ h # l) = filter (\<lambda>h. \<not> once h) pre @ h # l"
  proof -
    have "filter ?Q pre = filter (\<lambda>h. \<not> once h) pre" by (rule filter_cong) auto
    moreover have "filter ?Q (h # l) = h # l" using dis by (intro filter_True) auto
    ultimately show ?thesis by (simp only: filter_append)
  qed
  have "distinct (map h_node (filter (\<lambda>h. \<not> once h) pre @ h # l))"
    using distinct_nodes_filter [OF Cons.prems(1), of ?Q] unfolding f .
  from at_node_split [OF this] have at: "at_node (h_node h) (handlers_of st inst sig) = Some (h, first_node l)"
    unfolding Cons.prems(3) .
  have "handlers_of (fst (run h st)) inst sig =
      (if once h then filter (\<lambda>x. ?Q x \<and> x \<noteq> h) (pre @ h # l) else filter ?Q (pre @ h # l))"
    using dis f Cons.prems(3) by (intro Cons.prems(2)) auto
  also have "\<dots> = filter (\<lambda>h. \<not> once h) (pre @ [h]) @ l"
  proof (cases "once h")
    case True
    have "filter (\<lambda>x. ?Q x \<and> x \<noteq> h) (pre @ h # l) = filter (\<lambda>x. x \<noteq> h) (filter ?Q (pre @ h # l))" by simp
    also have "\<dots> = filter (\<lambda>x. x \<noteq> h) (filter (\<lambda>h. \<not> once h) pre @ h # l)" unfolding f ..
    also have "\<dots> = filter (\<lambda>h. \<not> once h) pre @ l"
    proof -
      have "filter (\<lambda>x. x \<noteq> h) (filter (\<lambda>h. \<not> once h) pre) = filter (\<lambda>h. \<not> once h) pre"
        using dis by (intro filter_True) auto
      moreover have "filter (\<lambda>x. x \<noteq> h) l = l" using dis by (intro filter_True) auto
      ultimately show ?thesis by simp
    qed
    finally show ?thesis using True by simp
  next
    case False
    then show ?thesis using f by simp
  qed
  finally have now': "handlers_of (fst (run h st)) inst sig = filter (\<lambda>h. \<not> once h) (pre @ [h]) @ l" .
  have "emit_loop run inst sig (first_node (h # l)) st called =
      emit_loop run inst sig (first_node l) (fst (run h st)) (called @ [h_node h])"
    using at by (subst emit_loop.simps) (simp add: first_node_def)
  moreover have "\<exists>st'. emit_loop run inst sig (first_node l) (fst (run h st)) (called @ [h_node h]) =
      Some (Emitted, st', (called @ [h_node h]) @ map h_node l) \<and>
    handlers_of st' inst sig = filter (\<lambda>h. \<not> once h) ((pre @ [h]) @ l)"
  proof (rule Cons.IH)
    show "distinct (map h_node ((pre @ [h]) @ l))" using Cons.prems(1) by simp
    show "handlers_of (fst (run x st')) inst sig =
        (if once x then filter (\<lambda>y. Q y \<and> y \<noteq> x) ((pre @ [h]) @ l) else filter Q ((pre @ [h]) @ l))"
      if "x \<in> set ((pre @ [h]) @ l)" "Q x" "handlers_of st' inst sig = filter Q ((pre @ [h]) @ l)" for x st' Q
      using Cons.prems(2) [of x Q st'] that by simp
  qed (rule now')
  ultimately show ?case by simp
qed

lemma return_1_pure:
  assumes dist: "distinct (map h_node (pre @ l))" and st: "handlers_of st inst sig = pre @ l"
    and pure: "\<And>h. fst (run h st) = st"
  shows "emit_return_1_loop run inst sig (first_node l) st =
    Some (Emitted, st, case find (\<lambda>h. snd (run h st) \<noteq> 0) l of None \<Rightarrow> 0 | Some h \<Rightarrow> snd (run h st))"
  using assms
proof (induction l arbitrary: pre)
  case Nil
  then show ?case by (simp add: first_node_def emit_return_1_loop.simps)
next
  case (Cons h l)
  have at: "at_node (h_node h) (handlers_of st inst sig) = Some (h, first_node l)"
    using at_node_split [OF Cons.prems(1)] Cons.prems(2) by simp
  have "emit_return_1_loop run inst sig (first_node (h # l)) st =
      (if snd (run h st) \<noteq> 0 then Some (Emitted, st, snd (run h st))
       else emit_return_1_loop run inst sig (first_node l) st)"
    using at Cons.prems(3) by (subst emit_return_1_loop.simps) (simp add: first_node_def)
  with Cons.IH [of "pre @ [h]"] Cons.prems show ?case by simp
qed

subsection \<open>Properties\<close>

text \<open>All operations of the bus keep its invariant: in every signal the handlers are ordered by
  priority, counted, and have distinct ids below the next one.\<close>

theorem signals_wf_invariant:
  assumes "sig_wf st"
  shows "sig_wf (snd (purple_signal_register st inst sig)) \<and> sig_wf (purple_signal_unregister st inst sig) \<and>
    sig_wf (purple_signals_unregister_by_instance st inst) \<and>
    sig_wf (snd (purple_signal_connect_priority st inst sig handle func dat p)) \<and>
    sig_wf (snd (purple_signal_connect_priority_vargs st inst sig handle func dat p)) \<and>
    sig_wf (snd (purple_signal_connect_once st inst sig handle func dat)) \<and>
    sig_wf (purple_signal_disconnect st inst sig handle func) \<and>
    sig_wf (purple_signals_disconnect_by_handle st handle)"
  using assms by (simp add: register_wf unregister_wf unregister_instance_wf connect_wf disconnect_wf by_handle_wf
      purple_signal_connect_priority_def purple_signal_connect_priority_vargs_def
      purple_signal_connect_once_def purple_signal_connect_def)

theorem signals_wf_invariant_witness:
  "sig_wf (snd (purple_signal_connect_priority (snd (purple_signal_register purple_signals_init 1 ''s'')) 1 ''s'' 2 3 4 5))"
  using signals_wf_invariant [OF register_wf [OF init_wf, of 1 "''s''"], of 1 "''s''" 2 3 4 5] by blast

text \<open>C34: Connecting to a registered signal returns a nonzero id that no handler of the signal has, puts
  the handler behind those of lower priority and before those of the same or a higher one,
  and changes no other signal.\<close>

theorem signal_connect_position:
  assumes "sig_wf st" and "find_signal st inst sig = Some sd" and "inst \<noteq> 0" and "handle \<noteq> 0" and "func \<noteq> 0"
  shows "\<exists>h. fst (purple_signal_connect_priority st inst sig handle func dat p) = h_id h \<and> h_id h \<noteq> 0 \<and>
    h_id h \<notin> h_id ` set (sd_handlers sd) \<and> h_handle h = handle \<and> h_cb h = func \<and> h_data h = dat \<and> h_priority h = p \<and>
    handlers_of (snd (purple_signal_connect_priority st inst sig handle func dat p)) inst sig =
      takeWhile (\<lambda>x. h_priority x < p) (sd_handlers sd) @ h # dropWhile (\<lambda>x. h_priority x < p) (sd_handlers sd) \<and>
    (\<forall>i s. (i, s) \<noteq> (inst, sig) \<longrightarrow>
       find_signal (snd (purple_signal_connect_priority st inst sig handle func dat p)) i s = find_signal st i s)"
proof -
  let ?h = "\<lparr>h_node = next_node st, h_id = sd_next_handler_id sd, h_cb = func, h_handle = handle,
                        h_data = dat, h_use_vargs = False, h_priority = p\<rparr>"
  have wf: "sd_wf (next_node st) sd" using assms(1,2) by (rule sig_wfD)
  have f: "find_signal (st\<lparr>next_node := Suc (next_node st)\<rparr>) inst sig = Some sd" using assms(2) by simp
  show ?thesis using assms(2-) wf
    by (intro exI [of _ ?h])
       (auto simp: purple_signal_connect_priority_def signal_connect_common_def Let_def handlers_of_def
          find_signal_put [OF f] prio.insert_sorted_takeWhile sd_wf_def)
qed

theorem signal_connect_position_witness:
  "fst (purple_signal_connect_priority (snd (purple_signal_register purple_signals_init 1 ''s'')) 1 ''s'' 2 3 4 5) \<noteq> 0"
  using signal_connect_position [OF register_wf [OF init_wf, of 1 "''s''"], of 1 "''s''" _ 2 3 4 5]
  by (auto simp: find_register)

text \<open>C33: When each callback leaves the handlers of the signal as they are or takes off its own handler and
  no other, an emission calls every handler of the signal exactly once, in order of priority;
  afterwards exactly the handlers that took themselves off are gone.\<close>

theorem signal_emit_calls_all:
  assumes "sig_wf st" and "find_signal st inst sig = Some sd" and "inst \<noteq> 0"
    and run: "\<And>h st' Q. h \<in> set (sd_handlers sd) \<Longrightarrow> Q h \<Longrightarrow> handlers_of st' inst sig = filter Q (sd_handlers sd) \<Longrightarrow>
      handlers_of (fst (run h st')) inst sig =
        (if once h then filter (\<lambda>x. Q x \<and> x \<noteq> h) (sd_handlers sd) else filter Q (sd_handlers sd))"
  shows "\<exists>st'. purple_signal_emit run st inst sig = Some (Emitted, st', map h_node (sd_handlers sd)) \<and>
    handlers_of st' inst sig = filter (\<lambda>h. \<not> once h) (sd_handlers sd) \<and>
    sorted (map h_priority (sd_handlers sd))"
proof -
  have wf: "sd_wf (next_node st) sd" using assms(1,2) by (rule sig_wfD)
  have h: "handlers_of st inst sig = sd_handlers sd" using assms(2) by (simp add: handlers_of_def)
  show ?thesis using emit_loop_self [of "[]" "sd_handlers sd" inst sig run once st "[]"] wf run h assms(3)
    by (simp add: purple_signal_emit_def sd_wf_def)
qed

definition h_five :: handler where
  "h_five = \<lparr>h_node = 0, h_id = 1, h_cb = 5, h_handle = 6, h_data = 0, h_use_vargs = False, h_priority = 0\<rparr>"

definition h_seven :: handler where
  "h_seven = \<lparr>h_node = 1, h_id = 2, h_cb = 7, h_handle = 8, h_data = 0, h_use_vargs = False, h_priority = 3\<rparr>"

definition sd_example :: signal_data where
  "sd_example = \<lparr>sd_id = 1, sd_handlers = [h_five, h_seven], sd_handler_count = 2, sd_next_handler_id = 3\<rparr>"

definition bus_example :: signals where
  "bus_example = \<lparr>instance_table =
     [1 \<mapsto> \<lparr>in_signals = [''s'' \<mapsto> sd_example], in_signal_count = 1, in_next_signal_id = 2\<rparr>], next_node = 2\<rparr>"

lemma bus_example_wf: "sig_wf bus_example"
  by (auto simp: sig_wf_def bus_example_def find_signal_def sd_wf_def sd_example_def h_five_def h_seven_def
      split: if_splits)

lemma bus_example_find: "find_signal bus_example 1 ''s'' = Some sd_example"
  by (simp add: bus_example_def find_signal_def)

lemma handlers_example [simp]:
  "sd_handlers sd_example = [h_five, h_seven]" "h_cb h_five = 5" "h_cb h_seven = 7" "h_handle h_five = 6"
  "h_handle h_seven = 8" "h_node h_five = 0" "h_node h_seven = 1" "h_five \<noteq> h_seven"
  by (simp_all add: sd_example_def h_five_def h_seven_def)

text \<open>The callback 5 of the example disconnects itself.\<close>

definition run_example :: "handler \<Rightarrow> signals \<Rightarrow> signals \<times> ptr" where
  "run_example h st = (if h_cb h = 5 then purple_signal_disconnect st 1 ''s'' 6 5 else st, 0)"

lemma handlers_disconnect:
  "inst \<noteq> 0 \<Longrightarrow> handle \<noteq> 0 \<Longrightarrow> func \<noteq> 0 \<Longrightarrow> handlers_of (purple_signal_disconnect st inst sig handle func) inst sig =
     (if \<exists>h \<in> set (handlers_of st inst sig). h_handle h = handle \<and> h_cb h = func
      then remove_first (\<lambda>h. h_handle h = handle \<and> h_cb h = func) (handlers_of st inst sig)
      else handlers_of st inst sig)"
  by (auto simp: purple_signal_disconnect_def handlers_of_def find_signal_put split: option.split)

theorem signal_emit_calls_all_witness:
  "\<exists>st'. purple_signal_emit run_example bus_example 1 ''s'' = Some (Emitted, st', [0, 1]) \<and>
     handlers_of st' 1 ''s'' = [h_seven]"
proof -
  have run: "handlers_of (fst (run_example h st')) 1 ''s'' =
      (if h_cb h = 5 then filter (\<lambda>x. Q x \<and> x \<noteq> h) (sd_handlers sd_example) else filter Q (sd_handlers sd_example))"
    if "h \<in> set (sd_handlers sd_example)" "Q h" "handlers_of st' 1 ''s'' = filter Q (sd_handlers sd_example)" for h st' Q
    using that by (auto simp: run_example_def handlers_disconnect)
  show ?thesis
    using signal_emit_calls_all [where run = run_example and once = "\<lambda>h. h_cb h = 5",
        OF bus_example_wf bus_example_find _ run] by auto
qed

text \<open>C40: A callback that disconnects the handler following its own makes the emission walk into the
  freed list node: the pointer to the next handler is fetched before the callback runs.\<close>

theorem signal_emit_use_after_free:
  assumes "sig_wf st" and "find_signal st inst sig = Some sd" and "sd_handlers sd = a # b # l"
    and "inst \<noteq> 0" and "h_handle b \<noteq> 0" and "h_cb b \<noteq> 0" and "(h_handle a, h_cb a) \<noteq> (h_handle b, h_cb b)"
    and "run a st = (purple_signal_disconnect st inst sig (h_handle b) (h_cb b), r)"
  shows "\<exists>st'. purple_signal_emit run st inst sig = Some (Use_after_free, st', [h_node a])"
proof -
  have wf: "sd_wf (next_node st) sd" using assms(1,2) by (rule sig_wfD)
  have h: "handlers_of st inst sig = a # b # l" using assms(2,3) by (simp add: handlers_of_def)
  have "handlers_of (fst (run a st)) inst sig = a # l"
    using assms(4-) h by (auto simp: handlers_disconnect)
  moreover have "at_node (h_node b) (a # l) = None"
  proof -
    have "h_node b \<notin> h_node ` set (a # l)" using wf assms(3) by (auto simp: sd_wf_def)
    then show ?thesis by (rule at_node_None)
  qed
  ultimately have "emit_loop run inst sig (Some (h_node b)) (fst (run a st)) [h_node a] =
      Some (Use_after_free, fst (run a st), [h_node a])"
    by (subst emit_loop.simps) simp
  moreover have "emit_loop run inst sig (Some (h_node a)) st [] =
      emit_loop run inst sig (Some (h_node b)) (fst (run a st)) [h_node a]"
    using h by (subst emit_loop.simps) simp
  ultimately show ?thesis using assms(4) h by (simp add: purple_signal_emit_def first_node_def)
qed

theorem signal_emit_use_after_free_witness:
  "\<exists>st'. purple_signal_emit (\<lambda>h st. (purple_signal_disconnect st 1 ''s'' 8 7, 0)) bus_example 1 ''s'' =
     Some (Use_after_free, st', [0])"
  using signal_emit_use_after_free [where run = "\<lambda>h st. (purple_signal_disconnect st 1 ''s'' 8 7, 0)",
      OF bus_example_wf bus_example_find, of h_five h_seven "[]" 0] by simp

text \<open>An emission with a result stops at the first handler, in order of priority, that returns a
  non-null value.\<close>

theorem signal_emit_return_1_first:
  assumes "sig_wf st" and "find_signal st inst sig = Some sd" and "inst \<noteq> 0" and "\<And>h. fst (run h st) = st"
  shows "purple_signal_emit_return_1 run st inst sig =
    Some (Emitted, st, case find (\<lambda>h. snd (run h st) \<noteq> 0) (sd_handlers sd) of None \<Rightarrow> 0 | Some h \<Rightarrow> snd (run h st))"
proof -
  have wf: "sd_wf (next_node st) sd" using assms(1,2) by (rule sig_wfD)
  have h: "handlers_of st inst sig = sd_handlers sd" using assms(2) by (simp add: handlers_of_def)
  show ?thesis using return_1_pure [of "[]" "sd_handlers sd" st inst sig run] wf h assms(3,4)
    by (simp add: purple_signal_emit_return_1_def sd_wf_def)
qed

theorem signal_emit_return_1_first_witness:
  "purple_signal_emit_return_1 (\<lambda>h st. (st, if h_cb h = 7 then 42 else 0)) bus_example 1 ''s'' =
     Some (Emitted, bus_example, 42)"
  using signal_emit_return_1_first [where run = "\<lambda>h st. (st, if h_cb h = 7 then 42 else 0)",
      OF bus_example_wf bus_example_find] by simp

text \<open>The signal count decides when an instance is dropped, and it is not the number of signals:
  unregistering a name that was never registered drops an instance with a live signal and its
  handlers, and after registering a name twice, unregistering it leaves an empty instance.\<close>

theorem signal_count_desynchronised:
  assumes "inst \<noteq> 0" and "other \<noteq> sig"
  shows "instance_table (purple_signal_unregister (snd (purple_signal_register purple_signals_init inst sig)) inst other) inst = None \<and>
    find_signal (snd (purple_signal_register purple_signals_init inst sig)) inst sig \<noteq> None \<and>
    (\<exists>d. instance_table (purple_signal_unregister (snd (purple_signal_register
            (snd (purple_signal_register purple_signals_init inst sig)) inst sig)) inst sig) inst = Some d \<and>
         in_signals d = (\<lambda>_. None))"
  using assms by (simp add: purple_signal_unregister_def purple_signal_register_def purple_signals_init_def
      find_signal_def Let_def)

theorem signal_count_desynchronised_witness:
  "instance_table (purple_signal_unregister (snd (purple_signal_register purple_signals_init 1 ''a'')) 1 ''b'') 1 = None"
  using signal_count_desynchronised [of 1 "''b''" "''a''"] by simp

end
