(* ===== verification/Purple_Status.thy ===== *)
theory Purple_Status
  imports Purple_Base
begin

section \<open>Statuses and presences (\<open>libpurple/status.c\<close>)\<close>

text \<open>
  A status type lists the attributes a status carries; a presence (of an account, a buddy or a
  chat member) holds one status per type, of which at most one exclusive one is active.  The
  statuses of a presence are a list and a status is named by its position in it, the pointer
  \<open>active_status\<close> is such a position.  Prefs, logs, UI and protocol calls are events;
  \<open>status_env\<close> says which of them are there.  \<open>g_utf8_validate\<close> (GLib) and the translation of
  names are parameters.  A \<open>PurpleValue\<close> is the tagged union of \<open>value.c\<close>; only strings, ints
  and booleans are interpreted by \<open>status.c\<close>.  A datum of the attribute list is a pointer that
  is read as a string or as an int according to the attribute: its two readings.
\<close>

subsection \<open>Primitives\<close>

datatype PurpleStatusPrimitive =
    PURPLE_STATUS_UNSET | PURPLE_STATUS_OFFLINE | PURPLE_STATUS_AVAILABLE | PURPLE_STATUS_UNAVAILABLE
  | PURPLE_STATUS_INVISIBLE | PURPLE_STATUS_AWAY | PURPLE_STATUS_EXTENDED_AWAY | PURPLE_STATUS_MOBILE
  | PURPLE_STATUS_TUNE | PURPLE_STATUS_MOOD

definition status_primitive_map :: "(PurpleStatusPrimitive \<times> string \<times> string) list" where
  "status_primitive_map =
     [(PURPLE_STATUS_UNSET, ''unset'', ''Unset''),
      (PURPLE_STATUS_OFFLINE, ''offline'', ''Offline''),
      (PURPLE_STATUS_AVAILABLE, ''available'', ''Available''),
      (PURPLE_STATUS_UNAVAILABLE, ''unavailable'', ''Do not disturb''),
      (PURPLE_STATUS_INVISIBLE, ''invisible'', ''Invisible''),
      (PURPLE_STATUS_AWAY, ''away'', ''Away''),
      (PURPLE_STATUS_EXTENDED_AWAY, ''extended_away'', ''Extended away''),
      (PURPLE_STATUS_MOBILE, ''mobile'', ''Mobile''),
      (PURPLE_STATUS_TUNE, ''tune'', ''Listening to music''),
      (PURPLE_STATUS_MOOD, ''mood'', ''Feeling'')]"

definition purple_primitive_get_id_from_type :: "PurpleStatusPrimitive \<Rightarrow> string" where
  "purple_primitive_get_id_from_type type =
     (case find (\<lambda>(t, _, _). type = t) status_primitive_map of
        Some (_, i, _) \<Rightarrow> i | None \<Rightarrow> fst (snd (status_primitive_map ! 0)))"

definition purple_primitive_get_name_from_type :: "(string \<Rightarrow> string) \<Rightarrow> PurpleStatusPrimitive \<Rightarrow> string" where
  "purple_primitive_get_name_from_type gettext type =
     gettext (case find (\<lambda>(t, _, _). type = t) status_primitive_map of
        Some (_, _, n) \<Rightarrow> n | None \<Rightarrow> snd (snd (status_primitive_map ! 0)))"

definition purple_primitive_get_type_from_id :: "cstring \<Rightarrow> PurpleStatusPrimitive" where
  "purple_primitive_get_type_from_id i =
     (if i = None then PURPLE_STATUS_UNSET
      else case find (\<lambda>(_, j, _). purple_strequal i (Some j)) status_primitive_map of
        Some (t, _, _) \<Rightarrow> t | None \<Rightarrow> fst (status_primitive_map ! 0))"

text \<open>The value of the enum constant, which indexes the table of scores.\<close>

fun primitive_index :: "PurpleStatusPrimitive \<Rightarrow> nat" where
  "primitive_index PURPLE_STATUS_UNSET = 0"
| "primitive_index PURPLE_STATUS_OFFLINE = 1"
| "primitive_index PURPLE_STATUS_AVAILABLE = 2"
| "primitive_index PURPLE_STATUS_UNAVAILABLE = 3"
| "primitive_index PURPLE_STATUS_INVISIBLE = 4"
| "primitive_index PURPLE_STATUS_AWAY = 5"
| "primitive_index PURPLE_STATUS_EXTENDED_AWAY = 6"
| "primitive_index PURPLE_STATUS_MOBILE = 7"
| "primitive_index PURPLE_STATUS_TUNE = 8"
| "primitive_index PURPLE_STATUS_MOOD = 9"

lemma primitive_index_inject: "primitive_index p = primitive_index q \<longleftrightarrow> p = q"
  by (cases p; cases q) simp_all

instantiation PurpleStatusPrimitive :: linorder
begin

definition less_eq_PurpleStatusPrimitive :: "PurpleStatusPrimitive \<Rightarrow> PurpleStatusPrimitive \<Rightarrow> bool" where
  "p \<le> q \<longleftrightarrow> primitive_index p \<le> primitive_index q"

definition less_PurpleStatusPrimitive :: "PurpleStatusPrimitive \<Rightarrow> PurpleStatusPrimitive \<Rightarrow> bool" where
  "p < q \<longleftrightarrow> primitive_index p < primitive_index q"

instance
  by standard (auto simp: less_eq_PurpleStatusPrimitive_def less_PurpleStatusPrimitive_def primitive_index_inject)

end

subsection \<open>Values, attributes and status types\<close>

datatype PurpleValue =
    V_string cstring
  | V_int int
  | V_boolean int
  | V_other nat

definition purple_value_dup :: "(string \<Rightarrow> bool) \<Rightarrow> PurpleValue \<Rightarrow> PurpleValue" where
  "purple_value_dup utf8 v =
     (case v of V_string (Some s) \<Rightarrow> V_string (if utf8 s then Some s else None) | _ \<Rightarrow> v)"

record status_attr =
  at_id :: string
  at_name :: string
  value_type :: PurpleValue

record status_type =
  st_primitive :: PurpleStatusPrimitive
  st_id :: string
  st_name :: string
  primary_attr_id :: cstring
  saveable :: bool
  user_settable :: bool
  independent :: bool
  st_attrs :: "status_attr list"

definition purple_status_type_new_full ::
  "(string \<Rightarrow> string) \<Rightarrow> PurpleStatusPrimitive \<Rightarrow> cstring \<Rightarrow> cstring \<Rightarrow> bool \<Rightarrow> bool \<Rightarrow> bool \<Rightarrow> status_type option" where
  "purple_status_type_new_full gettext prim i n save settable indep =
     (if prim = PURPLE_STATUS_UNSET then None
      else Some \<lparr>st_primitive = prim,
                 st_id = (case i of Some s \<Rightarrow> s | None \<Rightarrow> purple_primitive_get_id_from_type prim),
                 st_name = (case n of Some s \<Rightarrow> s | None \<Rightarrow> purple_primitive_get_name_from_type gettext prim),
                 primary_attr_id = None, saveable = save, user_settable = settable, independent = indep,
                 st_attrs = []\<rparr>)"

definition purple_status_type_new ::
  "(string \<Rightarrow> string) \<Rightarrow> PurpleStatusPrimitive \<Rightarrow> cstring \<Rightarrow> cstring \<Rightarrow> bool \<Rightarrow> status_type option" where
  "purple_status_type_new gettext prim i n settable =
     (if prim = PURPLE_STATUS_UNSET then None
      else purple_status_type_new_full gettext prim i n True settable False)"

definition purple_status_type_set_primary_attr :: "status_type \<Rightarrow> cstring \<Rightarrow> status_type" where
  "purple_status_type_set_primary_attr t i = t\<lparr>primary_attr_id := i\<rparr>"

definition purple_status_type_add_attr :: "status_type \<Rightarrow> string \<Rightarrow> string \<Rightarrow> PurpleValue \<Rightarrow> status_type" where
  "purple_status_type_add_attr t i n v =
     t\<lparr>st_attrs := st_attrs t @ [\<lparr>at_id = i, at_name = n, value_type = v\<rparr>]\<rparr>"

fun purple_status_type_add_attrs :: "status_type \<Rightarrow> (string \<times> string \<times> PurpleValue) list \<Rightarrow> status_type" where
  "purple_status_type_add_attrs t [] = t"
| "purple_status_type_add_attrs t ((i, n, v) # l) =
     purple_status_type_add_attrs (purple_status_type_add_attr t i n v) l"

definition purple_status_type_new_with_attrs ::
  "(string \<Rightarrow> string) \<Rightarrow> PurpleStatusPrimitive \<Rightarrow> cstring \<Rightarrow> cstring \<Rightarrow> bool \<Rightarrow> bool \<Rightarrow> bool \<Rightarrow>
   string \<times> string \<times> PurpleValue \<Rightarrow> (string \<times> string \<times> PurpleValue) list \<Rightarrow> status_type option" where
  "purple_status_type_new_with_attrs gettext prim i n save settable indep attr others =
     map_option (\<lambda>t. case attr of (ai, an, v) \<Rightarrow> purple_status_type_add_attrs (purple_status_type_add_attr t ai an v) others)
       (purple_status_type_new_full gettext prim i n save settable indep)"

definition purple_status_type_is_exclusive :: "status_type \<Rightarrow> bool" where
  "purple_status_type_is_exclusive t = (\<not> independent t)"

definition purple_status_type_is_available :: "status_type \<Rightarrow> bool" where
  "purple_status_type_is_available t = (st_primitive t = PURPLE_STATUS_AVAILABLE)"

definition purple_status_type_get_attr :: "status_type \<Rightarrow> string \<Rightarrow> status_attr option" where
  "purple_status_type_get_attr t i = find (\<lambda>a. purple_strequal (Some (at_id a)) (Some i)) (st_attrs t)"

definition purple_status_type_find_with_id :: "status_type list \<Rightarrow> cstring \<Rightarrow> status_type option" where
  "purple_status_type_find_with_id ts i =
     (if i = None then None else find (\<lambda>t. purple_strequal i (Some (st_id t))) ts)"

subsection \<open>Statuses\<close>

record status =
  s_type :: status_type
  active :: bool
  attr_values :: "string \<rightharpoonup> PurpleValue"

definition purple_status_new :: "(string \<Rightarrow> bool) \<Rightarrow> status_type \<Rightarrow> status" where
  "purple_status_new utf8 t =
     \<lparr>s_type = t, active = False,
      attr_values = foldl (\<lambda>m a. m(at_id a \<mapsto> purple_value_dup utf8 (value_type a))) Map.empty (st_attrs t)\<rparr>"

definition purple_status_get_id :: "status \<Rightarrow> string" where
  "purple_status_get_id s = st_id (s_type s)"

definition purple_status_is_exclusive :: "status \<Rightarrow> bool" where
  "purple_status_is_exclusive s = purple_status_type_is_exclusive (s_type s)"

definition purple_status_is_available :: "status \<Rightarrow> bool" where
  "purple_status_is_available s = purple_status_type_is_available (s_type s)"

definition purple_status_is_online :: "status \<Rightarrow> bool" where
  "purple_status_is_online s =
     (st_primitive (s_type s) \<noteq> PURPLE_STATUS_UNSET \<and> st_primitive (s_type s) \<noteq> PURPLE_STATUS_OFFLINE)"

definition purple_status_get_attr_value :: "status \<Rightarrow> string \<Rightarrow> PurpleValue option" where
  "purple_status_get_attr_value s i = attr_values s i"

definition purple_status_get_attr_boolean :: "status \<Rightarrow> string \<Rightarrow> int" where
  "purple_status_get_attr_boolean s i =
     (case purple_status_get_attr_value s i of Some (V_boolean b) \<Rightarrow> b | _ \<Rightarrow> 0)"

definition purple_status_get_attr_int :: "status \<Rightarrow> string \<Rightarrow> int" where
  "purple_status_get_attr_int s i =
     (case purple_status_get_attr_value s i of Some (V_int n) \<Rightarrow> n | _ \<Rightarrow> 0)"

definition purple_status_get_attr_string :: "status \<Rightarrow> string \<Rightarrow> cstring" where
  "purple_status_get_attr_string s i =
     (case purple_status_get_attr_value s i of Some (V_string str) \<Rightarrow> str | _ \<Rightarrow> None)"

definition purple_status_set_attr_boolean :: "status \<Rightarrow> string \<Rightarrow> int \<Rightarrow> status" where
  "purple_status_set_attr_boolean s i b =
     (case purple_status_get_attr_value s i of
        Some (V_boolean _) \<Rightarrow> s\<lparr>attr_values := (attr_values s)(i \<mapsto> V_boolean b)\<rparr> | _ \<Rightarrow> s)"

definition purple_status_set_attr_int :: "status \<Rightarrow> string \<Rightarrow> int \<Rightarrow> status" where
  "purple_status_set_attr_int s i n =
     (case purple_status_get_attr_value s i of
        Some (V_int _) \<Rightarrow> s\<lparr>attr_values := (attr_values s)(i \<mapsto> V_int n)\<rparr> | _ \<Rightarrow> s)"

text \<open>\<open>purple_value_set_string\<close> refuses what is not UTF-8.\<close>

definition purple_status_set_attr_string :: "(string \<Rightarrow> bool) \<Rightarrow> status \<Rightarrow> string \<Rightarrow> cstring \<Rightarrow> status" where
  "purple_status_set_attr_string utf8 s i str =
     (case purple_status_get_attr_value s i of
        Some (V_string _) \<Rightarrow>
          if (case str of None \<Rightarrow> True | Some x \<Rightarrow> utf8 x)
          then s\<lparr>attr_values := (attr_values s)(i \<mapsto> V_string str)\<rparr> else s
      | _ \<Rightarrow> s)"

record gdata =
  as_string :: cstring
  as_int :: int

fun set_specified ::
  "(string \<Rightarrow> bool) \<Rightarrow> (string \<times> gdata) list \<Rightarrow> status \<Rightarrow> string list \<Rightarrow> bool \<Rightarrow> status \<times> string list \<times> bool" where
  "set_specified utf8 [] s ids changed = (s, ids, changed)"
| "set_specified utf8 ((i, d) # l) s ids changed =
     (case purple_status_get_attr_value s i of
        None \<Rightarrow> set_specified utf8 l s ids changed
      | Some (V_string str) \<Rightarrow>
          if purple_strequal (as_string d) str then set_specified utf8 l s (i # ids) changed
          else set_specified utf8 l (purple_status_set_attr_string utf8 s i (as_string d)) (i # ids) True
      | Some (V_int n) \<Rightarrow>
          if as_int d = n then set_specified utf8 l s (i # ids) changed
          else set_specified utf8 l (purple_status_set_attr_int s i (as_int d)) (i # ids) True
      | Some (V_boolean b) \<Rightarrow>
          if as_int d = b then set_specified utf8 l s (i # ids) changed
          else set_specified utf8 l (purple_status_set_attr_boolean s i (as_int d)) (i # ids) True
      | Some (V_other _) \<Rightarrow> set_specified utf8 l s (i # ids) changed)"

fun reset_unspecified ::
  "(string \<Rightarrow> bool) \<Rightarrow> status_attr list \<Rightarrow> string list \<Rightarrow> status \<Rightarrow> bool \<Rightarrow> status \<times> bool" where
  "reset_unspecified utf8 [] ids s changed = (s, changed)"
| "reset_unspecified utf8 (a # l) ids s changed =
     (if at_id a \<in> set ids then reset_unspecified utf8 l ids s changed
      else case value_type a of
             V_string dflt \<Rightarrow>
               if purple_status_get_attr_string s (at_id a) = dflt then reset_unspecified utf8 l ids s changed
               else reset_unspecified utf8 l ids (purple_status_set_attr_string utf8 s (at_id a) dflt) True
           | V_int dflt \<Rightarrow>
               if purple_status_get_attr_int s (at_id a) = dflt then reset_unspecified utf8 l ids s changed
               else reset_unspecified utf8 l ids (purple_status_set_attr_int s (at_id a) dflt) True
           | V_boolean dflt \<Rightarrow>
               if purple_status_get_attr_boolean s (at_id a) = dflt then reset_unspecified utf8 l ids s changed
               else reset_unspecified utf8 l ids (purple_status_set_attr_boolean s (at_id a) dflt) True
           | V_other _ \<Rightarrow> reset_unspecified utf8 l ids s True)"

subsection \<open>Presences\<close>

datatype PurplePresenceContext =
    PURPLE_PRESENCE_CONTEXT_UNSET | PURPLE_PRESENCE_CONTEXT_ACCOUNT
  | PURPLE_PRESENCE_CONTEXT_CONV | PURPLE_PRESENCE_CONTEXT_BUDDY

text \<open>The calls a presence makes into the rest of the library, in order.\<close>

datatype status_event =
    Prpl_change_account_status "nat option" nat
  | Ui_status_changed nat
  | Log_status "nat option" nat bool
  | Log_idle bool
  | Buddy_idle_changed bool bool
  | Invalidate_priority_buddy
  | Ui_update_buddy
  | Prpl_set_idle int

record status_env =
  utf8_validate :: "string \<Rightarrow> bool"
  account_enabled :: bool
  ui_has_status_changed :: bool
  log_system :: bool
  has_log :: bool
  ui_has_update :: bool
  prpl_has_set_idle :: bool

record presence =
  p_addr :: nat
  p_context :: PurplePresenceContext
  idle :: bool
  idle_time :: int
  login_time :: int
  statuses :: "status list"
  status_table :: "string \<rightharpoonup> nat"
  active_status :: "nat option"
  events :: "status_event list"

definition purple_presence_new :: "nat \<Rightarrow> PurplePresenceContext \<Rightarrow> presence option" where
  "purple_presence_new addr ctx =
     (if ctx = PURPLE_PRESENCE_CONTEXT_UNSET then None
      else Some \<lparr>p_addr = addr, p_context = ctx, idle = False, idle_time = 0, login_time = 0, statuses = [],
                 status_table = Map.empty, active_status = None, events = []\<rparr>)"

definition purple_prpl_get_statuses :: "(string \<Rightarrow> bool) \<Rightarrow> status_type list \<Rightarrow> status list" where
  "purple_prpl_get_statuses utf8 types = rev (foldl (\<lambda>l t. purple_status_new utf8 t # l) [] types)"

definition purple_presence_new_for_account :: "(string \<Rightarrow> bool) \<Rightarrow> nat \<Rightarrow> status_type list \<Rightarrow> presence option" where
  "purple_presence_new_for_account utf8 addr types =
     map_option (\<lambda>p. p\<lparr>statuses := purple_prpl_get_statuses utf8 types\<rparr>)
       (purple_presence_new addr PURPLE_PRESENCE_CONTEXT_ACCOUNT)"

definition purple_presence_new_for_conv :: "nat \<Rightarrow> presence option" where
  "purple_presence_new_for_conv addr = purple_presence_new addr PURPLE_PRESENCE_CONTEXT_CONV"

definition purple_presence_new_for_buddy :: "(string \<Rightarrow> bool) \<Rightarrow> nat \<Rightarrow> status_type list \<Rightarrow> presence option" where
  "purple_presence_new_for_buddy utf8 addr types =
     map_option (\<lambda>p. p\<lparr>statuses := purple_prpl_get_statuses utf8 types\<rparr>)
       (purple_presence_new addr PURPLE_PRESENCE_CONTEXT_BUDDY)"

definition notify_buddy_status_update :: "status_env \<Rightarrow> nat option \<Rightarrow> nat \<Rightarrow> presence \<Rightarrow> presence" where
  "notify_buddy_status_update env old new p =
     (if log_system env \<and> has_log env
      then p\<lparr>events := events p @ [Log_status old new (active (statuses p ! new))]\<rparr> else p)"

definition notify_status_update :: "status_env \<Rightarrow> presence \<Rightarrow> nat option \<Rightarrow> nat \<Rightarrow> presence" where
  "notify_status_update env p old new =
     (case p_context p of
        PURPLE_PRESENCE_CONTEXT_ACCOUNT \<Rightarrow>
          let p = (if account_enabled env
                   then p\<lparr>events := events p @ [Prpl_change_account_status old new]\<rparr> else p)
          in if ui_has_status_changed env then p\<lparr>events := events p @ [Ui_status_changed new]\<rparr> else p
      | PURPLE_PRESENCE_CONTEXT_BUDDY \<Rightarrow> notify_buddy_status_update env old new p
      | _ \<Rightarrow> p)"

definition status_has_changed :: "status_env \<Rightarrow> presence \<Rightarrow> nat \<Rightarrow> presence" where
  "status_has_changed env p i =
     (if purple_status_is_exclusive (statuses p ! i)
      then let old = active_status p;
               p = (case old of
                      None \<Rightarrow> p
                    | Some j \<Rightarrow> if j \<noteq> i then p\<lparr>statuses := (statuses p)[j := (statuses p ! j)\<lparr>active := False\<rparr>]\<rparr>
                               else p);
               p = p\<lparr>active_status := Some i\<rparr>
           in notify_status_update env p old i
      else notify_status_update env p None i)"

text \<open>A position past the end of the list stands for the \<open>NULL\<close> status.\<close>

definition purple_status_set_active_with_attrs_list ::
  "status_env \<Rightarrow> presence \<Rightarrow> nat \<Rightarrow> bool \<Rightarrow> (string \<times> gdata) list \<Rightarrow> presence" where
  "purple_status_set_active_with_attrs_list env p i act attrs =
     (if length (statuses p) \<le> i then p
      else if \<not> act \<and> purple_status_is_exclusive (statuses p ! i) then p
      else
        let changed = (active (statuses p ! i) \<noteq> act);
            s = (statuses p ! i)\<lparr>active := act\<rparr>;
            (s, ids, changed) = set_specified (utf8_validate env) attrs s [] changed;
            (s, changed) = reset_unspecified (utf8_validate env) (st_attrs (s_type s)) ids s changed;
            p = p\<lparr>statuses := (statuses p)[i := s]\<rparr>
        in if \<not> changed then p else status_has_changed env p i)"

definition purple_status_set_active :: "status_env \<Rightarrow> presence \<Rightarrow> nat \<Rightarrow> bool \<Rightarrow> presence" where
  "purple_status_set_active env p i act = purple_status_set_active_with_attrs_list env p i act []"

definition purple_presence_add_status :: "presence \<Rightarrow> status \<Rightarrow> presence" where
  "purple_presence_add_status p s =
     p\<lparr>statuses := statuses p @ [s],
       status_table := (status_table p)(purple_status_get_id s \<mapsto> length (statuses p))\<rparr>"

definition purple_presence_add_list :: "presence \<Rightarrow> status list \<Rightarrow> presence" where
  "purple_presence_add_list p l = foldl purple_presence_add_status p l"

text \<open>The search fills the table, so it returns the presence too.\<close>

fun status_index :: "string \<Rightarrow> status list \<Rightarrow> nat \<Rightarrow> nat option" where
  "status_index i [] n = None"
| "status_index i (s # l) n =
     (if purple_strequal (Some i) (Some (purple_status_get_id s)) then Some n else status_index i l (n + 1))"

definition purple_presence_get_status :: "presence \<Rightarrow> string \<Rightarrow> nat option \<times> presence" where
  "purple_presence_get_status p i =
     (case status_table p i of
        Some n \<Rightarrow> (Some n, p)
      | None \<Rightarrow>
          (case status_index i (statuses p) 0 of
             None \<Rightarrow> (None, p)
           | Some n \<Rightarrow>
               (Some n, p\<lparr>status_table := (status_table p)(purple_status_get_id (statuses p ! n) \<mapsto> n)\<rparr>)))"

definition purple_presence_set_status_active :: "status_env \<Rightarrow> presence \<Rightarrow> cstring \<Rightarrow> bool \<Rightarrow> presence" where
  "purple_presence_set_status_active env p sid act =
     (case sid of
        None \<Rightarrow> p
      | Some i \<Rightarrow>
          (case purple_presence_get_status p i of
             (None, p) \<Rightarrow> p
           | (Some n, p) \<Rightarrow>
               if purple_status_is_exclusive (statuses p ! n) \<and> \<not> act then p
               else purple_status_set_active env p n act))"

definition purple_presence_switch_status :: "status_env \<Rightarrow> presence \<Rightarrow> cstring \<Rightarrow> presence" where
  "purple_presence_switch_status env p sid = purple_presence_set_status_active env p sid True"

definition purple_presence_get_active_status :: "presence \<Rightarrow> status option" where
  "purple_presence_get_active_status p = map_option (\<lambda>i. statuses p ! i) (active_status p)"

definition purple_presence_is_online :: "presence \<Rightarrow> bool" where
  "purple_presence_is_online p =
     (case purple_presence_get_active_status p of None \<Rightarrow> False | Some s \<Rightarrow> purple_status_is_online s)"

definition purple_presence_is_idle :: "presence \<Rightarrow> bool" where
  "purple_presence_is_idle p = (purple_presence_is_online p \<and> idle p)"

definition purple_presence_is_available :: "presence \<Rightarrow> bool" where
  "purple_presence_is_available p =
     ((case purple_presence_get_active_status p of None \<Rightarrow> False | Some s \<Rightarrow> purple_status_is_available s) \<and>
      \<not> purple_presence_is_idle p)"

definition purple_presence_is_status_active :: "presence \<Rightarrow> string \<Rightarrow> bool" where
  "purple_presence_is_status_active p i =
     (case purple_presence_get_status p i of (None, _) \<Rightarrow> False | (Some n, p) \<Rightarrow> active (statuses p ! n))"

definition purple_presence_is_status_primitive_active :: "presence \<Rightarrow> PurpleStatusPrimitive \<Rightarrow> bool" where
  "purple_presence_is_status_primitive_active p prim =
     (if prim = PURPLE_STATUS_UNSET then False
      else \<exists>s \<in> set (statuses p). st_primitive (s_type s) = prim \<and> active s)"

definition purple_presence_set_login_time :: "presence \<Rightarrow> int \<Rightarrow> presence" where
  "purple_presence_set_login_time p t = (if login_time p = t then p else p\<lparr>login_time := t\<rparr>)"

definition purple_presence_get_login_time :: "presence \<Rightarrow> int" where
  "purple_presence_get_login_time p = (if purple_presence_is_online p then login_time p else 0)"

definition update_buddy_idle :: "status_env \<Rightarrow> bool \<Rightarrow> bool \<Rightarrow> presence \<Rightarrow> presence" where
  "update_buddy_idle env old_idle new_idle p =
     (let p = (if old_idle \<noteq> new_idle \<and> log_system env \<and> has_log env
               then p\<lparr>events := events p @ [Log_idle new_idle]\<rparr> else p);
          p = (if old_idle \<noteq> new_idle
               then p\<lparr>events := events p @ [Buddy_idle_changed old_idle new_idle]\<rparr> else p);
          p = p\<lparr>events := events p @ [Invalidate_priority_buddy]\<rparr>
      in if ui_has_update env then p\<lparr>events := events p @ [Ui_update_buddy]\<rparr> else p)"

definition purple_presence_set_idle :: "status_env \<Rightarrow> int \<Rightarrow> presence \<Rightarrow> bool \<Rightarrow> int \<Rightarrow> presence" where
  "purple_presence_set_idle env current_time p new_idle t =
     (if idle p = new_idle \<and> idle_time p = t then p
      else
        let old_idle = idle p;
            p = p\<lparr>idle := new_idle, idle_time := (if new_idle then t else 0)\<rparr>
        in case p_context p of
             PURPLE_PRESENCE_CONTEXT_BUDDY \<Rightarrow> update_buddy_idle env old_idle new_idle p
           | PURPLE_PRESENCE_CONTEXT_ACCOUNT \<Rightarrow>
               let p = (if log_system env \<and> has_log env
                        then p\<lparr>events := events p @ [Log_idle new_idle]\<rparr> else p)
               in if prpl_has_set_idle env
                  then p\<lparr>events := events p @ [Prpl_set_idle (if new_idle then current_time - t else 0)]\<rparr>
                  else p
           | _ \<Rightarrow> p)"

subsection \<open>Scores\<close>

definition primitive_scores :: "int list" where
  "primitive_scores = [0, -500, 100, -75, -50, -100, -200, -400, 0, 0, -10, -5, 10]"

definition SCORE_IDLE :: nat where "SCORE_IDLE = 9"
definition SCORE_IDLE_TIME :: nat where "SCORE_IDLE_TIME = 10"
definition SCORE_OFFLINE_MESSAGE :: nat where "SCORE_OFFLINE_MESSAGE = 11"

definition score_pref_changed_cb :: "int list \<Rightarrow> nat \<Rightarrow> int \<Rightarrow> int list" where
  "score_pref_changed_cb scores index v = scores[index := v]"

definition status_score :: "int list \<Rightarrow> status \<Rightarrow> int" where
  "status_score scores s = (if active s then scores ! primitive_index (st_primitive (s_type s)) else 0)"

definition purple_status_compare :: "int list \<Rightarrow> status option \<Rightarrow> status option \<Rightarrow> int" where
  "purple_status_compare scores s1 s2 =
     (case (s1, s2) of
        (None, None) \<Rightarrow> 0
      | (None, Some _) \<Rightarrow> 1
      | (Some _, None) \<Rightarrow> - 1
      | (Some a, Some b) \<Rightarrow>
          let score1 = status_score scores a; score2 = status_score scores b
          in if score1 > score2 then - 1 else if score1 < score2 then 1 else 0)"

text \<open>
  What the account of a presence adds: its \<open>score\<close> setting, and for the buddy of the presence
  whether the protocol can leave offline messages.
\<close>

record score_env =
  account_score :: "nat \<Rightarrow> int"
  supports_offline_message :: "nat \<Rightarrow> bool"

fun statuses_score :: "int list \<Rightarrow> bool \<Rightarrow> status list \<Rightarrow> int" where
  "statuses_score scores offl [] = 0"
| "statuses_score scores offl (s # l) =
     (if active s
      then scores ! primitive_index (st_primitive (s_type s)) +
           (if \<not> purple_status_is_online s \<and> offl then scores ! SCORE_OFFLINE_MESSAGE else 0)
      else 0) + statuses_score scores offl l"

definition purple_presence_compute_score :: "score_env \<Rightarrow> int list \<Rightarrow> presence \<Rightarrow> int" where
  "purple_presence_compute_score senv scores p =
     statuses_score scores
       (p_context p = PURPLE_PRESENCE_CONTEXT_BUDDY \<and> supports_offline_message senv (p_addr p)) (statuses p) +
     (if p_context p = PURPLE_PRESENCE_CONTEXT_ACCOUNT \<or> p_context p = PURPLE_PRESENCE_CONTEXT_BUDDY
      then account_score senv (p_addr p) else 0) +
     (if purple_presence_is_idle p then scores ! SCORE_IDLE else 0)"

text \<open>The clock is read twice, once for each presence.\<close>

definition purple_presence_compare ::
  "score_env \<Rightarrow> int list \<Rightarrow> int \<Rightarrow> int \<Rightarrow> presence option \<Rightarrow> presence option \<Rightarrow> int" where
  "purple_presence_compare senv scores time1 time2 q1 q2 =
     (case (q1, q2) of
        (None, None) \<Rightarrow> 0
      | (None, Some _) \<Rightarrow> 1
      | (Some _, None) \<Rightarrow> - 1
      | (Some p1, Some p2) \<Rightarrow>
          if p_addr p1 = p_addr p2 then 0
          else if purple_presence_is_online p1 \<and> \<not> purple_presence_is_online p2 then - 1
          else if purple_presence_is_online p2 \<and> \<not> purple_presence_is_online p1 then 1
          else
            let score1 = purple_presence_compute_score senv scores p1;
                score2 = purple_presence_compute_score senv scores p2;
                idle_time_1 = time1 - idle_time p1;
                idle_time_2 = time2 - idle_time p2;
                score1 = (if idle_time_1 > idle_time_2 then score1 + scores ! SCORE_IDLE_TIME else score1);
                score2 = (if idle_time_1 < idle_time_2 then score2 + scores ! SCORE_IDLE_TIME else score2)
            in if score1 < score2 then 1 else if score1 > score2 then - 1 else 0)"

subsection \<open>Primitives and values\<close>

lemma primitive_id_roundtrip:
  "purple_primitive_get_type_from_id (Some (purple_primitive_get_id_from_type p)) = p"
  by (cases p) (simp_all add: purple_primitive_get_type_from_id_def purple_primitive_get_id_from_type_def
      status_primitive_map_def)

lemma primitive_unknown_id:
  "i \<notin> (\<lambda>(_, j, _). j) ` set status_primitive_map \<Longrightarrow>
   purple_primitive_get_type_from_id (Some i) = PURPLE_STATUS_UNSET"
  by (auto simp: purple_primitive_get_type_from_id_def status_primitive_map_def)

text \<open>The comparison of statuses orders by their score, best first.\<close>

interpretation status_rank: ranked_cmp "\<lambda>a b. purple_status_compare scores (Some a) (Some b)" "\<lambda>s. - status_score scores s"
  for scores
  by unfold_locales (simp add: purple_status_compare_def Let_def)

subsection \<open>Which statuses are active\<close>

text \<open>
  The abstraction of a presence is the set of its active statuses; the invariant says that
  \<open>active_status\<close> is the exclusive one among them.
\<close>

definition actives :: "presence \<Rightarrow> nat set" where
  "actives p = {i. i < length (statuses p) \<and> active (statuses p ! i)}"

definition exclusive_at :: "presence \<Rightarrow> nat \<Rightarrow> bool" where
  "exclusive_at p i = purple_status_is_exclusive (statuses p ! i)"

definition pres_wf :: "presence \<Rightarrow> bool" where
  "pres_wf p \<longleftrightarrow>
     (\<forall>i \<in> actives p. exclusive_at p i \<longrightarrow> active_status p = Some i) \<and>
     (\<forall>i. active_status p = Some i \<longrightarrow> i \<in> actives p \<and> exclusive_at p i)"

lemma set_attr_fields [simp]:
  "s_type (purple_status_set_attr_string u s i x) = s_type s"
  "active (purple_status_set_attr_string u s i x) = active s"
  "s_type (purple_status_set_attr_int s i n) = s_type s"
  "active (purple_status_set_attr_int s i n) = active s"
  "s_type (purple_status_set_attr_boolean s i b) = s_type s"
  "active (purple_status_set_attr_boolean s i b) = active s"
  by (simp_all add: purple_status_set_attr_string_def purple_status_set_attr_int_def
      purple_status_set_attr_boolean_def split: option.split PurpleValue.split)

lemma set_specified_fields:
  "s_type (fst (set_specified u l s ids ch)) = s_type s \<and> active (fst (set_specified u l s ids ch)) = active s"
  by (induction u l s ids ch rule: set_specified.induct) (simp_all split: option.split PurpleValue.split)

lemma reset_unspecified_fields:
  "s_type (fst (reset_unspecified u l ids s ch)) = s_type s \<and> active (fst (reset_unspecified u l ids s ch)) = active s"
  by (induction u l ids s ch rule: reset_unspecified.induct) (simp_all split: PurpleValue.split)

lemma set_specified_changed: "ch \<Longrightarrow> snd (snd (set_specified u l s ids ch))"
  by (induction u l s ids ch rule: set_specified.induct) (simp_all split: option.split PurpleValue.split)

lemma reset_unspecified_changed: "ch \<Longrightarrow> snd (reset_unspecified u l ids s ch)"
  by (induction u l ids s ch rule: reset_unspecified.induct) (simp_all split: PurpleValue.split)

lemma notify_fields [simp]:
  "statuses (notify_status_update env p old new) = statuses p"
  "active_status (notify_status_update env p old new) = active_status p"
  by (simp_all add: notify_status_update_def notify_buddy_status_update_def Let_def
      split: PurplePresenceContext.split)

text \<open>
  What setting a status does to the presence: the status itself is replaced, and unless
  nothing changed the presence is told.
\<close>

definition new_status :: "(string \<Rightarrow> bool) \<Rightarrow> bool \<Rightarrow> (string \<times> gdata) list \<Rightarrow> status \<Rightarrow> status \<times> bool" where
  "new_status u act attrs s =
     (let r = set_specified u attrs (s\<lparr>active := act\<rparr>) [] (active s \<noteq> act)
      in reset_unspecified u (st_attrs (s_type s)) (fst (snd r)) (fst r) (snd (snd r)))"

lemma new_status_fields [simp]:
  "s_type (fst (new_status u act attrs s)) = s_type s"
  "active (fst (new_status u act attrs s)) = act"
  using set_specified_fields [of u attrs "s\<lparr>active := act\<rparr>"] reset_unspecified_fields
  by (simp_all add: new_status_def Let_def)

lemma new_status_unchanged: "\<not> snd (new_status u act attrs s) \<Longrightarrow> active s = act"
  using reset_unspecified_changed [OF set_specified_changed]
  by (cases "active s = act") (simp_all add: new_status_def Let_def)

lemma set_active_eq:
  assumes "i < length (statuses p)" and "act \<or> \<not> exclusive_at p i"
  shows "purple_status_set_active_with_attrs_list env p i act attrs =
    (let r = new_status (utf8_validate env) act attrs (statuses p ! i);
         p' = p\<lparr>statuses := (statuses p)[i := fst r]\<rparr>
     in if snd r then status_has_changed env p' i else p')"
proof -
  have "\<not> (\<not> act \<and> purple_status_is_exclusive (statuses p ! i))"
    using assms(2) by (simp add: exclusive_at_def)
  moreover have "s_type (fst (set_specified u attrs ((statuses p ! i)\<lparr>active := act\<rparr>) ids ch)) = s_type (statuses p ! i)"
    for u ids ch using set_specified_fields [of u attrs "(statuses p ! i)\<lparr>active := act\<rparr>"] by simp
  ultimately show ?thesis
    using assms(1)
    by (simp only: purple_status_set_active_with_attrs_list_def new_status_def Let_def split_beta) simp
qed

lemma set_active_refused:
  "length (statuses p) \<le> i \<or> \<not> act \<and> exclusive_at p i \<Longrightarrow>
   purple_status_set_active_with_attrs_list env p i act attrs = p"
  by (auto simp: purple_status_set_active_with_attrs_list_def exclusive_at_def)

lemma has_changed_statuses:
  "statuses (status_has_changed env p i) =
     (if exclusive_at p i
      then case active_status p of
             Some j \<Rightarrow> if j \<noteq> i then (statuses p)[j := (statuses p ! j)\<lparr>active := False\<rparr>] else statuses p
           | None \<Rightarrow> statuses p
      else statuses p)"
  "active_status (status_has_changed env p i) = (if exclusive_at p i then Some i else active_status p)"
  by (simp_all add: status_has_changed_def exclusive_at_def Let_def split: option.split)

lemma exclusive_at_type: "s_type (statuses q ! i) = s_type (statuses p ! i) \<Longrightarrow> exclusive_at q i = exclusive_at p i"
  by (simp add: exclusive_at_def purple_status_is_exclusive_def)

lemma pres_wfD:
  assumes "pres_wf p"
  shows "j \<in> actives p \<Longrightarrow> exclusive_at p j \<Longrightarrow> active_status p = Some j"
    and "active_status p = Some j \<Longrightarrow> j \<in> actives p \<and> exclusive_at p j"
  using assms unfolding pres_wf_def by blast+

text \<open>The presence after a status was set, status by status.\<close>

lemma set_active_pointwise:
  fixes env :: status_env and p :: presence and i :: nat and act :: bool and attrs :: "(string \<times> gdata) list"
  defines "p' \<equiv> purple_status_set_active_with_attrs_list env p i act attrs"
    and "r \<equiv> new_status (utf8_validate env) act attrs (statuses p ! i)"
  assumes wf: "pres_wf p" and i: "i < length (statuses p)" and ok: "act \<or> \<not> exclusive_at p i"
  shows "active_status p' = (if exclusive_at p i then Some i else active_status p)"
    and "length (statuses p') = length (statuses p)"
    and "j < length (statuses p) \<Longrightarrow> exclusive_at p' j = exclusive_at p j"
    and "j \<in> actives p' \<longleftrightarrow> (if j = i then act
      else j \<in> actives p \<and> \<not> (snd r \<and> exclusive_at p i \<and> active_status p = Some j))"
    and "\<not> snd r \<Longrightarrow> exclusive_at p i \<Longrightarrow> active_status p = Some i"
proof -
  have ty: "s_type (fst r) = s_type (statuses p ! i)" "active (fst r) = act" by (simp_all add: r_def)
  define p1 where "p1 = p\<lparr>statuses := (statuses p)[i := fst r]\<rparr>"
  have eq: "p' = (if snd r then status_has_changed env p1 i else p1)"
    unfolding p'_def set_active_eq [OF i ok] by (simp add: r_def p1_def Let_def)
  have ex1: "exclusive_at p1 j = exclusive_at p j" for j
    by (rule exclusive_at_type) (use ty i in \<open>simp add: p1_def nth_list_update\<close>)
  have p1: "active_status p1 = active_status p" "statuses p1 = (statuses p)[i := fst r]"
    by (simp_all add: p1_def)
  have same: "\<not> snd r \<Longrightarrow> active (statuses p ! i) = act"
    unfolding r_def by (rule new_status_unchanged)
  have prev: "i \<in> actives p \<Longrightarrow> exclusive_at p i \<Longrightarrow> active_status p = Some i"
    by (rule pres_wfD [OF wf])
  have act': "active_status p' = (if exclusive_at p i then Some i else active_status p)"
  proof (cases "snd r")
    case True
    then show ?thesis by (simp add: eq has_changed_statuses ex1 p1)
  next
    case False
    have "active_status p = Some i" if "exclusive_at p i"
      using prev same [OF False] ok i that by (simp add: actives_def)
    with False show ?thesis by (simp add: eq p1)
  qed
  have len: "length (statuses p') = length (statuses p)"
    by (simp add: eq has_changed_statuses p1 split: option.split)
  have st: "statuses p' ! j = (if j = i then fst r
      else if snd r \<and> exclusive_at p i \<and> active_status p = Some j then (statuses p ! j)\<lparr>active := False\<rparr>
      else statuses p ! j)" if "j < length (statuses p)" for j
    using that i by (simp add: eq has_changed_statuses ex1 p1 nth_list_update split: option.split)
  have ex': "exclusive_at p' j = exclusive_at p j" if "j < length (statuses p)" for j
    by (rule exclusive_at_type) (simp add: st that ty)
  have ac: "j \<in> actives p' \<longleftrightarrow> (if j = i then act
      else j \<in> actives p \<and> \<not> (snd r \<and> exclusive_at p i \<and> active_status p = Some j))" for j
    using st [of j] ty i by (auto simp: actives_def len split: if_splits)
  show "active_status p' = (if exclusive_at p i then Some i else active_status p)" by (fact act')
  show "length (statuses p') = length (statuses p)" by (fact len)
  show "j < length (statuses p) \<Longrightarrow> exclusive_at p' j = exclusive_at p j" by (fact ex')
  show "j \<in> actives p' \<longleftrightarrow> (if j = i then act
      else j \<in> actives p \<and> \<not> (snd r \<and> exclusive_at p i \<and> active_status p = Some j))" by (fact ac)
  show "\<not> snd r \<Longrightarrow> exclusive_at p i \<Longrightarrow> active_status p = Some i"
    using prev same ok i by (simp add: actives_def)
qed

lemma set_active_actives:
  fixes env :: status_env and p :: presence and i :: nat and act :: bool and attrs :: "(string \<times> gdata) list"
  defines "p' \<equiv> purple_status_set_active_with_attrs_list env p i act attrs"
  assumes wf: "pres_wf p" and i: "i < length (statuses p)" and ok: "act \<or> \<not> exclusive_at p i"
  shows "actives p' = (if exclusive_at p i then insert i {j \<in> actives p. \<not> exclusive_at p j}
      else if act then insert i (actives p) else actives p - {i})"
proof (cases "exclusive_at p i")
  case False
  then show ?thesis
    using ok by (intro set_eqI) (simp add: p'_def set_active_pointwise(4) [OF wf i ok])
next
  case True
  note pw = set_active_pointwise [OF wf i ok, where env = env and attrs = attrs, folded p'_def]
  have "j \<in> actives p' \<longleftrightarrow> j = i \<or> j \<in> actives p \<and> \<not> exclusive_at p j" for j
  proof (cases "j = i")
    case True
    with pw(4) [of j] ok \<open>exclusive_at p i\<close> show ?thesis by simp
  next
    case False
    then show ?thesis
      using pw(4) [of j] pres_wfD [OF wf, of j] pw(5) [OF _ \<open>exclusive_at p i\<close>] \<open>exclusive_at p i\<close>
      by (metis option.inject)
  qed
  with True show ?thesis by auto
qed

text \<open>C27: Setting a status implements the choice among the exclusive statuses: activating an exclusive
  one makes it the active status and deactivates the previous one and no independent one, an
  independent status is switched alone, and deactivating an exclusive one is refused.  The
  invariant that \<open>active_status\<close> is the one active exclusive status is kept.\<close>

theorem status_active_refines:
  assumes "pres_wf p" and "i < length (statuses p)"
  shows "pres_wf (purple_status_set_active_with_attrs_list env p i act attrs) \<and>
    actives (purple_status_set_active_with_attrs_list env p i act attrs) =
      (if exclusive_at p i
       then (if act then insert i {j \<in> actives p. \<not> exclusive_at p j} else actives p)
       else (if act then insert i (actives p) else actives p - {i})) \<and>
    active_status (purple_status_set_active_with_attrs_list env p i act attrs) =
      (if exclusive_at p i \<and> act then Some i else active_status p)"
proof (cases "act \<or> \<not> exclusive_at p i")
  case False
  then show ?thesis using assms by (auto simp: set_active_refused)
next
  case ok: True
  define p' where "p' = purple_status_set_active_with_attrs_list env p i act attrs"
  note pw = set_active_pointwise [OF assms ok, where env = env and attrs = attrs, folded p'_def]
    and acts = set_active_actives [OF assms ok, where env = env and attrs = attrs, folded p'_def]
  have in_len: "j < length (statuses p)" if "j \<in> actives p' \<or> j \<in> actives p" for j
    using that pw(2) by (auto simp: actives_def)
  have "pres_wf p'"
    unfolding pres_wf_def
  proof (intro conjI ballI allI impI)
    fix j assume j: "j \<in> actives p'" "exclusive_at p' j"
    then have "exclusive_at p j" using pw(3) in_len by blast
    with j(1) show "active_status p' = Some j"
      unfolding acts pw(1) using pres_wfD(1) [OF assms(1), of j]
      by (cases "exclusive_at p i"; cases act; simp; blast)
  next
    fix j assume j: "active_status p' = Some j"
    have "j \<in> actives p' \<and> exclusive_at p j"
    proof (cases "exclusive_at p i")
      case True
      with j have "j = i" by (simp add: pw(1))
      with True show ?thesis by (simp add: acts)
    next
      case False
      with j have "j \<in> actives p" "exclusive_at p j" by (simp_all add: pw(1) pres_wfD(2) [OF assms(1)])
      with False show ?thesis by (auto simp: acts)
    qed
    then show "j \<in> actives p'" "exclusive_at p' j" using pw(3) in_len by blast+
  qed
  with acts pw(1) ok show ?thesis unfolding p'_def [symmetric] by auto
qed

text \<open>The invariant holds from the start and is kept by the other operations.\<close>

lemma prpl_get_statuses_eq: "purple_prpl_get_statuses u types = map (purple_status_new u) types"
proof -
  have "foldl (\<lambda>l t. purple_status_new u t # l) acc types = rev (map (purple_status_new u) types) @ acc" for acc
    by (induction types arbitrary: acc) simp_all
  then show ?thesis by (simp add: purple_prpl_get_statuses_def)
qed

lemma presence_new_wf:
  "purple_presence_new_for_account u addr types = Some p \<Longrightarrow> pres_wf p"
  "purple_presence_new_for_buddy u addr types = Some p \<Longrightarrow> pres_wf p"
  by (auto simp: purple_presence_new_for_account_def purple_presence_new_for_buddy_def purple_presence_new_def
      prpl_get_statuses_eq pres_wf_def actives_def purple_status_new_def)

lemma add_status_wf:
  assumes "pres_wf p" and "\<not> active s"
  shows "pres_wf (purple_presence_add_status p s)"
proof -
  have A: "actives (purple_presence_add_status p s) = actives p"
    using assms(2) by (auto simp: actives_def purple_presence_add_status_def nth_append)
  have E: "exclusive_at (purple_presence_add_status p s) i = exclusive_at p i" if "i \<in> actives p" for i
    using that by (simp add: exclusive_at_def purple_presence_add_status_def actives_def nth_append)
  have S: "active_status (purple_presence_add_status p s) = active_status p"
    by (simp add: purple_presence_add_status_def)
  show ?thesis
    unfolding pres_wf_def A S using E assms(1) [unfolded pres_wf_def] by blast
qed

subsection \<open>The attributes of a status\<close>

fun read_as :: "PurpleValue \<Rightarrow> gdata \<Rightarrow> PurpleValue" where
  "read_as (V_string _) d = V_string (as_string d)"
| "read_as (V_int _) d = V_int (as_int d)"
| "read_as (V_boolean _) d = V_boolean (as_int d)"
| "read_as (V_other k) d = V_other k"

fun same_kind :: "PurpleValue \<Rightarrow> PurpleValue \<Rightarrow> bool" where
  "same_kind (V_string _) w = (\<exists>s. w = V_string s)"
| "same_kind (V_int _) w = (\<exists>n. w = V_int n)"
| "same_kind (V_boolean _) w = (\<exists>b. w = V_boolean b)"
| "same_kind (V_other k) w = (\<exists>k. w = V_other k)"

lemma read_as_kind [simp]:
  "read_as (read_as v d) d' = read_as v d'" "same_kind (read_as v d) w = same_kind v w"
  by (cases v; simp)+

lemma read_as_same: "same_kind v w \<Longrightarrow> (\<And>k. w \<noteq> V_other k) \<Longrightarrow> read_as v d = read_as w d"
  by (cases v) auto

definition valid_data :: "(string \<Rightarrow> bool) \<Rightarrow> (string \<times> gdata) list \<Rightarrow> bool" where
  "valid_data u attrs \<longleftrightarrow> (\<forall>(i, d) \<in> set attrs. \<forall>x. as_string d = Some x \<longrightarrow> u x)"

definition put_value :: "string \<Rightarrow> PurpleValue \<Rightarrow> status \<Rightarrow> status" where
  "put_value i v s = s\<lparr>attr_values := (attr_values s)(i \<mapsto> v)\<rparr>"

lemma put_value_simps [simp]:
  "attr_values (put_value i v s) = (attr_values s)(i \<mapsto> v)" "s_type (put_value i v s) = s_type s"
  "active (put_value i v s) = active s" "attr_values s i = Some v \<Longrightarrow> put_value i v s = s"
  by (simp_all add: put_value_def fun_upd_idem)

lemma set_specified_step:
  assumes "attr_values s i = Some w" and "\<And>x. as_string d = Some x \<Longrightarrow> u x"
  shows "\<exists>ch'. set_specified u ((i, d) # l) s ids ch = set_specified u l (put_value i (read_as w d) s) (i # ids) ch'"
  using assms
  by (cases w)
    (auto simp: purple_status_get_attr_value_def purple_status_set_attr_string_def purple_status_set_attr_int_def
      purple_status_set_attr_boolean_def put_value_def fun_upd_idem split: option.split)

lemma set_specified_values:
  assumes "valid_data u l" and "attr_values s x = Some v"
  shows "attr_values (fst (set_specified u l s ids ch)) x =
      Some (case map_of (rev l) x of None \<Rightarrow> v | Some d \<Rightarrow> read_as v d) \<and>
    (x \<in> set (fst (snd (set_specified u l s ids ch))) \<longleftrightarrow> x \<in> set ids \<or> map_of (rev l) x \<noteq> None)"
  using assms
proof (induction l arbitrary: s v ids ch)
  case Nil
  then show ?case by simp
next
  case (Cons p l)
  obtain i d where p: "p = (i, d)" by (cases p)
  have val: "valid_data u l" "\<And>x. as_string d = Some x \<Longrightarrow> u x"
    using Cons.prems(1) by (auto simp: valid_data_def p)
  show ?case
  proof (cases "attr_values s i")
    case None
    then show ?thesis
      using Cons.IH [OF val(1) Cons.prems(2)] Cons.prems(2)
      by (auto simp: p purple_status_get_attr_value_def map_add_def split: option.splits)
  next
    case (Some w)
    obtain ch' where step: "set_specified u (p # l) s ids ch =
        set_specified u l (put_value i (read_as w d) s) (i # ids) ch'"
      using set_specified_step [where l = l, OF Some] val(2) unfolding p by blast
    have "attr_values (put_value i (read_as w d) s) x = Some (if x = i then read_as w d else v)"
      using Cons.prems(2) by simp
    from Cons.IH [OF val(1) this, of "i # ids" ch'] show ?thesis
      unfolding step using Some Cons.prems(2)
      by (auto simp: p map_add_def split: option.splits)
  qed
qed

lemma reset_step:
  assumes "attr_values s (at_id a) = Some w" and "same_kind w (value_type a)" and "at_id a \<notin> set ids"
    and "\<forall>x. value_type a = V_string (Some x) \<longrightarrow> u x" and "\<forall>k. value_type a \<noteq> V_other k"
  shows "\<exists>ch'. reset_unspecified u (a # l) ids s ch =
    reset_unspecified u l ids (put_value (at_id a) (value_type a) s) ch'"
  using assms
  by (cases w)
    (auto simp: purple_status_get_attr_value_def purple_status_set_attr_string_def purple_status_set_attr_int_def
      purple_status_set_attr_boolean_def purple_status_get_attr_string_def purple_status_get_attr_int_def
      purple_status_get_attr_boolean_def put_value_def fun_upd_idem split: option.split)

lemma set_attr_other [simp]:
  "x \<noteq> i \<Longrightarrow> attr_values (purple_status_set_attr_string u s i y) x = attr_values s x"
  "x \<noteq> i \<Longrightarrow> attr_values (purple_status_set_attr_int s i n) x = attr_values s x"
  "x \<noteq> i \<Longrightarrow> attr_values (purple_status_set_attr_boolean s i b) x = attr_values s x"
  by (simp_all add: purple_status_set_attr_string_def purple_status_set_attr_int_def
      purple_status_set_attr_boolean_def split: option.split PurpleValue.split)

lemma reset_unspecified_frame:
  "x \<notin> at_id ` set l \<or> x \<in> set ids \<Longrightarrow> attr_values (fst (reset_unspecified u l ids s ch)) x = attr_values s x"
proof (induction l arbitrary: s ch)
  case Nil
  then show ?case by simp
next
  case (Cons b l)
  then have x: "x \<notin> at_id ` set l \<or> x \<in> set ids" and "at_id b \<in> set ids \<or> x \<noteq> at_id b" by auto
  then show ?case by (auto simp: Cons.IH [OF x] split: PurpleValue.split)
qed

lemma reset_unspecified_values:
  assumes "distinct (map at_id l)" and "a \<in> set l" and "at_id a \<notin> set ids"
    and "attr_values s (at_id a) = Some w" and "same_kind w (value_type a)"
    and "\<forall>x. value_type a = V_string (Some x) \<longrightarrow> u x" and "\<forall>k. value_type a \<noteq> V_other k"
  shows "attr_values (fst (reset_unspecified u l ids s ch)) (at_id a) = Some (value_type a)"
  using assms(1-5)
proof (induction l arbitrary: s w ch)
  case Nil
  then show ?case by simp
next
  case (Cons b l)
  show ?case
  proof (cases "b = a")
    case True
    obtain ch' where step: "reset_unspecified u (a # l) ids s ch =
        reset_unspecified u l ids (put_value (at_id a) (value_type a) s) ch'"
      using reset_step [OF Cons.prems(4,5,3) assms(6,7)] by blast
    have "at_id a \<notin> at_id ` set l" using Cons.prems(1) True by simp
    then show ?thesis unfolding True step by (simp add: reset_unspecified_frame)
  next
    case False
    with Cons.prems have a: "a \<in> set l" "distinct (map at_id l)" by auto
    have "at_id a \<in> at_id ` set l" using a(1) by (rule imageI)
    with Cons.prems(1) have ne: "at_id a \<noteq> at_id b" by auto
    have IH: "attr_values (fst (reset_unspecified u l ids s' ch')) (at_id a) = Some (value_type a)"
      if "attr_values s' (at_id a) = Some w" for s' ch'
      using Cons.IH [OF a(2,1) Cons.prems(3) that Cons.prems(5)] .
    show ?thesis using Cons.prems(4) ne by (auto simp: IH split: PurpleValue.split)
  qed
qed

text \<open>
  A status as the types of its protocol make it: distinct attribute ids, defaults that are
  UTF-8 and a stored value of the declared kind for each.
\<close>

definition status_ok :: "(string \<Rightarrow> bool) \<Rightarrow> status \<Rightarrow> bool" where
  "status_ok u s \<longleftrightarrow>
     distinct (map at_id (st_attrs (s_type s))) \<and>
     (\<forall>a \<in> set (st_attrs (s_type s)).
        (\<exists>w. attr_values s (at_id a) = Some w \<and> same_kind w (value_type a)) \<and>
        (\<forall>x. value_type a = V_string (Some x) \<longrightarrow> u x))"

lemma new_status_values:
  assumes "status_ok u s" and "valid_data u attrs" and "a \<in> set (st_attrs (s_type s))"
    and "\<forall>k. value_type a \<noteq> V_other k"
  shows "attr_values (fst (new_status u act attrs s)) (at_id a) =
    Some (case map_of (rev attrs) (at_id a) of None \<Rightarrow> value_type a | Some d \<Rightarrow> read_as (value_type a) d)"
proof -
  obtain w where w: "attr_values s (at_id a) = Some w" "same_kind w (value_type a)"
    and d: "distinct (map at_id (st_attrs (s_type s)))"
    and dflt: "\<forall>x. value_type a = V_string (Some x) \<longrightarrow> u x"
    using assms(1,3) by (auto simp: status_ok_def)
  define r where "r = set_specified u attrs (s\<lparr>active := act\<rparr>) [] (active s \<noteq> act)"
  have r: "attr_values (fst r) (at_id a) = Some (case map_of (rev attrs) (at_id a) of None \<Rightarrow> w | Some d \<Rightarrow> read_as w d)"
    "at_id a \<in> set (fst (snd r)) \<longleftrightarrow> map_of (rev attrs) (at_id a) \<noteq> None"
    using set_specified_values [OF assms(2), of "s\<lparr>active := act\<rparr>" "at_id a" w "[]"] w(1)
    by (simp_all add: r_def)
  have new: "fst (new_status u act attrs s) =
      fst (reset_unspecified u (st_attrs (s_type s)) (fst (snd r)) (fst r) (snd (snd r)))"
    by (simp add: new_status_def r_def Let_def)
  show ?thesis
  proof (cases "map_of (rev attrs) (at_id a)")
    case None
    then have *: "at_id a \<notin> set (fst (snd r))" "attr_values (fst r) (at_id a) = Some w" using r by auto
    show ?thesis
      unfolding new using reset_unspecified_values [OF d assms(3) * w(2) dflt assms(4)] None by simp
  next
    case (Some d)
    then have "at_id a \<in> set (fst (snd r))" using r(2) by simp
    then show ?thesis
      unfolding new using Some r(1) read_as_same [OF w(2)] assms(4) by (simp add: reset_unspecified_frame)
  qed
qed

lemma purple_status_new_ok:
  assumes "distinct (map at_id (st_attrs t))" and "\<forall>a \<in> set (st_attrs t). \<forall>x. value_type a = V_string (Some x) \<longrightarrow> u x"
  shows "status_ok u (purple_status_new u t)"
proof -
  have dup: "same_kind (purple_value_dup u v) v" for v
    by (cases v) (auto simp: purple_value_dup_def split: option.split)
  have "foldl (\<lambda>m a. m(at_id a \<mapsto> purple_value_dup u (value_type a))) m l (at_id a) =
      Some (purple_value_dup u (value_type a))"
    if "distinct (map at_id l)" "a \<in> set l" for m :: "string \<rightharpoonup> PurpleValue" and l :: "status_attr list" and a
    using that
  proof (induction l rule: rev_induct)
    case (snoc b l)
    then show ?case by (cases "b = a") (auto simp: rev_image_eqI)
  qed simp
  note fold = this [OF assms(1)]
  show ?thesis using assms dup by (simp add: status_ok_def purple_status_new_def fold)
qed

lemma attr_values_deactivate:
  "attr_values (xs[k := (xs ! k)\<lparr>active := b\<rparr>] ! j) = attr_values (xs ! j)"
  by (cases "k = j"; cases "j < length xs") (simp_all add: list_update_beyond)

text \<open>After a status was set with a list of attributes, every attribute of its type has the last
  value the list gives it, and every attribute the list does not mention is back at the default
  of the type, whatever it was before; the other statuses keep their attributes.\<close>

theorem status_attrs_after_set:
  assumes "i < length (statuses p)" and "act \<or> \<not> exclusive_at p i"
    and "status_ok (utf8_validate env) (statuses p ! i)" and "valid_data (utf8_validate env) attrs"
    and "a \<in> set (st_attrs (s_type (statuses p ! i)))" and "\<forall>k. value_type a \<noteq> V_other k"
  shows "attr_values (statuses (purple_status_set_active_with_attrs_list env p i act attrs) ! i) (at_id a) =
      Some (case map_of (rev attrs) (at_id a) of None \<Rightarrow> value_type a | Some d \<Rightarrow> read_as (value_type a) d) \<and>
    (\<forall>j. j \<noteq> i \<longrightarrow>
       attr_values (statuses (purple_status_set_active_with_attrs_list env p i act attrs) ! j) = attr_values (statuses p ! j))"
proof -
  define r where "r = new_status (utf8_validate env) act attrs (statuses p ! i)"
  define p1 where "p1 = p\<lparr>statuses := (statuses p)[i := fst r]\<rparr>"
  have eq: "purple_status_set_active_with_attrs_list env p i act attrs =
      (if snd r then status_has_changed env p1 i else p1)"
    unfolding set_active_eq [OF assms(1,2)] by (simp add: r_def p1_def Let_def)
  have "attr_values (statuses (status_has_changed env p1 i) ! j) = attr_values (statuses p1 ! j)" for j
    by (simp add: has_changed_statuses attr_values_deactivate split: option.split)
  then have "attr_values (statuses (purple_status_set_active_with_attrs_list env p i act attrs) ! j) =
      attr_values (statuses p1 ! j)" for j
    by (simp add: eq)
  then show ?thesis
    using assms(1) new_status_values [OF assms(3,4,5,6), of act] by (auto simp: p1_def r_def nth_list_update)
qed

subsection \<open>Ranking presences\<close>

lemma statuses_score_offline:
  "statuses_score scores True l = statuses_score scores False l +
     scores ! SCORE_OFFLINE_MESSAGE * int (length (filter (\<lambda>s. active s \<and> \<not> purple_status_is_online s) l))"
  by (induction l) (auto simp: algebra_simps)

lemma set_idle_fields [simp]:
  "statuses (purple_presence_set_idle env now p b t) = statuses p"
  "active_status (purple_presence_set_idle env now p b t) = active_status p"
  "p_context (purple_presence_set_idle env now p b t) = p_context p"
  "p_addr (purple_presence_set_idle env now p b t) = p_addr p"
  by (simp_all add: purple_presence_set_idle_def update_buddy_idle_def Let_def split: PurplePresenceContext.split)

lemma set_idle_idle:
  "idle (purple_presence_set_idle env now p b t) = b"
  "idle_time p = 0 \<or> idle p \<Longrightarrow>
   idle_time (purple_presence_set_idle env now p b t) = (if b \<or> idle p = b \<and> idle_time p = t then t else 0)"
  by (auto simp: purple_presence_set_idle_def update_buddy_idle_def Let_def split: PurplePresenceContext.split)

lemma set_idle_online [simp]:
  "purple_presence_is_online (purple_presence_set_idle env now p b t) = purple_presence_is_online p"
  by (simp add: purple_presence_is_online_def purple_presence_get_active_status_def)

lemma presence_compare_online:
  assumes "purple_presence_is_online p1" and "purple_presence_is_online p2" and "p_addr p1 \<noteq> p_addr p2"
  shows "purple_presence_compare senv scores now now (Some p1) (Some p2) =
    (let s1 = purple_presence_compute_score senv scores p1 +
                (if idle_time p1 < idle_time p2 then scores ! SCORE_IDLE_TIME else 0);
         s2 = purple_presence_compute_score senv scores p2 +
                (if idle_time p2 < idle_time p1 then scores ! SCORE_IDLE_TIME else 0)
     in if s1 < s2 then 1 else if s2 < s1 then - 1 else 0)"
  using assms by (simp add: purple_presence_compare_def Let_def)

lemma presence_compare_antisym:
  "purple_presence_compare senv scores now now q2 q1 = - purple_presence_compare senv scores now now q1 q2"
  by (auto simp: purple_presence_compare_def Let_def split: option.split)

text \<open>The score table has an entry for the mood that the three special indices do not count.\<close>

lemma special_scores [simp]:
  "primitive_scores ! SCORE_IDLE = 0" "primitive_scores ! SCORE_IDLE_TIME = - 10"
  "primitive_scores ! SCORE_OFFLINE_MESSAGE = - 5"
  by (simp_all add: primitive_scores_def SCORE_IDLE_def SCORE_IDLE_TIME_def SCORE_OFFLINE_MESSAGE_def)

lemma compute_score_idle: "purple_presence_compute_score senv primitive_scores (p\<lparr>idle := b, idle_time := t\<rparr>) =
    purple_presence_compute_score senv primitive_scores p"
  by (simp add: purple_presence_compute_score_def)

text \<open>The special scores are off by one against the table: being idle costs nothing, a buddy whose
  protocol takes offline messages loses five points for each offline status instead of gaining
  ten, and the preference for the idle score changes the score of the mood.\<close>

theorem status_scores_shifted:
  "purple_presence_compute_score senv primitive_scores (p\<lparr>idle := b\<rparr>) =
     purple_presence_compute_score senv primitive_scores p \<and>
   purple_presence_compute_score (senv\<lparr>supports_offline_message := \<lambda>_. True\<rparr>) primitive_scores
       (p\<lparr>p_context := PURPLE_PRESENCE_CONTEXT_BUDDY\<rparr>) =
     purple_presence_compute_score (senv\<lparr>supports_offline_message := \<lambda>_. False\<rparr>) primitive_scores
       (p\<lparr>p_context := PURPLE_PRESENCE_CONTEXT_BUDDY\<rparr>)
     - 5 * int (length (filter (\<lambda>s. active s \<and> \<not> purple_status_is_online s) (statuses p))) \<and>
   status_score (score_pref_changed_cb primitive_scores SCORE_IDLE v)
     \<lparr>s_type = t\<lparr>st_primitive := PURPLE_STATUS_MOOD\<rparr>, active = True, attr_values = m\<rparr> = v"
proof -
  have "status_score (score_pref_changed_cb primitive_scores SCORE_IDLE v)
      \<lparr>s_type = t\<lparr>st_primitive := PURPLE_STATUS_MOOD\<rparr>, active = True, attr_values = m\<rparr> = v"
    by (simp add: status_score_def score_pref_changed_cb_def SCORE_IDLE_def primitive_scores_def)
  then show ?thesis by (simp add: purple_presence_compute_score_def statuses_score_offline)
qed

text \<open>Of two online presences that differ in nothing else, one that went idle is ranked better than
  one that is not idle: the idle time of the latter is 0, so its duration is the whole time
  since the epoch.  The comparison is antisymmetric when the clock does not move.\<close>

theorem presence_compare_prefers_idle:
  assumes "purple_presence_is_online p" and "\<not> idle p" and "idle_time p = 0" and "0 < t" and "p_addr p \<noteq> b"
    and "account_score senv b = account_score senv (p_addr p)"
    and "supports_offline_message senv b = supports_offline_message senv (p_addr p)"
  shows "purple_presence_compare senv primitive_scores now now
      (Some (purple_presence_set_idle env time p True t)) (Some (p\<lparr>p_addr := b\<rparr>)) = - 1 \<and>
    purple_presence_compare senv scores now now q2 q1 = - purple_presence_compare senv scores now now q1 q2"
proof -
  have online: "purple_presence_is_online (p\<lparr>p_addr := b\<rparr>)"
    using assms(1) by (simp add: purple_presence_is_online_def purple_presence_get_active_status_def)
  have "purple_presence_compute_score senv primitive_scores (purple_presence_set_idle env time p True t) =
      purple_presence_compute_score senv primitive_scores (p\<lparr>p_addr := b\<rparr>)"
    using assms(6,7) by (simp add: purple_presence_compute_score_def)
  then have "purple_presence_compare senv primitive_scores now now
      (Some (purple_presence_set_idle env time p True t)) (Some (p\<lparr>p_addr := b\<rparr>)) = - 1"
    using assms online by (subst presence_compare_online) (simp_all add: set_idle_idle Let_def)
  then show ?thesis by (rule conjI) (rule presence_compare_antisym)
qed

text \<open>
  Nor is the comparison transitive: the penalty for the longer idle time is given pairwise.
\<close>

lemma presence_compare_cycle:
  assumes "\<forall>p \<in> {p1, p2, p3}. purple_presence_is_online p"
    and "p_addr p1 \<noteq> p_addr p2" "p_addr p2 \<noteq> p_addr p3" "p_addr p1 \<noteq> p_addr p3"
    and "idle_time p1 < idle_time p2" "idle_time p2 < idle_time p3"
    and "purple_presence_compute_score senv primitive_scores p1 = 0"
    and "purple_presence_compute_score senv primitive_scores p2 = - 5"
    and "purple_presence_compute_score senv primitive_scores p3 = - 11"
  shows "purple_presence_compare senv primitive_scores now now (Some p2) (Some p1) = - 1"
    and "purple_presence_compare senv primitive_scores now now (Some p3) (Some p2) = - 1"
    and "purple_presence_compare senv primitive_scores now now (Some p1) (Some p3) = - 1"
  using assms by (simp_all add: presence_compare_online Let_def)

subsection \<open>Concrete instances\<close>

definition attr_example :: status_attr where
  "attr_example = \<lparr>at_id = ''message'', at_name = ''Message'', value_type = V_string None\<rparr>"

definition type_example :: "PurpleStatusPrimitive \<Rightarrow> bool \<Rightarrow> status_type" where
  "type_example prim indep =
     \<lparr>st_primitive = prim, st_id = ''s'', st_name = ''S'', primary_attr_id = None, saveable = True,
      user_settable = True, independent = indep, st_attrs = [attr_example]\<rparr>"

definition pres_example :: presence where
  "pres_example =
     \<lparr>p_addr = 1, p_context = PURPLE_PRESENCE_CONTEXT_BUDDY, idle = False, idle_time = 0, login_time = 0,
      statuses = [\<lparr>s_type = type_example PURPLE_STATUS_AVAILABLE False, active = True, attr_values = [''message'' \<mapsto> V_string None]\<rparr>,
                  \<lparr>s_type = type_example PURPLE_STATUS_AWAY False, active = False, attr_values = [''message'' \<mapsto> V_string (Some ''x'')]\<rparr>],
      status_table = Map.empty, active_status = Some 0, events = []\<rparr>"

definition status_env_example :: status_env where
  "status_env_example = \<lparr>utf8_validate = (\<lambda>_. True), account_enabled = True, ui_has_status_changed = True,
     log_system = True, has_log = True, ui_has_update = True, prpl_has_set_idle = True\<rparr>"

definition senv_example :: score_env where
  "senv_example = \<lparr>account_score = (\<lambda>_. 0), supports_offline_message = (\<lambda>_. False)\<rparr>"

lemma pres_example_wf: "pres_wf pres_example"
proof -
  have "actives pres_example = {0}"
    by (auto simp: actives_def pres_example_def less_Suc_eq)
  then show ?thesis
    by (simp add: pres_wf_def exclusive_at_def pres_example_def type_example_def purple_status_is_exclusive_def
        purple_status_type_is_exclusive_def)
qed

lemma pres_example_facts:
  "length (statuses pres_example) = 2" "exclusive_at pres_example 1" "exclusive_at pres_example 0"
  "purple_presence_is_online pres_example" "idle_time pres_example = 0" "\<not> idle pres_example"
  "p_addr pres_example = 1" "st_attrs (s_type (statuses pres_example ! 1)) = [attr_example]"
  "status_ok (utf8_validate status_env_example) (statuses pres_example ! 1)"
  by (simp_all add: pres_example_def type_example_def exclusive_at_def purple_status_is_exclusive_def
      purple_status_type_is_exclusive_def purple_presence_is_online_def purple_presence_get_active_status_def
      purple_status_is_online_def status_ok_def attr_example_def)

theorem status_active_refines_witness:
  "pres_wf (purple_status_set_active_with_attrs_list status_env_example pres_example 1 True []) \<and>
   active_status (purple_status_set_active_with_attrs_list status_env_example pres_example 1 True []) = Some 1"
  using status_active_refines [OF pres_example_wf, of 1 status_env_example True "[]"] pres_example_facts by simp

theorem status_attrs_after_set_witness:
  "attr_values (statuses (purple_status_set_active_with_attrs_list status_env_example pres_example 1 True []) ! 1) ''message'' =
     Some (V_string None)"
  using status_attrs_after_set [of 1 pres_example True status_env_example "[]" attr_example] pres_example_facts
  by (simp add: valid_data_def attr_example_def)

theorem presence_compare_prefers_idle_witness:
  "purple_presence_compare senv_example primitive_scores 1000 1000
     (Some (purple_presence_set_idle status_env_example 1000 pres_example True 900)) (Some (pres_example\<lparr>p_addr := 2\<rparr>)) = - 1"
  using presence_compare_prefers_idle [THEN conjunct1, of pres_example 900 2 senv_example 1000 status_env_example 1000] pres_example_facts
  by (simp add: senv_example_def)

end
