(* ===== verification/Util_Codecs.thy ===== *)
theory Util_Codecs
  imports Purple_Base
begin

section \<open>Text codecs (\<open>libpurple/util.c\<close>)\<close>

text \<open>
  Hexadecimal strings, quoted-printable text, percent-escaped URLs and file names, and the
  small string helpers around them.  A C string is the list of its bytes before the NUL.
  \<open>g_utf8_validate\<close> (GLib) is the parameter \<open>valid_len\<close>, the length of the longest valid
  prefix; \<open>g_utf8_next_char\<close> steps by the length that the lead byte announces.  The static
  buffers of \<open>BUF_LEN\<close> bytes and their truncation are kept; the extra trimming of file names
  in the Windows build is not.
\<close>

subsection \<open>Characters\<close>

definition isdigit :: "byte \<Rightarrow> bool" where
  "isdigit c \<longleftrightarrow> 48 \<le> unat c \<and> unat c \<le> 57"

definition tolower :: "byte \<Rightarrow> byte" where
  "tolower c = (if 65 \<le> unat c \<and> unat c \<le> 90 then c + 32 else c)"

definition isalnum :: "byte \<Rightarrow> bool" where
  "isalnum c \<longleftrightarrow> isdigit c \<or> 97 \<le> unat (tolower c) \<and> unat (tolower c) \<le> 122"

definition isspace :: "byte \<Rightarrow> bool" where
  "isspace c \<longleftrightarrow> unat c = 32 \<or> 9 \<le> unat c \<and> unat c \<le> 13"

text \<open>The two digits of the formats \<open>%02x\<close> and \<open>%02X\<close>.\<close>

definition hex_digit :: "byte \<Rightarrow> byte \<Rightarrow> byte" where
  "hex_digit a n = (if n < 10 then 48 + n else a + (n - 10))"

definition hex2 :: "byte \<Rightarrow> byte \<Rightarrow> bytes" where
  "hex2 a b = [hex_digit a (drop_bit 4 b), hex_digit a (b AND 0xf)]"

subsection \<open>Base 16\<close>

definition purple_base16_encode :: "bytes \<Rightarrow> bytes option" where
  "purple_base16_encode d = (if d = [] then None else Some (concat (map (hex2 97) d)))"

definition purple_base16_encode_chunked :: "bytes \<Rightarrow> bytes option" where
  "purple_base16_encode_chunked d =
     (if d = [] then None else Some (butlast (concat (map (\<lambda>b. hex2 97 b @ [58]) d))))"

text \<open>What one character adds to the accumulator; a character that is no digit adds nothing.\<close>

definition nibble_or :: "byte \<Rightarrow> 64 word \<Rightarrow> 64 word" where
  "nibble_or c acc =
     (if isdigit c then acc OR ucast (c - 48)
      else if 97 \<le> unat (tolower c) \<and> unat (tolower c) \<le> 102 then acc OR ucast (tolower c - 87)
      else acc)"

fun base16_loop :: "bytes \<Rightarrow> bytes" where
  "base16_loop (a # b # s) = ucast (nibble_or b (push_bit 4 (nibble_or a 0))) # base16_loop s"
| "base16_loop _ = []"

definition purple_base16_decode :: "bytes \<Rightarrow> bytes option" where
  "purple_base16_decode s = (if length s = 0 \<or> length s mod 2 \<noteq> 0 then None else Some (base16_loop s))"

subsection \<open>Quoted printable\<close>

text \<open>The position of a digit in \<open>xdigits\<close>.\<close>

definition xdigit :: "byte \<Rightarrow> byte option" where
  "xdigit c = (if isdigit c then Some (c - 48)
     else if 97 \<le> unat (tolower c) \<and> unat (tolower c) \<le> 102 then Some (tolower c - 87) else None)"

fun purple_quotedp_decode :: "bytes \<Rightarrow> bytes" where
  "purple_quotedp_decode [] = []"
| "purple_quotedp_decode (c # p) =
     (if c = 61 then
        (case p of
           [] \<Rightarrow> [c]
         | [a] \<Rightarrow> if a = 10 then [] else c # purple_quotedp_decode p
         | a # b # p' \<Rightarrow>
             if a = 13 \<and> b = 10 then purple_quotedp_decode p'
             else if a = 10 then purple_quotedp_decode (b # p')
             else (case (xdigit a, xdigit b) of
                     (Some h, Some l) \<Rightarrow> (push_bit 4 h OR l) # purple_quotedp_decode p'
                   | _ \<Rightarrow> c # purple_quotedp_decode p))
      else (if c = 95 then 32 else c) # purple_quotedp_decode p)"

subsection \<open>Percent escapes\<close>

definition BUF_LEN :: nat where
  "BUF_LEN = 2048"

text \<open>\<open>strtol\<close> in base 16 of a string of at most two characters.\<close>

fun strtol_digits :: "bytes \<Rightarrow> int \<Rightarrow> int" where
  "strtol_digits [] acc = acc"
| "strtol_digits (c # s) acc = (case xdigit c of None \<Rightarrow> acc | Some d \<Rightarrow> strtol_digits s (16 * acc + uint d))"

definition strtol16 :: "bytes \<Rightarrow> int" where
  "strtol16 s =
     (case dropWhile isspace s of
        [] \<Rightarrow> 0
      | c # s' \<Rightarrow> if c = 45 then - strtol_digits s' 0 else if c = 43 then strtol_digits s' 0
                 else strtol_digits (c # s') 0)"

function url_decode_loop :: "bytes \<Rightarrow> bytes" where
  "url_decode_loop [] = []"
| "url_decode_loop (c # s) =
     (if c \<noteq> 37 then c # url_decode_loop s
      else word_of_int (strtol16 (take 2 s)) # url_decode_loop (drop 2 s))"
  by pat_completeness auto
termination by (relation "measure length") auto

definition purple_url_decode :: "(bytes \<Rightarrow> nat) \<Rightarrow> bytes \<Rightarrow> bytes option" where
  "purple_url_decode valid_len s =
     (if BUF_LEN \<le> length s then None
      else let buf = takeWhile (\<lambda>b. b \<noteq> 0) (url_decode_loop s) in Some (take (valid_len buf) buf))"

text \<open>\<open>g_utf8_skip\<close>, and the characters of a string.\<close>

definition utf8_skip :: "byte \<Rightarrow> nat" where
  "utf8_skip c = (let n = unat c in
     if n < 0xC0 then 1 else if n < 0xE0 then 2 else if n < 0xF0 then 3 else if n < 0xF8 then 4
     else if n < 0xFC then 5 else if n < 0xFE then 6 else 1)"

function utf8_chars :: "bytes \<Rightarrow> bytes list" where
  "utf8_chars [] = []"
| "utf8_chars (c # s) = take (utf8_skip c) (c # s) # utf8_chars (drop (utf8_skip c) (c # s))"
  by pat_completeness auto
termination by (relation "measure length") (auto simp: utf8_skip_def Let_def)

text \<open>The inner loop over the bytes of a character and the outer loop over the characters.\<close>

fun escape_bytes :: "byte \<Rightarrow> bytes \<Rightarrow> nat \<Rightarrow> bytes" where
  "escape_bytes a [] j = []"
| "escape_bytes a (b # bs) j = (if j > BUF_LEN - 4 then [] else 37 # hex2 a b @ escape_bytes a bs (j + 3))"

fun escape_loop :: "byte \<Rightarrow> (byte \<Rightarrow> bool) \<Rightarrow> bytes list \<Rightarrow> nat \<Rightarrow> bytes" where
  "escape_loop a keep [] j = []"
| "escape_loop a keep (ch # chs) j =
     (if \<not> j < BUF_LEN - 1 then []
      else case ch of
             [c] \<Rightarrow> if unat c < 128 \<and> keep c then c # escape_loop a keep chs (j + 1)
                   else let e = escape_bytes a ch j in e @ escape_loop a keep chs (j + length e)
           | _ \<Rightarrow> let e = escape_bytes a ch j in e @ escape_loop a keep chs (j + length e))"

definition url_keep :: "byte \<Rightarrow> bool" where
  "url_keep c \<longleftrightarrow> isalnum c \<or> c = 45 \<or> c = 46 \<or> c = 95 \<or> c = 126"

definition filename_keep :: "byte \<Rightarrow> bool" where
  "filename_keep c \<longleftrightarrow> isalnum c \<or> c = 64 \<or> c = 45 \<or> c = 95 \<or> c = 46 \<or> c = 35"

definition purple_url_encode :: "(bytes \<Rightarrow> nat) \<Rightarrow> bytes \<Rightarrow> bytes option" where
  "purple_url_encode valid_len s =
     (if valid_len s \<noteq> length s then None else Some (escape_loop 65 url_keep (utf8_chars s) 0))"

definition purple_escape_filename :: "(bytes \<Rightarrow> nat) \<Rightarrow> bytes \<Rightarrow> bytes option" where
  "purple_escape_filename valid_len s =
     (if valid_len s \<noteq> length s then None else Some (escape_loop 97 filename_keep (utf8_chars s) 0))"

definition purple_unescape_filename :: "(bytes \<Rightarrow> nat) \<Rightarrow> bytes \<Rightarrow> bytes option" where
  "purple_unescape_filename = purple_url_decode"

subsection \<open>String helpers\<close>

fun add_cr_loop :: "byte \<Rightarrow> bytes \<Rightarrow> bytes" where
  "add_cr_loop prev [] = []"
| "add_cr_loop prev (c # s) = (if c = 10 \<and> prev \<noteq> 13 then [13, c] else [c]) @ add_cr_loop c s"

text \<open>The first character has no predecessor; 0 stands for it.  When no CR is missing the
  string is copied.\<close>

definition purple_str_add_cr :: "bytes \<Rightarrow> bytes" where
  "purple_str_add_cr s = add_cr_loop 0 s"

definition purple_str_strip_char :: "bytes \<Rightarrow> byte \<Rightarrow> bytes" where
  "purple_str_strip_char s c = filter (\<lambda>b. b \<noteq> c) s"

definition purple_util_chrreplace :: "bytes \<Rightarrow> byte \<Rightarrow> byte \<Rightarrow> bytes" where
  "purple_util_chrreplace s d r = map (\<lambda>b. if b = d then r else b) s"

text \<open>\<open>g_ascii_strncasecmp (s, t, n) = 0\<close> for C strings: the first \<open>n\<close> bytes up to the NUL agree.\<close>

definition strncaseeq :: "bytes \<Rightarrow> bytes \<Rightarrow> nat \<Rightarrow> bool" where
  "strncaseeq s t n = (map tolower (take n s) = map tolower (take n t))"

partial_function (option) strcasereplace_loop :: "bytes \<Rightarrow> bytes \<Rightarrow> bytes \<Rightarrow> bytes \<Rightarrow> bytes option" where
  "strcasereplace_loop s d r ret =
     (case s of
        [] \<Rightarrow> Some ret
      | c # s' \<Rightarrow>
          if strncaseeq s d (length d) then strcasereplace_loop (drop (length d) s) d r (ret @ r)
          else strcasereplace_loop s' d r (ret @ [c]))"

definition purple_strcasereplace :: "bytes \<Rightarrow> bytes \<Rightarrow> bytes \<Rightarrow> bytes option" where
  "purple_strcasereplace s d r = strcasereplace_loop s d r []"

fun strcasestr_loop :: "bytes \<Rightarrow> bytes \<Rightarrow> nat \<Rightarrow> nat option" where
  "strcasestr_loop [] needle i = None"
| "strcasestr_loop (c # s) needle i =
     (if length (c # s) < length needle then None
      else if strncaseeq needle (c # s) (length needle) then Some i
      else strcasestr_loop s needle (i + 1))"

definition purple_strcasestr :: "bytes \<Rightarrow> bytes \<Rightarrow> nat option" where
  "purple_strcasestr haystack needle =
     (if haystack = [] \<or> needle = [] then None else strcasestr_loop haystack needle 0)"

definition purple_str_binary_to_ascii :: "bytes \<Rightarrow> bytes option" where
  "purple_str_binary_to_ascii d =
     (if d = [] then None
      else Some (concat (map (\<lambda>b. if unat b < 32 \<or> 126 < unat b then [92, 120] @ hex2 97 b
                                 else if b = 92 then [92, 92] else [b]) d)))"

text \<open>The states of the scan: digits in the current chunk, chunks, and whether \<open>::\<close> was seen.\<close>

fun ipv6_loop :: "bytes \<Rightarrow> nat \<Rightarrow> nat \<Rightarrow> bool \<Rightarrow> bool" where
  "ipv6_loop [] n chunks dbl = (dbl \<and> chunks < 8 \<or> \<not> dbl \<and> chunks = 8)"
| "ipv6_loop (c # s) n chunks dbl =
     (if xdigit c \<noteq> None then (if n + 1 > 4 then False else ipv6_loop s (n + 1) chunks dbl)
      else if c = 58 then
        (if s \<noteq> [] \<and> hd s = 58 then (if dbl then False else ipv6_loop s 0 (chunks + 1) True)
         else ipv6_loop s 0 (chunks + 1) dbl)
      else False)"

definition purple_ipv6_address_is_valid :: "bytes \<Rightarrow> bool" where
  "purple_ipv6_address_is_valid ip = (if ip = [] then False else ipv6_loop ip 0 1 False)"

subsection \<open>Hexadecimal digits\<close>

lemma nibble_cases:
  fixes n :: byte
  assumes "n < 16"
  obtains k where "k < 16" and "n = of_nat k"
  using assms by (intro that [of "unat n"]) (simp_all add: word_less_nat_alt)

lemma less_16_cases:
  "(k :: nat) < 16 \<Longrightarrow> k = 0 \<or> k = 1 \<or> k = 2 \<or> k = 3 \<or> k = 4 \<or> k = 5 \<or> k = 6 \<or> k = 7 \<or>
     k = 8 \<or> k = 9 \<or> k = 10 \<or> k = 11 \<or> k = 12 \<or> k = 13 \<or> k = 14 \<or> k = 15"
  by arith

lemma xdigit_hex_digit:
  assumes "n < 16" and "a = 65 \<or> a = 97"
  shows "xdigit (hex_digit a n) = Some n"
proof -
  obtain k where k: "k < 16" "n = of_nat k" using assms(1) by (rule nibble_cases)
  show ?thesis
    using less_16_cases [OF k(1)] assms(2)
    by (elim disjE) (simp_all add: k(2) xdigit_def hex_digit_def isdigit_def tolower_def)
qed

lemma byte_nibbles:
  fixes b :: byte
  shows "drop_bit 4 b < 16" "b AND 0xf < 16" "push_bit 4 (drop_bit 4 b) OR (b AND 0xf) = b"
    "uint (drop_bit 4 b) * 16 + uint (b AND 0xf) = uint b"
proof -
  have m: "b AND 0xf = take_bit 4 b" by (simp add: take_bit_eq_mask mask_eq_exp_minus_1)
  have "unat (drop_bit 4 b) = unat b div 16" using unat_drop_bit_eq [of 4 b] by (simp only: drop_bit_eq_div [of 4 "unat b"]) simp
  moreover have "unat b div 16 < 16" using unat_byte_less [of b] by (intro less_mult_imp_div_less) simp
  ultimately show "drop_bit 4 b < 16" by (simp add: word_less_nat_alt)
  have "unat (take_bit 4 b) = unat b mod 16"
    by (simp only: unsigned_take_bit_eq take_bit_eq_mod [of 4 "unat b"]) simp
  then show "b AND 0xf < 16" by (simp add: m word_less_nat_alt)
  show "push_bit 4 (drop_bit 4 b) OR (b AND 0xf) = b"
    unfolding m by (rule bit_word_eqI) (auto simp: bit_simps)
  have "unat (drop_bit 4 b) * 16 + unat (b AND 0xf) = unat b"
    using \<open>unat (drop_bit 4 b) = unat b div 16\<close> \<open>unat (take_bit 4 b) = unat b mod 16\<close> by (simp add: m)
  then have "int (unat (drop_bit 4 b)) * 16 + int (unat (b AND 0xf)) = int (unat b)" by linarith
  then show "uint (drop_bit 4 b) * 16 + uint (b AND 0xf) = uint b" by simp
qed

text \<open>Reading a byte back from its two digits, in the three ways the code does it.\<close>

lemma nibble_or_xdigit:
  "nibble_or c acc = (case xdigit c of None \<Rightarrow> acc | Some d \<Rightarrow> acc OR ucast d)"
  by (simp add: nibble_or_def xdigit_def)

lemma hex2_xdigits:
  assumes "a = 65 \<or> a = 97"
  shows "\<exists>x y. hex2 a b = [x, y] \<and> xdigit x = Some (drop_bit 4 b) \<and> xdigit y = Some (b AND 0xf)"
  using assms byte_nibbles(1,2) [of b] by (simp add: hex2_def xdigit_hex_digit)

lemma base16_loop_hex2: "base16_loop (hex2 97 b @ s) = b # base16_loop s"
proof -
  obtain x y where xy: "hex2 97 b = [x, y]" "xdigit x = Some (drop_bit 4 b)" "xdigit y = Some (b AND 0xf)"
    using hex2_xdigits by blast
  have "ucast (push_bit 4 (ucast (drop_bit 4 b) :: 64 word) OR ucast (b AND 0xf)) = push_bit 4 (drop_bit 4 b) OR (b AND 0xf)"
    by (rule bit_word_eqI) (auto simp: bit_simps)
  with xy show ?thesis by (simp add: nibble_or_xdigit byte_nibbles(3))
qed

lemma length_hex2 [simp]: "length (hex2 a b) = 2" "hex2 a b \<noteq> []"
  by (simp_all add: hex2_def)

lemma xdigit_printable: "xdigit c = Some d \<Longrightarrow> c \<noteq> 13 \<and> c \<noteq> 10 \<and> c \<noteq> 43 \<and> c \<noteq> 45 \<and> c \<noteq> 0 \<and> \<not> isspace c"
  by (auto simp: xdigit_def isdigit_def tolower_def isspace_def split: if_splits)

lemma strtol16_hex2:
  assumes "a = 65 \<or> a = 97"
  shows "word_of_int (strtol16 (hex2 a b)) = b"
proof -
  obtain x y where xy: "hex2 a b = [x, y]" "xdigit x = Some (drop_bit 4 b)" "xdigit y = Some (b AND 0xf)"
    using hex2_xdigits [OF assms] by blast
  then show ?thesis
    using xdigit_printable [OF xy(2)] byte_nibbles(4) [of b]
    by (simp add: strtol16_def mult.commute)
qed

lemma base16_encode_parts: "length (concat (map (hex2 a) d)) = 2 * length d"
  by (induction d) simp_all

text \<open>Every nonempty byte string is written as twice as many hexadecimal characters and read back
  unchanged; the empty string and strings of odd length are refused.\<close>

theorem base16_roundtrip:
  "(d \<noteq> [] \<longrightarrow> (\<exists>s. purple_base16_encode d = Some s \<and> length s = 2 * length d \<and> purple_base16_decode s = Some d)) \<and>
   purple_base16_encode [] = None \<and> purple_base16_decode [] = None \<and>
   (odd (length t) \<longrightarrow> purple_base16_decode t = None)"
proof -
  have "base16_loop (concat (map (hex2 97) d)) = d" by (induction d) (simp_all add: base16_loop_hex2)
  then show ?thesis
    by (auto simp: purple_base16_encode_def purple_base16_decode_def base16_encode_parts odd_iff_mod_2_eq_one)
qed

theorem base16_roundtrip_witness:
  "purple_base16_encode [0, 255] = Some [48, 48, 102, 102] \<and> purple_base16_decode [48, 48, 102, 102] = Some [0, 255]"
proof -
  have "purple_base16_encode [0, 255] = Some [48, 48, 102, 102]"
    by (simp add: purple_base16_encode_def hex2_def hex_digit_def)
  with base16_roundtrip [of "[0, 255]" "[]"] show ?thesis by simp
qed

subsection \<open>Quoted-printable encodings\<close>

text \<open>
  The encodings of a text: a byte other than \<open>=\<close> and \<open>_\<close> as itself, a space as \<open>_\<close>, any byte as
  two digits after \<open>=\<close>, and soft line breaks anywhere.
\<close>

inductive qp_encodes :: "bytes \<Rightarrow> bytes \<Rightarrow> bool" where
  qp_Nil: "qp_encodes [] []"
| qp_literal: "qp_encodes d e \<Longrightarrow> c \<noteq> 61 \<Longrightarrow> c \<noteq> 95 \<Longrightarrow> qp_encodes (c # d) (c # e)"
| qp_space: "qp_encodes d e \<Longrightarrow> qp_encodes (32 # d) (95 # e)"
| qp_hex: "qp_encodes d e \<Longrightarrow> a = 65 \<or> a = 97 \<Longrightarrow> qp_encodes (b # d) (61 # hex2 a b @ e)"
| qp_crlf: "qp_encodes d e \<Longrightarrow> qp_encodes d (61 # 13 # 10 # e)"
| qp_lf: "qp_encodes d e \<Longrightarrow> qp_encodes d (61 # 10 # e)"

text \<open>Whatever choices an encoder made, decoding quoted-printable text gives the original bytes.\<close>

theorem quotedp_decode_encoded:
  assumes "qp_encodes d e"
  shows "purple_quotedp_decode e = d"
  using assms
proof (induction rule: qp_encodes.induct)
  case (qp_hex d e a b)
  obtain x y where xy: "hex2 a b = [x, y]" "xdigit x = Some (drop_bit 4 b)" "xdigit y = Some (b AND 0xf)"
    using hex2_xdigits [OF qp_hex(2)] by blast
  then show ?case using xdigit_printable [OF xy(2)] qp_hex.IH by (simp add: byte_nibbles(3))
next
  case (qp_lf d e)
  then show ?case by (cases e) simp_all
qed simp_all

theorem quotedp_decode_encoded_witness:
  "purple_quotedp_decode [97, 61, 13, 10, 61, 51, 68, 95] = [97, 61, 32]"
proof -
  have "qp_encodes [97, 61, 32] ([97] @ [61, 13, 10] @ 61 # hex2 65 61 @ [95])"
    by (simp, intro qp_literal qp_crlf qp_hex qp_space qp_Nil) simp_all
  moreover have "[97] @ [61, 13, 10] @ 61 # hex2 65 61 @ [95] = [97, 61, 13, 10, 61, 51, 68, 95]"
    by (simp add: hex2_def hex_digit_def)
  ultimately show ?thesis using quotedp_decode_encoded by metis
qed

subsection \<open>Percent escapes\<close>

text \<open>
  The contract of an escaper, which both users of the decoder fulfil: the characters it keeps
  are neither the escape character nor the NUL.
\<close>

locale escaper =
  fixes base :: byte and keep :: "byte \<Rightarrow> bool"
  assumes base: "base = 65 \<or> base = 97"
    and keep_safe: "keep c \<Longrightarrow> c \<noteq> 37 \<and> c \<noteq> 0"
begin

lemma decode_hex: "url_decode_loop (37 # hex2 base b @ s) = b # url_decode_loop s"
  using strtol16_hex2 [OF base] by simp

lemma escape_bytes_decode:
  assumes "j + 3 * length bs \<le> BUF_LEN - 1"
  shows "url_decode_loop (escape_bytes base bs j @ s) = bs @ url_decode_loop s \<and>
    length (escape_bytes base bs j) = 3 * length bs"
  using assms
proof (induction bs arbitrary: j)
  case (Cons b bs)
  then show ?case using decode_hex [of b "escape_bytes base bs (j + 3) @ s"] by (simp add: BUF_LEN_def)
qed simp

lemma escape_char_decode:
  assumes "j + 3 * length ch \<le> BUF_LEN - 1" and "ch \<noteq> []"
  shows "\<exists>e. escape_loop base keep (ch # chs) j = e @ escape_loop base keep chs (j + length e) \<and>
    (\<forall>s. url_decode_loop (e @ s) = ch @ url_decode_loop s) \<and> length e \<le> 3 * length ch"
proof -
  have j: "j < BUF_LEN - 1" using assms by (cases ch) auto
  show ?thesis
  proof (cases "\<exists>c. ch = [c] \<and> unat c < 128 \<and> keep c")
    case True
    then obtain c where c: "ch = [c]" "unat c < 128" "keep c" by blast
    then show ?thesis using j keep_safe by (intro exI [of _ "[c]"]) simp
  next
    case False
    then have "escape_loop base keep (ch # chs) j =
        escape_bytes base ch j @ escape_loop base keep chs (j + length (escape_bytes base ch j))"
      using j by (auto simp: Let_def numeral_3_eq_3 split: list.split)
    then show ?thesis
      by (intro exI [of _ "escape_bytes base ch j"]) (simp add: escape_bytes_decode [OF assms(1)]
          escape_bytes_decode [OF assms(1), of "[]", simplified])
  qed
qed

lemma escape_loop_decode:
  assumes "j + 3 * length (concat chs) \<le> BUF_LEN - 1" and "\<forall>ch \<in> set chs. ch \<noteq> []"
  shows "url_decode_loop (escape_loop base keep chs j) = concat chs \<and>
    length (escape_loop base keep chs j) \<le> 3 * length (concat chs)"
  using assms
proof (induction chs arbitrary: j)
  case (Cons ch chs)
  have ch: "j + 3 * length ch \<le> BUF_LEN - 1" "ch \<noteq> []" using Cons.prems by simp_all
  obtain e where e: "escape_loop base keep (ch # chs) j = e @ escape_loop base keep chs (j + length e)"
      "\<And>s. url_decode_loop (e @ s) = ch @ url_decode_loop s" "length e \<le> 3 * length ch"
    using escape_char_decode [OF ch, of chs] by blast
  have "j + length e + 3 * length (concat chs) \<le> BUF_LEN - 1"
    using Cons.prems(1) e(3) by simp
  from Cons.IH [OF this] Cons.prems(2) show ?case
    unfolding e(1) using e(2,3) by simp
qed simp

end

lemma utf8_chars_concat: "concat (utf8_chars s) = s \<and> (\<forall>ch \<in> set (utf8_chars s). ch \<noteq> [])"
  by (induction s rule: utf8_chars.induct) (auto simp: utf8_skip_def Let_def)

interpretation url: escaper 65 url_keep
  by unfold_locales (auto simp: url_keep_def isalnum_def isdigit_def tolower_def)

interpretation filename: escaper 97 filename_keep
  by unfold_locales (auto simp: filename_keep_def isalnum_def isdigit_def tolower_def)

lemma takeWhile_nonzero: "(0 :: byte) \<notin> set s \<Longrightarrow> takeWhile (\<lambda>b. b \<noteq> 0) s = s"
  by (induction s) auto

text \<open>C37: Escaping a valid UTF-8 text of at most 682 bytes, as a URL or as a file name, and unescaping
  it gives the text back.\<close>

theorem percent_escape_roundtrip:
  assumes "valid_len s = length s" and "0 \<notin> set s" and "3 * length s < BUF_LEN"
  shows "(\<exists>e. purple_url_encode valid_len s = Some e \<and> purple_url_decode valid_len e = Some s) \<and>
    (\<exists>e. purple_escape_filename valid_len s = Some e \<and> purple_unescape_filename valid_len e = Some s)"
proof -
  have le: "0 + 3 * length (concat (utf8_chars s)) \<le> BUF_LEN - 1"
    using assms(3) by (simp add: utf8_chars_concat)
  note u = url.escape_loop_decode [OF le] and f = filename.escape_loop_decode [OF le]
  show ?thesis
    using assms u f utf8_chars_concat [of s]
    by (auto simp: purple_url_encode_def purple_url_decode_def purple_escape_filename_def
        purple_unescape_filename_def takeWhile_nonzero)
qed

theorem percent_escape_roundtrip_witness:
  "\<exists>e. purple_url_encode length [97, 32, 195, 169] = Some e \<and> purple_url_decode length e = Some [97, 32, 195, 169]"
  using percent_escape_roundtrip [of length "[97, 32, 195, 169]"] by (simp add: BUF_LEN_def)

subsection \<open>String helpers\<close>

text \<open>No line feed without a carriage return before it.\<close>

fun crlf_only :: "byte \<Rightarrow> bytes \<Rightarrow> bool" where
  "crlf_only prev [] = True"
| "crlf_only prev (c # s) = ((c = 10 \<longrightarrow> prev = 13) \<and> crlf_only c s)"

lemma add_cr_loop_crlf: "crlf_only prev (add_cr_loop prev s)"
  by (induction s arbitrary: prev) auto

lemma add_cr_loop_id: "crlf_only prev s \<Longrightarrow> add_cr_loop prev s = s"
  by (induction s arbitrary: prev) auto

lemma add_cr_loop_strip: "filter (\<lambda>b. b \<noteq> 13) (add_cr_loop prev s) = filter (\<lambda>b. b \<noteq> 13) s"
  by (induction s arbitrary: prev) auto

text \<open>After \<open>purple_str_add_cr\<close> every line feed follows a carriage return, doing it again changes
  nothing, and nothing but carriage returns was added.\<close>

theorem str_add_cr_normalizes:
  "crlf_only 0 (purple_str_add_cr s) \<and> purple_str_add_cr (purple_str_add_cr s) = purple_str_add_cr s \<and>
   purple_str_strip_char (purple_str_add_cr s) 13 = purple_str_strip_char s 13"
  by (simp add: purple_str_add_cr_def purple_str_strip_char_def add_cr_loop_crlf add_cr_loop_id add_cr_loop_strip)

lemma strcasereplace_total: "d \<noteq> [] \<Longrightarrow> \<exists>x. strcasereplace_loop s d r ret = Some x"
proof (induction "length s" arbitrary: s ret rule: less_induct)
  case less
  then show ?case
    by (subst strcasereplace_loop.simps) (auto split: list.split)
qed

lemma strcasereplace_stuck: "strcasereplace_loop s [] r ret = Some x \<Longrightarrow> s = []"
proof -
  have "d = [] \<longrightarrow> s = []" if "strcasereplace_loop s d r ret = Some x" for s d r ret x
    by (rule strcasereplace_loop.raw_induct [where P = "\<lambda>s d r ret x. d = [] \<longrightarrow> s = []", OF _ that])
      (auto simp: strncaseeq_def split: list.splits if_splits, blast)
  then show "strcasereplace_loop s [] r ret = Some x \<Longrightarrow> s = []" by blast
qed

lemma strcasereplace_returns_iff: "purple_strcasereplace s d r = None \<longleftrightarrow> d = [] \<and> s \<noteq> []"
proof (cases "d = []")
  case True
  have "strcasereplace_loop [] [] r [] = Some []" by (subst strcasereplace_loop.simps) simp
  then show ?thesis using strcasereplace_stuck [of s r "[]"] True
    by (cases "strcasereplace_loop s [] r []") (auto simp: purple_strcasereplace_def)
next
  case False
  then show ?thesis using strcasereplace_total [of d s r "[]"] by (auto simp: purple_strcasereplace_def)
qed

text \<open>The search finds the first position where the needle occurs, ignoring the case of letters.\<close>

lemma strcasestr_loop_Some:
  "strcasestr_loop s needle i = Some k \<Longrightarrow>
   i \<le> k \<and> k - i + length needle \<le> length s \<and> strncaseeq needle (drop (k - i) s) (length needle) \<and>
   (\<forall>l < k - i. \<not> strncaseeq needle (drop l s) (length needle))"
proof (induction s needle i rule: strcasestr_loop.induct)
  case (2 c s needle i)
  show ?case
  proof (cases "strncaseeq needle (c # s) (length needle)")
    case True
    with 2 show ?thesis by (auto split: if_splits)
  next
    case False
    with 2 have IH: "i + 1 \<le> k" "k - (i + 1) + length needle \<le> length s"
      "strncaseeq needle (drop (k - (i + 1)) s) (length needle)"
      "\<forall>l < k - (i + 1). \<not> strncaseeq needle (drop l s) (length needle)"
      by (auto split: if_splits)
    have "k - i = Suc (k - (i + 1))" using IH(1) by simp
    moreover have "\<not> strncaseeq needle (drop l (c # s)) (length needle)" if "l < Suc (k - (i + 1))" for l
      using that False IH(4) by (cases l) auto
    ultimately show ?thesis using IH by simp
  qed
qed simp

end
