(* ===== verification/Util_Markup.thy ===== *)
theory Util_Markup
  imports Purple_Base
begin

section \<open>Slices of marked-up text (\<open>libpurple/util.c\<close>)\<close>

text \<open>
  \<open>purple_markup_slice\<close> cuts a piece out of HTML by the positions of its visible characters.
  Text is a list of code points (what \<open>g_utf8_get_char\<close> and \<open>g_utf8_next_char\<close> step through in
  valid UTF-8; the delimiters are ASCII), the queue of open tags a list with its head first.
\<close>

type_synonym utext = "nat list"

definition utf :: "string \<Rightarrow> utext" where
  "utf s = map of_char s"

text \<open>\<open>strchr\<close>: the text up to and with the first \<open>c\<close>, and what follows it.\<close>

fun split_at :: "nat \<Rightarrow> utext \<Rightarrow> (utext \<times> utext) option" where
  "split_at c [] = None"
| "split_at c (x # s) = (if x = c then Some ([x], s) else map_option (\<lambda>(a, b). (x # a, b)) (split_at c s))"

lemma split_at_Some: "split_at c s = Some (a, b) \<Longrightarrow> s = a @ b \<and> a \<noteq> []"
  by (induction s arbitrary: a b) (auto split: if_splits)

definition lower :: "nat \<Rightarrow> nat" where
  "lower c = (if 65 \<le> c \<and> c \<le> 90 then c + 32 else c)"

text \<open>\<open>g_ascii_strncasecmp (str, prefix, strlen (prefix)) = 0\<close>.\<close>

definition has_prefix_ci :: "utext \<Rightarrow> string \<Rightarrow> bool" where
  "has_prefix_ci s p = (map lower (take (length p) s) = map lower (utf p))"

definition purple_markup_get_tag_name :: "utext \<Rightarrow> utext option" where
  "purple_markup_get_tag_name tag =
     (case tag of [] \<Rightarrow> None
      | c # s \<Rightarrow> if c = 60 then Some (takeWhile (\<lambda>x. x \<noteq> 62 \<and> x \<noteq> 32 \<and> x \<noteq> 47) s) else None)"

text \<open>What a tag adds to the visible position, and what it does to the queue.\<close>

definition tag_width :: "utext \<Rightarrow> nat" where
  "tag_width s = (if has_prefix_ci s ''<img '' then 7
     else if has_prefix_ci s ''<br'' then 1
     else if has_prefix_ci s ''<hr>'' then 5 else 0)"

definition tag_queue :: "utext \<Rightarrow> utext \<Rightarrow> utext list \<Rightarrow> utext list" where
  "tag_queue s tag q =
     (if has_prefix_ci s ''<img '' \<or> has_prefix_ci s ''<br'' \<or> has_prefix_ci s ''<hr>'' then q
      else if has_prefix_ci s ''</'' then tl q
      else tag # q)"

definition close_tags :: "utext list \<Rightarrow> utext" where
  "close_tags q = concat (map (\<lambda>t. utf ''</'' @ (case purple_markup_get_tag_name t of Some n \<Rightarrow> n | None \<Rightarrow> []) @ utf ''>'') q)"

function slice_loop :: "nat \<Rightarrow> nat \<Rightarrow> nat \<Rightarrow> utext \<Rightarrow> utext list \<Rightarrow> bool \<Rightarrow> utext \<Rightarrow> utext option" where
  "slice_loop x y z ret q appended [] = Some (ret @ close_tags q)"
| "slice_loop x y z ret q appended (c # s) =
     (if \<not> z < y then Some (ret @ close_tags q)
      else if c = 60 then
        (case split_at 62 (c # s) of
           None \<Rightarrow> None
         | Some (tag, s') \<Rightarrow>
             let z = z + tag_width (c # s); q = tag_queue (c # s) tag q
             in slice_loop x y z (if z \<ge> x then ret @ tag else ret) q appended s')
      else if c = 38 then
        (case split_at 59 (c # s) of
           None \<Rightarrow> None
         | Some (ent, s') \<Rightarrow> slice_loop x y (z + 1) (if z \<ge> x then ret @ ent else ret) q appended s')
      else
        let open_now = (z = x \<and> z > 0 \<and> \<not> appended);
            ret = (if open_now then ret @ concat (rev q) else ret)
        in slice_loop x y (z + 1) (if z \<ge> x then ret @ [c] else ret) q (appended \<or> open_now) s)"
  by pat_completeness auto
termination
  by (relation "measure (\<lambda>(x, y, z, ret, q, appended, s). length s)")
    (auto dest!: split_at_Some split: if_splits)

definition purple_markup_slice :: "utext \<Rightarrow> nat \<Rightarrow> nat \<Rightarrow> utext option" where
  "purple_markup_slice s x y =
     (if \<not> x \<le> y then None else if x = y then Some [] else slice_loop x y 0 [] [] False s)"

text \<open>Text without markup is cut by position.\<close>

definition plain :: "utext \<Rightarrow> bool" where
  "plain s \<longleftrightarrow> 60 \<notin> set s \<and> 38 \<notin> set s"

lemma slice_loop_plain:
  "plain s \<Longrightarrow> slice_loop x y z ret [] app s = Some (ret @ take (y - max x z) (drop (x - z) s))"
proof (induction s arbitrary: z ret app)
  case Nil
  then show ?case by (simp add: close_tags_def)
next
  case (Cons c s)
  then have "plain s" "c \<noteq> 60" "c \<noteq> 38" by (auto simp: plain_def)
  then show ?case
    using Cons.IH by (cases "x \<le> z"; cases "z < y")
      (auto simp: close_tags_def Let_def max_def take_Cons' drop_Cons' Suc_diff_Suc not_le le_Suc_eq)
qed

lemma slice_plain: "plain s \<Longrightarrow> x \<le> y \<Longrightarrow> purple_markup_slice s x y = Some (take (y - x) (drop x s))"
  by (simp add: purple_markup_slice_def slice_loop_plain)

end
