(* ===== verification/Purple_Cmds.thy ===== *)
theory Purple_Cmds
  imports Util_Markup "HOL-Library.List_Lexorder"
begin

section \<open>Commands (\<open>libpurple/cmds.c\<close>)\<close>

text \<open>
  The registry of the commands a user types (\<open>/nick x\<close>): a list ordered by priority, the
  parser of their arguments and the dispatcher.  A command's function is the parameter
  \<open>run\<close>, on a state of type \<open>'s\<close> that stands for the conversation and everything behind it; it
  is assumed not to touch the registry while the dispatcher walks over it.  The registry
  signals and UI calls are events.  \<open>g_unichar_isspace\<close> (GLib) is a parameter.  Identifiers are
  32-bit and wrap around.
\<close>

type_synonym word32 = "32 word"

datatype PurpleConversationType =
    PURPLE_CONV_TYPE_UNKNOWN | PURPLE_CONV_TYPE_IM | PURPLE_CONV_TYPE_CHAT
  | PURPLE_CONV_TYPE_MISC | PURPLE_CONV_TYPE_ANY

datatype PurpleCmdStatus =
    PURPLE_CMD_STATUS_OK | PURPLE_CMD_STATUS_FAILED | PURPLE_CMD_STATUS_NOT_FOUND
  | PURPLE_CMD_STATUS_WRONG_ARGS | PURPLE_CMD_STATUS_WRONG_PRPL | PURPLE_CMD_STATUS_WRONG_TYPE

datatype PurpleCmdRet = PURPLE_CMD_RET_OK | PURPLE_CMD_RET_FAILED | PURPLE_CMD_RET_CONTINUE

definition PURPLE_CMD_FLAG_IM :: word32 where "PURPLE_CMD_FLAG_IM = 0x01"
definition PURPLE_CMD_FLAG_CHAT :: word32 where "PURPLE_CMD_FLAG_CHAT = 0x02"
definition PURPLE_CMD_FLAG_PRPL_ONLY :: word32 where "PURPLE_CMD_FLAG_PRPL_ONLY = 0x04"
definition PURPLE_CMD_FLAG_ALLOW_WRONG_ARGS :: word32 where "PURPLE_CMD_FLAG_ALLOW_WRONG_ARGS = 0x08"

record cmd =
  c_id :: word32
  c_cmd :: utext
  c_args :: string
  c_priority :: int
  c_flags :: word32
  c_prpl_id :: cstring
  c_func :: nat
  c_help :: utext

datatype cmd_event =
    Ui_register utext int word32 cstring
  | Cmd_added utext int word32
  | Ui_unregister utext cstring
  | Cmd_removed utext

record cmds =
  cmds :: "cmd list"
  next_id :: word32
  ui_registers :: bool
  ui_unregisters :: bool
  cmd_events :: "cmd_event list"

definition has_flag :: "cmd \<Rightarrow> word32 \<Rightarrow> bool" where
  "has_flag c f \<longleftrightarrow> c_flags c AND f \<noteq> 0"

definition cmds_compare_func :: "cmd \<Rightarrow> cmd \<Rightarrow> int" where
  "cmds_compare_func a b =
     (if c_priority a > c_priority b then - 1 else if c_priority a < c_priority b then 1 else 0)"

definition purple_cmd_register ::
  "cmds \<Rightarrow> utext \<Rightarrow> cstring \<Rightarrow> int \<Rightarrow> word32 \<Rightarrow> cstring \<Rightarrow> nat \<Rightarrow> utext \<Rightarrow> word32 \<times> cmds" where
  "purple_cmd_register st name args p f prpl func help =
     (case args of
        None \<Rightarrow> (0, st)
      | Some args \<Rightarrow>
          if name = [] \<or> func = 0 then (0, st)
          else
            let i = next_id st;
                c = \<lparr>c_id = i, c_cmd = name, c_args = args, c_priority = p, c_flags = f, c_prpl_id = prpl,
                     c_func = func, c_help = help\<rparr>;
                st = st\<lparr>next_id := i + 1, cmds := g_list_insert_sorted cmds_compare_func c (cmds st)\<rparr>;
                st = (if ui_registers st
                      then st\<lparr>cmd_events := cmd_events st @ [Ui_register name p f prpl]\<rparr> else st)
            in (i, st\<lparr>cmd_events := cmd_events st @ [Cmd_added name p f]\<rparr>))"

fun remove_cmd :: "word32 \<Rightarrow> cmd list \<Rightarrow> (cmd \<times> cmd list) option" where
  "remove_cmd i [] = None"
| "remove_cmd i (c # l) = (if c_id c = i then Some (c, l) else map_option (\<lambda>(d, l). (d, c # l)) (remove_cmd i l))"

definition purple_cmd_unregister :: "cmds \<Rightarrow> word32 \<Rightarrow> cmds" where
  "purple_cmd_unregister st i =
     (case remove_cmd i (cmds st) of
        None \<Rightarrow> st
      | Some (c, l) \<Rightarrow>
          let st = (if ui_unregisters st
                    then st\<lparr>cmd_events := cmd_events st @ [Ui_unregister (c_cmd c) (c_prpl_id c)]\<rparr> else st)
          in st\<lparr>cmds := l, cmd_events := cmd_events st @ [Cmd_removed (c_cmd c)]\<rparr>)"

subsection \<open>Arguments\<close>

text \<open>
  One argument: \<open>off\<close> is the offset of \<open>cur\<close> in the plain command line, \<open>m\<close> the command line
  with its markup.  A word ends before a space, which is skipped.
\<close>

definition word_of :: "utext \<Rightarrow> utext" where
  "word_of cur = takeWhile (\<lambda>c. c \<noteq> 32) cur"

definition after_word :: "utext \<Rightarrow> utext" where
  "after_word cur = drop (length (word_of cur) + 1) cur"

fun parse_args_loop :: "bool \<Rightarrow> string \<Rightarrow> utext \<Rightarrow> nat \<Rightarrow> utext \<Rightarrow> bool \<times> utext option list" where
  "parse_args_loop wrong [] cur off m = (if cur \<noteq> [] then wrong else True, [])"
| "parse_args_loop wrong (a # as) cur off m =
     (if cur = [] then (wrong, replicate (length (a # as)) None)
      else
        let (arg, cur', off') =
          (if a = CHR ''w''
           then (Some (word_of cur), after_word cur, off + length cur - length (after_word cur))
           else if a = CHR ''W''
           then (purple_markup_slice m off (off + length (word_of cur)), after_word cur,
                 off + length cur - length (after_word cur))
           else if a = CHR ''s'' then (Some cur, [], off + length cur)
           else if a = CHR ''S''
           then (purple_markup_slice m off (length cur + 1), [], off + length cur)
           else (None, cur, off));
            (ok, rest) = parse_args_loop wrong as cur' off' m
        in (ok, arg # rest))"

definition purple_cmd_parse_args :: "cmd \<Rightarrow> utext \<Rightarrow> utext \<Rightarrow> bool \<times> utext option list" where
  "purple_cmd_parse_args c s m =
     parse_args_loop (has_flag c PURPLE_CMD_FLAG_ALLOW_WRONG_ARGS) (c_args c) s 0 m"

text \<open>The first word of a command line is removed from its markup, tags before it are kept.\<close>

function purple_cmd_strip_cmd_from_markup :: "(nat \<Rightarrow> bool) \<Rightarrow> utext \<Rightarrow> utext" where
  "purple_cmd_strip_cmd_from_markup isspace [] = []"
| "purple_cmd_strip_cmd_from_markup isspace (c # s) =
     (if c = 60 then
        (case split_at 62 (c # s) of
           None \<Rightarrow> c # s
         | Some (tag, s') \<Rightarrow> tag @ purple_cmd_strip_cmd_from_markup isspace s')
      else if isspace c then s
      else purple_cmd_strip_cmd_from_markup isspace s)"
  by pat_completeness auto
termination
  by (relation "measure (\<lambda>(_, s). length s)") (auto dest!: split_at_Some split: if_splits)

subsection \<open>The dispatcher\<close>

record conv =
  conv_type :: PurpleConversationType
  protocol_id :: cstring

type_synonym 's cmd_run =
  "nat \<Rightarrow> utext \<Rightarrow> utext option list \<Rightarrow> 's \<Rightarrow> PurpleCmdRet \<times> utext option \<times> 's"

record 's dispatch =
  found :: bool
  tried_cmd :: bool
  right_type :: bool
  right_prpl :: bool
  ret :: PurpleCmdRet
  err :: "utext option"
  world :: 's

text \<open>The tests on the kind of the conversation and on the protocol.\<close>

definition type_ok :: "conv \<Rightarrow> cmd \<Rightarrow> bool" where
  "type_ok conv c =
     (if conv_type conv = PURPLE_CONV_TYPE_IM then has_flag c PURPLE_CMD_FLAG_IM
      else has_flag c PURPLE_CMD_FLAG_CHAT)"

definition prpl_ok :: "conv \<Rightarrow> cmd \<Rightarrow> bool" where
  "prpl_ok conv c \<longleftrightarrow>
     \<not> (has_flag c PURPLE_CMD_FLAG_PRPL_ONLY \<and> \<not> purple_strequal (c_prpl_id c) (protocol_id conv))"

fun dispatch_loop ::
  "'s cmd_run \<Rightarrow> conv \<Rightarrow> utext \<Rightarrow> utext \<Rightarrow> utext \<Rightarrow> cmd list \<Rightarrow> 's dispatch \<Rightarrow> 's dispatch" where
  "dispatch_loop run conv name rest mrest [] d = d"
| "dispatch_loop run conv name rest mrest (c # l) d =
     (if c_cmd c \<noteq> name then dispatch_loop run conv name rest mrest l d
      else let d = d\<lparr>found := True\<rparr> in
        if \<not> type_ok conv c then dispatch_loop run conv name rest mrest l d
        else let d = d\<lparr>right_type := True\<rparr> in
          if \<not> prpl_ok conv c then dispatch_loop run conv name rest mrest l d
          else let d = d\<lparr>right_prpl := True\<rparr> in
            (case purple_cmd_parse_args c rest mrest of
               (False, _) \<Rightarrow> dispatch_loop run conv name rest mrest l d
             | (True, args) \<Rightarrow>
                 (case run (c_func c) name args (world d) of
                    (r, e, w) \<Rightarrow>
                      let d = d\<lparr>tried_cmd := True, ret := r, err := e, world := w\<rparr>
                      in if r = PURPLE_CMD_RET_CONTINUE
                         then dispatch_loop run conv name rest mrest l (d\<lparr>err := None\<rparr>)
                         else d)))"

definition purple_cmd_do_command ::
  "(nat \<Rightarrow> bool) \<Rightarrow> 's cmd_run \<Rightarrow> cmds \<Rightarrow> conv \<Rightarrow> utext \<Rightarrow> utext \<Rightarrow> 's \<Rightarrow> PurpleCmdStatus \<times> utext option \<times> 's" where
  "purple_cmd_do_command isspace run st conv cmdline markup w =
     (if conv_type conv \<noteq> PURPLE_CONV_TYPE_IM \<and> conv_type conv \<noteq> PURPLE_CONV_TYPE_CHAT
      then (PURPLE_CMD_STATUS_FAILED, None, w)
      else
        let d = dispatch_loop run conv (word_of cmdline) (after_word cmdline)
                  (purple_cmd_strip_cmd_from_markup isspace markup) (cmds st)
                  \<lparr>found = False, tried_cmd = False, right_type = False, right_prpl = False,
                   ret = PURPLE_CMD_RET_CONTINUE, err = None, world = w\<rparr>
        in if \<not> found d then (PURPLE_CMD_STATUS_NOT_FOUND, None, world d)
           else if \<not> right_type d then (PURPLE_CMD_STATUS_WRONG_TYPE, None, world d)
           else if \<not> right_prpl d then (PURPLE_CMD_STATUS_WRONG_PRPL, None, world d)
           else if \<not> tried_cmd d then (PURPLE_CMD_STATUS_WRONG_ARGS, None, world d)
           else if ret d = PURPLE_CMD_RET_OK then (PURPLE_CMD_STATUS_OK, None, world d)
           else if ret d = PURPLE_CMD_RET_CONTINUE then (PURPLE_CMD_STATUS_NOT_FOUND, err d, world d)
           else (PURPLE_CMD_STATUS_FAILED, err d, world d))"

definition purple_cmd_execute ::
  "'s cmd_run \<Rightarrow> cmd \<Rightarrow> conv \<Rightarrow> utext \<Rightarrow> 's \<Rightarrow> bool \<times> 's" where
  "purple_cmd_execute run c conv cmdline w =
     (if conv_type conv = PURPLE_CONV_TYPE_IM \<and> \<not> has_flag c PURPLE_CMD_FLAG_IM then (False, w)
      else if conv_type conv = PURPLE_CONV_TYPE_CHAT \<and> \<not> has_flag c PURPLE_CMD_FLAG_CHAT then (False, w)
      else if conv_type conv \<noteq> PURPLE_CONV_TYPE_IM \<and> conv_type conv \<noteq> PURPLE_CONV_TYPE_CHAT then (False, w)
      else
        (case purple_cmd_parse_args c cmdline cmdline of
           (False, _) \<Rightarrow> (False, w)
         | (True, args) \<Rightarrow>
             (case run (c_func c) (c_cmd c) args w of (r, _, w) \<Rightarrow> (r = PURPLE_CMD_RET_OK, w))))"

text \<open>The filter of the two listings; without a conversation everything is listed.\<close>

definition listed :: "conv option \<Rightarrow> cmd \<Rightarrow> bool" where
  "listed conv c =
     (case conv of
        None \<Rightarrow> True
      | Some cv \<Rightarrow>
          \<not> (conv_type cv = PURPLE_CONV_TYPE_IM \<and> \<not> has_flag c PURPLE_CMD_FLAG_IM) \<and>
          \<not> (conv_type cv = PURPLE_CONV_TYPE_CHAT \<and> \<not> has_flag c PURPLE_CMD_FLAG_CHAT) \<and>
          prpl_ok cv c)"

definition purple_cmd_list :: "cmds \<Rightarrow> conv option \<Rightarrow> utext list" where
  "purple_cmd_list st conv = sort (map c_cmd (filter (listed conv) (cmds st)))"

definition purple_cmd_help :: "cmds \<Rightarrow> conv option \<Rightarrow> utext option \<Rightarrow> utext list" where
  "purple_cmd_help st conv name =
     sort (map c_help (filter (\<lambda>c. \<not> (name \<noteq> None \<and> name \<noteq> Some (c_cmd c)) \<and> listed conv c) (cmds st)))"

subsection \<open>The registry\<close>

interpretation cmd_rank: ranked_cmp cmds_compare_func "\<lambda>c. - c_priority c"
  by unfold_locales (simp add: cmds_compare_func_def)

definition cmds_wf :: "cmds \<Rightarrow> bool" where
  "cmds_wf st \<longleftrightarrow>
     sorted (map (\<lambda>c. - c_priority c) (cmds st)) \<and> distinct (map c_id (cmds st)) \<and> next_id st \<noteq> 0 \<and>
     (\<forall>c \<in> set (cmds st). c_id c \<noteq> 0 \<and> c_id c < next_id st)"

lemma remove_cmd_Some:
  "remove_cmd i l = Some (c, l') \<Longrightarrow> \<exists>xs ys. l = xs @ c # ys \<and> l' = xs @ ys \<and> c_id c = i"
proof (induction l arbitrary: l')
  case (Cons a l)
  show ?case
  proof (cases "c_id a = i")
    case True
    with Cons.prems show ?thesis by (intro exI [of _ "[]"] exI [of _ l]) auto
  next
    case False
    with Cons.prems obtain l2 where "remove_cmd i l = Some (c, l2)" "l' = a # l2" by auto
    with Cons.IH obtain xs ys where "l = xs @ c # ys" "l2 = xs @ ys" "c_id c = i" by blast
    with \<open>l' = a # l2\<close> show ?thesis by (intro exI [of _ "a # xs"] exI [of _ ys]) simp
  qed
qed simp

lemma remove_cmd_insert:
  assumes "i \<notin> c_id ` set l" and "c_id c = i"
  shows "remove_cmd i (g_list_insert_sorted cmds_compare_func c l) = Some (c, l)"
  using assms by (induction l) auto

lemma cmd_unregister_wf: "cmds_wf st \<Longrightarrow> cmds_wf (purple_cmd_unregister st i)"
  using remove_cmd_Some [of i "cmds st"]
  by (cases "remove_cmd i (cmds st)")
    (fastforce simp: cmds_wf_def purple_cmd_unregister_def Let_def sorted_append)+

text \<open>C36: Registering a command keeps the registry ordered by priority with distinct identifiers (while
  the 32-bit counter does not wrap around): the new command comes after those of higher and
  before those of the same or lower priority, and unregistering it restores the registry.\<close>

theorem cmd_register_unregister:
  assumes "cmds_wf st" and "next_id st + 1 \<noteq> 0" and "name \<noteq> []" and "func \<noteq> 0"
  shows "\<exists>c st'. purple_cmd_register st name (Some args) p f prpl func help = (c_id c, st') \<and>
    c_id c \<noteq> 0 \<and> c_id c \<notin> c_id ` set (cmds st) \<and> c_priority c = p \<and> c_cmd c = name \<and> cmds_wf st' \<and>
    cmds st' = takeWhile (\<lambda>x. p < c_priority x) (cmds st) @ c # dropWhile (\<lambda>x. p < c_priority x) (cmds st) \<and>
    cmds (purple_cmd_unregister st' (c_id c)) = cmds st"
proof -
  define c where "c = \<lparr>c_id = next_id st, c_cmd = name, c_args = args, c_priority = p, c_flags = f,
    c_prpl_id = prpl, c_func = func, c_help = help\<rparr>"
  define st' where "st' = snd (purple_cmd_register st name (Some args) p f prpl func help)"
  have reg: "purple_cmd_register st name (Some args) p f prpl func help = (c_id c, st')"
    using assms(3,4) by (simp add: st'_def purple_cmd_register_def c_def Let_def)
  have st': "cmds st' = g_list_insert_sorted cmds_compare_func c (cmds st)" "next_id st' = next_id st + 1"
    using assms(3,4) by (simp_all add: st'_def purple_cmd_register_def c_def Let_def)
  have fresh: "c_id c \<notin> c_id ` set (cmds st)" "c_id c \<noteq> 0"
    using assms(1) by (auto simp: cmds_wf_def c_def)
  have next_less: "next_id st < next_id st + 1"
    using assms(2) by (simp add: word_less_nat_alt unatSuc add.commute [of _ 1])
  have "cmds_wf st'"
    using assms(1,2) fresh next_less
    by (auto simp: cmds_wf_def st' cmd_rank.sorted_insert_sorted distinct_map_g_list_insert_sorted c_def
        dest: order_less_trans)
  moreover have "cmds (purple_cmd_unregister st' (c_id c)) = cmds st"
    using remove_cmd_insert [OF fresh(1) refl] by (simp add: purple_cmd_unregister_def st' Let_def)
  ultimately show ?thesis
    using reg fresh st'(1) cmd_rank.insert_sorted_takeWhile [of c "cmds st"]
    by (intro exI [of _ c] exI [of _ st']) (simp add: c_def)
qed

subsection \<open>Arguments\<close>

lemma word_of_space: "32 \<notin> set w \<Longrightarrow> word_of (w @ 32 # s) = w \<and> after_word (w @ 32 # s) = s"
  by (induction w) (auto simp: word_of_def after_word_def)

lemma parse_words:
  assumes "\<forall>w \<in> set ws. 32 \<notin> set w" and "r \<noteq> []"
  shows "parse_args_loop wrong (replicate (length ws) CHR ''w'' @ ''s'') (concat (map (\<lambda>w. w @ [32]) ws) @ r) off m =
    (True, map Some ws @ [Some r])"
  using assms
proof (induction ws arbitrary: off)
  case (Cons w ws)
  then show ?case
    using word_of_space [of w "concat (map (\<lambda>w. w @ [32]) ws) @ r"] by (simp add: Let_def)
qed simp

text \<open>A command with word arguments and a final string gets back exactly the words the line was
  joined from and the rest of the line, blanks in it included.\<close>

theorem cmd_parse_args_words:
  assumes "\<forall>w \<in> set ws. 32 \<notin> set w" and "r \<noteq> []" and "c_args c = replicate (length ws) CHR ''w'' @ ''s''"
  shows "purple_cmd_parse_args c (concat (map (\<lambda>w. w @ [32]) ws) @ r) m = (True, map Some ws @ [Some r])"
  using parse_words [OF assms(1,2)] assms(3) by (simp add: purple_cmd_parse_args_def)

text \<open>A final argument with markup is cut short by the words before it: the end of the slice is
  the length of what is left of the line, not its position, so even in a line without markup
  as many characters are lost at the end as the first word has, and when the first word is
  longer than the rest there is no argument at all.\<close>

theorem cmd_markup_arg_truncated:
  assumes "plain (w @ 32 # r)" and "32 \<notin> set w" and "r \<noteq> []" and "c_args c = ''WS''"
  shows "purple_cmd_parse_args c (w @ 32 # r) (w @ 32 # r) =
    (True, [Some w, if length w \<le> length r then Some (take (length r - length w) r) else None])"
proof -
  have W: "purple_markup_slice (w @ 32 # r) 0 (length w) = Some w"
    using slice_plain [OF assms(1), of 0 "length w"] by simp
  have S: "purple_markup_slice (w @ 32 # r) (Suc (length w)) (Suc (length r)) =
      (if length w \<le> length r then Some (take (length r - length w) r) else None)"
    using slice_plain [OF assms(1), of "Suc (length w)" "Suc (length r)"]
    by (simp add: purple_markup_slice_def)
  show ?thesis
    using word_of_space [OF assms(2), of r] assms(3,4) W S
    by (simp add: purple_cmd_parse_args_def Let_def)
qed

subsection \<open>Dispatch\<close>

text \<open>
  What the dispatcher promises: of the commands with the name, those for the kind of
  conversation, of these those for the protocol, of these those that take the arguments; they
  are run in order until one does not continue.
\<close>

definition named :: "utext \<Rightarrow> cmd list \<Rightarrow> cmd list" where
  "named name l = filter (\<lambda>c. c_cmd c = name) l"

definition typed :: "conv \<Rightarrow> utext \<Rightarrow> cmd list \<Rightarrow> cmd list" where
  "typed cv name l = filter (type_ok cv) (named name l)"

definition of_prpl :: "conv \<Rightarrow> utext \<Rightarrow> cmd list \<Rightarrow> cmd list" where
  "of_prpl cv name l = filter (prpl_ok cv) (typed cv name l)"

definition callable :: "conv \<Rightarrow> utext \<Rightarrow> utext \<Rightarrow> utext \<Rightarrow> cmd list \<Rightarrow> cmd list" where
  "callable cv name rest mrest l = filter (\<lambda>c. fst (purple_cmd_parse_args c rest mrest)) (of_prpl cv name l)"

lemmas candidate_defs = named_def typed_def of_prpl_def callable_def

fun run_until :: "'s cmd_run \<Rightarrow> utext \<Rightarrow> utext \<Rightarrow> utext \<Rightarrow> cmd list \<Rightarrow> 's \<Rightarrow> PurpleCmdRet \<times> utext option \<times> 's" where
  "run_until run name rest mrest [] w = (PURPLE_CMD_RET_CONTINUE, None, w)"
| "run_until run name rest mrest (c # l) w =
     (case run (c_func c) name (snd (purple_cmd_parse_args c rest mrest)) w of
        (r, e, w') \<Rightarrow> if r = PURPLE_CMD_RET_CONTINUE then run_until run name rest mrest l w' else (r, e, w'))"

definition dispatch_spec ::
  "'s cmd_run \<Rightarrow> conv \<Rightarrow> utext \<Rightarrow> utext \<Rightarrow> utext \<Rightarrow> cmd list \<Rightarrow> 's dispatch \<Rightarrow> 's dispatch \<Rightarrow> bool" where
  "dispatch_spec run cv name rest mrest l d d' \<longleftrightarrow>
     found d' = (found d \<or> named name l \<noteq> []) \<and> right_type d' = (right_type d \<or> typed cv name l \<noteq> []) \<and>
     right_prpl d' = (right_prpl d \<or> of_prpl cv name l \<noteq> []) \<and>
     tried_cmd d' = (tried_cmd d \<or> callable cv name rest mrest l \<noteq> []) \<and>
     (callable cv name rest mrest l = [] \<longrightarrow> ret d' = ret d \<and> err d' = err d \<and> world d' = world d) \<and>
     (callable cv name rest mrest l \<noteq> [] \<longrightarrow>
        (ret d', err d', world d') = run_until run name rest mrest (callable cv name rest mrest l) (world d))"

lemma dispatch_loop_spec: "dispatch_spec run cv name rest mrest l d (dispatch_loop run cv name rest mrest l d)"
proof (induction l arbitrary: d)
  case Nil
  then show ?case by (simp add: dispatch_spec_def candidate_defs)
next
  case (Cons c l)
  note IH = Cons.IH [unfolded dispatch_spec_def]
  consider (name) "c_cmd c \<noteq> name" | (type) "c_cmd c = name" "\<not> type_ok cv c"
    | (prpl) "c_cmd c = name" "type_ok cv c" "\<not> prpl_ok cv c"
    | (args) "c_cmd c = name" "type_ok cv c" "prpl_ok cv c" "\<not> fst (purple_cmd_parse_args c rest mrest)"
    | (run) "c_cmd c = name" "type_ok cv c" "prpl_ok cv c" "fst (purple_cmd_parse_args c rest mrest)"
    by blast
  then show ?case
  proof cases
    case name
    then show ?thesis using IH [of d] by (simp add: dispatch_spec_def candidate_defs)
  next
    case type
    then show ?thesis using IH [of "d\<lparr>found := True\<rparr>"]
      by (simp add: dispatch_spec_def candidate_defs Let_def)
  next
    case prpl
    then show ?thesis using IH [of "d\<lparr>found := True, right_type := True\<rparr>"]
      by (simp add: dispatch_spec_def candidate_defs Let_def)
  next
    case args
    then obtain as where "purple_cmd_parse_args c rest mrest = (False, as)"
      by (cases "purple_cmd_parse_args c rest mrest") simp
    with args show ?thesis using IH [of "d\<lparr>found := True, right_type := True, right_prpl := True\<rparr>"]
      by (simp add: dispatch_spec_def candidate_defs Let_def)
  next
    case run
    then obtain as where as: "purple_cmd_parse_args c rest mrest = (True, as)"
      by (cases "purple_cmd_parse_args c rest mrest") simp
    obtain r e w where r: "run (c_func c) name as (world d) = (r, e, w)" by (cases "run (c_func c) name as (world d)")
    note next_d = IH [of "d\<lparr>found := True, right_type := True, right_prpl := True, tried_cmd := True,
      ret := r, world := w, err := None\<rparr>"]
    from run as r show ?thesis
      using next_d
      by (cases "r = PURPLE_CMD_RET_CONTINUE"; cases "callable cv name rest mrest l = []")
        (simp_all add: dispatch_spec_def candidate_defs Let_def)
  qed
qed

text \<open>C35: The status of a command line is decided by the candidates: none with the name is "not found",
  none for this kind of conversation "wrong type", none for this protocol "wrong protocol",
  none that takes the arguments "wrong arguments"; otherwise the candidates are run in order of
  priority until one does not continue, and if all continue the command was not found.\<close>

theorem cmd_do_command_status:
  fixes run :: "'s cmd_run"
  assumes "conv_type cv = PURPLE_CONV_TYPE_IM \<or> conv_type cv = PURPLE_CONV_TYPE_CHAT"
    and "name = word_of cmdline" and "rest = after_word cmdline"
    and "mrest = purple_cmd_strip_cmd_from_markup isspace markup"
  shows "purple_cmd_do_command isspace run st cv cmdline markup w =
    (if named name (cmds st) = [] then (PURPLE_CMD_STATUS_NOT_FOUND, None, w)
     else if typed cv name (cmds st) = [] then (PURPLE_CMD_STATUS_WRONG_TYPE, None, w)
     else if of_prpl cv name (cmds st) = [] then (PURPLE_CMD_STATUS_WRONG_PRPL, None, w)
     else if callable cv name rest mrest (cmds st) = [] then (PURPLE_CMD_STATUS_WRONG_ARGS, None, w)
     else case run_until run name rest mrest (callable cv name rest mrest (cmds st)) w of
       (PURPLE_CMD_RET_OK, _, w') \<Rightarrow> (PURPLE_CMD_STATUS_OK, None, w')
     | (PURPLE_CMD_RET_FAILED, e, w') \<Rightarrow> (PURPLE_CMD_STATUS_FAILED, e, w')
     | (PURPLE_CMD_RET_CONTINUE, e, w') \<Rightarrow> (PURPLE_CMD_STATUS_NOT_FOUND, e, w'))"
proof -
  define d where "d = dispatch_loop run cv name rest mrest (cmds st)
    \<lparr>found = False, tried_cmd = False, right_type = False, right_prpl = False,
     ret = PURPLE_CMD_RET_CONTINUE, err = None, world = w\<rparr>"
  have spec: "found d = (named name (cmds st) \<noteq> [])" "right_type d = (typed cv name (cmds st) \<noteq> [])"
    "right_prpl d = (of_prpl cv name (cmds st) \<noteq> [])" "tried_cmd d = (callable cv name rest mrest (cmds st) \<noteq> [])"
    "callable cv name rest mrest (cmds st) = [] \<Longrightarrow> world d = w"
    "callable cv name rest mrest (cmds st) \<noteq> [] \<Longrightarrow>
       run_until run name rest mrest (callable cv name rest mrest (cmds st)) w = (ret d, err d, world d)"
    using dispatch_loop_spec [of run cv name rest mrest "cmds st"
        "\<lparr>found = False, tried_cmd = False, right_type = False, right_prpl = False,
          ret = PURPLE_CMD_RET_CONTINUE, err = None, world = w\<rparr>"]
    by (simp_all add: dispatch_spec_def d_def)
  have sub: "named name (cmds st) = [] \<Longrightarrow> callable cv name rest mrest (cmds st) = []"
    "typed cv name (cmds st) = [] \<Longrightarrow> callable cv name rest mrest (cmds st) = []"
    "of_prpl cv name (cmds st) = [] \<Longrightarrow> callable cv name rest mrest (cmds st) = []"
    by (simp_all add: callable_def of_prpl_def typed_def)
  have "purple_cmd_do_command isspace run st cv cmdline markup w =
      (if \<not> found d then (PURPLE_CMD_STATUS_NOT_FOUND, None, world d)
       else if \<not> right_type d then (PURPLE_CMD_STATUS_WRONG_TYPE, None, world d)
       else if \<not> right_prpl d then (PURPLE_CMD_STATUS_WRONG_PRPL, None, world d)
       else if \<not> tried_cmd d then (PURPLE_CMD_STATUS_WRONG_ARGS, None, world d)
       else if ret d = PURPLE_CMD_RET_OK then (PURPLE_CMD_STATUS_OK, None, world d)
       else if ret d = PURPLE_CMD_RET_CONTINUE then (PURPLE_CMD_STATUS_NOT_FOUND, err d, world d)
       else (PURPLE_CMD_STATUS_FAILED, err d, world d))"
    using assms by (auto simp: purple_cmd_do_command_def d_def Let_def)
  then show ?thesis
    using spec(5,6) sub by (cases "ret d") (simp_all add: spec(1-4))
qed

subsection \<open>Concrete instances\<close>

definition cmds_example :: cmds where
  "cmds_example = \<lparr>cmds =
     [\<lparr>c_id = 2, c_cmd = utf ''me'', c_args = ''S'', c_priority = 2000, c_flags = 3, c_prpl_id = None, c_func = 7, c_help = []\<rparr>,
      \<lparr>c_id = 1, c_cmd = utf ''nick'', c_args = ''ws'', c_priority = 1000, c_flags = 1, c_prpl_id = None, c_func = 8, c_help = []\<rparr>],
     next_id = 3, ui_registers = False, ui_unregisters = False, cmd_events = []\<rparr>"

lemma cmds_example_wf: "cmds_wf cmds_example" "next_id cmds_example = 3"
  by (simp_all add: cmds_wf_def cmds_example_def)

theorem cmd_register_unregister_witness:
  "\<exists>(c :: cmd) st'. purple_cmd_register cmds_example (utf ''x'') (Some ''w'') 1500 1 None 9 [] = (c_id c, st') \<and> cmds_wf st'"
proof -
  have "utf ''x'' \<noteq> []" "next_id cmds_example + 1 \<noteq> 0" "(9 :: nat) \<noteq> 0" by (simp_all add: utf_def cmds_example_def)
  from cmd_register_unregister [OF cmds_example_wf(1) this(2,1,3), of "''w''" 1500 1 None "[]"] show ?thesis
    by blast
qed

theorem cmd_parse_args_words_witness:
  "purple_cmd_parse_args (cmds cmds_example ! 1) (utf ''bob is here'') (utf ''bob is here'') = (True, [Some (utf ''bob''), Some (utf ''is here'')])"
proof -
  have e: "concat (map (\<lambda>w. w @ [32]) [utf ''bob'']) @ utf ''is here'' = utf ''bob is here''" by (simp add: utf_def)
  show ?thesis
    using cmd_parse_args_words [of "[utf ''bob'']" "utf ''is here''" "cmds cmds_example ! 1" "utf ''bob is here''"] unfolding e
    by (simp add: utf_def cmds_example_def)
qed

theorem cmd_markup_arg_truncated_witness:
  "purple_cmd_parse_args ((cmds cmds_example ! 0)\<lparr>c_args := ''WS''\<rparr>) (utf ''bob hello'') (utf ''bob hello'') =
     (True, [Some (utf ''bob''), Some (utf ''he'')])"
proof -
  have e: "utf ''bob'' @ 32 # utf ''hello'' = utf ''bob hello''" by (simp add: utf_def)
  have "plain (utf ''bob hello'')" by (simp add: plain_def utf_def)
  then show ?thesis
    using cmd_markup_arg_truncated [of "utf ''bob''" "utf ''hello''" "(cmds cmds_example ! 0)\<lparr>c_args := ''WS''\<rparr>"]
    unfolding e by (simp add: utf_def)
qed

theorem cmd_do_command_status_witness:
  "purple_cmd_do_command (\<lambda>c. c = 32) (\<lambda>f n a w. (PURPLE_CMD_RET_OK, None, w + (1 :: nat))) cmds_example
     \<lparr>conv_type = PURPLE_CONV_TYPE_CHAT, protocol_id = None\<rparr> (utf ''nick x'') (utf ''nick x'') 0 =
     (PURPLE_CMD_STATUS_WRONG_TYPE, None, 0)"
proof -
  have "named (word_of (utf ''nick x'')) (cmds cmds_example) \<noteq> []"
    "typed \<lparr>conv_type = PURPLE_CONV_TYPE_CHAT, protocol_id = None\<rparr> (word_of (utf ''nick x'')) (cmds cmds_example) = []"
    by (simp_all add: named_def typed_def cmds_example_def utf_def word_of_def type_ok_def has_flag_def
        PURPLE_CMD_FLAG_CHAT_def)
  then show ?thesis by (simp add: cmd_do_command_status [OF _ refl refl refl])
qed

end
