(* ===== verification/Blist_Links.thy ===== *)
theory Blist_Links
  imports Main
begin

section \<open>Sibling lists threaded through nodes\<close>

text \<open>
  The nodes of the buddy list (\<open>struct _PurpleBlistNode\<close> of \<open>libpurple/blist.h\<close>) carry the
  pointers \<open>prev\<close>, \<open>next\<close> and \<open>parent\<close> of their sibling list and the pointer \<open>child\<close> to their
  first child.  This theory relates such pointers to lists: every pointer field is a function
  on addresses, 0 is \<open>NULL\<close>, and \<open>K p\<close> is the list of the children of \<open>p\<close>, with \<open>K 0\<close> the top
  level.  In a sibling list the head pointer acts as the \<open>next\<close> field of the address 0, so
  that the first node needs no case of its own.
\<close>

type_synonym ptr = nat

fun dll :: "(ptr \<Rightarrow> ptr) \<Rightarrow> (ptr \<Rightarrow> ptr) \<Rightarrow> ptr \<Rightarrow> ptr list \<Rightarrow> bool" where
  "dll nx pv q [] \<longleftrightarrow> nx q = 0"
| "dll nx pv q (x # xs) \<longleftrightarrow> nx q = x \<and> pv x = q \<and> dll nx pv x xs"

lemma dll_cong:
  "(\<And>y. y \<in> insert q (set xs) \<Longrightarrow> nx' y = nx y) \<Longrightarrow> (\<And>y. y \<in> set xs \<Longrightarrow> pv' y = pv y) \<Longrightarrow>
   dll nx' pv' q xs = dll nx pv q xs"
  by (induction xs arbitrary: q) auto

lemma dll_unique: "dll nx pv q xs \<Longrightarrow> dll nx pv q ys \<Longrightarrow> 0 \<notin> set xs \<Longrightarrow> 0 \<notin> set ys \<Longrightarrow> xs = ys"
proof (induction xs arbitrary: q ys)
  case Nil
  then show ?case by (cases ys) auto
next
  case (Cons x xs)
  then show ?case by (cases ys) auto
qed

lemma dll_split:
  "dll nx pv q (xs @ x # ys) \<Longrightarrow>
     pv x = last (q # xs) \<and> nx (last (q # xs)) = x \<and> nx x = (if ys = [] then 0 else hd ys)"
proof (induction xs arbitrary: q)
  case Nil
  then show ?case by (cases ys) auto
next
  case (Cons a xs)
  then show ?case by auto
qed

lemma dll_neighbours:
  assumes "dll nx pv q xs" and "x \<in> set xs"
  shows "pv x \<in> insert q (set xs)" and "nx x \<in> insert 0 (set xs)"
proof -
  obtain us vs where xs: "xs = us @ x # vs" using assms(2) by (meson split_list)
  have "pv x = last (q # us)" "nx x = (if vs = [] then 0 else hd vs)"
    using dll_split [of nx pv q us x vs] assms(1) xs by auto
  then show "pv x \<in> insert q (set xs)" "nx x \<in> insert 0 (set xs)"
    by (auto simp: xs)
qed

lemma dll_first_iff: "dll nx pv q xs \<Longrightarrow> q \<notin> set xs \<Longrightarrow> distinct xs \<Longrightarrow> x \<in> set xs \<Longrightarrow> nx q = x \<longleftrightarrow> pv x = q"
proof (cases xs)
  case (Cons a ys)
  assume a: "dll nx pv q xs" "q \<notin> set xs" "distinct xs" "x \<in> set xs"
  then have d: "nx q = a" "pv a = q" "dll nx pv a ys" using Cons by auto
  show ?thesis
  proof (cases "x = a")
    case False
    then have "x \<in> set ys" using a(4) Cons by simp
    with dll_neighbours(1) [OF d(3)] have "pv x \<in> set xs" by (simp add: Cons)
    with a(2) d False show ?thesis by auto
  qed (use d in simp)
qed simp

text \<open>Taking a node out and putting a node in after \<open>a\<close>.\<close>

lemma dll_unlink:
  assumes "dll nx pv q (xs @ x # ys)" and "distinct (q # xs @ x # ys)" and "0 \<notin> set ys"
  shows "dll (nx(pv x := nx x)) (if nx x \<noteq> 0 then pv(nx x := pv x) else pv) q (xs @ ys)"
  using assms
proof (induction xs arbitrary: q)
  case Nil
  show ?case
  proof (cases ys)
    case Nil
    with \<open>dll nx pv q ([] @ x # ys)\<close> show ?thesis by auto
  next
    case (Cons y ys')
    with Nil.prems have d: "nx q = x" "pv x = q" "nx x = y" "dll nx pv y ys'" "y \<noteq> 0" by auto
    have "dll (nx(q := y)) (pv(y := q)) y ys' = dll nx pv y ys'"
      by (rule dll_cong) (use Nil.prems(2) Cons in auto)
    with d Cons show ?thesis by (simp add: fun_upd_def)
  qed
next
  case (Cons a xs)
  have d: "nx q = a" "pv a = q" "dll nx pv a (xs @ x # ys)" using Cons.prems(1) by auto
  have IH: "dll (nx(pv x := nx x)) (if nx x \<noteq> 0 then pv(nx x := pv x) else pv) a (xs @ ys)"
    by (rule Cons.IH [OF d(3)]) (use Cons.prems(2,3) in auto)
  note sp = dll_split [OF d(3)]
  have "pv x \<noteq> q" using sp Cons.prems(2) by (auto split: if_splits)
  moreover have "nx x \<noteq> a" if "nx x \<noteq> 0"
  proof -
    from that sp have "ys \<noteq> []" "nx x = hd ys" by (auto split: if_splits)
    then have "nx x \<in> set ys" by simp
    then show ?thesis using Cons.prems(2) by auto
  qed
  ultimately have "(nx(pv x := nx x)) q = a" "(if nx x \<noteq> 0 then pv(nx x := pv x) else pv) a = q"
    using d(1,2) by (simp, cases "nx x = 0") auto
  with IH show ?case unfolding append_Cons dll.simps by blast
qed

fun insert_after :: "'a \<Rightarrow> 'a \<Rightarrow> 'a list \<Rightarrow> 'a list" where
  "insert_after a x [] = []"
| "insert_after a x (y # ys) = (if y = a then y # x # ys else y # insert_after a x ys)"

definition place :: "ptr \<Rightarrow> ptr \<Rightarrow> ptr list \<Rightarrow> ptr list" where
  "place a x xs = (if a = 0 then x # xs else insert_after a x xs)"

lemma set_insert_after: "a \<in> set xs \<Longrightarrow> set (insert_after a x xs) = insert x (set xs)"
  by (induction xs) auto

lemma distinct_insert_after: "x \<notin> set xs \<Longrightarrow> distinct xs \<Longrightarrow> distinct (insert_after a x xs)"
proof (induction xs)
  case (Cons y ys)
  have "set (insert_after a x ys) \<subseteq> insert x (set ys)" by (induction ys) auto
  with Cons show ?case by auto
qed simp

lemma insert_after_split: "a \<notin> set us \<Longrightarrow> insert_after a x (us @ a # vs) = us @ a # x # vs"
  by (induction us) auto

lemma place_set: "a = 0 \<or> a \<in> set xs \<Longrightarrow> set (place a x xs) = insert x (set xs)"
  by (auto simp: place_def set_insert_after)

lemma place_mset: "a = 0 \<or> a \<in> set xs \<Longrightarrow> length (filter P (place a x xs)) = length (filter P (x # xs))"
proof -
  have "a \<in> set xs \<Longrightarrow> length (filter P (insert_after a x xs)) = length (filter P (x # xs))"
    by (induction xs) auto
  then show "a = 0 \<or> a \<in> set xs \<Longrightarrow> length (filter P (place a x xs)) = length (filter P (x # xs))"
    by (auto simp: place_def)
qed

lemma dll_insert:
  assumes "dll nx pv q (us @ vs)" and "x \<notin> set (q # us @ vs)" and "distinct (q # us @ vs)"
    and "x \<noteq> 0" and "0 \<notin> set vs" and "a = last (q # us)"
  shows "dll (nx(x := nx a, a := x)) ((if nx a \<noteq> 0 then pv(nx a := x) else pv)(x := a)) q (us @ x # vs)"
  using assms
proof (induction us arbitrary: q)
  case Nil
  show ?case
  proof (cases vs)
    case Nil
    with Nil.prems show ?thesis by simp
  next
    case (Cons y ys)
    with Nil.prems have d: "nx q = y" "dll nx pv y ys" "y \<noteq> 0" "a = q" by auto
    have "dll (nx(x := y, q := x)) (pv(y := x, x := q)) y ys = dll nx pv y ys"
      by (rule dll_cong) (use Nil.prems(2,3) Cons in auto)
    with d Cons Nil.prems show ?thesis by (simp add: fun_upd_def)
  qed
next
  case (Cons u us)
  have d: "nx q = u" "pv u = q" "dll nx pv u (us @ vs)" using Cons.prems(1) by auto
  have a: "a = last (u # us)" using Cons.prems(6) by simp
  have IH: "dll (nx(x := nx a, a := x)) ((if nx a \<noteq> 0 then pv(nx a := x) else pv)(x := a)) u (us @ x # vs)"
    by (rule Cons.IH [OF d(3)]) (use Cons.prems a in auto)
  have "a \<in> set (u # us)" unfolding a by (rule last_in_set) simp
  then have aq: "a \<noteq> q" using Cons.prems(3) by auto
  have "nx a \<noteq> u" if "nx a \<noteq> 0"
  proof -
    obtain ws where ws: "u # us = ws @ [a]" using a by (metis append_butlast_last_id list.distinct(1))
    then have "dll nx pv q (ws @ a # vs)" using Cons.prems(1) by (metis append.assoc append_Cons append_Nil)
    from dll_split [OF this] that have "nx a = hd vs" "vs \<noteq> []" by (auto split: if_splits)
    then show ?thesis using Cons.prems(3) by (auto dest: hd_in_set)
  qed
  with aq d Cons.prems(2) have "(nx(x := nx a, a := x)) q = u" "((if nx a \<noteq> 0 then pv(nx a := x) else pv)(x := a)) u = q"
    using \<open>nx a \<noteq> 0 \<Longrightarrow> nx a \<noteq> u\<close> by (simp, cases "nx a = 0") auto
  with IH show ?case unfolding append_Cons dll.simps by blast
qed

lemma last_in_dll: "dll nx pv q xs \<Longrightarrow> nx (last (q # xs)) = 0"
  by (induction xs arbitrary: q) auto

subsection \<open>Forests\<close>

definition forest :: "(ptr \<Rightarrow> ptr) \<Rightarrow> (ptr \<Rightarrow> ptr) \<Rightarrow> (ptr \<Rightarrow> ptr) \<Rightarrow> (ptr \<Rightarrow> ptr) \<Rightarrow> (ptr \<Rightarrow> ptr list) \<Rightarrow> bool" where
  "forest fc nx pv pa K \<longleftrightarrow>
     (\<forall>p. dll (nx(0 := fc p)) pv 0 (K p) \<and> distinct (K p) \<and> 0 \<notin> set (K p) \<and> (\<forall>x \<in> set (K p). pa x = p))"

lemma forestD:
  assumes "forest fc nx pv pa K"
  shows "dll (nx(0 := fc p)) pv 0 (K p)" "distinct (K p)" "0 \<notin> set (K p)" "x \<in> set (K p) \<Longrightarrow> pa x = p"
  using assms by (auto simp: forest_def)

lemma forest_disjoint: "forest fc nx pv pa K \<Longrightarrow> x \<in> set (K p) \<Longrightarrow> x \<in> set (K q) \<Longrightarrow> p = q"
  unfolding forest_def by metis

lemma forest_unique: "forest fc nx pv pa K \<Longrightarrow> forest fc nx pv pa K' \<Longrightarrow> K = K'"
  by (rule ext) (metis forestD(1,3) dll_unique)

text \<open>The list of the other parents is not touched by a change of pointers at nodes that are not theirs.\<close>

lemma dll_other:
  assumes "dll (nx(0 := h)) pv 0 xs" and "0 \<notin> set xs"
    and "\<And>y. y \<in> set xs \<Longrightarrow> nx' y = nx y \<and> pv' y = pv y"
  shows "dll (nx'(0 := h)) pv' 0 xs"
  using assms(1) by (subst dll_cong [where nx = "nx(0 := h)" and pv = pv]) (use assms(2,3) in auto)

lemma forest_no_self:
  assumes f: "forest fc nx pv pa K" and x: "x \<in> set (K p)"
  shows "nx x \<noteq> x" and "pv x \<noteq> x"
proof -
  note D = forestD [OF f]
  obtain us vs where K: "K p = us @ x # vs" using x by (meson split_list)
  have "x \<noteq> 0" "distinct (0 # us @ x # vs)" using D(2,3) [of p] x by (auto simp: K)
  then have "pv x = last (0 # us)" "nx x = (if vs = [] then 0 else hd vs)" "x \<notin> set us" "x \<notin> set vs" "x \<noteq> 0"
    using dll_split [of "nx(0 := fc p)" pv 0 us x vs] D(1) [of p] K by auto
  then show "nx x \<noteq> x" "pv x \<noteq> x"
    using last_in_set [of us] hd_in_set [of vs] by (auto split: if_splits)
qed

lemma forest_first: "forest fc nx pv pa K \<Longrightarrow> fc p = (if K p = [] then 0 else hd (K p))"
  using forestD(1) [of fc nx pv pa K p] by (cases "K p") auto

text \<open>The pointers after a node was taken out or put in after \<open>a\<close>, where \<open>n\<close> is the node that follows.\<close>

definition cut_first :: "ptr \<Rightarrow> ptr \<Rightarrow> (ptr \<Rightarrow> ptr) \<Rightarrow> (ptr \<Rightarrow> ptr) \<Rightarrow> ptr \<Rightarrow> ptr" where
  "cut_first p x nx fc = (if fc p = x then fc(p := nx x) else fc)"

definition cut_next :: "ptr \<Rightarrow> (ptr \<Rightarrow> ptr) \<Rightarrow> (ptr \<Rightarrow> ptr) \<Rightarrow> ptr \<Rightarrow> ptr" where
  "cut_next x nx pv = (if pv x \<noteq> 0 then nx(pv x := nx x) else nx)"

definition cut_prev :: "ptr \<Rightarrow> (ptr \<Rightarrow> ptr) \<Rightarrow> (ptr \<Rightarrow> ptr) \<Rightarrow> ptr \<Rightarrow> ptr" where
  "cut_prev x nx pv = (if nx x \<noteq> 0 then pv(nx x := pv x) else pv)"

definition put_prev :: "ptr \<Rightarrow> ptr \<Rightarrow> ptr \<Rightarrow> (ptr \<Rightarrow> ptr) \<Rightarrow> ptr \<Rightarrow> ptr" where
  "put_prev a x n pv = (if n \<noteq> 0 then pv(n := x) else pv)(x := a)"

lemma forest_unlink:
  assumes f: "forest fc nx pv pa K" and x: "x \<in> set (K p)"
  shows "forest (cut_first p x nx fc) (cut_next x nx pv) (cut_prev x nx pv) pa (K(p := remove1 x (K p)))"
proof -
  let ?fc = "if fc p = x then fc(p := nx x) else fc" and ?nx = "if pv x \<noteq> 0 then nx(pv x := nx x) else nx"
    and ?pv = "if nx x \<noteq> 0 then pv(nx x := pv x) else pv"
  note D = forestD [OF f]
  obtain us vs where K: "K p = us @ x # vs" "x \<notin> set us" using x by (meson split_list_first)
  have x0: "x \<noteq> 0" using D(3) [of p] x by metis
  have rem: "remove1 x (K p) = us @ vs" using K by (simp add: remove1_append)
  have dist: "distinct (0 # us @ x # vs)" using D(2,3) [of p] K by simp
  have nb: "pv x \<in> insert 0 (set (K p))" "nx x \<in> insert 0 (set (K p))"
    using dll_neighbours [OF D(1) x] x0 by auto
  have head: "fc p = x \<longleftrightarrow> pv x = 0"
    using dll_first_iff [OF D(1) D(3) D(2) x] by simp
  have "dll ((nx(0 := fc p))(pv x := nx x)) ?pv 0 (us @ vs)"
    using dll_unlink [of "nx(0 := fc p)" pv 0 us x vs] D(1) [of p] D(3) [of p] dist K x0
    by (simp only: fun_upd_other [OF x0 [symmetric]] fun_upd_other) (simp split: if_splits)
  moreover have "(nx(0 := fc p))(pv x := nx x) = ?nx(0 := ?fc p)"
    using head by (auto simp: fun_eq_iff)
  ultimately have P: "dll (?nx(0 := ?fc p)) ?pv 0 (us @ vs)" by simp
  have O: "dll (?nx(0 := ?fc q)) ?pv 0 (K q)" if "q \<noteq> p" for q
  proof -
    have "y \<noteq> pv x \<and> y \<noteq> nx x" if "y \<in> set (K q)" for y
      using nb forest_disjoint [OF f that, of p] \<open>q \<noteq> p\<close> D(3) [of q] that by (auto intro!: Nat.gr0I)
    then show ?thesis using \<open>q \<noteq> p\<close> dll_other [OF D(1) D(3), of q ?nx ?pv] by auto
  qed
  show ?thesis
    unfolding forest_def cut_first_def cut_next_def cut_prev_def
  proof (intro allI)
    fix q
    show "dll (?nx(0 := ?fc q)) ?pv 0 ((K(p := remove1 x (K p))) q) \<and> distinct ((K(p := remove1 x (K p))) q) \<and>
      0 \<notin> set ((K(p := remove1 x (K p))) q) \<and> (\<forall>y \<in> set ((K(p := remove1 x (K p))) q). pa y = q)"
      using P O [of q] D(2,3) [of q] D(4) [of _ q] dist by (cases "q = p") (auto simp only: rem fun_upd_apply, auto simp: K(1))
  qed
qed

lemma forest_insert:
  assumes f: "forest fc nx pv pa K" and x: "x \<noteq> 0" "\<And>q. x \<notin> set (K q)" and a: "a = 0 \<or> a \<in> set (K p)"
    and n: "n = (if a = 0 then fc p else nx a)"
  shows "forest (if a = 0 then fc(p := x) else fc) (if a = 0 then nx(x := n) else nx(x := n, a := x))
    (put_prev a x n pv) (pa(x := p)) (K(p := place a x (K p)))"
proof -
  let ?fc = "if a = 0 then fc(p := x) else fc" and ?nx = "if a = 0 then nx(x := n) else nx(x := n, a := x)"
    and ?pv = "(if n \<noteq> 0 then pv(n := x) else pv)(x := a)"
  note D = forestD [OF f]
  obtain us vs where K: "K p = us @ vs" "a = last (0 # us)" "place a x (K p) = us @ x # vs"
  proof (cases "a = 0")
    case True
    then show ?thesis by (intro that [of "[]" "K p"]) (auto simp: place_def)
  next
    case False
    then obtain ws vs where "K p = ws @ a # vs" "a \<notin> set ws" using a by (meson split_list_first)
    with False show ?thesis
      by (intro that [of "ws @ [a]" vs]) (auto simp: place_def insert_after_split)
  qed
  have dist: "distinct (0 # us @ vs)" "x \<notin> set (0 # us @ vs)" "0 \<notin> set vs"
    using D(2,3) [of p] x(1) x(2) [of p] K(1) by auto
  have "dll ((nx(0 := fc p))(x := n, a := x)) ?pv 0 (us @ x # vs)"
    using dll_insert [of "nx(0 := fc p)" pv 0 us vs x a] D(1) [of p] dist K x(1) n by (auto split: if_splits)
  moreover have "(nx(0 := fc p))(x := n, a := x) = ?nx(0 := ?fc p)"
    using x(1) by (auto simp: fun_eq_iff)
  ultimately have P: "dll (?nx(0 := ?fc p)) ?pv 0 (us @ x # vs)" by simp
  have nb: "n \<in> insert 0 (set (K p))"
    using n a D(1) [of p] dll_neighbours(2) [OF D(1), of a p] by (cases "K p") (auto split: if_splits)
  have O: "dll (?nx(0 := ?fc q)) ?pv 0 (K q)" if "q \<noteq> p" for q
  proof -
    have "y \<noteq> a \<and> y \<noteq> n \<and> y \<noteq> x" if "y \<in> set (K q)" for y
      using nb a forest_disjoint [OF f that, of p] \<open>q \<noteq> p\<close> D(3) [of q] that x(2) [of q]
      by (auto intro!: Nat.gr0I)
    then show ?thesis using \<open>q \<noteq> p\<close> dll_other [OF D(1) D(3), of q ?nx ?pv] by auto
  qed
  show ?thesis
    unfolding forest_def put_prev_def
  proof (intro allI)
    fix q
    show "dll (?nx(0 := ?fc q)) ?pv 0 ((K(p := place a x (K p))) q) \<and> distinct ((K(p := place a x (K p))) q) \<and>
      0 \<notin> set ((K(p := place a x (K p))) q) \<and> (\<forall>y \<in> set ((K(p := place a x (K p))) q). (pa(x := p)) y = q)"
      using P O [of q] D(2,3) [of q] D(4) [of _ q] dist x(1) x(2) [of q]
      by (cases "q = p") (auto simp only: K(3) fun_upd_apply, auto simp: K(1))
  qed
qed

text \<open>The nodes in the order in which a loop along the \<open>next\<close> pointers meets them.\<close>

fun path :: "(ptr \<Rightarrow> ptr) \<Rightarrow> ptr \<Rightarrow> ptr list \<Rightarrow> bool" where
  "path nx n [] \<longleftrightarrow> n = 0"
| "path nx n (x # xs) \<longleftrightarrow> n = x \<and> x \<noteq> 0 \<and> path nx (nx x) xs"

lemma dll_path: "dll nx pv q xs \<Longrightarrow> 0 \<notin> set xs \<Longrightarrow> path nx (nx q) xs"
  by (induction xs arbitrary: q) auto

lemma path_cong: "(\<And>y. y \<in> set xs \<Longrightarrow> nx' y = nx y) \<Longrightarrow> path nx' n xs = path nx n xs"
  by (induction xs arbitrary: n) auto

lemma forest_path:
  assumes "forest fc nx pv pa K"
  shows "path nx (fc p) (K p)"
proof -
  have z: "0 \<notin> set (K p)" by (rule forestD(3) [OF assms])
  have "path (nx(0 := fc p)) (fc p) (K p)"
    using dll_path [OF forestD(1) [OF assms] z] by simp
  moreover have "path (nx(0 := fc p)) (fc p) (K p) = path nx (fc p) (K p)"
    by (rule path_cong) (use z in \<open>metis fun_upd_other\<close>)
  ultimately show ?thesis by simp
qed

lemma place_last: "distinct xs \<Longrightarrow> 0 \<notin> set xs \<Longrightarrow> place (if xs = [] then 0 else last xs) x xs = xs @ [x]"
proof (cases xs rule: rev_cases)
  case (snoc ys y)
  assume "distinct xs" "0 \<notin> set xs"
  then have "y \<notin> set ys" "y \<noteq> 0" using snoc by auto
  then show ?thesis using snoc by (simp add: place_def insert_after_split)
qed (simp add: place_def)

text \<open>A node taken out of whatever list it is in.\<close>

definition detach :: "ptr \<Rightarrow> (ptr \<Rightarrow> ptr list) \<Rightarrow> ptr \<Rightarrow> ptr list" where
  "detach x K = (\<lambda>p. remove1 x (K p))"

lemma detach_eq: "forest fc nx pv pa K \<Longrightarrow> x \<in> set (K p) \<Longrightarrow> detach x K = K(p := remove1 x (K p))"
  unfolding detach_def
proof
  fix q
  assume "forest fc nx pv pa K" "x \<in> set (K p)"
  then have "q = p \<or> x \<notin> set (K q)" using forest_disjoint by metis
  then show "remove1 x (K q) = (K(p := remove1 x (K p))) q" by (auto simp: remove1_idem)
qed

lemma detach_none: "(\<And>p. x \<notin> set (K p)) \<Longrightarrow> detach x K = K"
  by (simp add: detach_def remove1_idem)

lemma set_detach: "forest fc nx pv pa K \<Longrightarrow> set (detach x K p) = set (K p) - {x}"
  by (simp add: detach_def set_remove1_eq forestD(2))

end
