(* ===== verification/Purple_Blist.thy ===== *)
theory Purple_Blist
  imports Purple_Base Blist_Links "HOL-Library.Monad_Syntax"
begin

section \<open>The buddy list (\<open>libpurple/blist.c\<close>)\<close>

text \<open>
  Groups, contacts, chats and buddies are nodes of one tree.  The heap is split by field: a
  field of a struct is a function on addresses, so that writes to different fields do not
  interfere; address 0 is \<open>NULL\<close>, and \<open>ntype\<close> is \<open>None\<close> where no node is allocated.  Fields that
  several structs have (\<open>name\<close>, \<open>account\<close>, \<open>alias\<close>, the three counters) are one function each.  An
  allocation takes an unused address as argument and clears the fields.

  Hash tables are partial maps; accounts are numbers with 0 for \<open>NULL\<close>.  Whether an account is
  connected and whether a buddy's presence is online is read off the state.  Calls to
  protocols, pounces, conversations and the user interface are events; they are taken not to
  change the list.  The text functions of GLib and \<open>util.c\<close>, the translated default names, the
  operations that the user interface implements, the comparison of two buddies' presences
  (\<open>purple_presence_compare\<close>) and the order in which GLib walks through a hash table are
  parameters.  Loops over siblings are partial functions.
\<close>

datatype PurpleBlistNodeType =
    PURPLE_BLIST_GROUP_NODE | PURPLE_BLIST_CONTACT_NODE | PURPLE_BLIST_BUDDY_NODE
  | PURPLE_BLIST_CHAT_NODE | PURPLE_BLIST_OTHER_NODE

datatype ui_op = Op_new_node | Op_update | Op_remove | Op_save_node | Op_remove_node

datatype blist_event =
    Ui ui_op ptr
  | Signal string ptr
  | Serv_move_buddy ptr ptr ptr
  | Account_remove_buddy nat ptr ptr
  | Account_remove_group nat ptr
  | Pounce_destroy_all_by_buddy ptr
  | Set_last_seen ptr
  | Set_status_offline ptr
  | Conversation_autoset_title ptr

type_synonym hbuddy = "string \<times> nat \<times> ptr"

record blist =
  ntype :: "ptr \<rightharpoonup> PurpleBlistNodeType"
  node_prev :: "ptr \<Rightarrow> ptr"
  node_next :: "ptr \<Rightarrow> ptr"
  node_parent :: "ptr \<Rightarrow> ptr"
  node_child :: "ptr \<Rightarrow> ptr"
  node_name :: "ptr \<Rightarrow> string"
  node_account :: "ptr \<Rightarrow> nat"
  node_alias :: "ptr \<Rightarrow> cstring"
  node_server_alias :: "ptr \<Rightarrow> cstring"
  totalsize :: "ptr \<Rightarrow> int"
  currentsize :: "ptr \<Rightarrow> int"
  online :: "ptr \<Rightarrow> int"
  priority :: "ptr \<Rightarrow> ptr"
  priority_valid :: "ptr \<Rightarrow> bool"
  root :: ptr
  buddies :: "hbuddy \<rightharpoonup> ptr"
  buddies_cache :: "nat \<rightharpoonup> hbuddy \<rightharpoonup> ptr"
  groups_cache :: "string \<rightharpoonup> ptr"
  connected :: "nat \<Rightarrow> bool"
  presence_online :: "ptr \<Rightarrow> bool"
  blist_events :: "blist_event list"

record blist_env =
  normalize :: "nat \<Rightarrow> string \<Rightarrow> string"
  collate_key :: "string \<Rightarrow> string"
  strip_unprintables :: "string \<Rightarrow> string"
  utf8_valid :: "string \<Rightarrow> bool"
  buddies_name :: string
  chats_name :: string
  ui_ops :: "ui_op \<Rightarrow> bool"
  has_connection :: "nat \<Rightarrow> bool"
  connections :: "nat list"
  has_conversation :: "ptr \<Rightarrow> bool"
  show_offline :: "ptr \<Rightarrow> bool"
  presence_compare :: "ptr \<Rightarrow> ptr \<Rightarrow> int"
  last_match :: bool
  traverse :: "(hbuddy \<rightharpoonup> ptr) \<Rightarrow> ptr list"

subsection \<open>Nodes\<close>

definition emit :: "blist_event \<Rightarrow> blist \<Rightarrow> blist" where
  "emit e st = st\<lparr>blist_events := blist_events st @ [e]\<rparr>"

definition ui :: "blist_env \<Rightarrow> ui_op \<Rightarrow> ptr \<Rightarrow> blist \<Rightarrow> blist" where
  "ui env p x st = (if ui_ops env p then emit (Ui p x) st else st)"

definition purple_blist_node_get_type :: "blist \<Rightarrow> ptr \<Rightarrow> PurpleBlistNodeType" where
  "purple_blist_node_get_type st n =
     (if n = 0 then PURPLE_BLIST_OTHER_NODE
      else case ntype st n of None \<Rightarrow> PURPLE_BLIST_OTHER_NODE | Some t \<Rightarrow> t)"

definition is_group :: "blist \<Rightarrow> ptr \<Rightarrow> bool" where
  "is_group st n \<longleftrightarrow> purple_blist_node_get_type st n = PURPLE_BLIST_GROUP_NODE"

definition is_contact :: "blist \<Rightarrow> ptr \<Rightarrow> bool" where
  "is_contact st n \<longleftrightarrow> purple_blist_node_get_type st n = PURPLE_BLIST_CONTACT_NODE"

definition is_buddy :: "blist \<Rightarrow> ptr \<Rightarrow> bool" where
  "is_buddy st n \<longleftrightarrow> purple_blist_node_get_type st n = PURPLE_BLIST_BUDDY_NODE"

definition is_chat :: "blist \<Rightarrow> ptr \<Rightarrow> bool" where
  "is_chat st n \<longleftrightarrow> purple_blist_node_get_type st n = PURPLE_BLIST_CHAT_NODE"

definition PURPLE_BUDDY_IS_ONLINE :: "blist \<Rightarrow> ptr \<Rightarrow> bool" where
  "PURPLE_BUDDY_IS_ONLINE st b \<longleftrightarrow> b \<noteq> 0 \<and> connected st (node_account st b) \<and> presence_online st b"

text \<open>\<open>g_new0\<close> and \<open>g_free\<close> of a node.\<close>

definition new_node :: "PurpleBlistNodeType \<Rightarrow> ptr \<Rightarrow> blist \<Rightarrow> blist" where
  "new_node t p st = st\<lparr>ntype := (ntype st)(p \<mapsto> t), node_prev := (node_prev st)(p := 0),
     node_next := (node_next st)(p := 0), node_parent := (node_parent st)(p := 0),
     node_child := (node_child st)(p := 0), node_name := (node_name st)(p := ''''),
     node_account := (node_account st)(p := 0), node_alias := (node_alias st)(p := None),
     node_server_alias := (node_server_alias st)(p := None), totalsize := (totalsize st)(p := 0),
     currentsize := (currentsize st)(p := 0), online := (online st)(p := 0),
     priority := (priority st)(p := 0), priority_valid := (priority_valid st)(p := False)\<rparr>"

definition free_node :: "ptr \<Rightarrow> blist \<Rightarrow> blist" where
  "free_node p st = st\<lparr>ntype := (ntype st)(p := None)\<rparr>"

text \<open>The three assignments that take a node out of its sibling list.  The order in which the
  routines do them differs; they write different fields.\<close>

definition unlink_siblings :: "ptr \<Rightarrow> blist \<Rightarrow> blist" where
  "unlink_siblings x st =
     (let st = (if node_next st x \<noteq> 0 then st\<lparr>node_prev := (node_prev st)(node_next st x := node_prev st x)\<rparr> else st)
      in if node_prev st x \<noteq> 0 then st\<lparr>node_next := (node_next st)(node_prev st x := node_next st x)\<rparr> else st)"

definition unlink_child :: "ptr \<Rightarrow> ptr \<Rightarrow> blist \<Rightarrow> blist" where
  "unlink_child p x st =
     (let st = (if node_child st p = x then st\<lparr>node_child := (node_child st)(p := node_next st x)\<rparr> else st)
      in unlink_siblings x st)"

definition unlink_group :: "ptr \<Rightarrow> blist \<Rightarrow> blist" where
  "unlink_group x st =
     (let st = (if root st = x then st\<lparr>root := node_next st x\<rparr> else st) in unlink_siblings x st)"

text \<open>The assignments that put a node behind another one, or at the head of the children of \<open>p\<close>.\<close>

definition link_after :: "ptr \<Rightarrow> ptr \<Rightarrow> blist \<Rightarrow> blist" where
  "link_after a x st =
     (let st = (if node_next st a \<noteq> 0 then st\<lparr>node_prev := (node_prev st)(node_next st a := x)\<rparr> else st);
          st = st\<lparr>node_next := (node_next st)(x := node_next st a)\<rparr>;
          st = st\<lparr>node_prev := (node_prev st)(x := a)\<rparr>;
          st = st\<lparr>node_parent := (node_parent st)(x := node_parent st a)\<rparr>
      in st\<lparr>node_next := (node_next st)(a := x)\<rparr>)"

definition link_first :: "ptr \<Rightarrow> ptr \<Rightarrow> blist \<Rightarrow> blist" where
  "link_first p x st =
     (let st = (if node_child st p \<noteq> 0 then st\<lparr>node_prev := (node_prev st)(node_child st p := x)\<rparr> else st);
          st = st\<lparr>node_prev := (node_prev st)(x := 0)\<rparr>;
          st = st\<lparr>node_next := (node_next st)(x := node_child st p)\<rparr>;
          st = st\<lparr>node_child := (node_child st)(p := x)\<rparr>
      in st\<lparr>node_parent := (node_parent st)(x := p)\<rparr>)"

text \<open>Loops over siblings.\<close>

partial_function (option) last_sibling_loop :: "(ptr \<Rightarrow> ptr) \<Rightarrow> ptr \<Rightarrow> ptr option" where
  "last_sibling_loop nx n = (if nx n = 0 then Some n else last_sibling_loop nx (nx n))"

definition purple_blist_get_last_sibling :: "blist \<Rightarrow> ptr \<Rightarrow> ptr option" where
  "purple_blist_get_last_sibling st n = (if n = 0 then Some 0 else last_sibling_loop (node_next st) n)"

definition purple_blist_get_last_child :: "blist \<Rightarrow> ptr \<Rightarrow> ptr option" where
  "purple_blist_get_last_child st n =
     (if n = 0 then Some 0 else purple_blist_get_last_sibling st (node_child st n))"

text \<open>\<open>for (n = first; n != NULL; n = n->next)\<close> with the local variables \<open>fst s\<close>.\<close>

partial_function (option) for_siblings ::
  "(ptr \<Rightarrow> 'v \<times> blist \<Rightarrow> ('v \<times> blist) option) \<Rightarrow> ptr \<Rightarrow> 'v \<times> blist \<Rightarrow> ('v \<times> blist) option" where
  "for_siblings body n s =
     (if n = 0 then Some s else do { s \<leftarrow> body n s; for_siblings body (node_next (snd s) n) s })"

text \<open>The same loop when it only calls an operation of the user interface.\<close>

definition ui_siblings :: "blist_env \<Rightarrow> ui_op \<Rightarrow> ptr \<Rightarrow> blist \<Rightarrow> blist option" where
  "ui_siblings env p n st =
     (if ui_ops env p
      then map_option snd (for_siblings (\<lambda>x s. Some (fst s, ui env p x (snd s))) n ((), st)) else Some st)"

partial_function (option) get_next_node :: "blist \<Rightarrow> ptr \<Rightarrow> bool \<Rightarrow> ptr option" where
  "get_next_node st n godeep =
     (if n = 0 then Some 0
      else if godeep \<and> node_child st n \<noteq> 0 then Some (node_child st n)
      else if node_next st n \<noteq> 0 then Some (node_next st n)
      else get_next_node st (node_parent st n) False)"

partial_function (option) purple_blist_node_next :: "blist \<Rightarrow> ptr \<Rightarrow> bool \<Rightarrow> ptr option" where
  "purple_blist_node_next st n offline =
     do { r \<leftarrow> get_next_node st n True;
          if offline then Some r
          else if r \<noteq> 0 \<and> is_buddy st r \<and> \<not> connected st (node_account st r)
          then purple_blist_node_next st r offline
          else Some r }"

subsection \<open>Lookups\<close>

definition hkey :: "blist_env \<Rightarrow> blist \<Rightarrow> ptr \<Rightarrow> ptr \<Rightarrow> hbuddy" where
  "hkey env st b g = (normalize env (node_account st b) (node_name st b), node_account st b, g)"

text \<open>Both hash tables are changed together.\<close>

definition buddies_remove :: "hbuddy \<Rightarrow> nat \<Rightarrow> blist \<Rightarrow> blist" where
  "buddies_remove k a st = st\<lparr>buddies := (buddies st)(k := None),
     buddies_cache := (buddies_cache st)(a := map_option (\<lambda>t. t(k := None)) (buddies_cache st a))\<rparr>"

definition buddies_replace :: "hbuddy \<Rightarrow> nat \<Rightarrow> ptr \<Rightarrow> blist \<Rightarrow> blist" where
  "buddies_replace k a b st = st\<lparr>buddies := (buddies st)(k \<mapsto> b),
     buddies_cache := (buddies_cache st)(a := map_option (\<lambda>t. t(k \<mapsto> b)) (buddies_cache st a))\<rparr>"

definition purple_find_group :: "blist_env \<Rightarrow> blist \<Rightarrow> string \<Rightarrow> ptr" where
  "purple_find_group env st name =
     (if name = '''' then 0 else case groups_cache st (collate_key env name) of None \<Rightarrow> 0 | Some g \<Rightarrow> g)"

definition purple_find_buddy_in_group :: "blist_env \<Rightarrow> blist \<Rightarrow> nat \<Rightarrow> string \<Rightarrow> ptr \<Rightarrow> ptr" where
  "purple_find_buddy_in_group env st a name g =
     (if a = 0 \<or> name = '''' then 0
      else case buddies st (normalize env a name, a, g) of None \<Rightarrow> 0 | Some b \<Rightarrow> b)"

partial_function (option) find_buddy_loop :: "blist \<Rightarrow> string \<Rightarrow> nat \<Rightarrow> ptr \<Rightarrow> ptr option" where
  "find_buddy_loop st n a g =
     (if g = 0 then Some 0
      else if node_child st g = 0 then find_buddy_loop st n a (node_next st g)
      else case buddies st (n, a, g) of
             Some b \<Rightarrow> Some b
           | None \<Rightarrow> find_buddy_loop st n a (node_next st g))"

definition purple_find_buddy :: "blist_env \<Rightarrow> blist \<Rightarrow> nat \<Rightarrow> string \<Rightarrow> ptr option" where
  "purple_find_buddy env st a name =
     (if a = 0 \<or> name = '''' then Some 0 else find_buddy_loop st (normalize env a name) a (root st))"

partial_function (option) find_buddies_loop :: "blist \<Rightarrow> string \<Rightarrow> nat \<Rightarrow> ptr \<Rightarrow> ptr list \<Rightarrow> ptr list option" where
  "find_buddies_loop st n a g ret =
     (if g = 0 then Some ret
      else if node_child st g = 0 then find_buddies_loop st n a (node_next st g) ret
      else find_buddies_loop st n a (node_next st g)
             (case buddies st (n, a, g) of Some b \<Rightarrow> b # ret | None \<Rightarrow> ret))"

definition purple_find_buddies :: "blist_env \<Rightarrow> blist \<Rightarrow> nat \<Rightarrow> string \<Rightarrow> ptr list option" where
  "purple_find_buddies env st a name =
     (if a = 0 then Some []
      else if name \<noteq> '''' then find_buddies_loop st (normalize env a name) a (root st) []
      else Some (case buddies_cache st a of None \<Rightarrow> [] | Some t \<Rightarrow> rev (traverse env t)))"

subsection \<open>New nodes\<close>

definition purple_group_new :: "blist_env \<Rightarrow> ptr \<Rightarrow> string \<Rightarrow> blist \<Rightarrow> ptr \<times> blist" where
  "purple_group_new env p name st =
     (if name = '''' then (0, st)
      else if purple_find_group env st name \<noteq> 0 then (purple_find_group env st name, st)
      else let st = new_node PURPLE_BLIST_GROUP_NODE p st;
               st = st\<lparr>node_name := (node_name st)(p := strip_unprintables env name)\<rparr>
           in (p, ui env Op_new_node p st))"

definition purple_contact_new :: "blist_env \<Rightarrow> ptr \<Rightarrow> blist \<Rightarrow> blist" where
  "purple_contact_new env p st = ui env Op_new_node p (new_node PURPLE_BLIST_CONTACT_NODE p st)"

definition purple_buddy_new :: "blist_env \<Rightarrow> ptr \<Rightarrow> nat \<Rightarrow> string \<Rightarrow> cstring \<Rightarrow> blist \<Rightarrow> ptr \<times> blist" where
  "purple_buddy_new env p a name al st =
     (if a = 0 then (0, st)
      else let st = new_node PURPLE_BLIST_BUDDY_NODE p st;
               st = st\<lparr>node_account := (node_account st)(p := a),
                       node_name := (node_name st)(p := strip_unprintables env name),
                       node_alias := (node_alias st)(p := map_option (strip_unprintables env) al),
                       presence_online := (presence_online st)(p := False)\<rparr>
           in (p, ui env Op_new_node p st))"

definition purple_chat_new :: "blist_env \<Rightarrow> ptr \<Rightarrow> nat \<Rightarrow> cstring \<Rightarrow> blist \<Rightarrow> ptr \<times> blist" where
  "purple_chat_new env p a al st =
     (if a = 0 then (0, st)
      else let st = new_node PURPLE_BLIST_CHAT_NODE p st;
               st = st\<lparr>node_account := (node_account st)(p := a)\<rparr>;
               st = (case al of
                       None \<Rightarrow> st
                     | Some s \<Rightarrow> if s = '''' then st
                                else st\<lparr>node_alias := (node_alias st)(p := Some (strip_unprintables env s))\<rparr>)
           in (p, ui env Op_new_node p st))"

subsection \<open>Groups\<close>

text \<open>The assignments of \<open>purple_blist_add_group\<close>; groups have no parent.\<close>

definition link_group_after :: "ptr \<Rightarrow> ptr \<Rightarrow> blist \<Rightarrow> blist" where
  "link_group_after a x st =
     (let st = st\<lparr>node_next := (node_next st)(x := node_next st a)\<rparr>;
          st = st\<lparr>node_prev := (node_prev st)(x := a)\<rparr>;
          st = (if node_next st a \<noteq> 0 then st\<lparr>node_prev := (node_prev st)(node_next st a := x)\<rparr> else st)
      in st\<lparr>node_next := (node_next st)(a := x)\<rparr>)"

definition link_group_first :: "ptr \<Rightarrow> blist \<Rightarrow> blist" where
  "link_group_first x st =
     (let st = (if root st \<noteq> 0 then st\<lparr>node_prev := (node_prev st)(root st := x)\<rparr> else st);
          st = st\<lparr>node_next := (node_next st)(x := root st)\<rparr>;
          st = st\<lparr>node_prev := (node_prev st)(x := 0)\<rparr>
      in st\<lparr>root := x\<rparr>)"

definition purple_blist_add_group :: "blist_env \<Rightarrow> ptr \<Rightarrow> ptr \<Rightarrow> blist \<Rightarrow> blist option" where
  "purple_blist_add_group env g n st =
     (if \<not> is_group st g then Some st
      else if g = n \<and> root st \<noteq> 0 then Some st
      else
        let n = (if g = n then 0 else n);
            st = (if purple_find_group env st (node_name st g) \<noteq> 0
                  then unlink_group g (ui env Op_remove g st)
                  else st\<lparr>groups_cache := (groups_cache st)(collate_key env (node_name st g) \<mapsto> g)\<rparr>);
            st = (if is_group st n then link_group_after n g st else link_group_first g st);
            st = ui env Op_save_node g st
        in do {
             st \<leftarrow> ui_siblings env Op_save_node (node_child st g) st;
             let st = ui env Op_update g st;
             st \<leftarrow> ui_siblings env Op_update (node_child st g) st;
             Some (emit (Signal ''blist-node-added'' g) st) })"

definition purple_blist_remove_group :: "blist_env \<Rightarrow> ptr \<Rightarrow> blist \<Rightarrow> blist" where
  "purple_blist_remove_group env g st =
     (if g = 0 \<or> node_child st g \<noteq> 0 then st
      else
        let st = unlink_group g st;
            st = st\<lparr>groups_cache := (groups_cache st)(collate_key env (node_name st g) := None)\<rparr>;
            st = ui env Op_remove_node g (ui env Op_remove g st);
            st = emit (Signal ''blist-node-removed'' g) st;
            st = fold (\<lambda>a. emit (Account_remove_group a g)) (filter (connected st) (connections env)) st
        in free_node g st)"

text \<open>A group that is not on the list yet is put at its end.\<close>

definition ensure_listed :: "blist_env \<Rightarrow> ptr \<Rightarrow> blist \<Rightarrow> blist option" where
  "ensure_listed env g st =
     (if purple_find_group env st (node_name st g) = 0
      then do { l \<leftarrow> purple_blist_get_last_sibling st (root st); purple_blist_add_group env g l st }
      else Some st)"

subsection \<open>Counters\<close>

definition add_totalsize :: "ptr \<Rightarrow> int \<Rightarrow> blist \<Rightarrow> blist" where
  "add_totalsize x d st = st\<lparr>totalsize := (totalsize st)(x := totalsize st x + d)\<rparr>"

definition add_currentsize :: "ptr \<Rightarrow> int \<Rightarrow> blist \<Rightarrow> blist" where
  "add_currentsize x d st = st\<lparr>currentsize := (currentsize st)(x := currentsize st x + d)\<rparr>"

definition add_online :: "ptr \<Rightarrow> int \<Rightarrow> blist \<Rightarrow> blist" where
  "add_online x d st = st\<lparr>online := (online st)(x := online st x + d)\<rparr>"

text \<open>A buddy leaves or joins its contact \<open>c\<close>: the group \<open>g\<close> counts contacts, so its counter changes
  when the counter of the contact reaches or leaves zero.\<close>

definition online_leaves :: "ptr \<Rightarrow> ptr \<Rightarrow> blist \<Rightarrow> blist" where
  "online_leaves c g st =
     (let st = add_online c (- 1) st in if online st c = 0 then add_online g (- 1) st else st)"

definition online_joins :: "ptr \<Rightarrow> ptr \<Rightarrow> blist \<Rightarrow> blist" where
  "online_joins c g st =
     (let st = add_online c 1 st in if online st c = 1 then add_online g 1 st else st)"

definition current_leaves :: "ptr \<Rightarrow> ptr \<Rightarrow> blist \<Rightarrow> blist" where
  "current_leaves c g st =
     (let st = add_currentsize c (- 1) st in if currentsize st c = 0 then add_currentsize g (- 1) st else st)"

definition current_joins :: "ptr \<Rightarrow> ptr \<Rightarrow> blist \<Rightarrow> blist" where
  "current_joins c g st =
     (let st = add_currentsize c 1 st in if currentsize st c = 1 then add_currentsize g 1 st else st)"

definition buddy_leaves :: "ptr \<Rightarrow> blist \<Rightarrow> blist" where
  "buddy_leaves b st =
     (let c = node_parent st b; g = node_parent st c;
          st = (if PURPLE_BUDDY_IS_ONLINE st b then online_leaves c g st else st);
          st = (if connected st (node_account st b) then current_leaves c g st else st)
      in add_totalsize c (- 1) st)"

definition buddy_joins :: "ptr \<Rightarrow> blist \<Rightarrow> blist" where
  "buddy_joins b st =
     (let c = node_parent st b; g = node_parent st c;
          st = (if PURPLE_BUDDY_IS_ONLINE st b then online_joins c g st else st);
          st = (if connected st (node_account st b) then current_joins c g st else st)
      in add_totalsize c 1 st)"

text \<open>A chat counts as online while its account is connected.\<close>

definition count_chat :: "ptr \<Rightarrow> ptr \<Rightarrow> int \<Rightarrow> blist \<Rightarrow> blist" where
  "count_chat g x d st =
     (let st = add_totalsize g d st
      in if connected st (node_account st x) then add_currentsize g d (add_online g d st) else st)"

definition count_contact :: "ptr \<Rightarrow> ptr \<Rightarrow> int \<Rightarrow> blist \<Rightarrow> blist" where
  "count_contact g c d st =
     (let st = (if online st c > 0 then add_online g d st else st);
          st = (if currentsize st c > 0 then add_currentsize g d st else st)
      in add_totalsize g d st)"

definition purple_contact_invalidate_priority_buddy :: "ptr \<Rightarrow> blist \<Rightarrow> blist" where
  "purple_contact_invalidate_priority_buddy c st =
     (if c = 0 then st else st\<lparr>priority_valid := (priority_valid st)(c := False)\<rparr>)"

subsection \<open>Removing nodes\<close>

text \<open>The last branch of \<open>purple_blist_remove_contact\<close>, for a contact without children.\<close>

definition remove_empty_contact :: "blist_env \<Rightarrow> ptr \<Rightarrow> blist \<Rightarrow> blist" where
  "remove_empty_contact env c st =
     (let st = unlink_child (node_parent st c) c st;
          st = ui env Op_remove_node c (ui env Op_remove c st);
          st = emit (Signal ''blist-node-removed'' c) st
      in free_node c st)"

text \<open>The priority buddy \<open>b\<close> of a contact leaves it.\<close>

definition drop_priority :: "blist_env \<Rightarrow> ptr \<Rightarrow> ptr \<Rightarrow> blist \<Rightarrow> blist" where
  "drop_priority env c b st =
     (if node_child st c \<noteq> 0 \<and> priority st c = b
      then ui env Op_update c (purple_contact_invalidate_priority_buddy c st) else st)"

text \<open>A contact that lost its last buddy has no children, so its removal is the branch above.\<close>

definition purple_blist_remove_buddy :: "blist_env \<Rightarrow> ptr \<Rightarrow> blist \<Rightarrow> blist" where
  "purple_blist_remove_buddy env b st =
     (if b = 0 then st
      else
        let c = node_parent st b;
            g = (if c \<noteq> 0 then node_parent st c else 0);
            st = (if c \<noteq> 0 then unlink_child c b st else unlink_siblings b st);
            st = (if c \<noteq> 0 then drop_priority env c b (buddy_leaves b st) else st);
            st = buddies_remove (hkey env st b g) (node_account st b) st;
            st = ui env Op_remove_node b (ui env Op_remove b st);
            st = emit (Pounce_destroy_all_by_buddy b) st;
            st = emit (Signal ''blist-node-removed'' b) (emit (Signal ''buddy-removed'' b) st);
            st = free_node b st
        in if c \<noteq> 0 \<and> node_child st c = 0 then remove_empty_contact env c st else st)"

partial_function (option) remove_buddies_loop :: "blist_env \<Rightarrow> ptr \<Rightarrow> blist \<Rightarrow> blist option" where
  "remove_buddies_loop env c st =
     (if node_next st (node_child st c) \<noteq> 0
      then remove_buddies_loop env c (purple_blist_remove_buddy env (node_child st c) st)
      else Some st)"

definition purple_blist_remove_contact :: "blist_env \<Rightarrow> ptr \<Rightarrow> blist \<Rightarrow> blist option" where
  "purple_blist_remove_contact env c st =
     (if c = 0 then Some st
      else if node_child st c \<noteq> 0
      then do { st \<leftarrow> remove_buddies_loop env c st;
                Some (purple_blist_remove_buddy env (node_child st c) st) }
      else Some (remove_empty_contact env c st))"

definition purple_blist_remove_chat :: "blist_env \<Rightarrow> ptr \<Rightarrow> blist \<Rightarrow> blist" where
  "purple_blist_remove_chat env x st =
     (if x = 0 then st
      else
        let g = node_parent st x;
            st = (if g \<noteq> 0 then count_chat g x (- 1) (unlink_child g x st) else st);
            st = ui env Op_remove_node x (ui env Op_remove x st);
            st = emit (Signal ''blist-node-removed'' x) st
        in free_node x st)"

subsection \<open>Adding and moving nodes\<close>

definition purple_blist_add_chat :: "blist_env \<Rightarrow> ptr \<Rightarrow> ptr \<Rightarrow> ptr \<Rightarrow> ptr \<Rightarrow> blist \<Rightarrow> blist option" where
  "purple_blist_add_chat env gp x g n st =
     (if \<not> is_chat st x then Some st
      else do {
        (g, st) \<leftarrow>
          (if n = 0
           then let (g, st) = (if g = 0 then purple_group_new env gp (chats_name env) st else (g, st))
                in map_option (\<lambda>st. (g, st)) (ensure_listed env g st)
           else Some (node_parent st n, st));
        if x = n then Some st
        else
          let st = (if node_parent st x \<noteq> 0
                    then let st = count_chat (node_parent st x) x (- 1) st;
                             st = unlink_child (node_parent st x) x st
                         in ui env Op_new_node x (ui env Op_remove x st)
                    else st);
              st = (if n \<noteq> 0 then count_chat (node_parent st n) x 1 (link_after n x st)
                    else count_chat g x 1 (link_first g x st));
              st = ui env Op_update x (ui env Op_save_node x st)
          in Some (emit (Signal ''blist-node-added'' x) st) })"

text \<open>The loop of \<open>purple_blist_add_contact\<close> over the buddies of a contact that moves to the group \<open>g\<close>:
  \<open>True\<close> when the last buddy was removed, and the contact with it.\<close>

partial_function (option) move_buddies_loop ::
  "blist_env \<Rightarrow> ptr \<Rightarrow> ptr \<Rightarrow> ptr \<Rightarrow> blist \<Rightarrow> (bool \<times> blist) option" where
  "move_buddies_loop env c g b st =
     (if b = 0 then Some (False, st)
      else
        let n = node_next st b;
            old = node_parent st c;
            a = node_account st b;
            st = buddies_remove (hkey env st b old) a st
        in if purple_find_buddy_in_group env st a (node_name st b) g = 0
           then let st = buddies_replace (hkey env st b g) a b st;
                    st = (if has_connection env a then emit (Serv_move_buddy b old g) st else st)
                in move_buddies_loop env c g n st
           else let st = (if has_connection env a then emit (Account_remove_buddy a b old) st else st);
                    empty_contact = (node_next st (node_child st c) = 0);
                    st = purple_blist_remove_buddy env b st
                in if empty_contact then Some (True, st) else move_buddies_loop env c g n st)"

definition default_group :: "blist_env \<Rightarrow> ptr \<Rightarrow> blist \<Rightarrow> (ptr \<times> blist) option" where
  "default_group env gp st =
     (if purple_find_group env st (buddies_name env) \<noteq> 0
      then Some (purple_find_group env st (buddies_name env), st)
      else let (g, st) = purple_group_new env gp (buddies_name env) st
           in do { l \<leftarrow> purple_blist_get_last_sibling st (root st);
                   st \<leftarrow> purple_blist_add_group env g l st;
                   Some (g, st) })"

definition link_contact :: "blist_env \<Rightarrow> ptr \<Rightarrow> ptr \<Rightarrow> ptr \<Rightarrow> blist \<Rightarrow> blist option" where
  "link_contact env c g n st =
     (let st = (if is_contact st n \<or> is_chat st n then link_after n c st else link_first g c st);
          st = count_contact g c 1 st;
          st = (if node_child st c \<noteq> 0 then ui env Op_save_node c st else st)
      in do {
           st \<leftarrow> ui_siblings env Op_save_node (node_child st c) st;
           let st = (if node_child st c \<noteq> 0 then ui env Op_update c st else st);
           ui_siblings env Op_update (node_child st c) st })"

definition purple_blist_add_contact :: "blist_env \<Rightarrow> ptr \<Rightarrow> ptr \<Rightarrow> ptr \<Rightarrow> ptr \<Rightarrow> blist \<Rightarrow> blist option" where
  "purple_blist_add_contact env gp c g n st =
     (if \<not> is_contact st c \<or> c = n then Some st
      else do {
        (g, st) \<leftarrow>
          (if is_contact st n \<or> is_chat st n then Some (node_parent st n, st)
           else if g \<noteq> 0 then Some (g, st)
           else default_group env gp st);
        if node_parent st c = 0 then link_contact env c g n st
        else do {
          let st = unlink_child (node_parent st c) c st;
          (gone, st) \<leftarrow>
            (if node_parent st c \<noteq> g then move_buddies_loop env c g (node_child st c) st
             else Some (False, st));
          if gone then Some st
          else
            let st = count_contact (node_parent st c) c (- 1) st;
                st = ui env Op_remove_node c (ui env Op_remove c st)
            in link_contact env c g n st } })"

text \<open>The contact and group that \<open>purple_blist_add_buddy\<close> puts a buddy into.\<close>

definition target_contact ::
  "blist_env \<Rightarrow> ptr \<Rightarrow> ptr \<Rightarrow> ptr \<Rightarrow> ptr \<Rightarrow> ptr \<Rightarrow> blist \<Rightarrow> (ptr \<times> ptr \<times> blist) option" where
  "target_contact env gp cp c g n st =
     (if is_buddy st n then Some (node_parent st n, node_parent st (node_parent st n), st)
      else if c \<noteq> 0 then Some (c, node_parent st c, st)
      else
        let (g, st) = (if g = 0 then purple_group_new env gp (buddies_name env) st else (g, st))
        in do {
             st \<leftarrow> ensure_listed env g st;
             let st = purple_contact_new env cp st;
             l \<leftarrow> purple_blist_get_last_child st g;
             st \<leftarrow> purple_blist_add_contact env gp cp g l st;
             Some (cp, g, st) })"

text \<open>The buddy leaves the contact it is in, for a contact of the group \<open>g\<close>.\<close>

definition leave_contact :: "blist_env \<Rightarrow> ptr \<Rightarrow> ptr \<Rightarrow> blist \<Rightarrow> blist" where
  "leave_contact env b g st =
     (let c = node_parent st b;
          old = node_parent st c;
          st = buddy_leaves b st;
          st = (if old \<noteq> g
                then emit (Serv_move_buddy b old g) (emit (Signal ''buddy-removed-from-group'' b) st) else st);
          st = unlink_child c b st;
          st = ui env Op_remove b st;
          st = (if old \<noteq> g then buddies_remove (hkey env st b old) (node_account st b) st else st)
      in if node_child st c = 0 then remove_empty_contact env c st
         else ui env Op_update c (purple_contact_invalidate_priority_buddy c st))"

definition purple_blist_add_buddy ::
  "blist_env \<Rightarrow> ptr \<Rightarrow> ptr \<Rightarrow> ptr \<Rightarrow> ptr \<Rightarrow> ptr \<Rightarrow> ptr \<Rightarrow> blist \<Rightarrow> blist option" where
  "purple_blist_add_buddy env gp cp b c g n st =
     (if \<not> is_buddy st b then Some st
      else if b = n \<or> (n = 0 \<and> node_parent st b \<noteq> 0 \<and> c \<noteq> 0 \<and> node_parent st b = c \<and> b = node_child st c)
      then Some st
      else do {
        (c, g, st) \<leftarrow> target_contact env gp cp c g n st;
        let st = (if node_parent st b \<noteq> 0 then leave_contact env b g st else st);
            st = (if is_buddy st n then link_after n b st else link_first c b st);
            st = buddy_joins b st;
            st = buddies_replace (hkey env st b (node_parent st (node_parent st b))) (node_account st b) b st;
            st = purple_contact_invalidate_priority_buddy (node_parent st b) st;
            st = ui env Op_update b (ui env Op_save_node b st)
        in Some (emit (Signal ''blist-node-added'' b) (emit (Signal ''buddy-added'' b) st)) })"

partial_function (option) merge_loop :: "blist_env \<Rightarrow> ptr \<Rightarrow> ptr \<Rightarrow> ptr \<Rightarrow> blist \<Rightarrow> blist option" where
  "merge_loop env target prev cur st =
     (if cur = 0 then Some st
      else
        let next_b = node_next st cur
        in if is_buddy st cur
           then do { st \<leftarrow> purple_blist_add_buddy env 0 0 cur target 0 prev st;
                     merge_loop env target cur next_b st }
           else merge_loop env target prev next_b st)"

definition purple_blist_merge_contact :: "blist_env \<Rightarrow> ptr \<Rightarrow> ptr \<Rightarrow> blist \<Rightarrow> blist option" where
  "purple_blist_merge_contact env source n st =
     (if source = 0 \<or> n = 0 then Some st
      else if is_contact st n
      then do { prev \<leftarrow> purple_blist_get_last_child st n;
                if source = n then Some st else merge_loop env n prev (node_child st source) st }
      else if is_buddy st n
      then (if source = node_parent st n \<or> node_parent st n = 0 then Some st
            else merge_loop env (node_parent st n) n (node_child st source) st)
      else Some st)"

definition purple_blist_rename_buddy :: "blist_env \<Rightarrow> ptr \<Rightarrow> string \<Rightarrow> blist \<Rightarrow> blist" where
  "purple_blist_rename_buddy env b name st =
     (if b = 0 then st
      else
        let a = node_account st b;
            g = node_parent st (node_parent st b);
            st = buddies_remove (hkey env st b g) a st;
            st = buddies_replace (normalize env a name, a, g) a b st;
            st = st\<lparr>node_name := (node_name st)(b := name)\<rparr>
        in ui env Op_update b (ui env Op_save_node b st))"

subsection \<open>Connections and statuses\<close>

text \<open>\<open>old\<close> is whether the old status was online; the new one is the active status of the presence.\<close>

definition purple_blist_update_buddy_status :: "blist_env \<Rightarrow> ptr \<Rightarrow> bool \<Rightarrow> blist \<Rightarrow> blist" where
  "purple_blist_update_buddy_status env b old st =
     (if b = 0 then st
      else
        let c = node_parent st b;
            st = (if presence_online st b \<and> \<not> old
                  then online_joins c (node_parent st c) (emit (Signal ''buddy-signed-on'' b) st)
                  else if \<not> presence_online st b \<and> old
                  then online_leaves c (node_parent st c)
                         (emit (Signal ''buddy-signed-off'' b) (emit (Set_last_seen b) st))
                  else emit (Signal ''buddy-status-changed'' b) st)
        in ui env Op_update b (purple_contact_invalidate_priority_buddy (node_parent st b) st))"

definition add_account_buddy ::
  "blist_env \<Rightarrow> nat \<Rightarrow> ptr \<Rightarrow> ptr \<Rightarrow> ptr \<Rightarrow> bool \<times> blist \<Rightarrow> (bool \<times> blist) option" where
  "add_account_buddy env a g c b s =
     (case s of (recompute, st) \<Rightarrow>
        if is_buddy st b \<and> node_account st b = a
        then Some (True, ui env Op_update b (current_joins c g st)) else Some (recompute, st))"

definition add_account_child ::
  "blist_env \<Rightarrow> nat \<Rightarrow> ptr \<Rightarrow> ptr \<Rightarrow> unit \<times> blist \<Rightarrow> (unit \<times> blist) option" where
  "add_account_child env a g c s =
     (let st = snd s in
      if is_contact st c
      then do { (recompute, st) \<leftarrow> for_siblings (add_account_buddy env a g c) (node_child st c) (False, st);
                Some ((), if recompute \<or> show_offline env c
                          then ui env Op_update c (purple_contact_invalidate_priority_buddy c st) else st) }
      else if is_chat st c \<and> node_account st c = a
      then Some ((), ui env Op_update c (add_currentsize g 1 (add_online g 1 st)))
      else Some ((), st))"

definition add_account_group :: "blist_env \<Rightarrow> nat \<Rightarrow> ptr \<Rightarrow> unit \<times> blist \<Rightarrow> (unit \<times> blist) option" where
  "add_account_group env a g s =
     (if \<not> is_group (snd s) g then Some s
      else do { (_, st) \<leftarrow> for_siblings (add_account_child env a g) (node_child (snd s) g) s;
                Some ((), ui env Op_update g st) })"

definition purple_blist_add_account :: "blist_env \<Rightarrow> nat \<Rightarrow> blist \<Rightarrow> blist option" where
  "purple_blist_add_account env a st =
     (if \<not> ui_ops env Op_update then Some st
      else map_option snd (for_siblings (add_account_group env a) (root st) ((), st)))"

definition remove_account_buddy ::
  "blist_env \<Rightarrow> nat \<Rightarrow> ptr \<Rightarrow> ptr \<Rightarrow> ptr \<Rightarrow> (bool \<times> ptr list) \<times> blist \<Rightarrow> ((bool \<times> ptr list) \<times> blist) option" where
  "remove_account_buddy env a g c b s =
     (case s of ((recompute, l), st) \<Rightarrow>
        if \<not> is_buddy st b \<or> node_account st b \<noteq> a then Some s
        else
          let st = (if presence_online st b then emit (Set_last_seen b) (online_leaves c g st) else st);
              st = current_leaves c g st;
              l = (if b \<in> set l then l else b # l);
              hit = (priority st c = b);
              st = (if hit then purple_contact_invalidate_priority_buddy c st else st)
          in Some ((recompute \<or> \<not> hit, l), ui env Op_remove b st))"

definition remove_account_child ::
  "blist_env \<Rightarrow> nat \<Rightarrow> ptr \<Rightarrow> ptr \<Rightarrow> ptr list \<times> blist \<Rightarrow> (ptr list \<times> blist) option" where
  "remove_account_child env a g c s =
     (case s of (l, st) \<Rightarrow>
        if is_contact st c
        then do { ((recompute, l), st) \<leftarrow> for_siblings (remove_account_buddy env a g c) (node_child st c) ((False, l), st);
                  Some (l, if recompute then ui env Op_update c (purple_contact_invalidate_priority_buddy c st) else st) }
        else if is_chat st c \<and> node_account st c = a
        then Some (l, ui env Op_remove c (add_online g (- 1) (add_currentsize g (- 1) st)))
        else Some (l, st))"

definition remove_account_group :: "blist_env \<Rightarrow> nat \<Rightarrow> ptr \<Rightarrow> ptr list \<times> blist \<Rightarrow> (ptr list \<times> blist) option" where
  "remove_account_group env a g s =
     (if \<not> is_group (snd s) g then Some s else for_siblings (remove_account_child env a g) (node_child (snd s) g) s)"

text \<open>The last loop makes the presences offline.\<close>

definition sign_off :: "ptr \<Rightarrow> blist \<Rightarrow> blist" where
  "sign_off b st = emit (Set_status_offline b) (st\<lparr>presence_online := (presence_online st)(b := False)\<rparr>)"

definition purple_blist_remove_account :: "blist_env \<Rightarrow> nat \<Rightarrow> blist \<Rightarrow> blist option" where
  "purple_blist_remove_account env a st =
     map_option
       (\<lambda>(l, st). fold sign_off l st)
       (for_siblings (remove_account_group env a) (root st) ([], st))"

subsection \<open>The priority buddy\<close>

definition priority_step :: "blist_env \<Rightarrow> ptr \<Rightarrow> ptr \<times> blist \<Rightarrow> (ptr \<times> blist) option" where
  "priority_step env b s =
     (case s of (new_priority, st) \<Rightarrow>
        if \<not> is_buddy st b then Some s
        else if new_priority = 0 then Some (b, st)
        else if connected st (node_account st b)
        then let cmp = (if connected st (node_account st new_priority) then presence_compare env new_priority b else 1)
             in if cmp > 0 \<or> (cmp = 0 \<and> last_match env) then Some (b, st) else Some s
        else Some s)"

definition purple_contact_compute_priority_buddy :: "blist_env \<Rightarrow> ptr \<Rightarrow> blist \<Rightarrow> blist option" where
  "purple_contact_compute_priority_buddy env c st =
     (if c = 0 then Some st
      else
        let st = st\<lparr>priority := (priority st)(c := 0)\<rparr>
        in do { (p, st) \<leftarrow> for_siblings (priority_step env) (node_child st c) (0, st);
                let st = st\<lparr>priority := (priority st)(c := p)\<rparr>;
                Some (st\<lparr>priority_valid := (priority_valid st)(c := True)\<rparr>) })"

definition purple_contact_get_priority_buddy :: "blist_env \<Rightarrow> ptr \<Rightarrow> blist \<Rightarrow> (ptr \<times> blist) option" where
  "purple_contact_get_priority_buddy env c st =
     (if c = 0 then Some (0, st)
      else do { st \<leftarrow> (if priority_valid st c then Some st else purple_contact_compute_priority_buddy env c st);
                Some (priority st c, st) })"

subsection \<open>Aliases\<close>

definition purple_strings_are_different :: "blist_env \<Rightarrow> cstring \<Rightarrow> cstring \<Rightarrow> bool" where
  "purple_strings_are_different env one two \<longleftrightarrow>
     \<not> ((one \<noteq> None \<and> two \<noteq> None \<and> collate_key env (the one) = collate_key env (the two)) \<or>
        ((one = None \<or> one = Some '''') \<and> (two = None \<or> two = Some '''')))"

text \<open>The alias that is stored: unprintable characters are removed, an empty alias is \<open>NULL\<close>.\<close>

definition clean_alias :: "blist_env \<Rightarrow> cstring \<Rightarrow> cstring" where
  "clean_alias env al =
     (case al of None \<Rightarrow> None | Some s \<Rightarrow> if s = '''' then None else Some (strip_unprintables env s))"

definition stored_alias :: "cstring \<Rightarrow> cstring" where
  "stored_alias al = (if al = Some '''' then None else al)"

definition autoset_title :: "blist_env \<Rightarrow> ptr \<Rightarrow> blist \<Rightarrow> blist" where
  "autoset_title env b st = (if has_conversation env b then emit (Conversation_autoset_title b) st else st)"

definition purple_blist_alias_contact :: "blist_env \<Rightarrow> ptr \<Rightarrow> cstring \<Rightarrow> blist \<Rightarrow> blist option" where
  "purple_blist_alias_contact env c al st =
     (let new = clean_alias env al in
      if c = 0 \<or> \<not> purple_strings_are_different env (node_alias st c) new then Some st
      else
        let st = st\<lparr>node_alias := (node_alias st)(c := stored_alias new)\<rparr>;
            st = ui env Op_update c (ui env Op_save_node c st)
        in do { (_, st) \<leftarrow> for_siblings (\<lambda>b s. Some (fst s, autoset_title env b (snd s))) (node_child st c) ((), st);
                Some (emit (Signal ''blist-node-aliased'' c) st) })"

definition purple_blist_alias_chat :: "blist_env \<Rightarrow> ptr \<Rightarrow> cstring \<Rightarrow> blist \<Rightarrow> blist" where
  "purple_blist_alias_chat env x al st =
     (let new = clean_alias env al in
      if x = 0 \<or> \<not> purple_strings_are_different env (node_alias st x) new then st
      else
        let st = st\<lparr>node_alias := (node_alias st)(x := stored_alias new)\<rparr>
        in emit (Signal ''blist-node-aliased'' x) (ui env Op_update x (ui env Op_save_node x st)))"

definition purple_blist_alias_buddy :: "blist_env \<Rightarrow> ptr \<Rightarrow> cstring \<Rightarrow> blist \<Rightarrow> blist" where
  "purple_blist_alias_buddy env b al st =
     (let new = clean_alias env al in
      if b = 0 \<or> \<not> purple_strings_are_different env (node_alias st b) new then st
      else
        let st = st\<lparr>node_alias := (node_alias st)(b := stored_alias new)\<rparr>;
            st = autoset_title env b (ui env Op_update b (ui env Op_save_node b st))
        in emit (Signal ''blist-node-aliased'' b) st)"

definition purple_blist_server_alias_buddy :: "blist_env \<Rightarrow> ptr \<Rightarrow> cstring \<Rightarrow> blist \<Rightarrow> blist" where
  "purple_blist_server_alias_buddy env b al st =
     (let new = (case al of None \<Rightarrow> None | Some s \<Rightarrow> if utf8_valid env s then clean_alias env al else None) in
      if b = 0 \<or> \<not> purple_strings_are_different env (node_server_alias st b) new then st
      else
        let st = st\<lparr>node_server_alias := (node_server_alias st)(b := stored_alias new)\<rparr>;
            st = autoset_title env b (ui env Op_update b (ui env Op_save_node b st))
        in emit (Signal ''blist-node-aliased'' b) st)"

definition nonempty :: "cstring \<Rightarrow> bool" where
  "nonempty s \<longleftrightarrow> s \<noteq> None \<and> s \<noteq> Some ''''"

definition purple_buddy_get_alias_only :: "blist \<Rightarrow> ptr \<Rightarrow> cstring" where
  "purple_buddy_get_alias_only st b =
     (if b = 0 then None
      else if nonempty (node_alias st b) then node_alias st b
      else if nonempty (node_server_alias st b) then node_server_alias st b
      else None)"

definition purple_buddy_get_contact_alias :: "blist \<Rightarrow> ptr \<Rightarrow> cstring" where
  "purple_buddy_get_contact_alias st b =
     (let c = node_parent st b in
      if b = 0 then None
      else if node_alias st b \<noteq> None then node_alias st b
      else if c \<noteq> 0 \<and> node_alias st c \<noteq> None then node_alias st c
      else if nonempty (node_server_alias st b) then node_server_alias st b
      else Some (node_name st b))"

definition purple_buddy_get_alias :: "blist \<Rightarrow> ptr \<Rightarrow> cstring" where
  "purple_buddy_get_alias st b =
     (if b = 0 then None
      else if node_alias st b \<noteq> None then node_alias st b
      else if nonempty (node_server_alias st b) then node_server_alias st b
      else Some (node_name st b))"

definition purple_buddy_get_local_alias :: "blist \<Rightarrow> ptr \<Rightarrow> cstring" where
  "purple_buddy_get_local_alias st b =
     (let c = node_parent st b in
      if b = 0 then None
      else if node_alias st b \<noteq> None then node_alias st b
      else if c \<noteq> 0 \<and> node_alias st c \<noteq> None then node_alias st c
      else Some (node_name st b))"

definition purple_contact_get_alias :: "blist_env \<Rightarrow> ptr \<Rightarrow> blist \<Rightarrow> (cstring \<times> blist) option" where
  "purple_contact_get_alias env c st =
     (if c = 0 then Some (None, st)
      else if node_alias st c \<noteq> None then Some (node_alias st c, st)
      else map_option (\<lambda>(b, st). (purple_buddy_get_alias st b, st)) (purple_contact_get_priority_buddy env c st))"

text \<open>Whether somebody of an account is in a contact.\<close>

definition purple_contact_on_account :: "ptr \<Rightarrow> nat \<Rightarrow> blist \<Rightarrow> bool option" where
  "purple_contact_on_account c a st =
     (if c = 0 \<or> a = 0 then Some False
      else map_option fst
             (for_siblings (\<lambda>b s. Some (fst s \<or> is_buddy (snd s) b \<and> node_account (snd s) b = a, snd s))
                (node_child st c) (False, st)))"

end
