(* ===== verification/Blist_Counts.thy ===== *)
theory Blist_Counts
  imports Blist_Links
begin

section \<open>Counters on two levels\<close>

text \<open>
  A contact counts those of its buddies that satisfy a condition, and a group counts those of
  its children for which this is the case: contacts with a positive counter, and chats that
  satisfy the condition themselves (\<open>currentsize\<close> and \<open>online\<close> in \<open>libpurple/blist.h\<close>).  The code
  keeps both by adding or subtracting one when a buddy comes or goes and passing the change on
  to the group when the contact's counter reaches or leaves zero.
\<close>

definition cnt :: "('a \<Rightarrow> bool) \<Rightarrow> 'a list \<Rightarrow> int" where
  "cnt P xs = int (length (filter P xs))"

lemma cnt_nonneg [simp]: "0 \<le> cnt P xs"
  by (simp add: cnt_def)

lemma cnt_Nil [simp]: "cnt P [] = 0"
  by (simp add: cnt_def)

lemma cnt_Cons [simp]: "cnt P (x # xs) = of_bool (P x) + cnt P xs"
  by (simp add: cnt_def)

lemma cnt_cong: "(\<And>x. x \<in> set xs \<Longrightarrow> P x = Q x) \<Longrightarrow> cnt P xs = cnt Q xs"
  unfolding cnt_def by (simp cong: filter_cong)

lemma cnt_remove1: "x \<in> set xs \<Longrightarrow> cnt P (remove1 x xs) = cnt P xs - of_bool (P x)"
  by (induction xs) auto

lemma cnt_place: "a = 0 \<or> a \<in> set xs \<Longrightarrow> cnt P (place a x xs) = cnt P xs + of_bool (P x)"
  using place_mset [of a xs P x] by (simp add: cnt_def)

lemma cnt_flip:
  assumes "distinct xs" and "c \<in> set xs" and "\<And>x. x \<in> set xs \<Longrightarrow> x \<noteq> c \<Longrightarrow> Q x = P x"
  shows "cnt Q xs = cnt P xs - of_bool (P c) + of_bool (Q c)"
proof -
  have "cnt Q (remove1 c xs) = cnt P (remove1 c xs)"
    using assms by (intro cnt_cong) (auto simp: set_remove1_eq)
  then show ?thesis using cnt_remove1 [OF assms(2)] by (metis add.commute diff_add_cancel)
qed

lemma cnt_pos_iff: "0 < cnt P xs \<longleftrightarrow> (\<exists>x \<in> set xs. P x)"
  by (auto simp: cnt_def filter_empty_conv)

definition counts_up :: "(ptr \<Rightarrow> bool) \<Rightarrow> (ptr \<Rightarrow> bool) \<Rightarrow> (ptr \<Rightarrow> int) \<Rightarrow> ptr \<Rightarrow> bool" where
  "counts_up isC P f x = (if isC x then 0 < f x else P x)"

definition levels ::
  "(ptr \<Rightarrow> bool) \<Rightarrow> (ptr \<Rightarrow> bool) \<Rightarrow> (ptr \<Rightarrow> ptr list) \<Rightarrow> (ptr \<Rightarrow> bool) \<Rightarrow> (ptr \<Rightarrow> int) \<Rightarrow> bool" where
  "levels isC isG K P f \<longleftrightarrow>
     (\<forall>c. isC c \<longrightarrow> f c = cnt P (K c)) \<and> (\<forall>g. isG g \<longrightarrow> f g = cnt (counts_up isC P f) (K g))"

lemma levelsD:
  "levels isC isG K P f \<Longrightarrow> isC c \<Longrightarrow> f c = cnt P (K c)"
  "levels isC isG K P f \<Longrightarrow> isG g \<Longrightarrow> f g = cnt (counts_up isC P f) (K g)"
  by (simp_all add: levels_def)

lemma levels_cong_leaves:
  assumes "levels isC isG K P f" and "\<And>x. isC' x \<Longrightarrow> isC x" and "\<And>x. isG' x \<Longrightarrow> isG x"
    and "\<And>p x. isC' p \<or> isG' p \<Longrightarrow> x \<in> set (K p) \<Longrightarrow> isC' x = isC x \<and> (isG' p \<and> isC x \<or> P' x = P x)"
    and "\<And>p. isC' p \<Longrightarrow> \<not> isG' p"
  shows "levels isC' isG' K P' f"
  unfolding levels_def
proof (intro conjI allI impI)
  fix c
  assume c: "isC' c"
  then have "P' x = P x" if "x \<in> set (K c)" for x using assms(4) [OF disjI1 [OF c] that] assms(5) by blast
  then have "cnt P' (K c) = cnt P (K c)" by (rule cnt_cong)
  then show "f c = cnt P' (K c)" using levelsD(1) [OF assms(1) assms(2) [OF c]] by simp
next
  fix g
  assume g: "isG' g"
  have "counts_up isC' P' f x = counts_up isC P f x" if "x \<in> set (K g)" for x
    using assms(4) [OF disjI2 [OF g] that] by (auto simp: counts_up_def)
  then have "cnt (counts_up isC' P' f) (K g) = cnt (counts_up isC P f) (K g)" by (rule cnt_cong)
  then show "f g = cnt (counts_up isC' P' f) (K g)" using levelsD(2) [OF assms(1) assms(3) [OF g]] by simp
qed

lemma levels_cong:
  assumes "levels isC isG K P f" and "\<And>x. isC' x \<Longrightarrow> isC x" and "\<And>x. isG' x \<Longrightarrow> isG x"
    and "\<And>p x. x \<in> set (K p) \<Longrightarrow> isC' x = isC x \<and> P' x = P x" and "\<And>p. isC' p \<Longrightarrow> \<not> isG' p"
  shows "levels isC' isG' K P' f"
proof (rule levels_cong_leaves [OF assms(1-3) _ assms(5)])
  show "isC' x = isC x \<and> (isG' p \<and> isC x \<or> P' x = P x)" if "isC' p \<or> isG' p" "x \<in> set (K p)" for p x
    using assms(4) [OF that(2)] by simp
qed

text \<open>The counter after \<open>d\<close> buddies joined the contact \<open>c\<close> of the group \<open>g\<close>.\<close>

definition joins :: "ptr \<Rightarrow> ptr \<Rightarrow> (ptr \<Rightarrow> int) \<Rightarrow> ptr \<Rightarrow> int" where
  "joins c g f = (let f = f(c := f c + 1) in if f c = 1 then f(g := f g + 1) else f)"

definition leaves :: "ptr \<Rightarrow> ptr \<Rightarrow> (ptr \<Rightarrow> int) \<Rightarrow> ptr \<Rightarrow> int" where
  "leaves c g f = (let f = f(c := f c - 1) in if f c = 0 then f(g := f g - 1) else f)"

lemma levels_contact:
  assumes L: "levels isC isG K P f"
    and c: "isC c" "isG g" "c \<in> set (K g)" "distinct (K g)" "\<And>q. c \<in> set (K q) \<Longrightarrow> q = g" "\<And>x. isC x \<Longrightarrow> \<not> isG x"
    and K': "\<And>p. p \<noteq> c \<Longrightarrow> K' p = K p" and P': "\<And>p x. p \<noteq> c \<Longrightarrow> x \<in> set (K p) \<Longrightarrow> P' x = P x"
    and c': "f' c = cnt P' (K' c)" and g': "f' g = f g - of_bool (0 < f c) + of_bool (0 < f' c)"
    and f': "\<And>p. p \<noteq> c \<Longrightarrow> p \<noteq> g \<Longrightarrow> f' p = f p"
  shows "levels isC isG K' P' f'"
  unfolding levels_def
proof (intro conjI allI impI)
  fix p
  assume p: "isC p"
  show "f' p = cnt P' (K' p)"
  proof (cases "p = c")
    case False
    then have "p \<noteq> g" using c(2,6) p by auto
    then show ?thesis using f' K' levelsD(1) [OF L p] False cnt_cong [of "K p" P' P] P' by auto
  qed (simp add: c')
next
  fix p
  assume p: "isG p"
  then have pc: "p \<noteq> c" using c(1,6) by auto
  have same: "counts_up isC P' f' x = counts_up isC P f x" if "x \<in> set (K p)" "x \<noteq> c" for x
    using P' [OF pc that(1)] f' [OF that(2)] c(2,6) by (cases "x = g") (auto simp: counts_up_def)
  show "f' p = cnt (counts_up isC P' f') (K' p)"
  proof (cases "p = g")
    case True
    have "cnt (counts_up isC P' f') (K g) = cnt (counts_up isC P f) (K g) - of_bool (0 < f c) + of_bool (0 < f' c)"
      using cnt_flip [OF c(4,3), of "counts_up isC P' f'" "counts_up isC P f"] same True c(1)
      by (simp add: counts_up_def)
    then show ?thesis using levelsD(2) [OF L c(2)] g' K' [of g] True pc by simp
  next
    case False
    then have "cnt (counts_up isC P' f') (K p) = cnt (counts_up isC P f) (K p)"
      using same c(5) by (intro cnt_cong) auto
    then show ?thesis using levelsD(2) [OF L p] f' [OF pc False] K' [OF pc] by simp
  qed
qed

lemma levels_joins:
  assumes L: "levels isC isG K P f"
    and c: "isC c" "isG g" "c \<in> set (K g)" "distinct (K g)" "\<And>q. c \<in> set (K q) \<Longrightarrow> q = g" "\<And>x. isC x \<Longrightarrow> \<not> isG x"
    and K': "\<And>p. p \<noteq> c \<Longrightarrow> K' p = K p" and P': "\<And>p x. p \<noteq> c \<Longrightarrow> x \<in> set (K p) \<Longrightarrow> P' x = P x"
    and c': "cnt P' (K' c) = f c + 1"
  shows "levels isC isG K' P' (joins c g f)"
proof -
  have "c \<noteq> g" "0 \<le> f c" using c(1,2,6) levelsD(1) [OF L c(1)] by auto
  then show ?thesis
    using c' by (intro levels_contact [OF L c K' P']) (auto simp: joins_def Let_def)
qed

lemma levels_leaves:
  assumes L: "levels isC isG K P f"
    and c: "isC c" "isG g" "c \<in> set (K g)" "distinct (K g)" "\<And>q. c \<in> set (K q) \<Longrightarrow> q = g" "\<And>x. isC x \<Longrightarrow> \<not> isG x"
    and K': "\<And>p. p \<noteq> c \<Longrightarrow> K' p = K p" and P': "\<And>p x. p \<noteq> c \<Longrightarrow> x \<in> set (K p) \<Longrightarrow> P' x = P x"
    and c': "cnt P' (K' c) = f c - 1"
  shows "levels isC isG K' P' (leaves c g f)"
proof -
  have "c \<noteq> g" "0 \<le> f c - 1" using c(1,2,6) c' cnt_nonneg [of P' "K' c"] by auto
  then show ?thesis
    using c' by (intro levels_contact [OF L c K' P']) (auto simp: leaves_def Let_def)
qed

text \<open>A buddy \<open>b\<close> is taken out of the contact or put into it.\<close>

lemma levels_buddy_leaves:
  assumes L: "levels isC isG K P f"
    and c: "isC c" "isG g" "c \<in> set (K g)" "distinct (K g)" "\<And>q. c \<in> set (K q) \<Longrightarrow> q = g" "\<And>x. isC x \<Longrightarrow> \<not> isG x"
    and b: "b \<in> set (K c)"
  shows "levels isC isG (K(c := remove1 b (K c))) P (if P b then leaves c g f else f)"
proof (cases "P b")
  case True
  then show ?thesis
    using cnt_remove1 [OF b, of P] levelsD(1) [OF L c(1)] levels_leaves [OF L c, of "K(c := remove1 b (K c))" P] by simp
next
  case False
  then show ?thesis
    using cnt_remove1 [OF b, of P] levelsD(1) [OF L c(1)] levels_contact [OF L c, of "K(c := remove1 b (K c))" P f] by simp
qed

lemma levels_buddy_joins:
  assumes L: "levels isC isG K P f"
    and c: "isC c" "isG g" "c \<in> set (K g)" "distinct (K g)" "\<And>q. c \<in> set (K q) \<Longrightarrow> q = g" "\<And>x. isC x \<Longrightarrow> \<not> isG x"
    and a: "a = 0 \<or> a \<in> set (K c)"
  shows "levels isC isG (K(c := place a b (K c))) P (if P b then joins c g f else f)"
proof (cases "P b")
  case True
  then show ?thesis
    using cnt_place [OF a, of P b] levelsD(1) [OF L c(1)] levels_joins [OF L c, of "K(c := place a b (K c))" P] by simp
next
  case False
  then show ?thesis
    using cnt_place [OF a, of P b] levelsD(1) [OF L c(1)] levels_contact [OF L c, of "K(c := place a b (K c))" P f] by simp
qed

text \<open>A contact or chat \<open>x\<close> leaves or joins a group.\<close>

lemma levels_group:
  assumes L: "levels isC isG K P f" and g: "isG g" "\<And>x. isC x \<Longrightarrow> \<not> isG x"
    and K': "\<And>p. p \<noteq> g \<Longrightarrow> K' p = K p" and d: "cnt (counts_up isC P f) (K' g) = f g + d"
  shows "levels isC isG K' P (f(g := f g + d))"
proof -
  have v: "counts_up isC P (f(g := f g + d)) = counts_up isC P f"
    using g by (auto simp: counts_up_def fun_eq_iff)
  show ?thesis
    unfolding levels_def v using L g K' d by (auto simp: levels_def)
qed

lemma levels_group_leave:
  assumes "levels isC isG K P f" and "isG g" "\<And>x. isC x \<Longrightarrow> \<not> isG x" and "x \<in> set (K g)"
  shows "levels isC isG (K(g := remove1 x (K g))) P (f(g := f g - of_bool (counts_up isC P f x)))"
  using levels_group [OF assms(1-3), of "K(g := remove1 x (K g))" "- of_bool (counts_up isC P f x)"]
    cnt_remove1 [OF assms(4)] levelsD(2) [OF assms(1,2)] by simp

lemma levels_group_join:
  assumes "levels isC isG K P f" and "isG g" "\<And>x. isC x \<Longrightarrow> \<not> isG x" and "a = 0 \<or> a \<in> set (K g)"
  shows "levels isC isG (K(g := place a x (K g))) P (f(g := f g + of_bool (counts_up isC P f x)))"
  using levels_group [OF assms(1-3), of "K(g := place a x (K g))" "of_bool (counts_up isC P f x)"]
    cnt_place [OF assms(4)] levelsD(2) [OF assms(1,2)] by simp

text \<open>The members in \<open>S\<close> have been switched from \<open>P\<close> to \<open>P'\<close>.\<close>

definition mix :: "ptr set \<Rightarrow> (ptr \<Rightarrow> bool) \<Rightarrow> (ptr \<Rightarrow> bool) \<Rightarrow> ptr \<Rightarrow> bool" where
  "mix S P P' x = (if x \<in> S then P' x else P x)"

lemma mix_same: "P b = P' b \<Longrightarrow> mix (insert b S) P P' = mix S P P'"
  by (auto simp: mix_def fun_eq_iff)

lemma cnt_mix:
  assumes "distinct xs" and "b \<in> set xs" and "b \<notin> S"
  shows "cnt (mix (insert b S) P P') xs = cnt (mix S P P') xs - of_bool (P b) + of_bool (P' b)"
  using cnt_flip [OF assms(1,2), of "mix (insert b S) P P'" "mix S P P'"] assms(3) by (simp add: mix_def)

lemma levels_mix:
  assumes L: "levels isC isG K (mix S P P') f"
    and c: "isC c" "isG g" "c \<in> set (K g)" "distinct (K g)" "\<And>q. c \<in> set (K q) \<Longrightarrow> q = g" "\<And>x. isC x \<Longrightarrow> \<not> isG x"
    and b: "b \<in> set (K c)" "distinct (K c)" "\<And>q. b \<in> set (K q) \<Longrightarrow> q = c" "b \<notin> S"
  shows "P b \<Longrightarrow> \<not> P' b \<Longrightarrow> levels isC isG K (mix (insert b S) P P') (leaves c g f)"
    and "\<not> P b \<Longrightarrow> P' b \<Longrightarrow> levels isC isG K (mix (insert b S) P P') (joins c g f)"
proof -
  have away: "mix (insert b S) P P' x = mix S P P' x" if "p \<noteq> c" "x \<in> set (K p)" for p x
    using that b(3) by (auto simp: mix_def)
  note C = cnt_mix [OF b(2,1,4), of P P'] levelsD(1) [OF L c(1)]
  show "levels isC isG K (mix (insert b S) P P') (leaves c g f)" if "P b" "\<not> P' b"
    by (rule levels_leaves [OF L c _ away]) (use C that in simp_all)
  show "levels isC isG K (mix (insert b S) P P') (joins c g f)" if "\<not> P b" "P' b"
    by (rule levels_joins [OF L c _ away]) (use C that in simp_all)
qed

lemma levels_mix_member:
  assumes L: "levels isC isG K (mix S P P') f" and g: "isG g" "\<And>x. isC x \<Longrightarrow> \<not> isG x"
    and x: "x \<in> set (K g)" "distinct (K g)" "\<And>q. x \<in> set (K q) \<Longrightarrow> q = g" "\<not> isC x" "x \<notin> S"
  shows "levels isC isG K (mix (insert x S) P P') (f(g := f g - of_bool (P x) + of_bool (P' x)))"
  unfolding levels_def
proof (intro conjI allI impI)
  let ?f = "f(g := f g - of_bool (P x) + of_bool (P' x))"
  fix p
  have away: "mix (insert x S) P P' y = mix S P P' y" if "p \<noteq> g" "y \<in> set (K p)" for y
    using that x(3) by (auto simp: mix_def)
  show "?f p = cnt (mix (insert x S) P P') (K p)" if "isC p"
  proof -
    have "p \<noteq> g" using that g by auto
    then show ?thesis using levelsD(1) [OF L that] cnt_cong [of "K p", OF away] by simp
  qed
  have up: "counts_up isC (mix (insert x S) P P') ?f y = counts_up isC (mix S P P') f y" if "y \<noteq> x" for y
    using that g by (auto simp: counts_up_def mix_def)
  show "?f p = cnt (counts_up isC (mix (insert x S) P P') ?f) (K p)" if "isG p"
  proof (cases "p = g")
    case True
    have "cnt (counts_up isC (mix (insert x S) P P') ?f) (K g) =
        cnt (counts_up isC (mix S P P') f) (K g) - of_bool (P x) + of_bool (P' x)"
      using cnt_flip [OF x(2,1), of "counts_up isC (mix (insert x S) P P') ?f" "counts_up isC (mix S P P') f"] up x(4,5)
      by (simp add: counts_up_def mix_def)
    then show ?thesis using True levelsD(2) [OF L g(1)] by simp
  next
    case False
    have "cnt (counts_up isC (mix (insert x S) P P') ?f) (K p) = cnt (counts_up isC (mix S P P') f) (K p)"
    proof (rule cnt_cong)
      fix y
      assume "y \<in> set (K p)"
      then have "y \<noteq> x" using x(3) False by auto
      then show "counts_up isC (mix (insert x S) P P') ?f y = counts_up isC (mix S P P') f y" by (rule up)
    qed
    then show ?thesis using False levelsD(2) [OF L that] by simp
  qed
qed

end
