(* ===== verification/Purple_Blist_Wf.thy ===== *)
theory Purple_Blist_Wf
  imports Purple_Blist Blist_Counts
begin

section \<open>The invariant of the buddy list\<close>

subsection \<open>Operations as record updates\<close>

lemma ui_eq: "ui env p x st = st\<lparr>blist_events := blist_events st @ (if ui_ops env p then [Ui p x] else [])\<rparr>"
  by (simp add: ui_def emit_def)

lemma unlink_siblings_eq:
  assumes "node_prev st x \<noteq> x" and "node_next st x \<noteq> x"
  shows "unlink_siblings x st = st\<lparr>
     node_prev := cut_prev x (node_next st) (node_prev st),
     node_next := cut_next x (node_next st) (node_prev st)\<rparr>"
  using assms by (simp add: unlink_siblings_def cut_prev_def cut_next_def Let_def)

lemma unlink_child_eq:
  assumes "node_prev st x \<noteq> x" and "node_next st x \<noteq> x"
  shows "unlink_child p x st = st\<lparr>
     node_prev := cut_prev x (node_next st) (node_prev st),
     node_next := cut_next x (node_next st) (node_prev st),
     node_child := cut_first p x (node_next st) (node_child st)\<rparr>"
  using assms by (simp add: unlink_child_def unlink_siblings_eq cut_first_def Let_def)

lemma unlink_group_eq:
  assumes "node_prev st x \<noteq> x" and "node_next st x \<noteq> x"
  shows "unlink_group x st = st\<lparr>
     node_prev := cut_prev x (node_next st) (node_prev st),
     node_next := cut_next x (node_next st) (node_prev st),
     root := (if root st = x then node_next st x else root st)\<rparr>"
  using assms by (simp add: unlink_group_def unlink_siblings_eq Let_def)

lemma link_after_eq:
  assumes "a \<noteq> x" and "node_next st a \<noteq> x"
  shows "link_after a x st = st\<lparr>
     node_prev := put_prev a x (node_next st a) (node_prev st),
     node_next := (node_next st)(x := node_next st a, a := x),
     node_parent := (node_parent st)(x := node_parent st a)\<rparr>"
  using assms by (simp add: link_after_def put_prev_def Let_def)

lemma link_first_eq:
  "link_first p x st = st\<lparr>
     node_prev := put_prev 0 x (node_child st p) (node_prev st),
     node_next := (node_next st)(x := node_child st p),
     node_child := (node_child st)(p := x),
     node_parent := (node_parent st)(x := p)\<rparr>"
  by (simp add: link_first_def put_prev_def Let_def)

lemma link_group_after_eq:
  assumes "a \<noteq> x" and "node_next st a \<noteq> x"
  shows "link_group_after a x st = st\<lparr>
     node_prev := put_prev a x (node_next st a) (node_prev st),
     node_next := (node_next st)(x := node_next st a, a := x)\<rparr>"
  using assms by (simp add: link_group_after_def put_prev_def Let_def fun_upd_twist)

lemma link_group_first_eq:
  "link_group_first x st = st\<lparr>
     node_prev := put_prev 0 x (root st) (node_prev st),
     node_next := (node_next st)(x := root st),
     root := x\<rparr>"
  by (simp add: link_group_first_def put_prev_def Let_def)

lemma online_leaves_eq: "online_leaves c g st = st\<lparr>online := leaves c g (online st)\<rparr>"
  by (simp add: online_leaves_def leaves_def add_online_def Let_def)

lemma online_joins_eq: "online_joins c g st = st\<lparr>online := joins c g (online st)\<rparr>"
  by (simp add: online_joins_def joins_def add_online_def Let_def)

lemma current_leaves_eq: "current_leaves c g st = st\<lparr>currentsize := leaves c g (currentsize st)\<rparr>"
  by (simp add: current_leaves_def leaves_def add_currentsize_def Let_def)

lemma current_joins_eq: "current_joins c g st = st\<lparr>currentsize := joins c g (currentsize st)\<rparr>"
  by (simp add: current_joins_def joins_def add_currentsize_def Let_def)

definition leaves_if :: "bool \<Rightarrow> ptr \<Rightarrow> ptr \<Rightarrow> (ptr \<Rightarrow> int) \<Rightarrow> ptr \<Rightarrow> int" where
  "leaves_if P c g f = (if P then leaves c g f else f)"

definition joins_if :: "bool \<Rightarrow> ptr \<Rightarrow> ptr \<Rightarrow> (ptr \<Rightarrow> int) \<Rightarrow> ptr \<Rightarrow> int" where
  "joins_if P c g f = (if P then joins c g f else f)"

lemma buddy_leaves_eq:
  "buddy_leaves b st = st\<lparr>
     totalsize := (totalsize st)(node_parent st b := totalsize st (node_parent st b) - 1),
     currentsize := leaves_if (connected st (node_account st b)) (node_parent st b) (node_parent st (node_parent st b)) (currentsize st),
     online := leaves_if (PURPLE_BUDDY_IS_ONLINE st b) (node_parent st b) (node_parent st (node_parent st b)) (online st)\<rparr>"
  by (simp add: buddy_leaves_def leaves_if_def online_leaves_eq current_leaves_eq add_totalsize_def Let_def)

lemma buddy_joins_eq:
  "buddy_joins b st = st\<lparr>
     totalsize := (totalsize st)(node_parent st b := totalsize st (node_parent st b) + 1),
     currentsize := joins_if (connected st (node_account st b)) (node_parent st b) (node_parent st (node_parent st b)) (currentsize st),
     online := joins_if (PURPLE_BUDDY_IS_ONLINE st b) (node_parent st b) (node_parent st (node_parent st b)) (online st)\<rparr>"
  by (simp add: buddy_joins_def joins_if_def online_joins_eq current_joins_eq add_totalsize_def Let_def)

lemma count_chat_eq:
  "count_chat g x d st = st\<lparr>
     totalsize := (totalsize st)(g := totalsize st g + d),
     currentsize := (currentsize st)(g := currentsize st g + d * of_bool (connected st (node_account st x))),
     online := (online st)(g := online st g + d * of_bool (connected st (node_account st x)))\<rparr>"
  by (simp add: count_chat_def add_totalsize_def add_currentsize_def add_online_def Let_def)

lemma count_contact_eq:
  assumes "g \<noteq> c"
  shows "count_contact g c d st = st\<lparr>
     totalsize := (totalsize st)(g := totalsize st g + d),
     currentsize := (currentsize st)(g := currentsize st g + d * of_bool (currentsize st c > 0)),
     online := (online st)(g := online st g + d * of_bool (online st c > 0))\<rparr>"
  using assms by (simp add: count_contact_def add_totalsize_def add_currentsize_def add_online_def Let_def)

lemmas blist_eqs = emit_def ui_eq free_node_def link_first_eq buddies_remove_def buddies_replace_def
  online_leaves_eq online_joins_eq current_leaves_eq current_joins_eq buddy_leaves_eq buddy_joins_eq count_chat_eq

subsection \<open>The invariant\<close>

abbreviation contact_at :: "blist \<Rightarrow> ptr \<Rightarrow> bool" where
  "contact_at st x \<equiv> ntype st x = Some PURPLE_BLIST_CONTACT_NODE"

abbreviation group_at :: "blist \<Rightarrow> ptr \<Rightarrow> bool" where
  "group_at st x \<equiv> ntype st x = Some PURPLE_BLIST_GROUP_NODE"

abbreviation buddy_at :: "blist \<Rightarrow> ptr \<Rightarrow> bool" where
  "buddy_at st x \<equiv> ntype st x = Some PURPLE_BLIST_BUDDY_NODE"

abbreviation chat_at :: "blist \<Rightarrow> ptr \<Rightarrow> bool" where
  "chat_at st x \<equiv> ntype st x = Some PURPLE_BLIST_CHAT_NODE"

definition first :: "blist \<Rightarrow> ptr \<Rightarrow> ptr" where
  "first st p = (if p = 0 then root st else node_child st p)"

abbreviation links :: "blist \<Rightarrow> (ptr \<Rightarrow> ptr list) \<Rightarrow> bool" where
  "links st K \<equiv> forest (first st) (node_next st) (node_prev st) (node_parent st) K"

text \<open>Groups at the top, contacts and chats in listed groups, buddies in contacts of groups; a node
  with a parent is among its children.\<close>

definition tree_ok :: "blist \<Rightarrow> (ptr \<Rightarrow> ptr list) \<Rightarrow> bool" where
  "tree_ok st K \<longleftrightarrow>
     ntype st 0 = None \<and> (\<forall>g \<in> set (K 0). group_at st g) \<and> (\<forall>g. group_at st g \<longrightarrow> node_parent st g = 0) \<and>
     (\<forall>p x. x \<in> set (K p) \<longrightarrow> p \<noteq> 0 \<longrightarrow>
        p \<in> set (K 0) \<and> (contact_at st x \<or> chat_at st x) \<or>
        contact_at st p \<and> node_parent st p \<noteq> 0 \<and> buddy_at st x) \<and>
     (\<forall>x. ntype st x \<noteq> None \<longrightarrow> node_parent st x \<noteq> 0 \<longrightarrow> x \<in> set (K (node_parent st x)))"

lemma tree_okD:
  assumes "tree_ok st K"
  shows "ntype st 0 = None" "g \<in> set (K 0) \<Longrightarrow> group_at st g" "group_at st g \<Longrightarrow> node_parent st g = 0"
    "x \<in> set (K p) \<Longrightarrow> p \<noteq> 0 \<Longrightarrow> p \<in> set (K 0) \<and> (contact_at st x \<or> chat_at st x) \<or>
       contact_at st p \<and> node_parent st p \<noteq> 0 \<and> buddy_at st x"
    "ntype st x \<noteq> None \<Longrightarrow> node_parent st x \<noteq> 0 \<Longrightarrow> x \<in> set (K (node_parent st x))"
  using assms unfolding tree_ok_def by blast+

definition member_online :: "blist \<Rightarrow> ptr \<Rightarrow> bool" where
  "member_online st x =
     (if buddy_at st x then PURPLE_BUDDY_IS_ONLINE st x else connected st (node_account st x))"

definition member_current :: "blist \<Rightarrow> ptr \<Rightarrow> bool" where
  "member_current st x = connected st (node_account st x)"

definition counts_ok :: "blist \<Rightarrow> (ptr \<Rightarrow> ptr list) \<Rightarrow> bool" where
  "counts_ok st K \<longleftrightarrow>
     levels (contact_at st) (group_at st) K (member_current st) (currentsize st) \<and>
     levels (contact_at st) (group_at st) K (member_online st) (online st) \<and>
     (\<forall>c. contact_at st c \<longrightarrow> totalsize st c = int (length (K c))) \<and>
     (\<forall>g. group_at st g \<longrightarrow> int (length (K g)) \<le> totalsize st g)"

lemma counts_okI:
  assumes "levels (contact_at st) (group_at st) K (member_current st) (currentsize st)"
    and "levels (contact_at st) (group_at st) K (member_online st) (online st)"
    and "\<And>c. contact_at st c \<Longrightarrow> totalsize st c = int (length (K c))"
    and "\<And>g. group_at st g \<Longrightarrow> int (length (K g)) \<le> totalsize st g"
  shows "counts_ok st K"
  using assms by (simp add: counts_ok_def)

lemma counts_okD:
  assumes "counts_ok st K"
  shows "levels (contact_at st) (group_at st) K (member_current st) (currentsize st)"
    and "levels (contact_at st) (group_at st) K (member_online st) (online st)"
    and "contact_at st c \<Longrightarrow> totalsize st c = int (length (K c))"
    and "group_at st g \<Longrightarrow> int (length (K g)) \<le> totalsize st g"
  using assms by (simp_all add: counts_ok_def)

text \<open>What the hash tables hold is on the list, under the key it was looked up with.\<close>

definition entries_ok :: "blist_env \<Rightarrow> blist \<Rightarrow> bool" where
  "entries_ok env st \<longleftrightarrow>
     (\<forall>k b. buddies st k = Some b \<longrightarrow>
        buddy_at st b \<and> node_parent st b \<noteq> 0 \<and> k = hkey env st b (node_parent st (node_parent st b)))"

definition cache_ok :: "(hbuddy \<rightharpoonup> ptr) \<Rightarrow> (nat \<rightharpoonup> hbuddy \<rightharpoonup> ptr) \<Rightarrow> bool" where
  "cache_ok tab cache \<longleftrightarrow>
     (\<forall>a t. cache a = Some t \<longrightarrow> t = (\<lambda>k. if fst (snd k) = a then tab k else None))"

definition table_ok :: "blist_env \<Rightarrow> blist \<Rightarrow> bool" where
  "table_ok env st \<longleftrightarrow> entries_ok env st \<and> cache_ok (buddies st) (buddies_cache st)"

definition groups_ok :: "blist_env \<Rightarrow> blist \<Rightarrow> (ptr \<Rightarrow> ptr list) \<Rightarrow> bool" where
  "groups_ok env st K \<longleftrightarrow>
     (\<forall>k g. groups_cache st k = Some g \<longleftrightarrow> g \<in> set (K 0) \<and> k = collate_key env (node_name st g)) \<and>
     (\<forall>g \<in> set (K 0). node_name st g \<noteq> '''')"

definition priority_ok :: "blist \<Rightarrow> (ptr \<Rightarrow> ptr list) \<Rightarrow> bool" where
  "priority_ok st K \<longleftrightarrow>
     (\<forall>c. contact_at st c \<longrightarrow> priority_valid st c \<longrightarrow> K c \<noteq> [] \<longrightarrow> priority st c \<in> set (K c))"

definition blist_ok :: "blist_env \<Rightarrow> blist \<Rightarrow> (ptr \<Rightarrow> ptr list) \<Rightarrow> bool" where
  "blist_ok env st K \<longleftrightarrow>
     links st K \<and> tree_ok st K \<and> counts_ok st K \<and> table_ok env st \<and> groups_ok env st K \<and> priority_ok st K"

lemma blist_okD:
  assumes "blist_ok env st K"
  shows "links st K" "tree_ok st K" "counts_ok st K" "table_ok env st" "groups_ok env st K" "priority_ok st K"
  using assms by (simp_all add: blist_ok_def)

lemma first_child [simp]: "p \<noteq> 0 \<Longrightarrow> first st p = node_child st p"
  by (simp add: first_def)

lemma child_iff:
  assumes "links st K" and "p \<noteq> 0"
  shows "node_child st p = 0 \<longleftrightarrow> K p = []"
  using forest_first [OF assms(1), of p] forestD(3) [OF assms(1), of p] assms(2) by (cases "K p") auto

lemma links_cong:
  assumes "links st K" and "root st' = root st" "node_child st' = node_child st" "node_next st' = node_next st"
    "node_prev st' = node_prev st" "node_parent st' = node_parent st"
  shows "links st' K"
proof -
  have "first st' = first st" by (simp add: first_def assms fun_eq_iff)
  then show ?thesis using assms by simp
qed

lemma contact_no_group: "contact_at st p \<Longrightarrow> \<not> group_at st p"
  by simp

lemma len_remove1: "x \<in> set xs \<Longrightarrow> int (length (remove1 x xs)) = int (length xs) - 1"
  by (induction xs) auto

lemma set_removed:
  assumes "links st K" and "x \<in> set (K q)"
  shows "set ((K(q := remove1 x (K q))) p) = set (K p) - {x}"
proof (cases "p = q")
  case False
  then have "x \<notin> set (K p)" using forest_disjoint [OF assms(1) assms(2)] by blast
  then show ?thesis using False by simp
qed (simp add: set_remove1_eq forestD(2) [OF assms(1)])

lemma in_tree: "blist_ok env st K \<Longrightarrow> x \<in> set (K p) \<Longrightarrow> node_parent st x = p \<and> x \<noteq> 0"
  using forestD(3,4) [OF blist_okD(1)] by metis

lemma attached: "blist_ok env st K \<Longrightarrow> ntype st x \<noteq> None \<Longrightarrow> node_parent st x \<noteq> 0 \<Longrightarrow> x \<in> set (K (node_parent st x))"
  using blist_okD(2) unfolding tree_ok_def by blast

lemma contact_place:
  assumes ok: "blist_ok env st K" and c: "contact_at st c" "node_parent st c \<noteq> 0"
  shows "c \<in> set (K (node_parent st c))" "node_parent st c \<in> set (K 0)" "group_at st (node_parent st c)"
proof -
  show "c \<in> set (K (node_parent st c))" using attached [OF ok] c by simp
  then show "node_parent st c \<in> set (K 0)"
    using blist_okD(2) [OF ok] c unfolding tree_ok_def by force
  then show "group_at st (node_parent st c)"
    using tree_okD(2) [OF blist_okD(2) [OF ok]] by blast
qed

lemma buddy_place:
  assumes ok: "blist_ok env st K" and b: "buddy_at st b" "node_parent st b \<noteq> 0"
  shows "b \<in> set (K (node_parent st b))" "contact_at st (node_parent st b)" "node_parent st (node_parent st b) \<noteq> 0"
proof -
  show "b \<in> set (K (node_parent st b))" using attached [OF ok] b by simp
  then show "contact_at st (node_parent st b)" "node_parent st (node_parent st b) \<noteq> 0"
    using blist_okD(2) [OF ok] b unfolding tree_ok_def by force+
qed

text \<open>No node but a group or contact has children.\<close>

lemma childless:
  assumes ok: "blist_ok env st K" and "p \<noteq> 0" "\<not> group_at st p" "\<not> contact_at st p"
  shows "K p = []"
proof -
  have "x \<notin> set (K p)" for x using blist_okD(2) [OF ok] assms(2-4) unfolding tree_ok_def by metis
  then show ?thesis by (cases "K p") auto
qed

lemma links_unlink:
  assumes l: "links st K" and x: "x \<in> set (K p)" "p \<noteq> 0"
  shows "links (unlink_child p x st) (K(p := remove1 x (K p)))"
proof -
  have "first (unlink_child p x st) = cut_first p x (node_next st) (first st)"
    using x(2) by (auto simp: unlink_child_eq forest_no_self [OF l x(1)] cut_first_def first_def fun_eq_iff)
  then show ?thesis
    using forest_unlink [OF l x(1)] by (simp add: unlink_child_eq forest_no_self [OF l x(1)])
qed

subsection \<open>Taking nodes out\<close>

text \<open>What the invariant needs when the childless node \<open>x\<close> leaves the tree and is freed, or loses its
  parent.\<close>

lemma tree_ok_leave:
  assumes t: "tree_ok st K" and x: "K x = []"
    and st': "ntype st' = (ntype st)(x := u)" "node_parent st' = (node_parent st)(x := q)"
      "u = None \<or> u = ntype st x \<and> q = 0"
    and K': "\<And>p. set (K' p) = set (K p) - {x}"
  shows "tree_ok st' K'"
proof -
  note D = tree_okD [OF t]
  have same: "ntype st' y = ntype st y" "node_parent st' y = node_parent st y" if "y \<noteq> x" for y
    using that by (simp_all add: st')
  have gone: "ntype st' x \<noteq> None \<Longrightarrow> ntype st' x = ntype st x \<and> node_parent st' x = 0"
    using st' by auto
  have "p \<in> set (K' 0) \<and> (contact_at st' y \<or> chat_at st' y) \<or>
      contact_at st' p \<and> node_parent st' p \<noteq> 0 \<and> buddy_at st' y" if "y \<in> set (K' p)" "p \<noteq> 0" for p y
  proof -
    have y: "y \<in> set (K p)" "y \<noteq> x" using that K' by auto
    then have "p \<noteq> x" using x by auto
    with D(4) [OF y(1) that(2)] show ?thesis by (simp add: same y(2) K')
  qed
  moreover have "y \<in> set (K' (node_parent st' y))" if "ntype st' y \<noteq> None" "node_parent st' y \<noteq> 0" for y
  proof -
    have "y \<noteq> x" using gone that by auto
    then show ?thesis using that D(5) by (simp add: same K')
  qed
  moreover have "ntype st' 0 = None" using D(1) st'(1,3) by auto
  moreover have "\<forall>g \<in> set (K' 0). group_at st' g" using D(2) by (simp add: K' same)
  moreover have "\<forall>g. group_at st' g \<longrightarrow> node_parent st' g = 0"
    using D(3) gone same by (metis option.distinct(1))
  ultimately show ?thesis unfolding tree_ok_def by blast
qed

lemma priority_ok_leave:
  assumes "priority_ok st K" and "ntype st' = (ntype st)(x := u)" and "u = None \<or> u = ntype st x"
    and "\<And>c. contact_at st c \<Longrightarrow> priority_valid st' c \<Longrightarrow> K' c \<noteq> [] \<Longrightarrow> priority_valid st c \<and> priority st c \<noteq> x"
    and "priority st' = priority st" and "\<And>p. set (K' p) = set (K p) - {x}"
  shows "priority_ok st' K'"
  unfolding priority_ok_def
proof (intro allI impI)
  fix c
  assume c: "contact_at st' c" "priority_valid st' c" "K' c \<noteq> []"
  then have "contact_at st c" using assms(2,3) by (auto split: if_splits)
  moreover have "K c \<noteq> []" using c(3) assms(6) [of c] by (metis empty_set set_empty subset_empty Diff_subset)
  ultimately have "priority_valid st c" "priority st c \<in> set (K c)" "priority st c \<noteq> x"
    using assms(1) c assms(4) [of c] unfolding priority_ok_def by blast+
  then show "priority st' c \<in> set (K' c)"
    by (simp add: assms(5,6))
qed

lemma entries_okD:
  "table_ok env st \<Longrightarrow> buddies st k = Some b \<Longrightarrow>
     buddy_at st b \<and> node_parent st b \<noteq> 0 \<and> k = hkey env st b (node_parent st (node_parent st b))"
  unfolding table_ok_def entries_ok_def by blast

lemma table_ok_cong:
  assumes "table_ok env st" and "buddies st' = buddies st" and "buddies_cache st' = buddies_cache st"
    and "\<And>k b. buddies st k = Some b \<Longrightarrow> buddy_at st' b \<and> node_parent st' b = node_parent st b \<and>
      node_parent st' (node_parent st b) = node_parent st (node_parent st b) \<and>
      node_account st' b = node_account st b \<and> node_name st' b = node_name st b"
  shows "table_ok env st'"
proof -
  have "buddy_at st' b \<and> node_parent st' b \<noteq> 0 \<and> k = hkey env st' b (node_parent st' (node_parent st' b))"
    if "buddies st k = Some b" for k b
    using entries_okD [OF assms(1) that] assms(4) [OF that] unfolding hkey_def by metis
  then show ?thesis using assms(1-3) unfolding table_ok_def entries_ok_def by simp
qed

lemma groups_ok_cong:
  assumes "groups_ok env st K" and "groups_cache st' = groups_cache st"
    and "\<And>g. g \<in> set (K 0) \<Longrightarrow> node_name st' g = node_name st g" and "K' 0 = K 0"
  shows "groups_ok env st' K'"
  using assms unfolding groups_ok_def by metis

lemma blist_ok_leave:
  assumes ok: "blist_ok env st K" and x: "x \<in> set (K p)" "p \<noteq> 0" "K x = []"
    and links': "links st' (K(p := remove1 x (K p)))"
    and st': "ntype st' = (ntype st)(x := u)" "node_parent st' = (node_parent st)(x := q)" "u = None \<or> u = ntype st x \<and> q = 0"
      "node_name st' = node_name st"
      "node_account st' = node_account st" "connected st' = connected st" "presence_online st' = presence_online st"
      "groups_cache st' = groups_cache st" "priority st' = priority st"
    and prio: "\<And>c. contact_at st c \<Longrightarrow> priority_valid st' c \<Longrightarrow>
      priority_valid st c \<and> (x \<in> set (K c) \<longrightarrow> (K(p := remove1 x (K p))) c \<noteq> [] \<longrightarrow> priority st c \<noteq> x)"
    and counts: "levels (contact_at st) (group_at st) (K(p := remove1 x (K p))) (member_current st) (currentsize st')"
      "levels (contact_at st) (group_at st) (K(p := remove1 x (K p))) (member_online st) (online st')"
      "\<And>c. contact_at st c \<Longrightarrow> c = x \<longrightarrow> u \<noteq> None \<Longrightarrow> totalsize st' c = int (length ((K(p := remove1 x (K p))) c))"
      "\<And>g. group_at st g \<Longrightarrow> int (length ((K(p := remove1 x (K p))) g)) \<le> totalsize st' g"
    and tab: "table_ok env st'"
  shows "blist_ok env st' (K(p := remove1 x (K p)))" (is "blist_ok env st' ?K")
proof -
  note l = blist_okD(1) [OF ok]
  have sub: "set (?K q) = set (K q) - {x}" for q by (rule set_removed [OF l x(1)])
  have "tree_ok st' ?K" by (rule tree_ok_leave [OF blist_okD(2) [OF ok] x(3) st'(1-3) sub])
  moreover have "groups_ok env st' ?K"
    by (rule groups_ok_cong [OF blist_okD(5) [OF ok] st'(8)]) (use x(2) st'(4) in auto)
  moreover have "priority_ok st' ?K"
  proof (rule priority_ok_leave [OF blist_okD(6) [OF ok] st'(1) _ _ st'(9) sub])
    fix c
    assume c: "contact_at st c" "priority_valid st' c" "?K c \<noteq> []"
    then have "K c \<noteq> []" by (auto split: if_splits)
    then have "priority st c \<in> set (K c)"
      using blist_okD(6) [OF ok] c(1) prio [OF c(1,2)] unfolding priority_ok_def by blast
    then show "priority_valid st c \<and> priority st c \<noteq> x" using prio [OF c(1,2)] c(3) by blast
  qed (use st'(3) in blast)
  moreover have "counts_ok st' ?K"
  proof (rule counts_okI)
    have types: "contact_at st' y \<Longrightarrow> contact_at st y" "group_at st' y \<Longrightarrow> group_at st y"
      "y \<noteq> x \<Longrightarrow> ntype st' y = ntype st y" for y
      using st'(1,3) by (auto split: if_splits)
    have P: "member_current st' y = member_current st y" "y \<noteq> x \<Longrightarrow> member_online st' y = member_online st y" for y
      by (simp_all add: member_current_def member_online_def PURPLE_BUDDY_IS_ONLINE_def st'(1,5-7))
    have cong: "contact_at st' y = contact_at st y \<and> member_current st' y = member_current st y"
      "contact_at st' y = contact_at st y \<and> member_online st' y = member_online st y" if "y \<in> set (?K r)" for r y
      using that sub [of r] P types(3) [of y] by simp_all
    show "levels (contact_at st') (group_at st') ?K (member_current st') (currentsize st')"
      by (rule levels_cong [OF counts(1) types(1,2) cong(1)]) (assumption | rule contact_no_group)+
    show "levels (contact_at st') (group_at st') ?K (member_online st') (online st')"
      by (rule levels_cong [OF counts(2) types(1,2) cong(2)]) (assumption | rule contact_no_group)+
    show "contact_at st' c \<Longrightarrow> totalsize st' c = int (length (?K c))" for c
      using counts(3) [of c] types(1) [of c] st'(1) by (cases "c = x") auto
    show "group_at st' g \<Longrightarrow> int (length (?K g)) \<le> totalsize st' g" for g
      using counts(4) [of g] types(2) by auto
  qed
  ultimately show ?thesis using links' tab by (simp add: blist_ok_def)
qed

lemma remove_empty_contact_ok:
  assumes ok: "blist_ok env st K" and c: "contact_at st c" "node_parent st c \<noteq> 0" "K c = []"
  shows "blist_ok env (remove_empty_contact env c st) (K(node_parent st c := remove1 c (K (node_parent st c))))"
proof -
  define g where "g = node_parent st c"
  note place = contact_place [OF ok c(1,2), folded g_def]
  note self = forest_no_self [OF blist_okD(1) [OF ok] place(1)]
  note eqs = remove_empty_contact_def g_def [symmetric] Let_def unlink_child_eq [OF self(2,1)] blist_eqs
  have g0: "g \<noteq> 0" using c by (simp add: g_def)
  note C = counts_okD [OF blist_okD(3) [OF ok]]
  have pa: "(node_parent st)(c := g) = node_parent st" by (simp add: g_def)
  have leave: "levels (contact_at st) (group_at st) (K(g := remove1 c (K g))) P f"
    if "levels (contact_at st) (group_at st) K P f" for P f
  proof -
    have "\<not> counts_up (contact_at st) P f c"
      using levelsD(1) [OF that c(1)] by (simp add: counts_up_def c)
    then show ?thesis
      using levels_group_leave [OF that place(3) _ place(1)] by simp
  qed
  show ?thesis
    unfolding g_def [symmetric]
  proof (rule blist_ok_leave [where u = None and q = g, OF ok place(1) g0 c(3)])
    show "links (remove_empty_contact env c st) (K(g := remove1 c (K g)))"
      by (rule links_cong [OF links_unlink [OF blist_okD(1) [OF ok] place(1) g0]]) (simp_all add: eqs)
    show "table_ok env (remove_empty_contact env c st)"
      by (rule table_ok_cong [OF blist_okD(4) [OF ok]])
        (use entries_okD [OF blist_okD(4) [OF ok]] c(1) in \<open>fastforce simp: eqs\<close>)+
    show "priority_valid st d \<and> (c \<in> set (K d) \<longrightarrow> (K(g := remove1 c (K g))) d \<noteq> [] \<longrightarrow> priority st d \<noteq> c)"
      if "contact_at st d" "priority_valid (remove_empty_contact env c st) d" for d
      using that in_tree [OF ok, of c d] in_tree [OF ok place(1)] place(3) by (auto simp: eqs)
    show "totalsize (remove_empty_contact env c st) d = int (length ((K(g := remove1 c (K g))) d))"
      if "contact_at st d" for d
      using that C(3) [of d] place(3) by (auto simp: eqs)
    show "int (length ((K(g := remove1 c (K g))) d)) \<le> totalsize (remove_empty_contact env c st) d"
      if "group_at st d" for d
      using that C(4) [of d] length_remove1 [of c "K g"] by (auto simp: eqs)
  qed (use leave [OF C(1)] leave [OF C(2)] in \<open>simp_all add: eqs pa\<close>)
qed

text \<open>A chat is taken off its group with its share of the counters.\<close>

lemma chat_place:
  assumes ok: "blist_ok env st K" and x: "chat_at st x" "node_parent st x \<noteq> 0"
  shows "x \<in> set (K (node_parent st x))" "node_parent st x \<in> set (K 0)" "group_at st (node_parent st x)"
proof -
  show "x \<in> set (K (node_parent st x))" using attached [OF ok] x by simp
  then show "node_parent st x \<in> set (K 0)"
    using blist_okD(2) [OF ok] x unfolding tree_ok_def by force
  then show "group_at st (node_parent st x)"
    using tree_okD(2) [OF blist_okD(2) [OF ok]] by blast
qed

lemma chat_leave_ok:
  assumes ok: "blist_ok env st K" and x: "chat_at st x" "node_parent st x \<noteq> 0" and g: "g = node_parent st x"
    and links': "links st' (K(g := remove1 x (K g)))"
    and st': "ntype st' = (ntype st)(x := u)" "node_parent st' = (node_parent st)(x := q)" "u = None \<or> u = ntype st x \<and> q = 0"
      "node_name st' = node_name st" "node_account st' = node_account st" "connected st' = connected st"
      "presence_online st' = presence_online st" "groups_cache st' = groups_cache st" "priority st' = priority st"
      "buddies st' = buddies st" "buddies_cache st' = buddies_cache st" "priority_valid st' = priority_valid st"
      "currentsize st' = (currentsize st)(g := currentsize st g - of_bool (connected st (node_account st x)))"
      "online st' = (online st)(g := online st g - of_bool (connected st (node_account st x)))"
      "totalsize st' = (totalsize st)(g := totalsize st g - 1)"
  shows "blist_ok env st' (K(g := remove1 x (K g)))"
proof -
  note place = chat_place [OF ok x, folded g]
  have g0: "g \<noteq> 0" using x g by simp
  have x0: "x \<noteq> 0" using in_tree [OF ok place(1)] by simp
  have Kx: "K x = []" by (rule childless [OF ok x0]) (use x in auto)
  note C = counts_okD [OF blist_okD(3) [OF ok]]
  have leave: "levels (contact_at st) (group_at st) (K(g := remove1 x (K g))) P
      (f(g := f g - of_bool (connected st (node_account st x))))"
    if "levels (contact_at st) (group_at st) K P f" "P x = connected st (node_account st x)" for P f
    using levels_group_leave [OF that(1) place(3) _ place(1)] that(2) x(1) by (simp add: counts_up_def)
  show ?thesis
  proof (rule blist_ok_leave [OF ok place(1) g0 Kx links' st'(1-9)])
    show "priority_valid st d \<and> (x \<in> set (K d) \<longrightarrow> (K(g := remove1 x (K g))) d \<noteq> [] \<longrightarrow> priority st d \<noteq> x)"
      if "contact_at st d" "priority_valid st' d" for d
      using that in_tree [OF ok, of x d] g place(3) by (auto simp: st')
    show "table_ok env st'"
    proof (rule table_ok_cong [OF blist_okD(4) [OF ok] st'(10,11)])
      fix k b
      assume "buddies st k = Some b"
      then have b: "buddy_at st b" "node_parent st b \<noteq> 0" using entries_okD [OF blist_okD(4) [OF ok]] by auto
      then have "b \<noteq> x" "node_parent st b \<noteq> x" using x(1) buddy_place(2) [OF ok b] by auto
      then show "buddy_at st' b \<and> node_parent st' b = node_parent st b \<and>
          node_parent st' (node_parent st b) = node_parent st (node_parent st b) \<and>
          node_account st' b = node_account st b \<and> node_name st' b = node_name st b"
        using b by (simp add: st')
    qed
    show "totalsize st' d = int (length ((K(g := remove1 x (K g))) d))" if "contact_at st d" for d
      using that C(3) [of d] place(3) by (cases "d = g") (simp_all add: st')
    show "int (length ((K(g := remove1 x (K g))) d)) \<le> totalsize st' d" if "group_at st d" for d
      using that C(4) [of d] len_remove1 [OF place(1)] by (cases "d = g") (simp_all add: st')
  qed (use leave [OF C(1)] leave [OF C(2)] x in \<open>simp_all add: st' member_current_def member_online_def\<close>)
qed

lemma remove_chat_ok:
  assumes ok: "blist_ok env st K" and x: "chat_at st x" "node_parent st x \<noteq> 0"
  shows "blist_ok env (purple_blist_remove_chat env x st) (K(node_parent st x := remove1 x (K (node_parent st x))))"
proof -
  define g where "g = node_parent st x"
  note place = chat_place [OF ok x, folded g_def]
  have g0: "g \<noteq> 0" using x by (simp add: g_def)
  have x0: "x \<noteq> 0" using in_tree [OF ok place(1)] by simp
  note self = forest_no_self [OF blist_okD(1) [OF ok] place(1)]
  have eq: "purple_blist_remove_chat env x st = free_node x (emit (Signal ''blist-node-removed'' x)
      (ui env Op_remove_node x (ui env Op_remove x (count_chat g x (- 1) (unlink_child g x st)))))"
    using x0 g0 by (simp add: purple_blist_remove_chat_def g_def Let_def)
  note eqs = eq unlink_child_eq [OF self(2,1)] blist_eqs
  show ?thesis
    unfolding g_def [symmetric]
  proof (rule chat_leave_ok [OF ok x g_def, where u = None and q = "node_parent st x"])
    show "links (purple_blist_remove_chat env x st) (K(g := remove1 x (K g)))"
      by (rule links_cong [OF links_unlink [OF blist_okD(1) [OF ok] place(1) g0]]) (simp_all add: eqs)
  qed (simp_all add: eqs)
qed

text \<open>The tables forget the key of a buddy that leaves.\<close>

lemma cache_ok_update:
  assumes "cache_ok tab cache" and "fst (snd k) = a"
  shows "cache_ok (tab(k := v)) (cache(a := map_option (\<lambda>t. t(k := v)) (cache a)))"
  unfolding cache_ok_def
proof (intro allI impI)
  fix a' t'
  assume t': "(cache(a := map_option (\<lambda>t. t(k := v)) (cache a))) a' = Some t'"
  show "t' = (\<lambda>l. if fst (snd l) = a' then (tab(k := v)) l else None)"
  proof (cases "a' = a")
    case True
    then obtain z where "cache a = Some z" "t' = z(k := v)" using t' by auto
    moreover from this(1) have "z = (\<lambda>l. if fst (snd l) = a then tab l else None)"
      using assms(1) unfolding cache_ok_def by blast
    ultimately show ?thesis using True assms(2) by (intro ext) simp
  next
    case False
    then have "t' = (\<lambda>l. if fst (snd l) = a' then tab l else None)"
      using t' assms(1) unfolding cache_ok_def by simp
    then show ?thesis using False assms(2) by (intro ext) auto
  qed
qed

lemma snd_hkey [simp]: "fst (snd (hkey env st b g)) = node_account st b"
  by (simp add: hkey_def)

lemma table_ok_remove:
  assumes t: "table_ok env st" and b: "node_parent st b \<noteq> 0"
    and k: "k = hkey env st b (node_parent st (node_parent st b))" "a = node_account st b"
    and st': "buddies st' = (buddies st)(k := None)"
      "buddies_cache st' = (buddies_cache st)(a := map_option (\<lambda>t. t(k := None)) (buddies_cache st a))"
      "ntype st' = (ntype st)(b := u)" "node_parent st' = (node_parent st)(b := q)"
      "node_account st' = node_account st" "node_name st' = node_name st"
    and up: "\<And>d. buddy_at st d \<Longrightarrow> node_parent st d \<noteq> 0 \<Longrightarrow> node_parent st d \<noteq> b"
  shows "table_ok env st'"
  unfolding table_ok_def
proof
  show "entries_ok env st'"
    unfolding entries_ok_def
  proof (intro allI impI)
    fix l d
    assume "buddies st' l = Some d"
    then have l: "buddies st l = Some d" "l \<noteq> k" by (auto simp: st' split: if_splits)
    then have "d \<noteq> b" using entries_okD [OF t l(1)] k(1) by auto
    then show "buddy_at st' d \<and> node_parent st' d \<noteq> 0 \<and> l = hkey env st' d (node_parent st' (node_parent st' d))"
      using entries_okD [OF t l(1)] up [of d] by (simp add: st' hkey_def)
  qed
  show "cache_ok (buddies st') (buddies_cache st')"
    unfolding st' using t k by (intro cache_ok_update) (simp_all add: table_ok_def)
qed

definition drop_valid :: "bool \<Rightarrow> ptr \<Rightarrow> (ptr \<Rightarrow> bool) \<Rightarrow> ptr \<Rightarrow> bool" where
  "drop_valid P c v = (if P then v(c := False) else v)"

lemma drop_priority_eq:
  "c \<noteq> 0 \<Longrightarrow> drop_priority env c b st = st\<lparr>
     priority_valid := drop_valid (node_child st c \<noteq> 0 \<and> priority st c = b) c (priority_valid st),
     blist_events := blist_events st @ (if node_child st c \<noteq> 0 \<and> priority st c = b \<and> ui_ops env Op_update then [Ui Op_update c] else [])\<rparr>"
  by (simp add: drop_priority_def drop_valid_def ui_eq purple_contact_invalidate_priority_buddy_def)

text \<open>The state before the test whether the contact lost its last buddy.\<close>

definition buddy_gone :: "blist_env \<Rightarrow> ptr \<Rightarrow> blist \<Rightarrow> blist" where
  "buddy_gone env b st =
     (let c = node_parent st b;
          g = node_parent st c;
          st = drop_priority env c b (buddy_leaves b (unlink_child c b st));
          st = buddies_remove (hkey env st b g) (node_account st b) st;
          st = ui env Op_remove_node b (ui env Op_remove b st);
          st = emit (Pounce_destroy_all_by_buddy b) st;
          st = emit (Signal ''blist-node-removed'' b) (emit (Signal ''buddy-removed'' b) st)
      in free_node b st)"

lemma remove_buddy_eq:
  assumes "b \<noteq> 0" and "node_parent st b \<noteq> 0"
  shows "purple_blist_remove_buddy env b st =
    (if node_child (buddy_gone env b st) (node_parent st b) = 0
     then remove_empty_contact env (node_parent st b) (buddy_gone env b st) else buddy_gone env b st)"
  using assms by (simp add: purple_blist_remove_buddy_def buddy_gone_def Let_def)

lemma buddy_leave_ok:
  assumes ok: "blist_ok env st K" and b: "buddy_at st b" "node_parent st b \<noteq> 0"
    and c: "c = node_parent st b" "g = node_parent st c" and k: "k = hkey env st b g" "a = node_account st b"
    and links': "links st' (K(c := remove1 b (K c)))"
    and st': "ntype st' = (ntype st)(b := u)" "node_parent st' = (node_parent st)(b := q)" "u = None \<or> u = ntype st b \<and> q = 0"
      "node_name st' = node_name st" "node_account st' = node_account st" "connected st' = connected st"
      "presence_online st' = presence_online st" "groups_cache st' = groups_cache st" "priority st' = priority st"
      "buddies st' = (buddies st)(k := None)"
      "buddies_cache st' = (buddies_cache st)(a := map_option (\<lambda>t. t(k := None)) (buddies_cache st a))"
      "currentsize st' = leaves_if (connected st (node_account st b)) c g (currentsize st)"
      "online st' = leaves_if (PURPLE_BUDDY_IS_ONLINE st b) c g (online st)"
      "totalsize st' = (totalsize st)(c := totalsize st c - 1)"
    and prio: "\<And>d. priority_valid st' d \<Longrightarrow> priority_valid st d"
      "priority_valid st' c \<Longrightarrow> node_child st' c \<noteq> 0 \<Longrightarrow> priority st c \<noteq> b"
  shows "blist_ok env st' (K(c := remove1 b (K c)))"
proof -
  note place = buddy_place [OF ok b, folded c(1), folded c(2)]
  note cplace = contact_place [OF ok place(2), folded c(2), OF place(3)]
  have c0: "c \<noteq> 0" using b(2) c by simp
  have b0: "b \<noteq> 0" using in_tree [OF ok place(1)] by blast
  note l = blist_okD(1) [OF ok]
  have Kb: "K b = []" by (rule childless [OF ok b0]) (use b in auto)
  note C = counts_okD [OF blist_okD(3) [OF ok]]
  have dis: "\<And>q. c \<in> set (K q) \<Longrightarrow> q = g" "\<And>x. contact_at st x \<Longrightarrow> \<not> group_at st x"
    using forest_disjoint [OF l cplace(1)] by auto
  have lev: "levels (contact_at st) (group_at st) (K(c := remove1 b (K c))) P (leaves_if (P b) c g f)"
    if "levels (contact_at st) (group_at st) K P f" for P f
    unfolding leaves_if_def by (rule levels_buddy_leaves [OF that place(2) cplace(3,1) forestD(2) [OF l] dis place(1)])
  show ?thesis
  proof (rule blist_ok_leave [OF ok place(1) c0 Kb links' st'(1-9)])
    show "table_ok env st'"
      by (rule table_ok_remove [OF blist_okD(4) [OF ok] b(2) _ k(2) st'(10,11,1,2,5,4)])
        (use k c buddy_place(2) [OF ok] b(1) in auto)
    show "priority_valid st d \<and> (b \<in> set (K d) \<longrightarrow> (K(c := remove1 b (K c))) d \<noteq> [] \<longrightarrow> priority st d \<noteq> b)"
      if d: "contact_at st d" "priority_valid st' d" for d
    proof -
      have "priority st d \<noteq> b" if "b \<in> set (K d)" "(K(c := remove1 b (K c))) d \<noteq> []"
      proof -
        have dc: "d = c" using forest_disjoint [OF l place(1) that(1)] by simp
        then have "node_child st' c \<noteq> 0" using child_iff [OF links' c0] that(2) by simp
        then show ?thesis using d(2) prio(2) dc by simp
      qed
      then show ?thesis using d(2) prio(1) by blast
    qed
    show "totalsize st' d = int (length ((K(c := remove1 b (K c))) d))" if "contact_at st d" for d
      using that C(3) [of d] len_remove1 [OF place(1)] by (cases "d = c") (simp_all add: st')
    show "int (length ((K(c := remove1 b (K c))) d)) \<le> totalsize st' d" if "group_at st d" for d
      using that C(4) [of d] place(2) by (cases "d = c") (simp_all add: st')
  qed (use lev [OF C(1)] lev [OF C(2)] b(1) in \<open>simp_all add: st' member_current_def member_online_def\<close>)
qed

lemma buddy_gone_ok:
  assumes ok: "blist_ok env st K" and b: "buddy_at st b" "node_parent st b \<noteq> 0"
  shows "blist_ok env (buddy_gone env b st) (K(node_parent st b := remove1 b (K (node_parent st b))))"
proof -
  define c where "c = node_parent st b"
  define g where "g = node_parent st c"
  note place = buddy_place [OF ok b, folded c_def g_def]
  have c0: "c \<noteq> 0" using b(2) by (simp add: c_def)
  note l = blist_okD(1) [OF ok]
  note self = forest_no_self [OF l place(1)]
  note eqs = buddy_gone_def c_def [symmetric] g_def [symmetric] drop_priority_eq [OF c0] Let_def
    unlink_child_eq [OF self(2,1)] blist_eqs
  have pa: "(node_parent st)(b := c) = node_parent st" by (simp add: c_def)
  show ?thesis
    unfolding c_def [symmetric]
  proof (rule buddy_leave_ok [OF ok b c_def g_def refl refl, where u = None and q = c])
    show "links (buddy_gone env b st) (K(c := remove1 b (K c)))"
      by (rule links_cong [OF links_unlink [OF l place(1) c0]]) (simp_all add: eqs)
    show "priority_valid (buddy_gone env b st) d \<Longrightarrow> priority_valid st d" for d
      by (simp add: eqs drop_valid_def split: if_splits)
    show "priority_valid (buddy_gone env b st) c \<Longrightarrow> node_child (buddy_gone env b st) c \<noteq> 0 \<Longrightarrow> priority st c \<noteq> b"
      by (auto simp: eqs drop_valid_def)
  qed (simp_all add: eqs pa hkey_def PURPLE_BUDDY_IS_ONLINE_def)
qed

text \<open>The children after a removal: an emptied contact goes as well.\<close>

definition without_buddy :: "blist \<Rightarrow> ptr \<Rightarrow> (ptr \<Rightarrow> ptr list) \<Rightarrow> ptr \<Rightarrow> ptr list" where
  "without_buddy st b K =
     (let c = node_parent st b; g = node_parent st c; K = K(c := remove1 b (K c))
      in if K c = [] then K(g := remove1 c (K g)) else K)"

lemma remove_buddy_ok:
  assumes ok: "blist_ok env st K" and b: "buddy_at st b" "node_parent st b \<noteq> 0"
  shows "blist_ok env (purple_blist_remove_buddy env b st) (without_buddy st b K)"
proof -
  define c where "c = node_parent st b"
  define K' where "K' = K(c := remove1 b (K c))"
  define st' where "st' = buddy_gone env b st"
  note place = buddy_place [OF ok b, folded c_def]
  have c0: "c \<noteq> 0" "b \<noteq> c" using b(2) place(2) b(1) by (auto simp: c_def)
  have b0: "b \<noteq> 0" using in_tree [OF ok place(1)] by blast
  have ok': "blist_ok env st' K'"
    using buddy_gone_ok [OF ok b] by (simp add: st'_def K'_def c_def)
  have sel: "node_parent st' = node_parent st" "ntype st' = (ntype st)(b := None)"
  proof -
    note self = forest_no_self [OF blist_okD(1) [OF ok] place(1)]
    show "node_parent st' = node_parent st" "ntype st' = (ntype st)(b := None)"
      by (simp_all add: st'_def buddy_gone_def c_def [symmetric] drop_priority_eq [OF c0(1)] Let_def
          unlink_child_eq [OF self(2,1)] blist_eqs)
  qed
  note iff = child_iff [OF blist_okD(1) [OF ok'] c0(1)]
  have eq: "purple_blist_remove_buddy env b st = (if K' c = [] then remove_empty_contact env c st' else st')"
    using remove_buddy_eq [OF b0 b(2)] iff by (simp add: st'_def c_def)
  have goal: "without_buddy st b K = (if K' c = [] then K'(node_parent st c := remove1 c (K' (node_parent st c))) else K')"
    by (simp add: without_buddy_def K'_def c_def Let_def)
  show ?thesis
  proof (cases "K' c = []")
    case True
    have "blist_ok env (remove_empty_contact env c st') (K'(node_parent st' c := remove1 c (K' (node_parent st' c))))"
      by (rule remove_empty_contact_ok [OF ok' _ _ True]) (use place c0 in \<open>simp_all add: sel\<close>)
    then show ?thesis using True by (simp add: eq goal sel)
  next
    case False
    then show ?thesis using ok' by (simp add: eq goal)
  qed
qed

end
