(* ===== verification/Purple_Blist_Add.thy ===== *)
theory Purple_Blist_Add
  imports Purple_Blist_Wf
begin

section \<open>The buddy list: putting nodes in and moving them\<close>

subsection \<open>One node comes in\<close>

definition link_at :: "ptr \<Rightarrow> ptr \<Rightarrow> ptr \<Rightarrow> blist \<Rightarrow> blist" where
  "link_at p a x st = (if a = 0 then link_first p x st else link_after a x st)"

lemma links_place:
  assumes l: "links st K" and x: "x \<noteq> 0" "\<And>q. x \<notin> set (K q)" and p: "p \<noteq> 0" and a: "a = 0 \<or> a \<in> set (K p)"
  shows "links (link_at p a x st) (K(p := place a x (K p))) \<and>
    (\<exists>pv nx ch. link_at p a x st = st\<lparr>node_prev := pv, node_next := nx, node_child := ch,
       node_parent := (node_parent st)(x := p)\<rparr> \<and> (\<forall>q. q \<noteq> p \<longrightarrow> ch q = node_child st q))"
proof (cases "a = 0")
  case True
  have "first (link_first p x st) = (first st)(p := x)"
    using p by (auto simp: link_first_eq first_def fun_eq_iff)
  then have "links (link_at p a x st) (K(p := place a x (K p)))"
    using True forest_insert [OF l x a refl] p by (simp add: link_first_eq link_at_def)
  moreover have "link_at p a x st = st\<lparr>node_prev := put_prev 0 x (node_child st p) (node_prev st),
     node_next := (node_next st)(x := node_child st p), node_child := (node_child st)(p := x),
     node_parent := (node_parent st)(x := p)\<rparr>"
    using True by (simp add: link_at_def link_first_eq)
  ultimately show ?thesis
    by (intro conjI exI [of _ "put_prev 0 x (node_child st p) (node_prev st)"]
        exI [of _ "(node_next st)(x := node_child st p)"] exI [of _ "(node_child st)(p := x)"]) auto
next
  case False
  then have a': "a \<in> set (K p)" using a by simp
  have "a \<noteq> x" "node_next st a \<noteq> x"
  proof -
    show "a \<noteq> x" using a' x(2) by auto
    have "node_next st a \<in> insert 0 (set (K p))"
      using dll_neighbours(2) [OF forestD(1) [OF l] a'] False by simp
    then show "node_next st a \<noteq> x" using x by auto
  qed
  note eq = link_after_eq [OF this]
  have "first (link_after a x st) = first st" by (simp add: eq first_def fun_eq_iff)
  moreover have pa: "node_parent st a = p" using forestD(4) [OF l a'] .
  ultimately have "links (link_at p a x st) (K(p := place a x (K p)))"
    using False forest_insert [OF l x a refl] by (simp add: eq link_at_def)
  moreover have "link_at p a x st = st\<lparr>node_prev := put_prev a x (node_next st a) (node_prev st),
     node_next := (node_next st)(x := node_next st a, a := x), node_child := node_child st,
     node_parent := (node_parent st)(x := p)\<rparr>"
    using False pa by (simp add: link_at_def eq)
  ultimately show ?thesis
    by (intro conjI exI [of _ "put_prev a x (node_next st a) (node_prev st)"]
        exI [of _ "(node_next st)(x := node_next st a, a := x)"] exI [of _ "node_child st"]) auto
qed

text \<open>What the invariant needs when the node \<open>x\<close>, which had no parent and has no children, becomes a child of \<open>p\<close>.\<close>

lemma blist_ok_join:
  assumes ok: "blist_ok env st K" and x: "ntype st x \<noteq> None" "node_parent st x = 0" "K x = []"
    and p: "p \<noteq> 0" "p \<in> set (K 0) \<and> (contact_at st x \<or> chat_at st x) \<or>
      contact_at st p \<and> node_parent st p \<noteq> 0 \<and> buddy_at st x"
    and a: "a = 0 \<or> a \<in> set (K p)"
    and links': "links st' (K(p := place a x (K p)))"
    and st': "ntype st' = ntype st" "node_parent st' = (node_parent st)(x := p)"
      "node_name st' = node_name st"
      "node_account st' = node_account st" "connected st' = connected st" "presence_online st' = presence_online st"
      "groups_cache st' = groups_cache st" "priority st' = priority st"
    and prio: "\<And>c. contact_at st c \<Longrightarrow> priority_valid st' c \<Longrightarrow> priority_valid st c \<and> c \<noteq> p"
    and counts: "levels (contact_at st) (group_at st) (K(p := place a x (K p))) (member_current st) (currentsize st')"
      "levels (contact_at st) (group_at st) (K(p := place a x (K p))) (member_online st) (online st')"
      "\<And>c. contact_at st c \<Longrightarrow> totalsize st' c = int (length ((K(p := place a x (K p))) c))"
      "\<And>g. group_at st g \<Longrightarrow> int (length ((K(p := place a x (K p))) g)) \<le> totalsize st' g"
    and tab: "table_ok env st'"
  shows "blist_ok env st' (K(p := place a x (K p)))" (is "blist_ok env st' ?K")
proof -
  note D = tree_okD [OF blist_okD(2) [OF ok]]
  have sub: "set (?K r) = (if r = p then insert x (set (K p)) else set (K r))" for r
    using place_set [OF a] by simp
  have "tree_ok st' ?K"
    unfolding tree_ok_def
  proof (intro conjI allI impI ballI)
    show "ntype st' 0 = None" using D(1) st' by simp
    show "group_at st' g" if "g \<in> set (?K 0)" for g using that D(2) p(1) st' by simp
    show "node_parent st' g = 0" if "group_at st' g" for g
      using that D(3) p(2) st' by auto
    show "r \<in> set (?K 0) \<and> (contact_at st' y \<or> chat_at st' y) \<or>
        contact_at st' r \<and> node_parent st' r \<noteq> 0 \<and> buddy_at st' y" if "y \<in> set (?K r)" "r \<noteq> 0" for r y
    proof (cases "y = x \<and> r = p")
      case True
      then show ?thesis using p st' by auto
    next
      case False
      then have "y \<in> set (K r)" using that(1) sub [of r] by (auto split: if_splits)
      from D(4) [OF this that(2)] show ?thesis
        using p(1) x(2) st' by auto
    qed
    show "y \<in> set (?K (node_parent st' y))" if "ntype st' y \<noteq> None" "node_parent st' y \<noteq> 0" for y
      using that D(5) [of y] x(2) st' place_set [OF a, of x] by (cases "y = x") auto
  qed
  moreover have "groups_ok env st' ?K"
    by (rule groups_ok_cong [OF blist_okD(5) [OF ok] st'(7)]) (use p(1) st' in auto)
  moreover have "priority_ok st' ?K"
    unfolding priority_ok_def
  proof (intro allI impI)
    fix c
    assume c: "contact_at st' c" "priority_valid st' c" "?K c \<noteq> []"
    then have "contact_at st c" using st' by simp
    with prio [OF this c(2)] c(3) blist_okD(6) [OF ok] show "priority st' c \<in> set (?K c)"
      unfolding priority_ok_def st'(8) by auto
  qed
  moreover have "counts_ok st' ?K"
  proof -
    have "member_current st' = member_current st" "member_online st' = member_online st"
      by (simp_all add: fun_eq_iff member_current_def member_online_def PURPLE_BUDDY_IS_ONLINE_def st')
    then show ?thesis using counts st'(1) unfolding counts_ok_def by simp
  qed
  ultimately show ?thesis using links' tab by (simp add: blist_ok_def)
qed

lemma parentless:
  assumes ok: "blist_ok env st K" and x: "ntype st x \<noteq> None" "\<not> group_at st x" "node_parent st x = 0"
  shows "x \<notin> set (K q)" "x \<noteq> 0"
proof -
  have "ntype st 0 = None" using tree_okD(1) [OF blist_okD(2) [OF ok]] .
  then show "x \<noteq> 0" using x(1) by (cases "x = 0") simp_all
  show "x \<notin> set (K q)"
  proof
    assume q: "x \<in> set (K q)"
    then have "q = 0" using in_tree [OF ok q] x(3) by simp
    then show False using q x(2) blist_okD(2) [OF ok] by (auto simp: tree_ok_def)
  qed
qed

lemma len_place: "a = 0 \<or> a \<in> set xs \<Longrightarrow> length (place a x xs) = Suc (length xs)"
  using place_mset [of a xs "\<lambda>_. True" x] by simp

text \<open>Events do not matter.\<close>

lemma blist_ok_cong_priority:
  assumes "blist_ok env st K" and p: "priority_ok st' K"
    and eqs: "root st' = root st" "node_child st' = node_child st" "node_next st' = node_next st"
    "node_prev st' = node_prev st" "node_parent st' = node_parent st" "ntype st' = ntype st"
    "node_name st' = node_name st" "node_account st' = node_account st" "connected st' = connected st"
    "presence_online st' = presence_online st" "groups_cache st' = groups_cache st"
    "currentsize st' = currentsize st" "online st' = online st"
    "totalsize st' = totalsize st" "buddies st' = buddies st" "buddies_cache st' = buddies_cache st"
  shows "blist_ok env st' K"
proof -
  have fs: "first st' = first st" by (simp add: first_def eqs fun_eq_iff)
  have ms: "member_current st' = member_current st" "member_online st' = member_online st"
    by (simp_all add: fun_eq_iff member_current_def member_online_def PURPLE_BUDDY_IS_ONLINE_def eqs)
  have "links st' K \<and> tree_ok st' K \<and> counts_ok st' K \<and> table_ok env st' \<and> groups_ok env st' K"
    using assms(1) unfolding blist_ok_def tree_ok_def counts_ok_def table_ok_def entries_ok_def groups_ok_def
      hkey_def eqs fs ms by (elim conjE) (intro conjI; assumption)
  then show ?thesis using p by (simp add: blist_ok_def)
qed

lemma blist_ok_cong:
  assumes "blist_ok env st K" and "root st' = root st" "node_child st' = node_child st" "node_next st' = node_next st"
    "node_prev st' = node_prev st" "node_parent st' = node_parent st" "ntype st' = ntype st"
    "node_name st' = node_name st" "node_account st' = node_account st" "connected st' = connected st"
    "presence_online st' = presence_online st" "groups_cache st' = groups_cache st" "priority st' = priority st"
    "priority_valid st' = priority_valid st" "currentsize st' = currentsize st" "online st' = online st"
    "totalsize st' = totalsize st" "buddies st' = buddies st" "buddies_cache st' = buddies_cache st"
  shows "blist_ok env st' K"
  by (rule blist_ok_cong_priority [OF assms(1)])
    (use blist_okD(6) [OF assms(1)] in \<open>simp_all only: priority_ok_def assms(2-)\<close>)

lemma blist_ok_emit: "blist_ok env st K \<Longrightarrow> blist_ok env (emit e st) K"
  by (erule blist_ok_cong) (simp_all add: emit_def)

lemma blist_ok_ui: "blist_ok env st K \<Longrightarrow> blist_ok env (ui env p x st) K"
  by (erule blist_ok_cong) (simp_all add: ui_eq)

lemma blist_ok_invalidate:
  assumes ok: "blist_ok env st K"
  shows "blist_ok env (purple_contact_invalidate_priority_buddy c st) K"
  by (rule blist_ok_cong_priority [OF ok])
    (use blist_okD(6) [OF ok] in \<open>auto simp: priority_ok_def purple_contact_invalidate_priority_buddy_def\<close>)

lemmas blist_ok_events = blist_ok_emit blist_ok_ui blist_ok_invalidate

subsection \<open>Chats, contacts and buddies come in\<close>

text \<open>A chat, or a contact without buddies, becomes a child of the group \<open>p\<close>.\<close>

definition counted_in :: "ptr \<Rightarrow> ptr \<Rightarrow> blist \<Rightarrow> blist" where
  "counted_in p x st = st\<lparr>totalsize := (totalsize st)(p := totalsize st p + 1),
     currentsize := (currentsize st)(p := currentsize st p + of_bool (counts_up (contact_at st) (member_current st) (currentsize st) x)),
     online := (online st)(p := online st p + of_bool (counts_up (contact_at st) (member_online st) (online st) x))\<rparr>"

lemma group_join_ok:
  assumes ok: "blist_ok env st K" and x: "chat_at st x \<or> contact_at st x" "node_parent st x = 0" "K x = []"
    and p: "p \<in> set (K 0)" and a: "a = 0 \<or> a \<in> set (K p)"
  shows "blist_ok env (counted_in p x (link_at p a x st)) (K(p := place a x (K p)))" (is "blist_ok env ?st ?K")
proof -
  have gp: "group_at st p" using tree_okD(2) [OF blist_okD(2) [OF ok] p] .
  have p0: "p \<noteq> 0" using in_tree [OF ok p] by simp
  have x': "ntype st x \<noteq> None" "\<not> group_at st x" "\<not> buddy_at st x" using x(1) by auto
  note out = parentless [OF ok x'(1,2) x(2)]
  note L = links_place [OF blist_okD(1) [OF ok] out(2) out(1) p0 a]
  obtain pv nx ch where eq: "link_at p a x st = st\<lparr>node_prev := pv, node_next := nx, node_child := ch,
      node_parent := (node_parent st)(x := p)\<rparr>" using L by blast
  have mem: "member_current (link_at p a x st) = member_current st" "member_online (link_at p a x st) = member_online st"
    by (simp_all add: fun_eq_iff eq member_current_def member_online_def PURPLE_BUDDY_IS_ONLINE_def)
  note eqs = eq counted_in_def mem [unfolded eq]
  note C = counts_okD [OF blist_okD(3) [OF ok]]
  have lev: "levels (contact_at st) (group_at st) ?K P (f(p := f p + of_bool (counts_up (contact_at st) P f x)))"
    if "levels (contact_at st) (group_at st) K P f" for P f
    using levels_group_join [OF that gp _ a] by simp
  show ?thesis
  proof (rule blist_ok_join [OF ok x'(1) x(2,3) p0 _ a])
    show "links ?st ?K"
      by (rule links_cong [OF conjunct1 [OF L]]) (simp_all add: counted_in_def)
    show "table_ok env ?st"
    proof (rule table_ok_cong [OF blist_okD(4) [OF ok]])
      fix k b
      assume "buddies st k = Some b"
      then have b: "buddy_at st b" "node_parent st b \<noteq> 0" using entries_okD [OF blist_okD(4) [OF ok]] by auto
      have "node_parent st (node_parent st b) \<noteq> 0" using buddy_place(3) [OF ok b] .
      then have "b \<noteq> x" "node_parent st b \<noteq> x" using x'(3) x(2) b by auto
      then show "buddy_at ?st b \<and> node_parent ?st b = node_parent st b \<and>
          node_parent ?st (node_parent st b) = node_parent st (node_parent st b) \<and>
          node_account ?st b = node_account st b \<and> node_name ?st b = node_name st b"
        using b by (simp add: eqs)
    qed (simp_all add: eqs)
    show "totalsize ?st d = int (length (?K d))" if "contact_at st d" for d
      using that C(3) [of d] gp by (cases "d = p") (simp_all add: eqs)
    show "int (length (?K d)) \<le> totalsize ?st d" if "group_at st d" for d
      using that C(4) [of d] len_place [OF a] by (cases "d = p") (simp_all add: eqs)
    show "priority_valid st d \<and> d \<noteq> p" if "contact_at st d" "priority_valid ?st d" for d
      using that gp by (auto simp: eqs)
  qed (use lev [OF C(1)] lev [OF C(2)] x p in \<open>auto simp: eqs\<close>)
qed

lemma chat_join_ok:
  assumes ok: "blist_ok env st K" and x: "chat_at st x" "node_parent st x = 0"
    and p: "p \<in> set (K 0)" and a: "a = 0 \<or> a \<in> set (K p)"
  shows "blist_ok env (count_chat p x 1 (link_at p a x st)) (K(p := place a x (K p)))"
proof -
  have x': "ntype st x \<noteq> None" "\<not> group_at st x" using x by simp_all
  note out = parentless [OF ok x' x(2)]
  have Kx: "K x = []" by (rule childless [OF ok out(2)]) (use x in auto)
  have p0: "p \<noteq> 0" using in_tree [OF ok p] by simp
  obtain pv nx ch where eq: "link_at p a x st = st\<lparr>node_prev := pv, node_next := nx, node_child := ch,
      node_parent := (node_parent st)(x := p)\<rparr>"
    using links_place [OF blist_okD(1) [OF ok] out(2) out(1) p0 a] by blast
  have "count_chat p x 1 (link_at p a x st) = counted_in p x (link_at p a x st)"
    using x(1) by (simp add: eq count_chat_eq counted_in_def counts_up_def member_current_def member_online_def)
  then show ?thesis using group_join_ok [OF ok _ x(2) Kx p a] x(1) by simp
qed

lemma contact_join_ok:
  assumes ok: "blist_ok env st K" and c: "contact_at st c" "node_parent st c = 0" "K c = []"
    and p: "p \<in> set (K 0)" and a: "a = 0 \<or> a \<in> set (K p)"
  shows "blist_ok env (count_contact p c 1 (link_at p a c st)) (K(p := place a c (K p)))"
proof -
  have gp: "group_at st p" using tree_okD(2) [OF blist_okD(2) [OF ok] p] .
  have x': "ntype st c \<noteq> None" "\<not> group_at st c" "p \<noteq> c" using c gp by auto
  note out = parentless [OF ok x'(1,2) c(2)]
  have p0: "p \<noteq> 0" using in_tree [OF ok p] by simp
  obtain pv nx ch where eq: "link_at p a c st = st\<lparr>node_prev := pv, node_next := nx, node_child := ch,
      node_parent := (node_parent st)(c := p)\<rparr>"
    using links_place [OF blist_okD(1) [OF ok] out(2) out(1) p0 a] by blast
  have "count_contact p c 1 (link_at p a c st) = counted_in p c (link_at p a c st)"
    using c(1) by (simp add: count_contact_eq [OF x'(3)] eq counted_in_def counts_up_def)
  then show ?thesis using group_join_ok [OF ok _ c(2,3) p a] c(1) by simp
qed

text \<open>A buddy becomes a child of a contact and enters the tables.\<close>

lemma table_ok_replace:
  assumes t: "table_ok env st" and b: "buddy_at st b" "node_parent st b = 0" "c \<noteq> 0" "c \<noteq> b"
    and k: "k = hkey env st b (node_parent st c)" "a = node_account st b"
    and st': "buddies st' = (buddies st)(k \<mapsto> b)"
      "buddies_cache st' = (buddies_cache st)(a := map_option (\<lambda>t. t(k \<mapsto> b)) (buddies_cache st a))"
      "ntype st' = ntype st" "node_parent st' = (node_parent st)(b := c)"
      "node_account st' = node_account st" "node_name st' = node_name st"
    and up: "\<And>d. buddy_at st d \<Longrightarrow> node_parent st d \<noteq> 0 \<Longrightarrow> node_parent st d \<noteq> b"
  shows "table_ok env st'"
  unfolding table_ok_def
proof
  show "entries_ok env st'"
    unfolding entries_ok_def
  proof (intro allI impI)
    fix l d
    assume l: "buddies st' l = Some d"
    show "buddy_at st' d \<and> node_parent st' d \<noteq> 0 \<and> l = hkey env st' d (node_parent st' (node_parent st' d))"
    proof (cases "l = k")
      case True
      then show ?thesis using l b k by (simp add: st' hkey_def)
    next
      case False
      then have "buddies st l = Some d" using l st' by simp
      note e = entries_okD [OF t this]
      then have "d \<noteq> b" using b(2) by auto
      then show ?thesis using e up [of d] by (simp add: st' hkey_def)
    qed
  qed
  show "cache_ok (buddies st') (buddies_cache st')"
    unfolding st' using t k by (intro cache_ok_update) (simp_all add: table_ok_def)
qed

definition buddy_in :: "blist_env \<Rightarrow> ptr \<Rightarrow> ptr \<Rightarrow> ptr \<Rightarrow> blist \<Rightarrow> blist" where
  "buddy_in env b c a st =
     (let st = buddy_joins b (link_at c a b st);
          st = buddies_replace (hkey env st b (node_parent st (node_parent st b))) (node_account st b) b st
      in purple_contact_invalidate_priority_buddy (node_parent st b) st)"

lemma buddy_in_ok:
  assumes ok: "blist_ok env st K" and b: "buddy_at st b" "node_parent st b = 0"
    and c: "contact_at st c" "node_parent st c \<noteq> 0" and a: "a = 0 \<or> a \<in> set (K c)"
  shows "blist_ok env (buddy_in env b c a st) (K(c := place a b (K c)))" (is "blist_ok env ?st ?K")
proof -
  define g where "g = node_parent st c"
  note cplace = contact_place [OF ok c, folded g_def]
  have b': "ntype st b \<noteq> None" "\<not> group_at st b" "c \<noteq> b" using b c by auto
  note out = parentless [OF ok b'(1,2) b(2)]
  have c0: "c \<noteq> 0" using in_tree [OF ok cplace(1)] by simp
  have Kb: "K b = []" by (rule childless [OF ok out(2)]) (use b in auto)
  note l = blist_okD(1) [OF ok]
  note L = links_place [OF l out(2) out(1) c0 a]
  obtain pv nx ch where eq: "link_at c a b st = st\<lparr>node_prev := pv, node_next := nx, node_child := ch,
      node_parent := (node_parent st)(b := c)\<rparr>" using L by blast
  note eqs = buddy_in_def Let_def eq buddy_joins_eq buddies_replace_def purple_contact_invalidate_priority_buddy_def
  note C = counts_okD [OF blist_okD(3) [OF ok]]
  have dis: "\<And>q. c \<in> set (K q) \<Longrightarrow> q = g" "\<And>x. contact_at st x \<Longrightarrow> \<not> group_at st x"
    using forest_disjoint [OF l cplace(1)] by auto
  have lev: "levels (contact_at st) (group_at st) ?K P (joins_if (P b) c g f)"
    if "levels (contact_at st) (group_at st) K P f" for P f
    unfolding joins_if_def by (rule levels_buddy_joins [OF that c(1) cplace(3,1) forestD(2) [OF l] dis a])
  show ?thesis
  proof (rule blist_ok_join [OF ok b'(1) b(2) Kb c0 _ a])
    show "links ?st ?K"
      by (rule links_cong [OF conjunct1 [OF L]]) (simp_all add: eqs)
    show "table_ok env ?st"
      by (rule table_ok_replace [OF blist_okD(4) [OF ok] b c0 b'(3) refl refl])
        (use b'(3) c0 b(1) buddy_place(2) [OF ok] in \<open>auto simp: eqs hkey_def\<close>)
    show "totalsize ?st d = int (length (?K d))" if "contact_at st d" for d
      using that C(3) [of d] len_place [OF a] c0 by (cases "d = c") (simp_all add: eqs)
    show "int (length (?K d)) \<le> totalsize ?st d" if "group_at st d" for d
      using that C(4) [of d] c(1) c0 by (cases "d = c") (simp_all add: eqs)
    show "priority_valid st d \<and> d \<noteq> c" if "contact_at st d" "priority_valid ?st d" for d
      using that c0 by (auto simp: eqs split: if_splits)
  qed (use lev [OF C(1)] lev [OF C(2)] b c b' c0 in
      \<open>auto simp: eqs g_def member_current_def member_online_def PURPLE_BUDDY_IS_ONLINE_def\<close>)
qed

end
