(* ===== verification/Purple_Blist_New.thy ===== *)
theory Purple_Blist_New
  imports Purple_Blist_Add
begin

section \<open>The buddy list: new nodes and groups\<close>

subsection \<open>Loops over siblings\<close>

lemma for_siblings_fold:
  assumes "path nx n xs" and "node_next (snd s) = nx"
    and "\<And>x s. x \<in> set xs \<Longrightarrow> node_next (snd s) = nx \<Longrightarrow> body x s = Some (f x s) \<and> node_next (snd (f x s)) = nx"
  shows "for_siblings body n s = Some (fold f xs s) \<and> node_next (snd (fold f xs s)) = nx"
  using assms
proof (induction xs arbitrary: n s)
  case Nil
  then show ?case by (simp add: for_siblings.simps)
next
  case (Cons x xs)
  then have "body x s = Some (f x s)" "node_next (snd (f x s)) = nx" "n = x" "x \<noteq> 0" "path nx (nx x) xs" by auto
  moreover from this have "for_siblings body n s = for_siblings body (nx x) (f x s)"
    by (subst for_siblings.simps) simp
  moreover have "for_siblings body (nx x) (f x s) = Some (fold f xs (f x s)) \<and> node_next (snd (fold f xs (f x s))) = nx"
    by (rule Cons.IH) (use calculation Cons.prems(3) in auto)
  ultimately show ?case by simp
qed

lemma fold_ui_snd: "snd (fold (\<lambda>x s. (fst s, ui env p x (snd s))) xs s) = fold (ui env p) xs (snd s)"
  by (induction xs arbitrary: s) simp_all

lemma fold_ui_none: "\<not> ui_ops env p \<Longrightarrow> fold (ui env p) xs st = st"
  by (induction xs) (simp_all add: ui_def)

lemma ui_siblings_fold:
  assumes "path (node_next st) n xs"
  shows "ui_siblings env p n st = Some (fold (ui env p) xs st)"
proof (cases "ui_ops env p")
  case True
  let ?f = "\<lambda>x (s :: unit \<times> blist). (fst s, ui env p x (snd s))"
  have "for_siblings (\<lambda>x s. Some (?f x s)) n ((), st) = Some (fold ?f xs ((), st))"
    using for_siblings_fold [OF assms, of "((), st)" _ ?f] by (simp add: ui_eq)
  then have "ui_siblings env p n st = Some (snd (fold ?f xs ((), st)))"
    using True unfolding ui_siblings_def by (simp only: if_True option.map)
  then show ?thesis by (simp only: fold_ui_snd snd_conv)
qed (simp add: ui_siblings_def fold_ui_none)

lemma fold_ui_frame: "\<exists>ev. fold (ui env p) xs st = st\<lparr>blist_events := ev\<rparr>"
proof (induction xs arbitrary: st)
  case Nil
  show ?case by (intro exI [of _ "blist_events st"]) simp
next
  case (Cons x xs)
  from Cons [of "ui env p x st"] show ?case by (auto simp: ui_eq)
qed

lemma blist_ok_new_events: "blist_ok env st K \<Longrightarrow> blist_ok env (st\<lparr>blist_events := ev\<rparr>) K"
  by (erule blist_ok_cong) simp_all

lemma last_sibling_path:
  "path nx n xs \<Longrightarrow> xs \<noteq> [] \<Longrightarrow> last_sibling_loop nx n = Some (last xs)"
proof (induction xs arbitrary: n)
  case (Cons x xs)
  then show ?case by (cases xs) (auto simp: last_sibling_loop.simps)
qed simp

lemma last_sibling:
  assumes "links st K"
  shows "purple_blist_get_last_sibling st (first st p) = Some (if K p = [] then 0 else last (K p))"
proof (cases "K p")
  case Nil
  then show ?thesis
    using forest_path [OF assms, of p] by (simp add: purple_blist_get_last_sibling_def)
next
  case (Cons x xs)
  then show ?thesis
    using forest_path [OF assms, of p] last_sibling_path [of _ "first st p" "K p"]
    by (simp add: purple_blist_get_last_sibling_def)
qed

subsection \<open>A new node\<close>

lemma members_allocated:
  assumes "blist_ok env st K" and "x \<in> set (K p)"
  shows "ntype st x \<noteq> None"
proof -
  note D = tree_okD [OF blist_okD(2) [OF assms(1)]]
  then show ?thesis using assms(2) by (cases "p = 0") (force dest: D(2), force dest: D(4))
qed

text \<open>A fresh node belongs to no list; its name, account and presence do not matter.\<close>

lemma blist_ok_alloc:
  assumes ok: "blist_ok env st K" and p: "ntype st p = None" "p \<noteq> 0"
    and st': "ntype st' = (ntype st)(p \<mapsto> t)" "node_parent st' = (node_parent st)(p := 0)"
      "node_child st' = (node_child st)(p := 0)" "totalsize st' = (totalsize st)(p := 0)"
      "currentsize st' = (currentsize st)(p := 0)" "online st' = (online st)(p := 0)"
      "root st' = root st" "connected st' = connected st" "groups_cache st' = groups_cache st"
      "buddies st' = buddies st" "buddies_cache st' = buddies_cache st"
    and same: "\<And>x. x \<noteq> p \<Longrightarrow> node_next st' x = node_next st x \<and> node_prev st' x = node_prev st x \<and>
      node_name st' x = node_name st x \<and> node_account st' x = node_account st x \<and>
      presence_online st' x = presence_online st x \<and> priority st' x = priority st x \<and>
      priority_valid st' x = priority_valid st x"
  shows "blist_ok env st' K"
proof -
  note t = blist_okD(2) [OF ok, unfolded tree_ok_def]
  have out: "p \<notin> set (K q)" for q using members_allocated [OF ok] p(1) by blast
  have Kp: "K p = []" by (rule childless [OF ok p(2)]) (use p in auto)
  have fc: "first st' = first st"
    using child_iff [OF blist_okD(1) [OF ok] p(2)] Kp p(2) by (auto simp: first_def st' fun_eq_iff)
  have "links st' K"
    unfolding forest_def
  proof
    fix q
    note D = forestD [OF blist_okD(1) [OF ok]]
    have "dll ((node_next st')(0 := first st q)) (node_prev st') 0 (K q) =
        dll ((node_next st)(0 := first st q)) (node_prev st) 0 (K q)"
    proof (rule dll_cong)
      show "((node_next st')(0 := first st q)) y = ((node_next st)(0 := first st q)) y" if "y \<in> insert 0 (set (K q))" for y
        using that same [of y] out [of q] by (cases "y = 0") auto
      show "node_prev st' y = node_prev st y" if "y \<in> set (K q)" for y
        using that same [of y] out [of q] by auto
    qed
    then show "dll ((node_next st')(0 := first st' q)) (node_prev st') 0 (K q) \<and> distinct (K q) \<and> 0 \<notin> set (K q) \<and>
        (\<forall>y\<in>set (K q). node_parent st' y = q)"
      using D [of q] D(4) [of _ q] out [of q] by (auto simp: fc st')
  qed
  moreover have "tree_ok st' K"
    unfolding tree_ok_def
  proof (intro conjI allI impI ballI)
    show "ntype st' 0 = None" using t p by (simp add: st')
    show "group_at st' g" if "g \<in> set (K 0)" for g using that t out by (auto simp: st')
    show "node_parent st' g = 0" if "group_at st' g" for g using that t by (auto simp: st' split: if_splits)
    show "r \<in> set (K 0) \<and> (contact_at st' y \<or> chat_at st' y) \<or>
        contact_at st' r \<and> node_parent st' r \<noteq> 0 \<and> buddy_at st' y" if "y \<in> set (K r)" "r \<noteq> 0" for r y
    proof -
      have "r \<noteq> p" "y \<noteq> p" using that Kp out by auto
      then show ?thesis using t that by (simp add: st')
    qed
    show "y \<in> set (K (node_parent st' y))" if "ntype st' y \<noteq> None" "node_parent st' y \<noteq> 0" for y
      using that t by (cases "y = p") (auto simp: st')
  qed
  moreover have "counts_ok st' K"
  proof (rule counts_okI)
    note C = counts_okD [OF blist_okD(3) [OF ok]]
    have ms: "member_current st' x = member_current st x" "member_online st' x = member_online st x" if "x \<noteq> p" for x
      using that same [OF that] by (simp_all add: member_current_def member_online_def PURPLE_BUDDY_IS_ONLINE_def st')
    have lev: "levels (contact_at st') (group_at st') K P' (f(p := 0))"
      if L: "levels (contact_at st) (group_at st) K P f" "\<And>x. x \<noteq> p \<Longrightarrow> P' x = P x" for P P' f
      unfolding levels_def
    proof (intro conjI allI impI)
      fix c
      have eq: "cnt P' (K c) = cnt P (K c)"
        by (rule cnt_cong) (use that(2) out [of c] in metis)
      show "(f(p := 0)) c = cnt P' (K c)" if "contact_at st' c"
        using that levelsD(1) [OF L(1), of c] eq Kp by (cases "c = p") (auto simp: st')
      have "cnt (counts_up (contact_at st') P' (f(p := 0))) (K c) = cnt (counts_up (contact_at st) P f) (K c)"
        by (rule cnt_cong) (use that(2) out [of c] in \<open>auto simp: counts_up_def st'\<close>)
      then show "(f(p := 0)) c = cnt (counts_up (contact_at st') P' (f(p := 0))) (K c)" if "group_at st' c"
        using that levelsD(2) [OF L(1), of c] Kp by (cases "c = p") (auto simp: st')
    qed
    show "levels (contact_at st') (group_at st') K (member_current st') (currentsize st')"
      unfolding st'(5) by (rule lev [OF C(1) ms(1)])
    show "levels (contact_at st') (group_at st') K (member_online st') (online st')"
      unfolding st'(6) by (rule lev [OF C(2) ms(2)])
    show "totalsize st' c = int (length (K c))" if "contact_at st' c" for c
      using that C(3) [of c] Kp by (cases "c = p") (auto simp: st')
    show "int (length (K g)) \<le> totalsize st' g" if "group_at st' g" for g
      using that C(4) [of g] Kp by (cases "g = p") (auto simp: st')
  qed
  moreover have "table_ok env st'"
  proof (rule table_ok_cong [OF blist_okD(4) [OF ok] st'(10,11)])
    fix k b
    assume "buddies st k = Some b"
    then have b: "buddy_at st b" "node_parent st b \<noteq> 0" using entries_okD [OF blist_okD(4) [OF ok]] by auto
    then have "b \<noteq> p" "node_parent st b \<noteq> p" using p buddy_place(2) [OF ok b] by auto
    then show "buddy_at st' b \<and> node_parent st' b = node_parent st b \<and>
        node_parent st' (node_parent st b) = node_parent st (node_parent st b) \<and>
        node_account st' b = node_account st b \<and> node_name st' b = node_name st b"
      using b same [of b] by (simp add: st')
  qed
  moreover have "groups_ok env st' K"
    by (rule groups_ok_cong [OF blist_okD(5) [OF ok] st'(9)]) (use same out in metis)+
  moreover have "priority_ok st' K"
    using blist_okD(6) [OF ok] same Kp unfolding priority_ok_def by (auto simp: st' split: if_splits)
  ultimately show ?thesis by (simp add: blist_ok_def)
qed

lemma contact_new_ok:
  assumes "blist_ok env st K" and "ntype st p = None" "p \<noteq> 0"
  shows "blist_ok env (purple_contact_new env p st) K"
  unfolding purple_contact_new_def
  by (intro blist_ok_ui blist_ok_alloc [OF assms]) (simp_all add: new_node_def)

lemma group_new_ok:
  assumes ok: "blist_ok env st K" and p: "ntype st p = None" "p \<noteq> 0"
  shows "blist_ok env (snd (purple_group_new env p name st)) K"
  using ok by (auto simp: purple_group_new_def Let_def intro!: blist_ok_ui blist_ok_alloc [OF assms] simp: new_node_def)

lemma buddy_new_ok:
  assumes ok: "blist_ok env st K" and p: "ntype st p = None" "p \<noteq> 0"
  shows "blist_ok env (snd (purple_buddy_new env p a name al st)) K"
  using ok by (auto simp: purple_buddy_new_def Let_def intro!: blist_ok_ui blist_ok_alloc [OF assms] simp: new_node_def)

lemma chat_new_ok:
  assumes ok: "blist_ok env st K" and p: "ntype st p = None" "p \<noteq> 0"
  shows "blist_ok env (snd (purple_chat_new env p a al st)) K"
  using ok by (auto simp: purple_chat_new_def Let_def split: option.split
      intro!: blist_ok_ui blist_ok_alloc [OF assms] simp: new_node_def)

end
