(* ===== verification/Purple_Blist_Groups.thy ===== *)
theory Purple_Blist_Groups
  imports Purple_Blist_New
begin

section \<open>The buddy list: groups\<close>

subsection \<open>The top level\<close>

lemma links_group_place:
  assumes l: "links st K" and x: "x \<noteq> 0" "\<And>q. x \<notin> set (K q)" "node_parent st x = 0"
    and a: "a = 0 \<or> a \<in> set (K 0)"
  shows "links (if a = 0 then link_group_first x st else link_group_after a x st) (K(0 := place a x (K 0)))"
proof (cases "a = 0")
  case True
  have "first (link_group_first x st) = (first st)(0 := x)" and "first st 0 = root st"
    by (auto simp: link_group_first_eq first_def fun_eq_iff)
  then show ?thesis
    using True forest_insert [OF l x(1,2) a refl] x(3) by (simp add: link_group_first_eq fun_upd_idem)
next
  case False
  then have a': "a \<in> set (K 0)" using a by simp
  have "a \<noteq> x" "node_next st a \<noteq> x"
  proof -
    show "a \<noteq> x" using a' x(2) by auto
    have "node_next st a \<in> insert 0 (set (K 0))"
      using dll_neighbours(2) [OF forestD(1) [OF l] a'] False by simp
    then show "node_next st a \<noteq> x" using x by auto
  qed
  note eq = link_group_after_eq [OF this]
  have "first (link_group_after a x st) = first st" by (simp add: eq first_def fun_eq_iff)
  then show ?thesis
    using False forest_insert [OF l x(1,2) a refl] x(3) by (simp add: eq fun_upd_idem)
qed

lemma links_group_unlink:
  assumes l: "links st K" and x: "x \<in> set (K 0)"
  shows "links (unlink_group x st) (K(0 := remove1 x (K 0)))"
proof -
  have "first (unlink_group x st) = cut_first 0 x (node_next st) (first st)"
    by (auto simp: unlink_group_eq forest_no_self [OF l x] cut_first_def first_def fun_eq_iff)
  then show ?thesis
    using forest_unlink [OF l x] by (simp add: unlink_group_eq forest_no_self [OF l x])
qed

definition same_nodes :: "blist \<Rightarrow> blist \<Rightarrow> bool" where
  "same_nodes st st' \<longleftrightarrow>
     ntype st' = ntype st \<and> node_parent st' = node_parent st \<and> node_child st' = node_child st \<and>
     node_name st' = node_name st \<and> node_account st' = node_account st \<and> connected st' = connected st \<and>
     presence_online st' = presence_online st \<and> priority st' = priority st \<and> priority_valid st' = priority_valid st \<and>
     currentsize st' = currentsize st \<and> online st' = online st \<and> totalsize st' = totalsize st \<and>
     buddies st' = buddies st \<and> buddies_cache st' = buddies_cache st"

lemma same_nodesD:
  assumes "same_nodes st st'"
  shows "ntype st' = ntype st" "node_parent st' = node_parent st" "node_child st' = node_child st"
    "node_name st' = node_name st" "node_account st' = node_account st" "connected st' = connected st"
    "presence_online st' = presence_online st" "priority st' = priority st" "priority_valid st' = priority_valid st"
    "currentsize st' = currentsize st" "online st' = online st" "totalsize st' = totalsize st"
    "buddies st' = buddies st" "buddies_cache st' = buddies_cache st"
  using assms by (simp_all add: same_nodes_def)

lemma top_ok:
  assumes ok: "blist_ok env st K" and s: "same_nodes st st'" and links': "links st' (K(0 := L))"
    and L: "\<And>g. g \<in> set L \<Longrightarrow> group_at st g" "\<And>g. group_at st g \<Longrightarrow> K g \<noteq> [] \<Longrightarrow> g \<in> set L"
    and g: "groups_ok env st' (K(0 := L))"
  shows "blist_ok env st' (K(0 := L))" (is "blist_ok env st' ?K")
proof -
  note e = same_nodesD [OF s]
  note D = tree_okD [OF blist_okD(2) [OF ok]]
  have "tree_ok st' ?K"
    unfolding tree_ok_def e
  proof (intro conjI allI impI ballI)
    show "r \<in> set (?K 0) \<and> (contact_at st y \<or> chat_at st y) \<or>
        contact_at st r \<and> node_parent st r \<noteq> 0 \<and> buddy_at st y" if "y \<in> set (?K r)" "r \<noteq> 0" for r y
    proof -
      have y: "y \<in> set (K r)" using that by simp
      then have "K r \<noteq> []" by auto
      then show ?thesis using D(4) [OF y that(2)] L(2) [of r] D(2) [of r] by auto
    qed
    show "ntype st 0 = None" by (rule D(1))
    show "group_at st g" if "g \<in> set (?K 0)" for g using that L(1) by simp
    show "node_parent st g = 0" if "group_at st g" for g using D(3) [OF that] .
    show "y \<in> set (?K (node_parent st y))" if "ntype st y \<noteq> None" "node_parent st y \<noteq> 0" for y
      using D(5) [OF that] that(2) by simp
  qed
  moreover have "counts_ok st' ?K"
  proof -
    have ms: "member_current st' = member_current st" "member_online st' = member_online st"
      by (simp_all add: fun_eq_iff member_current_def member_online_def PURPLE_BUDDY_IS_ONLINE_def e)
    have z: "\<not> contact_at st 0" "\<not> group_at st 0" using D(1) by simp_all
    have same: "?K p = K p" if "contact_at st p \<or> group_at st p" for p
      using that z by (cases "p = 0") auto
    then have "levels (contact_at st) (group_at st) ?K P f = levels (contact_at st) (group_at st) K P f" for P f
      unfolding levels_def by simp
    then show ?thesis
      using blist_okD(3) [OF ok] same unfolding counts_ok_def e ms by simp
  qed
  moreover have "table_ok env st'"
    using blist_okD(4) [OF ok] unfolding table_ok_def entries_ok_def hkey_def e .
  moreover have "priority_ok st' ?K"
    using blist_okD(6) [OF ok] D(1) unfolding priority_ok_def e by (metis fun_upd_other option.distinct(1))
  ultimately show ?thesis using links' g by (simp add: blist_ok_def)
qed

lemma groups_okD:
  assumes "groups_ok env st K"
  shows "groups_cache st k = Some g \<longleftrightarrow> g \<in> set (K 0) \<and> k = collate_key env (node_name st g)"
    and "g \<in> set (K 0) \<Longrightarrow> node_name st g \<noteq> ''''"
  using assms by (simp_all add: groups_ok_def)

lemma find_listed:
  assumes ok: "blist_ok env st K" and g: "g \<in> set (K 0)"
  shows "purple_find_group env st (node_name st g) = g"
proof -
  note G = groups_okD [OF blist_okD(5) [OF ok]]
  have "groups_cache st (collate_key env (node_name st g)) = Some g" using G(1) g by blast
  then show ?thesis using G(2) [OF g] by (simp add: purple_find_group_def)
qed

lemma find_found:
  assumes ok: "blist_ok env st K" and g: "purple_find_group env st s = g" "g \<noteq> 0"
  shows "g \<in> set (K 0)" "collate_key env s = collate_key env (node_name st g)" "s \<noteq> ''''"
  using g groups_okD(1) [OF blist_okD(5) [OF ok], of "collate_key env s" g]
  by (auto simp: purple_find_group_def split: if_splits option.splits)

lemma find_nothing:
  assumes ok: "blist_ok env st K" and "purple_find_group env st s = 0" "s \<noteq> ''''"
  shows "groups_cache st (collate_key env s) = None"
proof (rule ccontr)
  assume "groups_cache st (collate_key env s) \<noteq> None"
  then obtain g where g: "groups_cache st (collate_key env s) = Some g" by auto
  then have "g \<in> set (K 0)" using groups_okD(1) [OF blist_okD(5) [OF ok]] by blast
  then have "g \<noteq> 0" using in_tree [OF ok] by blast
  then show False using assms(2,3) g by (simp add: purple_find_group_def)
qed

subsection \<open>Putting a group on the list\<close>

text \<open>The end of \<open>purple_blist_add_group\<close>: the user interface is told.\<close>

lemma add_group_shown:
  assumes ok: "blist_ok env st K" and False: "g \<noteq> 0"
  shows "\<exists>ev. do { st \<leftarrow> ui_siblings env Op_save_node (node_child st g) (ui env Op_save_node g st);
             let st = ui env Op_update g st;
             st \<leftarrow> ui_siblings env Op_update (node_child st g) st;
             Some (emit (Signal ''blist-node-added'' g) st) } = Some (st\<lparr>blist_events := ev\<rparr>)"
proof -
  have p: "path (node_next st) (node_child st g) (K g)"
    using forest_path [OF blist_okD(1) [OF ok], of g] False by simp
  obtain e1 where e1: "fold (ui env Op_save_node) (K g) (ui env Op_save_node g st) = st\<lparr>blist_events := e1\<rparr>"
    using fold_ui_frame [of env Op_save_node "K g" "ui env Op_save_node g st"] by (auto simp: ui_eq)
  obtain e2 where e2: "fold (ui env Op_update) (K g) (ui env Op_update g (st\<lparr>blist_events := e1\<rparr>)) = st\<lparr>blist_events := e2\<rparr>"
    using fold_ui_frame [of env Op_update "K g" "ui env Op_update g (st\<lparr>blist_events := e1\<rparr>)"] by (auto simp: ui_eq)
  have "ui_siblings env Op_save_node (node_child st g) (ui env Op_save_node g st) = Some (st\<lparr>blist_events := e1\<rparr>)"
    using ui_siblings_fold [of "ui env Op_save_node g st" _ "K g"] p e1 by (simp add: ui_eq)
  moreover have "ui_siblings env Op_update (node_child st g) (ui env Op_update g (st\<lparr>blist_events := e1\<rparr>)) = Some (st\<lparr>blist_events := e2\<rparr>)"
    using ui_siblings_fold [of "ui env Op_update g (st\<lparr>blist_events := e1\<rparr>)" _ "K g"] p e2 by (simp add: ui_eq)
  ultimately show ?thesis
    by (intro exI [of _ "e2 @ [Signal ''blist-node-added'' g]"]) (simp add: Let_def ui_eq emit_def)
qed

text \<open>A group that is on the list, or could be put there.\<close>

definition usable :: "blist_env \<Rightarrow> blist \<Rightarrow> (ptr \<Rightarrow> ptr list) \<Rightarrow> ptr \<Rightarrow> bool" where
  "usable env st K g \<longleftrightarrow> g \<in> set (K 0) \<or>
     group_at st g \<and> node_name st g \<noteq> '''' \<and> purple_find_group env st (node_name st g) = 0"

lemma unlisted_empty:
  assumes ok: "blist_ok env st K" and g: "group_at st g" "g \<notin> set (K 0)"
  shows "K g = []" "g \<notin> set (K q)" "g \<noteq> 0"
proof -
  note D = tree_okD [OF blist_okD(2) [OF ok]]
  show g0: "g \<noteq> 0" using D(1) g(1) by (cases "g = 0") simp_all
  have "y \<notin> set (K g)" for y
    using D(4) [of y g] g g0 by auto
  then show "K g = []" by (cases "K g") auto
  show "g \<notin> set (K q)"
  proof
    assume "g \<in> set (K q)"
    then show False using D(4) [of g q] D(2) [of g] g by (cases "q = 0") auto
  qed
qed

lemma add_group_new_ok:
  assumes ok: "blist_ok env st K" and g: "group_at st g" "g \<notin> set (K 0)"
    and name: "node_name st g \<noteq> ''''" "purple_find_group env st (node_name st g) = 0"
    and n: "n = 0 \<or> n \<in> set (K 0)"
  shows "\<exists>st'. purple_blist_add_group env g n st = Some st' \<and> same_nodes st st' \<and>
    blist_ok env st' (K(0 := place n g (K 0)))"
proof -
  note E = unlisted_empty [OF ok g]
  note T = tree_okD [OF blist_okD(2) [OF ok]]
  have pg: "node_parent st g = 0" using T(3) [OF g(1)] .
  have n': "is_group st n \<longleftrightarrow> n \<noteq> 0" "g \<noteq> n"
  proof -
    show "is_group st n \<longleftrightarrow> n \<noteq> 0"
      using n T(2) [of n] by (auto simp: is_group_def purple_blist_node_get_type_def)
    show "g \<noteq> n" using n g(2) E(3) by auto
  qed
  have ig: "is_group st g" using g(1) E(3) by (simp add: is_group_def purple_blist_node_get_type_def)
  define key where "key = collate_key env (node_name st g)"
  define s1 where "s1 = st\<lparr>groups_cache := (groups_cache st)(key \<mapsto> g)\<rparr>"
  define s2 where "s2 = (if n = 0 then link_group_first g s1 else link_group_after n g s1)"
  have l1: "links s1 K" by (rule links_cong [OF blist_okD(1) [OF ok]]) (simp_all add: s1_def)
  have links2: "links s2 (K(0 := place n g (K 0)))"
    unfolding s2_def by (rule links_group_place [OF l1 E(3,2) _ n]) (simp add: s1_def pg)
  have same2: "same_nodes st s2"
  proof (cases "n = 0")
    case False
    have "node_next st n \<noteq> g"
      using dll_neighbours(2) [OF forestD(1) [OF blist_okD(1) [OF ok]], of n 0] n False E(2,3) by auto
    then have "node_next s1 n \<noteq> g" by (simp add: s1_def)
    from link_group_after_eq [OF n'(2) [symmetric] this] False show ?thesis
      by (simp add: same_nodes_def s2_def s1_def)
  qed (simp add: same_nodes_def s2_def s1_def link_group_first_eq)
  note e = same_nodesD [OF same2]
  have cache2: "groups_cache s2 = (groups_cache st)(key \<mapsto> g)"
    by (auto simp: s2_def s1_def link_group_first_eq link_group_after_def Let_def)
  have ok2: "blist_ok env s2 (K(0 := place n g (K 0)))"
  proof (rule top_ok [OF ok same2 links2])
    show "group_at st x" if "x \<in> set (place n g (K 0))" for x
      using that place_set [OF n] g(1) T(2) by auto
    show "x \<in> set (place n g (K 0))" if "group_at st x" "K x \<noteq> []" for x
      using unlisted_empty(1) [OF ok that(1)] that(2) place_set [OF n] by blast
    have key: "groups_cache st key = None" unfolding key_def by (rule find_nothing [OF ok name(2,1)])
    note G = groups_okD [OF blist_okD(5) [OF ok]]
    show "groups_ok env s2 (K(0 := place n g (K 0)))"
      unfolding groups_ok_def
    proof (intro conjI allI ballI)
      fix k h
      show "groups_cache s2 k = Some h \<longleftrightarrow>
          h \<in> set ((K(0 := place n g (K 0))) 0) \<and> k = collate_key env (node_name s2 h)"
      proof (cases "h = g")
        case True
        then show ?thesis using G(1) [of k g] g(2) place_set [OF n] by (auto simp: cache2 e key_def)
      next
        case False
        then show ?thesis using G(1) [of k h] key place_set [OF n] by (auto simp: cache2 e)
      qed
    next
      fix h
      assume "h \<in> set ((K(0 := place n g (K 0))) 0)"
      then show "node_name s2 h \<noteq> ''''" using G(2) [of h] name(1) place_set [OF n] by (auto simp: e)
    qed
  qed
  obtain ev where ev: "do { st \<leftarrow> ui_siblings env Op_save_node (node_child s2 g) (ui env Op_save_node g s2);
             let st = ui env Op_update g st;
             st \<leftarrow> ui_siblings env Op_update (node_child st g) st;
             Some (emit (Signal ''blist-node-added'' g) st) } = Some (s2\<lparr>blist_events := ev\<rparr>)"
    using add_group_shown [OF ok2 E(3)] by blast
  have "is_group s1 n \<longleftrightarrow> is_group st n"
    by (simp add: s1_def is_group_def purple_blist_node_get_type_def)
  then have s2: "(if is_group s1 n then link_group_after n g s1 else link_group_first g s1) = s2"
    using n'(1) by (simp add: s2_def)
  have "node_child (ui env Op_save_node g s2) = node_child s2" by (simp add: ui_eq)
  then have "purple_blist_add_group env g n st = Some (s2\<lparr>blist_events := ev\<rparr>)"
    using ev ig n'(2) name(2)
    by (simp add: purple_blist_add_group_def s2 s1_def [symmetric] key_def [symmetric] Let_def)
  moreover have "same_nodes st (s2\<lparr>blist_events := ev\<rparr>)"
    using same2 by (simp add: same_nodes_def)
  ultimately show ?thesis using blist_ok_new_events [OF ok2] by blast
qed

lemma add_group_moved_ok:
  assumes ok: "blist_ok env st K" and g: "g \<in> set (K 0)"
    and n: "n = 0 \<or> n \<in> set (K 0)" "n \<noteq> g"
  shows "\<exists>st'. purple_blist_add_group env g n st = Some st' \<and> same_nodes st st' \<and>
    blist_ok env st' (K(0 := place n g (remove1 g (K 0))))"
proof -
  note T = tree_okD [OF blist_okD(2) [OF ok]]
  have g0: "g \<noteq> 0" using in_tree [OF ok g] by simp
  have types: "is_group st n \<longleftrightarrow> n \<noteq> 0" "is_group st g"
    using n(1) g g0 T(2) by (auto simp: is_group_def purple_blist_node_get_type_def)
  define s0 where "s0 = ui env Op_remove g st"
  define s1 where "s1 = unlink_group g s0"
  define s2 where "s2 = (if n = 0 then link_group_first g s1 else link_group_after n g s1)"
  define K1 where "K1 = K(0 := remove1 g (K 0))"
  have l0: "links s0 K" by (rule links_cong [OF blist_okD(1) [OF ok]]) (simp_all add: s0_def ui_eq)
  note self = forest_no_self [OF l0 g]
  have l1: "links s1 K1" unfolding s1_def K1_def by (rule links_group_unlink [OF l0 g])
  have out: "g \<notin> set (K1 q)" for q
    unfolding K1_def using set_removed [OF l0 g, of q] by blast
  have n1: "n = 0 \<or> n \<in> set (K1 0)" using n set_removed [OF l0 g, of 0] by (auto simp: K1_def)
  note eq1 = unlink_group_eq [OF self(2,1)]
  have same0: "same_nodes st s0" "groups_cache s0 = groups_cache st" by (simp_all add: same_nodes_def s0_def ui_eq)
  then have same1: "same_nodes st s1" by (simp add: same_nodes_def s1_def eq1)
  have pg: "node_parent s1 g = 0" using same_nodesD(2) [OF same1] in_tree [OF ok g] by simp
  have links2: "links s2 (K(0 := place n g (remove1 g (K 0))))"
  proof -
    have "K1(0 := place n g (K1 0)) = K(0 := place n g (remove1 g (K 0)))" by (simp add: K1_def)
    then show ?thesis using links_group_place [OF l1 g0 out pg n1] unfolding s2_def by metis
  qed
  have same2: "same_nodes st s2"
  proof (cases "n = 0")
    case False
    have "node_next s1 n \<noteq> g"
      using dll_neighbours(2) [OF forestD(1) [OF l1], of n 0] n1 False out [of 0] g0 by auto
    from link_group_after_eq [OF n(2) this] False same1 show ?thesis
      by (simp add: same_nodes_def s2_def)
  qed (use same1 in \<open>simp add: same_nodes_def s2_def link_group_first_eq\<close>)
  note e = same_nodesD [OF same2]
  have cache2: "groups_cache s2 = groups_cache st"
    using same0 by (simp add: s2_def s1_def eq1 link_group_first_eq link_group_after_def Let_def)
  have set2: "set (place n g (remove1 g (K 0))) = set (K 0)"
    using place_set [OF n1, of g] set_removed [OF l0 g, of 0] g by (auto simp: K1_def)
  have ok2: "blist_ok env s2 (K(0 := place n g (remove1 g (K 0))))"
  proof (rule top_ok [OF ok same2 links2])
    show "group_at st x" if "x \<in> set (place n g (remove1 g (K 0)))" for x
      using that set2 T(2) by simp
    show "x \<in> set (place n g (remove1 g (K 0)))" if "group_at st x" "K x \<noteq> []" for x
      using unlisted_empty(1) [OF ok that(1)] that(2) set2 by blast
    show "groups_ok env s2 (K(0 := place n g (remove1 g (K 0))))"
      using blist_okD(5) [OF ok] by (simp add: groups_ok_def cache2 e set2)
  qed
  obtain ev where ev: "do { st \<leftarrow> ui_siblings env Op_save_node (node_child s2 g) (ui env Op_save_node g s2);
             let st = ui env Op_update g st;
             st \<leftarrow> ui_siblings env Op_update (node_child st g) st;
             Some (emit (Signal ''blist-node-added'' g) st) } = Some (s2\<lparr>blist_events := ev\<rparr>)"
    using add_group_shown [OF ok2 g0] by blast
  have "is_group s1 n \<longleftrightarrow> is_group st n"
    using same_nodesD(1) [OF same1] by (simp add: is_group_def purple_blist_node_get_type_def)
  then have s2: "(if is_group s1 n then link_group_after n g s1 else link_group_first g s1) = s2"
    using types(1) by (simp add: s2_def)
  have "node_child (ui env Op_save_node g s2) = node_child s2" by (simp add: ui_eq)
  then have "purple_blist_add_group env g n st = Some (s2\<lparr>blist_events := ev\<rparr>)"
    using ev types(2) n(2) find_listed [OF ok g] g0
    by (simp add: purple_blist_add_group_def s2 s1_def [symmetric] s0_def [symmetric] Let_def)
  moreover have "same_nodes st (s2\<lparr>blist_events := ev\<rparr>)"
    using same2 by (simp add: same_nodes_def)
  ultimately show ?thesis using blist_ok_new_events [OF ok2] by blast
qed

text \<open>What \<open>ensure_listed\<close> does to the top level.\<close>

definition listed :: "ptr \<Rightarrow> (ptr \<Rightarrow> ptr list) \<Rightarrow> ptr \<Rightarrow> ptr list" where
  "listed g K = (if g \<in> set (K 0) then K else K(0 := K 0 @ [g]))"

lemma set_listed: "set (listed g K q) = set (K q) \<union> (if q = 0 then {g} else {})"
  by (auto simp: listed_def)

lemma ensure_listed_ok:
  assumes ok: "blist_ok env st K" and g: "usable env st K g"
  shows "\<exists>st'. ensure_listed env g st = Some st' \<and> same_nodes st st' \<and> blist_ok env st' (listed g K)"
proof (cases "g \<in> set (K 0)")
  case True
  have "g \<noteq> 0" using in_tree [OF ok True] by simp
  then show ?thesis
    using True find_listed [OF ok True] ok by (simp add: ensure_listed_def listed_def same_nodes_def)
next
  case False
  then have g': "group_at st g" "node_name st g \<noteq> ''''" "purple_find_group env st (node_name st g) = 0"
    using g by (auto simp: usable_def)
  define l where "l = (if K 0 = [] then 0 else last (K 0))"
  have l: "l = 0 \<or> l \<in> set (K 0)" by (simp add: l_def)
  have "purple_blist_get_last_sibling st (root st) = Some l"
    using last_sibling [OF blist_okD(1) [OF ok], of 0] by (simp add: first_def l_def)
  moreover have "place l g (K 0) = K 0 @ [g]"
    unfolding l_def using forestD(2,3) [OF blist_okD(1) [OF ok], of 0] by (rule place_last)
  ultimately show ?thesis
    using add_group_new_ok [OF ok g'(1) False g'(2,3) l] False g'(3) by (simp add: ensure_listed_def listed_def)
qed

subsection \<open>Taking a group off the list\<close>

lemma blist_ok_free:
  assumes ok: "blist_ok env st K" and g: "group_at st g" "g \<notin> set (K 0)"
  shows "blist_ok env (free_node g st) K" (is "blist_ok env ?st K")
proof -
  note T = tree_okD [OF blist_okD(2) [OF ok]]
  note E = unlisted_empty [OF ok g]
  have nt: "ntype ?st = (ntype st)(g := None)" by (simp add: free_node_def)
  have e: "node_parent ?st = node_parent st" "node_name ?st = node_name st" "node_account ?st = node_account st"
    "connected ?st = connected st" "presence_online ?st = presence_online st" "priority ?st = priority st"
    "priority_valid ?st = priority_valid st" "currentsize ?st = currentsize st" "online ?st = online st"
    "totalsize ?st = totalsize st" "buddies ?st = buddies st" "buddies_cache ?st = buddies_cache st"
    "groups_cache ?st = groups_cache st"
    by (simp_all add: free_node_def)
  have "links ?st K" by (rule links_cong [OF blist_okD(1) [OF ok]]) (simp_all add: free_node_def)
  moreover have "tree_ok ?st K"
    unfolding tree_ok_def e
  proof (intro conjI allI impI ballI)
    show "ntype ?st 0 = None" using T(1) by (simp add: nt)
    show "group_at ?st x" if "x \<in> set (K 0)" for x using that g(2) T(2) by (auto simp: nt)
    show "node_parent st x = 0" if "group_at ?st x" for x using that T(3) by (auto simp: nt split: if_splits)
    show "r \<in> set (K 0) \<and> (contact_at ?st y \<or> chat_at ?st y) \<or>
        contact_at ?st r \<and> node_parent st r \<noteq> 0 \<and> buddy_at ?st y" if "y \<in> set (K r)" "r \<noteq> 0" for r y
    proof -
      have "y \<noteq> g" "r \<noteq> g" using that E(1,2) by auto
      then show ?thesis using T(4) [OF that] by (simp add: nt)
    qed
    show "y \<in> set (K (node_parent st y))" if "ntype ?st y \<noteq> None" "node_parent st y \<noteq> 0" for y
      using that T(5) [of y] by (auto simp: nt split: if_splits)
  qed
  moreover have "counts_ok ?st K"
  proof (rule counts_okI)
    note C = counts_okD [OF blist_okD(3) [OF ok]]
    have types: "contact_at ?st x \<Longrightarrow> contact_at st x" "group_at ?st x \<Longrightarrow> group_at st x" for x
      by (simp_all add: nt split: if_splits)
    have in_K: "contact_at ?st x = contact_at st x \<and> member_current ?st x = member_current st x"
      "contact_at ?st x = contact_at st x \<and> member_online ?st x = member_online st x" if "x \<in> set (K p)" for p x
    proof -
      have "x \<noteq> g" using that E(2) by auto
      then show "contact_at ?st x = contact_at st x \<and> member_current ?st x = member_current st x"
        "contact_at ?st x = contact_at st x \<and> member_online ?st x = member_online st x"
        by (simp_all add: nt member_current_def member_online_def PURPLE_BUDDY_IS_ONLINE_def e)
    qed
    show "levels (contact_at ?st) (group_at ?st) K (member_current ?st) (currentsize ?st)"
      unfolding e by (rule levels_cong [OF C(1) types in_K(1)]) (assumption | rule contact_no_group)+
    show "levels (contact_at ?st) (group_at ?st) K (member_online ?st) (online ?st)"
      unfolding e by (rule levels_cong [OF C(2) types in_K(2)]) (assumption | rule contact_no_group)+
    show "totalsize ?st c = int (length (K c))" if "contact_at ?st c" for c
      using C(3) [OF types(1) [OF that]] by (simp add: e)
    show "int (length (K c)) \<le> totalsize ?st c" if "group_at ?st c" for c
      using C(4) [OF types(2) [OF that]] by (simp add: e)
  qed
  moreover have "table_ok env ?st"
    by (rule table_ok_cong [OF blist_okD(4) [OF ok]])
      (use entries_okD [OF blist_okD(4) [OF ok]] g(1) in \<open>fastforce simp: e nt\<close>)+
  moreover have "groups_ok env ?st K"
    by (rule groups_ok_cong [OF blist_okD(5) [OF ok]]) (simp_all add: e)
  moreover have "priority_ok ?st K"
    using blist_okD(6) [OF ok] unfolding priority_ok_def e nt by (simp split: if_splits)
  ultimately show ?thesis by (simp add: blist_ok_def)
qed

lemma fold_emit_frame: "\<exists>ev. fold (\<lambda>a. emit (f a)) xs st = st\<lparr>blist_events := ev\<rparr>"
proof (induction xs arbitrary: st)
  case Nil
  show ?case by (intro exI [of _ "blist_events st"]) simp
next
  case (Cons x xs)
  from Cons [of "emit (f x) st"] show ?case by (auto simp: emit_def)
qed

lemma remove_group_ok:
  assumes ok: "blist_ok env st K" and g: "g \<in> set (K 0)" "K g = []"
  shows "blist_ok env (purple_blist_remove_group env g st) (K(0 := remove1 g (K 0)))" (is "blist_ok env _ ?K")
proof -
  note T = tree_okD [OF blist_okD(2) [OF ok]]
  have g0: "g \<noteq> 0" using in_tree [OF ok g(1)] by simp
  have child: "node_child st g = 0" using child_iff [OF blist_okD(1) [OF ok] g0] g(2) by simp
  define key where "key = collate_key env (node_name st g)"
  define s1 where "s1 = (unlink_group g st)\<lparr>groups_cache := (groups_cache st)(key := None)\<rparr>"
  note l = blist_okD(1) [OF ok]
  note self = forest_no_self [OF l g(1)]
  have links1: "links s1 ?K"
    by (rule links_cong [OF links_group_unlink [OF l g(1)]]) (simp_all add: s1_def)
  have same1: "same_nodes st s1"
    by (simp add: same_nodes_def s1_def unlink_group_eq self)
  note e = same_nodesD [OF same1]
  have rem: "set (remove1 g (K 0)) = set (K 0) - {g}" using set_removed [OF l g(1), of 0] by simp
  have ok1: "blist_ok env s1 ?K"
  proof (rule top_ok [OF ok same1 links1])
    show "group_at st x" if "x \<in> set (remove1 g (K 0))" for x using that rem T(2) by auto
    show "x \<in> set (remove1 g (K 0))" if "group_at st x" "K x \<noteq> []" for x
      using unlisted_empty(1) [OF ok that(1)] that(2) rem g(2) by auto
    note G = groups_okD [OF blist_okD(5) [OF ok]]
    show "groups_ok env s1 ?K"
      unfolding groups_ok_def
    proof (intro conjI allI ballI)
      fix k h
      have key: "groups_cache st key = Some g" using G(1) [of key g] g(1) by (simp add: key_def)
      have c1: "groups_cache s1 = (groups_cache st)(key := None)" by (simp add: s1_def)
      show "groups_cache s1 k = Some h \<longleftrightarrow> h \<in> set (?K 0) \<and> k = collate_key env (node_name s1 h)"
      proof (cases "k = key")
        case True
        then show ?thesis using G(1) [of key h] key rem by (auto simp: c1 e)
      next
        case False
        then show ?thesis using G(1) [of k h] rem by (auto simp: c1 e key_def)
      qed
    next
      show "node_name s1 h \<noteq> ''''" if "h \<in> set (?K 0)" for h using that G(2) [of h] rem by (simp add: e)
    qed
  qed
  have gone: "group_at s1 g" "g \<notin> set (?K 0)" using T(2) [OF g(1)] rem by (simp_all add: e)
  define s2 where "s2 = emit (Signal ''blist-node-removed'' g) (ui env Op_remove_node g (ui env Op_remove g s1))"
  obtain ev where ev: "fold (\<lambda>a. emit (Account_remove_group a g)) (filter (connected s2) (connections env)) s2 =
      s1\<lparr>blist_events := ev\<rparr>"
    using fold_emit_frame [of "\<lambda>a. Account_remove_group a g" "filter (connected s2) (connections env)" s2]
    by (auto simp: s2_def emit_def ui_eq)
  have "groups_cache (unlink_group g st) = groups_cache st" "node_name (unlink_group g st) = node_name st"
    by (simp_all add: unlink_group_eq self)
  then have "purple_blist_remove_group env g st = free_node g (s1\<lparr>blist_events := ev\<rparr>)"
    using g0 child ev by (simp add: purple_blist_remove_group_def Let_def s1_def [symmetric] key_def [symmetric] s2_def)
  then show ?thesis
    using blist_ok_free [OF blist_ok_new_events [OF ok1]] gone by simp
qed

end
