(* ===== verification/Purple_Blist_Move.thy ===== *)
theory Purple_Blist_Move
  imports Purple_Blist_Groups
begin

section \<open>The buddy list: adding and moving chats and buddies\<close>

subsection \<open>The group of a new node\<close>

lemma group_new_usable:
  assumes ok: "blist_ok env st K" and p: "ntype st p = None" "p \<noteq> 0"
    and name: "s \<noteq> ''''" "strip_unprintables env s = s"
  shows "usable env (snd (purple_group_new env p s st)) K (fst (purple_group_new env p s st))"
proof (cases "purple_find_group env st s = 0")
  case True
  have "purple_find_group env (snd (purple_group_new env p s st)) s = purple_find_group env st s"
    by (simp add: purple_find_group_def purple_group_new_def new_node_def ui_eq Let_def)
  then show ?thesis
    using True name by (simp add: usable_def purple_group_new_def new_node_def ui_eq Let_def)
next
  case False
  then show ?thesis
    using find_found(1) [OF ok refl False] name by (simp add: usable_def purple_group_new_def)
qed

lemma group_new_frame:
  assumes "ntype st p = None" and "ntype st x \<noteq> None"
  shows "ntype (snd (purple_group_new env p s st)) x = ntype st x"
    "node_parent (snd (purple_group_new env p s st)) x = node_parent st x"
  using assms by (auto simp: purple_group_new_def new_node_def ui_eq Let_def)

subsection \<open>Chats\<close>

text \<open>The part of \<open>purple_blist_add_chat\<close> that takes a chat out of its group.\<close>

definition leave_group :: "blist_env \<Rightarrow> ptr \<Rightarrow> blist \<Rightarrow> blist" where
  "leave_group env x st =
     (if node_parent st x \<noteq> 0
      then let st = count_chat (node_parent st x) x (- 1) st;
               st = unlink_child (node_parent st x) x st
           in ui env Op_new_node x (ui env Op_remove x st)
      else st)"

text \<open>The old parent of a node that is linked in does not matter.\<close>

definition orphan :: "ptr \<Rightarrow> blist \<Rightarrow> blist" where
  "orphan x st = st\<lparr>node_parent := (node_parent st)(x := 0)\<rparr>"

lemma link_at_orphan:
  assumes "a \<noteq> x"
  shows "link_at p a x (orphan x st) = link_at p a x st"
  using assms by (simp add: link_at_def link_first_def link_after_def orphan_def Let_def)

lemma links_orphan:
  assumes "links st K" and "\<And>q. x \<notin> set (K q)"
  shows "links (orphan x st) K"
proof -
  have "first (orphan x st) = first st" by (simp add: first_def orphan_def fun_eq_iff)
  then show ?thesis
    using assms unfolding forest_def by (fastforce simp: orphan_def)
qed

lemma leave_group_ok:
  assumes ok: "blist_ok env st K" and x: "chat_at st x"
  shows "blist_ok env (orphan x (leave_group env x st)) (detach x K)"
proof (cases "node_parent st x = 0")
  case True
  have "detach x K = K"
    by (rule detach_none) (use parentless [OF ok _ _ True] x in auto)
  moreover have "orphan x (leave_group env x st) = st"
    using True by (simp add: leave_group_def orphan_def fun_upd_idem)
  ultimately show ?thesis using ok by simp
next
  case False
  define g where "g = node_parent st x"
  note place = chat_place [OF ok x False, folded g_def]
  note l = blist_okD(1) [OF ok]
  note self = forest_no_self [OF l place(1)]
  have g0: "g \<noteq> 0" using False by (simp add: g_def)
  define s where "s = unlink_child g x (count_chat g x (- 1) st)"
  have s: "s = count_chat g x (- 1) (unlink_child g x st)"
    by (simp add: s_def unlink_child_eq self count_chat_eq)
  have eq: "orphan x (leave_group env x st) = orphan x (ui env Op_new_node x (ui env Op_remove x s))"
    using g0 by (simp add: leave_group_def s_def g_def count_chat_eq Let_def)
  note eqs = s orphan_def ui_eq count_chat_eq unlink_child_eq [OF self(2,1)]
  have links': "links (orphan x (leave_group env x st)) (K(g := remove1 x (K g)))"
    unfolding eq
  proof (rule links_orphan)
    show "links (ui env Op_new_node x (ui env Op_remove x s)) (K(g := remove1 x (K g)))"
      by (rule links_cong [OF links_unlink [OF l place(1) g0]]) (simp_all add: s ui_eq count_chat_eq)
    show "x \<notin> set ((K(g := remove1 x (K g))) q)" for q
      using set_removed [OF l place(1), of q] by blast
  qed
  have "blist_ok env (orphan x (leave_group env x st)) (K(g := remove1 x (K g)))"
    unfolding eq
    by (rule chat_leave_ok [OF ok x False g_def links' [unfolded eq], where u = "ntype st x" and q = 0])
      (simp_all add: eqs fun_upd_idem)
  then show ?thesis using detach_eq [OF l place(1)] by simp
qed

text \<open>A chat is put behind the node \<open>a\<close> of the group \<open>p\<close>, or at its head.\<close>

definition moved :: "ptr \<Rightarrow> ptr \<Rightarrow> ptr \<Rightarrow> (ptr \<Rightarrow> ptr list) \<Rightarrow> ptr \<Rightarrow> ptr list" where
  "moved x p a K = (let D = detach x K in D(p := place a x (D p)))"

lemma chat_put_ok:
  assumes ok: "blist_ok env st K" and x: "chat_at st x"
    and p: "p \<in> set (K 0)" and a: "a = 0 \<or> a \<in> set (K p)" "a \<noteq> x"
  shows "blist_ok env (count_chat p x 1 (link_at p a x (leave_group env x st))) (moved x p a K)"
proof -
  note out = leave_group_ok [OF ok x]
  have sel: "ntype (leave_group env x st) = ntype st"
    by (simp add: leave_group_def count_chat_eq unlink_child_def unlink_siblings_def ui_eq Let_def)
  have "p \<noteq> x" using tree_okD(2) [OF blist_okD(2) [OF ok] p] x by auto
  then have p': "p \<in> set (detach x K 0)" using p set_detach [OF blist_okD(1) [OF ok]] by auto
  have a': "a = 0 \<or> a \<in> set (detach x K p)" using a set_detach [OF blist_okD(1) [OF ok]] by auto
  have "blist_ok env (count_chat p x 1 (link_at p a x (orphan x (leave_group env x st)))) (moved x p a K)"
    unfolding moved_def Let_def
    by (rule chat_join_ok [OF out _ _ p' a']) (simp_all add: orphan_def sel x)
  then show ?thesis by (simp add: link_at_orphan [OF a(2)])
qed

text \<open>The end of the routine: the user interface is told.\<close>

definition shown :: "blist_env \<Rightarrow> ptr \<Rightarrow> blist \<Rightarrow> blist" where
  "shown env x st = emit (Signal ''blist-node-added'' x) (ui env Op_update x (ui env Op_save_node x st))"

lemma shown_ok: "blist_ok env st K \<Longrightarrow> blist_ok env (shown env x st) K"
  unfolding shown_def by (intro blist_ok_events)

lemma add_chat_after_eq:
  "is_chat st x \<Longrightarrow> x \<noteq> n \<Longrightarrow> n \<noteq> 0 \<Longrightarrow> purple_blist_add_chat env gp x g n st = Some (shown env x
     (count_chat (node_parent (leave_group env x st) n) x 1 (link_after n x (leave_group env x st))))"
  by (simp add: purple_blist_add_chat_def leave_group_def shown_def Let_def)

lemma add_chat_first_eq:
  "is_chat st x \<Longrightarrow> x \<noteq> 0 \<Longrightarrow> g \<noteq> 0 \<Longrightarrow> ensure_listed env g st = Some s \<Longrightarrow>
   purple_blist_add_chat env gp x g 0 st = Some (shown env x (count_chat g x 1 (link_first g x (leave_group env x s))))"
  by (simp add: purple_blist_add_chat_def leave_group_def shown_def Let_def)

lemma add_chat_after_ok:
  assumes ok: "blist_ok env st K" and x: "chat_at st x" and n: "n \<in> set (K p)" "p \<in> set (K 0)" "n \<noteq> x"
  shows "\<exists>st'. purple_blist_add_chat env gp x g n st = Some st' \<and> blist_ok env st' (moved x p n K)"
proof -
  note place = in_tree [OF ok n(1)]
  have x0: "x \<noteq> 0" using tree_okD(1) [OF blist_okD(2) [OF ok]] x by (cases "x = 0") simp_all
  then have "is_chat st x" using x by (simp add: is_chat_def purple_blist_node_get_type_def)
  moreover have "node_parent (leave_group env x st) = node_parent st"
    by (simp add: leave_group_def count_chat_eq unlink_child_def unlink_siblings_def ui_eq Let_def)
  ultimately have "purple_blist_add_chat env gp x g n st =
      Some (shown env x (count_chat p x 1 (link_at p n x (leave_group env x st))))"
    using place n(3) by (simp add: add_chat_after_eq link_at_def)
  then show ?thesis
    using shown_ok [OF chat_put_ok [OF ok x n(2) disjI2 [OF n(1)] n(3)]] by blast
qed

lemma add_chat_first_ok:
  assumes ok: "blist_ok env st K" and x: "chat_at st x" and g: "usable env st K g"
  shows "\<exists>st'. purple_blist_add_chat env gp x g 0 st = Some st' \<and> blist_ok env st' (moved x g 0 (listed g K))"
proof -
  have x0: "x \<noteq> 0" using tree_okD(1) [OF blist_okD(2) [OF ok]] x by (cases "x = 0") simp_all
  then have ic: "is_chat st x" using x by (simp add: is_chat_def purple_blist_node_get_type_def)
  obtain s where s: "ensure_listed env g st = Some s" "same_nodes st s" "blist_ok env s (listed g K)"
    using ensure_listed_ok [OF ok g] by blast
  have g': "g \<in> set (listed g K 0)" by (simp add: set_listed)
  have g0: "g \<noteq> 0" using in_tree [OF s(3) g'] by simp
  have "purple_blist_add_chat env gp x g 0 st =
      Some (shown env x (count_chat g x 1 (link_at g 0 x (leave_group env x s))))"
    using add_chat_first_eq [OF ic x0 g0 s(1)] by (simp add: link_at_def)
  moreover have "chat_at s x" using x same_nodesD(1) [OF s(2)] by simp
  ultimately show ?thesis
    using shown_ok [OF chat_put_ok [OF s(3) _ g', of x 0]] x0 by auto
qed

subsection \<open>Buddies\<close>

text \<open>A buddy on its way has no parent and no entry in the tables.\<close>

definition forget :: "hbuddy \<Rightarrow> nat \<Rightarrow> ptr \<Rightarrow> blist \<Rightarrow> blist" where
  "forget k a b st = buddies_remove k a (orphan b st)"

lemma map_option_twice: "map_option (\<lambda>t. t(k := v)) (map_option (\<lambda>t. t(k := u)) x) = map_option (\<lambda>t. t(k := v)) x"
  by (cases x) simp_all

lemma buddies_remove_twice: "buddies_remove k a (buddies_remove k a st) = buddies_remove k a st"
  by (simp add: buddies_remove_def map_option_twice)

lemma forget_alt: "forget k a b st = orphan b (buddies_remove k a st)"
  by (simp add: forget_def buddies_remove_def orphan_def)

lemma forget_twice: "forget k a b (buddies_remove k a st) = forget k a b st"
  by (simp add: forget_def buddies_remove_def orphan_def map_option_twice)

lemma forget_fields:
  "ntype (forget k a b st) = ntype st" "node_parent (forget k a b st) = (node_parent st)(b := 0)"
  "node_child (forget k a b st) = node_child st"
  by (simp_all add: forget_def buddies_remove_def orphan_def)

lemma remove_empty_tables:
  "remove_empty_contact env c (buddies_remove k a st) = buddies_remove k a (remove_empty_contact env c st)"
  by (simp add: remove_empty_contact_def buddies_remove_def ui_eq emit_def
      free_node_def unlink_child_def unlink_siblings_def Let_def)

lemma remove_empty_forget:
  assumes "c \<noteq> b"
  shows "remove_empty_contact env c (forget k a b st) = forget k a b (remove_empty_contact env c st)"
  using assms by (simp add: forget_def remove_empty_contact_def buddies_remove_def orphan_def ui_eq emit_def
      free_node_def unlink_child_def unlink_siblings_def Let_def)

lemma link_at_tables:
  "link_at p a x (buddies_remove k d st) = buddies_remove k d (link_at p a x st)"
  by (simp add: link_at_def link_first_def link_after_def buddies_remove_def Let_def)

lemma buddy_joins_tables: "buddy_joins b (buddies_remove k d st) = buddies_remove k d (buddy_joins b st)"
  by (simp add: buddy_joins_eq buddies_remove_def PURPLE_BUDDY_IS_ONLINE_def)

lemma buddies_replace_remove: "buddies_replace k a b (buddies_remove k a st) = buddies_replace k a b st"
  by (simp add: buddies_replace_def buddies_remove_def map_option_twice)

lemma buddy_in_orphan: "a \<noteq> b \<Longrightarrow> buddy_in env b c a (orphan b st) = buddy_in env b c a st"
  by (simp add: buddy_in_def link_at_orphan)

text \<open>The old entry is gone already, or it is the one that is replaced.\<close>

lemma buddy_in_forget:
  assumes "a \<noteq> b" and "k = hkey env st b (node_parent st c)" and "c \<noteq> b" and "d = node_account st b"
    and "a \<noteq> 0 \<Longrightarrow> node_parent st a = c"
  shows "buddy_in env b c a (forget k d b st) = buddy_in env b c a st"
proof -
  have "buddy_in env b c a (buddies_remove k d st) = buddy_in env b c a st"
  proof -
    define s where "s = buddy_joins b (link_at c a b st)"
    have "node_parent s b = c" "node_parent s c = node_parent st c" "node_account s = node_account st" "node_name s = node_name st"
      using assms(1,3,5) by (simp_all add: s_def buddy_joins_eq link_at_def link_first_def link_after_def Let_def)
    then have k: "hkey env s b (node_parent s (node_parent s b)) = k" "node_account s b = d"
      using assms(2,4) by (simp_all add: hkey_def)
    have "hkey env (buddies_remove k d s) b (node_parent (buddies_remove k d s) (node_parent (buddies_remove k d s) b)) = k"
      "node_account (buddies_remove k d s) b = d"
      using k by (simp_all add: hkey_def buddies_remove_def)
    then show ?thesis
      using k by (simp add: buddy_in_def link_at_tables buddy_joins_tables s_def [symmetric] buddies_replace_remove Let_def)
  qed
  then show ?thesis by (simp add: forget_alt buddy_in_orphan assms(1))
qed

text \<open>The state of \<open>leave_contact\<close> before the test whether the contact is empty.\<close>

definition half_left :: "blist_env \<Rightarrow> ptr \<Rightarrow> ptr \<Rightarrow> blist \<Rightarrow> blist" where
  "half_left env b g st =
     (let c = node_parent st b;
          old = node_parent st c;
          st = buddy_leaves b st;
          st = (if old \<noteq> g
                then emit (Serv_move_buddy b old g) (emit (Signal ''buddy-removed-from-group'' b) st) else st);
          st = unlink_child c b st;
          st = ui env Op_remove b st
      in if old \<noteq> g then buddies_remove (hkey env st b old) (node_account st b) st else st)"

lemma leave_contact_eq:
  "leave_contact env b g st =
     (if node_child (half_left env b g st) (node_parent st b) = 0
      then remove_empty_contact env (node_parent st b) (half_left env b g st)
      else ui env Op_update (node_parent st b)
             (purple_contact_invalidate_priority_buddy (node_parent st b) (half_left env b g st)))"
  by (simp add: leave_contact_def half_left_def Let_def)

lemma half_left_eq:
  assumes "node_prev st b \<noteq> b" "node_next st b \<noteq> b" and c: "c = node_parent st b" and k: "k = hkey env st b (node_parent st c)"
  shows "\<exists>ev. half_left env b g st =
    (if node_parent st c \<noteq> g then buddies_remove k (node_account st b) else id)
      ((unlink_child c b (buddy_leaves b st))\<lparr>blist_events := ev\<rparr>)"
proof -
  let ?r = "if ui_ops env Op_remove then [Ui Op_remove b] else []"
  note eqs = half_left_def c [symmetric] Let_def unlink_child_eq assms(1,2) buddy_leaves_eq ui_eq emit_def
    buddies_remove_def hkey_def k
  show ?thesis
  proof (cases "node_parent st c = g")
    case True
    then show ?thesis by (intro exI [of _ "blist_events st @ ?r"]) (simp add: eqs)
  next
    case False
    then show ?thesis
      by (intro exI [of _ "blist_events st @ [Signal ''buddy-removed-from-group'' b, Serv_move_buddy b (node_parent st c) g] @ ?r"])
        (simp add: eqs)
  qed
qed

lemma leave_contact_ok:
  assumes ok: "blist_ok env st K" and b: "buddy_at st b" "node_parent st b \<noteq> 0"
    and c: "c = node_parent st b" and k: "k = hkey env st b (node_parent st c)"
  shows "blist_ok env (forget k (node_account st b) b (leave_contact env b g st)) (without_buddy st b K)"
    and "node_parent (leave_contact env b g st) = node_parent st"
    and "ntype (leave_contact env b g st) = (if K c = [b] then (ntype st)(c := None) else ntype st)"
    and "node_name (leave_contact env b g st) = node_name st"
    and "node_account (leave_contact env b g st) = node_account st"
proof -
  note place = buddy_place [OF ok b, folded c]
  note l = blist_okD(1) [OF ok]
  note self = forest_no_self [OF l place(1)]
  have c0: "c \<noteq> 0" "c \<noteq> b" using b(2) place(2) b(1) by (auto simp: c)
  define d where "d = node_account st b"
  define s1 where "s1 = half_left env b g st"
  define K1 where "K1 = K(c := remove1 b (K c))"
  obtain ev where ev: "s1 = (if node_parent st c \<noteq> g then buddies_remove k d else id)
      ((unlink_child c b (buddy_leaves b st))\<lparr>blist_events := ev\<rparr>)"
    using half_left_eq [OF self(2,1) c k, of g] unfolding s1_def d_def by blast
  have eq: "forget k d b s1 = forget k d b ((unlink_child c b (buddy_leaves b st))\<lparr>blist_events := ev\<rparr>)"
    by (simp add: ev forget_twice)
  have sel: "node_parent s1 = node_parent st" "ntype s1 = ntype st" "node_name s1 = node_name st"
    "node_account s1 = node_account st"
    by (simp_all add: ev unlink_child_eq self buddy_leaves_eq buddies_remove_def)
  define s2 where "s2 = (if node_child s1 c = 0 then s1 else
     ui env Op_update c (purple_contact_invalidate_priority_buddy c s1))"
  have eq2: "forget k d b s2 = (if node_child s1 c = 0 then forget k d b s1 else
     ui env Op_update c (purple_contact_invalidate_priority_buddy c (forget k d b s1)))"
    by (simp add: s2_def forget_def orphan_def buddies_remove_def ui_eq purple_contact_invalidate_priority_buddy_def)
  have out: "b \<notin> set (K1 q)" for q unfolding K1_def using set_removed [OF l place(1), of q] by blast
  have l1: "links (forget k d b s1) K1"
  proof -
    have "links (unlink_child c b st) K1" unfolding K1_def by (rule links_unlink [OF l place(1) c0(1)])
    then have "links (orphan b (unlink_child c b st)) K1" using out by (rule links_orphan)
    then show ?thesis unfolding eq
      by (rule links_cong) (simp_all add: forget_def orphan_def buddies_remove_def unlink_child_eq self buddy_leaves_eq)
  qed
  have child: "node_child s1 c = 0 \<longleftrightarrow> K1 c = []"
    using child_iff [OF l1 c0(1)] by (simp add: forget_fields)
  have prio1: "priority_valid s1 = priority_valid st"
    by (simp add: ev unlink_child_eq self buddy_leaves_eq buddies_remove_def)
  define G where "G = forget k d b ((unlink_child c b (buddy_leaves b st))\<lparr>blist_events := ev\<rparr>)"
  obtain v e where eq3: "forget k d b s2 = G\<lparr>priority_valid := v, blist_events := e\<rparr>"
  proof (cases "node_child s1 c = 0")
    case True
    show ?thesis by (rule that [of "blist_events G" "priority_valid G"]) (simp add: eq2 True eq G_def)
  next
    case False
    then show ?thesis
      by (intro that [of _ "(priority_valid G)(c := False)"])
        (simp add: eq2 eq G_def ui_eq purple_contact_invalidate_priority_buddy_def c0)
  qed
  have v: "v = priority_valid s2"
    using arg_cong [OF eq3, of priority_valid] by (simp add: forget_def orphan_def buddies_remove_def)
  have Gc: "node_child s2 = node_child G"
    using arg_cong [OF eq3, of node_child] by (simp add: forget_def orphan_def buddies_remove_def)
  have ok2: "blist_ok env (forget k d b s2) K1"
    unfolding K1_def eq3
  proof (rule buddy_leave_ok [OF ok b c refl k d_def, where u = "ntype st b" and q = 0])
    show "links (G\<lparr>priority_valid := v, blist_events := e\<rparr>) (K(c := remove1 b (K c)))"
      by (rule links_cong [OF l1 [unfolded K1_def]]) (simp_all add: eq G_def)
    show "priority_valid (G\<lparr>priority_valid := v, blist_events := e\<rparr>) x \<Longrightarrow> priority_valid st x" for x
      by (auto simp: v s2_def ui_eq purple_contact_invalidate_priority_buddy_def prio1 split: if_splits)
    show "priority st c \<noteq> b" if "priority_valid (G\<lparr>priority_valid := v, blist_events := e\<rparr>) c"
      "node_child (G\<lparr>priority_valid := v, blist_events := e\<rparr>) c \<noteq> 0"
      using that c0 by (auto simp: v Gc [symmetric] s2_def ui_eq purple_contact_invalidate_priority_buddy_def split: if_splits)
  qed (simp_all add: G_def forget_def orphan_def buddies_remove_def
      unlink_child_eq self buddy_leaves_eq c [symmetric] d_def fun_upd_idem)
  show "node_parent (leave_contact env b g st) = node_parent st" "node_name (leave_contact env b g st) = node_name st"
    "node_account (leave_contact env b g st) = node_account st"
    by (simp_all add: leave_contact_eq s1_def [symmetric] remove_empty_contact_def purple_contact_invalidate_priority_buddy_def
        unlink_child_def unlink_siblings_def free_node_def ui_eq emit_def sel Let_def)
  have empty: "K1 c = [] \<longleftrightarrow> K c = [b]"
    using place(1) by (cases "K c") (auto simp: K1_def split: if_splits)
  show "ntype (leave_contact env b g st) = (if K c = [b] then (ntype st)(c := None) else ntype st)"
    using empty child c0 by (simp add: leave_contact_eq c [symmetric] s1_def [symmetric] remove_empty_contact_def
        purple_contact_invalidate_priority_buddy_def
        unlink_child_def unlink_siblings_def free_node_def ui_eq emit_def sel Let_def)
  have wb: "without_buddy st b K =
      (if K1 c = [] then K1(node_parent st c := remove1 c (K1 (node_parent st c))) else K1)"
    by (simp add: without_buddy_def K1_def c [symmetric] Let_def)
  show "blist_ok env (forget k (node_account st b) b (leave_contact env b g st)) (without_buddy st b K)"
  proof (cases "K1 c = []")
    case True
    have "blist_ok env (remove_empty_contact env c (forget k d b s2))
        (K1(node_parent (forget k d b s2) c := remove1 c (K1 (node_parent (forget k d b s2) c))))"
      by (rule remove_empty_contact_ok [OF ok2 _ _ True])
        (use True child place c0 in \<open>simp_all add: forget_fields s2_def sel\<close>)
    moreover have "leave_contact env b g st = remove_empty_contact env c s2"
      using True child by (simp add: leave_contact_eq c [symmetric] s1_def [symmetric] s2_def)
    moreover have "node_parent (forget k d b s2) c = node_parent st c"
      using c0 True child by (simp add: forget_fields s2_def sel)
    ultimately show ?thesis
      using True by (simp add: remove_empty_forget [OF c0(2)] wb d_def)
  next
    case False
    then have "leave_contact env b g st = s2"
      using child by (simp add: leave_contact_eq c [symmetric] s1_def [symmetric] s2_def)
    then show ?thesis
      using ok2 False by (simp add: wb d_def)
  qed
qed

lemma leave_contact_fields:
  assumes ok: "blist_ok env st K" and b: "buddy_at st b" "node_parent st b \<noteq> 0"
    and c: "c = node_parent st b" and k: "k = hkey env st b (node_parent st c)" and g: "node_parent st c \<noteq> g"
  shows "buddies_remove k (node_account st b) (leave_contact env b g st) = leave_contact env b g st"
proof -
  note self = forest_no_self [OF blist_okD(1) [OF ok] buddy_place(1) [OF ok b]]
  obtain ev where ev: "half_left env b g st =
      buddies_remove k (node_account st b) ((unlink_child c b (buddy_leaves b st))\<lparr>blist_events := ev\<rparr>)"
    using half_left_eq [OF self(2,1) c k, of g] g by auto
  define X where "X = (unlink_child c b (buddy_leaves b st))\<lparr>blist_events := ev\<rparr>"
  show ?thesis
  proof (cases "node_child (half_left env b g st) c = 0")
    case True
    then show ?thesis
      by (simp add: leave_contact_eq c [symmetric] ev X_def [symmetric] remove_empty_tables buddies_remove_twice)
  next
    case False
    then have "leave_contact env b g st = buddies_remove k (node_account st b)
        (ui env Op_update c (purple_contact_invalidate_priority_buddy c X))"
      by (simp add: leave_contact_eq c [symmetric] ev X_def [symmetric] purple_contact_invalidate_priority_buddy_def
          buddies_remove_def ui_eq)
    then show ?thesis by (simp add: buddies_remove_twice)
  qed
qed

text \<open>A buddy is put behind the buddy \<open>a\<close> of the contact \<open>c\<close>, or at its head.\<close>

definition leave_if :: "blist_env \<Rightarrow> ptr \<Rightarrow> ptr \<Rightarrow> blist \<Rightarrow> blist" where
  "leave_if env b g st = (if node_parent st b \<noteq> 0 then leave_contact env b g st else st)"

definition buddy_moved :: "blist \<Rightarrow> ptr \<Rightarrow> ptr \<Rightarrow> ptr \<Rightarrow> (ptr \<Rightarrow> ptr list) \<Rightarrow> ptr \<Rightarrow> ptr list" where
  "buddy_moved st b c a K =
     (let D = (if node_parent st b \<noteq> 0 then without_buddy st b K else K) in D(c := place a b (D c)))"

lemma buddy_put_ok:
  assumes ok: "blist_ok env st K" and b: "buddy_at st b"
    and c: "contact_at st c" "node_parent st c \<noteq> 0" and a: "a = 0 \<or> a \<in> set (K c)" "a \<noteq> b" and other: "K c \<noteq> [b]"
  shows "blist_ok env (buddy_in env b c a (leave_if env b (node_parent st c) st)) (buddy_moved st b c a K)"
proof (cases "node_parent st b = 0")
  case True
  then show ?thesis
    using buddy_in_ok [OF ok b True c a(1)] by (simp add: leave_if_def buddy_moved_def Let_def)
next
  case False
  define c' where "c' = node_parent st b"
  define g where "g = node_parent st c"
  define k where "k = hkey env st b (node_parent st c')"
  define s where "s = leave_contact env b g st"
  define D where "D = without_buddy st b K"
  note L = leave_contact_ok [OF ok b False c'_def k_def, of g, folded s_def D_def]
  note place = buddy_place [OF ok b False, folded c'_def]
  have bc: "b \<noteq> c" using b c(1) by auto
  have cc: "c = c' \<Longrightarrow> K c' \<noteq> [b]" using other by auto
  have sel: "contact_at (forget k (node_account st b) b s) c" "node_parent (forget k (node_account st b) b s) c = g" "g \<noteq> 0"
    using L(2,3) c cc bc by (auto simp: forget_fields g_def)
  have Dset: "a = 0 \<or> a \<in> set (D c)"
  proof -
    have "node_parent st c' \<noteq> c"
      using contact_place(3) [OF ok place(2,3)] c(1) by auto
    then have "D c = (if c = c' then remove1 b (K c) else K c)"
      by (simp add: D_def without_buddy_def c'_def [symmetric] Let_def)
    then show ?thesis using a by (cases "c = c'") (auto simp: in_set_remove1)
  qed
  note same = L(4,5)
  have "blist_ok env (buddy_in env b c a (forget k (node_account st b) b s)) (D(c := place a b (D c)))"
    by (rule buddy_in_ok [OF L(1) _ _ _ _ Dset]) (use sel L(3) b place(2) in \<open>auto simp: forget_fields\<close>)
  moreover have "buddy_in env b c a (forget k (node_account st b) b s) = buddy_in env b c a s"
  proof (cases "node_parent st c' = g")
    case True
    then have "k = hkey env s b (node_parent s c)" by (simp add: k_def hkey_def same L(2) g_def)
    then show ?thesis
      using buddy_in_forget [OF a(2) _ bc [symmetric], of k env s "node_account st b"] a in_tree [OF ok, of a c]
      by (auto simp: same L(2))
  next
    case False
    have "forget k (node_account st b) b s = orphan b s"
      using leave_contact_fields [OF ok b \<open>node_parent st b \<noteq> 0\<close> c'_def k_def False, folded s_def]
      by (simp add: forget_alt)
    then show ?thesis by (simp add: buddy_in_orphan a(2))
  qed
  ultimately show ?thesis
    using False by (simp add: leave_if_def buddy_moved_def g_def [symmetric] s_def [symmetric] D_def [symmetric] Let_def)
qed

definition announced :: "blist_env \<Rightarrow> ptr \<Rightarrow> blist \<Rightarrow> blist" where
  "announced env b st = emit (Signal ''blist-node-added'' b) (emit (Signal ''buddy-added'' b)
     (ui env Op_update b (ui env Op_save_node b st)))"

lemma announced_ok: "blist_ok env st K \<Longrightarrow> blist_ok env (announced env b st) K"
  unfolding announced_def by (intro blist_ok_events)

lemma add_buddy_eq:
  assumes "is_buddy st b" and "b \<noteq> n" and "n = 0 \<Longrightarrow> c \<noteq> 0 \<Longrightarrow> node_parent st b = c \<Longrightarrow> b \<noteq> node_child st c"
    and "target_contact env gp cp c g n st = Some (c', g', s)" and "n \<noteq> 0 \<longleftrightarrow> is_buddy (leave_if env b g' s) n"
  shows "purple_blist_add_buddy env gp cp b c g n st = Some (announced env b (buddy_in env b c' n (leave_if env b g' s)))"
proof -
  have "\<not> (b = n \<or> n = 0 \<and> node_parent st b \<noteq> 0 \<and> c \<noteq> 0 \<and> node_parent st b = c \<and> b = node_child st c)"
    using assms(2,3) by metis
  moreover have "(if is_buddy (leave_if env b g' s) n then link_after n b (leave_if env b g' s)
      else link_first c' b (leave_if env b g' s)) = link_at c' n b (leave_if env b g' s)"
    using assms(5) by (cases "n = 0") (auto simp: link_at_def)
  ultimately show ?thesis
    using assms(1,4)
    by (simp only: purple_blist_add_buddy_def if_False not_True_eq_False if_True leave_if_def buddy_in_def announced_def
        Let_def bind.simps prod.case)
qed

lemma types_after:
  assumes ok: "blist_ok env st K" and b: "buddy_at st b"
  shows "ntype (leave_if env b g st) n = (if n = node_parent st b \<and> K n = [b] then None else ntype st n)"
proof (cases "node_parent st b = 0")
  case True
  then have "b \<notin> set (K n)" using parentless [OF ok _ _ True] b by auto
  then show ?thesis using True by (auto simp: leave_if_def)
next
  case False
  then show ?thesis
    using leave_contact_ok(3) [OF ok b False refl refl, of g] by (auto simp: leave_if_def)
qed

lemma buddy_type: "is_buddy st n \<longleftrightarrow> n \<noteq> 0 \<and> buddy_at st n"
  by (auto simp: is_buddy_def purple_blist_node_get_type_def split: option.splits)

lemma is_buddy_after:
  assumes ok: "blist_ok env st K" and b: "buddy_at st b" and n: "n = 0 \<or> buddy_at st n \<and> n \<noteq> 0"
  shows "n \<noteq> 0 \<longleftrightarrow> is_buddy (leave_if env b g st) n"
proof -
  have "\<not> (n = node_parent st b \<and> K n = [b])" if "buddy_at st n"
    using childless [OF ok, of n] that tree_okD(1) [OF blist_okD(2) [OF ok]] by (cases "n = 0") auto
  then show ?thesis using n types_after [OF ok b, of g n] by (auto simp: buddy_type)
qed

lemma leave_if_fields:
  assumes ok: "blist_ok env st K" and b: "buddy_at st b"
  shows "node_parent (leave_if env b g st) = node_parent st" "node_name (leave_if env b g st) = node_name st"
    "node_account (leave_if env b g st) = node_account st"
  using leave_contact_ok(2,4,5) [OF ok b _ refl refl, of g] by (simp_all add: leave_if_def)

text \<open>A buddy that was put in is found in its group.\<close>

lemma added_found:
  assumes ok: "blist_ok env st K" and b: "buddy_at st b" and c: "c \<noteq> b"
    and a: "a \<noteq> b" "a \<noteq> 0 \<Longrightarrow> node_parent st a = c" and named: "node_account st b \<noteq> 0" "node_name st b \<noteq> ''''"
  shows "purple_find_buddy_in_group env (announced env b (buddy_in env b c a (leave_if env b g st)))
     (node_account st b) (node_name st b) (node_parent st c) = b"
proof -
  note L = leave_if_fields [OF ok b, of g]
  define s where "s = buddy_joins b (link_at c a b (leave_if env b g st))"
  have "node_parent s b = c" "node_parent s c = node_parent st c" and same: "node_account s = node_account st" "node_name s = node_name st"
    using a c by (simp_all add: s_def buddy_joins_eq link_at_def link_first_def link_after_def L Let_def)
  then have g: "node_parent s (node_parent s b) = node_parent st c" by simp
  have "buddies (buddy_in env b c a (leave_if env b g st))
      (normalize env (node_account st b) (node_name st b), node_account st b, node_parent st c) = Some b"
  proof -
    have "buddies (purple_contact_invalidate_priority_buddy x t) = buddies t" for x t
      by (simp add: purple_contact_invalidate_priority_buddy_def)
    then show ?thesis
      by (simp add: buddy_in_def s_def [symmetric] hkey_def buddies_replace_def g same Let_def)
  qed
  then show ?thesis
    using named by (simp add: purple_find_buddy_in_group_def announced_def emit_def ui_eq)
qed

lemma add_buddy_beside_ok:
  assumes ok: "blist_ok env st K" and b: "buddy_at st b" and n: "buddy_at st n" "node_parent st n = c" "c \<noteq> 0" "n \<noteq> b"
  shows "\<exists>st'. purple_blist_add_buddy env gp cp b c' g n st = Some st' \<and> blist_ok env st' (buddy_moved st b c n K) \<and>
    (node_account st b \<noteq> 0 \<longrightarrow> node_name st b \<noteq> '''' \<longrightarrow>
      purple_find_buddy_in_group env st' (node_account st b) (node_name st b) (node_parent st c) = b)"
proof -
  have n': "node_parent st n \<noteq> 0" using n by simp
  note place = buddy_place [OF ok n(1) n', unfolded n(2)]
  have n0: "n \<noteq> 0" "b \<noteq> 0"
    using n(1) b tree_okD(1) [OF blist_okD(2) [OF ok]] by (cases "n = 0", simp, simp, cases "b = 0", simp_all)
  have "purple_blist_add_buddy env gp cp b c' g n st =
      Some (announced env b (buddy_in env b c n (leave_if env b (node_parent st c) st)))"
    by (rule add_buddy_eq [OF _ _ _ _ is_buddy_after [OF ok b]])
      (use n n0 b in \<open>simp_all add: buddy_type target_contact_def\<close>)
  moreover have "K c \<noteq> [b]" "c \<noteq> b" using place(1,2) n(4) b by auto
  ultimately show ?thesis
    using announced_ok [OF buddy_put_ok [OF ok b place(2,3) _ n(4)]] place(1,2) n b
      added_found [OF ok b _ n(4), of c "node_parent st c"] by auto
qed

lemma add_buddy_contact_ok:
  assumes ok: "blist_ok env st K" and b: "buddy_at st b" and c: "contact_at st c" "node_parent st c \<noteq> 0"
    and first: "K c = [] \<or> hd (K c) \<noteq> b"
  shows "\<exists>st'. purple_blist_add_buddy env gp cp b c g 0 st = Some st' \<and> blist_ok env st' (buddy_moved st b c 0 K) \<and>
    (node_account st b \<noteq> 0 \<longrightarrow> node_name st b \<noteq> '''' \<longrightarrow>
      purple_find_buddy_in_group env st' (node_account st b) (node_name st b) (node_parent st c) = b)"
proof -
  have c0: "c \<noteq> 0" "b \<noteq> 0"
    using c(1) b tree_okD(1) [OF blist_okD(2) [OF ok]] by (cases "c = 0", simp, simp, cases "b = 0", simp_all)
  have "node_child st c \<noteq> b"
    using first forest_first [OF blist_okD(1) [OF ok], of c] c0 by auto
  then have "purple_blist_add_buddy env gp cp b c g 0 st =
      Some (announced env b (buddy_in env b c 0 (leave_if env b (node_parent st c) st)))"
    by (intro add_buddy_eq [OF _ _ _ _ is_buddy_after [OF ok b]])
      (use c0 b in \<open>simp_all add: buddy_type target_contact_def\<close>)
  moreover have "K c \<noteq> [b]" "c \<noteq> b" using first c(1) b by auto
  ultimately show ?thesis
    using announced_ok [OF buddy_put_ok [OF ok b c, of 0]] c0 c(1) b
      added_found [OF ok b, of c 0 "node_parent st c"] by auto
qed

text \<open>A new contact at the end of a group.\<close>

lemma ui_siblings_0: "ui_siblings env p 0 st = Some st"
  by (simp add: ui_siblings_def for_siblings.simps [of _ 0])

lemma add_contact_new_ok:
  assumes ok: "blist_ok env st K" and c: "contact_at st c" "node_parent st c = 0" "K c = []" and g: "g \<in> set (K 0)"
    and l: "l = (if K g = [] then 0 else last (K g))"
  shows "\<exists>st'. purple_blist_add_contact env gp c g l st = Some st' \<and> blist_ok env st' (K(g := K g @ [c])) \<and>
    ntype st' = ntype st \<and> node_parent st' = (node_parent st)(c := g) \<and>
    node_account st' = node_account st \<and> node_name st' = node_name st"
proof -
  note T = tree_okD [OF blist_okD(2) [OF ok]]
  have c0: "c \<noteq> 0" using c(1) T(1) by (cases "c = 0") simp_all
  have g0: "g \<noteq> 0" "g \<noteq> c" using in_tree [OF ok g] T(2) [OF g] c(1) by auto
  have l': "l = 0 \<or> l \<in> set (K g)" by (simp add: l)
  have ltype: "is_contact st l \<or> is_chat st l \<longleftrightarrow> l \<noteq> 0" "l \<noteq> 0 \<Longrightarrow> node_parent st l = g" "c \<noteq> l"
  proof -
    have "contact_at st l \<or> chat_at st l" if "l \<in> set (K g)"
      using T(4) [OF that g0(1)] T(2) [OF g] by auto
    then show "is_contact st l \<or> is_chat st l \<longleftrightarrow> l \<noteq> 0"
      using l' by (auto simp: is_contact_def is_chat_def purple_blist_node_get_type_def)
    show "l \<noteq> 0 \<Longrightarrow> node_parent st l = g" using l' in_tree [OF ok] by blast
    show "c \<noteq> l" using l' c0 parentless(1) [OF ok _ _ c(2), of g] c(1) by auto
  qed
  define s where "s = count_contact g c 1 (link_at g l c st)"
  have ok': "blist_ok env s (K(g := place l c (K g)))"
    unfolding s_def by (rule contact_join_ok [OF ok c g l'])
  have pl: "place l c (K g) = K g @ [c]"
    unfolding l using forestD(2,3) [OF blist_okD(1) [OF ok], of g] by (rule place_last)
  have child: "node_child s c = 0"
    using child_iff [OF blist_okD(1) [OF ok'] c0] c(3) g0(2) by simp
  obtain pv nx ch where eq: "link_at g l c st = st\<lparr>node_prev := pv, node_next := nx, node_child := ch,
      node_parent := (node_parent st)(c := g)\<rparr>"
    using links_place [OF blist_okD(1) [OF ok] c0 _ g0(1) l'] parentless(1) [OF ok _ _ c(2)] c(1) by auto
  have fields: "ntype s = ntype st" "node_parent s = (node_parent st)(c := g)"
    "node_account s = node_account st" "node_name s = node_name st"
    by (simp_all add: s_def count_contact_eq [OF g0(2)] eq)
  have "(if is_contact st l \<or> is_chat st l then link_after l c st else link_first g c st) = link_at g l c st"
    using ltype(1) by (simp add: link_at_def)
  then have "link_contact env c g l st = Some s"
    using child by (simp add: link_contact_def s_def [symmetric] ui_siblings_0 Let_def)
  then have "purple_blist_add_contact env gp c g l st = Some s"
  proof -
    have "is_contact st c" using c(1) c0 by (simp add: is_contact_def purple_blist_node_get_type_def)
    then show ?thesis
      using \<open>link_contact env c g l st = Some s\<close> c(2) g0(1) ltype
      by (cases "l = 0") (simp_all add: purple_blist_add_contact_def)
  qed
  then show ?thesis using ok' pl fields by simp
qed

lemma target_new:
  assumes ok: "blist_ok env st K" and g: "usable env st K g" and cp: "ntype st cp = None" "cp \<noteq> 0"
  shows "\<exists>s. target_contact env gp cp 0 g 0 st = Some (cp, g, s) \<and>
    blist_ok env s ((listed g K)(g := listed g K g @ [cp])) \<and>
    ntype s = (ntype st)(cp \<mapsto> PURPLE_BLIST_CONTACT_NODE) \<and> node_parent s = (node_parent st)(cp := g) \<and>
    node_account s = (node_account st)(cp := 0) \<and> node_name s = (node_name st)(cp := '''')"
proof -
  obtain s1 where s1: "ensure_listed env g st = Some s1" "same_nodes st s1" "blist_ok env s1 (listed g K)"
    using ensure_listed_ok [OF ok g] by blast
  define s2 where "s2 = purple_contact_new env cp s1"
  have g1: "g \<in> set (listed g K 0)" by (simp add: set_listed)
  have g0: "g \<noteq> 0" using in_tree [OF s1(3) g1] by simp
  have cp1: "ntype s1 cp = None" using cp(1) same_nodesD(1) [OF s1(2)] by simp
  have ok2: "blist_ok env s2 (listed g K)" unfolding s2_def by (rule contact_new_ok [OF s1(3) cp1 cp(2)])
  have f2: "ntype s2 = (ntype st)(cp \<mapsto> PURPLE_BLIST_CONTACT_NODE)" "node_parent s2 = (node_parent st)(cp := 0)"
    "node_account s2 = (node_account st)(cp := 0)" "node_name s2 = (node_name st)(cp := '''')"
    using same_nodesD(1,2,4,5) [OF s1(2)] by (simp_all add: s2_def purple_contact_new_def new_node_def ui_eq)
  define l where "l = (if listed g K g = [] then 0 else last (listed g K g))"
  have "purple_blist_get_last_child s2 g = Some l"
    using last_sibling [OF blist_okD(1) [OF ok2], of g] g0 by (simp add: purple_blist_get_last_child_def l_def)
  moreover have "listed g K cp = []"
    by (rule childless [OF s1(3) cp(2)]) (use cp1 in auto)
  then obtain s3 where s3: "purple_blist_add_contact env gp cp g l s2 = Some s3"
    "blist_ok env s3 ((listed g K)(g := listed g K g @ [cp]))" "ntype s3 = ntype s2" "node_parent s3 = (node_parent s2)(cp := g)"
    "node_account s3 = node_account s2" "node_name s3 = node_name s2"
    using add_contact_new_ok [OF ok2 _ _ _ g1 l_def, of cp gp] f2 by auto
  moreover have "\<not> is_buddy st 0" by (simp add: buddy_type)
  ultimately show ?thesis
    using s1(1) g0 f2 by (simp add: target_contact_def s2_def [symmetric])
qed

lemma add_buddy_new_ok:
  assumes ok: "blist_ok env st K" and b: "buddy_at st b" and g: "usable env st K g"
    and cp: "ntype st cp = None" "cp \<noteq> 0"
  shows "\<exists>st'. purple_blist_add_buddy env gp cp b 0 g 0 st = Some st' \<and>
    blist_ok env st' (buddy_moved st b cp 0 ((listed g K)(g := listed g K g @ [cp]))) \<and>
    (node_account st b \<noteq> 0 \<longrightarrow> node_name st b \<noteq> '''' \<longrightarrow>
      purple_find_buddy_in_group env st' (node_account st b) (node_name st b) g = b)"
proof -
  obtain s where s: "target_contact env gp cp 0 g 0 st = Some (cp, g, s)"
    "blist_ok env s ((listed g K)(g := listed g K g @ [cp]))" (is "blist_ok env s ?K")
    "ntype s = (ntype st)(cp \<mapsto> PURPLE_BLIST_CONTACT_NODE)" "node_parent s = (node_parent st)(cp := g)"
    "node_account s = (node_account st)(cp := 0)" "node_name s = (node_name st)(cp := '''')"
    using target_new [OF ok g cp] by blast
  have b': "b \<noteq> 0" "b \<noteq> cp" "buddy_at s b"
  proof -
    show "b \<noteq> 0" using b tree_okD(1) [OF blist_okD(2) [OF ok]] by (cases "b = 0") simp_all
    show "b \<noteq> cp" using b cp by auto
    then show "buddy_at s b" using b by (simp add: s(3))
  qed
  have eq: "purple_blist_add_buddy env gp cp b 0 g 0 st = Some (announced env b (buddy_in env b cp 0 (leave_if env b g s)))"
    by (rule add_buddy_eq [OF _ _ _ s(1) is_buddy_after [OF s(2) b'(3)]]) (use b b' in \<open>simp_all add: buddy_type\<close>)
  have g1: "g \<in> set (?K 0)" "g \<noteq> 0"
  proof -
    have "g \<in> set (listed g K 0)" by (simp add: set_listed)
    then show "g \<in> set (?K 0)" by (cases "g = 0") simp_all
    then show "g \<noteq> 0" using in_tree [OF s(2)] by blast
  qed
  have Kcp: "?K cp = []"
  proof -
    have "g \<noteq> cp" using tree_okD(2) [OF blist_okD(2) [OF s(2)] g1(1)] s(3) by auto
    moreover have "K cp = []" by (rule childless [OF ok cp(2)]) (use cp(1) in auto)
    ultimately show ?thesis using cp(2) by (simp add: listed_def)
  qed
  have "blist_ok env (buddy_in env b cp 0 (leave_if env b (node_parent s cp) s)) (buddy_moved s b cp 0 ?K)"
    by (rule buddy_put_ok [OF s(2) b'(3)]) (use b' g1 Kcp in \<open>simp_all add: s(3,4)\<close>)
  moreover have "buddy_moved s b cp 0 ?K = buddy_moved st b cp 0 ?K"
  proof -
    have "node_parent s b = node_parent st b" using b' by (simp add: s(4))
    moreover have "node_parent s (node_parent st b) = node_parent st (node_parent st b)" if "node_parent st b \<noteq> 0"
      using buddy_place(2) [OF ok b that] cp(1) by (auto simp: s(4))
    ultimately show ?thesis by (simp add: buddy_moved_def without_buddy_def Let_def)
  qed
  moreover have "node_account st b \<noteq> 0 \<longrightarrow> node_name st b \<noteq> '''' \<longrightarrow> purple_find_buddy_in_group env
      (announced env b (buddy_in env b cp 0 (leave_if env b g s))) (node_account st b) (node_name st b) g = b"
    using added_found [OF s(2) b'(3), of cp 0 g] b' by (simp add: s(4-6))
  ultimately show ?thesis using eq announced_ok by (simp add: s(4))
qed

end
