(* ===== verification/Purple_Blist_Accounts.thy ===== *)
theory Purple_Blist_Accounts
  imports Purple_Blist_Move
begin

section \<open>The buddy list: whole contacts, statuses and accounts\<close>

subsection \<open>Removing a contact with its buddies\<close>

lemma buddy_gone_fields:
  assumes ok: "blist_ok env st K" and b: "buddy_at st b" "node_parent st b \<noteq> 0"
  shows "node_parent (buddy_gone env b st) = node_parent st" "ntype (buddy_gone env b st) = (ntype st)(b := None)"
proof -
  note self = forest_no_self [OF blist_okD(1) [OF ok] buddy_place(1) [OF ok b]]
  show "node_parent (buddy_gone env b st) = node_parent st" "ntype (buddy_gone env b st) = (ntype st)(b := None)"
    by (simp_all add: buddy_gone_def drop_priority_eq [OF b(2)] Let_def unlink_child_eq [OF self(2,1)] blist_eqs)
qed

lemma remove_buddy_fields:
  assumes ok: "blist_ok env st K" and b: "buddy_at st b" "node_parent st b = c" "c \<noteq> 0" and more: "K c \<noteq> [b]"
  shows "blist_ok env (purple_blist_remove_buddy env b st) (K(c := remove1 b (K c)))"
    and "node_parent (purple_blist_remove_buddy env b st) = node_parent st"
    and "ntype (purple_blist_remove_buddy env b st) = (ntype st)(b := None)"
proof -
  have p: "node_parent st b \<noteq> 0" using b by simp
  note place = buddy_place(1) [OF ok b(1) p, unfolded b(2)]
  have rem: "remove1 b (K c) \<noteq> []" using more place by (cases "K c") (auto split: if_splits)
  have b0: "b \<noteq> 0" using in_tree [OF ok place] by simp
  note G = buddy_gone_ok [OF ok b(1) p, unfolded b(2)]
  have "node_child (buddy_gone env b st) c \<noteq> 0"
    using child_iff [OF blist_okD(1) [OF G] b(3)] rem by simp
  then have eq: "purple_blist_remove_buddy env b st = buddy_gone env b st"
    using remove_buddy_eq [OF b0 p] by (simp add: b(2))
  show "blist_ok env (purple_blist_remove_buddy env b st) (K(c := remove1 b (K c)))"
    "node_parent (purple_blist_remove_buddy env b st) = node_parent st"
    "ntype (purple_blist_remove_buddy env b st) = (ntype st)(b := None)"
    using G buddy_gone_fields [OF ok b(1) p] by (simp_all add: eq)
qed

lemma children_of_contact:
  assumes ok: "blist_ok env st K" and c: "contact_at st c" and b: "b \<in> set (K c)"
  shows "buddy_at st b" "node_parent st b = c" "c \<noteq> 0" "b \<noteq> 0"
proof -
  note T = tree_okD [OF blist_okD(2) [OF ok]]
  show c0: "c \<noteq> 0" using c T(1) by (cases "c = 0") simp_all
  show "node_parent st b = c" "b \<noteq> 0" using in_tree [OF ok b] by simp_all
  show "buddy_at st b" using T(4) [OF b c0] T(2) [of c] c by auto
qed

lemma remove_buddies_loop_ok:
  assumes "blist_ok env st K" and "contact_at st c" and "K c = us @ [x]"
  shows "\<exists>st'. remove_buddies_loop env c st = Some st' \<and> blist_ok env st' (K(c := [x])) \<and>
    contact_at st' c \<and> node_parent st' c = node_parent st c"
  using assms
proof (induction us arbitrary: st K)
  case Nil
  have c0: "c \<noteq> 0" using children_of_contact(3) [OF Nil.prems(1,2)] Nil.prems(3) by simp
  note p = forest_path [OF blist_okD(1) [OF Nil.prems(1)], of c]
  have "node_child st c = x" "node_next st x = 0" using p Nil.prems(3) c0 by auto
  then have "remove_buddies_loop env c st = Some st" by (subst remove_buddies_loop.simps) simp
  moreover have "K(c := [x]) = K" using Nil.prems(3) by auto
  ultimately show ?case using Nil.prems(1,2) by simp
next
  case (Cons b us)
  have b: "b \<in> set (K c)" using Cons.prems(3) by simp
  note C = children_of_contact [OF Cons.prems(1,2) b]
  have dist: "distinct (K c)" using forestD(2) [OF blist_okD(1) [OF Cons.prems(1)]] .
  note p = forest_path [OF blist_okD(1) [OF Cons.prems(1)], of c]
  have hd: "node_child st c = b" using p Cons.prems(3) C(3) by simp
  have nx: "node_next st b \<noteq> 0" using p Cons.prems(3) C(3) by (cases us) auto
  define st1 where "st1 = purple_blist_remove_buddy env b st"
  have "K c \<noteq> [b]" using Cons.prems(3) by (cases us) auto
  note R = remove_buddy_fields [OF Cons.prems(1) C(1,2,3) this, folded st1_def]
  have rem: "remove1 b (K c) = us @ [x]" using Cons.prems(3) by simp
  have cb: "c \<noteq> b" using C(1) Cons.prems(2) by auto
  have "contact_at st1 c" using Cons.prems(2) cb by (simp add: R(3))
  moreover have "(K(c := remove1 b (K c))) c = us @ [x]" using rem by simp
  ultimately obtain st' where st': "remove_buddies_loop env c st1 = Some st'" "blist_ok env st' (K(c := [x]))"
    "contact_at st' c" "node_parent st' c = node_parent st c"
    using Cons.IH [OF R(1)] unfolding R(2) fun_upd_upd by blast
  have "remove_buddies_loop env c st = remove_buddies_loop env c st1"
    using hd nx by (subst remove_buddies_loop.simps) (simp add: st1_def)
  then show ?case using st' by (simp del: fun_upd_apply)
qed

lemma remove_contact_ok:
  assumes ok: "blist_ok env st K" and c: "contact_at st c" "node_parent st c \<noteq> 0"
  shows "\<exists>st'. purple_blist_remove_contact env c st = Some st' \<and>
    blist_ok env st' (K(c := [], node_parent st c := remove1 c (K (node_parent st c))))"
proof -
  note place = contact_place [OF ok c]
  have c0: "c \<noteq> 0" "node_parent st c \<noteq> c" using in_tree [OF ok place(1)] place(3) c(1) by auto
  note iff = child_iff [OF blist_okD(1) [OF ok] c0(1)]
  show ?thesis
  proof (cases "K c" rule: rev_cases)
    case Nil
    then have "K(c := []) = K" by auto
    then show ?thesis
      using remove_empty_contact_ok [OF ok c Nil] Nil iff c0
      by (simp add: purple_blist_remove_contact_def)
  next
    case (snoc us x)
    obtain s where s: "remove_buddies_loop env c st = Some s" "blist_ok env s (K(c := [x]))" (is "blist_ok env s ?K")
      "contact_at s c" "node_parent s c = node_parent st c"
      using remove_buddies_loop_ok [OF ok c(1) snoc] by blast
    have x: "x \<in> set (?K c)" by simp
    note X = children_of_contact [OF s(2,3) x]
    have child: "node_child s c = x" using forest_path [OF blist_okD(1) [OF s(2)], of c] c0 by simp
    have "blist_ok env (purple_blist_remove_buddy env x s) (without_buddy s x ?K)"
      by (rule remove_buddy_ok [OF s(2) X(1)]) (use X in simp)
    moreover have "without_buddy s x ?K = K(c := [], node_parent st c := remove1 c (K (node_parent st c)))"
      using c0 by (simp add: without_buddy_def X(2) s(4) Let_def)
    ultimately show ?thesis
      using s(1) child iff snoc c0 by (simp add: purple_blist_remove_contact_def)
  qed
qed

subsection \<open>A buddy signs on or off\<close>

text \<open>The counters are those of the old status until the routine has run.\<close>

lemma blist_ok_counts:
  assumes ok: "blist_ok env st K" 
    and eqs: "root st' = root st" "node_child st' = node_child st" "node_next st' = node_next st"
    "node_prev st' = node_prev st" "node_parent st' = node_parent st" "ntype st' = ntype st"
    "node_name st' = node_name st" "node_account st' = node_account st" "groups_cache st' = groups_cache st"
    "priority st' = priority st" "totalsize st' = totalsize st" "buddies st' = buddies st" "buddies_cache st' = buddies_cache st"
    and prio: "\<And>c. priority_valid st' c \<Longrightarrow> priority_valid st c"
    and counts: "levels (contact_at st) (group_at st) K (member_current st') (currentsize st')"
      "levels (contact_at st) (group_at st) K (member_online st') (online st')"
  shows "blist_ok env st' K"
proof -
  have fs: "first st' = first st" by (simp add: first_def eqs fun_eq_iff)
  have "links st' K \<and> tree_ok st' K \<and> table_ok env st' \<and> groups_ok env st' K"
    using ok unfolding blist_ok_def tree_ok_def table_ok_def entries_ok_def groups_ok_def
      hkey_def eqs fs by (elim conjE) (intro conjI; assumption)
  moreover have "counts_ok st' K"
    using counts counts_okD(3,4) [OF blist_okD(3) [OF ok]] unfolding counts_ok_def eqs by blast
  moreover have "priority_ok st' K"
    using blist_okD(6) [OF ok] prio unfolding priority_ok_def eqs by blast
  ultimately show ?thesis by (simp add: blist_ok_def)
qed

lemma notin_empty: "x \<notin> {}"
  by simp

lemma update_buddy_status_ok:
  assumes ok: "blist_ok env (st\<lparr>presence_online := (presence_online st)(b := old)\<rparr>) K"
    and b: "buddy_at st b" "node_parent st b \<noteq> 0" and a: "connected st (node_account st b)"
  shows "blist_ok env (purple_blist_update_buddy_status env b old st) K"
proof -
  define st0 where "st0 = st\<lparr>presence_online := (presence_online st)(b := old)\<rparr>"
  define c where "c = node_parent st b"
  define g where "g = node_parent st c"
  note ok0 = ok [folded st0_def]
  have f0: "node_parent st0 = node_parent st" "ntype st0 = ntype st" by (simp_all add: st0_def)
  have b0: "buddy_at st0 b" "node_parent st0 b \<noteq> 0" using b by (simp_all add: f0)
  note place = buddy_place [OF ok0 b0, unfolded f0, folded c_def g_def]
  note cplace = contact_place [OF ok0, unfolded f0, OF place(2), folded g_def, OF place(3)]
  have bn: "b \<noteq> 0" using in_tree [OF ok0 place(1)] by simp
  note l = blist_okD(1) [OF ok0]
  note C = counts_okD [OF blist_okD(3) [OF ok0]]
  have dis: "\<And>q. c \<in> set (K q) \<Longrightarrow> q = g" "\<And>x. contact_at st x \<Longrightarrow> \<not> group_at st x" "\<And>q. b \<in> set (K q) \<Longrightarrow> q = c"
    using forest_disjoint [OF l cplace(1)] forest_disjoint [OF l place(1)] by auto
  let ?P = "member_online st0" and ?P' = "member_online st"
  have mems: "?P b = old" "?P' b = presence_online st b" "mix {b} ?P ?P' = ?P'" "mix {} ?P ?P' = ?P"
    "member_current st = member_current st0"
    using a b bn by (auto simp: member_online_def member_current_def PURPLE_BUDDY_IS_ONLINE_def st0_def mix_def fun_eq_iff)
  have L0: "levels (contact_at st) (group_at st) K (mix {} ?P ?P') (online st)"
    using C(2) unfolding f0 mems(4) by (simp add: st0_def)
  have L: "old \<Longrightarrow> \<not> presence_online st b \<Longrightarrow> levels (contact_at st) (group_at st) K ?P' (leaves c g (online st))"
    "\<not> old \<Longrightarrow> presence_online st b \<Longrightarrow> levels (contact_at st) (group_at st) K ?P' (joins c g (online st))"
    using levels_mix [OF L0 place(2) cplace(3,1) forestD(2) [OF l] dis(1,2) place(1) forestD(2) [OF l] dis(3) notin_empty]
    unfolding mems by blast+
  define f where "f = (if presence_online st b \<and> \<not> old then joins c g (online st)
      else if \<not> presence_online st b \<and> old then leaves c g (online st) else online st)"
  have lev: "levels (contact_at st) (group_at st) K ?P' f"
  proof (cases "presence_online st b = old")
    case True
    then have "st0 = st" by (simp add: st0_def fun_upd_idem)
    then show ?thesis using True C(2) by (auto simp: f_def)
  next
    case False
    then show ?thesis using L by (auto simp: f_def st0_def)
  qed
  obtain ev v where eq: "purple_blist_update_buddy_status env b old st =
      st\<lparr>online := f, priority_valid := v, blist_events := ev\<rparr>" and v: "\<And>x. v x \<Longrightarrow> priority_valid st x"
  proof
    show "purple_blist_update_buddy_status env b old st = st\<lparr>online := f, priority_valid := (priority_valid st)(c := False),
        blist_events := blist_events (purple_blist_update_buddy_status env b old st)\<rparr>"
      using bn b by (simp add: purple_blist_update_buddy_status_def online_joins_eq online_leaves_eq emit_def ui_eq f_def
          purple_contact_invalidate_priority_buddy_def c_def g_def Let_def)
    show "\<And>x. ((priority_valid st)(c := False)) x \<Longrightarrow> priority_valid st x" by (simp split: if_splits)
  qed
  have same: "member_online (st\<lparr>online := f, priority_valid := v, blist_events := ev\<rparr>) = member_online st"
    "member_current (st\<lparr>online := f, priority_valid := v, blist_events := ev\<rparr>) = member_current st"
    by (simp_all add: fun_eq_iff member_online_def member_current_def PURPLE_BUDDY_IS_ONLINE_def)
  show ?thesis
    by (rule blist_ok_counts [OF ok0]) (use v lev C(1) mems(5) in \<open>simp_all add: eq same f0\<close>, simp_all add: st0_def)
qed

subsection \<open>Accounts go online and offline\<close>

text \<open>A loop over siblings whose body accounts for the leaves below each of them.\<close>

lemma for_siblings_leaves:
  assumes "path nx n xs" and "Inv L s" and "distinct (L @ concat (map leaf xs))"
    and next_inv: "\<And>L s. Inv L s \<Longrightarrow> node_next (snd s) = nx"
    and step: "\<And>L x s. x \<in> set xs \<Longrightarrow> Inv L s \<Longrightarrow> distinct (L @ leaf x) \<Longrightarrow> \<exists>s'. body x s = Some s' \<and> Inv (L @ leaf x) s'"
  shows "\<exists>s'. for_siblings body n s = Some s' \<and> Inv (L @ concat (map leaf xs)) s'"
  using assms(1-3,5)
proof (induction xs arbitrary: n L s)
  case Nil
  then show ?case by (simp add: for_siblings.simps [of _ 0])
next
  case (Cons x xs)
  have n: "n = x" "x \<noteq> 0" "path nx (nx x) xs" using Cons.prems(1) by auto
  have "distinct (L @ leaf x)" using Cons.prems(3) by auto
  then obtain s1 where s1: "body x s = Some s1" "Inv (L @ leaf x) s1"
    using Cons.prems(4) [OF _ Cons.prems(2)] by fastforce
  have "\<exists>s'. for_siblings body (nx x) s1 = Some s' \<and> Inv ((L @ leaf x) @ concat (map leaf xs)) s'"
    by (rule Cons.IH [OF n(3) s1(2)]) (use Cons.prems(3,4) in auto)
  moreover have "for_siblings body n s = for_siblings body (nx x) s1"
    using n s1 next_inv [OF s1(2)] by (subst for_siblings.simps) simp
  ultimately show ?case by simp
qed

definition counters_only :: "blist \<Rightarrow> blist \<Rightarrow> bool" where
  "counters_only st s \<longleftrightarrow>
     root s = root st \<and> node_child s = node_child st \<and> node_next s = node_next st \<and> node_prev s = node_prev st \<and>
     node_parent s = node_parent st \<and> ntype s = ntype st \<and> node_name s = node_name st \<and>
     node_account s = node_account st \<and> groups_cache s = groups_cache st \<and> priority s = priority st \<and>
     totalsize s = totalsize st \<and> buddies s = buddies st \<and> buddies_cache s = buddies_cache st \<and>
     connected s = connected st \<and> presence_online s = presence_online st \<and>
     (\<forall>c. priority_valid s c \<longrightarrow> priority_valid st c)"

lemma counters_onlyD:
  assumes "counters_only st s"
  shows "root s = root st" "node_child s = node_child st" "node_next s = node_next st" "node_prev s = node_prev st"
    "node_parent s = node_parent st" "ntype s = ntype st" "node_name s = node_name st" "node_account s = node_account st"
    "groups_cache s = groups_cache st" "priority s = priority st" "totalsize s = totalsize st" "buddies s = buddies st"
    "buddies_cache s = buddies_cache st" "connected s = connected st" "presence_online s = presence_online st"
    "priority_valid s c \<Longrightarrow> priority_valid st c"
  using assms by (simp_all add: counters_only_def)

text \<open>Half way from the counters of \<open>st\<close> to those of the target \<open>st'\<close>: the nodes in \<open>L\<close> are done.\<close>

definition halfway :: "blist \<Rightarrow> (ptr \<Rightarrow> ptr list) \<Rightarrow> blist \<Rightarrow> ptr list \<Rightarrow> blist \<Rightarrow> bool" where
  "halfway st K st' L s \<longleftrightarrow> counters_only st s \<and>
     levels (contact_at st) (group_at st) K (mix (set L) (member_current st) (member_current st')) (currentsize s) \<and>
     levels (contact_at st) (group_at st) K (mix (set L) (member_online st) (member_online st')) (online s)"

definition switch :: "(ptr \<Rightarrow> bool) \<Rightarrow> (ptr \<Rightarrow> bool) \<Rightarrow> ptr \<Rightarrow> ptr \<Rightarrow> ptr \<Rightarrow> (ptr \<Rightarrow> int) \<Rightarrow> ptr \<Rightarrow> int" where
  "switch P P' b c g f = (if P b = P' b then f else if P b then leaves c g f else joins c g f)"

lemma halfway_buddy:
  assumes ok: "blist_ok env st K" and h: "halfway st K st' L s" and c: "contact_at st c" and b: "b \<in> set (K c)" "b \<notin> set L"
    and g: "g = node_parent st c"
    and s': "counters_only st s'" "currentsize s' = switch (member_current st) (member_current st') b c g (currentsize s)"
      "online s' = switch (member_online st) (member_online st') b c g (online s)"
  shows "halfway st K st' (L @ [b]) s'"
proof -
  note B = children_of_contact [OF ok c b(1)]
  note place = buddy_place [OF ok B(1), unfolded B(2), OF B(3)]
  note cplace = contact_place [OF ok c place(3), folded g]
  note l = blist_okD(1) [OF ok]
  have dis: "\<And>q. c \<in> set (K q) \<Longrightarrow> q = g" "\<And>x. contact_at st x \<Longrightarrow> \<not> group_at st x" "\<And>q. b \<in> set (K q) \<Longrightarrow> q = c"
    using forest_disjoint [OF l cplace(1)] forest_disjoint [OF l b(1)] by auto
  have "levels (contact_at st) (group_at st) K (mix (set (L @ [b])) P P') (switch P P' b c g f)"
    if L: "levels (contact_at st) (group_at st) K (mix (set L) P P') f" for P P' f
  proof -
    have S: "set (L @ [b]) = insert b (set L)" by simp
    note M = levels_mix [OF L c cplace(3,1) forestD(2) [OF l] dis(1,2) b(1) forestD(2) [OF l] dis(3) b(2)]
    show ?thesis unfolding S switch_def using M mix_same [of P b P' "set L"] L by auto
  qed
  then show ?thesis using h s' by (simp add: halfway_def)
qed

lemma halfway_chat:
  assumes ok: "blist_ok env st K" and h: "halfway st K st' L s" and g: "group_at st g"
    and x: "x \<in> set (K g)" "\<not> contact_at st x" "x \<notin> set L"
    and s': "counters_only st s'"
      "currentsize s' = (currentsize s)(g := currentsize s g - of_bool (member_current st x) + of_bool (member_current st' x))"
      "online s' = (online s)(g := online s g - of_bool (member_online st x) + of_bool (member_online st' x))"
  shows "halfway st K st' (L @ [x]) s'"
proof -
  note l = blist_okD(1) [OF ok]
  have dis: "\<And>q. x \<in> set (K q) \<Longrightarrow> q = g" "\<And>x. contact_at st x \<Longrightarrow> \<not> group_at st x"
    using forest_disjoint [OF l x(1)] by auto
  have "levels (contact_at st) (group_at st) K (mix (set (L @ [x])) P P') (f(g := f g - of_bool (P x) + of_bool (P' x)))"
    if L: "levels (contact_at st) (group_at st) K (mix (set L) P P') f" for P P' f
    using levels_mix_member [OF L g dis(2) x(1) forestD(2) [OF l] dis(1) x(2,3)] by simp
  then show ?thesis using h s' by (simp add: halfway_def)
qed

text \<open>The buddies and chats below a node of a group, and below a group, each of them once.\<close>

definition below :: "blist \<Rightarrow> (ptr \<Rightarrow> ptr list) \<Rightarrow> ptr \<Rightarrow> ptr list" where
  "below st K x = (if contact_at st x then K x else [x])"

definition members :: "blist \<Rightarrow> (ptr \<Rightarrow> ptr list) \<Rightarrow> ptr \<Rightarrow> ptr list" where
  "members st K g = concat (map (below st K) (K g))"

lemma distinct_concat_map:
  "distinct xs \<Longrightarrow> (\<And>x. x \<in> set xs \<Longrightarrow> distinct (f x)) \<Longrightarrow>
   (\<And>x y z. x \<in> set xs \<Longrightarrow> y \<in> set xs \<Longrightarrow> z \<in> set (f x) \<Longrightarrow> z \<in> set (f y) \<Longrightarrow> x = y) \<Longrightarrow>
   distinct (concat (map f xs))"
proof (induction xs)
  case (Cons x xs)
  have "distinct (concat (map f xs))"
    by (rule Cons.IH) (use Cons.prems in auto)
  moreover have "set (f x) \<inter> set (concat (map f xs)) = {}"
    using Cons.prems(1) Cons.prems(3) [of x] by auto
  ultimately show ?case using Cons.prems(2) by simp
qed simp

lemma below_parent:
  assumes ok: "blist_ok env st K" and g: "g \<in> set (K 0)" and x: "x \<in> set (K g)" and z: "z \<in> set (below st K x)"
  shows "if contact_at st x then node_parent st z = x else z = x" and "node_parent st x = g"
  using z in_tree [OF ok, of z x] in_tree [OF ok x] by (auto simp: below_def split: if_splits)

lemma members_distinct:
  assumes ok: "blist_ok env st K" and g: "g \<in> set (K 0)"
  shows "distinct (members st K g)"
  unfolding members_def
proof (rule distinct_concat_map)
  note l = blist_okD(1) [OF ok]
  show "distinct (K g)" by (rule forestD(2) [OF l])
  show "distinct (below st K x)" for x by (simp add: below_def forestD(2) [OF l])
  have types: "\<not> contact_at st g" using tree_okD(2) [OF blist_okD(2) [OF ok] g] by simp
  fix x y z
  assume a: "x \<in> set (K g)" "y \<in> set (K g)" "z \<in> set (below st K x)" "z \<in> set (below st K y)"
  note X = below_parent [OF ok g a(1,3)] and Y = below_parent [OF ok g a(2,4)]
  show "x = y" using X Y types by (auto split: if_splits)
qed

lemma all_distinct:
  assumes ok: "blist_ok env st K"
  shows "distinct (concat (map (members st K) (K 0)))"
proof (rule distinct_concat_map)
  note l = blist_okD(1) [OF ok]
  show "distinct (K 0)" by (rule forestD(2) [OF l])
  show "distinct (members st K g)" if "g \<in> set (K 0)" for g by (rule members_distinct [OF ok that])
  fix g h z
  assume a: "g \<in> set (K 0)" "h \<in> set (K 0)" "z \<in> set (members st K g)" "z \<in> set (members st K h)"
  then obtain x y where xy: "x \<in> set (K g)" "z \<in> set (below st K x)" "y \<in> set (K h)" "z \<in> set (below st K y)"
    by (auto simp: members_def)
  note X = below_parent [OF ok a(1) xy(1,2)] and Y = below_parent [OF ok a(2) xy(3,4)]
  have "\<not> contact_at st g" "\<not> contact_at st h"
    using tree_okD(2) [OF blist_okD(2) [OF ok]] a(1,2) by auto
  then show "g = h" using X Y by (auto split: if_splits)
qed

lemma halfway_done:
  assumes ok: "blist_ok env st K" and h: "halfway st K st' (concat (map (members st K) (K 0))) s"
    and t: "t = s\<lparr>connected := cn, presence_online := po, blist_events := ev\<rparr>"
    and same: "member_current t = member_current st'" "member_online t = member_online st'"
  shows "blist_ok env t K"
proof -
  note T = tree_okD [OF blist_okD(2) [OF ok]]
  have co: "counters_only st s" using h by (simp add: halfway_def)
  note e = counters_onlyD [OF co]
  let ?L = "concat (map (members st K) (K 0))"
  have inL: "x \<in> set ?L" if "x \<in> set (K p)" "contact_at st p \<or> group_at st p \<and> \<not> contact_at st x" for p x
  proof (cases "contact_at st p")
    case True
    note B = children_of_contact [OF ok True that(1)]
    note place = buddy_place [OF ok B(1), unfolded B(2), OF B(3)]
    note cplace = contact_place [OF ok True place(3)]
    have "x \<in> set (below st K p)" using that(1) True by (simp add: below_def)
    then have "x \<in> set (members st K (node_parent st p))" using cplace(1) by (auto simp: members_def)
    then show ?thesis using cplace(2) by auto
  next
    case False
    then have p: "group_at st p" "\<not> contact_at st x" using that(2) by auto
    then have "p \<noteq> 0" using T(1) by (cases "p = 0") simp_all
    then have "p \<in> set (K 0)" using T(4) [OF that(1)] p by auto
    moreover have "x \<in> set (members st K p)" using that(1) p(2) by (auto simp: members_def below_def)
    ultimately show ?thesis by auto
  qed
  have finish: "levels (contact_at st) (group_at st) K P' f"
    if "levels (contact_at st) (group_at st) K (mix (set ?L) P P') f" for P P' f
  proof (rule levels_cong_leaves [OF that])
    fix p x
    assume a: "contact_at st p \<or> group_at st p" "x \<in> set (K p)"
    show "contact_at st x = contact_at st x \<and> (group_at st p \<and> contact_at st x \<or> P' x = mix (set ?L) P P' x)"
    proof (cases "group_at st p \<and> contact_at st x")
      case False
      then have "x \<in> set ?L" using inL [OF a(2)] a(1) by blast
      then show ?thesis by (simp add: mix_def)
    qed blast
  qed simp_all
  note hl = h [unfolded halfway_def]
  show ?thesis
  proof (rule blist_ok_counts [OF ok])
    have "levels (contact_at st) (group_at st) K (member_current st') (currentsize s)"
      by (rule finish [OF conjunct1 [OF conjunct2 [OF hl]]])
    then show "levels (contact_at st) (group_at st) K (member_current t) (currentsize t)"
      unfolding same by (simp add: t)
    have "levels (contact_at st) (group_at st) K (member_online st') (online s)"
      by (rule finish [OF conjunct2 [OF conjunct2 [OF hl]]])
    then show "levels (contact_at st) (group_at st) K (member_online t) (online t)"
      unfolding same by (simp add: t)
    show "priority_valid t c \<Longrightarrow> priority_valid st c" for c using e(16) by (simp add: t)
  qed (simp_all add: t e(1-15))
qed

text \<open>An account goes offline: \<open>purple_blist_remove_account\<close>.\<close>

definition offline_account :: "nat \<Rightarrow> blist \<Rightarrow> blist" where
  "offline_account a st = st\<lparr>connected := (connected st)(a := False)\<rparr>"

lemma offline_members:
  assumes "connected st a"
  shows "node_account st x = a \<Longrightarrow> member_current st x" "node_account st x = a \<Longrightarrow> \<not> member_current (offline_account a st) x"
    "node_account st x \<noteq> a \<Longrightarrow> member_current (offline_account a st) x = member_current st x"
    "node_account st x \<noteq> a \<Longrightarrow> member_online (offline_account a st) x = member_online st x"
    "node_account st x = a \<Longrightarrow> \<not> member_online (offline_account a st) x"
    "node_account st x = a \<Longrightarrow> buddy_at st x \<Longrightarrow> x \<noteq> 0 \<Longrightarrow> member_online st x = presence_online st x"
    "node_account st x = a \<Longrightarrow> \<not> buddy_at st x \<Longrightarrow> member_online st x"
  using assms by (auto simp: member_current_def member_online_def PURPLE_BUDDY_IS_ONLINE_def offline_account_def)

lemma remove_account_buddy_ok:
  assumes ok: "blist_ok env st K" and a: "connected st a" and c: "contact_at st c" and b: "b \<in> set (K c)"
    and g: "g = node_parent st c" and h: "halfway st K (offline_account a st) L (snd s)" "distinct (L @ [b])"
    and l: "\<forall>x \<in> set (snd (fst s)). node_account st x = a"
  shows "\<exists>s'. remove_account_buddy env a g c b s = Some s' \<and>
    halfway st K (offline_account a st) (L @ [b]) (snd s') \<and> (\<forall>x \<in> set (snd (fst s')). node_account st x = a)"
proof -
  obtain r ls t where s: "s = ((r, ls), t)" by (metis prod.exhaust)
  note B = children_of_contact [OF ok c b]
  have bL: "b \<notin> set L" using h(2) by simp
  have co: "counters_only st t" using h(1) by (simp add: halfway_def s)
  note e = counters_onlyD [OF co]
  have bt: "is_buddy t b" "node_account t b = node_account st b" "presence_online t b = presence_online st b"
    using B by (simp_all add: buddy_type e)
  note M = offline_members [OF a, of b]
  note step = halfway_buddy [OF ok h(1) c b bL g]
  show ?thesis
  proof (cases "node_account st b = a")
    case False
    have "halfway st K (offline_account a st) (L @ [b]) t"
      by (rule step) (use co M(3,4) [OF False] in \<open>simp_all add: switch_def s\<close>)
    then show ?thesis using False l s by (simp add: remove_account_buddy_def bt)
  next
    case True
    have "\<exists>r' v ev. remove_account_buddy env a g c b s = Some ((r', if b \<in> set ls then ls else b # ls),
        t\<lparr>currentsize := leaves c g (currentsize t), online := (if presence_online st b then leaves c g (online t) else online t),
          priority_valid := v, blist_events := ev\<rparr>) \<and> (\<forall>x. v x \<longrightarrow> priority_valid t x)"
      by (rule exI [of _ "r \<or> priority t c \<noteq> b"],
          rule exI [of _ "if priority t c = b then (priority_valid t)(c := False) else priority_valid t"],
          rule exI [of _ "blist_events t @ (if presence_online st b then [Set_last_seen b] else []) @
            (if ui_ops env Op_remove then [Ui Op_remove b] else [])"])
        (use True B in \<open>simp add: s remove_account_buddy_def bt online_leaves_eq current_leaves_eq ui_eq emit_def
          purple_contact_invalidate_priority_buddy_def Let_def\<close>)
    then obtain r' v ev where eq: "remove_account_buddy env a g c b s = Some ((r', if b \<in> set ls then ls else b # ls),
        t\<lparr>currentsize := leaves c g (currentsize t), online := (if presence_online st b then leaves c g (online t) else online t),
          priority_valid := v, blist_events := ev\<rparr>)" (is "_ = Some (_, ?t)") and v: "\<forall>x. v x \<longrightarrow> priority_valid t x"
      by blast
    have "halfway st K (offline_account a st) (L @ [b]) ?t"
    proof (rule step)
      show "counters_only st ?t" using co v by (simp add: counters_only_def)
      show "currentsize ?t = switch (member_current st) (member_current (offline_account a st)) b c g (currentsize (snd s))"
        using M(1,2) [OF True] by (simp add: switch_def s)
      show "online ?t = switch (member_online st) (member_online (offline_account a st)) b c g (online (snd s))"
        using M(5,6) [OF True] B by (simp add: switch_def s)
    qed
    then show ?thesis using eq True l s by auto
  qed
qed

lemma halfway_events:
  "halfway st K st' L s \<Longrightarrow> halfway st K st' L (ui env p x s)"
  "halfway st K st' L s \<Longrightarrow> halfway st K st' L (purple_contact_invalidate_priority_buddy c s)"
  by (auto simp: halfway_def counters_only_def ui_eq purple_contact_invalidate_priority_buddy_def)

lemma halfwayD:
  assumes "halfway st K st' L s"
  shows "node_next s = node_next st" "node_child s = node_child st" "ntype s = ntype st" "node_account s = node_account st"
    "connected s = connected st" "presence_online s = presence_online st" "root s = root st" "node_parent s = node_parent st"
  using assms by (simp_all add: halfway_def counters_only_def)

lemma concat_single: "concat (map (\<lambda>b. [b]) xs) = xs"
  by (induction xs) simp_all

lemma path_children:
  assumes "blist_ok env st K" and "p \<noteq> 0"
  shows "path (node_next st) (node_child st p) (K p)"
  using forest_path [OF blist_okD(1) [OF assms(1)], of p] assms(2) by simp

lemma group_child:
  assumes ok: "blist_ok env st K" and g: "g \<in> set (K 0)" and x: "x \<in> set (K g)"
  shows "g \<noteq> 0" "x \<noteq> 0" "node_parent st x = g" "contact_at st x \<or> chat_at st x" "group_at st g"
proof -
  note T = tree_okD [OF blist_okD(2) [OF ok]]
  show g0: "g \<noteq> 0" "x \<noteq> 0" "node_parent st x = g" using in_tree [OF ok g] in_tree [OF ok x] by simp_all
  show "group_at st g" by (rule T(2) [OF g])
  then show "contact_at st x \<or> chat_at st x" using T(4) [OF x g0(1)] by auto
qed

lemma remove_account_child_ok:
  assumes ok: "blist_ok env st K" and a: "connected st a" and g: "g \<in> set (K 0)" and x: "x \<in> set (K g)"
    and h: "halfway st K (offline_account a st) L (snd s)" "distinct (L @ below st K x)"
    and l: "\<forall>y \<in> set (fst s). node_account st y = a"
  shows "\<exists>s'. remove_account_child env a g x s = Some s' \<and>
    halfway st K (offline_account a st) (L @ below st K x) (snd s') \<and> (\<forall>y \<in> set (fst s'). node_account st y = a)"
proof -
  obtain ls t where s: "s = (ls, t)" by (metis prod.exhaust)
  note G = group_child [OF ok g x]
  note e = halfwayD [OF h(1)]
  show ?thesis
  proof (cases "contact_at st x")
    case True
    have K: "below st K x = K x" using True by (simp add: below_def)
    have gx: "g = node_parent st x" using G by simp
    let ?Inv = "\<lambda>L s. halfway st K (offline_account a st) L (snd s) \<and> (\<forall>y \<in> set (snd (fst s)). node_account st y = a)"
    have "\<exists>s'. for_siblings (remove_account_buddy env a g x) (node_child st x) ((False, ls), t) = Some s' \<and>
        ?Inv (L @ concat (map (\<lambda>b. [b]) (K x))) s'"
    proof (rule for_siblings_leaves [OF path_children [OF ok G(2)]])
      show "?Inv L ((False, ls), t)" using h(1) l s by simp
      show "distinct (L @ concat (map (\<lambda>b. [b]) (K x)))" using h(2) K by (simp add: concat_single)
      show "node_next (snd s) = node_next st" if "?Inv L s" for L s using that halfwayD(1) by blast
      show "\<exists>s'. remove_account_buddy env a g x b s = Some s' \<and> ?Inv (L @ [b]) s'"
        if "b \<in> set (K x)" "?Inv L s" "distinct (L @ [b])" for L b s
        using remove_account_buddy_ok [OF ok a True that(1) gx] that(2,3) by blast
    qed
    then obtain r ls' t' where t': "for_siblings (remove_account_buddy env a g x) (node_child st x) ((False, ls), t) = Some ((r, ls'), t')"
      "halfway st K (offline_account a st) (L @ below st K x) t'" "\<forall>y \<in> set ls'. node_account st y = a"
      by (auto simp: concat_single K)
    have "is_contact t x" using True G(2) e by (simp add: is_contact_def purple_blist_node_get_type_def s)
    then show ?thesis
      using t' e halfway_events by (simp add: remove_account_child_def s)
  next
    case False
    then have chat: "chat_at st x" using G(4) by simp
    have K: "below st K x = [x]" using False by (simp add: below_def)
    have types: "\<not> is_contact t x" "is_chat t x" "node_account t x = node_account st x"
      using chat G(2) e by (simp_all add: is_contact_def is_chat_def purple_blist_node_get_type_def s)
    note M = offline_members [OF a, of x]
    have xL: "x \<notin> set L" using h(2) K by simp
    have co: "counters_only st t" using h(1) by (simp add: halfway_def s)
    note step = halfway_chat [OF ok h(1) G(5) x False xL]
    show ?thesis
    proof (cases "node_account st x = a")
      case True
      have "halfway st K (offline_account a st) (L @ [x]) (add_online g (- 1) (add_currentsize g (- 1) t))"
        by (rule step) (use co M(1,2,5,7) [OF True] chat in
            \<open>simp_all add: counters_only_def add_online_def add_currentsize_def s\<close>)
      then show ?thesis
        using types True l halfway_events(1) by (simp add: remove_account_child_def s K)
    next
      case other: False
      have "halfway st K (offline_account a st) (L @ [x]) t"
        by (rule step) (use co M(3,4) [OF other] in \<open>simp_all add: s\<close>)
      then show ?thesis using types other l by (simp add: remove_account_child_def s K)
    qed
  qed
qed

lemma remove_account_group_ok:
  assumes ok: "blist_ok env st K" and a: "connected st a" and g: "g \<in> set (K 0)"
    and h: "halfway st K (offline_account a st) L (snd s)" "distinct (L @ members st K g)"
    and l: "\<forall>y \<in> set (fst s). node_account st y = a"
  shows "\<exists>s'. remove_account_group env a g s = Some s' \<and>
    halfway st K (offline_account a st) (L @ members st K g) (snd s') \<and> (\<forall>y \<in> set (fst s'). node_account st y = a)"
proof -
  note e = halfwayD [OF h(1)]
  have g0: "g \<noteq> 0" "group_at st g" using in_tree [OF ok g] tree_okD(2) [OF blist_okD(2) [OF ok] g] by simp_all
  then have "is_group (snd s) g" using e by (simp add: is_group_def purple_blist_node_get_type_def)
  moreover
  let ?Inv = "\<lambda>L s. halfway st K (offline_account a st) L (snd s) \<and> (\<forall>y \<in> set (fst s). node_account st y = a)"
  have "\<exists>s'. for_siblings (remove_account_child env a g) (node_child st g) s = Some s' \<and>
      ?Inv (L @ concat (map (below st K) (K g))) s'"
  proof (rule for_siblings_leaves [OF path_children [OF ok g0(1)]])
    show "?Inv L s" using h(1) l by simp
    show "distinct (L @ concat (map (below st K) (K g)))" using h(2) by (simp add: members_def)
    show "node_next (snd s) = node_next st" if "?Inv L s" for L s using that halfwayD(1) by blast
    show "\<exists>s'. remove_account_child env a g x s = Some s' \<and> ?Inv (L @ below st K x) s'"
      if "x \<in> set (K g)" "?Inv L s" "distinct (L @ below st K x)" for L x s
      using remove_account_child_ok [OF ok a g that(1)] that(2,3) by blast
  qed
  ultimately show ?thesis using e by (simp add: remove_account_group_def members_def)
qed

lemma fold_offline:
  "\<exists>ev. fold sign_off l st = st\<lparr>presence_online := (\<lambda>x. x \<notin> set l \<and> presence_online st x), blist_events := ev\<rparr>"
proof (induction l arbitrary: st)
  case Nil
  show ?case by (intro exI [of _ "blist_events st"]) simp
next
  case (Cons b l)
  have "(\<lambda>x. x \<notin> set l \<and> presence_online (sign_off b st) x) = (\<lambda>x. x \<notin> set (b # l) \<and> presence_online st x)"
    by (auto simp: fun_eq_iff sign_off_def emit_def)
  moreover obtain ev where "fold sign_off l (sign_off b st) =
      (sign_off b st)\<lparr>presence_online := (\<lambda>x. x \<notin> set l \<and> presence_online (sign_off b st) x), blist_events := ev\<rparr>"
    using Cons [of "sign_off b st"] by blast
  ultimately have "fold sign_off (b # l) st =
      st\<lparr>presence_online := (\<lambda>x. x \<notin> set (b # l) \<and> presence_online st x), blist_events := ev\<rparr>"
    by (simp only: fold_Cons o_apply) (simp add: sign_off_def emit_def)
  then show ?case by blast
qed

lemma halfway_start: "blist_ok env st K \<Longrightarrow> halfway st K st' [] st"
proof -
  have "mix {} P Q = P" for P Q :: "ptr \<Rightarrow> bool" by (simp add: mix_def fun_eq_iff)
  then show "blist_ok env st K \<Longrightarrow> ?thesis"
    using counts_okD(1,2) [OF blist_okD(3)] by (simp add: halfway_def counters_only_def)
qed

lemma remove_account_ok:
  assumes ok: "blist_ok env st K" and a: "connected st a"
  shows "\<exists>st'. purple_blist_remove_account env a st = Some st' \<and> blist_ok env (offline_account a st') K"
proof -
  let ?Inv = "\<lambda>L s. halfway st K (offline_account a st) L (snd s) \<and> (\<forall>y \<in> set (fst s). node_account st y = a)"
  have "\<exists>s'. for_siblings (remove_account_group env a) (first st 0) ([], st) = Some s' \<and>
      ?Inv ([] @ concat (map (members st K) (K 0))) s'"
  proof (rule for_siblings_leaves [OF forest_path [OF blist_okD(1) [OF ok]]])
    show "?Inv [] ([], st)" using halfway_start [OF ok] by simp
    show "distinct ([] @ concat (map (members st K) (K 0)))" using all_distinct [OF ok] by simp
    show "node_next (snd s) = node_next st" if "?Inv L s" for L s using that halfwayD(1) by blast
    show "\<exists>s'. remove_account_group env a x s = Some s' \<and> ?Inv (L @ members st K x) s'"
      if "x \<in> set (K 0)" "?Inv L s" "distinct (L @ members st K x)" for L x s
      using remove_account_group_ok [OF ok a that(1)] that(2,3) by blast
  qed
  then obtain l t where t: "for_siblings (remove_account_group env a) (root st) ([], st) = Some (l, t)"
    "halfway st K (offline_account a st) (concat (map (members st K) (K 0))) t" "\<forall>y \<in> set l. node_account st y = a"
    by (auto simp: first_def)
  note e = halfwayD [OF t(2)]
  obtain ev where ev: "fold sign_off l t =
     t\<lparr>presence_online := (\<lambda>x. x \<notin> set l \<and> presence_online t x), blist_events := ev\<rparr>" (is "_ = ?t")
    using fold_offline by blast
  have "blist_ok env (offline_account a ?t) K"
  proof (rule halfway_done [OF ok t(2)])
    show "offline_account a ?t = t\<lparr>connected := (connected t)(a := False),
        presence_online := (\<lambda>x. x \<notin> set l \<and> presence_online t x), blist_events := ev\<rparr>"
      by (simp add: offline_account_def)
    show "member_current (offline_account a ?t) = member_current (offline_account a st)"
      by (simp add: fun_eq_iff member_current_def offline_account_def e)
    show "member_online (offline_account a ?t) = member_online (offline_account a st)"
      using t(3) by (auto simp: fun_eq_iff member_online_def PURPLE_BUDDY_IS_ONLINE_def offline_account_def e)
  qed
  then show ?thesis using t(1) ev by (simp add: purple_blist_remove_account_def)
qed

text \<open>An account comes online: \<open>purple_blist_add_account\<close>; its buddies are still offline.\<close>

definition online_account :: "nat \<Rightarrow> blist \<Rightarrow> blist" where
  "online_account a st = st\<lparr>connected := (connected st)(a := True)\<rparr>"

lemma online_members:
  assumes "\<not> connected st a" and "\<forall>x. node_account st x = a \<longrightarrow> \<not> presence_online st x"
  shows "node_account st x = a \<Longrightarrow> \<not> member_current st x" "node_account st x = a \<Longrightarrow> member_current (online_account a st) x"
    "node_account st x \<noteq> a \<Longrightarrow> member_current (online_account a st) x = member_current st x"
    "node_account st x \<noteq> a \<Longrightarrow> member_online (online_account a st) x = member_online st x"
    "node_account st x = a \<Longrightarrow> \<not> member_online st x"
    "node_account st x = a \<Longrightarrow> buddy_at st x \<Longrightarrow> \<not> member_online (online_account a st) x"
    "node_account st x = a \<Longrightarrow> \<not> buddy_at st x \<Longrightarrow> member_online (online_account a st) x"
  using assms by (auto simp: member_current_def member_online_def PURPLE_BUDDY_IS_ONLINE_def online_account_def)

lemma add_account_buddy_ok:
  assumes ok: "blist_ok env st K" and a: "\<not> connected st a" "\<forall>x. node_account st x = a \<longrightarrow> \<not> presence_online st x"
    and c: "contact_at st c" and b: "b \<in> set (K c)" and g: "g = node_parent st c"
    and h: "halfway st K (online_account a st) L (snd s)" "distinct (L @ [b])"
  shows "\<exists>s'. add_account_buddy env a g c b s = Some s' \<and> halfway st K (online_account a st) (L @ [b]) (snd s')"
proof -
  obtain r t where s: "s = (r, t)" by (metis prod.exhaust)
  note B = children_of_contact [OF ok c b]
  have bL: "b \<notin> set L" using h(2) by simp
  have co: "counters_only st t" using h(1) by (simp add: halfway_def s)
  note e = counters_onlyD [OF co]
  have bt: "is_buddy t b" "node_account t b = node_account st b" using B by (simp_all add: buddy_type e)
  note M = online_members [OF a, of b]
  note step = halfway_buddy [OF ok h(1) c b bL g]
  show ?thesis
  proof (cases "node_account st b = a")
    case False
    have "halfway st K (online_account a st) (L @ [b]) t"
      by (rule step) (use co M(3,4) [OF False] in \<open>simp_all add: switch_def s\<close>)
    then show ?thesis using False s by (simp add: add_account_buddy_def bt)
  next
    case True
    have "halfway st K (online_account a st) (L @ [b]) (current_joins c g t)"
    proof (rule step)
      show "counters_only st (current_joins c g t)" using co by (simp add: counters_only_def current_joins_eq)
      show "currentsize (current_joins c g t) =
          switch (member_current st) (member_current (online_account a st)) b c g (currentsize (snd s))"
        using M(1,2) [OF True] by (simp add: switch_def s current_joins_eq)
      show "online (current_joins c g t) =
          switch (member_online st) (member_online (online_account a st)) b c g (online (snd s))"
        using M(5,6) [OF True] B by (simp add: switch_def s current_joins_eq)
    qed
    then show ?thesis using True s halfway_events(1) by (simp add: add_account_buddy_def bt)
  qed
qed

lemma add_account_child_ok:
  assumes ok: "blist_ok env st K" and a: "\<not> connected st a" "\<forall>x. node_account st x = a \<longrightarrow> \<not> presence_online st x"
    and g: "g \<in> set (K 0)" and x: "x \<in> set (K g)"
    and h: "halfway st K (online_account a st) L (snd s)" "distinct (L @ below st K x)"
  shows "\<exists>s'. add_account_child env a g x s = Some s' \<and> halfway st K (online_account a st) (L @ below st K x) (snd s')"
proof -
  obtain t where s: "s = ((), t)" by (cases s) simp
  note G = group_child [OF ok g x]
  note e = halfwayD [OF h(1)]
  show ?thesis
  proof (cases "contact_at st x")
    case True
    have K: "below st K x = K x" using True by (simp add: below_def)
    have gx: "g = node_parent st x" using G by simp
    let ?Inv = "\<lambda>L s. halfway st K (online_account a st) L (snd s)"
    have "\<exists>s'. for_siblings (add_account_buddy env a g x) (node_child st x) (False, t) = Some s' \<and>
        ?Inv (L @ concat (map (\<lambda>b. [b]) (K x))) s'"
    proof (rule for_siblings_leaves [OF path_children [OF ok G(2)]])
      show "?Inv L (False, t)" using h(1) s by simp
      show "distinct (L @ concat (map (\<lambda>b. [b]) (K x)))" using h(2) K by (simp add: concat_single)
      show "node_next (snd s) = node_next st" if "?Inv L s" for L and s :: "bool \<times> blist" using that by (rule halfwayD(1))
      show "\<exists>s'. add_account_buddy env a g x b s = Some s' \<and> ?Inv (L @ [b]) s'"
        if "b \<in> set (K x)" "?Inv L s" "distinct (L @ [b])" for L b s
        using add_account_buddy_ok [OF ok a True that(1) gx that(2,3)] .
    qed
    then obtain r t' where t': "for_siblings (add_account_buddy env a g x) (node_child st x) (False, t) = Some (r, t')"
      "halfway st K (online_account a st) (L @ below st K x) t'"
      by (auto simp: concat_single K)
    have "is_contact t x" using True G(2) e by (simp add: is_contact_def purple_blist_node_get_type_def s)
    then show ?thesis
      using t' e halfway_events by (simp add: add_account_child_def s Let_def)
  next
    case False
    then have chat: "chat_at st x" using G(4) by simp
    have K: "below st K x = [x]" using False by (simp add: below_def)
    have types: "\<not> is_contact t x" "is_chat t x" "node_account t x = node_account st x"
      using chat G(2) e by (simp_all add: is_contact_def is_chat_def purple_blist_node_get_type_def s)
    note M = online_members [OF a, of x]
    have xL: "x \<notin> set L" using h(2) K by simp
    have co: "counters_only st t" using h(1) by (simp add: halfway_def s)
    note step = halfway_chat [OF ok h(1) G(5) x False xL]
    show ?thesis
    proof (cases "node_account st x = a")
      case True
      have "halfway st K (online_account a st) (L @ [x]) (add_currentsize g 1 (add_online g 1 t))"
        by (rule step) (use co M(1,2,5,7) [OF True] chat in
            \<open>simp_all add: counters_only_def add_online_def add_currentsize_def s\<close>)
      then show ?thesis
        using types True halfway_events(1) by (simp add: add_account_child_def s K Let_def)
    next
      case other: False
      have "halfway st K (online_account a st) (L @ [x]) t"
        by (rule step) (use co M(3,4) [OF other] in \<open>simp_all add: s\<close>)
      then show ?thesis using types other by (simp add: add_account_child_def s K Let_def)
    qed
  qed
qed

lemma add_account_group_ok:
  assumes ok: "blist_ok env st K" and a: "\<not> connected st a" "\<forall>x. node_account st x = a \<longrightarrow> \<not> presence_online st x"
    and g: "g \<in> set (K 0)" and h: "halfway st K (online_account a st) L (snd s)" "distinct (L @ members st K g)"
  shows "\<exists>s'. add_account_group env a g s = Some s' \<and> halfway st K (online_account a st) (L @ members st K g) (snd s')"
proof -
  note e = halfwayD [OF h(1)]
  have g0: "g \<noteq> 0" "group_at st g" using in_tree [OF ok g] tree_okD(2) [OF blist_okD(2) [OF ok] g] by simp_all
  then have "is_group (snd s) g" using e by (simp add: is_group_def purple_blist_node_get_type_def)
  moreover
  let ?Inv = "\<lambda>L s. halfway st K (online_account a st) L (snd s)"
  have "\<exists>s'. for_siblings (add_account_child env a g) (node_child st g) s = Some s' \<and>
      ?Inv (L @ concat (map (below st K) (K g))) s'"
  proof (rule for_siblings_leaves [OF path_children [OF ok g0(1)]])
    show "?Inv L s" using h(1) .
    show "distinct (L @ concat (map (below st K) (K g)))" using h(2) by (simp add: members_def)
    show "node_next (snd s) = node_next st" if "?Inv L s" for L and s :: "unit \<times> blist" using that by (rule halfwayD(1))
    show "\<exists>s'. add_account_child env a g x s = Some s' \<and> ?Inv (L @ below st K x) s'"
      if "x \<in> set (K g)" "?Inv L s" "distinct (L @ below st K x)" for L x s
      using add_account_child_ok [OF ok a g that] .
  qed
  then obtain t where "for_siblings (add_account_child env a g) (node_child st g) s = Some ((), t)"
    "halfway st K (online_account a st) (L @ members st K g) t" by (auto simp: members_def)
  ultimately show ?thesis using e halfway_events(1) by (simp add: add_account_group_def)
qed

lemma add_account_ok:
  assumes ok: "blist_ok env st K" and a: "\<not> connected st a" "\<forall>x. node_account st x = a \<longrightarrow> \<not> presence_online st x"
    and u: "ui_ops env Op_update"
  shows "\<exists>st'. purple_blist_add_account env a st = Some st' \<and> blist_ok env (online_account a st') K"
proof -
  let ?Inv = "\<lambda>L s. halfway st K (online_account a st) L (snd s)"
  have "\<exists>s'. for_siblings (add_account_group env a) (first st 0) ((), st) = Some s' \<and>
      ?Inv ([] @ concat (map (members st K) (K 0))) s'"
  proof (rule for_siblings_leaves [OF forest_path [OF blist_okD(1) [OF ok]]])
    show "?Inv [] ((), st)" using halfway_start [OF ok] by simp
    show "distinct ([] @ concat (map (members st K) (K 0)))" using all_distinct [OF ok] by simp
    show "node_next (snd s) = node_next st" if "?Inv L s" for L and s :: "unit \<times> blist" using that by (rule halfwayD(1))
    show "\<exists>s'. add_account_group env a x s = Some s' \<and> ?Inv (L @ members st K x) s'"
      if "x \<in> set (K 0)" "?Inv L s" "distinct (L @ members st K x)" for L x s
      using add_account_group_ok [OF ok a that] .
  qed
  then obtain t where t: "for_siblings (add_account_group env a) (root st) ((), st) = Some ((), t)"
    "halfway st K (online_account a st) (concat (map (members st K) (K 0))) t"
    by (auto simp: first_def)
  note e = halfwayD [OF t(2)]
  have "blist_ok env (online_account a t) K"
  proof (rule halfway_done [OF ok t(2)])
    show "online_account a t = t\<lparr>connected := (connected t)(a := True),
        presence_online := presence_online t, blist_events := blist_events t\<rparr>"
      by (simp add: online_account_def)
    show "member_current (online_account a t) = member_current (online_account a st)"
      by (simp add: fun_eq_iff member_current_def online_account_def e)
    show "member_online (online_account a t) = member_online (online_account a st)"
      by (simp add: fun_eq_iff member_online_def PURPLE_BUDDY_IS_ONLINE_def online_account_def e)
  qed
  then show ?thesis using t(1) u by (simp add: purple_blist_add_account_def)
qed

end
