(* ===== verification/Purple_Blist_Contract.thy ===== *)
theory Purple_Blist_Contract
  imports Purple_Blist_Accounts
begin

section \<open>The contract of the buddy list\<close>

subsection \<open>An example\<close>

text \<open>One group with a contact of two buddies and a chat; the first buddy is online, the account 7 of the
  second buddy is not connected.\<close>

definition env_ex :: blist_env where
  "env_ex = \<lparr>normalize = (\<lambda>_ s. s), collate_key = (\<lambda>s. s), strip_unprintables = (\<lambda>s. s), utf8_valid = (\<lambda>_. True),
     buddies_name = ''Buddies'', chats_name = ''Chats'', ui_ops = (\<lambda>_. True), has_connection = (\<lambda>a. a = 5),
     connections = [5], has_conversation = (\<lambda>_. False), show_offline = (\<lambda>_. False),
     presence_compare = (\<lambda>_ _. 0), last_match = False, traverse = (\<lambda>_. [])\<rparr>"

definition blist_ex :: blist where
  "blist_ex = \<lparr>
     ntype = [1 \<mapsto> PURPLE_BLIST_GROUP_NODE, 2 \<mapsto> PURPLE_BLIST_CONTACT_NODE, 3 \<mapsto> PURPLE_BLIST_BUDDY_NODE,
       4 \<mapsto> PURPLE_BLIST_BUDDY_NODE, 6 \<mapsto> PURPLE_BLIST_CHAT_NODE],
     node_prev = (\<lambda>_. 0)(4 := 3, 6 := 2), node_next = (\<lambda>_. 0)(2 := 6, 3 := 4),
     node_parent = (\<lambda>_. 0)(2 := 1, 3 := 2, 4 := 2, 6 := 1), node_child = (\<lambda>_. 0)(1 := 2, 2 := 3),
     node_name = (\<lambda>_. '''')(1 := ''Friends'', 3 := ''ann'', 4 := ''bob''),
     node_account = (\<lambda>_. 0)(3 := 5, 4 := 7, 6 := 5), node_alias = (\<lambda>_. None), node_server_alias = (\<lambda>_. None),
     totalsize = (\<lambda>_. 0)(1 := 2, 2 := 2), currentsize = (\<lambda>_. 0)(1 := 2, 2 := 1), online = (\<lambda>_. 0)(1 := 2, 2 := 1),
     priority = (\<lambda>_. 0)(2 := 3), priority_valid = (\<lambda>x. x = 2), root = 1,
     buddies = [(''ann'', 5, 1) \<mapsto> 3, (''bob'', 7, 1) \<mapsto> 4],
     buddies_cache = [5 \<mapsto> [(''ann'', 5, 1) \<mapsto> 3]], groups_cache = [''Friends'' \<mapsto> 1],
     connected = (\<lambda>a. a = 5), presence_online = (\<lambda>b. b = 3), blist_events = []\<rparr>"

definition kids_ex :: "ptr \<Rightarrow> ptr list" where
  "kids_ex = (\<lambda>_. [])(0 := [1], 1 := [2, 6], 2 := [3, 4])"

lemma env_ex_simps [simp]:
  "normalize env_ex = (\<lambda>_ s. s)" "collate_key env_ex = (\<lambda>s. s)" "strip_unprintables env_ex = (\<lambda>s. s)"
  "ui_ops env_ex = (\<lambda>_. True)" "buddies_name env_ex = ''Buddies''" "chats_name env_ex = ''Chats''"
  by (simp_all add: env_ex_def)

lemma ntype_ex: "ntype blist_ex x \<noteq> None \<longleftrightarrow> x \<in> {1, 2, 3, 4, 6}"
  by (auto simp: blist_ex_def)

lemma blist_ex_ok: "blist_ok env_ex blist_ex kids_ex"
proof -
  have "links blist_ex kids_ex"
    unfolding forest_def by (auto simp: blist_ex_def kids_ex_def first_def)
  moreover have "tree_ok blist_ex kids_ex"
    unfolding tree_ok_def by (auto simp: blist_ex_def kids_ex_def split: if_splits)
  moreover have "counts_ok blist_ex kids_ex"
    unfolding counts_ok_def levels_def
    by (auto simp: blist_ex_def kids_ex_def counts_up_def member_current_def member_online_def PURPLE_BUDDY_IS_ONLINE_def split: if_splits)
  moreover have "table_ok env_ex blist_ex"
    unfolding table_ok_def entries_ok_def cache_ok_def by (auto simp: blist_ex_def hkey_def fun_eq_iff split: if_splits)
  moreover have "groups_ok env_ex blist_ex kids_ex"
    unfolding groups_ok_def by (auto simp: blist_ex_def kids_ex_def)
  moreover have "priority_ok blist_ex kids_ex"
    unfolding priority_ok_def by (auto simp: blist_ex_def kids_ex_def split: if_splits)
  ultimately show ?thesis by (simp add: blist_ok_def)
qed

subsection \<open>Lookups\<close>

lemma find_buddy_loop_eq:
  assumes "path (node_next st) g gs" and "\<And>h. h \<in> set gs \<Longrightarrow> buddies st (n, a, h) \<noteq> None \<Longrightarrow> node_child st h \<noteq> 0"
  shows "find_buddy_loop st n a g =
    Some (case filter (\<lambda>h. buddies st (n, a, h) \<noteq> None) gs of [] \<Rightarrow> 0 | h # _ \<Rightarrow> the (buddies st (n, a, h)))"
  using assms
proof (induction gs arbitrary: g)
  case Nil
  then show ?case by (simp add: find_buddy_loop.simps [of _ _ _ 0])
next
  case (Cons h gs)
  have IH: "find_buddy_loop st n a (node_next st h) =
      Some (case filter (\<lambda>h. buddies st (n, a, h) \<noteq> None) gs of [] \<Rightarrow> 0 | h # _ \<Rightarrow> the (buddies st (n, a, h)))"
    by (rule Cons.IH) (use Cons.prems in auto)
  have g: "g = h" "h \<noteq> 0" using Cons.prems(1) by auto
  show ?case
  proof (cases "buddies st (n, a, h)")
    case None
    then show ?thesis using g IH by (subst find_buddy_loop.simps) (simp split: if_splits)
  next
    case (Some b)
    then show ?thesis using g Cons.prems(2) [of h] by (subst find_buddy_loop.simps) simp
  qed
qed

lemma entry_place:
  assumes ok: "blist_ok env st K" and e: "buddies st (n, a, g) = Some b"
  shows "buddy_at st b" "node_account st b = a" "normalize env a (node_name st b) = n" "b \<in> set (K (node_parent st b))"
    "node_parent st b \<in> set (K g)" "g \<in> set (K 0)" "node_child st g \<noteq> 0" "b \<noteq> 0"
proof -
  have E: "buddy_at st b" "node_parent st b \<noteq> 0" "(n, a, g) = hkey env st b (node_parent st (node_parent st b))"
    using entries_okD [OF blist_okD(4) [OF ok] e] by simp_all
  then show "buddy_at st b" "node_account st b = a" "normalize env a (node_name st b) = n" by (simp_all add: hkey_def)
  note place = buddy_place [OF ok E(1,2)]
  have g: "g = node_parent st (node_parent st b)" using E(3) by (simp add: hkey_def)
  note cplace = contact_place [OF ok place(2), folded g, OF place(3) [folded g]]
  show "b \<in> set (K (node_parent st b))" "node_parent st b \<in> set (K g)" "g \<in> set (K 0)" by (fact place(1) cplace(1,2))+
  show "b \<noteq> 0" using in_tree [OF ok place(1)] by simp
  have "K g \<noteq> []" "g \<noteq> 0" using cplace(1) in_tree [OF ok cplace(2)] by auto
  then show "node_child st g \<noteq> 0" using child_iff [OF blist_okD(1) [OF ok], of g] by simp
qed

lemma find_buddy_ok:
  assumes ok: "blist_ok env st K" and a: "a \<noteq> 0" "s \<noteq> ''''"
  shows "\<exists>b. purple_find_buddy env st a s = Some b \<and>
    (b = 0 \<longleftrightarrow> (\<forall>g. buddies st (normalize env a s, a, g) = None)) \<and>
    (b \<noteq> 0 \<longrightarrow> (\<exists>g. buddies st (normalize env a s, a, g) = Some b))"
proof -
  define n where "n = normalize env a s"
  define gs where "gs = filter (\<lambda>h. buddies st (n, a, h) \<noteq> None) (K 0)"
  have eq: "purple_find_buddy env st a s = Some (case gs of [] \<Rightarrow> 0 | h # _ \<Rightarrow> the (buddies st (n, a, h)))"
  proof -
    have "path (node_next st) (root st) (K 0)"
      using forest_path [OF blist_okD(1) [OF ok], of 0] by (simp add: first_def)
    moreover have "node_child st h \<noteq> 0" if "buddies st (n, a, h) \<noteq> None" for h
      using that entry_place(7) [OF ok] by blast
    ultimately show ?thesis
      using find_buddy_loop_eq [of st "root st" "K 0" n a] a
      by (simp add: purple_find_buddy_def n_def [symmetric] gs_def)
  qed
  have gs: "set gs = {h. buddies st (n, a, h) \<noteq> None}"
    using entry_place(6) [OF ok] by (auto simp: gs_def)
  show ?thesis
  proof (cases gs)
    case Nil
    then have none: "buddies st (n, a, h) = None" for h using gs by auto
    show ?thesis using eq none unfolding n_def [symmetric] Nil by simp
  next
    case (Cons h hs)
    then have "h \<in> {h. buddies st (n, a, h) \<noteq> None}" using gs by auto
    then obtain b where b: "buddies st (n, a, h) = Some b" by auto
    have "b \<noteq> 0" by (rule entry_place(8) [OF ok b])
    then show ?thesis using eq b unfolding n_def [symmetric] Cons by auto
  qed
qed

subsection \<open>The priority buddy\<close>

lemma compute_priority_ok:
  assumes ok: "blist_ok env st K" and c: "contact_at st c" "K c \<noteq> []"
  shows "\<exists>st'. purple_contact_compute_priority_buddy env c st = Some st' \<and> blist_ok env st' K \<and> priority_valid st' c \<and>
    priority st' c \<in> set (K c) \<and>
    ((\<exists>b \<in> set (K c). connected st (node_account st b)) \<longrightarrow> connected st (node_account st (priority st' c)))"
proof -
  have c0: "c \<noteq> 0" using c(1) tree_okD(1) [OF blist_okD(2) [OF ok]] by (cases "c = 0") simp_all
  define s where "s = st\<lparr>priority := (priority st)(c := 0)\<rparr>"
  let ?con = "\<lambda>b. connected st (node_account st b)"
  let ?Inv = "\<lambda>L (x :: ptr \<times> blist). snd x = s \<and> (L = [] \<longrightarrow> fst x = 0) \<and>
    (L \<noteq> [] \<longrightarrow> fst x \<in> set L) \<and> set L \<subseteq> set (K c) \<and> ((\<exists>b \<in> set L. ?con b) \<longrightarrow> ?con (fst x))"
  have "\<exists>s'. for_siblings (priority_step env) (node_child st c) (0, s) = Some s' \<and> ?Inv ([] @ concat (map (\<lambda>b. [b]) (K c))) s'"
  proof (rule for_siblings_leaves [OF path_children [OF ok c0]])
    show "?Inv [] (0, s)" by simp
    show "distinct ([] @ concat (map (\<lambda>b. [b]) (K c)))" by (simp add: concat_single forestD(2) [OF blist_okD(1) [OF ok]])
    show "node_next (snd x) = node_next st" if "?Inv L x" for L x using that by (simp add: s_def)
    show "\<exists>x'. priority_step env b x = Some x' \<and> ?Inv (L @ [b]) x'"
      if b: "b \<in> set (K c)" and I: "?Inv L x" and "distinct (L @ [b])" for L b x
    proof -
      obtain p where x: "x = (p, s)" using I by (cases x) simp
      note B = children_of_contact [OF ok c(1) b]
      have bt: "is_buddy s b" using B by (simp add: buddy_type s_def)
      have con: "connected s = connected st" "node_account s = node_account st" by (simp_all add: s_def)
      have p0: "L \<noteq> [] \<Longrightarrow> p \<noteq> 0" using I children_of_contact(4) [OF ok c(1)] by (auto simp: x)
      show ?thesis
        using I bt b p0 by (cases "L = []") (auto simp: priority_step_def x con Let_def)
    qed
  qed
  then obtain p where p: "for_siblings (priority_step env) (node_child st c) (0, s) = Some (p, s)"
    "p \<in> set (K c)" "(\<exists>b \<in> set (K c). ?con b) \<longrightarrow> ?con p"
    using c(2) by (auto simp: concat_single)
  define t where "t = s\<lparr>priority := (priority s)(c := p), priority_valid := (priority_valid s)(c := True)\<rparr>"
  have "purple_contact_compute_priority_buddy env c st = Some t"
    using c0 p(1) by (simp add: purple_contact_compute_priority_buddy_def s_def [symmetric] t_def Let_def)
      (simp add: s_def)
  moreover have "blist_ok env t K"
  proof (rule blist_ok_cong_priority [OF ok])
    show "priority_ok t K"
      using blist_okD(6) [OF ok] p(2) by (auto simp: priority_ok_def t_def s_def)
  qed (simp_all add: t_def s_def)
  ultimately show ?thesis using p by (auto simp: t_def s_def)
qed

lemma get_priority_ok:
  assumes ok: "blist_ok env st K" and c: "contact_at st c" "K c \<noteq> []"
  shows "\<exists>p st'. purple_contact_get_priority_buddy env c st = Some (p, st') \<and> blist_ok env st' K \<and> p \<in> set (K c) \<and>
    (\<not> priority_valid st c \<longrightarrow> (\<exists>b \<in> set (K c). connected st (node_account st b)) \<longrightarrow> connected st (node_account st p))"
proof -
  have c0: "c \<noteq> 0" using c(1) tree_okD(1) [OF blist_okD(2) [OF ok]] by (cases "c = 0") simp_all
  show ?thesis
  proof (cases "priority_valid st c")
    case True
    then have "priority st c \<in> set (K c)" using blist_okD(6) [OF ok] c unfolding priority_ok_def by blast
    then show ?thesis using True c0 ok by (simp add: purple_contact_get_priority_buddy_def)
  next
    case False
    then show ?thesis using compute_priority_ok [OF ok c] c0 by (auto simp: purple_contact_get_priority_buddy_def)
  qed
qed

subsection \<open>What the operations promise\<close>

text \<open>C4: Removing a buddy, a chat or an empty group keeps the list well formed: the sibling lists stay linked both
  ways, the current and online counters of contacts and groups and the total of a contact are exact, the total
  of a group is at least the number of its members (it is exact no longer: removing the last buddy of a contact
  leaves it too high), the tables hold no removed buddy, and a contact that loses its last buddy goes with it.\<close>
theorem blist_removals_ok:
  assumes "blist_ok env st K"
  shows "(buddy_at st x \<and> node_parent st x \<noteq> 0 \<longrightarrow>
      blist_ok env (purple_blist_remove_buddy env x st) (without_buddy st x K)) \<and>
    (chat_at st x \<and> node_parent st x \<noteq> 0 \<longrightarrow>
      blist_ok env (purple_blist_remove_chat env x st)
        (K(node_parent st x := remove1 x (K (node_parent st x))))) \<and>
    (x \<in> set (K 0) \<and> K x = [] \<longrightarrow>
      blist_ok env (purple_blist_remove_group env x st) (K(0 := remove1 x (K 0))))"
  using remove_buddy_ok [OF assms] remove_chat_ok [OF assms] remove_group_ok [OF assms] by blast

theorem blist_removals_ok_witness:
  "blist_ok env_ex (purple_blist_remove_buddy env_ex 3 blist_ex) (without_buddy blist_ex 3 kids_ex) \<and>
   blist_ok env_ex (purple_blist_remove_chat env_ex 6 blist_ex)
     (kids_ex(node_parent blist_ex 6 := remove1 6 (kids_ex (node_parent blist_ex 6))))"
  using blist_removals_ok [OF blist_ex_ok, of 3] blist_removals_ok [OF blist_ex_ok, of 6] by (simp add: blist_ex_def)

text \<open>C7: Removing a contact returns, whatever number of buddies it has, and takes the contact and all its buddies
  off the list.\<close>
theorem blist_remove_contact_returns:
  assumes "blist_ok env st K" and "contact_at st c" and "node_parent st c \<noteq> 0"
  shows "\<exists>st'. purple_blist_remove_contact env c st = Some st' \<and>
    blist_ok env st' (K(c := [], node_parent st c := remove1 c (K (node_parent st c))))"
  by (rule remove_contact_ok [OF assms])

theorem blist_remove_contact_returns_witness:
  "\<exists>st'. purple_blist_remove_contact env_ex 2 blist_ex = Some st' \<and> blist_ok env_ex st' (kids_ex(2 := [], 1 := [6]))"
  using blist_remove_contact_returns [OF blist_ex_ok, of 2] by (simp add: blist_ex_def kids_ex_def)

text \<open>C5: Adding a buddy, or moving one that is on the list, returns and keeps the list well formed: beside
  another buddy, at the head of a contact, or in a new contact at the end of a group, which is listed if
  it was not.  Afterwards the buddy is found under its name in the group.\<close>
theorem blist_add_buddy_ok:
  assumes "blist_ok env st K" and "buddy_at st b" and "node_account st b \<noteq> 0" "node_name st b \<noteq> ''''"
  shows "(buddy_at st n \<and> node_parent st n = c \<and> c \<noteq> 0 \<and> n \<noteq> b \<longrightarrow>
      (\<exists>st'. purple_blist_add_buddy env gp cp b c' g n st = Some st' \<and> blist_ok env st' (buddy_moved st b c n K) \<and>
        purple_find_buddy_in_group env st' (node_account st b) (node_name st b) (node_parent st c) = b)) \<and>
    (contact_at st c \<and> node_parent st c \<noteq> 0 \<and> (K c = [] \<or> hd (K c) \<noteq> b) \<longrightarrow>
      (\<exists>st'. purple_blist_add_buddy env gp cp b c g 0 st = Some st' \<and> blist_ok env st' (buddy_moved st b c 0 K) \<and>
        purple_find_buddy_in_group env st' (node_account st b) (node_name st b) (node_parent st c) = b)) \<and>
    (usable env st K g \<and> ntype st cp = None \<and> cp \<noteq> 0 \<longrightarrow>
      (\<exists>st'. purple_blist_add_buddy env gp cp b 0 g 0 st = Some st' \<and>
        blist_ok env st' (buddy_moved st b cp 0 ((listed g K)(g := listed g K g @ [cp]))) \<and>
        purple_find_buddy_in_group env st' (node_account st b) (node_name st b) g = b))"
  using add_buddy_beside_ok [OF assms(1,2)] add_buddy_contact_ok [OF assms(1,2)] add_buddy_new_ok [OF assms(1,2)] assms(3,4)
  by (intro conjI impI) metis+

theorem blist_add_buddy_ok_witness:
  "(\<exists>st'. purple_blist_add_buddy env_ex 8 9 3 0 0 4 blist_ex = Some st' \<and>
      blist_ok env_ex st' (buddy_moved blist_ex 3 2 4 kids_ex)) \<and>
   (\<exists>st'. purple_blist_add_buddy env_ex 8 9 4 2 0 0 blist_ex = Some st' \<and>
      purple_find_buddy_in_group env_ex st' 7 ''bob'' 1 = 4) \<and>
   (\<exists>st'. purple_blist_add_buddy env_ex 8 9 3 0 1 0 blist_ex = Some st' \<and>
      purple_find_buddy_in_group env_ex st' 5 ''ann'' 1 = 3)"
  using blist_add_buddy_ok [OF blist_ex_ok, of 3 4 2 8 9 0 0] blist_add_buddy_ok [OF blist_ex_ok, of 4 0 2 8 9 0 0]
    blist_add_buddy_ok [OF blist_ex_ok, of 3 0 0 8 9 0 1]
  by (auto simp: blist_ex_def kids_ex_def usable_def)

text \<open>Adding or moving a chat returns and keeps the list well formed, behind another node of a group or at
  the head of a group, which is listed if it was not.\<close>
theorem blist_add_chat_ok:
  assumes "blist_ok env st K" and "chat_at st x"
  shows "(n \<in> set (K p) \<and> p \<in> set (K 0) \<and> n \<noteq> x \<longrightarrow>
      (\<exists>st'. purple_blist_add_chat env gp x g n st = Some st' \<and> blist_ok env st' (moved x p n K))) \<and>
    (usable env st K g \<longrightarrow>
      (\<exists>st'. purple_blist_add_chat env gp x g 0 st = Some st' \<and> blist_ok env st' (moved x g 0 (listed g K))))"
  using add_chat_after_ok [OF assms] add_chat_first_ok [OF assms] by blast

theorem blist_add_chat_ok_witness:
  "(\<exists>st'. purple_blist_add_chat env_ex 8 6 0 2 blist_ex = Some st' \<and> blist_ok env_ex st' (moved 6 1 2 kids_ex)) \<and>
   (\<exists>st'. purple_blist_add_chat env_ex 8 6 1 0 blist_ex = Some st' \<and>
      blist_ok env_ex st' (moved 6 1 0 (listed 1 kids_ex)))"
  using blist_add_chat_ok [OF blist_ex_ok, of 6 2 1 8 0] blist_add_chat_ok [OF blist_ex_ok, of 6 0 0 8 1]
  by (simp add: blist_ex_def kids_ex_def usable_def)

text \<open>A group is created under a name, or the group of that name is returned; it is put on the list if it was
  not there, and is found under the name afterwards.\<close>
theorem blist_group_listed_found:
  assumes ok: "blist_ok env st K" and p: "ntype st p = None" "p \<noteq> 0" and s: "s \<noteq> ''''" "strip_unprintables env s = s"
  shows "\<exists>st'. ensure_listed env (fst (purple_group_new env p s st)) (snd (purple_group_new env p s st)) = Some st' \<and>
    blist_ok env st' (listed (fst (purple_group_new env p s st)) K) \<and>
    purple_find_group env st' s = fst (purple_group_new env p s st)"
proof -
  define g where "g = fst (purple_group_new env p s st)"
  define st1 where "st1 = snd (purple_group_new env p s st)"
  have ok1: "blist_ok env st1 K" unfolding st1_def by (rule group_new_ok [OF ok p])
  obtain st' where st': "ensure_listed env g st1 = Some st'" "same_nodes st1 st'" "blist_ok env st' (listed g K)"
    using ensure_listed_ok [OF ok1 group_new_usable [OF ok p s, folded st1_def g_def]] by blast
  have key: "collate_key env s = collate_key env (node_name st1 g)"
  proof (cases "purple_find_group env st s = 0")
    case True
    then show ?thesis using s by (simp add: g_def st1_def purple_group_new_def new_node_def ui_eq Let_def)
  next
    case False
    then show ?thesis
      using find_found(2) [OF ok refl False] s(1) by (simp add: g_def st1_def purple_group_new_def)
  qed
  have "g \<in> set (listed g K 0)" by (simp add: set_listed)
  then have "groups_cache st' (collate_key env (node_name st' g)) = Some g"
    using groups_okD(1) [OF blist_okD(5) [OF st'(3)]] by blast
  then have "purple_find_group env st' s = g"
    using s(1) by (simp add: purple_find_group_def key same_nodesD(4) [OF st'(2)])
  then show ?thesis using st' unfolding g_def [symmetric] st1_def [symmetric] by blast
qed

theorem blist_group_listed_found_witness:
  "\<exists>st'. ensure_listed env_ex 9 (snd (purple_group_new env_ex 9 ''Work'' blist_ex)) = Some st' \<and>
     blist_ok env_ex st' (listed 9 kids_ex) \<and> purple_find_group env_ex st' ''Work'' = 9"
proof -
  have "fst (purple_group_new env_ex 9 ''Work'' blist_ex) = 9"
    by (simp add: purple_group_new_def purple_find_group_def blist_ex_def Let_def)
  then show ?thesis
    using blist_group_listed_found [OF blist_ex_ok, of 9 "''Work''"] by (simp add: blist_ex_def)
qed

text \<open>C6: The counters follow the accounts and the statuses: after a buddy of a connected account signs on or off,
  after a connected account goes offline with all its buddies and chats, and, when the interface has an update
  operation, after an account that was not connected comes online, whose buddies are offline at first, the
  current and online counters of contacts and groups and the totals of contacts are exact for the new state
  (the totals of groups are at least exact).\<close>
theorem blist_counters_follow:
  shows "(blist_ok env (st\<lparr>presence_online := (presence_online st)(b := old)\<rparr>) K \<and>
      buddy_at st b \<and> node_parent st b \<noteq> 0 \<and> connected st (node_account st b) \<longrightarrow>
      blist_ok env (purple_blist_update_buddy_status env b old st) K) \<and>
    (blist_ok env st K \<and> connected st a \<longrightarrow>
      (\<exists>st'. purple_blist_remove_account env a st = Some st' \<and> blist_ok env (offline_account a st') K)) \<and>
    (blist_ok env st K \<and> \<not> connected st a \<and> (\<forall>x. node_account st x = a \<longrightarrow> \<not> presence_online st x) \<and>
      ui_ops env Op_update \<longrightarrow>
      (\<exists>st'. purple_blist_add_account env a st = Some st' \<and> blist_ok env (online_account a st') K))"
  using update_buddy_status_ok remove_account_ok add_account_ok by blast

theorem blist_counters_follow_witness:
  "(\<exists>st'. purple_blist_remove_account env_ex 5 blist_ex = Some st' \<and> blist_ok env_ex (offline_account 5 st') kids_ex) \<and>
   (\<exists>st'. purple_blist_add_account env_ex 7 blist_ex = Some st' \<and> blist_ok env_ex (online_account 7 st') kids_ex)"
proof -
  have "connected blist_ex 5" "\<not> connected blist_ex 7" "\<forall>x. node_account blist_ex x = 7 \<longrightarrow> \<not> presence_online blist_ex x"
    by (simp_all add: blist_ex_def)
  then show ?thesis
    using blist_counters_follow [of env_ex blist_ex 0 False kids_ex 5] blist_counters_follow [of env_ex blist_ex 0 False kids_ex 7]
      blist_ex_ok by simp
qed

text \<open>A lookup by name and account returns, and what it returns is a buddy on the list with this account and
  an equivalent name, never one that was removed; it returns nothing only when no group has an entry.\<close>
theorem blist_find_buddy_sound:
  assumes "blist_ok env st K" and "a \<noteq> 0" and "s \<noteq> ''''"
  shows "\<exists>b. purple_find_buddy env st a s = Some b \<and>
    (b \<noteq> 0 \<longrightarrow> buddy_at st b \<and> node_account st b = a \<and> normalize env a (node_name st b) = normalize env a s \<and>
      b \<in> set (K (node_parent st b))) \<and>
    (b = 0 \<longleftrightarrow> (\<forall>g. purple_find_buddy_in_group env st a s g = 0))"
proof -
  define n where "n = normalize env a s"
  obtain b where b: "purple_find_buddy env st a s = Some b" "b = 0 \<longleftrightarrow> (\<forall>g. buddies st (n, a, g) = None)"
    "b \<noteq> 0 \<Longrightarrow> \<exists>g. buddies st (n, a, g) = Some b"
    using find_buddy_ok [OF assms] unfolding n_def by blast
  have "buddies st (n, a, g) = None \<longleftrightarrow> purple_find_buddy_in_group env st a s g = 0" for g
    using assms(2,3) entry_place(8) [OF assms(1), of n a g]
    by (auto simp: purple_find_buddy_in_group_def n_def split: option.splits)
  moreover have "b \<noteq> 0 \<Longrightarrow> buddy_at st b \<and> node_account st b = a \<and> normalize env a (node_name st b) = n \<and>
      b \<in> set (K (node_parent st b))"
    using b(3) entry_place(1-4) [OF assms(1)] by blast
  ultimately show ?thesis using b(1,2) unfolding n_def by metis
qed

theorem blist_find_buddy_sound_witness:
  "purple_find_buddy env_ex blist_ex 7 ''bob'' = Some 4 \<and> buddy_at blist_ex 4"
proof -
  obtain b where b: "purple_find_buddy env_ex blist_ex 7 ''bob'' = Some b"
    "b \<noteq> 0 \<longrightarrow> buddy_at blist_ex b \<and> node_account blist_ex b = 7"
    "b = 0 \<longleftrightarrow> (\<forall>g. purple_find_buddy_in_group env_ex blist_ex 7 ''bob'' g = 0)"
    using blist_find_buddy_sound [OF blist_ex_ok, of 7 "''bob''"] by auto
  have "purple_find_buddy_in_group env_ex blist_ex 7 ''bob'' 1 = 4"
    by (simp add: purple_find_buddy_in_group_def blist_ex_def)
  then have "b \<noteq> 0" using b(3) by fastforce
  then have "b = 4" using b(2) by (auto simp: blist_ex_def split: if_splits)
  then show ?thesis using b by simp
qed

text \<open>C25: The buddy that stands for a contact is one of its buddies; when it is computed afresh it is one whose
  account is connected if there is one.\<close>
theorem blist_priority_buddy:
  assumes "blist_ok env st K" and "contact_at st c" and "K c \<noteq> []"
  shows "\<exists>p st'. purple_contact_get_priority_buddy env c st = Some (p, st') \<and> blist_ok env st' K \<and> p \<in> set (K c) \<and>
    (\<not> priority_valid st c \<longrightarrow> (\<exists>b \<in> set (K c). connected st (node_account st b)) \<longrightarrow> connected st (node_account st p))"
  by (rule get_priority_ok [OF assms])

theorem blist_priority_buddy_witness:
  "\<exists>p st'. purple_contact_get_priority_buddy env_ex 2 (blist_ex\<lparr>priority_valid := (\<lambda>_. False)\<rparr>) = Some (p, st') \<and> p = 3"
proof -
  have "blist_ok env_ex (blist_ex\<lparr>priority_valid := (\<lambda>_. False)\<rparr>) kids_ex"
    by (rule blist_ok_cong_priority [OF blist_ex_ok]) (simp_all add: priority_ok_def)
  from blist_priority_buddy [OF this, of 2] show ?thesis by (auto simp: blist_ex_def kids_ex_def)
qed

text \<open>The total of a group is not a count of its children: removing the last buddy of a contact takes the
  contact off its group and leaves the total of the group as it was.\<close>
theorem blist_group_total_leaks:
  assumes ok: "blist_ok env st K" and b: "buddy_at st b" and c: "node_parent st b = c" "c \<noteq> 0" "K c = [b]"
  shows "totalsize (purple_blist_remove_buddy env b st) (node_parent st c) = totalsize st (node_parent st c) \<and>
    length (without_buddy st b K (node_parent st c)) < length (K (node_parent st c))"
proof -
  have p: "node_parent st b \<noteq> 0" using c by simp
  note place = buddy_place [OF ok b p, unfolded c(1)]
  note cplace = contact_place [OF ok place(2,3)]
  have gc: "node_parent st c \<noteq> c" using place(2) cplace(3) by auto
  have b0: "b \<noteq> 0" using in_tree [OF ok place(1)] by simp
  note self = forest_no_self [OF blist_okD(1) [OF ok] place(1)]
  have gone: "totalsize (buddy_gone env b st) = (totalsize st)(c := totalsize st c - 1)"
    by (simp add: buddy_gone_def c(1) drop_priority_eq [OF c(2)] Let_def unlink_child_eq [OF self(2,1)] blist_eqs)
  have "totalsize (remove_empty_contact env c t) = totalsize t" for t
    by (simp add: remove_empty_contact_def unlink_child_def unlink_siblings_def ui_eq emit_def free_node_def Let_def)
  then have "totalsize (purple_blist_remove_buddy env b st) = (totalsize st)(c := totalsize st c - 1)"
    using remove_buddy_eq [OF b0 p] gone by (simp add: c(1))
  moreover have "without_buddy st b K (node_parent st c) = remove1 c (K (node_parent st c))"
    using c gc by (simp add: without_buddy_def Let_def)
  moreover have "int (length (remove1 c (K (node_parent st c)))) < int (length (K (node_parent st c)))"
    using len_remove1 [OF cplace(1)] by simp
  ultimately show ?thesis using gc by simp
qed

theorem blist_group_total_leaks_witness:
  "totalsize (purple_blist_remove_buddy env_ex 4 (purple_blist_remove_buddy env_ex 3 blist_ex)) 1 = 2"
proof -
  have b: "buddy_at blist_ex 3" "node_parent blist_ex 3 = 2" "kids_ex 2 \<noteq> [3]" by (simp_all add: blist_ex_def kids_ex_def)
  note R = remove_buddy_fields [OF blist_ex_ok b(1,2) _ b(3)]
  have facts: "ntype blist_ex 4 = Some PURPLE_BLIST_BUDDY_NODE" "node_parent blist_ex 4 = 2" "node_parent blist_ex 2 = 1"
    "kids_ex 2 = [3, 4]"
    by (simp_all add: blist_ex_def kids_ex_def)
  have "totalsize (purple_blist_remove_buddy env_ex 4 (purple_blist_remove_buddy env_ex 3 blist_ex))
      (node_parent (purple_blist_remove_buddy env_ex 3 blist_ex) 2) =
    totalsize (purple_blist_remove_buddy env_ex 3 blist_ex) (node_parent (purple_blist_remove_buddy env_ex 3 blist_ex) 2)"
    by (rule conjunct1 [OF blist_group_total_leaks [OF R(1)]]) (simp_all add: R(2,3) facts)
  moreover have "totalsize (purple_blist_remove_buddy env_ex 3 blist_ex) 1 = 2"
    by (simp add: purple_blist_remove_buddy_def blist_ex_def unlink_child_def unlink_siblings_def buddy_leaves_def
        online_leaves_def current_leaves_def add_online_def add_currentsize_def add_totalsize_def drop_priority_def
        purple_contact_invalidate_priority_buddy_def buddies_remove_def PURPLE_BUDDY_IS_ONLINE_def ui_eq emit_def
        free_node_def hkey_def Let_def)
  ultimately show ?thesis by (simp add: R(2) facts)
qed

text \<open>Without a user interface that shows updates, an account that comes online is not counted at all.\<close>

lemma cnt_less:
  assumes "\<And>y. y \<in> set xs \<Longrightarrow> P y \<Longrightarrow> Q y" and "x \<in> set xs" "\<not> P x" "Q x"
  shows "cnt P xs < cnt Q xs"
proof -
  have le: "cnt P ys \<le> cnt Q ys" if "set ys \<subseteq> set xs" for ys
    using that assms(1) by (induction ys) (auto simp: of_bool_def)
  have "cnt P (remove1 x xs) \<le> cnt Q (remove1 x xs)" by (rule le) (rule set_remove1_subset)
  then show ?thesis using cnt_remove1 [OF assms(2), of P] cnt_remove1 [OF assms(2), of Q] assms(3,4) by simp
qed

text \<open>When the user interface has no update operation, an account that comes online is not counted: the
  routine returns before its loops, and with a buddy or chat of the account on the list the counters are wrong
  from then on (the routine for the account that goes offline has no such test, and takes off what was never
  added).\<close>
theorem blist_add_account_uncounted:
  assumes ok: "blist_ok env st K" and u: "\<not> ui_ops env Op_update" and a: "\<not> connected st a"
    and x: "buddy_at st x \<or> chat_at st x" "node_parent st x \<noteq> 0" "node_account st x = a"
  shows "purple_blist_add_account env a st = Some st \<and> \<not> blist_ok env (online_account a st) K"
proof
  show "purple_blist_add_account env a st = Some st" using u by (simp add: purple_blist_add_account_def)
  define p where "p = node_parent st x"
  have xp: "x \<in> set (K p)" using attached [OF ok _ x(2)] x(1) by (auto simp: p_def)
  let ?t = "online_account a st"
  have t: "ntype ?t = ntype st" "currentsize ?t = currentsize st" by (simp_all add: online_account_def)
  have m: "member_current st y \<Longrightarrow> member_current ?t y" "\<not> member_current st x" "member_current ?t x" for y
    using a x(3) by (simp_all add: member_current_def online_account_def)
  show "\<not> blist_ok env ?t K"
  proof
    assume "blist_ok env ?t K"
    note L' = counts_okD(1) [OF blist_okD(3) [OF this], unfolded t]
    note L = counts_okD(1) [OF blist_okD(3) [OF ok]]
    show False
    proof (cases "buddy_at st x")
      case True
      have "contact_at st p" using buddy_place(2) [OF ok True x(2)] by (simp add: p_def)
      then have "cnt (member_current st) (K p) = cnt (member_current ?t) (K p)"
        using levelsD(1) [OF L] levelsD(1) [OF L'] by metis
      moreover have "cnt (member_current st) (K p) < cnt (member_current ?t) (K p)"
        by (rule cnt_less [where x = x]) (use m xp in simp_all)
      ultimately show False by simp
    next
      case False
      then have chat: "chat_at st x" using x(1) by simp
      have "group_at st p" using chat_place(3) [OF ok chat x(2)] by (simp add: p_def)
      then have "cnt (counts_up (contact_at st) (member_current st) (currentsize st)) (K p) =
          cnt (counts_up (contact_at st) (member_current ?t) (currentsize st)) (K p)"
        using levelsD(2) [OF L] levelsD(2) [OF L'] by metis
      moreover have "cnt (counts_up (contact_at st) (member_current st) (currentsize st)) (K p) <
          cnt (counts_up (contact_at st) (member_current ?t) (currentsize st)) (K p)"
        by (rule cnt_less [where x = x]) (use m chat xp in \<open>simp_all add: counts_up_def\<close>)
      ultimately show False by simp
    qed
  qed
qed

theorem blist_add_account_uncounted_witness:
  "purple_blist_add_account (env_ex\<lparr>ui_ops := (\<lambda>_. False)\<rparr>) 7 blist_ex = Some blist_ex \<and>
   \<not> blist_ok (env_ex\<lparr>ui_ops := (\<lambda>_. False)\<rparr>) (online_account 7 blist_ex) kids_ex"
proof -
  have ok: "blist_ok (env_ex\<lparr>ui_ops := (\<lambda>_. False)\<rparr>) blist_ex kids_ex"
    using blist_ex_ok by (simp add: blist_ok_def table_ok_def entries_ok_def groups_ok_def hkey_def)
  show ?thesis by (rule blist_add_account_uncounted [OF ok, of 7 4]) (simp_all add: blist_ex_def)
qed

end
