(* ===== verification/Purple_Ft.thy ===== *)
theory Purple_Ft
  imports Complex_Main Purple_Base
begin

section \<open>File transfers (\<open>libpurple/ft.c\<close>)\<close>

text \<open>
  One transfer: its record with the private data that \<open>ft.c\<close> keeps beside it, and every function
  of the file that changes it.  The protocol plugin and the user interface are reached through
  function pointers, so they are parameters: a \<open>world\<close> says, for one call from outside, what the
  callbacks do to the transfer (\<open>w_call\<close>) and what the sockets, files and data callbacks answer.
  \<open>xf_log\<close> records every call that leaves the module, in order.

  The file named by \<open>local_filename\<close> is the list \<open>xf_file\<close>, \<open>dest_fp\<close> a position in it; \<open>xf_wire\<close>
  is the data that has crossed the connection in the direction of the transfer.  \<open>xf_freed\<close> says
  that the record was given back to the allocator, and \<open>xf_bad\<close> that the code then used it, or
  used a \<open>NULL\<close> \<open>FILE\<close>.  \<open>xf_dialogs\<close> are the open dialogs whose buttons will call back with
  the transfer; \<open>xf_connecting\<close> the same for a pending \<open>purple_proxy_connect\<close>.  Sizes are 64-bit
  words as \<open>size_t\<close> is.
\<close>

type_synonym size_t = "64 word"
type_synonym fnptr = nat

datatype xfer_type = XFER_UNKNOWN | XFER_SEND | XFER_RECEIVE

datatype xfer_status =
    XFER_STATUS_UNKNOWN | XFER_STATUS_NOT_STARTED | XFER_STATUS_ACCEPTED | XFER_STATUS_STARTED
  | XFER_STATUS_DONE | XFER_STATUS_CANCEL_LOCAL | XFER_STATUS_CANCEL_REMOTE

text \<open>Which of the callbacks of \<open>PurpleXferUiOps\<close> the interface has set.\<close>

record xfer_ui_ops =
  ui_new_xfer :: bool
  ui_destroy :: bool
  ui_add_xfer :: bool
  ui_update_progress :: bool
  ui_cancel_local :: bool
  ui_cancel_remote :: bool
  ui_write :: bool
  ui_read :: bool
  ui_data_not_sent :: bool
  ui_add_thumbnail :: bool

record xfer_ops =
  op_init :: "fnptr option"
  op_request_denied :: "fnptr option"
  op_start :: "fnptr option"
  op_end :: "fnptr option"
  op_cancel_send :: "fnptr option"
  op_cancel_recv :: "fnptr option"
  op_read :: "fnptr option"
  op_write :: "fnptr option"
  op_ack :: "fnptr option"

datatype input_condition = INPUT_READ | INPUT_WRITE

text \<open>The lines the module writes into the conversation window, and its error boxes.\<close>

datatype notice =
    Offering cstring | Offered cstring | Starting_transfer cstring | Transfer_complete cstring
  | You_cancelled cstring | They_cancelled cstring | File_error string

datatype dialog = Choose_file | Accept_recv | Ask_accept | Not_usable

datatype call =
    Signal string
  | Op_init fnptr | Op_request_denied fnptr | Op_start fnptr | Op_end fnptr
  | Op_cancel_send fnptr | Op_cancel_recv fnptr | Op_ack fnptr "bytes option" int
  | Ui_new_xfer | Ui_destroy | Ui_add_xfer | Ui_update_progress | Ui_cancel_local
  | Ui_cancel_remote | Ui_data_not_sent bytes int | Ui_add_thumbnail string
  | Conv_write notice bool | Xfer_error xfer_type | Notify_error | Got_im string
  | Request_close | Open_dialog dialog | Proxy_connect string nat
  | Input_add input_condition | Input_remove int | Close_fd int

record xfer =
  xf_ref :: nat
  xf_type :: xfer_type
  xf_account :: string
  xf_who :: string
  xf_message :: cstring
  xf_filename :: cstring
  xf_local_filename :: cstring
  xf_size :: size_t
  xf_dest_fp :: "nat option"
  xf_remote_ip :: cstring
  xf_local_port :: nat
  xf_remote_port :: nat
  xf_fd :: int
  xf_watcher :: int
  xf_bytes_sent :: size_t
  xf_bytes_remaining :: size_t
  xf_start_time :: int
  xf_end_time :: int
  xf_current_buffer_size :: size_t
  xf_status :: xfer_status
  xf_ops :: xfer_ops
  xf_ui_ops :: "xfer_ui_ops option"
  xf_ui_data :: nat
  xf_data :: nat
  xf_ready_ui :: bool
  xf_ready_prpl :: bool
  xf_buffer :: "bytes option"
  xf_thumbnail :: "(bytes \<times> cstring) option"
  xf_file :: bytes
  xf_wire :: bytes
  xf_dialogs :: "dialog list"
  xf_connecting :: bool
  xf_freed :: bool
  xf_bad :: bool
  xf_log :: "call list"

datatype errno = EAGAIN | EOTHER

record world =
  w_call :: "call \<Rightarrow> xfer \<Rightarrow> xfer"
  w_time :: int
  w_op_read :: "int \<times> bytes"
  w_op_write :: "bytes \<Rightarrow> int"
  w_sys_read :: "size_t \<Rightarrow> errno + bytes"
  w_sys_write :: "bytes \<Rightarrow> errno + nat"
  w_ui_read :: "size_t \<Rightarrow> int \<times> bytes"
  w_ui_write :: "bytes \<Rightarrow> int"
  w_fread :: "bytes \<Rightarrow> nat \<times> bool"
  w_fwrite :: "bytes \<Rightarrow> nat"
  w_fopen :: bool
  w_fseek :: bool
  w_stat :: "string \<Rightarrow> (size_t \<times> bool) option"
  w_access :: "string \<Rightarrow> bool"
  w_dir_access :: "string \<Rightarrow> bool"
  w_basename :: "string \<Rightarrow> cstring"
  w_input_add :: int

definition FT_INITIAL_BUFFER_SIZE :: size_t where
  "FT_INITIAL_BUFFER_SIZE = 4096"

definition FT_MAX_BUFFER_SIZE :: size_t where
  "FT_MAX_BUFFER_SIZE = 65535"

text \<open>A call that leaves the module, and the use of the record by one that enters it.\<close>

definition xfer_call :: "world \<Rightarrow> call \<Rightarrow> xfer \<Rightarrow> xfer" where
  "xfer_call W c x = w_call W c (x\<lparr>xf_log := xf_log x @ [c]\<rparr>)"

definition xfer_call_if :: "bool \<Rightarrow> world \<Rightarrow> call \<Rightarrow> xfer \<Rightarrow> xfer" where
  "xfer_call_if b W c x = (if b then xfer_call W c x else x)"

definition xfer_deref :: "xfer \<Rightarrow> xfer" where
  "xfer_deref x = x\<lparr>xf_bad := (xf_bad x \<or> xf_freed x)\<rparr>"

definition has_ui :: "(xfer_ui_ops \<Rightarrow> bool) \<Rightarrow> xfer \<Rightarrow> bool" where
  "has_ui f x = (case xf_ui_ops x of None \<Rightarrow> False | Some u \<Rightarrow> f u)"

definition call_op :: "(xfer_ops \<Rightarrow> fnptr option) \<Rightarrow> (fnptr \<Rightarrow> call) \<Rightarrow> world \<Rightarrow> xfer \<Rightarrow> xfer" where
  "call_op f c W x = (case f (xf_ops x) of None \<Rightarrow> x | Some p \<Rightarrow> xfer_call W (c p) x)"

subsection \<open>Creation, references and status\<close>

definition purple_xfer_new ::
  "world \<Rightarrow> xfer_ui_ops option \<Rightarrow> string option \<Rightarrow> xfer_type \<Rightarrow> cstring \<Rightarrow> xfer option" where
  "purple_xfer_new W ui account type who =
     (case (account, who) of
        (Some a, Some w) \<Rightarrow>
          if type = XFER_UNKNOWN then None
          else
            let x = \<lparr>xf_ref = 1, xf_type = type, xf_account = a, xf_who = w, xf_message = None,
                     xf_filename = None, xf_local_filename = None, xf_size = 0, xf_dest_fp = None,
                     xf_remote_ip = None, xf_local_port = 0, xf_remote_port = 0, xf_fd = -1,
                     xf_watcher = 0, xf_bytes_sent = 0, xf_bytes_remaining = 0, xf_start_time = 0,
                     xf_end_time = 0, xf_current_buffer_size = FT_INITIAL_BUFFER_SIZE,
                     xf_status = XFER_STATUS_UNKNOWN,
                     xf_ops = \<lparr>op_init = None, op_request_denied = None, op_start = None,
                               op_end = None, op_cancel_send = None, op_cancel_recv = None,
                               op_read = None, op_write = None, op_ack = None\<rparr>,
                     xf_ui_ops = ui, xf_ui_data = 0, xf_data = 0,
                     xf_ready_ui = False, xf_ready_prpl = False,
                     xf_buffer = (case ui of None \<Rightarrow> Some []
                                  | Some u \<Rightarrow> if ui_data_not_sent u then None else Some []),
                     xf_thumbnail = None, xf_file = [], xf_wire = [], xf_dialogs = [],
                     xf_connecting = False, xf_freed = False, xf_bad = False, xf_log = []\<rparr>
            in Some (xfer_call_if (has_ui ui_new_xfer x) W Ui_new_xfer x)
      | _ \<Rightarrow> None)"

definition purple_xfer_ref :: "xfer \<Rightarrow> xfer" where
  "purple_xfer_ref x = (xfer_deref x)\<lparr>xf_ref := xf_ref x + 1\<rparr>"

definition status_signal :: "xfer_type \<Rightarrow> xfer_status \<Rightarrow> string option" where
  "status_signal type status =
     (case type of
        XFER_SEND \<Rightarrow>
          (case status of
             XFER_STATUS_ACCEPTED \<Rightarrow> Some ''file-send-accept''
           | XFER_STATUS_STARTED \<Rightarrow> Some ''file-send-start''
           | XFER_STATUS_DONE \<Rightarrow> Some ''file-send-complete''
           | XFER_STATUS_CANCEL_LOCAL \<Rightarrow> Some ''file-send-cancel''
           | XFER_STATUS_CANCEL_REMOTE \<Rightarrow> Some ''file-send-cancel''
           | _ \<Rightarrow> None)
      | XFER_RECEIVE \<Rightarrow>
          (case status of
             XFER_STATUS_ACCEPTED \<Rightarrow> Some ''file-recv-accept''
           | XFER_STATUS_STARTED \<Rightarrow> Some ''file-recv-start''
           | XFER_STATUS_DONE \<Rightarrow> Some ''file-recv-complete''
           | XFER_STATUS_CANCEL_LOCAL \<Rightarrow> Some ''file-recv-cancel''
           | XFER_STATUS_CANCEL_REMOTE \<Rightarrow> Some ''file-recv-cancel''
           | _ \<Rightarrow> None)
      | XFER_UNKNOWN \<Rightarrow> None)"

definition purple_xfer_set_status :: "world \<Rightarrow> xfer_status \<Rightarrow> xfer \<Rightarrow> xfer" where
  "purple_xfer_set_status W status x0 =
     (let x = xfer_deref x0 in
      if xf_status x = status then x
      else let x1 = x\<lparr>xf_status := status\<rparr> in
        (case status_signal (xf_type x1) status of
           None \<Rightarrow> x1
         | Some s \<Rightarrow> xfer_call W (Signal s) x1))"

definition purple_xfer_is_canceled :: "xfer \<Rightarrow> bool" where
  "purple_xfer_is_canceled x =
     (xf_status x = XFER_STATUS_CANCEL_LOCAL \<or> xf_status x = XFER_STATUS_CANCEL_REMOTE)"

definition purple_xfer_is_completed :: "xfer \<Rightarrow> bool" where
  "purple_xfer_is_completed x = (xf_status x = XFER_STATUS_DONE)"

text \<open>\<open>purple_request_close_with_handle\<close>: the file chooser and the two questions have the
  transfer as their handle, the error box has none and stays.\<close>

definition request_close_with_handle :: "world \<Rightarrow> xfer \<Rightarrow> xfer" where
  "request_close_with_handle W x =
     xfer_call W Request_close (x\<lparr>xf_dialogs := filter (\<lambda>d. d = Not_usable) (xf_dialogs x)\<rparr>)"

text \<open>The part of both cancellations after the message: tell the protocol, stop watching, close
  the socket and the file, tell the interface, nothing remains.\<close>

definition input_remove_watcher :: "world \<Rightarrow> xfer \<Rightarrow> xfer" where
  "input_remove_watcher W x =
     (if xf_watcher x \<noteq> 0
      then (xfer_call W (Input_remove (xf_watcher x)) x)\<lparr>xf_watcher := 0\<rparr>
      else x)"

definition close_files :: "world \<Rightarrow> xfer \<Rightarrow> xfer" where
  "close_files W x =
     (let x1 = xfer_call_if (xf_fd x \<noteq> -1) W (Close_fd (xf_fd x)) x
      in x1\<lparr>xf_dest_fp := None\<rparr>)"

definition cancel_op :: "world \<Rightarrow> xfer \<Rightarrow> xfer" where
  "cancel_op W x =
     (if xf_type x = XFER_SEND then call_op op_cancel_send Op_cancel_send W x
      else call_op op_cancel_recv Op_cancel_recv W x)"

text \<open>\<open>purple_xfer_cancel_local\<close> up to its last line, the \<open>unref\<close>; likewise for the remote one.\<close>

definition cancel_local_body :: "world \<Rightarrow> xfer \<Rightarrow> xfer" where
  "cancel_local_body W x0 =
     (let x1 = request_close_with_handle W (xfer_deref x0);
          x2 = (purple_xfer_set_status W XFER_STATUS_CANCEL_LOCAL x1)\<lparr>xf_end_time := w_time W\<rparr>;
          x3 = xfer_call W (Conv_write (You_cancelled (xf_filename x2)) False) x2;
          x4 = close_files W (input_remove_watcher W (cancel_op W x3));
          x5 = xfer_call_if (has_ui ui_cancel_local x4) W Ui_cancel_local x4
      in x5\<lparr>xf_bytes_remaining := 0\<rparr>)"

definition cancel_remote_body :: "world \<Rightarrow> xfer \<Rightarrow> xfer" where
  "cancel_remote_body W x0 =
     (let x1 = request_close_with_handle W (xfer_deref x0);
          x2 = (purple_xfer_set_status W XFER_STATUS_CANCEL_REMOTE x1)\<lparr>xf_end_time := w_time W\<rparr>;
          x3 = xfer_call W (Conv_write (They_cancelled (xf_filename x2)) True) x2;
          x3' = xfer_call W (Xfer_error (xf_type x3)) x3;
          x4 = close_files W (input_remove_watcher W (cancel_op W x3'));
          x5 = xfer_call_if (has_ui ui_cancel_remote x4) W Ui_cancel_remote x4
      in x5\<lparr>xf_bytes_remaining := 0\<rparr>)"

text \<open>
  \<open>purple_xfer_destroy\<close> is called with the count at 0.  It cancels a transfer that is still
  running; the \<open>unref\<close> at the end of that cancellation finds the count 0 and returns
  (\<open>g_return_if_fail (xfer->ref > 0)\<close>), so the mutual recursion of the source ends there.
\<close>

definition purple_xfer_destroy :: "world \<Rightarrow> xfer \<Rightarrow> xfer" where
  "purple_xfer_destroy W x0 =
     (let x1 = request_close_with_handle W (xfer_deref x0);
          x2 = (if xf_status x1 = XFER_STATUS_STARTED then cancel_local_body W x1 else x1);
          x3 = xfer_call_if (has_ui ui_destroy x2) W Ui_destroy x2
      in x3\<lparr>xf_freed := True\<rparr>)"

definition purple_xfer_unref :: "world \<Rightarrow> xfer \<Rightarrow> xfer" where
  "purple_xfer_unref W x0 =
     (let x = xfer_deref x0 in
      if xf_ref x > 0
      then let x1 = x\<lparr>xf_ref := xf_ref x - 1\<rparr>
           in if xf_ref x1 = 0 then purple_xfer_destroy W x1 else x1
      else x)"

definition purple_xfer_cancel_local :: "world \<Rightarrow> xfer \<Rightarrow> xfer" where
  "purple_xfer_cancel_local W x = purple_xfer_unref W (cancel_local_body W x)"

definition purple_xfer_cancel_remote :: "world \<Rightarrow> xfer \<Rightarrow> xfer" where
  "purple_xfer_cancel_remote W x = purple_xfer_unref W (cancel_remote_body W x)"

subsection \<open>Fields\<close>

definition purple_xfer_set_message :: "cstring \<Rightarrow> xfer \<Rightarrow> xfer" where
  "purple_xfer_set_message m x = (xfer_deref x)\<lparr>xf_message := m\<rparr>"

definition purple_xfer_set_filename :: "cstring \<Rightarrow> xfer \<Rightarrow> xfer" where
  "purple_xfer_set_filename f x = (xfer_deref x)\<lparr>xf_filename := f\<rparr>"

definition purple_xfer_set_local_filename :: "cstring \<Rightarrow> xfer \<Rightarrow> xfer" where
  "purple_xfer_set_local_filename f x = (xfer_deref x)\<lparr>xf_local_filename := f\<rparr>"

definition purple_xfer_set_size :: "size_t \<Rightarrow> xfer \<Rightarrow> xfer" where
  "purple_xfer_set_size n x =
     (xfer_deref x)\<lparr>xf_size := n, xf_bytes_remaining := n - xf_bytes_sent x\<rparr>"

definition purple_xfer_set_bytes_sent :: "size_t \<Rightarrow> xfer \<Rightarrow> xfer" where
  "purple_xfer_set_bytes_sent n x =
     (xfer_deref x)\<lparr>xf_bytes_sent := n, xf_bytes_remaining := xf_size x - n\<rparr>"

definition purple_xfer_set_init_fnc :: "fnptr option \<Rightarrow> xfer \<Rightarrow> xfer" where
  "purple_xfer_set_init_fnc f x = (xfer_deref x)\<lparr>xf_ops := (xf_ops x)\<lparr>op_init := f\<rparr>\<rparr>"

definition purple_xfer_set_request_denied_fnc :: "fnptr option \<Rightarrow> xfer \<Rightarrow> xfer" where
  "purple_xfer_set_request_denied_fnc f x =
     (xfer_deref x)\<lparr>xf_ops := (xf_ops x)\<lparr>op_request_denied := f\<rparr>\<rparr>"

definition purple_xfer_set_read_fnc :: "fnptr option \<Rightarrow> xfer \<Rightarrow> xfer" where
  "purple_xfer_set_read_fnc f x = (xfer_deref x)\<lparr>xf_ops := (xf_ops x)\<lparr>op_read := f\<rparr>\<rparr>"

definition purple_xfer_set_write_fnc :: "fnptr option \<Rightarrow> xfer \<Rightarrow> xfer" where
  "purple_xfer_set_write_fnc f x = (xfer_deref x)\<lparr>xf_ops := (xf_ops x)\<lparr>op_write := f\<rparr>\<rparr>"

definition purple_xfer_set_ack_fnc :: "fnptr option \<Rightarrow> xfer \<Rightarrow> xfer" where
  "purple_xfer_set_ack_fnc f x = (xfer_deref x)\<lparr>xf_ops := (xf_ops x)\<lparr>op_ack := f\<rparr>\<rparr>"

definition purple_xfer_set_start_fnc :: "fnptr option \<Rightarrow> xfer \<Rightarrow> xfer" where
  "purple_xfer_set_start_fnc f x = (xfer_deref x)\<lparr>xf_ops := (xf_ops x)\<lparr>op_start := f\<rparr>\<rparr>"

definition purple_xfer_set_end_fnc :: "fnptr option \<Rightarrow> xfer \<Rightarrow> xfer" where
  "purple_xfer_set_end_fnc f x = (xfer_deref x)\<lparr>xf_ops := (xf_ops x)\<lparr>op_end := f\<rparr>\<rparr>"

definition purple_xfer_set_cancel_send_fnc :: "fnptr option \<Rightarrow> xfer \<Rightarrow> xfer" where
  "purple_xfer_set_cancel_send_fnc f x =
     (xfer_deref x)\<lparr>xf_ops := (xf_ops x)\<lparr>op_cancel_send := f\<rparr>\<rparr>"

definition purple_xfer_set_cancel_recv_fnc :: "fnptr option \<Rightarrow> xfer \<Rightarrow> xfer" where
  "purple_xfer_set_cancel_recv_fnc f x =
     (xfer_deref x)\<lparr>xf_ops := (xf_ops x)\<lparr>op_cancel_recv := f\<rparr>\<rparr>"

text \<open>The \<open>double\<close> quotient is taken exactly.\<close>

definition purple_xfer_get_progress :: "xfer \<Rightarrow> rat" where
  "purple_xfer_get_progress x =
     (if xf_size x = 0 then 0
      else rat_of_nat (unat (xf_bytes_sent x)) / rat_of_nat (unat (xf_size x)))"

definition purple_xfer_update_progress :: "world \<Rightarrow> xfer \<Rightarrow> xfer" where
  "purple_xfer_update_progress W x0 =
     (let x = xfer_deref x0 in xfer_call_if (has_ui ui_update_progress x) W Ui_update_progress x)"

definition purple_xfer_set_thumbnail :: "bytes option \<Rightarrow> cstring \<Rightarrow> xfer \<Rightarrow> xfer" where
  "purple_xfer_set_thumbnail thumb mimetype x =
     (xfer_deref x)\<lparr>xf_thumbnail :=
        (case thumb of
           None \<Rightarrow> None
         | Some d \<Rightarrow> if d \<noteq> [] then Some (d, mimetype) else None)\<rparr>"

definition purple_xfer_prepare_thumbnail :: "world \<Rightarrow> string \<Rightarrow> xfer \<Rightarrow> xfer" where
  "purple_xfer_prepare_thumbnail W formats x0 =
     (let x = xfer_deref x0 in xfer_call_if (has_ui ui_add_thumbnail x) W (Ui_add_thumbnail formats) x)"

definition purple_xfer_add :: "world \<Rightarrow> xfer \<Rightarrow> xfer" where
  "purple_xfer_add W x0 =
     (let x = xfer_deref x0 in xfer_call_if (has_ui ui_add_xfer x) W Ui_add_xfer x)"

definition purple_xfer_set_completed :: "world \<Rightarrow> bool \<Rightarrow> xfer \<Rightarrow> xfer" where
  "purple_xfer_set_completed W completed x0 =
     (let x = xfer_deref x0;
          x1 = (if completed
                then let y = purple_xfer_set_status W XFER_STATUS_DONE x
                     in xfer_call W (Conv_write (Transfer_complete (xf_filename y)) False) y
                else x)
      in xfer_call_if (has_ui ui_update_progress x1) W Ui_update_progress x1)"

definition purple_xfer_end :: "world \<Rightarrow> xfer \<Rightarrow> xfer" where
  "purple_xfer_end W x0 =
     (let x = xfer_deref x0 in
      if \<not> purple_xfer_is_completed x then purple_xfer_cancel_local W x
      else
        let x1 = call_op op_end Op_end W (x\<lparr>xf_end_time := w_time W\<rparr>)
        in purple_xfer_unref W (close_files W (input_remove_watcher W x1)))"

subsection \<open>Moving the data\<close>

text \<open>\<open>MIN (current_buffer_size * 1.5, FT_MAX_BUFFER_SIZE)\<close>: the product is a \<open>double\<close> (exact for
  sizes up to 2^52), the assignment truncates.\<close>

definition purple_xfer_increase_buffer_size :: "xfer \<Rightarrow> xfer" where
  "purple_xfer_increase_buffer_size x =
     x\<lparr>xf_current_buffer_size :=
         of_nat (min (unat (xf_current_buffer_size x) * 3 div 2) (unat FT_MAX_BUFFER_SIZE))\<rparr>"

text \<open>One read from the connection, by the protocol's function or from the socket (an empty read
  is the end of the stream), and one write to it.\<close>

definition xfer_input :: "world \<Rightarrow> size_t \<Rightarrow> xfer \<Rightarrow> int \<times> bytes" where
  "xfer_input W s x =
     (case op_read (xf_ops x) of
        Some p \<Rightarrow> w_op_read W
      | None \<Rightarrow>
          (case w_sys_read W s of
             Inl EAGAIN \<Rightarrow> (0, [])
           | Inl EOTHER \<Rightarrow> (-1, [])
           | Inr b \<Rightarrow> if b = [] then (-1, []) else (int (length b), b)))"

definition purple_xfer_read :: "world \<Rightarrow> xfer \<Rightarrow> int \<times> bytes \<times> xfer" where
  "purple_xfer_read W x0 =
     (let x = xfer_deref x0;
          s = (if xf_size x = 0 then xf_current_buffer_size x
               else min (xf_bytes_remaining x) (xf_current_buffer_size x));
          (r, buffer) = xfer_input W s x;
          x1 = (if r \<ge> 0 \<and> word_of_int r = xf_current_buffer_size x
                then purple_xfer_increase_buffer_size x else x)
      in (r, buffer, x1\<lparr>xf_wire := xf_wire x1 @
            (if xf_type x1 = XFER_RECEIVE then take (nat r) buffer else [])\<rparr>))"

definition xfer_output :: "world \<Rightarrow> bytes \<Rightarrow> xfer \<Rightarrow> int" where
  "xfer_output W out x =
     (case op_write (xf_ops x) of
        Some p \<Rightarrow> w_op_write W out
      | None \<Rightarrow> (case w_sys_write W out of
                   Inl EAGAIN \<Rightarrow> 0 | Inl EOTHER \<Rightarrow> -1 | Inr n \<Rightarrow> int n))"

definition purple_xfer_write :: "world \<Rightarrow> bytes \<Rightarrow> xfer \<Rightarrow> int \<times> xfer" where
  "purple_xfer_write W buffer x0 =
     (let x = xfer_deref x0 in
      if buffer = [] then (0, x)
      else
        let s = min (xf_bytes_remaining x) (of_nat (length buffer));
            out = take (unat s) buffer;
            r = xfer_output W out x;
            x1 = x\<lparr>xf_wire := xf_wire x @
                   (if xf_type x = XFER_SEND then take (nat r) out else [])\<rparr>;
            x2 = (if r \<ge> 0 \<and> xf_bytes_sent x1 + word_of_int r \<ge> xf_size x1 \<and>
                      \<not> purple_xfer_is_completed x1
                  then purple_xfer_set_completed W True x1 else x1)
        in (r, x2))"

text \<open>\<open>fwrite\<close> and \<open>fread\<close> at the position of the open file; a write behind its end leaves zeros.\<close>

definition file_put :: "nat \<Rightarrow> bytes \<Rightarrow> bytes \<Rightarrow> bytes" where
  "file_put pos b f =
     take pos f @ replicate (pos - length f) 0 @ b @ drop (pos + length b) f"

definition xfer_fwrite :: "world \<Rightarrow> bytes \<Rightarrow> xfer \<Rightarrow> nat \<times> xfer" where
  "xfer_fwrite W b x =
     (case xf_dest_fp x of
        None \<Rightarrow> (0, x\<lparr>xf_bad := True\<rparr>)
      | Some pos \<Rightarrow>
          let n = w_fwrite W b
          in (n, x\<lparr>xf_file := file_put pos (take n b) (xf_file x),
                   xf_dest_fp := Some (pos + length (take n b))\<rparr>))"

definition xfer_fread :: "world \<Rightarrow> size_t \<Rightarrow> xfer \<Rightarrow> bytes \<times> bool \<times> xfer" where
  "xfer_fread W s x =
     (case xf_dest_fp x of
        None \<Rightarrow> ([], True, x\<lparr>xf_bad := True\<rparr>)
      | Some pos \<Rightarrow>
          let there = take (unat s) (drop pos (xf_file x));
              (n, ferror) = w_fread W there;
              got = take n there
          in (got, ferror, x\<lparr>xf_dest_fp := Some (pos + length got)\<rparr>))"

definition purple_xfer_write_file :: "world \<Rightarrow> bytes \<Rightarrow> xfer \<Rightarrow> bool \<times> xfer" where
  "purple_xfer_write_file W buffer x0 =
     (let x = xfer_deref x0;
          len = of_nat (length buffer) :: size_t;
          n = (if xf_size x > 0 \<and> len > xf_bytes_remaining x then xf_bytes_remaining x else len);
          b = take (unat n) buffer
      in if has_ui ui_write x
         then (if word_of_int (w_ui_write W b) \<noteq> n
               then (False, purple_xfer_cancel_local W x)
               else (True, purple_xfer_set_bytes_sent (xf_bytes_sent x + n) x))
         else if xf_dest_fp x = None then (False, purple_xfer_cancel_local W x)
         else let (wc, x1) = xfer_fwrite W b x in
              if wc \<noteq> unat n then (False, purple_xfer_cancel_local W x1)
              else (True, purple_xfer_set_bytes_sent (xf_bytes_sent x1 + n) x1))"

definition purple_xfer_read_file :: "world \<Rightarrow> size_t \<Rightarrow> xfer \<Rightarrow> int \<times> bytes \<times> xfer" where
  "purple_xfer_read_file W sz x0 =
     (let x = xfer_deref x0;
          account = (\<lambda>got_len buffer y.
            (got_len, buffer,
             if got_len > 0
             then purple_xfer_set_bytes_sent (xf_bytes_sent y + word_of_int got_len) y else y))
      in if has_ui ui_read x
         then (let (got_len, buffer_got) = w_ui_read W sz in
               if got_len \<ge> 0 \<and> (word_of_int got_len :: size_t) > sz
               then (-1, [], purple_xfer_cancel_local W x)
               else account got_len (take (nat got_len) buffer_got) x)
         else if xf_dest_fp x = None then (-1, [], purple_xfer_cancel_local W x)
         else (let (got, ferror, x1) = xfer_fread W sz x in
               if length got \<noteq> unat sz \<and> ferror
               then (-1, [], purple_xfer_cancel_local W x1)
               else account (int (length got)) got x1))"

text \<open>
  \<open>do_transfer\<close> by direction.  \<open>None\<close> stands for an early return; otherwise \<open>r\<close> and the buffer
  that the common end of the function works with.
\<close>

definition do_transfer_receive :: "world \<Rightarrow> xfer \<Rightarrow> (int \<times> bytes option) option \<times> xfer" where
  "do_transfer_receive W x0 =
     (let (r, buffer, x) = purple_xfer_read W x0 in
      if r > 0
      then
        let b = take (nat r) buffer;
            (wc, x1) = (if has_ui ui_write x then (word_of_int (w_ui_write W b), x)
                        else let (n, y) = xfer_fwrite W b x in (of_nat n :: size_t, y))
        in if wc \<noteq> word_of_int r then (None, purple_xfer_cancel_local W x1)
           else
             (Some (r, Some buffer),
              if xf_size x1 > 0 \<and> xf_bytes_sent x1 + word_of_int r \<ge> xf_size x1
              then purple_xfer_set_completed W True x1 else x1)
      else if r < 0 then (None, purple_xfer_cancel_remote W x)
      else (Some (0, Some buffer), x))"

text \<open>What \<open>do_transfer\<close> has to read before it writes: nothing when the buffer of unsent data
  already holds \<open>s\<close> bytes.\<close>

definition send_wanted :: "xfer \<Rightarrow> size_t \<Rightarrow> size_t option" where
  "send_wanted x s =
     (case xf_buffer x of
        None \<Rightarrow> Some s
      | Some b \<Rightarrow> if of_nat (length b) < s then Some (s - of_nat (length b)) else None)"

definition send_fetch :: "world \<Rightarrow> size_t \<Rightarrow> xfer \<Rightarrow> bytes option \<times> xfer" where
  "send_fetch W s x =
     (if has_ui ui_read x
      then
        let (tmp, buffer) = w_ui_read W s in
        if tmp = 0 then (None, (input_remove_watcher W x)\<lparr>xf_ready_prpl := True\<rparr>)
        else if tmp < 0 then (None, purple_xfer_cancel_local W x)
        else (Some (take (nat tmp) buffer), x)
      else
        let (got, ferror, x1) = xfer_fread W s x in
        if length got \<noteq> unat s then (None, purple_xfer_cancel_local W x1)
        else (Some got, x1))"

text \<open>\<open>g_byte_array_remove_range (array, 0, r)\<close> refuses a range that is not inside the array.\<close>

definition remove_front :: "int \<Rightarrow> bytes \<Rightarrow> bytes" where
  "remove_front r b = (if 0 \<le> r \<and> r \<le> int (length b) then drop (nat r) b else b)"

text \<open>After a failed write the code looks at \<open>priv->buffer\<close> once more, which the cancellation has
  freed with the transfer if it gave up the last reference.\<close>

definition send_write :: "world \<Rightarrow> bytes \<Rightarrow> xfer \<Rightarrow> (int \<times> bytes option) option \<times> xfer" where
  "send_write W got x =
     (let buffer = (case xf_buffer x of None \<Rightarrow> got | Some b \<Rightarrow> b @ got);
          x1 = x\<lparr>xf_buffer := map_option (\<lambda>b. b @ got) (xf_buffer x)\<rparr>;
          (r, x2) = purple_xfer_write W buffer x1
      in if r = -1 then (None, xfer_deref (purple_xfer_cancel_remote W x2))
         else
           let x3 = (if r \<ge> 0 \<and> r = int (length buffer)
                     then purple_xfer_increase_buffer_size x2
                     else xfer_call_if (has_ui ui_data_not_sent x2) W
                            (Ui_data_not_sent (drop (nat r) buffer) (int (length buffer) - r)) x2)
           in (Some (r, case xf_buffer x3 of None \<Rightarrow> Some buffer | Some _ \<Rightarrow> None),
               x3\<lparr>xf_buffer := map_option (remove_front r) (xf_buffer x3)\<rparr>))"

definition do_transfer_send :: "world \<Rightarrow> xfer \<Rightarrow> (int \<times> bytes option) option \<times> xfer" where
  "do_transfer_send W x =
     (let s = min (xf_bytes_remaining x) (xf_current_buffer_size x) in
      if s = 0 then (None, input_remove_watcher W x)
      else
        (case send_wanted x s of
           None \<Rightarrow> send_write W [] x
         | Some s' \<Rightarrow>
             (case send_fetch W s' x of
                (None, x1) \<Rightarrow> (None, x1)
              | (Some got, x1) \<Rightarrow> send_write W got x1)))"

definition do_transfer_end :: "world \<Rightarrow> int \<Rightarrow> bytes option \<Rightarrow> xfer \<Rightarrow> xfer" where
  "do_transfer_end W r buffer x =
     (let x1 = (if r > 0
                then
                  let y = x\<lparr>xf_bytes_remaining :=
                            (if xf_size x > 0 then xf_bytes_remaining x - word_of_int r
                             else xf_bytes_remaining x),
                          xf_bytes_sent := xf_bytes_sent x + word_of_int r\<rparr>;
                      z = call_op op_ack (\<lambda>p. Op_ack p buffer r) W y
                  in xfer_call_if (has_ui ui_update_progress z) W Ui_update_progress z
                else x)
      in if purple_xfer_is_completed x1 then purple_xfer_end W x1 else x1)"

definition do_transfer :: "world \<Rightarrow> xfer \<Rightarrow> xfer" where
  "do_transfer W x0 =
     (let x = xfer_deref x0 in
      case (case xf_type x of
              XFER_RECEIVE \<Rightarrow> do_transfer_receive W x
            | XFER_SEND \<Rightarrow> do_transfer_send W x
            | XFER_UNKNOWN \<Rightarrow> (Some (0, None), x)) of
        (None, x1) \<Rightarrow> x1
      | (Some (r, buffer), x1) \<Rightarrow> do_transfer_end W r buffer x1)"

subsection \<open>Starting, and the handshake of protocol and interface\<close>

definition transfer_cb :: "world \<Rightarrow> xfer \<Rightarrow> xfer" where
  "transfer_cb W x0 =
     (let x = xfer_deref x0 in
      if xf_dest_fp x = None
      then
        if \<not> xf_ready_ui x
        then (xfer_call W (Input_remove (xf_watcher x)) (x\<lparr>xf_ready_prpl := True\<rparr>))\<lparr>xf_watcher := 0\<rparr>
        else do_transfer W (x\<lparr>xf_ready_ui := False, xf_ready_prpl := False\<rparr>)
      else do_transfer W x)"

definition input_add :: "world \<Rightarrow> input_condition \<Rightarrow> xfer \<Rightarrow> xfer" where
  "input_add W cond x = (xfer_call W (Input_add cond) x)\<lparr>xf_watcher := w_input_add W\<rparr>"

definition ui_moves_data :: "xfer \<Rightarrow> bool" where
  "ui_moves_data x = (has_ui ui_read x \<or> has_ui ui_write x)"

definition purple_xfer_show_file_error :: "world \<Rightarrow> string \<Rightarrow> xfer \<Rightarrow> xfer" where
  "purple_xfer_show_file_error W filename x =
     xfer_call W (Xfer_error (xf_type x)) (xfer_call W (Conv_write (File_error filename) True) x)"

text \<open>The file is created or emptied for a receipt (mode \<open>wb\<close>); then the position is set to the
  number of bytes already there.  \<open>None\<close> is the return after an error.\<close>

definition open_file :: "world \<Rightarrow> xfer \<Rightarrow> xfer option \<times> xfer" where
  "open_file W x =
     (let name = (case xf_local_filename x of None \<Rightarrow> [] | Some f \<Rightarrow> f) in
      if \<not> w_fopen W \<or> xf_local_filename x = None
      then (None, purple_xfer_cancel_local W (purple_xfer_show_file_error W name x))
      else
        let x1 = x\<lparr>xf_dest_fp := Some 0,
                   xf_file := (if xf_type x = XFER_RECEIVE then [] else xf_file x)\<rparr>
        in if \<not> w_fseek W
           then (None, purple_xfer_cancel_local W (purple_xfer_show_file_error W name x1))
           else let x2 = x1\<lparr>xf_dest_fp := Some (unat (xf_bytes_sent x1))\<rparr> in (Some x2, x2))"

definition begin_transfer :: "world \<Rightarrow> input_condition \<Rightarrow> xfer \<Rightarrow> xfer" where
  "begin_transfer W cond x0 =
     (let x = xfer_deref x0 in
      if xf_start_time x \<noteq> 0 then x
      else
        (case (if ui_moves_data x then (Some x, x) else open_file W x) of
           (None, x1) \<Rightarrow> x1
         | (Some x1, _) \<Rightarrow>
             let x2 = (if xf_fd x1 \<noteq> -1 then input_add W cond x1 else x1)
             in call_op op_start Op_start W (x2\<lparr>xf_start_time := w_time W\<rparr>)))"

definition connect_cb :: "world \<Rightarrow> int \<Rightarrow> xfer \<Rightarrow> xfer" where
  "connect_cb W source x0 =
     (let x = (xfer_deref x0)\<lparr>xf_connecting := False\<rparr> in
      if source < 0 then purple_xfer_cancel_local W x
      else begin_transfer W INPUT_READ (x\<lparr>xf_fd := source\<rparr>))"

definition purple_xfer_ui_ready :: "world \<Rightarrow> xfer \<Rightarrow> xfer" where
  "purple_xfer_ui_ready W x0 =
     (let x = (xfer_deref x0)\<lparr>xf_ready_ui := True\<rparr> in
      if \<not> xf_ready_prpl x then x
      else
        let cond = (if xf_type x = XFER_SEND then INPUT_WRITE else INPUT_READ);
            x1 = (if xf_watcher x = 0 \<and> xf_fd x \<noteq> -1 then input_add W cond x else x)
        in do_transfer W (x1\<lparr>xf_ready_ui := False, xf_ready_prpl := False\<rparr>))"

definition purple_xfer_prpl_ready :: "world \<Rightarrow> xfer \<Rightarrow> xfer" where
  "purple_xfer_prpl_ready W x0 =
     (let x = (xfer_deref x0)\<lparr>xf_ready_prpl := True\<rparr> in
      if xf_dest_fp x = None \<and> \<not> xf_ready_ui x then x
      else do_transfer W (x\<lparr>xf_ready_ui := False, xf_ready_prpl := False\<rparr>))"

definition purple_xfer_start :: "world \<Rightarrow> int \<Rightarrow> (string \<times> nat) option \<Rightarrow> xfer \<Rightarrow> xfer" where
  "purple_xfer_start W fd addr x0 =
     (let x = xfer_deref x0 in
      if xf_type x = XFER_UNKNOWN then x
      else
        let x1 = purple_xfer_set_status W XFER_STATUS_STARTED x;
            fd' = (if fd = 0 then -1 else fd)
        in if xf_type x = XFER_RECEIVE
           then (case addr of
                   Some (ip, port) \<Rightarrow>
                     (xfer_call W (Proxy_connect ip port)
                        (x1\<lparr>xf_remote_ip := Some ip, xf_remote_port := port\<rparr>))\<lparr>xf_connecting := True\<rparr>
                 | None \<Rightarrow> begin_transfer W INPUT_READ (x1\<lparr>xf_fd := fd'\<rparr>))
           else begin_transfer W INPUT_WRITE (x1\<lparr>xf_fd := fd'\<rparr>))"

subsection \<open>Asking the user\<close>

definition open_dialog :: "world \<Rightarrow> dialog \<Rightarrow> xfer \<Rightarrow> xfer" where
  "open_dialog W d x = xfer_call W (Open_dialog d) (x\<lparr>xf_dialogs := xf_dialogs x @ [d]\<rparr>)"

definition purple_xfer_choose_file :: "world \<Rightarrow> xfer \<Rightarrow> xfer" where
  "purple_xfer_choose_file W x = open_dialog W Choose_file (xfer_deref x)"

definition purple_xfer_ask_recv :: "world \<Rightarrow> xfer \<Rightarrow> xfer" where
  "purple_xfer_ask_recv W x0 =
     (let x = xfer_deref x0 in
      if xf_status x \<noteq> XFER_STATUS_ACCEPTED
      then open_dialog W Accept_recv
             (case xf_message x of None \<Rightarrow> x | Some m \<Rightarrow> xfer_call W (Got_im m) x)
      else purple_xfer_choose_file W x)"

definition purple_xfer_ask_accept :: "world \<Rightarrow> xfer \<Rightarrow> xfer" where
  "purple_xfer_ask_accept W x = open_dialog W Ask_accept (xfer_deref x)"

definition purple_xfer_request :: "world \<Rightarrow> xfer \<Rightarrow> xfer" where
  "purple_xfer_request W x0 =
     (let x = xfer_deref x0 in
      if op_init (xf_ops x) = None then x
      else
        let x1 = purple_xfer_ref x in
        if xf_type x1 = XFER_RECEIVE
        then
          let x2 = xfer_call W (Signal ''file-recv-request'') x1 in
          if xf_status x2 = XFER_STATUS_CANCEL_LOCAL then purple_xfer_cancel_local W x2
          else if xf_filename x2 \<noteq> None \<or> xf_status x2 = XFER_STATUS_ACCEPTED
          then
            let x3 = xfer_call W (Conv_write (Offered (xf_filename x2)) False) x2
            in if xf_local_filename x3 = None then purple_xfer_ask_recv W x3 else x3
          else purple_xfer_ask_accept W x2
        else purple_xfer_choose_file W x1)"

fun has_substring :: "string \<Rightarrow> string \<Rightarrow> bool" where
  "has_substring p [] = (p = [])"
| "has_substring p (c # s) = (take (length p) (c # s) = p \<or> has_substring p s)"

text \<open>Calling \<open>init\<close>, which is mandatory: without one the code jumps through \<open>NULL\<close>.\<close>

definition call_init :: "world \<Rightarrow> xfer \<Rightarrow> xfer" where
  "call_init W x =
     (if op_init (xf_ops x) = None then x\<lparr>xf_bad := True\<rparr> else call_op op_init Op_init W x)"

definition purple_xfer_request_accepted :: "world \<Rightarrow> string option \<Rightarrow> xfer \<Rightarrow> xfer" where
  "purple_xfer_request_accepted W fname x0 =
     (let x = xfer_deref x0 in
      case fname of
        None \<Rightarrow>
          if xf_type x = XFER_RECEIVE then call_init W (x\<lparr>xf_status := XFER_STATUS_ACCEPTED\<rparr>) else x
      | Some filename \<Rightarrow>
          if xf_type x = XFER_SEND
          then
            if has_substring ''../'' filename
            then purple_xfer_unref W (xfer_call W (Xfer_error XFER_SEND) x)
            else
              (case (if ui_moves_data x then Some (purple_xfer_set_local_filename (Some filename) x)
                     else (case w_stat W filename of
                             None \<Rightarrow> None
                           | Some (n, _) \<Rightarrow>
                               Some (purple_xfer_set_size n
                                       (purple_xfer_set_local_filename (Some filename) x)))) of
                 None \<Rightarrow> purple_xfer_unref W (purple_xfer_show_file_error W filename x)
               | Some x1 \<Rightarrow>
                   let x2 = purple_xfer_set_filename (w_basename W filename) x1;
                       x3 = xfer_call W (Conv_write (Offering (w_basename W filename)) False) x2
                   in call_init W (purple_xfer_add W x3))
          else
            let x1 = purple_xfer_set_local_filename (Some filename)
                       (x\<lparr>xf_status := XFER_STATUS_ACCEPTED\<rparr>);
                x2 = xfer_call W (Conv_write (Starting_transfer (xf_filename x1)) False) x1
            in call_init W (purple_xfer_add W x2))"

definition purple_xfer_request_denied :: "world \<Rightarrow> xfer \<Rightarrow> xfer" where
  "purple_xfer_request_denied W x0 =
     (let x = xfer_deref x0
      in purple_xfer_unref W (call_op op_request_denied Op_request_denied W x))"

definition refuse_file :: "world \<Rightarrow> xfer \<Rightarrow> xfer" where
  "refuse_file W x = open_dialog W Not_usable (purple_xfer_ref x)"

definition purple_xfer_choose_file_ok_cb :: "world \<Rightarrow> string \<Rightarrow> xfer \<Rightarrow> xfer" where
  "purple_xfer_choose_file_ok_cb W filename x0 =
     (let x = xfer_deref x0;
          type = xf_type x;
          y = (case w_stat W filename of
                 None \<Rightarrow>
                   if type = XFER_RECEIVE
                   then (if w_dir_access W filename
                         then purple_xfer_request_accepted W (Some filename) x
                         else refuse_file W x)
                   else purple_xfer_cancel_local W (purple_xfer_show_file_error W filename x)
               | Some (st_size, is_dir) \<Rightarrow>
                   if type = XFER_SEND \<and> st_size = 0
                   then purple_xfer_cancel_local W (xfer_call W Notify_error x)
                   else if type = XFER_SEND \<and> is_dir
                   then purple_xfer_cancel_local W (xfer_call W Notify_error x)
                   else if type = XFER_RECEIVE \<and> is_dir
                   then purple_xfer_request_denied W (xfer_call W Notify_error x)
                   else if type = XFER_SEND
                   then (if w_access W filename
                         then purple_xfer_request_accepted W (Some filename) x
                         else refuse_file W x)
                   else purple_xfer_request_accepted W (Some filename) x)
      in purple_xfer_unref W y)"

definition purple_xfer_choose_file_cancel_cb :: "world \<Rightarrow> xfer \<Rightarrow> xfer" where
  "purple_xfer_choose_file_cancel_cb W x0 =
     (let x = purple_xfer_set_status W XFER_STATUS_CANCEL_LOCAL x0;
          y = (if xf_type x = XFER_SEND then purple_xfer_cancel_local W x
               else purple_xfer_request_denied W x)
      in purple_xfer_unref W y)"

definition cancel_recv_cb :: "world \<Rightarrow> xfer \<Rightarrow> xfer" where
  "cancel_recv_cb W x =
     purple_xfer_unref W
       (purple_xfer_request_denied W (purple_xfer_set_status W XFER_STATUS_CANCEL_LOCAL x))"

definition ask_accept_ok :: "world \<Rightarrow> xfer \<Rightarrow> xfer" where
  "ask_accept_ok W x = purple_xfer_request_accepted W None x"

definition ask_accept_cancel :: "world \<Rightarrow> xfer \<Rightarrow> xfer" where
  "ask_accept_cancel W x = purple_xfer_unref W (purple_xfer_request_denied W x)"

end
