(* ===== verification/Purple_Ft_Quiet.thy ===== *)
theory Purple_Ft_Quiet
  imports Purple_Ft
begin

section \<open>Transfers among callbacks that keep to their own data\<close>

text \<open>
  A world is \<open>quiet\<close> when the callbacks change nothing of the transfer but the two pointers that
  belong to them (\<open>data\<close> of the protocol, \<open>ui_data\<close> of the interface): they do not call back into
  the module.  In such a world a call that leaves the module changes the log only, which the
  lemmas of this theory say field by field for the pieces the operations are made of.
\<close>

definition quiet :: "world \<Rightarrow> bool" where
  "quiet W \<longleftrightarrow> (\<forall>c x. \<exists>d u. w_call W c x = x\<lparr>xf_data := d, xf_ui_data := u\<rparr>)"

lemma quietE:
  assumes "quiet W"
  obtains d u where "xfer_call W c x = x\<lparr>xf_log := xf_log x @ [c], xf_data := d, xf_ui_data := u\<rparr>"
  using assms unfolding quiet_def xfer_call_def by fastforce

lemma quiet_xfer_call [simp]:
  assumes "quiet W"
  shows "xf_ref (xfer_call W c x) = xf_ref x" "xf_type (xfer_call W c x) = xf_type x"
    "xf_account (xfer_call W c x) = xf_account x" "xf_who (xfer_call W c x) = xf_who x"
    "xf_message (xfer_call W c x) = xf_message x"
    "xf_filename (xfer_call W c x) = xf_filename x"
    "xf_local_filename (xfer_call W c x) = xf_local_filename x"
    "xf_size (xfer_call W c x) = xf_size x" "xf_dest_fp (xfer_call W c x) = xf_dest_fp x"
    "xf_remote_ip (xfer_call W c x) = xf_remote_ip x"
    "xf_local_port (xfer_call W c x) = xf_local_port x"
    "xf_remote_port (xfer_call W c x) = xf_remote_port x" "xf_fd (xfer_call W c x) = xf_fd x"
    "xf_watcher (xfer_call W c x) = xf_watcher x"
    "xf_bytes_sent (xfer_call W c x) = xf_bytes_sent x"
    "xf_bytes_remaining (xfer_call W c x) = xf_bytes_remaining x"
    "xf_start_time (xfer_call W c x) = xf_start_time x"
    "xf_end_time (xfer_call W c x) = xf_end_time x"
    "xf_current_buffer_size (xfer_call W c x) = xf_current_buffer_size x"
    "xf_status (xfer_call W c x) = xf_status x" "xf_ops (xfer_call W c x) = xf_ops x"
    "xf_ui_ops (xfer_call W c x) = xf_ui_ops x" "xf_ready_ui (xfer_call W c x) = xf_ready_ui x"
    "xf_ready_prpl (xfer_call W c x) = xf_ready_prpl x"
    "xf_buffer (xfer_call W c x) = xf_buffer x"
    "xf_thumbnail (xfer_call W c x) = xf_thumbnail x" "xf_file (xfer_call W c x) = xf_file x"
    "xf_wire (xfer_call W c x) = xf_wire x" "xf_dialogs (xfer_call W c x) = xf_dialogs x"
    "xf_connecting (xfer_call W c x) = xf_connecting x"
    "xf_freed (xfer_call W c x) = xf_freed x" "xf_bad (xfer_call W c x) = xf_bad x"
  by (rule quietE [OF assms, of c x], simp)+

lemma quiet_xfer_call_if [simp]:
  assumes "quiet W"
  shows "xf_ref (xfer_call_if b W c x) = xf_ref x" "xf_type (xfer_call_if b W c x) = xf_type x"
    "xf_account (xfer_call_if b W c x) = xf_account x"
    "xf_who (xfer_call_if b W c x) = xf_who x"
    "xf_message (xfer_call_if b W c x) = xf_message x"
    "xf_filename (xfer_call_if b W c x) = xf_filename x"
    "xf_local_filename (xfer_call_if b W c x) = xf_local_filename x"
    "xf_size (xfer_call_if b W c x) = xf_size x"
    "xf_dest_fp (xfer_call_if b W c x) = xf_dest_fp x"
    "xf_remote_ip (xfer_call_if b W c x) = xf_remote_ip x"
    "xf_local_port (xfer_call_if b W c x) = xf_local_port x"
    "xf_remote_port (xfer_call_if b W c x) = xf_remote_port x"
    "xf_fd (xfer_call_if b W c x) = xf_fd x" "xf_watcher (xfer_call_if b W c x) = xf_watcher x"
    "xf_bytes_sent (xfer_call_if b W c x) = xf_bytes_sent x"
    "xf_bytes_remaining (xfer_call_if b W c x) = xf_bytes_remaining x"
    "xf_start_time (xfer_call_if b W c x) = xf_start_time x"
    "xf_end_time (xfer_call_if b W c x) = xf_end_time x"
    "xf_current_buffer_size (xfer_call_if b W c x) = xf_current_buffer_size x"
    "xf_status (xfer_call_if b W c x) = xf_status x" "xf_ops (xfer_call_if b W c x) = xf_ops x"
    "xf_ui_ops (xfer_call_if b W c x) = xf_ui_ops x"
    "xf_ready_ui (xfer_call_if b W c x) = xf_ready_ui x"
    "xf_ready_prpl (xfer_call_if b W c x) = xf_ready_prpl x"
    "xf_buffer (xfer_call_if b W c x) = xf_buffer x"
    "xf_thumbnail (xfer_call_if b W c x) = xf_thumbnail x"
    "xf_file (xfer_call_if b W c x) = xf_file x" "xf_wire (xfer_call_if b W c x) = xf_wire x"
    "xf_dialogs (xfer_call_if b W c x) = xf_dialogs x"
    "xf_connecting (xfer_call_if b W c x) = xf_connecting x"
    "xf_freed (xfer_call_if b W c x) = xf_freed x" "xf_bad (xfer_call_if b W c x) = xf_bad x"
  by (simp_all add: xfer_call_if_def assms)

lemma quiet_call_op [simp]:
  assumes "quiet W"
  shows "xf_ref (call_op f g W x) = xf_ref x" "xf_type (call_op f g W x) = xf_type x"
    "xf_account (call_op f g W x) = xf_account x" "xf_who (call_op f g W x) = xf_who x"
    "xf_message (call_op f g W x) = xf_message x"
    "xf_filename (call_op f g W x) = xf_filename x"
    "xf_local_filename (call_op f g W x) = xf_local_filename x"
    "xf_size (call_op f g W x) = xf_size x" "xf_dest_fp (call_op f g W x) = xf_dest_fp x"
    "xf_remote_ip (call_op f g W x) = xf_remote_ip x"
    "xf_local_port (call_op f g W x) = xf_local_port x"
    "xf_remote_port (call_op f g W x) = xf_remote_port x" "xf_fd (call_op f g W x) = xf_fd x"
    "xf_watcher (call_op f g W x) = xf_watcher x"
    "xf_bytes_sent (call_op f g W x) = xf_bytes_sent x"
    "xf_bytes_remaining (call_op f g W x) = xf_bytes_remaining x"
    "xf_start_time (call_op f g W x) = xf_start_time x"
    "xf_end_time (call_op f g W x) = xf_end_time x"
    "xf_current_buffer_size (call_op f g W x) = xf_current_buffer_size x"
    "xf_status (call_op f g W x) = xf_status x" "xf_ops (call_op f g W x) = xf_ops x"
    "xf_ui_ops (call_op f g W x) = xf_ui_ops x" "xf_ready_ui (call_op f g W x) = xf_ready_ui x"
    "xf_ready_prpl (call_op f g W x) = xf_ready_prpl x"
    "xf_buffer (call_op f g W x) = xf_buffer x"
    "xf_thumbnail (call_op f g W x) = xf_thumbnail x" "xf_file (call_op f g W x) = xf_file x"
    "xf_wire (call_op f g W x) = xf_wire x" "xf_dialogs (call_op f g W x) = xf_dialogs x"
    "xf_connecting (call_op f g W x) = xf_connecting x"
    "xf_freed (call_op f g W x) = xf_freed x" "xf_bad (call_op f g W x) = xf_bad x"
  by (simp_all add: call_op_def assms split: option.split)

lemma quiet_set_status [simp]:
  assumes "quiet W"
  shows "xf_ref (purple_xfer_set_status W s x) = xf_ref x"
    "xf_type (purple_xfer_set_status W s x) = xf_type x"
    "xf_account (purple_xfer_set_status W s x) = xf_account x"
    "xf_who (purple_xfer_set_status W s x) = xf_who x"
    "xf_message (purple_xfer_set_status W s x) = xf_message x"
    "xf_filename (purple_xfer_set_status W s x) = xf_filename x"
    "xf_local_filename (purple_xfer_set_status W s x) = xf_local_filename x"
    "xf_size (purple_xfer_set_status W s x) = xf_size x"
    "xf_dest_fp (purple_xfer_set_status W s x) = xf_dest_fp x"
    "xf_remote_ip (purple_xfer_set_status W s x) = xf_remote_ip x"
    "xf_local_port (purple_xfer_set_status W s x) = xf_local_port x"
    "xf_remote_port (purple_xfer_set_status W s x) = xf_remote_port x"
    "xf_fd (purple_xfer_set_status W s x) = xf_fd x"
    "xf_watcher (purple_xfer_set_status W s x) = xf_watcher x"
    "xf_bytes_sent (purple_xfer_set_status W s x) = xf_bytes_sent x"
    "xf_bytes_remaining (purple_xfer_set_status W s x) = xf_bytes_remaining x"
    "xf_start_time (purple_xfer_set_status W s x) = xf_start_time x"
    "xf_end_time (purple_xfer_set_status W s x) = xf_end_time x"
    "xf_current_buffer_size (purple_xfer_set_status W s x) = xf_current_buffer_size x"
    "xf_ops (purple_xfer_set_status W s x) = xf_ops x"
    "xf_ui_ops (purple_xfer_set_status W s x) = xf_ui_ops x"
    "xf_ready_ui (purple_xfer_set_status W s x) = xf_ready_ui x"
    "xf_ready_prpl (purple_xfer_set_status W s x) = xf_ready_prpl x"
    "xf_buffer (purple_xfer_set_status W s x) = xf_buffer x"
    "xf_thumbnail (purple_xfer_set_status W s x) = xf_thumbnail x"
    "xf_file (purple_xfer_set_status W s x) = xf_file x"
    "xf_wire (purple_xfer_set_status W s x) = xf_wire x"
    "xf_dialogs (purple_xfer_set_status W s x) = xf_dialogs x"
    "xf_connecting (purple_xfer_set_status W s x) = xf_connecting x"
    "xf_freed (purple_xfer_set_status W s x) = xf_freed x"
  by (simp_all add: purple_xfer_set_status_def xfer_deref_def Let_def assms split: option.split)

lemma quiet_input_remove [simp]:
  assumes "quiet W"
  shows "xf_ref (input_remove_watcher W x) = xf_ref x"
    "xf_type (input_remove_watcher W x) = xf_type x"
    "xf_account (input_remove_watcher W x) = xf_account x"
    "xf_who (input_remove_watcher W x) = xf_who x"
    "xf_message (input_remove_watcher W x) = xf_message x"
    "xf_filename (input_remove_watcher W x) = xf_filename x"
    "xf_local_filename (input_remove_watcher W x) = xf_local_filename x"
    "xf_size (input_remove_watcher W x) = xf_size x"
    "xf_dest_fp (input_remove_watcher W x) = xf_dest_fp x"
    "xf_remote_ip (input_remove_watcher W x) = xf_remote_ip x"
    "xf_local_port (input_remove_watcher W x) = xf_local_port x"
    "xf_remote_port (input_remove_watcher W x) = xf_remote_port x"
    "xf_fd (input_remove_watcher W x) = xf_fd x"
    "xf_bytes_sent (input_remove_watcher W x) = xf_bytes_sent x"
    "xf_bytes_remaining (input_remove_watcher W x) = xf_bytes_remaining x"
    "xf_start_time (input_remove_watcher W x) = xf_start_time x"
    "xf_end_time (input_remove_watcher W x) = xf_end_time x"
    "xf_current_buffer_size (input_remove_watcher W x) = xf_current_buffer_size x"
    "xf_status (input_remove_watcher W x) = xf_status x"
    "xf_ops (input_remove_watcher W x) = xf_ops x"
    "xf_ui_ops (input_remove_watcher W x) = xf_ui_ops x"
    "xf_ready_ui (input_remove_watcher W x) = xf_ready_ui x"
    "xf_ready_prpl (input_remove_watcher W x) = xf_ready_prpl x"
    "xf_buffer (input_remove_watcher W x) = xf_buffer x"
    "xf_thumbnail (input_remove_watcher W x) = xf_thumbnail x"
    "xf_file (input_remove_watcher W x) = xf_file x"
    "xf_wire (input_remove_watcher W x) = xf_wire x"
    "xf_dialogs (input_remove_watcher W x) = xf_dialogs x"
    "xf_connecting (input_remove_watcher W x) = xf_connecting x"
    "xf_freed (input_remove_watcher W x) = xf_freed x"
    "xf_bad (input_remove_watcher W x) = xf_bad x"
  by (simp_all add: input_remove_watcher_def assms)

lemma quiet_close_files [simp]:
  assumes "quiet W"
  shows "xf_ref (close_files W x) = xf_ref x" "xf_type (close_files W x) = xf_type x"
    "xf_account (close_files W x) = xf_account x" "xf_who (close_files W x) = xf_who x"
    "xf_message (close_files W x) = xf_message x"
    "xf_filename (close_files W x) = xf_filename x"
    "xf_local_filename (close_files W x) = xf_local_filename x"
    "xf_size (close_files W x) = xf_size x" "xf_remote_ip (close_files W x) = xf_remote_ip x"
    "xf_local_port (close_files W x) = xf_local_port x"
    "xf_remote_port (close_files W x) = xf_remote_port x" "xf_fd (close_files W x) = xf_fd x"
    "xf_watcher (close_files W x) = xf_watcher x"
    "xf_bytes_sent (close_files W x) = xf_bytes_sent x"
    "xf_bytes_remaining (close_files W x) = xf_bytes_remaining x"
    "xf_start_time (close_files W x) = xf_start_time x"
    "xf_end_time (close_files W x) = xf_end_time x"
    "xf_current_buffer_size (close_files W x) = xf_current_buffer_size x"
    "xf_status (close_files W x) = xf_status x" "xf_ops (close_files W x) = xf_ops x"
    "xf_ui_ops (close_files W x) = xf_ui_ops x" "xf_ready_ui (close_files W x) = xf_ready_ui x"
    "xf_ready_prpl (close_files W x) = xf_ready_prpl x"
    "xf_buffer (close_files W x) = xf_buffer x"
    "xf_thumbnail (close_files W x) = xf_thumbnail x" "xf_file (close_files W x) = xf_file x"
    "xf_wire (close_files W x) = xf_wire x" "xf_dialogs (close_files W x) = xf_dialogs x"
    "xf_connecting (close_files W x) = xf_connecting x"
    "xf_freed (close_files W x) = xf_freed x" "xf_bad (close_files W x) = xf_bad x"
  by (simp_all add: close_files_def assms)

lemma quiet_cancel_op [simp]:
  assumes "quiet W"
  shows "xf_ref (cancel_op W x) = xf_ref x" "xf_type (cancel_op W x) = xf_type x"
    "xf_account (cancel_op W x) = xf_account x" "xf_who (cancel_op W x) = xf_who x"
    "xf_message (cancel_op W x) = xf_message x" "xf_filename (cancel_op W x) = xf_filename x"
    "xf_local_filename (cancel_op W x) = xf_local_filename x"
    "xf_size (cancel_op W x) = xf_size x" "xf_dest_fp (cancel_op W x) = xf_dest_fp x"
    "xf_remote_ip (cancel_op W x) = xf_remote_ip x"
    "xf_local_port (cancel_op W x) = xf_local_port x"
    "xf_remote_port (cancel_op W x) = xf_remote_port x" "xf_fd (cancel_op W x) = xf_fd x"
    "xf_watcher (cancel_op W x) = xf_watcher x"
    "xf_bytes_sent (cancel_op W x) = xf_bytes_sent x"
    "xf_bytes_remaining (cancel_op W x) = xf_bytes_remaining x"
    "xf_start_time (cancel_op W x) = xf_start_time x"
    "xf_end_time (cancel_op W x) = xf_end_time x"
    "xf_current_buffer_size (cancel_op W x) = xf_current_buffer_size x"
    "xf_status (cancel_op W x) = xf_status x" "xf_ops (cancel_op W x) = xf_ops x"
    "xf_ui_ops (cancel_op W x) = xf_ui_ops x" "xf_ready_ui (cancel_op W x) = xf_ready_ui x"
    "xf_ready_prpl (cancel_op W x) = xf_ready_prpl x" "xf_buffer (cancel_op W x) = xf_buffer x"
    "xf_thumbnail (cancel_op W x) = xf_thumbnail x" "xf_file (cancel_op W x) = xf_file x"
    "xf_wire (cancel_op W x) = xf_wire x" "xf_dialogs (cancel_op W x) = xf_dialogs x"
    "xf_connecting (cancel_op W x) = xf_connecting x" "xf_freed (cancel_op W x) = xf_freed x"
    "xf_bad (cancel_op W x) = xf_bad x"
  by (simp_all add: cancel_op_def assms)

lemma quiet_completed [simp]:
  assumes "quiet W"
  shows "xf_ref (purple_xfer_set_completed W b x) = xf_ref x"
    "xf_type (purple_xfer_set_completed W b x) = xf_type x"
    "xf_account (purple_xfer_set_completed W b x) = xf_account x"
    "xf_who (purple_xfer_set_completed W b x) = xf_who x"
    "xf_message (purple_xfer_set_completed W b x) = xf_message x"
    "xf_filename (purple_xfer_set_completed W b x) = xf_filename x"
    "xf_local_filename (purple_xfer_set_completed W b x) = xf_local_filename x"
    "xf_size (purple_xfer_set_completed W b x) = xf_size x"
    "xf_dest_fp (purple_xfer_set_completed W b x) = xf_dest_fp x"
    "xf_remote_ip (purple_xfer_set_completed W b x) = xf_remote_ip x"
    "xf_local_port (purple_xfer_set_completed W b x) = xf_local_port x"
    "xf_remote_port (purple_xfer_set_completed W b x) = xf_remote_port x"
    "xf_fd (purple_xfer_set_completed W b x) = xf_fd x"
    "xf_watcher (purple_xfer_set_completed W b x) = xf_watcher x"
    "xf_bytes_sent (purple_xfer_set_completed W b x) = xf_bytes_sent x"
    "xf_bytes_remaining (purple_xfer_set_completed W b x) = xf_bytes_remaining x"
    "xf_start_time (purple_xfer_set_completed W b x) = xf_start_time x"
    "xf_end_time (purple_xfer_set_completed W b x) = xf_end_time x"
    "xf_current_buffer_size (purple_xfer_set_completed W b x) = xf_current_buffer_size x"
    "xf_ops (purple_xfer_set_completed W b x) = xf_ops x"
    "xf_ui_ops (purple_xfer_set_completed W b x) = xf_ui_ops x"
    "xf_ready_ui (purple_xfer_set_completed W b x) = xf_ready_ui x"
    "xf_ready_prpl (purple_xfer_set_completed W b x) = xf_ready_prpl x"
    "xf_buffer (purple_xfer_set_completed W b x) = xf_buffer x"
    "xf_thumbnail (purple_xfer_set_completed W b x) = xf_thumbnail x"
    "xf_file (purple_xfer_set_completed W b x) = xf_file x"
    "xf_wire (purple_xfer_set_completed W b x) = xf_wire x"
    "xf_dialogs (purple_xfer_set_completed W b x) = xf_dialogs x"
    "xf_connecting (purple_xfer_set_completed W b x) = xf_connecting x"
    "xf_freed (purple_xfer_set_completed W b x) = xf_freed x"
  by (simp_all add: purple_xfer_set_completed_def xfer_deref_def Let_def assms)

lemma quiet_cancel_local_body [simp]:
  assumes "quiet W"
  shows "xf_ref (cancel_local_body W x) = xf_ref x" "xf_type (cancel_local_body W x) = xf_type x"
    "xf_account (cancel_local_body W x) = xf_account x"
    "xf_who (cancel_local_body W x) = xf_who x"
    "xf_message (cancel_local_body W x) = xf_message x"
    "xf_filename (cancel_local_body W x) = xf_filename x"
    "xf_local_filename (cancel_local_body W x) = xf_local_filename x"
    "xf_size (cancel_local_body W x) = xf_size x"
    "xf_remote_ip (cancel_local_body W x) = xf_remote_ip x"
    "xf_local_port (cancel_local_body W x) = xf_local_port x"
    "xf_remote_port (cancel_local_body W x) = xf_remote_port x"
    "xf_fd (cancel_local_body W x) = xf_fd x"
    "xf_bytes_sent (cancel_local_body W x) = xf_bytes_sent x"
    "xf_start_time (cancel_local_body W x) = xf_start_time x"
    "xf_current_buffer_size (cancel_local_body W x) = xf_current_buffer_size x"
    "xf_ops (cancel_local_body W x) = xf_ops x"
    "xf_ui_ops (cancel_local_body W x) = xf_ui_ops x"
    "xf_ready_ui (cancel_local_body W x) = xf_ready_ui x"
    "xf_ready_prpl (cancel_local_body W x) = xf_ready_prpl x"
    "xf_buffer (cancel_local_body W x) = xf_buffer x"
    "xf_thumbnail (cancel_local_body W x) = xf_thumbnail x"
    "xf_file (cancel_local_body W x) = xf_file x" "xf_wire (cancel_local_body W x) = xf_wire x"
    "xf_connecting (cancel_local_body W x) = xf_connecting x"
    "xf_freed (cancel_local_body W x) = xf_freed x"
  by (simp_all add: cancel_local_body_def request_close_with_handle_def xfer_deref_def Let_def assms)

lemma quiet_cancel_remote_body [simp]:
  assumes "quiet W"
  shows "xf_ref (cancel_remote_body W x) = xf_ref x" "xf_type (cancel_remote_body W x) = xf_type x"
    "xf_account (cancel_remote_body W x) = xf_account x"
    "xf_who (cancel_remote_body W x) = xf_who x"
    "xf_message (cancel_remote_body W x) = xf_message x"
    "xf_filename (cancel_remote_body W x) = xf_filename x"
    "xf_local_filename (cancel_remote_body W x) = xf_local_filename x"
    "xf_size (cancel_remote_body W x) = xf_size x"
    "xf_remote_ip (cancel_remote_body W x) = xf_remote_ip x"
    "xf_local_port (cancel_remote_body W x) = xf_local_port x"
    "xf_remote_port (cancel_remote_body W x) = xf_remote_port x"
    "xf_fd (cancel_remote_body W x) = xf_fd x"
    "xf_bytes_sent (cancel_remote_body W x) = xf_bytes_sent x"
    "xf_start_time (cancel_remote_body W x) = xf_start_time x"
    "xf_current_buffer_size (cancel_remote_body W x) = xf_current_buffer_size x"
    "xf_ops (cancel_remote_body W x) = xf_ops x"
    "xf_ui_ops (cancel_remote_body W x) = xf_ui_ops x"
    "xf_ready_ui (cancel_remote_body W x) = xf_ready_ui x"
    "xf_ready_prpl (cancel_remote_body W x) = xf_ready_prpl x"
    "xf_buffer (cancel_remote_body W x) = xf_buffer x"
    "xf_thumbnail (cancel_remote_body W x) = xf_thumbnail x"
    "xf_file (cancel_remote_body W x) = xf_file x"
    "xf_wire (cancel_remote_body W x) = xf_wire x"
    "xf_connecting (cancel_remote_body W x) = xf_connecting x"
    "xf_freed (cancel_remote_body W x) = xf_freed x"
  by (simp_all add: cancel_remote_body_def request_close_with_handle_def xfer_deref_def Let_def assms)

text \<open>The fields the pieces do change.\<close>

lemma set_status_simps [simp]:
  assumes "quiet W"
  shows "xf_status (purple_xfer_set_status W s x) = s"
    "xf_bad (purple_xfer_set_status W s x) = (xf_bad x \<or> xf_freed x)"
  by (simp_all add: purple_xfer_set_status_def xfer_deref_def Let_def assms split: option.split)

lemma set_completed_simps [simp]:
  assumes "quiet W"
  shows "xf_status (purple_xfer_set_completed W True x) = XFER_STATUS_DONE"
    "xf_bad (purple_xfer_set_completed W b x) = (xf_bad x \<or> xf_freed x)"
  by (simp_all add: purple_xfer_set_completed_def xfer_deref_def Let_def assms)

lemma closing_simps [simp]:
  assumes "quiet W"
  shows "xf_watcher (input_remove_watcher W x) = 0"
    "xf_dest_fp (close_files W x) = None"
  by (simp_all add: input_remove_watcher_def close_files_def assms)

lemma cancel_local_body_simps [simp]:
  assumes "quiet W"
  shows "xf_status (cancel_local_body W x) = XFER_STATUS_CANCEL_LOCAL"
    "xf_bad (cancel_local_body W x) = (xf_bad x \<or> xf_freed x)"
    "xf_dest_fp (cancel_local_body W x) = None"
    "xf_watcher (cancel_local_body W x) = 0"
    "xf_bytes_remaining (cancel_local_body W x) = 0"
    "xf_dialogs (cancel_local_body W x) = filter (\<lambda>d. d = Not_usable) (xf_dialogs x)"
  by (simp_all add: cancel_local_body_def request_close_with_handle_def xfer_deref_def Let_def assms)

lemma cancel_remote_body_simps [simp]:
  assumes "quiet W"
  shows "xf_status (cancel_remote_body W x) = XFER_STATUS_CANCEL_REMOTE"
    "xf_bad (cancel_remote_body W x) = (xf_bad x \<or> xf_freed x)"
    "xf_dest_fp (cancel_remote_body W x) = None"
    "xf_watcher (cancel_remote_body W x) = 0"
    "xf_bytes_remaining (cancel_remote_body W x) = 0"
    "xf_dialogs (cancel_remote_body W x) = filter (\<lambda>d. d = Not_usable) (xf_dialogs x)"
  by (simp_all add: cancel_remote_body_def request_close_with_handle_def xfer_deref_def Let_def assms)

text \<open>Giving up a reference: the last one frees the transfer.  Nothing else that matters to the
  data changes, unless the transfer was still running.\<close>

lemma unref_simps [simp]:
  assumes "quiet W"
  shows "xf_type (purple_xfer_unref W x) = xf_type x"
    "xf_file (purple_xfer_unref W x) = xf_file x"
    "xf_wire (purple_xfer_unref W x) = xf_wire x"
    "xf_size (purple_xfer_unref W x) = xf_size x"
    "xf_bytes_sent (purple_xfer_unref W x) = xf_bytes_sent x"
    "xf_ops (purple_xfer_unref W x) = xf_ops x"
    "xf_ui_ops (purple_xfer_unref W x) = xf_ui_ops x"
    "xf_buffer (purple_xfer_unref W x) = xf_buffer x"
    "xf_current_buffer_size (purple_xfer_unref W x) = xf_current_buffer_size x"
    "xf_account (purple_xfer_unref W x) = xf_account x"
    "xf_who (purple_xfer_unref W x) = xf_who x"
    "xf_ref (purple_xfer_unref W x) = xf_ref x - 1"
    "xf_connecting (purple_xfer_unref W x) = xf_connecting x"
    "xf_ready_ui (purple_xfer_unref W x) = xf_ready_ui x"
    "xf_ready_prpl (purple_xfer_unref W x) = xf_ready_prpl x"
    "xf_freed (purple_xfer_unref W x) = (xf_freed x \<or> xf_ref x = 1)"
    "xf_bad (purple_xfer_unref W x) = (xf_bad x \<or> xf_freed x)"
  by (simp_all add: purple_xfer_unref_def purple_xfer_destroy_def request_close_with_handle_def
      xfer_deref_def Let_def assms)

lemma unref_not_running [simp]:
  assumes "quiet W" "xf_status x \<noteq> XFER_STATUS_STARTED"
  shows "xf_status (purple_xfer_unref W x) = xf_status x"
    "xf_dest_fp (purple_xfer_unref W x) = xf_dest_fp x"
    "xf_watcher (purple_xfer_unref W x) = xf_watcher x"
    "xf_bytes_remaining (purple_xfer_unref W x) = xf_bytes_remaining x"
  using assms(2) by (simp_all add: purple_xfer_unref_def purple_xfer_destroy_def
      request_close_with_handle_def xfer_deref_def Let_def assms(1))

lemma unref_dialogs [simp]:
  assumes "quiet W"
  shows "xf_dialogs (purple_xfer_unref W x) =
    (if xf_ref x = 1 then filter (\<lambda>d. d = Not_usable) (xf_dialogs x) else xf_dialogs x)"
  by (simp add: purple_xfer_unref_def purple_xfer_destroy_def request_close_with_handle_def
      xfer_deref_def Let_def assms)

end
