(* ===== verification/Purple_Ft_Stream.thy ===== *)
theory Purple_Ft_Stream
  imports Purple_Ft_Quiet
begin

section \<open>What crosses the connection is the file\<close>

text \<open>
  A transfer of a file of known size that the core moves itself, with a descriptor to watch: the
  invariant of \<open>do_transfer\<close> over the position in the file, the bytes handed to the socket and
  the bytes read but not yet taken by it; then whole runs of the event loop, one world per
  callback.  The contract of the outside is that of \<open>read\<close>, \<open>write\<close>, \<open>fread\<close> and \<open>fwrite\<close>:
  a call handles at most what it is given, and says how much.
\<close>

definition net_ok :: "world \<Rightarrow> bool" where
  "net_ok W \<longleftrightarrow>
     (\<forall>b. -1 \<le> w_op_write W b \<and> w_op_write W b \<le> int (length b)) \<and>
     (\<forall>b n. w_sys_write W b = Inr n \<longrightarrow> n \<le> length b)"

lemma xfer_output_bounds:
  assumes "net_ok W"
  shows "-1 \<le> xfer_output W b x" "xfer_output W b x \<le> int (length b)"
proof -
  have "-1 \<le> xfer_output W b x \<and> xfer_output W b x \<le> int (length b)"
    using assms unfolding net_ok_def xfer_output_def
    by (auto split: option.split sum.split errno.split)
  then show "-1 \<le> xfer_output W b x" "xfer_output W b x \<le> int (length b)" by auto
qed

text \<open>Halfway through sending \<open>F\<close> with \<open>rc\<close> references: \<open>n\<close> bytes are gone, \<open>b\<close> are read and wait.\<close>

definition send_at :: "nat \<Rightarrow> bytes \<Rightarrow> nat \<Rightarrow> bytes \<Rightarrow> xfer \<Rightarrow> bool" where
  "send_at rc F n b x \<longleftrightarrow>
     xf_type x = XFER_SEND \<and> xf_status x = XFER_STATUS_STARTED \<and> xf_watcher x \<noteq> 0 \<and>
     \<not> xf_freed x \<and> \<not> xf_bad x \<and> xf_ref x = rc \<and> 0 < rc \<and> \<not> has_ui ui_read x \<and>
     0 < xf_current_buffer_size x \<and>
     xf_file x = F \<and> unat (xf_size x) = length F \<and>
     n + length b \<le> length F \<and> n < length F \<and>
     unat (xf_bytes_sent x) = n \<and> unat (xf_bytes_remaining x) = length F - n \<and>
     xf_wire x = take n F \<and> xf_buffer x = Some b \<and> b = take (length b) (drop n F) \<and>
     xf_dest_fp x = Some (n + length b)"

definition send_done :: "bytes \<Rightarrow> xfer \<Rightarrow> bool" where
  "send_done F x \<longleftrightarrow> xf_status x = XFER_STATUS_DONE \<and> xf_wire x = F \<and>
     xf_watcher x = 0 \<and> xf_dest_fp x = None \<and> \<not> xf_bad x"

text \<open>A sender that was stopped has used freed memory exactly when it was a failed write that
  stopped it and gave up the last reference.\<close>

definition send_stopped :: "nat \<Rightarrow> bytes \<Rightarrow> xfer \<Rightarrow> bool" where
  "send_stopped rc F x \<longleftrightarrow> purple_xfer_is_canceled x \<and> (\<exists>m < length F. xf_wire x = take m F) \<and>
     xf_watcher x = 0 \<and> xf_dest_fp x = None \<and>
     (xf_bad x \<longleftrightarrow> rc = 1 \<and> xf_status x = XFER_STATUS_CANCEL_REMOTE)"

lemma cancel_local_stops:
  assumes "quiet W" "\<not> xf_bad x" "\<not> xf_freed x" "xf_wire x = take m F" "m < length F"
  shows "send_stopped rc F (purple_xfer_cancel_local W x)"
  using assms
  by (auto simp: send_stopped_def purple_xfer_cancel_local_def purple_xfer_is_canceled_def)

lemma cancel_remote_stops:
  assumes "quiet W" "\<not> xf_bad x" "\<not> xf_freed x" "xf_wire x = take m F" "m < length F"
  shows "send_stopped (xf_ref x) F (xfer_deref (purple_xfer_cancel_remote W x))"
  using assms
  by (auto simp: send_stopped_def purple_xfer_cancel_remote_def purple_xfer_is_canceled_def xfer_deref_def)

text \<open>The write of a transfer that has \<open>B\<close> to send at position \<open>n\<close>.\<close>

lemma purple_xfer_write_at:
  assumes q: "quiet W" and ok: "net_ok W"
    and x: "xf_type x = XFER_SEND" "xf_status x = XFER_STATUS_STARTED" "\<not> xf_freed x" "\<not> xf_bad x"
      "unat (xf_size x) = length F" "unat (xf_bytes_sent x) = n"
      "unat (xf_bytes_remaining x) = length F - n" "xf_wire x = take n F"
    and B: "B = take (length B) (drop n F)" "B \<noteq> []" "n + length B \<le> length F"
  obtains r where "r = xfer_output W B x" "-1 \<le> r" "r \<le> int (length B)"
    "fst (purple_xfer_write W B x) = r"
    "snd (purple_xfer_write W B x) =
       (let y = x\<lparr>xf_wire := take (n + nat r) F\<rparr>
        in if r \<ge> 0 \<and> n + nat r = length F then purple_xfer_set_completed W True y else y)"
proof
  let ?r = "xfer_output W B x"
  show "-1 \<le> ?r" "?r \<le> int (length B)" using xfer_output_bounds [OF ok] by auto
  have lt: "length F < 2 ^ 64" using x(5) unsigned_less [of "xf_size x", where 'a = nat] by simp
  have len: "unat (of_nat (length B) :: size_t) = length B"
    using B(3) lt by (simp add: unsigned_of_nat take_bit_nat_eq_self)
  then have s: "unat (min (xf_bytes_remaining x) (of_nat (length B))) = length B"
    using x(7) B(3) by (auto simp: min_def word_le_nat_alt)
  have dx: "xfer_deref x = x" using x by (simp add: xfer_deref_def)
  have wire: "take n F @ take (nat ?r) B = take (n + nat ?r) F"
    using \<open>?r \<le> int (length B)\<close> by (subst B(1)) (simp add: take_add)
  show "fst (purple_xfer_write W B x) = ?r"
    using B(2) by (simp add: purple_xfer_write_def dx Let_def s)
  have ge: "xf_size x \<le> xf_bytes_sent x + word_of_int ?r \<longleftrightarrow> n + nat ?r = length F" if "?r \<ge> 0"
  proof -
    have "unat (word_of_int ?r :: size_t) = nat ?r"
      using that \<open>?r \<le> int (length B)\<close> B(3) lt
      by (simp add: unsigned_of_int take_bit_int_eq_self)
    moreover have "n + nat ?r \<le> length F" using \<open>?r \<le> int (length B)\<close> B(3) that by linarith
    ultimately have "unat (xf_bytes_sent x + word_of_int ?r) = n + nat ?r"
      using x(6) lt by (simp add: unat_add_lem [THEN iffD1])
    then show ?thesis using x(5) \<open>n + nat ?r \<le> length F\<close> by (auto simp: word_le_nat_alt)
  qed
  show "snd (purple_xfer_write W B x) =
       (let y = x\<lparr>xf_wire := take (n + nat ?r) F\<rparr>
        in if ?r \<ge> 0 \<and> n + nat ?r = length F then purple_xfer_set_completed W True y else y)"
    using B(2) x ge by (auto simp: purple_xfer_write_def dx Let_def s wire purple_xfer_is_completed_def)
qed simp

lemma increase_buffer_simps [simp]:
  shows "xf_type (purple_xfer_increase_buffer_size x) = xf_type x"
    "xf_status (purple_xfer_increase_buffer_size x) = xf_status x"
    "xf_watcher (purple_xfer_increase_buffer_size x) = xf_watcher x"
    "xf_freed (purple_xfer_increase_buffer_size x) = xf_freed x"
    "xf_bad (purple_xfer_increase_buffer_size x) = xf_bad x"
    "xf_ref (purple_xfer_increase_buffer_size x) = xf_ref x"
    "xf_ui_ops (purple_xfer_increase_buffer_size x) = xf_ui_ops x"
    "xf_ops (purple_xfer_increase_buffer_size x) = xf_ops x"
    "xf_file (purple_xfer_increase_buffer_size x) = xf_file x"
    "xf_wire (purple_xfer_increase_buffer_size x) = xf_wire x"
    "xf_size (purple_xfer_increase_buffer_size x) = xf_size x"
    "xf_bytes_sent (purple_xfer_increase_buffer_size x) = xf_bytes_sent x"
    "xf_bytes_remaining (purple_xfer_increase_buffer_size x) = xf_bytes_remaining x"
    "xf_buffer (purple_xfer_increase_buffer_size x) = xf_buffer x"
    "xf_dest_fp (purple_xfer_increase_buffer_size x) = xf_dest_fp x"
    "xf_fd (purple_xfer_increase_buffer_size x) = xf_fd x"
    "xf_connecting (purple_xfer_increase_buffer_size x) = xf_connecting x"
    "xf_dialogs (purple_xfer_increase_buffer_size x) = xf_dialogs x"
    "xf_account (purple_xfer_increase_buffer_size x) = xf_account x"
    "xf_who (purple_xfer_increase_buffer_size x) = xf_who x"
  by (simp_all add: purple_xfer_increase_buffer_size_def)

lemma increase_buffer_unat:
  "unat (xf_current_buffer_size (purple_xfer_increase_buffer_size x)) =
     min (unat (xf_current_buffer_size x) * 3 div 2) 65535"
proof -
  have "min (unat (xf_current_buffer_size x) * 3 div 2) 65535 < (2 :: nat) ^ 64" by simp
  then show ?thesis
    by (simp add: purple_xfer_increase_buffer_size_def FT_MAX_BUFFER_SIZE_def unsigned_of_nat
        take_bit_nat_eq_self)
qed

lemma increase_buffer_pos [simp]:
  "0 < xf_current_buffer_size x \<Longrightarrow> 0 < xf_current_buffer_size (purple_xfer_increase_buffer_size x)"
  using increase_buffer_unat [of x] by (simp add: word_less_nat_alt)

lemma end_done:
  assumes "quiet W" "xf_status x = XFER_STATUS_DONE" "\<not> xf_freed x" "\<not> xf_bad x" "xf_wire x = F"
  shows "send_done F (purple_xfer_end W x)"
proof -
  have dx: "xfer_deref x = x" using assms by (simp add: xfer_deref_def)
  show ?thesis using assms
    by (simp add: send_done_def purple_xfer_end_def dx Let_def purple_xfer_is_completed_def)
qed

lemma do_transfer_end_sent:
  assumes "quiet W" "0 \<le> r" "0 < xf_size z" "\<not> xf_freed z" "\<not> xf_bad z"
  defines "y \<equiv> z\<lparr>xf_bytes_remaining := xf_bytes_remaining z - word_of_int r,
                   xf_bytes_sent := xf_bytes_sent z + word_of_int r\<rparr>"
  obtains u where "do_transfer_end W r None z =
      (if xf_status z = XFER_STATUS_DONE then purple_xfer_end W u else u)"
    "xf_bytes_remaining u = xf_bytes_remaining y" "xf_bytes_sent u = xf_bytes_sent y"
    "xf_status u = xf_status z" "xf_wire u = xf_wire z" "xf_freed u = xf_freed z" 
    "xf_bad u = xf_bad z" "send_at rc F n b u = send_at rc F n b y"
proof
  let ?u = "if r > 0 then let v = call_op op_ack (\<lambda>p. Op_ack p None r) W y
                in xfer_call_if (has_ui ui_update_progress v) W Ui_update_progress v else z"
  show "do_transfer_end W r None z =
      (if xf_status z = XFER_STATUS_DONE then purple_xfer_end W ?u else ?u)"
    using assms by (simp add: do_transfer_end_def y_def Let_def purple_xfer_is_completed_def)
qed (use assms in \<open>simp_all add: y_def Let_def send_at_def has_ui_def\<close>)

lemma send_end_step:
  assumes q: "quiet W"
    and z: "xf_type z = XFER_SEND" "\<not> xf_freed z" "\<not> xf_bad z"
      "unat (xf_size z) = length F" "unat (xf_bytes_sent z) = n"
      "unat (xf_bytes_remaining z) = length F - n" "xf_wire z = take (n + k) F"
      "xf_watcher z \<noteq> 0" "xf_ref z = rc \<and> 0 < rc" "\<not> has_ui ui_read z"
      "0 < xf_current_buffer_size z" "xf_file z = F" "xf_buffer z = Some (drop k B)"
      "xf_dest_fp z = Some (n + length B)"
      "xf_status z = (if n + k = length F then XFER_STATUS_DONE else XFER_STATUS_STARTED)"
    and B: "B = take (length B) (drop n F)" "k \<le> length B" "n + length B \<le> length F" "B \<noteq> []"
  shows "if n + k = length F then send_done F (do_transfer_end W (int k) None z)
         else send_at rc F (n + k) (drop k B) (do_transfer_end W (int k) None z)"
proof -
  define y where "y = z\<lparr>xf_bytes_remaining := xf_bytes_remaining z - word_of_int (int k),
                       xf_bytes_sent := xf_bytes_sent z + word_of_int (int k)\<rparr>"
  have lt: "length F < 2 ^ 64" using z(4) unsigned_less [of "xf_size z", where 'a = nat] by simp
  have "length F > 0" using B(3,4) by (cases F) auto
  then have size: "0 < xf_size z" using z(4) by (simp add: word_less_nat_alt)
  obtain u where u: "do_transfer_end W (int k) None z =
      (if xf_status z = XFER_STATUS_DONE then purple_xfer_end W u else u)"
    "xf_status u = xf_status z" "xf_wire u = xf_wire z" "xf_freed u = xf_freed z"
    "xf_bad u = xf_bad z" "send_at rc F (n + k) (drop k B) u = send_at rc F (n + k) (drop k B) y"
    using do_transfer_end_sent [of W "int k" z rc F "n + k" "drop k B"] q size z(2,3)
    unfolding y_def by auto
  have k: "unat (of_nat k :: size_t) = k"
    using B(2,3) lt by (simp add: unsigned_of_nat take_bit_nat_eq_self)
  have sent: "unat (xf_bytes_sent z + of_nat k) = n + k"
    using z(5) k B(2,3) lt by (simp add: unat_add_lem [THEN iffD1])
  have "of_nat k \<le> xf_bytes_remaining z" using z(6) k B(2,3) by (simp add: word_le_nat_alt)
  then have remaining: "unat (xf_bytes_remaining z - of_nat k) = length F - (n + k)"
    using z(6) k by (simp add: unat_sub)
  have rest: "drop k B = take (length (drop k B)) (drop (n + k) F)"
    by (subst B(1)) (simp add: drop_take ac_simps)
  show ?thesis
  proof (cases "n + k = length F")
    case True
    then show ?thesis using u z end_done [OF q, of u F] by simp
  next
    case False
    then have "n + k < length F" using B(2,3) by linarith
    then have waiting: "send_at rc F (n + k) d y"
      if "d = take (length d) (drop (n + k) F)" "n + k + length d \<le> length F"
        "xf_buffer z = Some d" "xf_dest_fp z = Some (n + k + length d)" for d
      using that z(1-12,15) False sent remaining by (simp add: send_at_def y_def has_ui_def)
    have "send_at rc F (n + k) (drop k B) y"
      using rest z(13,14) B(2,3) by (intro waiting) simp_all
    then show ?thesis using u z False by simp
  qed
qed

lemma send_write_step:
  assumes q: "quiet W" and ok: "net_ok W"
    and x: "xf_type x = XFER_SEND" "xf_status x = XFER_STATUS_STARTED" "\<not> xf_freed x" "\<not> xf_bad x"
      "unat (xf_size x) = length F" "unat (xf_bytes_sent x) = n"
      "unat (xf_bytes_remaining x) = length F - n" "xf_wire x = take n F"
      "xf_watcher x \<noteq> 0" "xf_ref x = rc \<and> 0 < rc" "\<not> has_ui ui_read x" "0 < xf_current_buffer_size x"
      "xf_file x = F" "xf_buffer x = Some b" "xf_dest_fp x = Some (n + length B)"
    and B: "B = b @ got" "B = take (length B) (drop n F)" "B \<noteq> []" "n + length B \<le> length F"
  shows "case send_write W got x of
           (None, y) \<Rightarrow> xfer_output W B x = -1 \<and> send_stopped rc F y
         | (Some (r, bf), y) \<Rightarrow> r = xfer_output W B x \<and> 0 \<le> r \<and> r \<le> int (length B) \<and>
             (if n + nat r = length F then send_done F (do_transfer_end W r bf y)
              else send_at rc F (n + nat r) (drop (nat r) B) (do_transfer_end W r bf y))"
proof -
  let ?x = "x\<lparr>xf_buffer := Some B\<rparr>"
  have out: "xfer_output W B ?x = xfer_output W B x" by (simp add: xfer_output_def)
  obtain r where r: "r = xfer_output W B x" "-1 \<le> r" "r \<le> int (length B)"
    "purple_xfer_write W B ?x =
       (r, let y = ?x\<lparr>xf_wire := take (n + nat r) F\<rparr>
        in if r \<ge> 0 \<and> n + nat r = length F then purple_xfer_set_completed W True y else y)"
  proof (rule purple_xfer_write_at [OF q ok, of ?x F n B])
    fix r
    assume "r = xfer_output W B ?x" "-1 \<le> r" "r \<le> int (length B)"
      "fst (purple_xfer_write W B ?x) = r"
      "snd (purple_xfer_write W B ?x) =
         (let y = ?x\<lparr>xf_wire := take (n + nat r) F\<rparr>
          in if 0 \<le> r \<and> n + nat r = length F then purple_xfer_set_completed W True y else y)"
    then show thesis using that [of r] out by (metis prod.collapse)
  qed (simp_all add: x B(3,4) B(2) [symmetric])
  have nil: "xf_buffer x = Some b \<Longrightarrow> (case xf_buffer x of None \<Rightarrow> got | Some b \<Rightarrow> b @ got) = B"
    using B by simp
  show ?thesis
  proof (cases "r = -1")
    case True
    moreover have "n < length F" using B(3,4) by (cases B) auto
    ultimately show ?thesis
      using r x cancel_remote_stops [OF q, where x = "x\<lparr>xf_buffer := Some B, xf_wire := take n F\<rparr>" and m = n and F = F]
      by (simp add: send_write_def B(1) [symmetric])
  next
    case False
    then have r0: "0 \<le> r" using r by simp
    define z where "z = snd (send_write W got x)"
    have sw: "send_write W got x = (Some (r, None), z)"
      using x r False unfolding z_def
      by (simp add: send_write_def B(1) [symmetric] Let_def q)
    have z: "xf_type z = XFER_SEND" "\<not> xf_freed z" "\<not> xf_bad z"
        "unat (xf_size z) = length F" "unat (xf_bytes_sent z) = n"
        "unat (xf_bytes_remaining z) = length F - n" "xf_wire z = take (n + nat r) F"
        "xf_watcher z \<noteq> 0" "xf_ref z = rc \<and> 0 < rc" "\<not> has_ui ui_read z"
        "0 < xf_current_buffer_size z" "xf_file z = F" "xf_buffer z = Some (drop (nat r) B)"
        "xf_dest_fp z = Some (n + length B)"
        "xf_status z = (if n + nat r = length F then XFER_STATUS_DONE else XFER_STATUS_STARTED)"
      using x r r0 False unfolding z_def
      by (simp_all add: send_write_def B(1) [symmetric] Let_def q remove_front_def has_ui_def)
    have "nat r \<le> length B" using r(3) by linarith
    then show ?thesis
      using send_end_step [OF q z B(2) _ B(4,3)] sw r0 r(1,3)
      by (auto split: if_splits simp del: length_drop)
  qed
qed

text \<open>One callback of a running sender.\<close>

lemma xfer_deref_live: "\<not> xf_freed x \<Longrightarrow> xfer_deref x = x"
  by (simp add: xfer_deref_def)

lemma send_atE:
  assumes "send_at rc F n b x"
  shows "xf_type x = XFER_SEND" "xf_status x = XFER_STATUS_STARTED" "\<not> xf_freed x" "\<not> xf_bad x"
      "unat (xf_size x) = length F" "unat (xf_bytes_sent x) = n"
      "unat (xf_bytes_remaining x) = length F - n" "xf_wire x = take n F"
      "xf_watcher x \<noteq> 0" "xf_ref x = rc \<and> 0 < rc" "\<not> has_ui ui_read x" "0 < xf_current_buffer_size x"
      "xf_file x = F" "xf_buffer x = Some b"
    and "xf_dest_fp x = Some (n + length b)" "b = take (length b) (drop n F)"
      "n + length b \<le> length F" "n < length F" "xfer_deref x = x"
  using assms unfolding send_at_def by (blast intro: xfer_deref_live)+

definition net_live :: "world \<Rightarrow> bool" where
  "net_live W \<longleftrightarrow> (\<forall>b. b \<noteq> [] \<longrightarrow> w_op_write W b > 0 \<and> (\<exists>n > 0. w_sys_write W b = Inr n)) \<and>
     (\<forall>b. w_fread W b = (length b, False))"

lemma xfer_output_live: "net_live W \<Longrightarrow> b \<noteq> [] \<Longrightarrow> 0 < xfer_output W b x"
  unfolding net_live_def xfer_output_def by (fastforce split: option.split)

definition send_after :: "world \<Rightarrow> nat \<Rightarrow> bytes \<Rightarrow> nat \<Rightarrow> xfer \<Rightarrow> bool" where
  "send_after W rc F n y \<longleftrightarrow> send_done F y \<or>
     (\<exists>m b'. send_at rc F m b' y \<and> n \<le> m \<and> (net_live W \<longrightarrow> n < m)) \<or>
     (send_stopped rc F y \<and> \<not> net_live W)"

lemma send_write_after:
  assumes q: "quiet W" and ok: "net_ok W"
    and x: "send_at rc F n b x"
    and B: "B = b @ got" "B = take (length B) (drop n F)" "B \<noteq> []" "n + length B \<le> length F"
  shows "case send_write W got (x\<lparr>xf_dest_fp := Some (n + length B)\<rparr>) of
           (None, y) \<Rightarrow> send_after W rc F n y
         | (Some (r, bf), y) \<Rightarrow> send_after W rc F n (do_transfer_end W r bf y)"
proof -
  let ?x = "x\<lparr>xf_dest_fp := Some (n + length B)\<rparr>"
  have out: "xfer_output W B ?x = xfer_output W B x" by (simp add: xfer_output_def)
  have live: "net_live W \<Longrightarrow> 0 < xfer_output W B x" using xfer_output_live B(3) by blast
  have *: "case send_write W got ?x of
           (None, y) \<Rightarrow> xfer_output W B x = -1 \<and> send_stopped rc F y
         | (Some (r, bf), y) \<Rightarrow> r = xfer_output W B x \<and> 0 \<le> r \<and> r \<le> int (length B) \<and>
             (if n + nat r = length F then send_done F (do_transfer_end W r bf y)
              else send_at rc F (n + nat r) (drop (nat r) B) (do_transfer_end W r bf y))"
    using send_write_step [OF q ok _ _ _ _ _ _ _ _ _ _ _ _ _ _ _ B, of ?x, unfolded out]
      send_atE(1-14) [OF x] by (simp add: has_ui_def cong: option.case_cong)
  show ?thesis
  proof (cases "send_write W got ?x")
    case (Pair res y)
    show ?thesis
    proof (cases res)
      case None
      then show ?thesis using * Pair live by (auto simp: send_after_def)
    next
      case (Some rb)
      then show ?thesis using * Pair live
        by (cases rb) (fastforce simp: send_after_def split: if_splits)
    qed
  qed
qed

lemma do_transfer_sending:
  assumes q: "quiet W" and ok: "net_ok W" and x: "send_at rc F n b x"
  shows "send_after W rc F n (do_transfer W x)"
proof -
  note X = send_atE [OF x]
  define s where "s = min (xf_bytes_remaining x) (xf_current_buffer_size x)"
  have s: "unat s \<le> length F - n" "0 < unat s" "s \<noteq> 0"
    using X(7,12,18) by (auto simp: s_def min_def word_le_nat_alt word_less_nat_alt)
  have lt: "length b < 2 ^ 64"
    using X(5,17) unsigned_less [of "xf_size x", where 'a = nat] by simp
  then have len: "unat (of_nat (length b) :: size_t) = length b"
    by (simp add: unsigned_of_nat take_bit_nat_eq_self)
  have step: "send_after W rc F n (do_transfer W x)"
    if B: "B = b @ got" "B = take (length B) (drop n F)" "B \<noteq> []" "n + length B \<le> length F"
      and eq: "do_transfer_send W x = send_write W got (x\<lparr>xf_dest_fp := Some (n + length B)\<rparr>)" for B got
    using send_write_after [OF q ok x B] X(1) eq
    by (auto simp: do_transfer_def X(19) split: prod.splits option.splits)
  show ?thesis
  proof (cases "length b < unat s")
    case False
    then have "send_wanted x s = None" using X(14) len by (simp add: send_wanted_def word_less_nat_alt)
    moreover have "x\<lparr>xf_dest_fp := Some (n + length b)\<rparr> = x" using X(15) by simp
    ultimately have "do_transfer_send W x = send_write W [] (x\<lparr>xf_dest_fp := Some (n + length b)\<rparr>)"
      using s(3) by (simp add: do_transfer_send_def Let_def s_def [symmetric])
    moreover have "b \<noteq> []" using False s(2) by fastforce
    ultimately show ?thesis using step [of b "[]"] X(16,17) by simp
  next
    case True
    let ?k = "unat s - length b"
    have k: "unat (s - of_nat (length b)) = ?k"
      using True len by (simp add: unat_sub word_le_nat_alt)
    have wanted: "send_wanted x s = Some (s - of_nat (length b))"
      using True X(14) len by (simp add: send_wanted_def word_less_nat_alt)
    let ?there = "take ?k (drop (n + length b) F)"
    have there: "length ?there = ?k" using s(1) True by simp
    obtain m err where m: "w_fread W ?there = (m, err)" by fastforce
    have fread: "xfer_fread W (s - of_nat (length b)) x =
        (take m ?there, err, x\<lparr>xf_dest_fp := Some (n + length b + length (take m ?there))\<rparr>)"
      using X(13,15) m k by (simp add: xfer_fread_def Let_def del: length_take length_drop take_take)
    show ?thesis
    proof (cases "length (take m ?there) = ?k")
      case True
      then have "length ?there \<le> m" unfolding length_take [of m] there by linarith
      then have all: "take m ?there = ?there" by (rule take_all)
      have B: "b @ ?there = take (unat s) (drop n F)"
        using X(16) \<open>length b < unat s\<close> take_add [of "length b" ?k "drop n F"] by (simp add: ac_simps)
      have "do_transfer_send W x = send_write W ?there (x\<lparr>xf_dest_fp := Some (n + length (b @ ?there))\<rparr>)"
        using s(3) wanted fread [unfolded all there] there k X(11)
        by (simp add: do_transfer_send_def send_fetch_def Let_def s_def [symmetric] ac_simps del: length_take length_drop)
      then show ?thesis
        using step [of "b @ ?there" ?there] B s X(17,18) by simp
    next
      case False
      then have "\<not> net_live W" using m there by (auto simp: net_live_def)
      moreover have "do_transfer_send W x = (None, purple_xfer_cancel_local W
          (x\<lparr>xf_dest_fp := Some (n + length b + length (take m ?there))\<rparr>))"
        using s(3) wanted fread False k X(11)
        by (simp add: do_transfer_send_def send_fetch_def Let_def s_def [symmetric] del: length_take length_drop)
      ultimately show ?thesis
        using X cancel_local_stops [OF q, of "x\<lparr>xf_dest_fp := Some (n + length b + length (take m ?there))\<rparr>" n F]
        by (simp add: do_transfer_def send_after_def)
    qed
  qed
qed

subsection \<open>Receiving\<close>

definition recv_ok :: "world \<Rightarrow> bool" where
  "recv_ok W \<longleftrightarrow>
     (\<forall>s b. w_sys_read W s = Inr b \<longrightarrow> length b \<le> unat s) \<and>
     (\<forall>b. w_fwrite W b \<le> length b)"

definition recv_live :: "world \<Rightarrow> bool" where
  "recv_live W \<longleftrightarrow> (\<forall>s. 0 < s \<longrightarrow> (\<exists>b. w_sys_read W s = Inr b \<and> b \<noteq> [])) \<and>
     (\<forall>b. w_fwrite W b = length b)"

definition recv_at :: "nat \<Rightarrow> nat \<Rightarrow> xfer \<Rightarrow> bool" where
  "recv_at S n x \<longleftrightarrow>
     xf_type x = XFER_RECEIVE \<and> xf_status x = XFER_STATUS_STARTED \<and> xf_watcher x \<noteq> 0 \<and>
     \<not> xf_freed x \<and> \<not> xf_bad x \<and> xf_ref x > 0 \<and> \<not> has_ui ui_write x \<and>
     op_read (xf_ops x) = None \<and> 0 < xf_current_buffer_size x \<and>
     unat (xf_size x) = S \<and> n < S \<and> unat (xf_bytes_sent x) = n \<and>
     unat (xf_bytes_remaining x) = S - n \<and>
     length (xf_wire x) = n \<and> xf_file x = xf_wire x \<and> xf_dest_fp x = Some n"

definition recv_done :: "nat \<Rightarrow> xfer \<Rightarrow> bool" where
  "recv_done S x \<longleftrightarrow> xf_status x = XFER_STATUS_DONE \<and> xf_file x = xf_wire x \<and>
     length (xf_file x) = S \<and> xf_watcher x = 0 \<and> xf_dest_fp x = None \<and> \<not> xf_bad x"

definition recv_stopped :: "nat \<Rightarrow> xfer \<Rightarrow> bool" where
  "recv_stopped S x \<longleftrightarrow> purple_xfer_is_canceled x \<and> (\<exists>m < S. xf_file x = take m (xf_wire x)) \<and>
     xf_watcher x = 0 \<and> xf_dest_fp x = None \<and> \<not> xf_bad x"

lemma cancel_local_stops_recv:
  assumes "quiet W" "\<not> xf_bad x" "\<not> xf_freed x" "xf_file x = take m (xf_wire x)" "m < S"
  shows "recv_stopped S (purple_xfer_cancel_local W x)"
  using assms
  by (auto simp: recv_stopped_def purple_xfer_cancel_local_def purple_xfer_is_canceled_def)

lemma cancel_remote_stops_recv:
  assumes "quiet W" "\<not> xf_bad x" "\<not> xf_freed x" "xf_file x = take m (xf_wire x)" "m < S"
  shows "recv_stopped S (purple_xfer_cancel_remote W x)"
  using assms
  by (auto simp: recv_stopped_def purple_xfer_cancel_remote_def purple_xfer_is_canceled_def)

lemma end_done_recv:
  assumes "quiet W" "xf_status x = XFER_STATUS_DONE" "\<not> xf_freed x" "\<not> xf_bad x"
    "xf_file x = xf_wire x" "length (xf_wire x) = S"
  shows "recv_done S (purple_xfer_end W x)"
  using assms
  by (simp add: recv_done_def purple_xfer_end_def xfer_deref_live Let_def purple_xfer_is_completed_def)

definition recv_after :: "world \<Rightarrow> nat \<Rightarrow> nat \<Rightarrow> xfer \<Rightarrow> bool" where
  "recv_after W S n y \<longleftrightarrow> recv_done S y \<or>
     (\<exists>m. recv_at S m y \<and> n \<le> m \<and> (recv_live W \<longrightarrow> n < m)) \<or> (recv_stopped S y \<and> \<not> recv_live W)"

lemma file_put_end: "length f = n \<Longrightarrow> file_put n b f = f @ b"
  by (simp add: file_put_def)

lemma recv_end_step:
  assumes q: "quiet W" and b: "0 < length b" "length b \<le> S - n"
    and z: "xf_type z = XFER_RECEIVE" "\<not> xf_freed z" "\<not> xf_bad z" "xf_ref z > 0"
      "\<not> has_ui ui_write z" "op_read (xf_ops z) = None" "0 < xf_current_buffer_size z"
      "unat (xf_size z) = S" "n < S" "unat (xf_bytes_sent z) = n"
      "unat (xf_bytes_remaining z) = S - n" "length (xf_wire z) = n + length b"
      "xf_file z = xf_wire z" "xf_dest_fp z = Some (n + length b)" "xf_watcher z \<noteq> 0"
      "xf_status z = (if n + length b = S then XFER_STATUS_DONE else XFER_STATUS_STARTED)"
  shows "if n + length b = S then recv_done S (do_transfer_end W (int (length b)) bf z)
         else recv_at S (n + length b) (do_transfer_end W (int (length b)) bf z)"
proof -
  let ?k = "length b"
  define y where "y = z\<lparr>xf_bytes_remaining := xf_bytes_remaining z - word_of_int (int ?k),
                       xf_bytes_sent := xf_bytes_sent z + word_of_int (int ?k)\<rparr>"
  define v where "v = call_op op_ack (\<lambda>p. Op_ack p bf (int ?k)) W y"
  define u where "u = xfer_call_if (has_ui ui_update_progress v) W Ui_update_progress v"
  have lt: "S < 2 ^ 64" using z(8) unsigned_less [of "xf_size z", where 'a = nat] by simp
  have size: "0 < xf_size z" using z(8,9) by (simp add: word_less_nat_alt)
  have k: "unat (of_nat ?k :: size_t) = ?k"
    using b(2) lt by (simp add: unsigned_of_nat take_bit_nat_eq_self)
  have sent: "unat (xf_bytes_sent z + of_nat ?k) = n + ?k"
    using z(9,10) k b(2) lt by (simp add: unat_add_lem [THEN iffD1])
  have "of_nat ?k \<le> xf_bytes_remaining z" using z(11) k b(2) by (simp add: word_le_nat_alt)
  then have remaining: "unat (xf_bytes_remaining z - of_nat ?k) = S - (n + ?k)"
    using z(11) k by (simp add: unat_sub)
  have eq: "do_transfer_end W (int ?k) bf z =
      (if xf_status z = XFER_STATUS_DONE then purple_xfer_end W u else u)"
    using size b(1) q
    by (simp add: do_transfer_end_def y_def u_def v_def Let_def purple_xfer_is_completed_def)
  show ?thesis
  proof (cases "n + ?k = S")
    case True
    then have "recv_done S (purple_xfer_end W u)"
      using z by (intro end_done_recv) (simp_all add: u_def v_def y_def q)
    then show ?thesis using True z eq by simp
  next
    case False
    then have "recv_at S (n + ?k) u"
      using z b sent remaining by (simp add: recv_at_def u_def v_def y_def q has_ui_def)
    then show ?thesis using eq z False by simp
  qed
qed

lemma recv_atD:
  assumes "recv_at S n x"
  shows "xf_type x = XFER_RECEIVE" "xf_status x = XFER_STATUS_STARTED" "xf_watcher x \<noteq> 0"
     "\<not> xf_freed x" "\<not> xf_bad x" "xf_ref x > 0" "\<not> has_ui ui_write x"
     "op_read (xf_ops x) = None" "0 < xf_current_buffer_size x"
     "unat (xf_size x) = S" "n < S" "unat (xf_bytes_sent x) = n"
     "unat (xf_bytes_remaining x) = S - n"
     "length (xf_wire x) = n" "xf_file x = xf_wire x" "xf_dest_fp x = Some n" "xfer_deref x = x"
     "xf_size x \<noteq> 0"
  using assms unfolding recv_at_def by (auto intro: xfer_deref_live)

text \<open>How much the next read may return.\<close>

definition recv_room :: "xfer \<Rightarrow> size_t" where
  "recv_room x = min (xf_bytes_remaining x) (xf_current_buffer_size x)"

lemma recv_room:
  assumes "recv_at S n x"
  shows "unat (recv_room x) \<le> S - n" "0 < recv_room x"
  using recv_atD(9,11,13) [OF assms]
  by (auto simp: recv_room_def min_def word_le_nat_alt word_less_nat_alt)

text \<open>Bytes arrived.\<close>

lemma do_transfer_got:
  assumes q: "quiet W" and ok: "recv_ok W" and x: "recv_at S n x"
    and Inr: "w_sys_read W (recv_room x) = Inr b" and False: "b \<noteq> []"
  shows "recv_after W S n (do_transfer W x)"
proof -
  note X = recv_atD [OF x]
  have s: "unat (recv_room x) \<le> S - n" by (rule recv_room [OF x])
  have lt: "S < 2 ^ 64" using X(10) unsigned_less [of "xf_size x", where 'a = nat] by simp
  note size = X(18)
  let ?k = "length b"
  define y where "y = snd (snd (purple_xfer_read W x))"
  define m where "m = w_fwrite W b"
  define z where "z = y\<lparr>xf_file := xf_wire x @ take m b, xf_dest_fp := Some (n + length (take m b))\<rparr>"
  have k: "0 < ?k" "?k \<le> S - n" using False ok Inr s by (fastforce simp: recv_ok_def)+
  have m: "m \<le> ?k" using ok by (simp add: recv_ok_def m_def)
  have read: "purple_xfer_read W x = (int ?k, b, y)"
    using False Inr X(8,17) size
    by (simp add: y_def purple_xfer_read_def Let_def recv_room_def [symmetric] xfer_input_def)
  have y: "xf_type y = XFER_RECEIVE" "xf_status y = XFER_STATUS_STARTED" "xf_watcher y \<noteq> 0"
    "\<not> xf_freed y" "\<not> xf_bad y" "xf_ref y > 0" "\<not> has_ui ui_write y"
    "op_read (xf_ops y) = None" "0 < xf_current_buffer_size y" "xf_size y = xf_size x"
    "xf_bytes_sent y = xf_bytes_sent x" "xf_bytes_remaining y = xf_bytes_remaining x"
    "xf_wire y = xf_wire x @ b" "xf_file y = xf_wire x" "xf_dest_fp y = Some n"
    using False Inr X size
    by (simp_all add: y_def purple_xfer_read_def Let_def recv_room_def [symmetric] xfer_input_def has_ui_def)
  have fwrite: "xfer_fwrite W b y = (m, z)"
    using y X(14) by (simp add: xfer_fwrite_def m_def z_def Let_def file_put_end)
  have kw: "unat (word_of_int (int ?k) :: size_t) = ?k" "unat (of_nat m :: size_t) = m"
    using k(2) m lt by (simp_all add: unsigned_of_nat take_bit_nat_eq_self)
  show ?thesis
  proof (cases "m = ?k")
    case False
    then have ne: "(of_nat m :: size_t) \<noteq> word_of_int (int ?k)" using kw by metis
    then have "do_transfer W x = purple_xfer_cancel_local W z"
      using k(1) X(1,17) read fwrite y(7)
      by (simp add: do_transfer_def do_transfer_receive_def)
    moreover have "xf_file z = take (n + m) (xf_wire z)"
      using X(14) y(13) by (simp add: z_def)
    moreover have "n + m < S" using k(2) m False X(11) by linarith
    ultimately show ?thesis
      using cancel_local_stops_recv [OF q, of z "n + m"] y False
      by (auto simp: recv_after_def z_def recv_live_def m_def)
  next
    case True
    define z' where "z' = (if n + ?k = S then purple_xfer_set_completed W True z else z)"
    have "unat (xf_bytes_sent x + of_nat ?k) = n + ?k"
      using X(11,12) kw k(2) lt by (simp add: unat_add_lem [THEN iffD1])
    then have full: "xf_size x \<le> xf_bytes_sent x + of_nat ?k \<longleftrightarrow> n + ?k = S"
      using X(10,11) k(2) by (auto simp: word_le_nat_alt)
    have "do_transfer W x = do_transfer_end W (int ?k) (Some b) z'"
      using k(1) X(1,17) read fwrite y size True full
      by (simp add: do_transfer_def do_transfer_receive_def z'_def z_def word_neq_0_conv)
    moreover have "if n + ?k = S then recv_done S (do_transfer_end W (int ?k) (Some b) z')
        else recv_at S (n + ?k) (do_transfer_end W (int ?k) (Some b) z')"
      using y X True q k
      by (intro recv_end_step) (simp_all add: z'_def z_def has_ui_def)
    ultimately show ?thesis using k(1) by (auto simp: recv_after_def split: if_splits)
  qed
qed

lemma do_transfer_receiving:
  assumes q: "quiet W" and ok: "recv_ok W" and x: "recv_at S n x"
  shows "recv_after W S n (do_transfer W x)"
proof -
  note X = recv_atD [OF x]
  have s: "0 < recv_room x" by (rule recv_room [OF x])
  have stop: "recv_after W S n (do_transfer W x)" if "xfer_input W (recv_room x) x = (-1, [])" "\<not> recv_live W"
    using that X cancel_remote_stops_recv [OF q, of x n]
    by (simp add: do_transfer_def do_transfer_receive_def purple_xfer_read_def Let_def
        recv_room_def [symmetric] recv_after_def)
  show ?thesis
  proof (cases "w_sys_read W (recv_room x)")
    case (Inl e)
    then have dead: "\<not> recv_live W" using s by (force simp: recv_live_def)
    show ?thesis
    proof (cases e)
      case EAGAIN
      then have "xfer_input W (recv_room x) x = (0, [])" using Inl X(8) by (simp add: xfer_input_def)
      then have "do_transfer W x = x"
        using X(1,2,9,17) X(18)
        by (simp add: do_transfer_def do_transfer_receive_def purple_xfer_read_def Let_def
            recv_room_def [symmetric] do_transfer_end_def purple_xfer_is_completed_def)
      then show ?thesis using x dead by (auto simp: recv_after_def)
    next
      case EOTHER
      then show ?thesis using stop dead Inl X(8) by (simp add: xfer_input_def)
    qed
  next
    case (Inr b)
    show ?thesis
    proof (cases "b = []")
      case True
      then have "\<not> recv_live W" using s Inr by (force simp: recv_live_def)
      then show ?thesis using stop True Inr X(8) by (simp add: xfer_input_def)
    next
      case False
      then show ?thesis using do_transfer_got [OF q ok x Inr] by simp
    qed
  qed
qed

subsection \<open>Runs of the event loop\<close>

text \<open>One world per turn: the callback runs while the watcher is installed.\<close>

fun event_loop :: "world list \<Rightarrow> xfer \<Rightarrow> xfer" where
  "event_loop [] x = x"
| "event_loop (W # Ws) x = event_loop Ws (if xf_watcher x \<noteq> 0 then transfer_cb W x else x)"

lemma event_loop_idle: "xf_watcher x = 0 \<Longrightarrow> event_loop Ws x = x"
  by (induction Ws) simp_all

lemma transfer_cb_open:
  assumes "xf_dest_fp x = Some p" "\<not> xf_freed x"
  shows "transfer_cb W x = do_transfer W x"
  using assms by (simp add: transfer_cb_def xfer_deref_live)

text \<open>The loop of any transfer whose callbacks go through states \<open>stage n\<close> with growing \<open>n\<close>.\<close>

locale transfer_loop =
  fixes good :: "world \<Rightarrow> bool"
    and live :: "world \<Rightarrow> bool"
    and stage :: "nat \<Rightarrow> xfer \<Rightarrow> bool"
    and finished :: "xfer \<Rightarrow> bool"
    and stopped :: "xfer \<Rightarrow> bool"
    and total :: nat
  assumes callback: "good W \<Longrightarrow> stage n x \<Longrightarrow>
      finished (transfer_cb W x) \<or>
      (\<exists>m. stage m (transfer_cb W x) \<and> n \<le> m \<and> (live W \<longrightarrow> n < m)) \<or>
      (stopped (transfer_cb W x) \<and> \<not> live W)"
    and watched: "stage n x \<Longrightarrow> xf_watcher x \<noteq> 0"
    and bounded: "stage n x \<Longrightarrow> n < total"
    and finished_idle: "finished x \<Longrightarrow> xf_watcher x = 0"
    and stopped_idle: "stopped x \<Longrightarrow> xf_watcher x = 0"
begin

lemma loop_safe:
  "(\<And>W. W \<in> set Ws \<Longrightarrow> good W) \<Longrightarrow> stage n x \<Longrightarrow>
   finished (event_loop Ws x) \<or> stopped (event_loop Ws x) \<or> (\<exists>m. stage m (event_loop Ws x))"
proof (induction Ws arbitrary: n x)
  case Nil
  then show ?case by auto
next
  case (Cons W Ws)
  have run: "event_loop (W # Ws) x = event_loop Ws (transfer_cb W x)"
    using watched [OF Cons.prems(2)] by simp
  from callback [OF Cons.prems(1) Cons.prems(2), of W]
  consider "finished (transfer_cb W x)" | "stopped (transfer_cb W x)" | m where "stage m (transfer_cb W x)"
    by auto
  then show ?case
  proof cases
    case 1
    then show ?thesis unfolding run by (simp add: event_loop_idle finished_idle)
  next
    case 2
    then show ?thesis unfolding run by (simp add: event_loop_idle stopped_idle)
  next
    case 3
    then show ?thesis unfolding run using Cons.IH [of m "transfer_cb W x"] Cons.prems(1) by simp
  qed
qed

lemma loop_live:
  "(\<And>W. W \<in> set Ws \<Longrightarrow> good W \<and> live W) \<Longrightarrow> stage n x \<Longrightarrow> total \<le> n + length Ws \<Longrightarrow>
   finished (event_loop Ws x)"
proof (induction Ws arbitrary: n x)
  case Nil
  then show ?case using bounded by fastforce
next
  case (Cons W Ws)
  have run: "event_loop (W # Ws) x = event_loop Ws (transfer_cb W x)"
    using watched [OF Cons.prems(2)] by simp
  have "good W" "live W" using Cons.prems(1) [of W] by simp_all
  from callback [OF this(1) Cons.prems(2)] this(2)
  consider "finished (transfer_cb W x)" | m where "stage m (transfer_cb W x)" "n < m" by auto
  then show ?case
  proof cases
    case 1
    then show ?thesis unfolding run by (simp add: event_loop_idle finished_idle)
  next
    case (2 m)
    then show ?thesis unfolding run
      using Cons.IH [of m "transfer_cb W x"] Cons.prems(1,3) by simp
  qed
qed

end

interpretation sender: transfer_loop "\<lambda>W. quiet W \<and> net_ok W" net_live
  "\<lambda>n x. \<exists>b. send_at rc F n b x" "send_done F" "send_stopped rc F" "length F" for rc F
proof
  fix W n x
  assume "quiet W \<and> net_ok W" "\<exists>b. send_at rc F n b x"
  then obtain b where "send_at rc F n b x" "quiet W" "net_ok W" by blast
  then show "send_done F (transfer_cb W x) \<or>
      (\<exists>m. (\<exists>b. send_at rc F m b (transfer_cb W x)) \<and> n \<le> m \<and> (net_live W \<longrightarrow> n < m)) \<or>
      (send_stopped rc F (transfer_cb W x) \<and> \<not> net_live W)"
    using do_transfer_sending [of W rc F n b x] transfer_cb_open send_atE(3,15)
    unfolding send_after_def by metis
qed (auto simp: send_at_def send_done_def send_stopped_def)

interpretation receiver: transfer_loop "\<lambda>W. quiet W \<and> recv_ok W" recv_live
  "recv_at S" "recv_done S" "recv_stopped S" S for S
proof
  fix W n x
  assume "quiet W \<and> recv_ok W" "recv_at S n x"
  then show "recv_done S (transfer_cb W x) \<or>
      (\<exists>m. recv_at S m (transfer_cb W x) \<and> n \<le> m \<and> (recv_live W \<longrightarrow> n < m)) \<or>
      (recv_stopped S (transfer_cb W x) \<and> \<not> recv_live W)"
    using do_transfer_receiving [of W S n x] transfer_cb_open [of x n W]
    by (simp add: recv_after_def recv_at_def)
qed (auto simp: recv_at_def recv_done_def recv_stopped_def)

text \<open>A transfer about to be started, with nothing moved so far.\<close>

definition send_ready :: "bytes \<Rightarrow> xfer \<Rightarrow> bool" where
  "send_ready F x \<longleftrightarrow>
     xf_type x = XFER_SEND \<and> \<not> xf_freed x \<and> \<not> xf_bad x \<and> xf_ref x > 0 \<and> \<not> ui_moves_data x \<and>
     xf_start_time x = 0 \<and> xf_local_filename x \<noteq> None \<and> 0 < xf_current_buffer_size x \<and>
     F \<noteq> [] \<and> xf_file x = F \<and> unat (xf_size x) = length F \<and> xf_bytes_sent x = 0 \<and>
     xf_bytes_remaining x = xf_size x \<and> xf_wire x = [] \<and> xf_buffer x = Some []"

definition recv_ready :: "nat \<Rightarrow> xfer \<Rightarrow> bool" where
  "recv_ready S x \<longleftrightarrow>
     xf_type x = XFER_RECEIVE \<and> \<not> xf_freed x \<and> \<not> xf_bad x \<and> xf_ref x > 0 \<and> \<not> ui_moves_data x \<and>
     xf_start_time x = 0 \<and> xf_local_filename x \<noteq> None \<and> 0 < xf_current_buffer_size x \<and>
     op_read (xf_ops x) = None \<and> 0 < S \<and> unat (xf_size x) = S \<and> xf_bytes_sent x = 0 \<and>
     xf_bytes_remaining x = xf_size x \<and> xf_wire x = []"

definition start_ok :: "world \<Rightarrow> bool" where
  "start_ok W \<longleftrightarrow> quiet W \<and> w_fopen W \<and> w_fseek W \<and> w_input_add W \<noteq> 0"

lemma start_sending:
  assumes "start_ok W" "send_ready F x" "fd \<noteq> 0" "fd \<noteq> -1"
  shows "send_at (xf_ref x) F 0 [] (purple_xfer_start W fd addr x)"
  using assms
  by (auto simp: start_ok_def send_ready_def send_at_def purple_xfer_start_def begin_transfer_def
      open_file_def input_add_def ui_moves_data_def has_ui_def xfer_deref_live Let_def)

lemma start_receiving:
  assumes "start_ok W" "recv_ready S x" "fd \<noteq> 0" "fd \<noteq> -1"
  shows "recv_at S 0 (purple_xfer_start W fd None x)"
  using assms
  by (auto simp: start_ok_def recv_ready_def recv_at_def purple_xfer_start_def begin_transfer_def
      open_file_def input_add_def ui_moves_data_def has_ui_def xfer_deref_live Let_def)

subsection \<open>Properties\<close>

text \<open>A world where everything works, two bytes at a time, and transfers to try it with.\<close>

definition plain_world :: world where
  "plain_world = \<lparr>w_call = (\<lambda>c x. x), w_time = 1, w_op_read = (0, []), w_op_write = (\<lambda>b. int (length b)),
     w_sys_read = (\<lambda>s. Inr (replicate (min 2 (unat s)) 7)), w_sys_write = (\<lambda>b. Inr (min 2 (length b))),
     w_ui_read = (\<lambda>s. (0, [])), w_ui_write = (\<lambda>b. int (length b)), w_fread = (\<lambda>b. (length b, False)),
     w_fwrite = length, w_fopen = True, w_fseek = True, w_stat = (\<lambda>f. Some (3, False)),
     w_access = (\<lambda>f. True), w_dir_access = (\<lambda>f. True), w_basename = Some, w_input_add = 5\<rparr>"

definition plain_xfer :: "xfer_type \<Rightarrow> xfer" where
  "plain_xfer type = the (purple_xfer_new plain_world None (Some ''me'') type (Some ''you''))"

definition plain_send :: xfer where
  "plain_send = purple_xfer_set_size 3 (purple_xfer_set_local_filename (Some ''f'')
     ((plain_xfer XFER_SEND)\<lparr>xf_file := [1, 2, 3]\<rparr>))"

definition plain_recv :: xfer where
  "plain_recv = purple_xfer_set_size 3 (purple_xfer_set_local_filename (Some ''f'')
     (plain_xfer XFER_RECEIVE))"

lemma quiet_identity:
  assumes "w_call W = (\<lambda>c x. x)"
  shows "quiet W"
proof -
  have "\<exists>d u. x = x\<lparr>xf_data := d, xf_ui_data := u\<rparr>" for x
    by (rule exI [of _ "xf_data x"], rule exI [of _ "xf_ui_data x"]) simp
  then show ?thesis unfolding quiet_def assms by blast
qed

lemma plain_world_ok [simp]:
  "quiet plain_world" "net_ok plain_world" "net_live plain_world" "recv_ok plain_world"
  "recv_live plain_world" "start_ok plain_world"
proof -
  show "quiet plain_world" by (rule quiet_identity) (simp add: plain_world_def)
  then show "start_ok plain_world" by (simp add: start_ok_def plain_world_def)
  show "net_ok plain_world" "net_live plain_world" "recv_ok plain_world" "recv_live plain_world"
    by (auto simp: net_ok_def net_live_def recv_ok_def recv_live_def plain_world_def word_less_nat_alt)
qed

lemma plain_send_ready: "send_ready [1, 2, 3] plain_send"
  by (simp add: send_ready_def plain_send_def plain_xfer_def purple_xfer_new_def
      purple_xfer_set_size_def purple_xfer_set_local_filename_def xfer_deref_def ui_moves_data_def
      has_ui_def xfer_call_if_def FT_INITIAL_BUFFER_SIZE_def)

lemma plain_recv_ready: "recv_ready 3 plain_recv"
  by (simp add: recv_ready_def plain_recv_def plain_xfer_def purple_xfer_new_def
      purple_xfer_set_size_def purple_xfer_set_local_filename_def xfer_deref_def ui_moves_data_def
      has_ui_def xfer_call_if_def FT_INITIAL_BUFFER_SIZE_def)

lemma take_length_take: "take (length (take m F)) F = take m F"
  by (simp add: min_def)

lemma take_less:
  assumes "w = take m F" "m < length F"
  shows "take (length w) F = w" "w \<noteq> F"
  using assms by auto

lemma send_outcome:
  assumes "send_done F y \<or> send_stopped rc F y \<or> (\<exists>m b. send_at rc F m b y)"
  shows "xf_wire y = take (length (xf_wire y)) F \<and>
     (xf_wire y = F \<longleftrightarrow> xf_status y = XFER_STATUS_DONE) \<and>
     (xf_bad y \<longleftrightarrow> rc = 1 \<and> xf_status y = XFER_STATUS_CANCEL_REMOTE) \<and>
     (xf_status y = XFER_STATUS_STARTED \<or> xf_watcher y = 0 \<and> xf_dest_fp y = None)"
  using assms unfolding send_done_def send_stopped_def send_at_def purple_xfer_is_canceled_def
  by (elim disjE exE conjE; use take_less [of "xf_wire y" _ F] in fastforce)

lemma recv_outcome:
  assumes "recv_done S y \<or> recv_stopped S y \<or> (\<exists>m. recv_at S m y)"
  shows "(if purple_xfer_is_canceled y then xf_file y = take (length (xf_file y)) (xf_wire y)
      else xf_file y = xf_wire y) \<and> length (xf_file y) \<le> S \<and>
     (length (xf_file y) = S \<longleftrightarrow> xf_status y = XFER_STATUS_DONE) \<and> \<not> xf_bad y"
  using assms
proof (elim disjE exE)
  assume "recv_stopped S y"
  then obtain m where m: "m < S" "xf_file y = take m (xf_wire y)" "purple_xfer_is_canceled y" "\<not> xf_bad y"
    by (auto simp: recv_stopped_def)
  then have "length (xf_file y) < S" "take (length (xf_file y)) (xf_wire y) = xf_file y"
    by (simp, metis take_length_take)
  then show ?thesis using m by (auto simp: purple_xfer_is_canceled_def)
qed (auto simp: recv_done_def recv_at_def purple_xfer_is_canceled_def)

text \<open>C8: However the socket takes the data, in pieces, not at all for a while or with an
  error, what has crossed it is the beginning of the file, and it is all of the file exactly when
  the transfer says it is complete.  Freed memory is used in exactly one case: a failed
  write cancels a transfer with a single reference, and do_transfer then reads the private data
  that the cancellation has freed.\<close>

theorem xfer_send_faithful:
  assumes "start_ok W" "send_ready F x" "fd \<noteq> 0" "fd \<noteq> -1"
    and "\<And>V. V \<in> set Ws \<Longrightarrow> quiet V \<and> net_ok V"
  shows "let y = event_loop Ws (purple_xfer_start W fd addr x) in
    xf_wire y = take (length (xf_wire y)) F \<and> (xf_wire y = F \<longleftrightarrow> xf_status y = XFER_STATUS_DONE) \<and>
    (xf_bad y \<longleftrightarrow> xf_ref x = 1 \<and> xf_status y = XFER_STATUS_CANCEL_REMOTE) \<and>
    (xf_status y = XFER_STATUS_STARTED \<or> xf_watcher y = 0 \<and> xf_dest_fp y = None)"
proof -
  let ?y = "event_loop Ws (purple_xfer_start W fd addr x)"
  have "send_at (xf_ref x) F 0 [] (purple_xfer_start W fd addr x)"
    using assms(1-4) by (rule start_sending)
  then have "\<exists>b. send_at (xf_ref x) F 0 b (purple_xfer_start W fd addr x)" ..
  then have "send_done F ?y \<or> send_stopped (xf_ref x) F ?y \<or> (\<exists>m b. send_at (xf_ref x) F m b ?y)"
    by (rule sender.loop_safe [rotated]) (rule assms(5))
  then show ?thesis unfolding Let_def by (rule send_outcome)
qed

theorem xfer_send_faithful_witness:
  "let y = event_loop [plain_world] (purple_xfer_start plain_world 4 None plain_send) in
    xf_wire y = take (length (xf_wire y)) [1, 2, 3] \<and>
    (xf_wire y = [1, 2, 3] \<longleftrightarrow> xf_status y = XFER_STATUS_DONE) \<and>
    (xf_bad y \<longleftrightarrow> xf_ref plain_send = 1 \<and> xf_status y = XFER_STATUS_CANCEL_REMOTE) \<and> (xf_status y = XFER_STATUS_STARTED \<or> xf_watcher y = 0 \<and> xf_dest_fp y = None)"
  by (rule xfer_send_faithful [OF _ plain_send_ready]) simp_all

text \<open>C9: If the socket takes at least one byte whenever it reports that it is writable and the
  file can be read, then after at most as many callbacks as the file has bytes the whole
  file is sent and the transfer is complete.\<close>

theorem xfer_send_completes:
  assumes "start_ok W" "send_ready F x" "fd \<noteq> 0" "fd \<noteq> -1"
    and "\<And>V. V \<in> set Ws \<Longrightarrow> (quiet V \<and> net_ok V) \<and> net_live V" "length F \<le> length Ws"
  shows "let y = event_loop Ws (purple_xfer_start W fd addr x) in
    xf_status y = XFER_STATUS_DONE \<and> xf_wire y = F \<and> xf_watcher y = 0 \<and> xf_dest_fp y = None \<and>
    \<not> xf_bad y"
proof -
  have "send_at (xf_ref x) F 0 [] (purple_xfer_start W fd addr x)"
    using assms(1-4) by (rule start_sending)
  then have "\<exists>b. send_at (xf_ref x) F 0 b (purple_xfer_start W fd addr x)" ..
  from sender.loop_live [where Ws = Ws, OF assms(5) this] assms(6) show ?thesis
    by (simp add: Let_def send_done_def)
qed

theorem xfer_send_completes_witness:
  "let y = event_loop [plain_world, plain_world, plain_world]
             (purple_xfer_start plain_world 4 None plain_send) in
    xf_status y = XFER_STATUS_DONE \<and> xf_wire y = [1, 2, 3] \<and> xf_watcher y = 0 \<and>
    xf_dest_fp y = None \<and> \<not> xf_bad y"
  by (rule xfer_send_completes [OF _ plain_send_ready]) simp_all

text \<open>C10: A receipt over a plain socket: while it runs and when it is complete the file holds
  exactly the bytes that arrived, never more than were announced, and it is complete exactly
  when all of them have been written; with a socket that delivers on every callback that takes at
  most as many callbacks as there are bytes.\<close>

theorem xfer_receive_faithful:
  assumes "start_ok W" "recv_ready S x" "fd \<noteq> 0" "fd \<noteq> -1"
    and "\<And>V. V \<in> set Ws \<Longrightarrow> quiet V \<and> recv_ok V"
  shows "let y = event_loop Ws (purple_xfer_start W fd None x) in
    (if purple_xfer_is_canceled y then xf_file y = take (length (xf_file y)) (xf_wire y)
     else xf_file y = xf_wire y) \<and>
    length (xf_file y) \<le> S \<and> (length (xf_file y) = S \<longleftrightarrow> xf_status y = XFER_STATUS_DONE) \<and>
    ((\<forall>V \<in> set Ws. recv_live V) \<and> S \<le> length Ws \<longrightarrow> xf_status y = XFER_STATUS_DONE) \<and> \<not> xf_bad y"
proof -
  let ?y = "event_loop Ws (purple_xfer_start W fd None x)"
  have at: "recv_at S 0 (purple_xfer_start W fd None x)"
    using assms(1-4) by (rule start_receiving)
  have "xf_status ?y = XFER_STATUS_DONE" if "\<forall>V \<in> set Ws. recv_live V" "S \<le> length Ws"
    using receiver.loop_live [where Ws = Ws, OF _ at] that assms(5) by (simp add: recv_done_def)
  moreover have "recv_done S ?y \<or> recv_stopped S ?y \<or> (\<exists>m. recv_at S m ?y)"
    using at by (rule receiver.loop_safe [rotated]) (rule assms(5))
  ultimately show ?thesis using recv_outcome [of S ?y] unfolding Let_def by blast
qed

theorem xfer_receive_faithful_witness:
  "let y = event_loop [plain_world, plain_world, plain_world]
             (purple_xfer_start plain_world 4 None plain_recv) in
    (if purple_xfer_is_canceled y then xf_file y = take (length (xf_file y)) (xf_wire y)
     else xf_file y = xf_wire y) \<and>
    length (xf_file y) \<le> 3 \<and> (length (xf_file y) = 3 \<longleftrightarrow> xf_status y = XFER_STATUS_DONE) \<and>
    ((\<forall>V \<in> set [plain_world, plain_world, plain_world]. recv_live V) \<and>
       3 \<le> length [plain_world, plain_world, plain_world] \<longrightarrow> xf_status y = XFER_STATUS_DONE) \<and>
    \<not> xf_bad y"
  by (rule xfer_receive_faithful [OF _ plain_recv_ready]) simp_all

end
