(* ===== verification/Purple_Ft_Life.thy ===== *)
theory Purple_Ft_Life
  imports Purple_Ft_Stream
begin

section \<open>The life of a transfer\<close>

text \<open>
  What can happen to a transfer from outside is a value of \<open>ft_op\<close>: the protocol asks for it,
  starts it, moves data itself or ends it; a dialog is answered; the socket or a connection
  attempt calls back; somebody cancels.  \<open>ft_enabled\<close> says when: a button can be pressed while
  its dialog is open, a callback can come while it is registered, and the protocol and the
  interface keep to the order that the documentation of \<open>ft.h\<close> asks for.  Over all
  sequences of such steps the count of references covers the owner and the open dialogs, so
  that the record is never used after it was freed and no callback is left pending on it.
  The two guards on \<open>Cancel_local\<close> and \<open>Cancel_remote\<close> and the third, \<open>write_safe\<close>, that no write fails
  on a send with a single reference, are what the code does not ensure.  What happens without
  the first two is shown at the end, without the third in \<open>Purple_Ft_Stream\<close>.
\<close>

definition xfer_over :: "xfer \<Rightarrow> bool" where
  "xfer_over x \<longleftrightarrow> purple_xfer_is_completed x \<or> purple_xfer_is_canceled x"

definition life_same :: "xfer \<Rightarrow> xfer \<Rightarrow> bool" where
  "life_same x y \<longleftrightarrow>
     xf_ref y = xf_ref x \<and> xf_status y = xf_status x \<and> xf_freed y = xf_freed x \<and> xf_bad y = xf_bad x \<and>
     xf_dialogs y = xf_dialogs x \<and> xf_connecting y = xf_connecting x \<and> xf_ui_ops y = xf_ui_ops x \<and>
     xf_ops y = xf_ops x \<and> xf_ready_ui y = xf_ready_ui x \<and>
     (xf_watcher y = xf_watcher x \<or> xf_watcher y = 0) \<and> (xf_dest_fp y = None \<longleftrightarrow> xf_dest_fp x = None)"

definition life_over :: "xfer \<Rightarrow> xfer \<Rightarrow> bool" where
  "life_over x y \<longleftrightarrow>
     xf_ref y = xf_ref x - 1 \<and> xfer_over y \<and> xf_freed y = (xf_freed x \<or> xf_ref x = 1) \<and>
     xf_bad y = (xf_bad x \<or> xf_freed x) \<and>
     (xf_dialogs x = [] \<longrightarrow> xf_dialogs y = []) \<and> xf_connecting y = xf_connecting x \<and>
     xf_ui_ops y = xf_ui_ops x \<and> xf_ops y = xf_ops x \<and> xf_ready_ui y = xf_ready_ui x \<and>
     xf_watcher y = 0"

lemma life_same_refl [simp]: "life_same x x"
  by (simp add: life_same_def)

lemma life_same_trans: "life_same x y \<Longrightarrow> life_same y z \<Longrightarrow> life_same x z"
  unfolding life_same_def by auto

lemma life_same_over: "life_same x y \<Longrightarrow> life_over y z \<Longrightarrow> life_over x z"
  unfolding life_same_def life_over_def by auto

lemma life_same_call [simp]: "quiet W \<Longrightarrow> life_same x (xfer_call W c x)"
  by (simp add: life_same_def)

lemma life_same_call_if [simp]: "quiet W \<Longrightarrow> life_same x (xfer_call_if b W c x)"
  by (simp add: life_same_def)

lemma life_over_cancel_local [simp]: "quiet W \<Longrightarrow> life_over x (purple_xfer_cancel_local W x)"
  by (simp add: life_over_def purple_xfer_cancel_local_def xfer_over_def purple_xfer_is_canceled_def)

lemma life_over_cancel_remote [simp]: "quiet W \<Longrightarrow> life_over x (purple_xfer_cancel_remote W x)"
  by (simp add: life_over_def purple_xfer_cancel_remote_def xfer_over_def purple_xfer_is_canceled_def)

lemma life_over_end:
  assumes "quiet W" "\<not> xf_freed x"
  shows "life_over x (purple_xfer_end W x)"
proof (cases "xf_status x = XFER_STATUS_DONE")
  case True
  then show ?thesis using assms
    by (simp add: life_over_def purple_xfer_end_def xfer_deref_live Let_def
        purple_xfer_is_completed_def xfer_over_def)
next
  case False
  then show ?thesis using assms
    by (simp add: purple_xfer_end_def xfer_deref_live Let_def purple_xfer_is_completed_def)
qed

subsection \<open>Moving data ends the transfer or leaves it running\<close>

text \<open>What is needed for the file calls: an open file, unless the interface moves the data.\<close>

definition can_move :: "xfer \<Rightarrow> bool" where
  "can_move x \<longleftrightarrow> has_ui ui_read x = has_ui ui_write x \<and> (ui_moves_data x \<or> xf_dest_fp x \<noteq> None)"

lemma xfer_fread_same: "can_move x \<Longrightarrow> \<not> has_ui ui_read x \<Longrightarrow> life_same x (snd (snd (xfer_fread W s x)))"
  by (auto simp: xfer_fread_def life_same_def can_move_def ui_moves_data_def Let_def split_beta)

lemma xfer_fwrite_same: "can_move x \<Longrightarrow> \<not> has_ui ui_write x \<Longrightarrow> life_same x (snd (xfer_fwrite W b x))"
  by (auto simp: xfer_fwrite_def life_same_def can_move_def ui_moves_data_def Let_def)

lemma can_move_same: "life_same x y \<Longrightarrow> can_move x \<Longrightarrow> can_move y"
  by (auto simp: life_same_def can_move_def ui_moves_data_def has_ui_def)

lemma purple_xfer_read_same:
  "\<not> xf_freed x \<Longrightarrow> life_same x (snd (snd (purple_xfer_read W x)))"
  by (simp add: purple_xfer_read_def xfer_deref_live Let_def life_same_def
      purple_xfer_increase_buffer_size_def split: prod.split)

text \<open>The completion of a transfer that goes on to \<open>purple_xfer_end\<close>.\<close>

definition life_end :: "xfer \<Rightarrow> xfer \<Rightarrow> bool" where
  "life_end x y \<longleftrightarrow> life_same x (y\<lparr>xf_status := xf_status x\<rparr>) \<and>
     (xf_status y = xf_status x \<or> xf_status y = XFER_STATUS_DONE)"

lemma life_end_refl [simp]: "life_end x x"
  by (simp add: life_end_def)

lemma life_end_same: "life_same x y \<Longrightarrow> life_end y z \<Longrightarrow> life_end x z"
  unfolding life_end_def life_same_def by auto

lemma life_end_completed:
  "quiet W \<Longrightarrow> \<not> xf_freed x \<Longrightarrow> life_end x (purple_xfer_set_completed W True x)"
  by (simp add: life_end_def life_same_def)

lemma do_transfer_end_life:
  assumes q: "quiet W" and e: "life_end x y" and x: "\<not> xf_freed x" "xf_status x = XFER_STATUS_STARTED"
  shows "life_same x (do_transfer_end W r b y) \<or> life_over x (do_transfer_end W r b y)"
proof -
  define z where "z = (if r > 0
                then
                  let y = y\<lparr>xf_bytes_remaining :=
                            (if xf_size y > 0 then xf_bytes_remaining y - word_of_int r
                             else xf_bytes_remaining y),
                          xf_bytes_sent := xf_bytes_sent y + word_of_int r\<rparr>;
                      z = call_op op_ack (\<lambda>p. Op_ack p b r) W y
                  in xfer_call_if (has_ui ui_update_progress z) W Ui_update_progress z
                else y)"
  have z: "life_same y z" using q by (simp add: z_def Let_def life_same_def)
  have eq: "do_transfer_end W r b y = (if purple_xfer_is_completed z then purple_xfer_end W z else z)"
    unfolding do_transfer_end_def z_def Let_def by (rule refl)
  show ?thesis
  proof (cases "purple_xfer_is_completed z")
    case True
    have "\<not> xf_freed z" using z e x by (auto simp: life_end_def life_same_def)
    then have over: "life_over z (purple_xfer_end W z)" by (rule life_over_end [OF q])
    have "life_over x (purple_xfer_end W z)"
      using over z e unfolding life_over_def life_end_def life_same_def by auto
    then show ?thesis using eq True by simp
  next
    case False
    then have "life_same x z" using z e x
      unfolding life_end_def life_same_def purple_xfer_is_completed_def by auto
    then show ?thesis using eq False by simp
  qed
qed

definition early_or_end :: "xfer \<Rightarrow> ('a option \<times> xfer) \<Rightarrow> bool" where
  "early_or_end x p \<longleftrightarrow>
     (case p of (None, y) \<Rightarrow> life_same x y \<or> life_over x y | (Some _, y) \<Rightarrow> life_end x y)"

lemma early_or_end_same: "life_same x y \<Longrightarrow> early_or_end y p \<Longrightarrow> early_or_end x p"
  unfolding early_or_end_def
  by (auto split: option.splits intro: life_same_trans life_same_over life_end_same)

lemma do_transfer_receive_life:
  assumes q: "quiet W" and x: "\<not> xf_freed x" "can_move x"
  shows "early_or_end x (do_transfer_receive W x)"
proof -
  obtain r b y where read: "purple_xfer_read W x = (r, b, y)" by (metis prod_cases3)
  have y: "life_same x y" using purple_xfer_read_same [OF x(1), of W] read by simp
  define p where "p = (if has_ui ui_write y then (word_of_int (w_ui_write W (take (nat r) b)), y)
      else let (n, z) = xfer_fwrite W (take (nat r) b) y in (of_nat n :: size_t, z))"
  have z: "life_same x (snd p)"
    using y xfer_fwrite_same [OF can_move_same [OF y x(2)], of W "take (nat r) b"]
    by (auto simp: p_def split_beta intro: life_same_trans)
  have "\<not> xf_freed (snd p)" using z x(1) by (simp add: life_same_def)
  then have "life_end x (if c then purple_xfer_set_completed W True (snd p) else snd p)" for c
    using z life_end_same [OF z] life_end_completed [OF q] by simp
  moreover have "do_transfer_receive W x =
      (if r > 0 then
         if fst p \<noteq> word_of_int r then (None, purple_xfer_cancel_local W (snd p))
         else (Some (r, Some b),
           if xf_size (snd p) > 0 \<and> xf_bytes_sent (snd p) + word_of_int r \<ge> xf_size (snd p)
           then purple_xfer_set_completed W True (snd p) else snd p)
       else if r < 0 then (None, purple_xfer_cancel_remote W y)
       else (Some (0, Some b), y))"
    unfolding do_transfer_receive_def read p_def by (simp add: Let_def split_beta)
  ultimately show ?thesis
    using q y z life_end_same [OF y life_end_refl]
      life_same_over [OF z life_over_cancel_local [OF q]]
      life_same_over [OF y life_over_cancel_remote [OF q]]
    by (simp add: early_or_end_def)
qed

lemma purple_xfer_write_life:
  assumes "quiet W" "\<not> xf_freed x"
  shows "life_end x (snd (purple_xfer_write W b x))"
  using assms by (simp add: purple_xfer_write_def xfer_deref_live Let_def life_end_def life_same_def)

text \<open>A failed write makes \<open>do_transfer\<close> read the private data after the cancellation.\<close>

definition write_safe :: "world \<Rightarrow> xfer \<Rightarrow> bool" where
  "write_safe W x \<longleftrightarrow> xf_type x = XFER_SEND \<longrightarrow> 1 < xf_ref x \<or> (\<forall>b. xfer_output W b x \<noteq> -1)"

lemma write_fails:
  assumes "fst (purple_xfer_write W b x) = -1"
  shows "\<exists>b. xfer_output W b (xfer_deref x) = -1"
  using assms by (auto simp: purple_xfer_write_def Let_def split: if_splits)

lemma xfer_output_cong: "xf_ops y = xf_ops x \<Longrightarrow> xfer_output W b y = xfer_output W b x"
  by (simp add: xfer_output_def)

lemma send_write_life:
  assumes q: "quiet W" and x: "\<not> xf_freed x" "xf_status x = XFER_STATUS_STARTED"
    and safe: "1 < xf_ref x \<or> (\<forall>b. xfer_output W b x \<noteq> -1)"
  shows "early_or_end x (send_write W got x)"
proof -
  define y where "y = x\<lparr>xf_buffer := map_option (\<lambda>b. b @ got) (xf_buffer x)\<rparr>"
  define buffer where "buffer = (case xf_buffer x of None \<Rightarrow> got | Some b \<Rightarrow> b @ got)"
  obtain r z where wr: "purple_xfer_write W buffer y = (r, z)" by fastforce
  have z: "life_end x z"
    using purple_xfer_write_life [OF q, of y buffer] x wr
    by (auto simp: y_def life_end_def life_same_def)
  have neg: "xf_status z = xf_status x" if "r = -1"
    using wr that by (auto simp: purple_xfer_write_def Let_def y_def x xfer_deref_live split: if_splits)
  define u where "u = (if r \<ge> 0 \<and> r = int (length buffer) then purple_xfer_increase_buffer_size z
      else xfer_call_if (has_ui ui_data_not_sent z) W
        (Ui_data_not_sent (drop (nat r) buffer) (int (length buffer) - r)) z)"
  have "life_end x (u\<lparr>xf_buffer := map_option (remove_front r) (xf_buffer u)\<rparr>)"
    using z q by (auto simp: u_def life_end_def life_same_def purple_xfer_increase_buffer_size_def)
  moreover have "life_over x (xfer_deref (purple_xfer_cancel_remote W z))" if "r = -1"
  proof -
    have over: "life_over x (purple_xfer_cancel_remote W z)"
      using life_same_over [OF _ life_over_cancel_remote [OF q], of x z] z neg [OF that]
      by (simp add: life_end_def life_same_def)
    have "\<exists>b. xfer_output W b x = -1"
      using write_fails [of W buffer y] wr that x(1) xfer_output_cong [of y x W]
      by (simp add: y_def xfer_deref_live)
    with safe have "1 < xf_ref x" by blast
    with over x(1) have "\<not> xf_freed (purple_xfer_cancel_remote W z)" by (simp add: life_over_def)
    then show ?thesis using over by (simp add: xfer_deref_live)
  qed
  moreover have "send_write W got x =
      (if r = -1 then (None, xfer_deref (purple_xfer_cancel_remote W z))
       else (Some (r, case xf_buffer u of None \<Rightarrow> Some buffer | Some _ \<Rightarrow> None),
             u\<lparr>xf_buffer := map_option (remove_front r) (xf_buffer u)\<rparr>))"
    using wr unfolding send_write_def Let_def u_def y_def buffer_def by simp
  ultimately show ?thesis by (simp add: early_or_end_def)
qed

lemma send_fetch_life:
  assumes q: "quiet W" and x: "\<not> xf_freed x" "can_move x"
  shows "case send_fetch W s x of
           (None, y) \<Rightarrow> life_same x y \<or> life_over x y | (Some got, y) \<Rightarrow> life_same x y"
proof (cases "has_ui ui_read x")
  case True
  have "life_same x ((input_remove_watcher W x)\<lparr>xf_ready_prpl := True\<rparr>)"
    using q by (simp add: life_same_def)
  then show ?thesis using True q by (simp add: send_fetch_def split_beta Let_def)
next
  case False
  obtain got err y where f: "xfer_fread W s x = (got, err, y)" by (metis prod_cases3)
  then have y: "life_same x y" using xfer_fread_same [OF x(2) False, of W s] by simp
  then show ?thesis
    using False f life_same_over [OF y life_over_cancel_local [OF q]] by (simp add: send_fetch_def)
qed

lemma do_transfer_send_life:
  assumes q: "quiet W" and x: "\<not> xf_freed x" "can_move x" "xf_status x = XFER_STATUS_STARTED"
    and safe: "1 < xf_ref x \<or> (\<forall>b. xfer_output W b x \<noteq> -1)"
  shows "early_or_end x (do_transfer_send W x)"
proof -
  have rem: "life_same x (input_remove_watcher W x)" using q by (simp add: life_same_def)
  have wr: "early_or_end x (send_write W got y)" if "life_same x y" for got y
    using early_or_end_same [OF that send_write_life [OF q, of y got]] that x safe xfer_output_cong [of y x W]
    by (simp add: life_same_def)
  show ?thesis
  proof (cases "send_wanted x (min (xf_bytes_remaining x) (xf_current_buffer_size x))")
    case None
    then show ?thesis using rem wr [of x "[]"]
      by (simp add: do_transfer_send_def Let_def) (simp add: early_or_end_def)
  next
    case (Some s')
    then show ?thesis using rem wr send_fetch_life [OF q x(1,2), of s']
      by (auto simp: do_transfer_send_def Let_def split: prod.splits option.splits)
        (simp_all add: early_or_end_def)
  qed
qed

lemma do_transfer_life:
  assumes q: "quiet W" and x: "\<not> xf_freed x" "can_move x" "xf_status x = XFER_STATUS_STARTED"
    and safe: "write_safe W x"
  shows "life_same x (do_transfer W x) \<or> life_over x (do_transfer W x)"
proof -
  define p where "p = (case xf_type x of
              XFER_RECEIVE \<Rightarrow> do_transfer_receive W x
            | XFER_SEND \<Rightarrow> do_transfer_send W x
            | XFER_UNKNOWN \<Rightarrow> (Some (0, None), x))"
  have "early_or_end x p"
    using do_transfer_receive_life [OF q x(1,2)] do_transfer_send_life [OF q x] safe
    by (simp add: p_def early_or_end_def write_safe_def split: xfer_type.split)
  moreover have "do_transfer W x = (case p of (None, y) \<Rightarrow> y
      | (Some (r, b), y) \<Rightarrow> do_transfer_end W r b y)"
    using x(1) by (simp add: do_transfer_def xfer_deref_live p_def)
  ultimately show ?thesis
    using do_transfer_end_life [OF q _ x(1,3)]
    by (auto simp: early_or_end_def split: option.splits prod.splits)
qed

subsection \<open>Steps and the invariant\<close>

datatype ft_op =
    Request | Choose_ok string | Choose_cancel | Recv_accept | Recv_cancel | Accept_ok | Accept_cancel
  | Error_closed | Start int "(string \<times> nat) option" | Connected int | Callback | Ui_ready | Prpl_ready
  | Write_file bytes | Read_file size_t | Finish | Cancel_local | Cancel_remote
  | Set_size size_t | Set_filename cstring | Set_bytes_sent size_t

definition dialog_closed :: "dialog \<Rightarrow> xfer \<Rightarrow> xfer" where
  "dialog_closed d x = x\<lparr>xf_dialogs := remove1 d (xf_dialogs x)\<rparr>"

fun ft_exec :: "world \<Rightarrow> ft_op \<Rightarrow> xfer \<Rightarrow> xfer" where
  "ft_exec W Request x = purple_xfer_request W x"
| "ft_exec W (Choose_ok f) x = purple_xfer_choose_file_ok_cb W f (dialog_closed Choose_file x)"
| "ft_exec W Choose_cancel x = purple_xfer_choose_file_cancel_cb W (dialog_closed Choose_file x)"
| "ft_exec W Recv_accept x = purple_xfer_choose_file W (dialog_closed Accept_recv x)"
| "ft_exec W Recv_cancel x = cancel_recv_cb W (dialog_closed Accept_recv x)"
| "ft_exec W Accept_ok x = ask_accept_ok W (dialog_closed Ask_accept x)"
| "ft_exec W Accept_cancel x = ask_accept_cancel W (dialog_closed Ask_accept x)"
| "ft_exec W Error_closed x = purple_xfer_choose_file W (dialog_closed Not_usable x)"
| "ft_exec W (Start fd addr) x = purple_xfer_start W fd addr x"
| "ft_exec W (Connected fd) x = connect_cb W fd x"
| "ft_exec W Callback x = transfer_cb W x"
| "ft_exec W Ui_ready x = purple_xfer_ui_ready W x"
| "ft_exec W Prpl_ready x = purple_xfer_prpl_ready W x"
| "ft_exec W (Write_file b) x = snd (purple_xfer_write_file W b x)"
| "ft_exec W (Read_file s) x = snd (snd (purple_xfer_read_file W s x))"
| "ft_exec W Finish x = purple_xfer_end W (purple_xfer_set_completed W True x)"
| "ft_exec W Cancel_local x = purple_xfer_cancel_local W x"
| "ft_exec W Cancel_remote x = purple_xfer_cancel_remote W x"
| "ft_exec W (Set_size n) x = purple_xfer_set_size n x"
| "ft_exec W (Set_filename f) x = purple_xfer_set_filename f x"
| "ft_exec W (Set_bytes_sent n) x = purple_xfer_set_bytes_sent n x"

definition xfer_running :: "xfer \<Rightarrow> bool" where
  "xfer_running x \<longleftrightarrow> \<not> xf_freed x \<and> xf_status x = XFER_STATUS_STARTED"

definition xfer_waiting :: "xfer \<Rightarrow> bool" where
  "xfer_waiting x \<longleftrightarrow> \<not> xf_freed x \<and> xf_status x \<noteq> XFER_STATUS_STARTED \<and> \<not> xfer_over x"

fun ft_enabled :: "ft_op \<Rightarrow> xfer \<Rightarrow> bool" where
  "ft_enabled Request x = (xfer_waiting x \<and> xf_dialogs x = [])"
| "ft_enabled (Choose_ok f) x = (Choose_file \<in> set (xf_dialogs x))"
| "ft_enabled Choose_cancel x = (Choose_file \<in> set (xf_dialogs x))"
| "ft_enabled Recv_accept x = (Accept_recv \<in> set (xf_dialogs x))"
| "ft_enabled Recv_cancel x = (Accept_recv \<in> set (xf_dialogs x))"
| "ft_enabled Accept_ok x = (Ask_accept \<in> set (xf_dialogs x))"
| "ft_enabled Accept_cancel x = (Ask_accept \<in> set (xf_dialogs x))"
| "ft_enabled Error_closed x = (Not_usable \<in> set (xf_dialogs x))"
| "ft_enabled (Start fd addr) x = (xfer_waiting x \<and> xf_dialogs x = [])"
| "ft_enabled (Connected fd) x = xf_connecting x"
| "ft_enabled Callback x = (xf_watcher x \<noteq> 0)"
| "ft_enabled Ui_ready x = (xfer_running x \<and> \<not> xf_connecting x \<and> ui_moves_data x)"
| "ft_enabled Prpl_ready x = (xfer_running x \<and> \<not> xf_connecting x)"
| "ft_enabled (Write_file b) x = (xfer_running x \<and> \<not> xf_connecting x)"
| "ft_enabled (Read_file s) x = (xfer_running x \<and> \<not> xf_connecting x)"
| "ft_enabled Finish x = (xfer_running x \<and> \<not> xf_connecting x)"
| "ft_enabled Cancel_local x =
     (\<not> xf_freed x \<and> \<not> xfer_over x \<and> \<not> xf_connecting x \<and> Not_usable \<notin> set (xf_dialogs x))"
| "ft_enabled Cancel_remote x =
     (\<not> xf_freed x \<and> \<not> xfer_over x \<and> \<not> xf_connecting x \<and> Not_usable \<notin> set (xf_dialogs x))"
| "ft_enabled (Set_size n) x = (\<not> xf_freed x)"
| "ft_enabled (Set_filename f) x = (\<not> xf_freed x)"
| "ft_enabled (Set_bytes_sent n) x = (\<not> xf_freed x)"

definition moves_data :: "ft_op \<Rightarrow> bool" where
  "moves_data op \<longleftrightarrow> op \<in> {Callback, Ui_ready, Prpl_ready}"

inductive ft_step :: "xfer \<Rightarrow> xfer \<Rightarrow> bool" where
  step: "quiet W \<Longrightarrow> ft_enabled op x \<Longrightarrow> (moves_data op \<Longrightarrow> write_safe W x) \<Longrightarrow> ft_step x (ft_exec W op x)"

inductive_cases ft_stepE: "ft_step x y"

text \<open>Transfers as a protocol creates them, with its callbacks set, and what becomes of them.\<close>

definition xfer_fresh :: "xfer \<Rightarrow> bool" where
  "xfer_fresh x \<longleftrightarrow> xf_ref x = 1 \<and> xf_type x \<noteq> XFER_UNKNOWN \<and> \<not> xf_freed x \<and> \<not> xf_bad x \<and>
     xf_status x \<in> {XFER_STATUS_UNKNOWN, XFER_STATUS_NOT_STARTED} \<and> xf_dialogs x = [] \<and>
     \<not> xf_connecting x \<and> xf_watcher x = 0 \<and> xf_dest_fp x = None \<and> \<not> xf_ready_ui x \<and>
     op_init (xf_ops x) \<noteq> None \<and> has_ui ui_read x = has_ui ui_write x"

inductive ft_reachable :: "xfer \<Rightarrow> bool" where
  fresh: "xfer_fresh x \<Longrightarrow> ft_reachable x"
| more: "ft_reachable x \<Longrightarrow> ft_step x y \<Longrightarrow> ft_reachable y"

definition life_inv :: "xfer \<Rightarrow> bool" where
  "life_inv x \<longleftrightarrow>
     \<not> xf_bad x \<and> (xf_freed x \<longleftrightarrow> xf_ref x = 0) \<and>
     (xf_freed x \<longrightarrow> xf_dialogs x = [] \<and> \<not> xf_connecting x \<and> xf_watcher x = 0) \<and>
     length (xf_dialogs x) \<le> 1 \<and>
     (\<not> xf_freed x \<and> \<not> xfer_over x \<longrightarrow> 1 + length (xf_dialogs x) \<le> xf_ref x) \<and>
     (xf_status x = XFER_STATUS_STARTED \<or> xfer_over x \<longrightarrow> xf_dialogs x = []) \<and>
     (xf_connecting x \<longrightarrow> xf_status x = XFER_STATUS_STARTED \<and> xf_watcher x = 0) \<and>
     (xf_watcher x \<noteq> 0 \<longrightarrow> xf_status x = XFER_STATUS_STARTED \<and> (ui_moves_data x \<or> xf_dest_fp x \<noteq> None)) \<and>
     (xf_ready_ui x \<longrightarrow> ui_moves_data x) \<and>
     op_init (xf_ops x) \<noteq> None \<and> has_ui ui_read x = has_ui ui_write x"

lemma life_inv_fresh: "xfer_fresh x \<Longrightarrow> life_inv x"
  by (auto simp: xfer_fresh_def life_inv_def xfer_over_def purple_xfer_is_completed_def
      purple_xfer_is_canceled_def)

lemmas over_defs = xfer_over_def purple_xfer_is_completed_def purple_xfer_is_canceled_def

lemma life_invD:
  assumes "life_inv x" "\<not> xf_freed x"
  shows "\<not> xf_bad x" "0 < xf_ref x" "xfer_deref x = x" "length (xf_dialogs x) \<le> 1"
    "op_init (xf_ops x) \<noteq> None"
  using assms by (auto simp: life_inv_def xfer_deref_live)

text \<open>The invariant reads these fields only.\<close>

lemma life_inv_cong:
  assumes "life_inv x" "xf_ref y = xf_ref x" "xf_status y = xf_status x" "xf_freed y = xf_freed x"
    "xf_bad y = xf_bad x" "xf_dialogs y = xf_dialogs x" "xf_connecting y = xf_connecting x"
    "xf_ui_ops y = xf_ui_ops x" "xf_ops y = xf_ops x" "xf_ready_ui y \<longrightarrow> ui_moves_data x"
    "xf_watcher y = 0 \<or> xf_watcher y = xf_watcher x \<and> (xf_dest_fp y = None \<longrightarrow> xf_dest_fp x = None)"
  shows "life_inv y"
proof -
  have "ui_moves_data y = ui_moves_data x" "has_ui f y = has_ui f x" "xfer_over y = xfer_over x" for f
    using assms(3,8) by (simp_all add: ui_moves_data_def has_ui_def over_defs)
  note e = this assms(2-9)
  have r: "xf_ready_ui y \<longrightarrow> ui_moves_data x" by (rule assms(10))
  from assms(11) show ?thesis
  proof
    assume "xf_watcher y = 0"
    then show ?thesis using assms(1) r unfolding life_inv_def e by (elim conjE, intro conjI) simp_all
  next
    assume "xf_watcher y = xf_watcher x \<and> (xf_dest_fp y = None \<longrightarrow> xf_dest_fp x = None)"
    then show ?thesis using assms(1) r unfolding life_inv_def e by (elim conjE, intro conjI) auto
  qed
qed

lemma life_inv_same: "life_inv x \<Longrightarrow> life_same x y \<Longrightarrow> life_inv y"
  by (rule life_inv_cong) (auto simp: life_same_def life_inv_def)

text \<open>The end of a transfer that has nothing pending.\<close>

lemma life_inv_ended:
  assumes "life_inv x" "xf_ref y = xf_ref x - k" "xf_freed y \<longleftrightarrow> xf_ref y = 0" "xf_bad y = xf_bad x"
    "xf_dialogs y = []" "\<not> xf_connecting y" "xf_ui_ops y = xf_ui_ops x" "xf_ops y = xf_ops x"
    "xf_ready_ui y = xf_ready_ui x" "xf_watcher y = 0"
  shows "life_inv y"
proof -
  have "ui_moves_data y = ui_moves_data x" "has_ui f y = has_ui f x" for f
    using assms(7) by (simp_all add: ui_moves_data_def has_ui_def)
  note e = this assms(4,5,7-10)
  show ?thesis using assms(1,3,6) unfolding life_inv_def e by (elim conjE, intro conjI) simp_all
qed

lemma life_inv_over:
  assumes "life_inv x" "life_over x y" "\<not> xf_freed x" "xf_dialogs x = []" "\<not> xf_connecting x"
  shows "life_inv y"
  using assms(2-) by (intro life_inv_ended [OF assms(1), of y 1]) (auto simp: life_over_def life_inv_def
      dest: life_invD(2) [OF assms(1)])

lemma life_inv_moved:
  assumes "life_inv x" "life_same x y \<or> life_over x y" "\<not> xf_freed x" "xf_dialogs x = []"
    "\<not> xf_connecting x"
  shows "life_inv y"
  using assms life_inv_same life_inv_over by blast

lemma running_facts:
  assumes "life_inv x" "xfer_running x"
  shows "\<not> xf_freed x" "xf_status x = XFER_STATUS_STARTED" "xf_dialogs x = []"
  using assms by (auto simp: life_inv_def xfer_running_def)

lemma life_inv_do_transfer:
  assumes "quiet W" "life_inv x" "xfer_running x" "\<not> xf_connecting x" "can_move x" "write_safe W x"
  shows "life_inv (do_transfer W x)"
  using life_inv_moved [OF assms(2) do_transfer_life] running_facts [OF assms(2,3)] assms by blast

lemma write_safe_cong:
  "xf_type y = xf_type x \<Longrightarrow> xf_ref y = xf_ref x \<Longrightarrow> xf_ops y = xf_ops x \<Longrightarrow> write_safe W y = write_safe W x"
  using xfer_output_cong [of y x W] by (simp add: write_safe_def)

lemma write_safe_ready_bits [simp]: "write_safe W (x\<lparr>xf_ready_ui := u, xf_ready_prpl := p\<rparr>) = write_safe W x"
  by (rule write_safe_cong) simp_all

lemma life_inv_ready_bits:
  assumes "life_inv x" "u \<longrightarrow> ui_moves_data x"
  shows "life_inv (x\<lparr>xf_ready_ui := u, xf_ready_prpl := p\<rparr>)"
  by (rule life_inv_cong [OF assms(1)]) (use assms(2) in simp_all)

lemma life_inv_callback:
  assumes q: "quiet W" and i: "life_inv x" and w: "xf_watcher x \<noteq> 0" and safe: "write_safe W x"
  shows "life_inv (transfer_cb W x)"
proof -
  have x: "xfer_running x" "\<not> xf_freed x" using i w by (auto simp: life_inv_def xfer_running_def)
  note r = running_facts [OF i x(1)]
  show ?thesis
  proof (cases "xf_dest_fp x = None \<and> \<not> xf_ready_ui x")
    case True
    then show ?thesis using q x(2)
      by (intro life_inv_cong [OF i]) (simp_all add: transfer_cb_def xfer_deref_live)
  next
    case False
    let ?y = "x\<lparr>xf_ready_ui := False, xf_ready_prpl := False\<rparr>"
    have c: "\<not> xf_connecting x" using i w by (auto simp: life_inv_def)
    have m: "can_move x" using i False by (auto simp: life_inv_def can_move_def)
    have "life_inv (do_transfer W x)" by (rule life_inv_do_transfer [OF q i x(1) c m safe])
    moreover have "life_inv (do_transfer W ?y)"
      using x c m safe by (intro life_inv_do_transfer [OF q life_inv_ready_bits [OF i]])
        (auto simp: xfer_running_def can_move_def ui_moves_data_def has_ui_def)
    ultimately show ?thesis using False x(2) by (auto simp: transfer_cb_def xfer_deref_live Let_def)
  qed
qed

lemma life_inv_input_add:
  assumes q: "quiet W" and i: "life_inv x"
    and x: "xfer_running x" "\<not> xf_connecting x" "ui_moves_data x \<or> xf_dest_fp x \<noteq> None"
  shows "life_inv (input_add W c x)"
proof -
  let ?y = "input_add W c x"
  have "xfer_over ?y = xfer_over x" "ui_moves_data ?y = ui_moves_data x" "has_ui f ?y = has_ui f x" for f
    using q by (simp_all add: input_add_def over_defs ui_moves_data_def has_ui_def)
  moreover have "xf_ref ?y = xf_ref x" "xf_status ?y = xf_status x" "xf_freed ?y = xf_freed x"
    "xf_bad ?y = xf_bad x" "xf_dialogs ?y = xf_dialogs x" "xf_connecting ?y = xf_connecting x"
    "xf_ops ?y = xf_ops x" "xf_ready_ui ?y = xf_ready_ui x" "xf_dest_fp ?y = xf_dest_fp x"
    using q by (simp_all add: input_add_def)
  ultimately show ?thesis using i x running_facts [OF i x(1)] unfolding life_inv_def by simp
qed

lemma life_inv_ui_ready:
  assumes q: "quiet W" and i: "life_inv x"
    and x: "xfer_running x" "\<not> xf_connecting x" "ui_moves_data x" and safe: "write_safe W x"
  shows "life_inv (purple_xfer_ui_ready W x)"
proof -
  let ?x = "x\<lparr>xf_ready_ui := True\<rparr>"
  note r = running_facts [OF i x(1)]
  define y where "y = (if xf_watcher ?x = 0 \<and> xf_fd ?x \<noteq> -1
    then input_add W (if xf_type ?x = XFER_SEND then INPUT_WRITE else INPUT_READ) ?x else ?x)"
  have i': "life_inv ?x" using life_inv_ready_bits [OF i, of True "xf_ready_prpl x"] x(3) by simp
  have "life_inv y"
    using life_inv_input_add [OF q i'] i' x
    by (auto simp: y_def xfer_running_def ui_moves_data_def has_ui_def)
  moreover have "xfer_running y" "\<not> xf_connecting y" "can_move y" "ui_moves_data y"
    using x q i by (auto simp: y_def input_add_def xfer_running_def can_move_def ui_moves_data_def
        has_ui_def life_inv_def)
  moreover have "write_safe W y"
    using safe q write_safe_cong [of y x W] by (simp add: y_def input_add_def)
  ultimately have "life_inv (do_transfer W (y\<lparr>xf_ready_ui := False, xf_ready_prpl := False\<rparr>))"
    by (intro life_inv_do_transfer [OF q life_inv_ready_bits])
      (simp_all add: xfer_running_def can_move_def ui_moves_data_def has_ui_def)
  moreover have "purple_xfer_ui_ready W x = (if \<not> xf_ready_prpl ?x then ?x
      else do_transfer W (y\<lparr>xf_ready_ui := False, xf_ready_prpl := False\<rparr>))"
    unfolding purple_xfer_ui_ready_def xfer_deref_live [OF r(1)] Let_def y_def by (rule refl)
  ultimately show ?thesis using i' by simp
qed

lemma life_inv_prpl_ready:
  assumes q: "quiet W" and i: "life_inv x" and x: "xfer_running x" "\<not> xf_connecting x" and safe: "write_safe W x"
  shows "life_inv (purple_xfer_prpl_ready W x)"
proof -
  note r = running_facts [OF i x(1)]
  show ?thesis
  proof (cases "xf_dest_fp x = None \<and> \<not> xf_ready_ui x")
    case True
    then show ?thesis using r(1)
      by (intro life_inv_cong [OF i]) (simp_all add: purple_xfer_prpl_ready_def xfer_deref_live)
  next
    case False
    then have "can_move x" using i by (auto simp: life_inv_def can_move_def)
    then have "life_inv (do_transfer W (x\<lparr>xf_ready_ui := False, xf_ready_prpl := False\<rparr>))"
      using x safe by (intro life_inv_do_transfer [OF q life_inv_ready_bits [OF i]])
        (auto simp: xfer_running_def can_move_def ui_moves_data_def has_ui_def)
    then show ?thesis using False r(1) by (auto simp: purple_xfer_prpl_ready_def xfer_deref_live Let_def)
  qed
qed

lemma life_inv_begin:
  assumes q: "quiet W" and i: "life_inv x" and x: "xfer_running x" "\<not> xf_connecting x"
  shows "life_inv (begin_transfer W c x)"
proof -
  note r = running_facts [OF i x(1)]
  have go: "life_inv (call_op op_start Op_start W
      ((if xf_fd y \<noteq> -1 then input_add W c y else y)\<lparr>xf_start_time := w_time W\<rparr>))"
    if "life_inv y" "xfer_running y" "\<not> xf_connecting y" "ui_moves_data y \<or> xf_dest_fp y \<noteq> None" for y
  proof -
    have "life_inv (if xf_fd y \<noteq> -1 then input_add W c y else y)"
      using life_inv_input_add [OF q that] that(1) by simp
    then show ?thesis by (rule life_inv_same) (use q in \<open>simp add: life_same_def\<close>)
  qed
  show ?thesis
  proof (cases "xf_start_time x \<noteq> 0 \<or> ui_moves_data x")
    case True
    then show ?thesis using go [OF i x] i r(1)
      by (auto simp: begin_transfer_def xfer_deref_live)
  next
    case False
    have eq: "begin_transfer W c x = (case open_file W x of (None, y) \<Rightarrow> y
        | (Some y, _) \<Rightarrow> call_op op_start Op_start W
            ((if xf_fd y \<noteq> -1 then input_add W c y else y)\<lparr>xf_start_time := w_time W\<rparr>))"
      using False r(1) by (simp add: begin_transfer_def xfer_deref_live Let_def split: option.split prod.split)
    let ?o = "x\<lparr>xf_file := (if xf_type x = XFER_RECEIVE then [] else xf_file x),
               xf_dest_fp := Some (unat (xf_bytes_sent x))\<rparr>"
    have "life_inv ?o" by (rule life_inv_cong [OF i]) (use i in \<open>auto simp: life_inv_def\<close>)
    then have ok: "life_inv (call_op op_start Op_start W
        ((if xf_fd ?o \<noteq> -1 then input_add W c ?o else ?o)\<lparr>xf_start_time := w_time W\<rparr>))"
      by (rule go) (use x in \<open>simp_all add: xfer_running_def\<close>)
    have over: "life_inv (purple_xfer_cancel_local W (purple_xfer_show_file_error W f (x\<lparr>xf_dest_fp := d, xf_file := g\<rparr>)))" for f d g
    proof -
      have "life_over x (purple_xfer_cancel_local W
          (purple_xfer_show_file_error W f (x\<lparr>xf_dest_fp := d, xf_file := g\<rparr>)))"
        using q by (simp add: life_over_def purple_xfer_cancel_local_def purple_xfer_show_file_error_def over_defs)
      then show ?thesis by (rule life_inv_over [OF i]) (use r x in simp_all)
    qed
    show ?thesis
      using ok over [where d = "xf_dest_fp x" and g = "xf_file x"] over
      unfolding eq open_file_def Let_def
      by simp
  qed
qed

lemma life_inv_start:
  assumes q: "quiet W" and i: "life_inv x" and x: "xfer_waiting x" "xf_dialogs x = []"
  shows "life_inv (purple_xfer_start W fd addr x)"
proof -
  have f: "\<not> xf_freed x" "\<not> xf_connecting x" "xf_watcher x = 0" "\<not> xf_bad x"
    using i x by (auto simp: xfer_waiting_def life_inv_def)
  have started: "life_inv y" "xfer_running y"
    if "xf_ref y = xf_ref x" "xf_status y = XFER_STATUS_STARTED" "\<not> xf_freed y" "\<not> xf_bad y"
      "xf_dialogs y = []" "xf_ui_ops y = xf_ui_ops x" "xf_ops y = xf_ops x"
      "xf_ready_ui y = xf_ready_ui x" "xf_watcher y = 0" for y
  proof -
    have "ui_moves_data y = ui_moves_data x" "has_ui g y = has_ui g x" "\<not> xfer_over y" for g
      using that(2,6) by (simp_all add: ui_moves_data_def has_ui_def over_defs)
    then show "life_inv y" "xfer_running y"
      using that i x(1) f(1) unfolding life_inv_def xfer_waiting_def xfer_running_def by simp_all
  qed
  show ?thesis
    using q f x(2) i
    by (auto simp: purple_xfer_start_def xfer_deref_live Let_def split: option.split
        intro!: started life_inv_begin)
qed

lemma life_inv_connected:
  assumes q: "quiet W" and i: "life_inv x" and x: "xf_connecting x"
  shows "life_inv (connect_cb W fd x)"
proof -
  have r: "xfer_running x" "\<not> xf_freed x" "xf_watcher x = 0" using i x by (auto simp: life_inv_def xfer_running_def)
  have y: "life_inv (x\<lparr>xf_connecting := False, xf_fd := g\<rparr>)" for g
    using i x r unfolding life_inv_def xfer_running_def
    by (auto simp: over_defs ui_moves_data_def has_ui_def)
  have "life_inv (purple_xfer_cancel_local W (x\<lparr>xf_connecting := False, xf_fd := xf_fd x\<rparr>))"
    by (rule life_inv_over [OF y [of "xf_fd x"] life_over_cancel_local [OF q]])
      (use r running_facts [OF i r(1)] in simp_all)
  moreover have "life_inv (begin_transfer W INPUT_READ (x\<lparr>xf_connecting := False, xf_fd := fd\<rparr>))"
    by (rule life_inv_begin [OF q y]) (use r in \<open>simp_all add: xfer_running_def\<close>)
  ultimately show ?thesis using r(2) by (simp add: connect_cb_def xfer_deref_live Let_def)
qed

lemma life_same_bytes_sent: "\<not> xf_freed x \<Longrightarrow> life_same x (purple_xfer_set_bytes_sent n x)"
  by (simp add: life_same_def purple_xfer_set_bytes_sent_def xfer_deref_live)

lemma same_then [simp]:
  assumes "quiet W" "\<not> xf_freed x" "life_same x y"
  shows "life_over x (purple_xfer_cancel_local W y)" "life_same x (purple_xfer_set_bytes_sent n y)"
proof -
  show "life_over x (purple_xfer_cancel_local W y)"
    by (rule life_same_over [OF assms(3) life_over_cancel_local [OF assms(1)]])
  have "\<not> xf_freed y" using assms(2,3) by (simp add: life_same_def)
  from life_same_trans [OF assms(3) life_same_bytes_sent [OF this]]
  show "life_same x (purple_xfer_set_bytes_sent n y)" .
qed

lemma purple_xfer_write_file_life:
  assumes q: "quiet W" and x: "\<not> xf_freed x" "has_ui ui_read x = has_ui ui_write x"
  shows "life_same x (snd (purple_xfer_write_file W b x)) \<or> life_over x (snd (purple_xfer_write_file W b x))"
proof (cases "has_ui ui_write x \<or> xf_dest_fp x = None")
  case True
  then show ?thesis using q x(1) by (auto simp: purple_xfer_write_file_def xfer_deref_live Let_def)
next
  case False
  then have "can_move x" using x(2) by (auto simp: can_move_def)
  then have "life_same x (snd (xfer_fwrite W c x))" for c using xfer_fwrite_same False by blast
  then show ?thesis using False q x(1)
    by (simp add: purple_xfer_write_file_def xfer_deref_live Let_def split_beta)
qed

lemma purple_xfer_read_file_life:
  assumes q: "quiet W" and x: "\<not> xf_freed x" "has_ui ui_read x = has_ui ui_write x"
  shows "life_same x (snd (snd (purple_xfer_read_file W s x))) \<or>
    life_over x (snd (snd (purple_xfer_read_file W s x)))"
proof (cases "has_ui ui_read x \<or> xf_dest_fp x = None")
  case True
  then show ?thesis using q x(1)
    by (auto simp: purple_xfer_read_file_def xfer_deref_live Let_def split_beta)
next
  case False
  then have "can_move x" using x(2) by (auto simp: can_move_def)
  then have "life_same x (snd (snd (xfer_fread W s x)))" using xfer_fread_same False by blast
  then show ?thesis using False q x(1)
    by (simp add: purple_xfer_read_file_def xfer_deref_live Let_def split_beta)
qed

lemma finish_life:
  assumes q: "quiet W" and x: "\<not> xf_freed x"
  shows "life_over x (purple_xfer_end W (purple_xfer_set_completed W True x))"
proof -
  let ?y = "purple_xfer_set_completed W True x"
  have "life_over ?y (purple_xfer_end W ?y)" by (rule life_over_end) (use q x in simp_all)
  then show ?thesis using q x by (simp add: life_over_def)
qed

text \<open>A cancellation with a question or the file chooser still open.\<close>

lemma life_inv_cancel:
  assumes q: "quiet W" and i: "life_inv x"
    and x: "\<not> xf_freed x" "\<not> xfer_over x" "\<not> xf_connecting x" "Not_usable \<notin> set (xf_dialogs x)"
  shows "life_inv (purple_xfer_cancel_local W x)" "life_inv (purple_xfer_cancel_remote W x)"
proof -
  have "filter (\<lambda>d. d = Not_usable) (xf_dialogs x) = []" using x(4) by (auto simp: filter_empty_conv)
  moreover have "xf_ref x - 1 = 0 \<longleftrightarrow> xf_ref x = 1" using life_invD(2) [OF i x(1)] by linarith
  ultimately show "life_inv (purple_xfer_cancel_local W x)" "life_inv (purple_xfer_cancel_remote W x)"
    using x q by - (rule life_inv_ended [OF i, where k = 1];
        simp add: purple_xfer_cancel_local_def purple_xfer_cancel_remote_def)+
qed

subsection \<open>Dialogs\<close>

text \<open>The state in which the answer to a dialog runs: the dialog is gone, its reference is there.\<close>

definition answered :: "xfer \<Rightarrow> bool" where
  "answered x \<longleftrightarrow> xf_dialogs x = [] \<and> 2 \<le> xf_ref x \<and> \<not> xf_freed x \<and> \<not> xf_bad x \<and>
     \<not> xf_connecting x \<and> xf_watcher x = 0 \<and> xfer_waiting x \<and> (xf_ready_ui x \<longrightarrow> ui_moves_data x) \<and>
     op_init (xf_ops x) \<noteq> None \<and> has_ui ui_read x = has_ui ui_write x"

lemma answeredI:
  assumes "life_inv x" "d \<in> set (xf_dialogs x)"
  shows "answered (dialog_closed d x)"
proof -
  have "length (xf_dialogs x) \<le> 1" using assms(1) by (simp add: life_inv_def)
  with assms(2) have d: "xf_dialogs x = [d]" by (cases "xf_dialogs x") auto
  then show ?thesis using assms(1)
    unfolding answered_def dialog_closed_def life_inv_def xfer_waiting_def over_defs
      ui_moves_data_def has_ui_def by auto
qed

lemma answered_inv: "answered x \<Longrightarrow> life_inv x"
  by (auto simp: answered_def life_inv_def xfer_waiting_def)

lemma answeredD:
  assumes "answered x"
  shows "xf_dialogs x = []" "2 \<le> xf_ref x" "\<not> xf_freed x" "\<not> xf_bad x" "\<not> xf_connecting x"
    "xf_watcher x = 0" "xf_status x \<noteq> XFER_STATUS_STARTED" "\<not> xfer_over x" "xfer_deref x = x"
    "xf_ref x \<noteq> 1" "xf_ref x \<noteq> 0" "\<exists>p. op_init (xf_ops x) = Some p"
  using assms by (auto simp: answered_def xfer_waiting_def xfer_deref_live)

text \<open>The answer gave up \<open>k\<close> references and left no dialog, or it kept them and opened one.\<close>

definition gave_up :: "nat \<Rightarrow> xfer \<Rightarrow> xfer \<Rightarrow> bool" where
  "gave_up k x y \<longleftrightarrow> xf_ref y = xf_ref x - k \<and> (xf_freed y \<longleftrightarrow> xf_ref y = 0) \<and> xf_bad y = xf_bad x \<and>
     xf_dialogs y = [] \<and> \<not> xf_connecting y \<and> xf_ui_ops y = xf_ui_ops x \<and> xf_ops y = xf_ops x \<and>
     xf_ready_ui y = xf_ready_ui x \<and> xf_watcher y = 0"

lemma gave_up_inv: "answered x \<Longrightarrow> gave_up k x y \<Longrightarrow> life_inv y"
  by (rule life_inv_ended [OF answered_inv, where k = k]) (simp_all add: gave_up_def)

lemma gave_up_unref:
  assumes "quiet W" "answered x" "gave_up k x y" "k < 2" "xf_status y \<noteq> XFER_STATUS_STARTED"
  shows "gave_up (Suc k) x (purple_xfer_unref W y)"
proof -
  have "Suc k \<le> xf_ref x" using answeredD(2) [OF assms(2)] assms(4) by simp
  moreover have "\<not> xf_freed y" using assms(3) \<open>Suc k \<le> xf_ref x\<close> by (auto simp: gave_up_def)
  ultimately show ?thesis using assms by (auto simp: gave_up_def)
qed

definition asked_again :: "xfer \<Rightarrow> xfer \<Rightarrow> bool" where
  "asked_again x y \<longleftrightarrow> xf_ref y = xf_ref x \<and> xf_status y = xf_status x \<and> xf_freed y = xf_freed x \<and>
     xf_bad y = xf_bad x \<and> (\<exists>d. xf_dialogs y = [d]) \<and> xf_connecting y = xf_connecting x \<and>
     xf_ui_ops y = xf_ui_ops x \<and> xf_ops y = xf_ops x \<and> xf_ready_ui y = xf_ready_ui x \<and> xf_watcher y = 0"

lemma asked_again_inv:
  assumes "answered x" "asked_again x y"
  shows "life_inv y"
proof -
  have e: "ui_moves_data y = ui_moves_data x" "has_ui f y = has_ui f x" "xfer_over y = xfer_over x" for f
    using assms(2) by (simp_all add: asked_again_def ui_moves_data_def has_ui_def over_defs)
  show ?thesis using assms answeredD [OF assms(1)] answered_inv [OF assms(1)]
    unfolding life_inv_def e asked_again_def by (elim conjE exE, intro conjI) simp_all
qed

lemma choose_file_asks: "quiet W \<Longrightarrow> answered x \<Longrightarrow> asked_again x (purple_xfer_choose_file W x)"
  using answeredD [of x] by (simp add: asked_again_def purple_xfer_choose_file_def open_dialog_def)

lemma refuse_file_asks:
  assumes "quiet W" "answered x"
  shows "asked_again x (purple_xfer_unref W (refuse_file W x))"
  using assms answeredD [OF assms(2)]
  by (simp add: asked_again_def refuse_file_def open_dialog_def purple_xfer_ref_def)

lemma call_init_simps [simp]:
  assumes "quiet W"
  shows "xf_ref (call_init W x) = xf_ref x" "xf_status (call_init W x) = xf_status x"
    "xf_freed (call_init W x) = xf_freed x" "xf_dialogs (call_init W x) = xf_dialogs x"
    "xf_connecting (call_init W x) = xf_connecting x" "xf_ui_ops (call_init W x) = xf_ui_ops x"
    "xf_ops (call_init W x) = xf_ops x" "xf_ready_ui (call_init W x) = xf_ready_ui x"
    "xf_watcher (call_init W x) = xf_watcher x"
    "xf_bad (call_init W x) = (xf_bad x \<or> op_init (xf_ops x) = None)"
  using assms by (auto simp: call_init_def call_op_def)

lemma ui_moves_data_bad [simp]: "ui_moves_data (x\<lparr>xf_bad := b\<rparr>) = ui_moves_data x"
  by (simp add: ui_moves_data_def has_ui_def)

lemma gave_up_0:
  assumes "answered x" "xf_ref y = xf_ref x" "\<not> xf_freed y" "\<not> xf_bad y" "xf_dialogs y = []"
    "\<not> xf_connecting y" "xf_ui_ops y = xf_ui_ops x" "xf_ops y = xf_ops x"
    "xf_ready_ui y = xf_ready_ui x" "xf_watcher y = 0"
  shows "gave_up 0 x y"
  using assms(2-) answeredD [OF assms(1)] by (simp add: gave_up_def)

lemma request_accepted_gives_up:
  assumes q: "quiet W" and x: "answered x"
  shows "\<exists>k < 2. gave_up k x (purple_xfer_request_accepted W f x) \<and>
    xf_status (purple_xfer_request_accepted W f x) \<noteq> XFER_STATUS_STARTED"
proof -
  note X = answeredD [OF x]
  note defs = purple_xfer_set_local_filename_def purple_xfer_set_size_def purple_xfer_set_filename_def
    purple_xfer_add_def xfer_deref_def purple_xfer_show_file_error_def Let_def
  let ?y = "purple_xfer_request_accepted W f x"
  have id: "gave_up 0 x x" by (rule gave_up_0) (use x X in simp_all)
  have dropped: "gave_up (Suc 0) x (purple_xfer_unref W y)" if "life_same x y" for y
  proof -
    have "gave_up 0 x y" using that X id by (auto simp: gave_up_def life_same_def)
    from gave_up_unref [OF q x this] show ?thesis using that X(7) by (simp add: life_same_def)
  qed
  show ?thesis
  proof (cases f)
    case None
    show ?thesis
      by (rule exI [of _ 0])
        (use None X q in \<open>auto simp: purple_xfer_request_accepted_def intro!: gave_up_0 [OF x]\<close>)
  next
    case (Some g)
    show ?thesis
    proof (cases "xf_type x = XFER_SEND \<and> (has_substring ''../'' g \<or> \<not> ui_moves_data x \<and> w_stat W g = None)")
      case True
      then show ?thesis
        using Some X q
        by (intro exI [of _ 1]) (auto simp: purple_xfer_request_accepted_def
            purple_xfer_show_file_error_def life_same_def intro!: dropped)
    next
      case False
      then show ?thesis
        using Some X q
        by (intro exI [of _ 0]) (auto simp: purple_xfer_request_accepted_def defs split: option.split
            intro!: gave_up_0 [OF x])
    qed
  qed
qed

lemma request_denied_gives_up:
  assumes q: "quiet W" and x: "answered x"
  shows "gave_up 1 x (purple_xfer_request_denied W x)"
    "xf_status (purple_xfer_request_denied W x) = xf_status x"
  using gave_up_unref [OF q x gave_up_0 [OF x], of "call_op op_request_denied Op_request_denied W x"]
    q answeredD [OF x] by (simp_all add: purple_xfer_request_denied_def)

lemma cancel_local_gives_up:
  assumes q: "quiet W" and x: "answered x"
  shows "gave_up 1 x (purple_xfer_cancel_local W x)"
    "xf_status (purple_xfer_cancel_local W x) = XFER_STATUS_CANCEL_LOCAL"
  using gave_up_unref [OF q x gave_up_0 [OF x], of "cancel_local_body W x"]
    q answeredD [OF x] by (simp_all add: purple_xfer_cancel_local_def)

lemma answered_cong:
  assumes "answered x" "xf_ref y = xf_ref x" "xf_freed y = xf_freed x" "xf_bad y = xf_bad x"
    "xf_dialogs y = xf_dialogs x" "xf_connecting y = xf_connecting x" "xf_ui_ops y = xf_ui_ops x"
    "xf_ops y = xf_ops x" "xf_ready_ui y = xf_ready_ui x" "xf_watcher y = xf_watcher x"
    "xf_status y = xf_status x"
  shows "answered y"
proof -
  have "ui_moves_data y = ui_moves_data x" "has_ui f y = has_ui f x" "xfer_waiting y = xfer_waiting x" for f
    using assms by (simp_all add: ui_moves_data_def has_ui_def over_defs xfer_waiting_def)
  then show ?thesis using assms unfolding answered_def by simp
qed

lemma answered_call: "quiet W \<Longrightarrow> answered x \<Longrightarrow> answered (xfer_call W c x)"
  by (rule answered_cong) simp_all

lemma gave_up_call: "quiet W \<Longrightarrow> gave_up k (xfer_call W c x) y = gave_up k x y"
  by (simp add: gave_up_def)

lemma choose_ok_gives_up:
  assumes q: "quiet W" and x: "answered x"
  shows "(\<exists>k. gave_up k x (purple_xfer_choose_file_ok_cb W f x)) \<or>
    asked_again x (purple_xfer_choose_file_ok_cb W f x)"
proof -
  have drop: "\<exists>k. gave_up k x (purple_xfer_unref W y)"
    if "gave_up k x y" "k < 2" "xf_status y \<noteq> XFER_STATUS_STARTED" for k y
    using gave_up_unref [OF q x that] by blast
  have accept: "\<exists>k. gave_up k x (purple_xfer_unref W (purple_xfer_request_accepted W (Some f) x))"
    using request_accepted_gives_up [OF q x, of "Some f"] drop by blast
  have cancel: "\<exists>k. gave_up k x (purple_xfer_unref W (purple_xfer_cancel_local W (xfer_call W c x)))"
    for c
    by (rule drop [of 1]) (use cancel_local_gives_up [OF q answered_call [OF q x], of c] q
        in \<open>simp_all add: gave_up_call\<close>)
  have deny: "\<exists>k. gave_up k x (purple_xfer_unref W (purple_xfer_request_denied W (xfer_call W c x)))"
    for c
    by (rule drop [of 1]) (use request_denied_gives_up [OF q answered_call [OF q x], of c] q
        answeredD(7) [OF x] in \<open>simp_all add: gave_up_call\<close>)
  have error: "\<exists>k. gave_up k x (purple_xfer_unref W (purple_xfer_cancel_local W (purple_xfer_show_file_error W f x)))"
    by (rule drop [of 1]) (use cancel_local_gives_up [OF q answered_call [OF q answered_call [OF q x]],
        of "Xfer_error (xf_type x)" "Conv_write (File_error f) True"] q
        in \<open>simp_all add: gave_up_call purple_xfer_show_file_error_def\<close>)
  show ?thesis
    using accept cancel deny error refuse_file_asks [OF q x] answeredD(9) [OF x]
    by (simp add: purple_xfer_choose_file_ok_cb_def Let_def split: option.split prod.split)
qed

lemma cancelled_gives_up:
  assumes q: "quiet W" and x: "answered x" and y: "gave_up 1 x y" "xf_status y \<noteq> XFER_STATUS_STARTED"
  shows "life_inv (purple_xfer_unref W y)"
  by (rule gave_up_inv [OF x gave_up_unref [OF q x y(1) _ y(2)]]) simp

text \<open>A question or chooser closed with Cancel: the status is set first.\<close>

lemma set_cancelled_denied:
  assumes q: "quiet W" and x: "answered x"
  defines "y \<equiv> purple_xfer_set_status W XFER_STATUS_CANCEL_LOCAL x"
  shows "gave_up 1 x (purple_xfer_request_denied W y)" "gave_up 1 x (purple_xfer_cancel_local W y)"
    "xf_status (purple_xfer_request_denied W y) = XFER_STATUS_CANCEL_LOCAL"
    "xf_status (purple_xfer_cancel_local W y) = XFER_STATUS_CANCEL_LOCAL"
proof -
  have r: "xf_ref x \<noteq> Suc 0" "xf_ref x - Suc 0 \<noteq> 0" "0 < xf_ref x" using answeredD(2) [OF x] by auto
  show "gave_up 1 x (purple_xfer_request_denied W y)" "gave_up 1 x (purple_xfer_cancel_local W y)"
    "xf_status (purple_xfer_request_denied W y) = XFER_STATUS_CANCEL_LOCAL"
    "xf_status (purple_xfer_cancel_local W y) = XFER_STATUS_CANCEL_LOCAL"
    using q answeredD [OF x] r
    by (simp_all add: gave_up_def y_def purple_xfer_request_denied_def purple_xfer_cancel_local_def
        xfer_deref_live)
qed

lemma life_inv_answers:
  assumes q: "quiet W" and x: "answered x"
  shows "life_inv (purple_xfer_choose_file_ok_cb W f x)" "life_inv (purple_xfer_choose_file_cancel_cb W x)"
    "life_inv (purple_xfer_choose_file W x)" "life_inv (cancel_recv_cb W x)"
    "life_inv (ask_accept_ok W x)" "life_inv (ask_accept_cancel W x)"
proof -
  note c = cancelled_gives_up [OF q x]
  show "life_inv (purple_xfer_choose_file_ok_cb W f x)"
    using choose_ok_gives_up [OF q x, of f] gave_up_inv [OF x] asked_again_inv [OF x] by blast
  show "life_inv (purple_xfer_choose_file W x)"
    by (rule asked_again_inv [OF x choose_file_asks [OF q x]])
  show "life_inv (ask_accept_ok W x)"
    using request_accepted_gives_up [OF q x, of None] gave_up_inv [OF x] by (auto simp: ask_accept_ok_def)
  show "life_inv (ask_accept_cancel W x)"
    unfolding ask_accept_cancel_def
    by (rule c) (use request_denied_gives_up [OF q x] answeredD(7) [OF x] in simp_all)
  show "life_inv (cancel_recv_cb W x)" "life_inv (purple_xfer_choose_file_cancel_cb W x)"
    using set_cancelled_denied [OF q x]
    by (simp_all add: cancel_recv_cb_def purple_xfer_choose_file_cancel_cb_def Let_def c)
qed

subsection \<open>Every step keeps the invariant\<close>

lemma life_inv_ref:
  assumes "life_inv x" "\<not> xf_freed x" "xf_ref y = Suc (xf_ref x)" "xf_status y = xf_status x"
    "\<not> xf_freed y" "\<not> xf_bad y" "length (xf_dialogs y) \<le> 1" "xfer_waiting x"
    "\<not> xf_connecting y" "xf_ui_ops y = xf_ui_ops x" "xf_ops y = xf_ops x"
    "xf_ready_ui y = xf_ready_ui x" "xf_watcher y = 0" "xf_dialogs x = []"
  shows "life_inv y"
proof -
  have e: "ui_moves_data y = ui_moves_data x" "has_ui f y = has_ui f x" "xfer_over y = xfer_over x" for f
    using assms(4,10) by (simp_all add: ui_moves_data_def has_ui_def over_defs)
  show ?thesis using assms unfolding life_inv_def e xfer_waiting_def by (elim conjE, intro conjI) simp_all
qed

lemma life_inv_request:
  assumes q: "quiet W" and i: "life_inv x" and x: "xfer_waiting x" "xf_dialogs x = []"
  shows "life_inv (purple_xfer_request W x)"
proof -
  have f: "\<not> xf_freed x" "\<not> xf_connecting x" "xf_watcher x = 0" "xf_status x \<noteq> XFER_STATUS_CANCEL_LOCAL"
    "op_init (xf_ops x) \<noteq> None" "\<not> xf_bad x"
    using i x by (auto simp: life_inv_def xfer_waiting_def over_defs)
  show ?thesis
    by (rule life_inv_ref [OF i f(1) _ _ _ _ _ x(1) _ _ _ _ _ x(2)])
      (use q f x(2) in \<open>simp_all add: purple_xfer_request_def purple_xfer_ref_def xfer_deref_live Let_def
        purple_xfer_ask_recv_def purple_xfer_ask_accept_def purple_xfer_choose_file_def open_dialog_def
        split: option.split\<close>)
qed

lemma ft_exec_inv:
  assumes q: "quiet W" and i: "life_inv x" and en: "ft_enabled op x"
    and safe: "moves_data op \<Longrightarrow> write_safe W x"
  shows "life_inv (ft_exec W op x)"
proof -
  have run: "\<not> xf_freed x" "xf_dialogs x = []" "has_ui ui_read x = has_ui ui_write x" if "xfer_running x"
    using running_facts [OF i that] i by (simp_all add: life_inv_def)
  note answers = life_inv_answers [OF q answeredI [OF i]]
  note moved = life_inv_moved [OF i]
  have set: "life_inv y" if "life_same x y" for y using life_inv_same [OF i that] .
  show ?thesis
  proof (cases op)
    case (Write_file b)
    then show ?thesis using en run moved [OF purple_xfer_write_file_life [OF q]] by simp
  next
    case (Read_file s)
    then show ?thesis using en run moved [OF purple_xfer_read_file_life [OF q]] by simp
  next
    case Finish
    then show ?thesis using en run moved [OF disjI2 [OF finish_life [OF q]]] by simp
  next
    case Cancel_local
    then show ?thesis using en life_inv_cancel [OF q i] by simp
  next
    case Cancel_remote
    then show ?thesis using en life_inv_cancel [OF q i] by simp
  next
    case (Set_size n)
    then show ?thesis using en
      by (auto intro!: set simp: life_same_def purple_xfer_set_size_def xfer_deref_live)
  next
    case (Set_filename f)
    then show ?thesis using en
      by (auto intro!: set simp: life_same_def purple_xfer_set_filename_def xfer_deref_live)
  next
    case (Set_bytes_sent n)
    then show ?thesis using en by (auto intro!: set life_same_bytes_sent)
  qed (use en q i safe in \<open>simp_all add: moves_data_def answers life_inv_request life_inv_start life_inv_connected
      life_inv_callback life_inv_ui_ready life_inv_prpl_ready\<close>)
qed

lemma ft_reachable_inv: "ft_reachable x \<Longrightarrow> life_inv x"
proof (induction rule: ft_reachable.induct)
  case (fresh x)
  then show ?case by (rule life_inv_fresh)
next
  case (more x y)
  then show ?case by (blast elim: ft_stepE intro: ft_exec_inv)
qed

subsection \<open>Properties\<close>

text \<open>Transfers to try the properties on: the plain ones with an \<open>init\<close> callback.\<close>

definition demo_xfer :: "xfer_type \<Rightarrow> xfer" where
  "demo_xfer type = purple_xfer_set_init_fnc (Some 1) (plain_xfer type)"

lemma demo_fresh: "type \<noteq> XFER_UNKNOWN \<Longrightarrow> xfer_fresh (demo_xfer type)"
  by (simp add: xfer_fresh_def demo_xfer_def plain_xfer_def purple_xfer_new_def has_ui_def
      xfer_call_if_def purple_xfer_set_init_fnc_def xfer_deref_def)

lemma demo_type [simp]: "type \<noteq> XFER_UNKNOWN \<Longrightarrow> xf_type (demo_xfer type) = type"
  by (simp add: demo_xfer_def plain_xfer_def purple_xfer_new_def has_ui_def
      xfer_call_if_def purple_xfer_set_init_fnc_def xfer_deref_def)

text \<open>C11: In every sequence of requests, answers, callbacks and cancellations that keeps to the
  guards (the order of ft.h, no cancellation during a connection attempt or under the box
  ``File is not usable'', no failed write on a send with a single reference), the record is freed
  exactly when the last reference is given up, it is never used afterwards, and when it is freed no
  dialog, watcher or connection attempt still refers to it.\<close>

theorem xfer_lifetime:
  assumes "ft_reachable x"
  shows "\<not> xf_bad x \<and> (xf_freed x \<longleftrightarrow> xf_ref x = 0) \<and>
    (xf_freed x \<longrightarrow> xf_dialogs x = [] \<and> \<not> xf_connecting x \<and> xf_watcher x = 0)"
  using ft_reachable_inv [OF assms] by (simp add: life_inv_def)

text \<open>The Cancel button of the dialog that a request opens.\<close>

definition decline :: "xfer \<Rightarrow> ft_op" where
  "decline x =
     (if xf_type x = XFER_SEND then Choose_cancel
      else if xf_filename x \<noteq> None then Recv_cancel else Accept_cancel)"

lemma request_dialog:
  assumes q: "quiet V" and x: "xfer_fresh x" "xf_local_filename x = None"
  defines "y \<equiv> ft_exec V Request x"
  shows "xf_dialogs y = [if xf_type x = XFER_SEND then Choose_file
      else if xf_filename x \<noteq> None then Accept_recv else Ask_accept]"
    "xf_ref y = 2" "life_inv y" "xf_type y = xf_type x" "xf_status y = xf_status x"
proof -
  have w: "xfer_waiting x" "xf_dialogs x = []" "xf_status x \<noteq> XFER_STATUS_CANCEL_LOCAL"
    "xf_status x \<noteq> XFER_STATUS_ACCEPTED" "op_init (xf_ops x) \<noteq> None" "\<not> xf_freed x" "xf_ref x = 1"
    "xf_type x \<noteq> XFER_UNKNOWN"
    using x(1) by (auto simp: xfer_fresh_def xfer_waiting_def over_defs)
  show "life_inv y" unfolding y_def
    by (rule ft_exec_inv [OF q life_inv_fresh [OF x(1)]]) (simp_all add: w moves_data_def)
  have type: "xf_type x = XFER_SEND \<or> xf_type x = XFER_RECEIVE" using w(8) by (cases "xf_type x") auto
  show "xf_dialogs y = [if xf_type x = XFER_SEND then Choose_file
      else if xf_filename x \<noteq> None then Accept_recv else Ask_accept]"
    "xf_ref y = 2" "xf_type y = xf_type x" "xf_status y = xf_status x"
    using w type x(2) q
    by (auto simp: y_def purple_xfer_request_def purple_xfer_ref_def xfer_deref_live Let_def
        purple_xfer_ask_recv_def purple_xfer_ask_accept_def purple_xfer_choose_file_def open_dialog_def
        split: option.split)
qed

text \<open>C12: Declining leaves nothing behind: whichever dialog a request opens (the file chooser of
  a send, the question about an offered file, the question about a request without a file name),
  closing it with Cancel gives up both references and frees the transfer, once.\<close>

theorem xfer_refused_freed:
  assumes "quiet V" "quiet W" "xfer_fresh x" "xf_local_filename x = None"
  shows "let y = ft_exec V Request x; z = ft_exec W (decline x) y in
    \<not> xf_freed y \<and> ft_enabled (decline x) y \<and> xf_freed z \<and> xf_ref z = 0 \<and> \<not> xf_bad z \<and>
    (xf_status z = XFER_STATUS_CANCEL_LOCAL \<or> decline x = Accept_cancel \<and> xf_status z = xf_status x)"
proof -
  define y where "y = ft_exec V Request x"
  note y = request_dialog [OF assms(1,3,4), folded y_def]
  have f: "\<not> xf_freed y" "\<not> xf_bad y" using y(2,3) by (auto simp: life_inv_def)
  have s: "xf_status x \<noteq> XFER_STATUS_STARTED" using assms(3) by (auto simp: xfer_fresh_def)
  show ?thesis
    unfolding y_def [symmetric] Let_def
    using f y(1,2,4,5) s assms(2)
    by (simp add: decline_def dialog_closed_def purple_xfer_choose_file_cancel_cb_def cancel_recv_cb_def
        ask_accept_cancel_def purple_xfer_request_denied_def purple_xfer_cancel_local_def xfer_deref_live Let_def)
qed

theorem xfer_refused_freed_witness:
  "let y = ft_exec plain_world Request (demo_xfer XFER_SEND);
       z = ft_exec plain_world (decline (demo_xfer XFER_SEND)) y in
    \<not> xf_freed y \<and> ft_enabled (decline (demo_xfer XFER_SEND)) y \<and> xf_freed z \<and> xf_ref z = 0 \<and>
    \<not> xf_bad z \<and> (xf_status z = XFER_STATUS_CANCEL_LOCAL \<or>
      decline (demo_xfer XFER_SEND) = Accept_cancel \<and> xf_status z = xf_status (demo_xfer XFER_SEND))"
proof (rule xfer_refused_freed)
  show "xf_local_filename (demo_xfer XFER_SEND) = None"
    by (simp add: demo_xfer_def plain_xfer_def purple_xfer_new_def has_ui_def
        xfer_call_if_def purple_xfer_set_init_fnc_def xfer_deref_def)
qed (simp_all add: demo_fresh)

lemma demo_reachable:
  "ft_reachable (ft_exec plain_world (decline (demo_xfer XFER_SEND))
     (ft_exec plain_world Request (demo_xfer XFER_SEND)))"
proof -
  let ?x = "demo_xfer XFER_SEND"
  have x: "xfer_fresh ?x" by (simp add: demo_fresh)
  then have w: "xfer_waiting ?x" "xf_dialogs ?x = []"
    by (auto simp: xfer_fresh_def xfer_waiting_def over_defs)
  have l: "xf_local_filename ?x = None"
    by (simp add: demo_xfer_def plain_xfer_def purple_xfer_new_def has_ui_def
        xfer_call_if_def purple_xfer_set_init_fnc_def xfer_deref_def)
  have "ft_reachable (ft_exec plain_world Request ?x)"
    by (rule ft_reachable.more [OF ft_reachable.fresh [OF x] ft_step.step])
      (use w in \<open>simp_all add: moves_data_def\<close>)
  then show ?thesis
    by (rule ft_reachable.more [OF _ ft_step.step])
      (use request_dialog(1) [OF plain_world_ok(1) x l] in \<open>simp_all add: decline_def moves_data_def\<close>)
qed

theorem xfer_lifetime_witness:
  "let x = ft_exec plain_world (decline (demo_xfer XFER_SEND))
     (ft_exec plain_world Request (demo_xfer XFER_SEND)) in
    \<not> xf_bad x \<and> (xf_freed x \<longleftrightarrow> xf_ref x = 0) \<and>
    (xf_freed x \<longrightarrow> xf_dialogs x = [] \<and> \<not> xf_connecting x \<and> xf_watcher x = 0)"
  unfolding Let_def by (rule xfer_lifetime [OF demo_reachable])

lemma begin_transfer_bad:
  assumes "quiet W" "xf_bad x"
  shows "xf_bad (begin_transfer W c x)"
  using assms by (simp add: begin_transfer_def open_file_def input_add_def xfer_deref_def Let_def
      purple_xfer_cancel_local_def purple_xfer_show_file_error_def)

text \<open>C13: The guards that the steps put on cancellation are needed, the code has none of them.  A receipt that is cancelled while
  \<open>purple_proxy_connect\<close> is under way is freed, and the connection attempt, which the
  cancellation does not stop, then calls \<open>connect_cb\<close> with the freed record.\<close>

theorem xfer_connect_after_cancel:
  assumes "quiet U" "quiet V" "quiet W" "xfer_fresh x" "xf_type x = XFER_RECEIVE"
  shows "let y = ft_exec V Cancel_local (ft_exec U (Start fd (Some (ip, port))) x) in
    xf_freed y \<and> xf_connecting y \<and> xf_bad (ft_exec W (Connected source) y)"
proof -
  define y where "y = ft_exec V Cancel_local (ft_exec U (Start fd (Some (ip, port))) x)"
  have x: "xf_ref x = 1" "\<not> xf_freed x" using assms(4) by (simp_all add: xfer_fresh_def)
  have y: "xf_freed y" "xf_connecting y"
    using assms(1,2,5) x unfolding y_def
    by (simp_all add: purple_xfer_start_def xfer_deref_live Let_def purple_xfer_cancel_local_def)
  have "xf_bad (ft_exec W (Connected source) y)"
    using assms(3) y(1) by (simp add: connect_cb_def begin_transfer_bad Let_def xfer_deref_def
        purple_xfer_cancel_local_def)
  then show ?thesis unfolding Let_def y_def [symmetric] using y by simp
qed

text \<open>C14: A send cancelled by the other side while the box ``File is not readable'' is open
  lives on in that box: closing it opens the file chooser for the cancelled transfer, and
  choosing an empty file there cancels it once more, which frees it before the callback gives up
  its own reference.\<close>

theorem xfer_retry_after_cancel:
  assumes "quiet U" "quiet V" "xfer_fresh x" "xf_type x = XFER_SEND"
    and "w_stat U f = Some (n, False)" "n \<noteq> 0" "\<not> w_access U f" "w_stat V g = Some (0, d)"
  shows "let y = ft_exec V Cancel_remote (ft_exec U (Choose_ok f) (ft_exec U Request x)) in
    \<not> xf_freed y \<and> xfer_over y \<and> xf_dialogs y = [Not_usable] \<and>
    xf_bad (ft_exec V (Choose_ok g) (ft_exec V Error_closed y))"
proof -
  define a where "a = ft_exec U Request x"
  define b where "b = ft_exec U (Choose_ok f) a"
  define y where "y = ft_exec V Cancel_remote b"
  define z where "z = ft_exec V Error_closed y"
  have x: "xf_ref x = 1" "\<not> xf_freed x" "\<not> xf_bad x" "xf_dialogs x = []" "op_init (xf_ops x) \<noteq> None"
    using assms(3) by (simp_all add: xfer_fresh_def)
  have a: "xf_ref a = 2" "\<not> xf_freed a" "xf_dialogs a = [Choose_file]" "xf_type a = XFER_SEND"
    using x assms(1,4) by (auto simp: a_def purple_xfer_request_def purple_xfer_ref_def xfer_deref_live
        Let_def purple_xfer_choose_file_def open_dialog_def)
  have b: "xf_ref b = 2" "\<not> xf_freed b" "xf_dialogs b = [Not_usable]" "xf_type b = XFER_SEND"
    using a assms(1,5-7)
    by (simp_all add: b_def dialog_closed_def purple_xfer_choose_file_ok_cb_def xfer_deref_live Let_def
        refuse_file_def open_dialog_def purple_xfer_ref_def)
  have y: "xf_ref y = 1" "\<not> xf_freed y" "xf_dialogs y = [Not_usable]" "xf_type y = XFER_SEND" "xfer_over y"
    using b assms(2) by (simp_all add: y_def purple_xfer_cancel_remote_def over_defs)
  have z: "xf_ref z = 1" "\<not> xf_freed z" "xf_type z = XFER_SEND"
    using y assms(2)
    by (simp_all add: z_def dialog_closed_def purple_xfer_choose_file_def open_dialog_def xfer_deref_live)
  have "xf_bad (ft_exec V (Choose_ok g) z)"
    using z assms(2,8)
    by (simp add: dialog_closed_def purple_xfer_choose_file_ok_cb_def xfer_deref_live Let_def
        purple_xfer_cancel_local_def)
  then show ?thesis
    unfolding Let_def a_def [symmetric] b_def [symmetric] y_def [symmetric] z_def [symmetric]
    using y by simp
qed

theorem xfer_connect_after_cancel_witness:
  "let y = ft_exec plain_world Cancel_local
             (ft_exec plain_world (Start 0 (Some (''peer'', 80))) (demo_xfer XFER_RECEIVE)) in
    xf_freed y \<and> xf_connecting y \<and> xf_bad (ft_exec plain_world (Connected 7) y)"
  by (rule xfer_connect_after_cancel) (simp_all add: demo_fresh)

definition locked_world :: world where
  "locked_world = plain_world\<lparr>w_stat := (\<lambda>f. if f = ''empty'' then Some (0, False) else Some (3, False)),
     w_access := (\<lambda>f. False)\<rparr>"

theorem xfer_retry_after_cancel_witness:
  "let y = ft_exec locked_world Cancel_remote (ft_exec locked_world (Choose_ok ''f'')
             (ft_exec locked_world Request (demo_xfer XFER_SEND))) in
    \<not> xf_freed y \<and> xfer_over y \<and> xf_dialogs y = [Not_usable] \<and>
    xf_bad (ft_exec locked_world (Choose_ok ''empty'') (ft_exec locked_world Error_closed y))"
  by (rule xfer_retry_after_cancel [where n = 3 and d = False])
    (simp_all add: demo_fresh locked_world_def plain_world_def quiet_identity)

end
