(* ===== verification/Purple_Prefs.thy ===== *)
theory Purple_Prefs
  imports Purple_Base
begin

section \<open>The tree of preferences (\<open>libpurple/prefs.c\<close>)\<close>

text \<open>
  Preferences are nodes of a tree, named by paths such as \<open>/purple/away/idle_reporting\<close>, and a hash
  table finds a node by its full name.  The heap is a map from addresses to nodes, the node
  \<open>prefs\<close> itself at address 0; a chain of \<open>first_child\<close> and \<open>sibling\<close> pointers is the list of the
  children's addresses.  The use of a freed node is the value \<open>None\<close>, and so is a loop that
  does not end.  The interface provides no preference store of its own (\<open>prefs_ui_ops\<close> is \<open>NULL\<close>;
  then every \<open>PURPLE_PREFS_UI_OP_CALL\<close> falls through).  What the code asks of others is a
  \<open>prefs_env\<close>: the validity of UTF-8, the conversion of file names (\<open>NULL\<close> where it fails), and what
  a callback does, which may be anything, on the preferences too; \<open>notified\<close> logs the calls.
\<close>

type_synonym addr = nat

datatype PurplePrefType =
    PURPLE_PREF_NONE | PURPLE_PREF_BOOLEAN | PURPLE_PREF_INT | PURPLE_PREF_STRING
  | PURPLE_PREF_STRING_LIST | PURPLE_PREF_PATH | PURPLE_PREF_PATH_LIST

text \<open>The union, by the member last written (a \<open>gboolean\<close> is an \<open>int\<close>).\<close>

datatype pref_value =
    Generic nat | Boolean int | Integer int | String cstring | Stringlist "cstring list"

record pref_callback =
  cb_id :: nat
  cb_func :: nat
  cb_data :: nat
  cb_handle :: nat
  cb_name :: string

record purple_pref =
  p_type :: PurplePrefType
  p_name :: cstring
  p_value :: pref_value
  p_callbacks :: "pref_callback list"
  p_parent :: "addr option"
  p_children :: "addr list"

record prefs =
  nodes :: "addr \<Rightarrow> purple_pref option"
  prefs_hash :: "string \<Rightarrow> addr option"
  prefs_loaded :: bool
  save_timer :: bool
  last_cb_id :: nat
  notified :: "(nat \<times> string \<times> PurplePrefType \<times> pref_value) list"

record prefs_env =
  valid_utf8 :: "string \<Rightarrow> bool"
  filename_to_utf8 :: "string \<Rightarrow> cstring"
  filename_from_utf8 :: "string \<Rightarrow> cstring"
  on_change :: "pref_callback \<Rightarrow> string \<Rightarrow> PurplePrefType \<Rightarrow> pref_value \<Rightarrow> prefs \<Rightarrow> prefs option"

definition prefs_root :: addr where
  "prefs_root = 0"

definition prefs_empty :: prefs where
  "prefs_empty = \<lparr>
     nodes = [prefs_root \<mapsto> \<lparr>p_type = PURPLE_PREF_NONE, p_name = None, p_value = Generic 0,
               p_callbacks = [], p_parent = None, p_children = []\<rparr>],
     prefs_hash = Map.empty, prefs_loaded = False, save_timer = False, last_cb_id = 0, notified = []\<rparr>"

definition set_node :: "addr \<Rightarrow> purple_pref \<Rightarrow> prefs \<Rightarrow> prefs" where
  "set_node a p st = st\<lparr>nodes := (nodes st)(a \<mapsto> p)\<rparr>"

definition find_pref :: "prefs \<Rightarrow> string \<Rightarrow> addr option" where
  "find_pref st name =
     (case name of
        [] \<Rightarrow> None
      | c # rest \<Rightarrow> if c \<noteq> CHR ''/'' then None else if rest = [] then Some prefs_root else prefs_hash st name)"

subsection \<open>Names\<close>

definition get_path_dirname :: "string \<Rightarrow> string" where
  "get_path_dirname name =
     (case dropWhile (\<lambda>c. c \<noteq> CHR ''/'') (rev name) of
        [] \<Rightarrow> ''.''
      | c # r \<Rightarrow> if r = [] then ''/'' else rev r)"

definition get_path_basename :: "string \<Rightarrow> string" where
  "get_path_basename name = rev (takeWhile (\<lambda>c. c \<noteq> CHR ''/'') (rev name))"

partial_function (option) full_name_loop :: "prefs \<Rightarrow> addr option \<Rightarrow> string \<Rightarrow> string option" where
  "full_name_loop st parent acc =
     (case parent of
        None \<Rightarrow> Some acc
      | Some a \<Rightarrow>
          (case nodes st a of
             None \<Rightarrow> None
           | Some p \<Rightarrow>
               (case p_name p of
                  None \<Rightarrow> Some acc
                | Some n \<Rightarrow> full_name_loop st (p_parent p) (n @ CHR ''/'' # acc))))"

definition pref_full_name :: "prefs \<Rightarrow> addr \<Rightarrow> string option" where
  "pref_full_name st a =
     (if a = prefs_root then Some ''/''
      else
        (case nodes st a of
           None \<Rightarrow> None
         | Some p \<Rightarrow>
             map_option (\<lambda>s. CHR ''/'' # s)
               (full_name_loop st (p_parent p) (case p_name p of None \<Rightarrow> [] | Some n \<Rightarrow> n))))"

definition find_pref_parent :: "prefs \<Rightarrow> string \<Rightarrow> addr option" where
  "find_pref_parent st name =
     (if get_path_dirname name = ''/'' then Some prefs_root else find_pref st (get_path_dirname name))"

subsection \<open>Adding\<close>

text \<open>The walk over the siblings that looks for the name; the address \<open>a\<close> of the new node is the
  allocator's.\<close>

fun name_taken :: "prefs \<Rightarrow> string \<Rightarrow> addr list \<Rightarrow> bool option" where
  "name_taken st my_name [] = Some False"
| "name_taken st my_name (s # sibs) =
     (case nodes st s of
        None \<Rightarrow> None
      | Some p \<Rightarrow> if p_name p = Some my_name then Some True else name_taken st my_name sibs)"

definition add_pref :: "addr \<Rightarrow> PurplePrefType \<Rightarrow> string \<Rightarrow> prefs \<Rightarrow> (addr option \<times> prefs) option" where
  "add_pref a type name st =
     (case find_pref_parent st name of
        None \<Rightarrow> Some (None, st)
      | Some parent \<Rightarrow>
          (case nodes st parent of
             None \<Rightarrow> None
           | Some pp \<Rightarrow>
               let my_name = get_path_basename name in
               (case name_taken st my_name (p_children pp) of
                  None \<Rightarrow> None
                | Some True \<Rightarrow> Some (None, st)
                | Some False \<Rightarrow>
                    let st1 = set_node parent (pp\<lparr>p_children := p_children pp @ [a]\<rparr>) st;
                        st2 = set_node a \<lparr>p_type = type, p_name = Some my_name, p_value = Generic 0,
                                p_callbacks = [], p_parent = Some parent, p_children = []\<rparr> st1
                    in Some (Some a, st2\<lparr>prefs_hash := (prefs_hash st2)(name \<mapsto> a)\<rparr>))))"

definition set_value :: "addr \<Rightarrow> pref_value \<Rightarrow> prefs \<Rightarrow> prefs option" where
  "set_value a v st = map_option (\<lambda>p. set_node a (p\<lparr>p_value := v\<rparr>) st) (nodes st a)"

definition add_with_value :: "addr \<Rightarrow> PurplePrefType \<Rightarrow> string \<Rightarrow> pref_value \<Rightarrow> prefs \<Rightarrow> prefs option" where
  "add_with_value a type name v st =
     (case add_pref a type name st of
        None \<Rightarrow> None
      | Some (None, st1) \<Rightarrow> Some st1
      | Some (Some p, st1) \<Rightarrow> set_value p v st1)"

definition purple_prefs_add_none :: "addr \<Rightarrow> string \<Rightarrow> prefs \<Rightarrow> prefs option" where
  "purple_prefs_add_none a name st = map_option snd (add_pref a PURPLE_PREF_NONE name st)"

definition purple_prefs_add_bool :: "addr \<Rightarrow> string \<Rightarrow> int \<Rightarrow> prefs \<Rightarrow> prefs option" where
  "purple_prefs_add_bool a name value st = add_with_value a PURPLE_PREF_BOOLEAN name (Boolean value) st"

definition purple_prefs_add_int :: "addr \<Rightarrow> string \<Rightarrow> int \<Rightarrow> prefs \<Rightarrow> prefs option" where
  "purple_prefs_add_int a name value st = add_with_value a PURPLE_PREF_INT name (Integer value) st"

definition invalid_utf8 :: "prefs_env \<Rightarrow> cstring \<Rightarrow> bool" where
  "invalid_utf8 E value = (case value of None \<Rightarrow> False | Some s \<Rightarrow> \<not> valid_utf8 E s)"

definition purple_prefs_add_string ::
  "prefs_env \<Rightarrow> addr \<Rightarrow> string \<Rightarrow> cstring \<Rightarrow> prefs \<Rightarrow> prefs option" where
  "purple_prefs_add_string E a name value st =
     (if invalid_utf8 E value then Some st
      else add_with_value a PURPLE_PREF_STRING name (String value) st)"

definition purple_prefs_add_string_list ::
  "prefs_env \<Rightarrow> addr \<Rightarrow> string \<Rightarrow> cstring list \<Rightarrow> prefs \<Rightarrow> prefs option" where
  "purple_prefs_add_string_list E a name value st =
     add_with_value a PURPLE_PREF_STRING_LIST name
       (Stringlist (filter (\<lambda>s. \<not> invalid_utf8 E s) value)) st"

definition purple_prefs_add_path :: "addr \<Rightarrow> string \<Rightarrow> cstring \<Rightarrow> prefs \<Rightarrow> prefs option" where
  "purple_prefs_add_path a name value st = add_with_value a PURPLE_PREF_PATH name (String value) st"

definition purple_prefs_add_path_list :: "addr \<Rightarrow> string \<Rightarrow> cstring list \<Rightarrow> prefs \<Rightarrow> prefs option" where
  "purple_prefs_add_path_list a name value st =
     add_with_value a PURPLE_PREF_PATH_LIST name (Stringlist value) st"

subsection \<open>Removing\<close>

text \<open>Taking a node without children out: off its parent's chain, out of the table under its
  full name, and back to the allocator.\<close>

definition unlink_pref :: "addr \<Rightarrow> purple_pref \<Rightarrow> prefs \<Rightarrow> prefs option" where
  "unlink_pref a p st =
     (case p_parent p of
        None \<Rightarrow> None
      | Some parent \<Rightarrow>
          (case nodes st parent of
             None \<Rightarrow> None
           | Some pp \<Rightarrow>
               let st1 = set_node parent (pp\<lparr>p_children := remove1 a (p_children pp)\<rparr>) st in
               map_option (\<lambda>name. st1\<lparr>prefs_hash := (prefs_hash st1)(name := None),
                                      nodes := (nodes st1)(a := None)\<rparr>)
                 (pref_full_name st1 a)))"

text \<open>\<open>while (pref->first_child) remove_pref (pref->first_child)\<close>, then the node itself.\<close>

partial_function (option) remove_pref :: "addr \<Rightarrow> prefs \<Rightarrow> prefs option" where
  "remove_pref a st =
     (case nodes st a of
        None \<Rightarrow> None
      | Some p \<Rightarrow>
          (case p_children p of
             c # cs \<Rightarrow> Option.bind (remove_pref c st) (remove_pref a)
           | [] \<Rightarrow> if a = prefs_root then Some st else unlink_pref a p st))"

definition purple_prefs_remove :: "string \<Rightarrow> prefs \<Rightarrow> prefs option" where
  "purple_prefs_remove name st =
     (case find_pref st name of None \<Rightarrow> Some st | Some a \<Rightarrow> remove_pref a st)"

definition purple_prefs_destroy :: "prefs \<Rightarrow> prefs option" where
  "purple_prefs_destroy st = purple_prefs_remove ''/'' st"

subsection \<open>Callbacks\<close>

text \<open>The callback \<open>prefs_save_cb\<close> has its own number among the function pointers.\<close>

definition PREFS_SAVE_CB :: nat where
  "PREFS_SAVE_CB = 0"

definition schedule_prefs_save :: "prefs \<Rightarrow> prefs" where
  "schedule_prefs_save st = (if \<not> save_timer st then st\<lparr>save_timer := True\<rparr> else st)"

definition prefs_save_cb :: "prefs \<Rightarrow> prefs" where
  "prefs_save_cb st = (if \<not> prefs_loaded st then st else schedule_prefs_save st)"

text \<open>One call: type and value are read from the changed node again each time.\<close>

definition run_callback :: "prefs_env \<Rightarrow> string \<Rightarrow> addr \<Rightarrow> pref_callback \<Rightarrow> prefs \<Rightarrow> prefs option" where
  "run_callback E name pref cb st =
     (case nodes st pref of
        None \<Rightarrow> None
      | Some p \<Rightarrow>
          let st1 = st\<lparr>notified := notified st @ [(cb_id cb, name, p_type p, p_value p)]\<rparr>
          in if cb_func cb = PREFS_SAVE_CB then Some (prefs_save_cb st1)
             else on_change E cb name (p_type p) (p_value p) st1)"

text \<open>\<open>cbs->next\<close> after the call of the callback numbered \<open>i\<close>: its link is looked up in the list as
  the callback has left it; \<open>None\<close> when the callback took itself off, so that the link was freed.\<close>

fun next_callback :: "nat \<Rightarrow> pref_callback list \<Rightarrow> pref_callback option option" where
  "next_callback i [] = None"
| "next_callback i (cb # cbs) =
     (if cb_id cb = i then Some (case cbs of [] \<Rightarrow> None | c # _ \<Rightarrow> Some c) else next_callback i cbs)"

definition first_callback :: "pref_callback list \<Rightarrow> pref_callback option" where
  "first_callback cbs = (case cbs of [] \<Rightarrow> None | c # _ \<Rightarrow> Some c)"

partial_function (option) node_callbacks ::
  "prefs_env \<Rightarrow> string \<Rightarrow> addr \<Rightarrow> addr \<Rightarrow> pref_callback option \<Rightarrow> prefs \<Rightarrow> prefs option" where
  "node_callbacks E name pref cb_pref cbs st =
     (case cbs of
        None \<Rightarrow> Some st
      | Some cb \<Rightarrow>
          Option.bind (run_callback E name pref cb st) (\<lambda>st1.
            case nodes st1 cb_pref of
              None \<Rightarrow> None
            | Some p \<Rightarrow>
                Option.bind (next_callback (cb_id cb) (p_callbacks p))
                  (\<lambda>cbs'. node_callbacks E name pref cb_pref cbs' st1)))"

partial_function (option) do_callbacks_loop ::
  "prefs_env \<Rightarrow> string \<Rightarrow> addr \<Rightarrow> addr option \<Rightarrow> prefs \<Rightarrow> prefs option" where
  "do_callbacks_loop E name pref cb_pref st =
     (case cb_pref of
        None \<Rightarrow> Some st
      | Some a \<Rightarrow>
          (case nodes st a of
             None \<Rightarrow> None
           | Some p \<Rightarrow>
               Option.bind (node_callbacks E name pref a (first_callback (p_callbacks p)) st) (\<lambda>st1.
                 case nodes st1 a of
                   None \<Rightarrow> None
                 | Some p1 \<Rightarrow> do_callbacks_loop E name pref (p_parent p1) st1)))"

definition do_callbacks :: "prefs_env \<Rightarrow> string \<Rightarrow> addr \<Rightarrow> prefs \<Rightarrow> prefs option" where
  "do_callbacks E name a st = do_callbacks_loop E name a (Some a) st"

definition purple_prefs_trigger_callback :: "prefs_env \<Rightarrow> string \<Rightarrow> prefs \<Rightarrow> prefs option" where
  "purple_prefs_trigger_callback E name st =
     (case find_pref st name of None \<Rightarrow> Some st | Some a \<Rightarrow> do_callbacks E name a st)"

text \<open>The id is the counter before it wraps around at 2^32.\<close>

definition purple_prefs_connect_callback ::
  "nat \<Rightarrow> string \<Rightarrow> nat \<Rightarrow> nat \<Rightarrow> prefs \<Rightarrow> (nat \<times> prefs) option" where
  "purple_prefs_connect_callback handle name func dat st =
     (case find_pref st name of
        None \<Rightarrow> Some (0, st)
      | Some a \<Rightarrow>
          (case nodes st a of
             None \<Rightarrow> None
           | Some p \<Rightarrow>
               let i = last_cb_id st + 1;
                   cb = \<lparr>cb_id = i, cb_func = func, cb_data = dat, cb_handle = handle, cb_name = name\<rparr>
               in Some (i, (set_node a (p\<lparr>p_callbacks := p_callbacks p @ [cb]\<rparr>) st)\<lparr>last_cb_id := i\<rparr>)))"

fun drop_callback :: "nat \<Rightarrow> pref_callback list \<Rightarrow> pref_callback list option" where
  "drop_callback i [] = None"
| "drop_callback i (cb # cbs) = (if cb_id cb = i then Some cbs else map_option ((#) cb) (drop_callback i cbs))"

text \<open>\<open>disco_callback_helper\<close>: the nodes still to visit are a list, children before siblings.\<close>

partial_function (option) disco_callback_helper :: "nat \<Rightarrow> addr list \<Rightarrow> prefs \<Rightarrow> prefs option" where
  "disco_callback_helper i todo st =
     (case todo of
        [] \<Rightarrow> Some st
      | a # rest \<Rightarrow>
          (case nodes st a of
             None \<Rightarrow> None
           | Some p \<Rightarrow>
               (case drop_callback i (p_callbacks p) of
                  Some cbs \<Rightarrow> Some (set_node a (p\<lparr>p_callbacks := cbs\<rparr>) st)
                | None \<Rightarrow> disco_callback_helper i (p_children p @ rest) st)))"

definition purple_prefs_disconnect_callback :: "nat \<Rightarrow> prefs \<Rightarrow> prefs option" where
  "purple_prefs_disconnect_callback i st = disco_callback_helper i [prefs_root] st"

partial_function (option) disco_callback_helper_handle :: "nat \<Rightarrow> addr list \<Rightarrow> prefs \<Rightarrow> prefs option" where
  "disco_callback_helper_handle h todo st =
     (case todo of
        [] \<Rightarrow> Some st
      | a # rest \<Rightarrow>
          (case nodes st a of
             None \<Rightarrow> None
           | Some p \<Rightarrow>
               disco_callback_helper_handle h (p_children p @ rest)
                 (set_node a (p\<lparr>p_callbacks := filter (\<lambda>cb. cb_handle cb \<noteq> h) (p_callbacks p)\<rparr>) st)))"

text \<open>A handle is a pointer, \<open>NULL\<close> is 0.\<close>

definition purple_prefs_disconnect_by_handle :: "nat \<Rightarrow> prefs \<Rightarrow> prefs option" where
  "purple_prefs_disconnect_by_handle h st =
     (if h = 0 then Some st else disco_callback_helper_handle h [prefs_root] st)"

subsection \<open>Values\<close>

definition change_value :: "prefs_env \<Rightarrow> string \<Rightarrow> addr \<Rightarrow> pref_value \<Rightarrow> prefs \<Rightarrow> prefs option" where
  "change_value E name a v st = Option.bind (set_value a v st) (do_callbacks E name a)"

definition purple_prefs_set_generic :: "prefs_env \<Rightarrow> string \<Rightarrow> nat \<Rightarrow> prefs \<Rightarrow> prefs option" where
  "purple_prefs_set_generic E name value st =
     (case find_pref st name of None \<Rightarrow> Some st | Some a \<Rightarrow> change_value E name a (Generic value) st)"

definition purple_prefs_set_bool :: "prefs_env \<Rightarrow> addr \<Rightarrow> string \<Rightarrow> int \<Rightarrow> prefs \<Rightarrow> prefs option" where
  "purple_prefs_set_bool E new name value st =
     (case find_pref st name of
        None \<Rightarrow> purple_prefs_add_bool new name value st
      | Some a \<Rightarrow>
          (case nodes st a of
             None \<Rightarrow> None
           | Some p \<Rightarrow>
               if p_type p \<noteq> PURPLE_PREF_BOOLEAN then Some st
               else if p_value p \<noteq> Boolean value then change_value E name a (Boolean value) st
               else Some st))"

definition purple_prefs_set_int :: "prefs_env \<Rightarrow> addr \<Rightarrow> string \<Rightarrow> int \<Rightarrow> prefs \<Rightarrow> prefs option" where
  "purple_prefs_set_int E new name value st =
     (case find_pref st name of
        None \<Rightarrow> purple_prefs_add_int new name value st
      | Some a \<Rightarrow>
          (case nodes st a of
             None \<Rightarrow> None
           | Some p \<Rightarrow>
               if p_type p \<noteq> PURPLE_PREF_INT then Some st
               else if p_value p \<noteq> Integer value then change_value E name a (Integer value) st
               else Some st))"

definition purple_prefs_set_string ::
  "prefs_env \<Rightarrow> addr \<Rightarrow> string \<Rightarrow> cstring \<Rightarrow> prefs \<Rightarrow> prefs option" where
  "purple_prefs_set_string E new name value st =
     (if invalid_utf8 E value then Some st
      else
        (case find_pref st name of
           None \<Rightarrow> purple_prefs_add_string E new name value st
         | Some a \<Rightarrow>
             (case nodes st a of
                None \<Rightarrow> None
              | Some p \<Rightarrow>
                  if p_type p \<noteq> PURPLE_PREF_STRING \<and> p_type p \<noteq> PURPLE_PREF_PATH then Some st
                  else if p_value p \<noteq> String value then change_value E name a (String value) st
                  else Some st)))"

definition purple_prefs_set_string_list ::
  "prefs_env \<Rightarrow> addr \<Rightarrow> string \<Rightarrow> cstring list \<Rightarrow> prefs \<Rightarrow> prefs option" where
  "purple_prefs_set_string_list E new name value st =
     (case find_pref st name of
        None \<Rightarrow> purple_prefs_add_string_list E new name value st
      | Some a \<Rightarrow>
          (case nodes st a of
             None \<Rightarrow> None
           | Some p \<Rightarrow>
               if p_type p \<noteq> PURPLE_PREF_STRING_LIST then Some st
               else change_value E name a (Stringlist (filter (\<lambda>s. \<not> invalid_utf8 E s) value)) st))"

definition purple_prefs_set_path :: "prefs_env \<Rightarrow> addr \<Rightarrow> string \<Rightarrow> cstring \<Rightarrow> prefs \<Rightarrow> prefs option" where
  "purple_prefs_set_path E new name value st =
     (case find_pref st name of
        None \<Rightarrow> purple_prefs_add_path new name value st
      | Some a \<Rightarrow>
          (case nodes st a of
             None \<Rightarrow> None
           | Some p \<Rightarrow>
               if p_type p \<noteq> PURPLE_PREF_PATH then Some st
               else if p_value p \<noteq> String value then change_value E name a (String value) st
               else Some st))"

definition purple_prefs_set_path_list :: "prefs_env \<Rightarrow> addr \<Rightarrow> string \<Rightarrow> cstring list \<Rightarrow> prefs \<Rightarrow> prefs option" where
  "purple_prefs_set_path_list E new name value st =
     (case find_pref st name of
        None \<Rightarrow> purple_prefs_add_path_list new name value st
      | Some a \<Rightarrow>
          (case nodes st a of
             None \<Rightarrow> None
           | Some p \<Rightarrow>
               if p_type p \<noteq> PURPLE_PREF_PATH_LIST then Some st
               else change_value E name a (Stringlist value) st))"

text \<open>The getters: \<open>None\<close> for the use of a freed node or of the wrong member of the union.\<close>

definition get_node :: "prefs \<Rightarrow> string \<Rightarrow> 'a \<Rightarrow> (purple_pref \<Rightarrow> 'a option) \<Rightarrow> 'a option" where
  "get_node st name dflt f =
     (case find_pref st name of
        None \<Rightarrow> Some dflt
      | Some a \<Rightarrow> (case nodes st a of None \<Rightarrow> None | Some p \<Rightarrow> f p))"

definition purple_prefs_exists :: "prefs \<Rightarrow> string \<Rightarrow> bool" where
  "purple_prefs_exists st name = (find_pref st name \<noteq> None)"

definition purple_prefs_get_type :: "prefs \<Rightarrow> string \<Rightarrow> PurplePrefType option" where
  "purple_prefs_get_type st name = get_node st name PURPLE_PREF_NONE (\<lambda>p. Some (p_type p))"

definition purple_prefs_get_bool :: "prefs \<Rightarrow> string \<Rightarrow> int option" where
  "purple_prefs_get_bool st name = get_node st name 0
     (\<lambda>p. if p_type p \<noteq> PURPLE_PREF_BOOLEAN then Some 0
          else (case p_value p of Boolean b \<Rightarrow> Some b | _ \<Rightarrow> None))"

definition purple_prefs_get_int :: "prefs \<Rightarrow> string \<Rightarrow> int option" where
  "purple_prefs_get_int st name = get_node st name 0
     (\<lambda>p. if p_type p \<noteq> PURPLE_PREF_INT then Some 0
          else (case p_value p of Integer i \<Rightarrow> Some i | _ \<Rightarrow> None))"

definition purple_prefs_get_string :: "prefs \<Rightarrow> string \<Rightarrow> cstring option" where
  "purple_prefs_get_string st name = get_node st name None
     (\<lambda>p. if p_type p \<noteq> PURPLE_PREF_STRING then Some None
          else (case p_value p of String s \<Rightarrow> Some s | _ \<Rightarrow> None))"

definition purple_prefs_get_string_list :: "prefs \<Rightarrow> string \<Rightarrow> cstring list option" where
  "purple_prefs_get_string_list st name = get_node st name []
     (\<lambda>p. if p_type p \<noteq> PURPLE_PREF_STRING_LIST then Some []
          else (case p_value p of Stringlist l \<Rightarrow> Some l | _ \<Rightarrow> None))"

definition purple_prefs_get_path :: "prefs \<Rightarrow> string \<Rightarrow> cstring option" where
  "purple_prefs_get_path st name = get_node st name None
     (\<lambda>p. if p_type p \<noteq> PURPLE_PREF_PATH then Some None
          else (case p_value p of String s \<Rightarrow> Some s | _ \<Rightarrow> None))"

definition purple_prefs_get_path_list :: "prefs \<Rightarrow> string \<Rightarrow> cstring list option" where
  "purple_prefs_get_path_list st name = get_node st name []
     (\<lambda>p. if p_type p \<noteq> PURPLE_PREF_PATH_LIST then Some []
          else (case p_value p of Stringlist l \<Rightarrow> Some l | _ \<Rightarrow> None))"

fun child_names :: "prefs \<Rightarrow> string \<Rightarrow> addr list \<Rightarrow> string list option" where
  "child_names st prefix [] = Some []"
| "child_names st prefix (c # cs) =
     (case nodes st c of
        None \<Rightarrow> None
      | Some p \<Rightarrow>
          map_option ((#) (prefix @ (case p_name p of None \<Rightarrow> [] | Some n \<Rightarrow> n))) (child_names st prefix cs))"

definition purple_prefs_get_children_names :: "prefs \<Rightarrow> string \<Rightarrow> string list option" where
  "purple_prefs_get_children_names st name = get_node st name []
     (\<lambda>p. child_names st (if last name \<noteq> CHR ''/'' then name @ ''/'' else name) (p_children p))"

subsection \<open>Renaming\<close>

text \<open>The child of \<open>newpref\<close> with a given name.\<close>

fun child_named :: "prefs \<Rightarrow> cstring \<Rightarrow> addr list \<Rightarrow> addr option option" where
  "child_named st n [] = Some None"
| "child_named st n (c # cs) =
     (case nodes st c of
        None \<Rightarrow> None
      | Some p \<Rightarrow> if purple_strequal n (p_name p) then Some (Some c) else child_named st n cs)"

text \<open>The last part of \<open>purple_prefs_rename_node\<close>: types compared, value stored under the new name,
  old node removed.\<close>

definition rename_finish :: "prefs_env \<Rightarrow> addr \<Rightarrow> addr \<Rightarrow> prefs \<Rightarrow> prefs option" where
  "rename_finish E oldpref newpref st =
     (case (nodes st oldpref, nodes st newpref, pref_full_name st newpref) of
        (Some po, Some pn, Some newname) \<Rightarrow>
          if p_type po \<noteq> p_type pn then Some st
          else
            Option.bind
              (case (p_type po, p_value po) of
                 (PURPLE_PREF_NONE, _) \<Rightarrow> Some st
               | (PURPLE_PREF_BOOLEAN, Boolean b) \<Rightarrow> purple_prefs_set_bool E newpref newname b st
               | (PURPLE_PREF_INT, Integer i) \<Rightarrow> purple_prefs_set_int E newpref newname i st
               | (PURPLE_PREF_STRING, String s) \<Rightarrow> purple_prefs_set_string E newpref newname s st
               | (PURPLE_PREF_STRING_LIST, Stringlist l) \<Rightarrow>
                   purple_prefs_set_string_list E newpref newname l st
               | (PURPLE_PREF_PATH, String s) \<Rightarrow> purple_prefs_set_path E newpref newname s st
               | (PURPLE_PREF_PATH_LIST, Stringlist l) \<Rightarrow> purple_prefs_set_path_list E newpref newname l st
               | _ \<Rightarrow> None)
              (remove_pref oldpref)
      | _ \<Rightarrow> None)"

text \<open>\<open>purple_prefs_rename_node\<close> with the children of \<open>oldpref\<close> still to visit.\<close>

partial_function (option) rename_children ::
  "prefs_env \<Rightarrow> addr \<Rightarrow> addr \<Rightarrow> addr list \<Rightarrow> prefs \<Rightarrow> prefs option" where
  "rename_children E oldpref newpref todo st =
     (case todo of
        [] \<Rightarrow> rename_finish E oldpref newpref st
      | child # rest \<Rightarrow>
          (case (nodes st child, nodes st newpref) of
             (Some pc, Some pn) \<Rightarrow>
               (case child_named st (p_name pc) (p_children pn) of
                  None \<Rightarrow> None
                | Some None \<Rightarrow> rename_children E oldpref newpref rest st
                | Some (Some newchild) \<Rightarrow>
                    Option.bind (rename_children E child newchild (p_children pc) st)
                      (rename_children E oldpref newpref rest))
           | _ \<Rightarrow> None))"

definition purple_prefs_rename :: "prefs_env \<Rightarrow> string \<Rightarrow> string \<Rightarrow> prefs \<Rightarrow> prefs option" where
  "purple_prefs_rename E oldname newname st =
     (case find_pref st oldname of
        None \<Rightarrow> Some st
      | Some oldpref \<Rightarrow>
          (case find_pref st newname of
             None \<Rightarrow> Some st
           | Some newpref \<Rightarrow>
               (case nodes st oldpref of
                  None \<Rightarrow> None
                | Some p \<Rightarrow> rename_children E oldpref newpref (p_children p) st)))"

definition purple_prefs_rename_boolean_toggle :: "prefs_env \<Rightarrow> string \<Rightarrow> string \<Rightarrow> prefs \<Rightarrow> prefs option" where
  "purple_prefs_rename_boolean_toggle E oldname newname st =
     (case find_pref st oldname of
        None \<Rightarrow> Some st
      | Some oldpref \<Rightarrow>
          (case nodes st oldpref of
             None \<Rightarrow> None
           | Some po \<Rightarrow>
               if p_type po \<noteq> PURPLE_PREF_BOOLEAN then Some st
               else if p_children po \<noteq> [] then Some st
               else
                 (case find_pref st newname of
                    None \<Rightarrow> Some st
                  | Some newpref \<Rightarrow>
                      (case (nodes st newpref, p_value po) of
                         (Some pn, Boolean b) \<Rightarrow>
                           if p_type po \<noteq> p_type pn then Some st
                           else Option.bind
                                  (purple_prefs_set_bool E newpref newname (if b = 0 then 1 else 0) st)
                                  (remove_pref oldpref)
                       | _ \<Rightarrow> None))))"

subsection \<open>Callbacks kept for the interface\<close>

text \<open>Whether \<open>do_ui_callbacks\<close> runs the callback registered under \<open>cbn\<close> when \<open>name\<close> changed.\<close>

definition ui_callback_matches :: "string \<Rightarrow> string \<Rightarrow> bool" where
  "ui_callback_matches cbn name =
     (let len = length cbn in
      take len name = cbn \<and>
      (len = length name \<or> len < length name \<and> name ! len = CHR ''/'' \<or>
       0 < len \<and> name ! (len - 1) = CHR ''/''))"

fun disco_ui_callback_helper :: "nat \<Rightarrow> pref_callback list \<Rightarrow> pref_callback list" where
  "disco_ui_callback_helper i [] = []"
| "disco_ui_callback_helper i (cb # cbs) = (if cb_id cb = i then cbs else cb # disco_ui_callback_helper i cbs)"

text \<open>\<open>disco_ui_callback_helper_handle\<close> with \<open>cbs\<close> at position \<open>i\<close> of the list: the body moves
  \<open>cbs\<close>, and the increment of the loop then follows its \<open>next\<close> pointer, also when it is \<open>NULL\<close>.\<close>

partial_function (option) disco_ui_callback_helper_handle ::
  "nat \<Rightarrow> nat \<Rightarrow> pref_callback list \<Rightarrow> pref_callback list option" where
  "disco_ui_callback_helper_handle h i cbs =
     (if length cbs \<le> i then Some cbs
      else if cb_handle (cbs ! i) \<noteq> h
      then (if length cbs \<le> i + 1 then None else disco_ui_callback_helper_handle h (i + 2) cbs)
      else
        let cbs' = take i cbs @ drop (i + 1) cbs
        in if cbs' = [] then None else disco_ui_callback_helper_handle h 1 cbs')"

subsection \<open>Saving and loading\<close>

text \<open>An element of the saved file: its name, its attributes, its children.\<close>

datatype xmlnode = Xml string "(string \<times> string) list" "xmlnode list"

text \<open>\<open>%d\<close> and \<open>atoi\<close>: white space, a sign, digits up to the first other character.\<close>

fun print_nat :: "nat \<Rightarrow> string" where
  "print_nat n = (if n < 10 then [char_of (48 + n)] else print_nat (n div 10) @ [char_of (48 + n mod 10)])"

declare print_nat.simps [simp del]

definition print_int :: "int \<Rightarrow> string" where
  "print_int i = (if i < 0 then CHR ''-'' # print_nat (nat (- i)) else print_nat (nat i))"

fun read_digits :: "nat \<Rightarrow> string \<Rightarrow> nat" where
  "read_digits n [] = n"
| "read_digits n (c # cs) =
     (let d = of_char c :: nat in if 48 \<le> d \<and> d \<le> 57 then read_digits (10 * n + (d - 48)) cs else n)"

definition atoi :: "string \<Rightarrow> int" where
  "atoi s =
     (case dropWhile (\<lambda>c. of_char c \<in> {9, 10, 11, 12, 13, 32 :: nat}) s of
        [] \<Rightarrow> 0
      | c # cs \<Rightarrow>
          if c = CHR ''-'' then - int (read_digits 0 cs)
          else if c = CHR ''+'' then int (read_digits 0 cs)
          else int (read_digits 0 (c # cs)))"

text \<open>\<open>xmlnode_set_attrib\<close> refuses a \<open>NULL\<close> value and leaves the attribute out.\<close>

definition value_attrib :: "cstring \<Rightarrow> (string \<times> string) list" where
  "value_attrib v = (case v of None \<Rightarrow> [] | Some t \<Rightarrow> [(''value'', t)])"

definition value_item :: "cstring \<Rightarrow> xmlnode" where
  "value_item v = Xml ''item'' (value_attrib v) []"

definition text_of :: "cstring \<Rightarrow> string" where
  "text_of s = (case s of None \<Rightarrow> [] | Some t \<Rightarrow> t)"

text \<open>The attributes after the name, and the items, by type.\<close>

definition pref_attribs :: "prefs_env \<Rightarrow> PurplePrefType \<Rightarrow> pref_value \<Rightarrow> ((string \<times> string) list \<times> xmlnode list) option" where
  "pref_attribs E type v =
     (case (type, v) of
        (PURPLE_PREF_NONE, _) \<Rightarrow> Some ([], [])
      | (PURPLE_PREF_INT, Integer i) \<Rightarrow> Some ([(''type'', ''int''), (''value'', print_int i)], [])
      | (PURPLE_PREF_BOOLEAN, Boolean b) \<Rightarrow> Some ([(''type'', ''bool''), (''value'', print_int b)], [])
      | (PURPLE_PREF_STRING, String s) \<Rightarrow>
          Some ([(''type'', ''string''), (''value'', text_of s)], [])
      | (PURPLE_PREF_PATH, String s) \<Rightarrow>
          Some ((''type'', ''path'') # value_attrib (filename_to_utf8 E (text_of s)), [])
      | (PURPLE_PREF_STRING_LIST, Stringlist l) \<Rightarrow>
          Some ([(''type'', ''stringlist'')], map (\<lambda>s. value_item (Some (text_of s))) l)
      | (PURPLE_PREF_PATH_LIST, Stringlist l) \<Rightarrow>
          Some ([(''type'', ''pathlist'')], map (\<lambda>s. value_item (filename_to_utf8 E (text_of s))) l)
      | _ \<Rightarrow> None)"

text \<open>The elements of a list of sibling nodes, one after the other.\<close>

partial_function (option) prefs_to_xmlnodes :: "prefs_env \<Rightarrow> prefs \<Rightarrow> addr list \<Rightarrow> xmlnode list option" where
  "prefs_to_xmlnodes E st todo =
     (case todo of
        [] \<Rightarrow> Some []
      | a # rest \<Rightarrow>
          (case nodes st a of
             None \<Rightarrow> None
           | Some p \<Rightarrow>
               (case pref_attribs E (p_type p) (p_value p) of
                  None \<Rightarrow> None
                | Some (attribs, items) \<Rightarrow>
                    Option.bind (prefs_to_xmlnodes E st (p_children p)) (\<lambda>kids.
                      Option.bind (prefs_to_xmlnodes E st rest) (\<lambda>sibs.
                        Some (Xml ''pref'' ((''name'', case p_name p of None \<Rightarrow> [] | Some n \<Rightarrow> n) # attribs)
                                (items @ kids) # sibs))))))"

definition prefs_to_xmlnode :: "prefs_env \<Rightarrow> prefs \<Rightarrow> xmlnode option" where
  "prefs_to_xmlnode E st =
     (case nodes st prefs_root of
        None \<Rightarrow> None
      | Some p \<Rightarrow>
          map_option (Xml ''pref'' [(''version'', ''1''), (''name'', ''/'')])
            (prefs_to_xmlnodes E st (p_children p)))"

text \<open>What the parser of GLib calls for an element: a start with name and attributes, the
  children, an end.\<close>

datatype sax = Start_element string "(string \<times> string) list" | End_element string

fun sax_events :: "xmlnode \<Rightarrow> sax list" where
  "sax_events (Xml n as kids) = Start_element n as # concat (map sax_events kids) @ [End_element n]"

record loader =
  l_prefs :: prefs
  prefs_stack :: "string list"

text \<open>The loop over the attributes: name, type and value found, or \<open>None\<close> for the early return on
  a type it does not know.\<close>

fun scan_attribs ::
  "(string \<times> string) list \<Rightarrow> cstring \<Rightarrow> PurplePrefType \<Rightarrow> cstring \<Rightarrow>
   (cstring \<times> PurplePrefType \<times> cstring) option" where
  "scan_attribs [] n t v = Some (n, t, v)"
| "scan_attribs ((k, x) # as) n t v =
     (if k = ''name'' then scan_attribs as (Some x) t v
      else if k = ''type''
      then
        if x = ''bool'' then scan_attribs as n PURPLE_PREF_BOOLEAN v
        else if x = ''int'' then scan_attribs as n PURPLE_PREF_INT v
        else if x = ''string'' then scan_attribs as n PURPLE_PREF_STRING v
        else if x = ''stringlist'' then scan_attribs as n PURPLE_PREF_STRING_LIST v
        else if x = ''path'' then scan_attribs as n PURPLE_PREF_PATH v
        else if x = ''pathlist'' then scan_attribs as n PURPLE_PREF_PATH_LIST v
        else None
      else if k = ''value'' then scan_attribs as n t (Some x)
      else scan_attribs as n t v)"

text \<open>The full name of the node on top of the stack, and of a child of it.\<close>

definition stack_name :: "string list \<Rightarrow> string" where
  "stack_name stack = fold (\<lambda>s acc. CHR ''/'' # s @ acc) stack []"

definition child_full_name :: "string list \<Rightarrow> string \<Rightarrow> string" where
  "child_full_name stack n = stack_name (n # stack)"

definition load_item :: "prefs_env \<Rightarrow> cstring \<Rightarrow> loader \<Rightarrow> loader option" where
  "load_item E v l =
     (case find_pref (l_prefs l) (stack_name (prefs_stack l)) of
        None \<Rightarrow> Some l
      | Some a \<Rightarrow>
          (case nodes (l_prefs l) a of
             None \<Rightarrow> None
           | Some p \<Rightarrow>
               if p_type p = PURPLE_PREF_STRING_LIST \<or> p_type p = PURPLE_PREF_PATH_LIST
               then (case p_value p of
                       Stringlist xs \<Rightarrow>
                         let x = (if p_type p = PURPLE_PREF_STRING_LIST then v
                                  else Option.bind v (filename_from_utf8 E))
                         in Some (l\<lparr>l_prefs := set_node a (p\<lparr>p_value := Stringlist (xs @ [x])\<rparr>) (l_prefs l)\<rparr>)
                     | _ \<Rightarrow> None)
               else Some l))"

definition load_pref ::
  "prefs_env \<Rightarrow> addr \<Rightarrow> string \<Rightarrow> PurplePrefType \<Rightarrow> cstring \<Rightarrow> loader \<Rightarrow> loader option" where
  "load_pref E new n t v l =
     (let full = child_full_name (prefs_stack l) n;
          i = (case v of None \<Rightarrow> 0 | Some s \<Rightarrow> atoi s);
          st = l_prefs l
      in map_option (\<lambda>st'. l\<lparr>l_prefs := st', prefs_stack := n # prefs_stack l\<rparr>)
           (case t of
              PURPLE_PREF_NONE \<Rightarrow> purple_prefs_add_none new full st
            | PURPLE_PREF_BOOLEAN \<Rightarrow> purple_prefs_set_bool E new full i st
            | PURPLE_PREF_INT \<Rightarrow> purple_prefs_set_int E new full i st
            | PURPLE_PREF_STRING \<Rightarrow> purple_prefs_set_string E new full v st
            | PURPLE_PREF_STRING_LIST \<Rightarrow> purple_prefs_set_string_list E new full [] st
            | PURPLE_PREF_PATH \<Rightarrow> purple_prefs_set_path E new full (Option.bind v (filename_from_utf8 E)) st
            | PURPLE_PREF_PATH_LIST \<Rightarrow> purple_prefs_set_path_list E new full [] st))"

definition prefs_start_element_handler ::
  "prefs_env \<Rightarrow> addr \<Rightarrow> string \<Rightarrow> (string \<times> string) list \<Rightarrow> loader \<Rightarrow> loader option" where
  "prefs_start_element_handler E new element_name attribs l =
     (if element_name \<noteq> ''pref'' \<and> element_name \<noteq> ''item'' then Some l
      else
        (case scan_attribs attribs None PURPLE_PREF_NONE None of
           None \<Rightarrow> Some l
         | Some (n, t, v) \<Rightarrow>
             if (t = PURPLE_PREF_BOOLEAN \<or> t = PURPLE_PREF_INT) \<and> v = None then Some l
             else if element_name = ''item'' then load_item E v l
             else
               (case n of
                  None \<Rightarrow> Some l
                | Some n' \<Rightarrow> if n' = ''/'' then Some l else load_pref E new n' t v l)))"

definition prefs_end_element_handler :: "string \<Rightarrow> loader \<Rightarrow> loader" where
  "prefs_end_element_handler element_name l =
     (if prefs_stack l \<noteq> [] \<and> element_name = ''pref'' then l\<lparr>prefs_stack := tl (prefs_stack l)\<rparr> else l)"

text \<open>The calls for a whole document; \<open>alloc\<close> is the allocator.\<close>

fun run_sax :: "prefs_env \<Rightarrow> (prefs \<Rightarrow> addr) \<Rightarrow> sax list \<Rightarrow> loader \<Rightarrow> loader option" where
  "run_sax E alloc [] l = Some l"
| "run_sax E alloc (Start_element n as # es) l =
     Option.bind (prefs_start_element_handler E (alloc (l_prefs l)) n as l) (run_sax E alloc es)"
| "run_sax E alloc (End_element n # es) l = run_sax E alloc es (prefs_end_element_handler n l)"

definition purple_prefs_load :: "prefs_env \<Rightarrow> (prefs \<Rightarrow> addr) \<Rightarrow> xmlnode \<Rightarrow> prefs \<Rightarrow> prefs option" where
  "purple_prefs_load E alloc doc st =
     map_option (\<lambda>l. (l_prefs l)\<lparr>prefs_loaded := True\<rparr>)
       (run_sax E alloc (sax_events doc) \<lparr>l_prefs = st, prefs_stack = []\<rparr>)"

subsection \<open>Saving later, start and end\<close>

text \<open>The document that \<open>sync_prefs\<close> writes, if any; \<open>None\<close> outside for the use of a freed node.\<close>

definition sync_prefs :: "prefs_env \<Rightarrow> prefs \<Rightarrow> xmlnode option option" where
  "sync_prefs E st = (if \<not> prefs_loaded st then Some None else map_option Some (prefs_to_xmlnode E st))"

definition save_cb :: "prefs_env \<Rightarrow> prefs \<Rightarrow> (xmlnode option \<times> prefs) option" where
  "save_cb E st = map_option (\<lambda>doc. (doc, st\<lparr>save_timer := False\<rparr>)) (sync_prefs E st)"

text \<open>The address of a static variable.\<close>

definition purple_prefs_get_handle :: nat where
  "purple_prefs_get_handle = 1"

text \<open>Statements one after the other.\<close>

fun prefs_seq :: "(prefs \<Rightarrow> prefs option) list \<Rightarrow> prefs \<Rightarrow> prefs option" where
  "prefs_seq [] st = Some st"
| "prefs_seq (f # fs) st = Option.bind (f st) (prefs_seq fs)"

definition obsolete_prefs :: "string list" where
  "obsolete_prefs =
     [''/purple/away/auto_response/enabled'',
      ''/purple/away/auto_response/idle_only'',
      ''/purple/away/auto_response/in_active_conv'',
      ''/purple/away/auto_response/sec_before_resend'',
      ''/purple/away/auto_response'',
      ''/purple/away/default_message'',
      ''/purple/buddies/use_server_alias'',
      ''/purple/conversations/away_back_on_send'',
      ''/purple/conversations/send_urls_as_links'',
      ''/purple/conversations/im/show_login'',
      ''/purple/conversations/chat/show_join'',
      ''/purple/conversations/chat/show_leave'',
      ''/purple/conversations/combine_chat_im'',
      ''/purple/conversations/use_alias_for_title'',
      ''/purple/logging/log_signon_signoff'',
      ''/purple/logging/log_idle_state'',
      ''/purple/logging/log_away_state'',
      ''/purple/logging/log_own_states'',
      ''/purple/status/scores/hidden'',
      ''/plugins/core/autorecon/hide_connected_error'',
      ''/plugins/core/autorecon/hide_connecting_error'',
      ''/plugins/core/autorecon/hide_reconnecting_dialog'',
      ''/plugins/core/autorecon/restore_state'',
      ''/plugins/core/autorecon'']"

text \<open>Reading a preference before branching on it.\<close>

definition branch_on :: "(prefs \<Rightarrow> int option) \<Rightarrow> (prefs \<Rightarrow> prefs option) \<Rightarrow> (prefs \<Rightarrow> prefs option) \<Rightarrow> prefs \<Rightarrow> prefs option" where
  "branch_on c f g st = Option.bind (c st) (\<lambda>b. if b \<noteq> 0 then f st else g st)"

definition purple_prefs_update_old :: "prefs_env \<Rightarrow> (prefs \<Rightarrow> addr) \<Rightarrow> prefs \<Rightarrow> prefs option" where
  "purple_prefs_update_old E alloc =
     prefs_seq
       (purple_prefs_rename E ''/core'' ''/purple'' #
        map purple_prefs_remove obsolete_prefs @
        [\<lambda>st. if purple_prefs_exists st ''/purple/sound/while_away''
              then branch_on (\<lambda>st. purple_prefs_get_bool st ''/purple/sound/while_away'')
                     (\<lambda>st. purple_prefs_set_int E (alloc st) ''/purple/sound/while_status'' 3 st) Some st
              else Some st,
         purple_prefs_remove ''/purple/sound/while_away''])"

definition add_auto_reply :: "prefs_env \<Rightarrow> (prefs \<Rightarrow> addr) \<Rightarrow> prefs \<Rightarrow> prefs option" where
  "add_auto_reply E alloc st =
     (let add = \<lambda>v st. purple_prefs_add_string E (alloc st) ''/purple/away/auto_reply'' (Some v) st
      in if \<not> purple_prefs_exists st ''/purple/away/auto_response/enabled'' \<or>
            \<not> purple_prefs_exists st ''/purple/away/auto_response/idle_only''
         then add ''awayidle'' st
         else branch_on (\<lambda>st. purple_prefs_get_bool st ''/purple/away/auto_response/enabled'')
                (branch_on (\<lambda>st. purple_prefs_get_bool st ''/purple/away/auto_response/idle_only'')
                   (add ''awayidle'') (add ''away''))
                (add ''never'') st)"

definition add_default_prefs :: "prefs_env \<Rightarrow> (prefs \<Rightarrow> addr) \<Rightarrow> prefs \<Rightarrow> prefs option" where
  "add_default_prefs E alloc =
     (let none = \<lambda>x st. purple_prefs_add_none (alloc st) x st
      in prefs_seq
       [none ''/purple'', none ''/plugins'', none ''/plugins/core'', none ''/plugins/lopl'', none ''/plugins/prpl'',
        none ''/purple/away'',
        \<lambda>st. purple_prefs_add_string E (alloc st) ''/purple/away/idle_reporting'' (Some ''system'') st,
        \<lambda>st. purple_prefs_add_bool (alloc st) ''/purple/away/away_when_idle'' 1 st,
        \<lambda>st. purple_prefs_add_int (alloc st) ''/purple/away/mins_before_away'' 5 st,
        add_auto_reply E alloc,
        none ''/purple/buddies'',
        none ''/purple/contact'',
        \<lambda>st. purple_prefs_add_bool (alloc st) ''/purple/contact/last_match'' 0 st,
        purple_prefs_remove ''/purple/contact/offline_score'',
        purple_prefs_remove ''/purple/contact/away_score'',
        purple_prefs_remove ''/purple/contact/idle_score''])"

definition purple_prefs_init :: "prefs_env \<Rightarrow> (prefs \<Rightarrow> addr) \<Rightarrow> xmlnode \<Rightarrow> prefs \<Rightarrow> prefs option" where
  "purple_prefs_init E alloc doc st =
     prefs_seq
       [\<lambda>st. map_option snd (purple_prefs_connect_callback purple_prefs_get_handle ''/'' PREFS_SAVE_CB 0 st),
        add_default_prefs E alloc,
        purple_prefs_load E alloc doc,
        purple_prefs_update_old E alloc]
       (st\<lparr>prefs_hash := Map.empty\<rparr>)"

text \<open>The document written on the way out, and what is left.\<close>

definition purple_prefs_uninit :: "prefs_env \<Rightarrow> prefs \<Rightarrow> (xmlnode option \<times> prefs) option" where
  "purple_prefs_uninit E st =
     Option.bind (if save_timer st then save_cb E st else Some (None, st)) (\<lambda>(doc, st1).
       Option.bind (purple_prefs_disconnect_by_handle purple_prefs_get_handle st1) (\<lambda>st2.
         map_option (\<lambda>st3. (doc, st3\<lparr>prefs_hash := Map.empty\<rparr>))
           (purple_prefs_destroy (st2\<lparr>prefs_loaded := False\<rparr>))))"

end
