(* ===== verification/Purple_Prefs_Wf.thy ===== *)
theory Purple_Prefs_Wf
  imports Purple_Prefs "HOL-Library.Sublist"
begin

section \<open>Preferences: names and the shape of the tree\<close>

text \<open>
  Full names against paths of components, and the well-formedness of the tree: an assignment of
  paths to addresses under which parents, chains of children, names and the hash table agree.
  Adding, removing and connecting keep it, and removing a node always ends.
\<close>

subsection \<open>Names\<close>

definition good_part :: "string \<Rightarrow> bool" where
  "good_part n \<longleftrightarrow> n \<noteq> [] \<and> CHR ''/'' \<notin> set n"

definition full_name :: "string list \<Rightarrow> string" where
  "full_name ps = (if ps = [] then ''/'' else concat (map ((#) CHR ''/'') ps))"

definition join :: "string list \<Rightarrow> string" where
  "join ps = concat (map ((#) CHR ''/'') ps)"

lemma join_simps [simp]: "join [] = []" "join (p # ps) = CHR ''/'' # p @ join ps"
  "join (ps @ qs) = join ps @ join qs"
  by (simp_all add: join_def)

lemma full_name_join: "full_name ps = (if ps = [] then ''/'' else join ps)"
  by (simp add: full_name_def join_def)

lemma join_eq_Nil [simp]: "join ps = [] \<longleftrightarrow> ps = []"
  by (cases ps) simp_all

lemma basename_snoc [simp]:
  assumes "CHR ''/'' \<notin> set n"
  shows "get_path_basename (x @ CHR ''/'' # n) = n"
proof -
  have "takeWhile (\<lambda>c. c \<noteq> CHR ''/'') (rev n @ y) = rev n @ takeWhile (\<lambda>c. c \<noteq> CHR ''/'') y" for y
    using assms by (intro takeWhile_append2) auto
  then show ?thesis by (simp add: get_path_basename_def)
qed

lemma dirname_snoc [simp]:
  assumes "CHR ''/'' \<notin> set n"
  shows "get_path_dirname (x @ CHR ''/'' # n) = (if x = [] then ''/'' else x)"
proof -
  have "dropWhile (\<lambda>c. c \<noteq> CHR ''/'') (rev n @ y) = dropWhile (\<lambda>c. c \<noteq> CHR ''/'') y" for y
    using assms by (intro dropWhile_append2) auto
  then show ?thesis by (simp add: get_path_dirname_def)
qed

lemma full_name_snoc: "full_name (ps @ [n]) = join ps @ CHR ''/'' # n"
  by (simp add: full_name_join)

lemma join_snoc_inject:
  assumes "good_part m" "good_part n" "x @ CHR ''/'' # m = y @ CHR ''/'' # n"
  shows "x = y \<and> m = n"
proof -
  have "m = n"
    using basename_snoc [of m x] basename_snoc [of n y] assms by (simp add: good_part_def)
  then show ?thesis using assms(3) by simp
qed

lemma join_inject:
  "\<lbrakk>list_all good_part ps; list_all good_part qs; join ps = join qs\<rbrakk> \<Longrightarrow> ps = qs"
proof (induction ps arbitrary: qs rule: rev_induct)
  case Nil
  then show ?case by (cases qs) simp_all
next
  case (snoc m ps)
  from snoc.prems(3) have "qs \<noteq> []" by auto
  then obtain qs' n where q: "qs = qs' @ [n]" by (meson rev_exhaust)
  from snoc.prems q have "join ps = join qs' \<and> m = n"
    by (intro join_snoc_inject) simp_all
  then show ?case using snoc.IH [of qs'] snoc.prems(1,2) q by simp
qed

lemma root_name_not_join: "list_all good_part ps \<Longrightarrow> join ps \<noteq> ''/''"
  by (cases ps) (auto simp: good_part_def)

lemma full_name_inject:
  "\<lbrakk>list_all good_part ps; list_all good_part qs; full_name ps = full_name qs\<rbrakk> \<Longrightarrow> ps = qs"
  unfolding full_name_join
  by (metis join_inject root_name_not_join)

lemma full_name_eq_root [simp]: "list_all good_part ps \<Longrightarrow> full_name ps = ''/'' \<longleftrightarrow> ps = []"
  using root_name_not_join by (auto simp: full_name_join)

lemma full_name_Cons: "\<exists>r. full_name ps = CHR ''/'' # r"
  by (cases ps) (simp_all add: full_name_join)

text \<open>The names under a node: the prefix relation on paths, seen on full names.\<close>

lemma prefix_full_name:
  assumes "list_all good_part ps" "list_all good_part qs" "ps \<noteq> []" "qs \<noteq> []"
  shows "prefix ps qs \<longleftrightarrow> full_name qs = full_name ps \<or> prefix (full_name ps @ ''/'') (full_name qs)"
proof
  assume "prefix ps qs"
  then obtain r where "qs = ps @ r" by (auto simp: prefix_def)
  then show "full_name qs = full_name ps \<or> prefix (full_name ps @ ''/'') (full_name qs)"
    using assms by (cases r) (auto simp: full_name_join)
next
  assume a: "full_name qs = full_name ps \<or> prefix (full_name ps @ ''/'') (full_name qs)"
  have "prefix ps qs" if "prefix (join ps @ ''/'') (join qs)"
    using that assms(2)
  proof (induction qs rule: rev_induct)
    case Nil
    then show ?case by simp
  next
    case (snoc m qs)
    show ?case
    proof (cases "prefix (join ps @ ''/'') (join qs)")
      case True
      with snoc show ?thesis by simp
    next
      case False
      from snoc.prems obtain z where z: "join qs @ CHR ''/'' # m = (join ps @ ''/'') @ z"
        by (auto simp: prefix_def)
      have "CHR ''/'' \<notin> set m" using snoc.prems by (simp add: good_part_def)
      with z False have "join qs = join ps"
        by (auto simp: append_eq_append_conv2 prefix_def Cons_eq_append_conv append_eq_Cons_conv)
      then have "qs = ps" using snoc.prems assms(1) by (intro join_inject) simp_all
      then show ?thesis by simp
    qed
  qed
  with a assms show "prefix ps qs"
    by (auto simp: full_name_join dest: join_inject)
qed

subsection \<open>Well-formed trees\<close>

definition node_at :: "(addr \<Rightarrow> string list option) \<Rightarrow> addr \<Rightarrow> purple_pref \<Rightarrow> bool" where
  "node_at pt a p \<longleftrightarrow>
     (case p_parent p of
        None \<Rightarrow> a = prefs_root \<and> p_name p = None
      | Some b \<Rightarrow> (\<exists>ps n. pt b = Some ps \<and> pt a = Some (ps @ [n]) \<and> p_name p = Some n))"

text \<open>\<open>pt\<close> gives each address its path.\<close>

definition paths_ok :: "(addr \<Rightarrow> string list option) \<Rightarrow> bool" where
  "paths_ok pt \<longleftrightarrow>
     finite (dom pt) \<and> pt prefs_root = Some [] \<and>
     (\<forall>a b ps. pt a = Some ps \<longrightarrow> pt b = Some ps \<longrightarrow> a = b) \<and>
     (\<forall>a ps. pt a = Some ps \<longrightarrow> list_all good_part ps)"

definition links_ok :: "(addr \<Rightarrow> string list option) \<Rightarrow> (addr \<Rightarrow> purple_pref option) \<Rightarrow> bool" where
  "links_ok pt ns \<longleftrightarrow>
     (\<forall>a. ns a = None \<longleftrightarrow> pt a = None) \<and>
     (\<forall>a p. ns a = Some p \<longrightarrow> node_at pt a p) \<and>
     (\<forall>a p. ns a = Some p \<longrightarrow> distinct (p_children p) \<and>
        (\<forall>c. c \<in> set (p_children p) \<longleftrightarrow> (\<exists>q. ns c = Some q \<and> p_parent q = Some a)))"

definition hash_ok :: "(addr \<Rightarrow> string list option) \<Rightarrow> (string \<Rightarrow> addr option) \<Rightarrow> bool" where
  "hash_ok pt h \<longleftrightarrow> (\<forall>x a. h x = Some a \<longleftrightarrow> (\<exists>ps. ps \<noteq> [] \<and> pt a = Some ps \<and> x = full_name ps))"

definition ptree_ok :: "(addr \<Rightarrow> string list option) \<Rightarrow> prefs \<Rightarrow> bool" where
  "ptree_ok pt st \<longleftrightarrow> paths_ok pt \<and> links_ok pt (nodes st) \<and> hash_ok pt (prefs_hash st)"

text \<open>Callbacks have numbers of their own, up to the counter.\<close>

definition callbacks_ok :: "prefs \<Rightarrow> bool" where
  "callbacks_ok st \<longleftrightarrow>
     (\<forall>a p. nodes st a = Some p \<longrightarrow> distinct (map cb_id (p_callbacks p)) \<and>
        (\<forall>cb \<in> set (p_callbacks p). cb_id cb \<le> last_cb_id st)) \<and>
     (\<forall>a b p q. nodes st a = Some p \<longrightarrow> nodes st b = Some q \<longrightarrow> a \<noteq> b \<longrightarrow>
        cb_id ` set (p_callbacks p) \<inter> cb_id ` set (p_callbacks q) = {})"

definition prefs_wf :: "prefs \<Rightarrow> bool" where
  "prefs_wf st \<longleftrightarrow> (\<exists>pt. ptree_ok pt st) \<and> callbacks_ok st"

lemma callbacks_okD:
  assumes "callbacks_ok st" "nodes st a = Some p"
  shows "distinct (map cb_id (p_callbacks p))" "cb \<in> set (p_callbacks p) \<Longrightarrow> cb_id cb \<le> last_cb_id st"
    "nodes st b = Some q \<Longrightarrow> cb \<in> set (p_callbacks p) \<Longrightarrow> cb' \<in> set (p_callbacks q) \<Longrightarrow> cb_id cb = cb_id cb' \<Longrightarrow> a = b"
  using assms unfolding callbacks_ok_def by (blast, blast, metis IntI empty_iff imageI)

lemma set_mono_subseq: "subseq xs ys \<Longrightarrow> x \<in> set xs \<Longrightarrow> x \<in> set ys"
  using list_emb_set [of "(=)" xs ys x] by auto

lemma distinct_subseq: "subseq xs ys \<Longrightarrow> distinct ys \<Longrightarrow> distinct xs"
  by (induction rule: list_emb.induct) (auto dest: set_mono_subseq)

text \<open>Fewer callbacks, on the nodes there were, are still in order.\<close>

lemma callbacks_ok_fewer:
  assumes ok: "callbacks_ok st" and c: "last_cb_id st \<le> last_cb_id st'"
    and sub: "\<And>a p'. nodes st' a = Some p' \<Longrightarrow>
      p_callbacks p' = [] \<or> (\<exists>p. nodes st a = Some p \<and> subseq (p_callbacks p') (p_callbacks p))"
  shows "callbacks_ok st'"
  unfolding callbacks_ok_def
proof (intro conjI allI impI)
  fix a p' assume p': "nodes st' a = Some p'"
  show "distinct (map cb_id (p_callbacks p'))"
    using sub [OF p'] callbacks_okD(1) [OF ok] subseq_map [of _ _ cb_id] distinct_subseq by (metis distinct.simps(1) list.simps(8))
  show "\<forall>cb \<in> set (p_callbacks p'). cb_id cb \<le> last_cb_id st'"
    using sub [OF p'] callbacks_okD(2) [OF ok] c by (fastforce dest: set_mono_subseq)
next
  fix a b p' q' assume p': "nodes st' a = Some p'" and q': "nodes st' b = Some q'" and "a \<noteq> b"
  then show "cb_id ` set (p_callbacks p') \<inter> cb_id ` set (p_callbacks q') = {}"
    using sub [OF p'] sub [OF q'] callbacks_okD(3) [OF ok] by (fastforce dest: set_mono_subseq)
qed

lemma callbacks_ok_nodes:
  "\<lbrakk>callbacks_ok st; nodes st' = nodes st; last_cb_id st' = last_cb_id st\<rbrakk> \<Longrightarrow> callbacks_ok st'"
  by (simp add: callbacks_ok_def)

lemma callbacks_ok_value:
  "\<lbrakk>callbacks_ok st; nodes st a = Some p; nodes st' = (nodes st)(a \<mapsto> p\<lparr>p_value := v\<rparr>);
    last_cb_id st' = last_cb_id st\<rbrakk> \<Longrightarrow> callbacks_ok st'"
  by (rule callbacks_ok_fewer [of st]) (auto split: if_splits)

lemma ptree_okD:
  assumes "ptree_ok pt st"
  shows "pt prefs_root = Some []"
    and "\<And>a b ps. pt a = Some ps \<Longrightarrow> pt b = Some ps \<Longrightarrow> a = b"
    and "\<And>a ps. pt a = Some ps \<Longrightarrow> list_all good_part ps"
    and "\<And>a. nodes st a = None \<longleftrightarrow> pt a = None"
    and "\<And>a p. nodes st a = Some p \<Longrightarrow> node_at pt a p"
    and "\<And>a p. nodes st a = Some p \<Longrightarrow> distinct (p_children p)"
    and "\<And>a p c. nodes st a = Some p \<Longrightarrow>
           c \<in> set (p_children p) \<longleftrightarrow> (\<exists>q. nodes st c = Some q \<and> p_parent q = Some a)"
    and "\<And>x a. prefs_hash st x = Some a \<longleftrightarrow> (\<exists>ps. ps \<noteq> [] \<and> pt a = Some ps \<and> x = full_name ps)"
    and "finite (dom pt)"
  using assms unfolding ptree_ok_def paths_ok_def links_ok_def hash_ok_def by blast+

lemma ptree_ok_node:
  assumes "ptree_ok pt st" "pt a = Some ps"
  obtains p where "nodes st a = Some p" "node_at pt a p"
  using ptree_okD(4,5) [OF assms(1)] assms(2) by fastforce

lemma ptree_ok_path:
  assumes "ptree_ok pt st" "nodes st a = Some p"
  obtains ps where "pt a = Some ps" "list_all good_part ps"
  using ptree_okD(3,4) [OF assms(1)] assms(2) by (metis option.exhaust option.distinct(1))

lemma ptree_ok_child:
  assumes ok: "ptree_ok pt st" and p: "nodes st a = Some p" "pt a = Some ps" and c: "c \<in> set (p_children p)"
  obtains q n where "nodes st c = Some q" "p_parent q = Some a" "p_name q = Some n" "pt c = Some (ps @ [n])"
proof -
  from ptree_okD(7) [OF ok p(1)] c obtain q where q: "nodes st c = Some q" "p_parent q = Some a" by blast
  from ptree_okD(5) [OF ok q(1)] q(2) p(2) show thesis
    by (auto simp: node_at_def intro!: that [OF q])
qed

lemma ptree_ok_parent:
  assumes ok: "ptree_ok pt st" and a: "pt a = Some (ps @ [n])"
  obtains q b p where "nodes st a = Some q" "p_parent q = Some b" "p_name q = Some n" "pt b = Some ps"
    "nodes st b = Some p" "a \<in> set (p_children p)"
proof -
  obtain q where q: "nodes st a = Some q" "node_at pt a q" using ptree_ok_node [OF ok a] .
  have "a \<noteq> prefs_root" using ptree_okD(1) [OF ok] a by auto
  with q(2) a obtain b where b: "p_parent q = Some b" "p_name q = Some n" "pt b = Some ps"
    by (auto simp: node_at_def split: option.splits)
  obtain p where p: "nodes st b = Some p" using ptree_ok_node [OF ok b(3)] by metis
  with ptree_okD(7) [OF ok p] q b show thesis by (auto intro: that)
qed

lemma ptree_ok_prefix:
  assumes ok: "ptree_ok pt st"
  shows "\<lbrakk>pt b = Some qs; prefix ps qs\<rbrakk> \<Longrightarrow> \<exists>c. pt c = Some ps"
proof (induction qs arbitrary: b rule: rev_induct)
  case Nil
  then show ?case by auto
next
  case (snoc n qs)
  show ?case
  proof (cases "ps = qs @ [n]")
    case True
    with snoc.prems show ?thesis by blast
  next
    case False
    with snoc.prems have "prefix ps qs" by simp
    moreover obtain c where "pt c = Some qs" using ptree_ok_parent [OF ok snoc.prems(1)] by metis
    ultimately show ?thesis using snoc.IH by blast
  qed
qed

lemma find_pref_full_name:
  assumes ok: "ptree_ok pt st" and g: "list_all good_part ps"
  shows "find_pref st (full_name ps) = Some a \<longleftrightarrow> pt a = Some ps"
proof (cases "ps = []")
  case True
  then show ?thesis
    using ptree_okD(1,2) [OF ok] by (auto simp: find_pref_def full_name_join)
next
  case False
  then have "find_pref st (full_name ps) = prefs_hash st (full_name ps)"
    using full_name_Cons [of ps] full_name_eq_root [OF g] by (auto simp: find_pref_def)
  then show ?thesis
    using ptree_okD(3,8) [OF ok] g False full_name_inject by metis
qed

lemma find_pref_None:
  assumes "ptree_ok pt st" "list_all good_part ps"
  shows "find_pref st (full_name ps) = None \<longleftrightarrow> ps \<notin> ran pt"
  using find_pref_full_name [OF assms] by (auto simp: ran_def) (metis option.exhaust)

lemma find_pref_parent_full_name:
  "list_all good_part (ps @ [n]) \<Longrightarrow>
   find_pref_parent st (full_name (ps @ [n])) = find_pref st (full_name ps)"
  by (auto simp: find_pref_parent_def full_name_snoc good_part_def find_pref_def full_name_join root_name_not_join)

lemma basename_full_name [simp]: "good_part n \<Longrightarrow> get_path_basename (full_name (ps @ [n])) = n"
  by (simp add: full_name_snoc good_part_def)

text \<open>What well-formedness depends on: parents, names, chains of children and the table.\<close>

definition shape :: "prefs \<Rightarrow> (addr \<Rightarrow> (addr option \<times> cstring \<times> addr list) option) \<times> (string \<Rightarrow> addr option)" where
  "shape st = (\<lambda>a. map_option (\<lambda>p. (p_parent p, p_name p, p_children p)) (nodes st a), prefs_hash st)"

lemma links_ok_shape:
  "links_ok pt ns \<longleftrightarrow>
     (\<forall>a. map_option (\<lambda>p. (p_parent p, p_name p, p_children p)) (ns a) = None \<longleftrightarrow> pt a = None) \<and>
     (\<forall>a x n cs. map_option (\<lambda>p. (p_parent p, p_name p, p_children p)) (ns a) = Some (x, n, cs) \<longrightarrow>
        (case x of
           None \<Rightarrow> a = prefs_root \<and> n = None
         | Some b \<Rightarrow> (\<exists>ps m. pt b = Some ps \<and> pt a = Some (ps @ [m]) \<and> n = Some m)) \<and>
        distinct cs \<and>
        (\<forall>c. c \<in> set cs \<longleftrightarrow>
           (\<exists>m ds. map_option (\<lambda>p. (p_parent p, p_name p, p_children p)) (ns c) = Some (Some a, m, ds))))"
  by (simp add: links_ok_def node_at_def) blast

lemma ptree_ok_shape:
  assumes "shape st' = shape st"
  shows "ptree_ok pt st' \<longleftrightarrow> ptree_ok pt st"
proof -
  have n: "map_option (\<lambda>p. (p_parent p, p_name p, p_children p)) (nodes st' a) =
      map_option (\<lambda>p. (p_parent p, p_name p, p_children p)) (nodes st a)" for a
    using assms by (auto simp: shape_def fun_eq_iff)
  have "links_ok pt (nodes st') \<longleftrightarrow> links_ok pt (nodes st)"
    by (simp only: links_ok_shape n)
  then show ?thesis using assms by (simp add: ptree_ok_def shape_def)
qed

lemma prefs_wf_shape: "\<lbrakk>shape st' = shape st; callbacks_ok st'; prefs_wf st\<rbrakk> \<Longrightarrow> prefs_wf st'"
  unfolding prefs_wf_def using ptree_ok_shape by blast

lemma prefs_wf_update:
  "\<lbrakk>prefs_wf st; nodes st' = nodes st; prefs_hash st' = prefs_hash st; last_cb_id st' = last_cb_id st\<rbrakk> \<Longrightarrow> prefs_wf st'"
  using prefs_wf_shape [of st' st] callbacks_ok_nodes [of st st'] by (simp add: prefs_wf_def shape_def)

lemma shape_update [simp]:
  "shape (st\<lparr>save_timer := t\<rparr>) = shape st" "shape (st\<lparr>prefs_loaded := l\<rparr>) = shape st"
  "shape (st\<lparr>last_cb_id := i\<rparr>) = shape st" "shape (st\<lparr>notified := v\<rparr>) = shape st"
  by (simp_all add: shape_def)

lemma shape_set_node:
  "\<lbrakk>nodes st a = Some p; p_parent q = p_parent p; p_name q = p_name p; p_children q = p_children p\<rbrakk> \<Longrightarrow>
   shape (set_node a q st) = shape st"
  by (simp add: shape_def set_node_def fun_eq_iff)

subsection \<open>Adding\<close>

lemma name_taken_result:
  assumes "\<forall>c \<in> set cs. nodes st c \<noteq> None"
  shows "name_taken st n cs = Some (\<exists>c \<in> set cs. \<exists>q. nodes st c = Some q \<and> p_name q = Some n)"
  using assms by (induction cs) auto

lemma name_taken_path:
  assumes ok: "ptree_ok pt st" and p: "nodes st b = Some p" "pt b = Some ps"
  shows "name_taken st n (p_children p) = Some (ps @ [n] \<in> ran pt)"
proof -
  have "(\<exists>c \<in> set (p_children p). \<exists>q. nodes st c = Some q \<and> p_name q = Some n) \<longleftrightarrow> ps @ [n] \<in> ran pt"
  proof
    assume "\<exists>c \<in> set (p_children p). \<exists>q. nodes st c = Some q \<and> p_name q = Some n"
    then obtain c q where c: "c \<in> set (p_children p)" "nodes st c = Some q" "p_name q = Some n" by blast
    obtain q' m where "nodes st c = Some q'" "p_name q' = Some m" "pt c = Some (ps @ [m])"
      using ptree_ok_child [OF ok p c(1)] by metis
    with c have "pt c = Some (ps @ [n])" by simp
    then show "ps @ [n] \<in> ran pt" by (auto simp: ran_def)
  next
    assume "ps @ [n] \<in> ran pt"
    then obtain c where "pt c = Some (ps @ [n])" by (auto simp: ran_def)
    then show "\<exists>c \<in> set (p_children p). \<exists>q. nodes st c = Some q \<and> p_name q = Some n"
      using ptree_ok_parent [OF ok] ptree_okD(2) [OF ok p(2)] p(1) by (metis option.inject)
  qed
  moreover have "\<forall>c \<in> set (p_children p). nodes st c \<noteq> None"
    using ptree_ok_child [OF ok p] by (metis option.distinct(1))
  ultimately show ?thesis by (simp add: name_taken_result)
qed

text \<open>The three outcomes of adding under the full name of a path.\<close>

definition new_pref :: "PurplePrefType \<Rightarrow> string \<Rightarrow> addr \<Rightarrow> purple_pref" where
  "new_pref type n b = \<lparr>p_type = type, p_name = Some n, p_value = Generic 0, p_callbacks = [],
                        p_parent = Some b, p_children = []\<rparr>"

definition linked :: "addr \<Rightarrow> addr \<Rightarrow> purple_pref \<Rightarrow> purple_pref \<Rightarrow> string \<Rightarrow> prefs \<Rightarrow> prefs" where
  "linked a b pb q name st =
     st\<lparr>nodes := (nodes st)(b \<mapsto> pb\<lparr>p_children := p_children pb @ [a]\<rparr>, a \<mapsto> q),
        prefs_hash := (prefs_hash st)(name \<mapsto> a)\<rparr>"

lemma add_pref_result:
  assumes ok: "ptree_ok pt st" and g: "list_all good_part (ps @ [n])"
  shows "add_pref a type (full_name (ps @ [n])) st =
     (case find_pref st (full_name ps) of
        None \<Rightarrow> Some (None, st)
      | Some b \<Rightarrow>
          if ps @ [n] \<in> ran pt then Some (None, st)
          else Some (Some a, linked a b (the (nodes st b)) (new_pref type n b) (full_name (ps @ [n])) st))"
proof (cases "find_pref st (full_name ps)")
  case None
  then show ?thesis by (simp add: add_pref_def find_pref_parent_full_name [OF g])
next
  case (Some b)
  with g find_pref_full_name [OF ok] have b: "pt b = Some ps" by simp
  obtain p where p: "nodes st b = Some p" using ptree_ok_node [OF ok b] by metis
  show ?thesis
    using name_taken_path [OF ok p b, of n] p Some g
    by (simp add: add_pref_def find_pref_parent_full_name linked_def new_pref_def set_node_def)
qed

lemma ptree_ok_linked:
  assumes ok: "ptree_ok pt st" and g: "list_all good_part (ps @ [n])" and b: "pt b = Some ps"
    and pb: "nodes st b = Some pb" and new: "ps @ [n] \<notin> ran pt" and a: "nodes st a = None"
    and q: "p_parent q = Some b" "p_name q = Some n" "p_children q = []"
  shows "ptree_ok (pt(a \<mapsto> ps @ [n])) (linked a b pb q (full_name (ps @ [n])) st)"
proof -
  note D = ptree_okD [OF ok]
  have pa: "pt a = None" using D(4) a by blast
  with b have ab: "a \<noteq> b" by auto
  have ar: "a \<noteq> prefs_root" using D(1) pa by auto
  have no_child: "a \<notin> set (p_children p)" if "nodes st c = Some p" for c p
    using D(7) [OF that] a by simp
  have no_parent: "p_parent p \<noteq> Some a" if "nodes st c = Some p" for c p
    using D(5) [OF that] pa by (auto simp: node_at_def)
  have "paths_ok (pt(a \<mapsto> ps @ [n]))"
    using ok g new ar by (auto simp: ptree_ok_def paths_ok_def ran_def)
  moreover have "links_ok (pt(a \<mapsto> ps @ [n])) (nodes (linked a b pb q (full_name (ps @ [n])) st))"
    (is "links_ok ?pt ?ns")
  proof -
    have "?ns c = None \<longleftrightarrow> ?pt c = None" for c
      using D(4) [of c] b by (auto simp: linked_def)
    moreover have "node_at ?pt c p" if c: "?ns c = Some p" for c p
    proof (cases "c = a")
      case True
      with c q b ab show ?thesis by (simp add: linked_def node_at_def)
    next
      case False
      then obtain p' where p': "nodes st c = Some p'" "p_parent p = p_parent p'" "p_name p = p_name p'"
        using c pb by (auto simp: linked_def split: if_splits)
      show ?thesis
        using D(5) [OF p'(1)] no_parent [OF p'(1)] p'(2,3) False pa
        by (auto simp: node_at_def split: option.splits)
    qed
    moreover have "distinct (p_children p) \<and>
        (\<forall>c'. c' \<in> set (p_children p) \<longleftrightarrow> (\<exists>r. ?ns c' = Some r \<and> p_parent r = Some c))"
      if cp: "?ns c = Some p" for c p
    proof -
      have ex: "(\<exists>r. ?ns c' = Some r \<and> p_parent r = Some c) \<longleftrightarrow>
          (\<exists>r. nodes st c' = Some r \<and> p_parent r = Some c) \<or> c' = a \<and> c = b" for c'
        using pb q(1) a by (auto simp: linked_def)
      consider "c = a" "p = q" | "c = b" "p = pb\<lparr>p_children := p_children pb @ [a]\<rparr>"
        | "c \<noteq> a" "c \<noteq> b" "nodes st c = Some p"
        using cp by (auto simp: linked_def split: if_splits)
      then show ?thesis
      proof cases
        case 1
        then show ?thesis using q(3) no_parent ab unfolding ex by auto
      next
        case 2
        then show ?thesis using D(6,7) [OF pb] no_child [OF pb] unfolding ex by auto
      next
        case 3
        then show ?thesis using D(6,7) [OF 3(3)] unfolding ex by auto
      qed
    qed
    ultimately show ?thesis unfolding links_ok_def by blast
  qed
  moreover have "hash_ok (pt(a \<mapsto> ps @ [n])) (prefs_hash (linked a b pb q (full_name (ps @ [n])) st))"
  proof -
    have fresh: "full_name (ps @ [n]) \<noteq> full_name qs" if "pt c = Some qs" for c qs
      using full_name_inject [OF g D(3) [OF that]] that new by (auto simp: ran_def)
    have "prefs_hash st x \<noteq> Some a" for x using D(8) pa by simp
    then show ?thesis
      using D(8) fresh by (auto simp: hash_ok_def linked_def)
  qed
  ultimately show ?thesis by (simp add: ptree_ok_def)
qed

subsection \<open>Full names\<close>

definition names_ok :: "(addr \<Rightarrow> string list option) \<Rightarrow> prefs \<Rightarrow> bool" where
  "names_ok pt st \<longleftrightarrow>
     (\<forall>a. pt a = Some [] \<longleftrightarrow> a = prefs_root) \<and>
     (\<forall>a ps. pt a = Some ps \<longrightarrow> (\<exists>p. nodes st a = Some p \<and> node_at pt a p))"

lemma ptree_ok_root: "ptree_ok pt st \<Longrightarrow> pt a = Some ps \<Longrightarrow> a = prefs_root \<longleftrightarrow> ps = []"
  using ptree_okD(1,2) by fastforce

lemma ptree_ok_names:
  assumes "ptree_ok pt st"
  shows "names_ok pt st"
  unfolding names_ok_def
  using ptree_okD(1,2) [OF assms] ptree_ok_node [OF assms] by metis

lemma names_okE:
  assumes "names_ok pt st" "pt a = Some ps"
  obtains p where "nodes st a = Some p" "node_at pt a p" "a = prefs_root \<longleftrightarrow> ps = []"
proof -
  from assms(1) have r: "\<And>b. pt b = Some [] \<longleftrightarrow> b = prefs_root"
    and n: "\<And>b qs. pt b = Some qs \<Longrightarrow> \<exists>p. nodes st b = Some p \<and> node_at pt b p"
    unfolding names_ok_def by blast+
  obtain p where "nodes st a = Some p" "node_at pt a p" using n [OF assms(2)] by blast
  moreover have "a = prefs_root \<longleftrightarrow> ps = []" using r [of a] assms(2) by auto
  ultimately show thesis by (rule that)
qed

lemma names_ok_set_node:
  assumes "names_ok pt st" "nodes st a = Some p" "p_parent q = p_parent p" "p_name q = p_name p"
  shows "names_ok pt (set_node a q st)"
proof -
  have "node_at pt b q = node_at pt b p" for b
    by (simp only: node_at_def assms(3,4))
  then show ?thesis
    using assms(1,2) unfolding names_ok_def set_node_def by (auto split: if_splits)
qed

lemma full_name_loop_result:
  "\<lbrakk>names_ok pt st; pt a = Some ps\<rbrakk> \<Longrightarrow>
   map_option ((#) CHR ''/'') (full_name_loop st (Some a) acc) = Some (join ps @ CHR ''/'' # acc)"
proof (induction ps arbitrary: a acc rule: rev_induct)
  case Nil
  then obtain p where "nodes st a = Some p" "node_at pt a p" by (rule names_okE)
  with Nil show ?case
    by (subst full_name_loop.simps) (auto simp: node_at_def split: option.splits)
next
  case (snoc n ps)
  from snoc.prems obtain p where p: "nodes st a = Some p" "node_at pt a p" "a \<noteq> prefs_root"
    by (rule names_okE) simp
  show ?case
  proof (cases "p_parent p")
    case None
    with p show ?thesis by (simp add: node_at_def)
  next
    case (Some b)
    with p snoc.prems have "pt b = Some ps" "p_name p = Some n" by (auto simp: node_at_def)
    then show ?thesis
      using snoc.IH [of b "n @ CHR ''/'' # acc"] snoc.prems(1) p(1) Some
      by (subst full_name_loop.simps) simp
  qed
qed


text \<open>The code's walk up the parents gives back the path.\<close>

lemma pref_full_name_result:
  assumes n: "names_ok pt st" and a: "pt a = Some ps"
  shows "pref_full_name st a = Some (full_name ps)"
proof (cases "ps = []")
  case True
  with n a show ?thesis by (simp add: pref_full_name_def full_name_join names_ok_def)
next
  case False
  then obtain p where p: "nodes st a = Some p" "node_at pt a p" and r: "a \<noteq> prefs_root"
    using names_okE [OF n a] by metis
  with False r obtain b qs m where b: "p_parent p = Some b" "pt b = Some qs" "p_name p = Some m" "ps = qs @ [m]"
    using a by (auto simp: node_at_def split: option.splits)
  with p False r full_name_loop_result [OF n b(2), of m] show ?thesis
    by (simp add: pref_full_name_def full_name_snoc)
qed

subsection \<open>Removing\<close>

text \<open>The paths that are left once the node at \<open>ps\<close> and everything under it are gone.\<close>

definition without :: "string list \<Rightarrow> (addr \<Rightarrow> string list option) \<Rightarrow> addr \<Rightarrow> string list option" where
  "without ps pt a = (case pt a of None \<Rightarrow> None | Some qs \<Rightarrow> if qs \<noteq> [] \<and> prefix ps qs then None else Some qs)"

lemma without_eq_Some [simp]:
  "without ps pt a = Some qs \<longleftrightarrow> pt a = Some qs \<and> (qs = [] \<or> \<not> prefix ps qs)"
  by (auto simp: without_def split: option.splits)

lemma without_eq_None [simp]:
  "without ps pt a = None \<longleftrightarrow> (\<forall>qs. pt a = Some qs \<longrightarrow> qs \<noteq> [] \<and> prefix ps qs)"
  by (auto simp: without_def split: option.splits)

text \<open>What the surviving nodes keep: everything but their chains of children.\<close>

definition kept :: "purple_pref \<Rightarrow> purple_pref" where
  "kept p = p\<lparr>p_children := []\<rparr>"

definition frame_kept :: "prefs \<Rightarrow> prefs \<Rightarrow> bool" where
  "frame_kept st st' \<longleftrightarrow>
     (\<forall>a p'. nodes st' a = Some p' \<longrightarrow> (\<exists>p. nodes st a = Some p \<and> kept p' = kept p \<and>
        set (p_children p') \<subseteq> set (p_children p))) \<and>
     save_timer st' = save_timer st \<and> prefs_loaded st' = prefs_loaded st \<and>
     last_cb_id st' = last_cb_id st \<and> notified st' = notified st"

lemma frame_kept_refl [simp]: "frame_kept st st"
  by (simp add: frame_kept_def)

lemma frame_kept_trans:
  assumes "frame_kept st st1" "frame_kept st1 st2"
  shows "frame_kept st st2"
proof -
  have "\<exists>p. nodes st a = Some p \<and> kept p2 = kept p \<and> set (p_children p2) \<subseteq> set (p_children p)"
    if p2: "nodes st2 a = Some p2" for a p2
  proof -
    obtain p1 where p1: "nodes st1 a = Some p1" "kept p2 = kept p1" "set (p_children p2) \<subseteq> set (p_children p1)"
      using assms(2) p2 unfolding frame_kept_def by blast
    obtain p where "nodes st a = Some p" "kept p1 = kept p" "set (p_children p1) \<subseteq> set (p_children p)"
      using assms(1) p1(1) unfolding frame_kept_def by blast
    with p1 show ?thesis by auto
  qed
  then show ?thesis using assms by (simp add: frame_kept_def)
qed

lemma leaf_without:
  assumes ok: "ptree_ok pt st" and a: "nodes st a = Some p" "pt a = Some ps" "p_children p = []"
    and c: "pt c = Some qs" "prefix ps qs"
  shows "qs = ps"
proof (rule ccontr)
  assume ne: "qs \<noteq> ps"
  obtain n r where "qs = (ps @ [n]) @ r"
    using c(2) ne by (metis append.assoc append_Cons append_Nil append_Nil2 neq_Nil_conv prefixE)
  then obtain b where "pt b = Some (ps @ [n])" using ptree_ok_prefix [OF ok c(1)] by (metis prefixI)
  from ptree_ok_parent [OF ok this] a show False
    using ptree_okD(2) [OF ok a(2)] by (metis empty_iff list.set(1) option.inject)
qed

lemma unlink_pref_result:
  assumes ok: "ptree_ok pt st" and p: "nodes st a = Some p" and a: "pt a = Some (ps @ [n])"
    and leaf: "p_children p = []"
  obtains st' where "unlink_pref a p st = Some st'" "ptree_ok (without (ps @ [n]) pt) st'" "frame_kept st st'"
proof -
  note D = ptree_okD [OF ok]
  obtain b pb where b: "p_parent p = Some b" "p_name p = Some n" "pt b = Some ps" "nodes st b = Some pb"
      "a \<in> set (p_children pb)"
    using ptree_ok_parent [OF ok a] p by (metis option.inject)
  have ab: "a \<noteq> b" using a b(3) by auto
  let ?pb = "pb\<lparr>p_children := remove1 a (p_children pb)\<rparr>"
  let ?ns = "(nodes st)(b \<mapsto> ?pb, a := None)"
  define st' where "st' = st\<lparr>prefs_hash := (prefs_hash st)(full_name (ps @ [n]) := None), nodes := ?ns\<rparr>"
  have "pref_full_name (set_node b ?pb st) a = Some (full_name (ps @ [n]))"
    using names_ok_set_node [OF ptree_ok_names [OF ok] b(4), of ?pb] a
    by (intro pref_full_name_result [of pt]) simp_all
  then have run: "unlink_pref a p st = Some st'"
    using b by (simp add: unlink_pref_def st'_def set_node_def)
  have only_a: "without (ps @ [n]) pt = pt(a := None)"
  proof
    fix c
    show "without (ps @ [n]) pt c = (pt(a := None)) c"
      using leaf_without [OF ok p a leaf, of c] D(2) [OF a, of c] a
      by (cases "pt c") (auto simp: without_def)
  qed
  have no_parent: "p_parent q \<noteq> Some a" if "nodes st c = Some q" for c q
    using D(7) [OF p, of c] leaf that by auto
  have "paths_ok (pt(a := None))"
    using ok ptree_ok_root [OF ok a] unfolding ptree_ok_def paths_ok_def by auto
  moreover have "links_ok (pt(a := None)) ?ns"
  proof -
    have "?ns c = None \<longleftrightarrow> (pt(a := None)) c = None" for c
      using D(4) [of c] b by auto
    moreover have "node_at (pt(a := None)) c q" if c: "?ns c = Some q" for c q
    proof -
      from c b(4) obtain q' where "nodes st c = Some q'" "p_parent q = p_parent q'" "p_name q = p_name q'" "c \<noteq> a"
        by (auto split: if_splits)
      with D(5) [of c q'] no_parent [of c q'] show ?thesis
        by (auto simp: node_at_def split: option.splits)
    qed
    moreover have "distinct (p_children q) \<and>
        (\<forall>c'. c' \<in> set (p_children q) \<longleftrightarrow> (\<exists>r. ?ns c' = Some r \<and> p_parent r = Some c))"
      if c: "?ns c = Some q" for c q
    proof -
      have ex: "(\<exists>r. ?ns c' = Some r \<and> p_parent r = Some c) \<longleftrightarrow>
          (\<exists>r. nodes st c' = Some r \<and> p_parent r = Some c) \<and> c' \<noteq> a" for c'
        using b(4) by auto
      have "\<exists>q'. nodes st c = Some q' \<and> (c = b \<and> q' = pb \<and> q = ?pb \<or> c \<noteq> b \<and> q' = q)"
        using c b(4) by (auto split: if_splits)
      then obtain q' where q': "nodes st c = Some q'" "c = b \<and> q' = pb \<and> q = ?pb \<or> c \<noteq> b \<and> q' = q" by blast
      then have "a \<notin> set (p_children q)"
        using D(6) [OF b(4)] D(7) [OF q'(1), of a] p b(1) by (auto simp: in_set_remove1)
      with q' show ?thesis
        using D(6,7) [OF q'(1)] unfolding ex by auto
    qed
    ultimately show ?thesis unfolding links_ok_def by blast
  qed
  moreover have "hash_ok (pt(a := None)) ((prefs_hash st)(full_name (ps @ [n]) := None))"
  proof -
    have "full_name (ps @ [n]) \<noteq> full_name qs" if "pt c = Some qs" "c \<noteq> a" for c qs
      using full_name_inject [OF D(3) [OF a] D(3) [OF that(1)]] D(2) [OF a] that by blast
    note other = this
    have self: "prefs_hash st x = Some a \<longleftrightarrow> x = full_name (ps @ [n])" for x
      unfolding D(8) using a by simp
    have "((prefs_hash st)(full_name (ps @ [n]) := None)) x = Some c \<longleftrightarrow>
        (\<exists>qs. qs \<noteq> [] \<and> (pt(a := None)) c = Some qs \<and> x = full_name qs)" for x c
    proof (cases "x = full_name (ps @ [n])")
      case True
      then show ?thesis using other by auto
    next
      case False
      then have "c = a \<Longrightarrow> prefs_hash st x \<noteq> Some c" using self by simp
      then show ?thesis using False D(8) [of x c] by auto
    qed
    then show ?thesis by (simp only: hash_ok_def) blast
  qed
  ultimately have ok': "ptree_ok (without (ps @ [n]) pt) st'"
    by (simp add: only_a ptree_ok_def st'_def)
  have "frame_kept st st'"
    using b(4) by (auto simp: frame_kept_def st'_def kept_def dest: set_remove1_subset [THEN subsetD])
  with run ok' show thesis by (rule that)
qed

text \<open>Removing the node at \<open>ps\<close> ends, leaves exactly the paths that do not lie under it and keeps the
  surviving nodes; at the root everything but the root goes.\<close>

definition below :: "string list \<Rightarrow> (addr \<Rightarrow> string list option) \<Rightarrow> addr set" where
  "below ps pt = {b. \<exists>qs. pt b = Some qs \<and> prefix ps qs}"

lemma without_child:
  "without ps (without (ps @ [n]) pt) = without ps pt"
  by (rule ext) (auto simp: without_def split: option.splits dest: append_prefixD)

lemma below_child:
  assumes "pt a = Some ps"
  shows "below (ps @ [n]) pt \<subset> below ps pt"
proof -
  have "a \<in> below ps pt" "a \<notin> below (ps @ [n]) pt" using assms by (simp_all add: below_def)
  moreover have "below (ps @ [n]) pt \<subseteq> below ps pt" by (auto simp: below_def dest: append_prefixD)
  ultimately show ?thesis by blast
qed

lemma below_without_child:
  assumes "pt c = Some (ps @ [n])"
  shows "below ps (without (ps @ [n]) pt) \<subset> below ps pt"
proof -
  have "c \<in> below ps pt" "c \<notin> below ps (without (ps @ [n]) pt)" using assms by (simp_all add: below_def)
  moreover have "below ps (without (ps @ [n]) pt) \<subseteq> below ps pt" by (auto simp: below_def)
  ultimately show ?thesis by blast
qed

lemma remove_pref_result:
  assumes "ptree_ok pt st" "pt a = Some ps"
  shows "\<exists>st'. remove_pref a st = Some st' \<and> ptree_ok (without ps pt) st' \<and> frame_kept st st'"
  using assms
proof (induction "card (below ps pt)" arbitrary: a ps pt st rule: less_induct)
  case less
  note ok = less.prems(1) and a = less.prems(2)
  have fin: "finite (below ps pt)"
    using ptree_okD(9) [OF ok] by (rule finite_subset [rotated]) (auto simp: below_def)
  obtain p where p: "nodes st a = Some p" using ptree_ok_node [OF ok a] .
  show ?case
  proof (cases "p_children p")
    case (Cons c cs)
    obtain n where n: "pt c = Some (ps @ [n])"
      using ptree_ok_child [OF ok p a, of c] Cons by (metis list.set_intros(1))
    obtain st1 where st1: "remove_pref c st = Some st1" "ptree_ok (without (ps @ [n]) pt) st1" "frame_kept st st1"
      using less.hyps [OF _ ok n] psubset_card_mono [OF fin below_child [of pt a ps n]] a by blast
    have a1: "without (ps @ [n]) pt a = Some ps" using a by simp
    obtain st2 where st2: "remove_pref a st1 = Some st2" "ptree_ok (without ps (without (ps @ [n]) pt)) st2"
        "frame_kept st1 st2"
      using less.hyps [OF _ st1(2) a1] psubset_card_mono [OF fin below_without_child [of pt c ps n]] n by blast
    have "remove_pref a st = Some st2"
      using p Cons st1(1) st2(1) by (subst remove_pref.simps) simp
    then show ?thesis
      using st2(2) frame_kept_trans [OF st1(3) st2(3)] by (auto simp: without_child)
  next
    case Nil
    show ?thesis
    proof (cases "ps = []")
      case True
      then have "a = prefs_root" using ptree_ok_root [OF ok a] by simp
      moreover have "without ps pt = pt"
        using leaf_without [OF ok p a Nil] True by (intro ext) (fastforce simp: without_def split: option.splits)
      ultimately show ?thesis
        using p Nil ok by (subst remove_pref.simps) simp
    next
      case False
      then obtain qs n where q: "ps = qs @ [n]" by (meson rev_exhaust)
      obtain st' where "unlink_pref a p st = Some st'" "ptree_ok (without ps pt) st'" "frame_kept st st'"
        using unlink_pref_result [OF ok p _ Nil] a q by metis
      then show ?thesis
        using p Nil False ptree_ok_root [OF ok a] by (subst remove_pref.simps) simp
    qed
  qed
qed

end
