(* ===== verification/Purple_Prefs_Ops.thy ===== *)
theory Purple_Prefs_Ops
  imports Purple_Prefs_Wf
begin

section \<open>Preferences: every operation on well-formed trees\<close>

text \<open>
  On a well-formed tree every call returns: no freed node is used and every loop ends.  The value
  of a preference always is of the member of the union that its type names, and on names the tree
  is a map from full names to types and values, on which each call acts as its specification says.
  A changed value reaches exactly the callbacks on the node and on the nodes above it.
\<close>

subsection \<open>Who hears of a change\<close>

text \<open>Only the log and the save timer differ.\<close>

definition same_tree :: "prefs \<Rightarrow> prefs \<Rightarrow> bool" where
  "same_tree st st' \<longleftrightarrow> nodes st' = nodes st \<and> prefs_hash st' = prefs_hash st \<and>
     prefs_loaded st' = prefs_loaded st \<and> last_cb_id st' = last_cb_id st"

lemma same_tree_refl [simp]: "same_tree st st"
  by (simp add: same_tree_def)

lemma same_tree_shape: "same_tree st st' \<Longrightarrow> shape st' = shape st"
  by (simp add: same_tree_def shape_def)

lemma same_tree_wf: "same_tree st st' \<Longrightarrow> prefs_wf st \<Longrightarrow> prefs_wf st'"
  using prefs_wf_update [of st st'] by (simp add: same_tree_def)

text \<open>The callbacks that hear of a change at a path (reversed, the last component first): those of
  the node, of its parent and so on up to the root.\<close>

definition callbacks_at :: "prefs \<Rightarrow> string list \<Rightarrow> pref_callback list" where
  "callbacks_at st ps =
     (case find_pref st (full_name ps) of
        None \<Rightarrow> []
      | Some a \<Rightarrow> (case nodes st a of None \<Rightarrow> [] | Some p \<Rightarrow> p_callbacks p))"

fun heard :: "prefs \<Rightarrow> string list \<Rightarrow> pref_callback list" where
  "heard st [] = callbacks_at st []"
| "heard st (n # rps) = callbacks_at st (rev (n # rps)) @ heard st rps"

lemma callbacks_at_node:
  assumes "ptree_ok pt st" "pt a = Some ps" "nodes st a = Some p"
  shows "callbacks_at st ps = p_callbacks p"
proof -
  have "find_pref st (full_name ps) = Some a"
    using find_pref_full_name [OF assms(1) ptree_okD(3) [OF assms(1,2)]] assms(2) by blast
  then show ?thesis using assms(3) by (simp add: callbacks_at_def)
qed

lemma find_pref_cong: "prefs_hash st' = prefs_hash st \<Longrightarrow> find_pref st' x = find_pref st x"
  by (simp add: find_pref_def split: list.split)

text \<open>Whether one of the callbacks schedules a save.\<close>

definition saves :: "prefs \<Rightarrow> pref_callback list \<Rightarrow> bool" where
  "saves st cbs \<longleftrightarrow> prefs_loaded st \<and> (\<exists>cb \<in> set cbs. cb_func cb = PREFS_SAVE_CB)"

lemma prefs_save_cb_nodes [simp]:
  "nodes (prefs_save_cb st) = nodes st" "prefs_hash (prefs_save_cb st) = prefs_hash st"
  "prefs_loaded (prefs_save_cb st) = prefs_loaded st" "last_cb_id (prefs_save_cb st) = last_cb_id st"
  "notified (prefs_save_cb st) = notified st" "save_timer (prefs_save_cb st) = (save_timer st \<or> prefs_loaded st)"
  by (auto simp: prefs_save_cb_def schedule_prefs_save_def)

text \<open>The link after a callback, while it is in the list and when it has gone.\<close>

lemma next_callback_at:
  "distinct (map cb_id (pre @ cb # post)) \<Longrightarrow> next_callback (cb_id cb) (pre @ cb # post) = Some (first_callback post)"
  by (induction pre) (auto simp: first_callback_def)

lemma next_callback_gone: "i \<notin> cb_id ` set cbs \<Longrightarrow> next_callback i cbs = None"
  by (induction cbs) auto

lemma drop_callback_split:
  "drop_callback i cbs = Some cbs' \<Longrightarrow> \<exists>pre cb post. cbs = pre @ cb # post \<and> cb_id cb = i \<and> cbs' = pre @ post"
proof (induction cbs arbitrary: cbs')
  case (Cons c cbs)
  show ?case
  proof (cases "cb_id c = i")
    case True
    with Cons.prems show ?thesis by (intro exI [of _ "[]"]) auto
  next
    case False
    with Cons.prems obtain d where d: "drop_callback i cbs = Some d" "cbs' = c # d" by auto
    from Cons.IH [OF d(1)] obtain pre cb post where "cbs = pre @ cb # post" "cb_id cb = i" "d = pre @ post" by blast
    with d(2) show ?thesis by (intro exI [of _ "c # pre"] exI [of _ cb] exI [of _ post]) simp
  qed
qed simp

lemma drop_callback_None: "drop_callback i cbs = None \<longleftrightarrow> i \<notin> cb_id ` set cbs"
  by (induction cbs) auto

subsection \<open>Callbacks are taken off\<close>

text \<open>The nodes that a walk from the addresses \<open>todo\<close> visits, and how many they are.\<close>

definition nodes_under :: "(addr \<Rightarrow> string list option) \<Rightarrow> addr list \<Rightarrow> addr set" where
  "nodes_under pt todo = {b. \<exists>a \<in> set todo. \<exists>ps qs. pt a = Some ps \<and> pt b = Some qs \<and> prefix ps qs}"

definition weight :: "(addr \<Rightarrow> string list option) \<Rightarrow> addr list \<Rightarrow> nat" where
  "weight pt todo = sum_list (map (\<lambda>a. card (below (the (pt a)) pt)) todo)"

lemma finite_below: "ptree_ok pt st \<Longrightarrow> finite (below ps pt)"
  using ptree_okD(9) by (rule finite_subset [rotated]) (auto simp: below_def)

lemma same_length_prefix:
  "prefix (ps @ [m]) qs \<Longrightarrow> prefix (ps @ [n]) qs \<Longrightarrow> m = n"
  by (auto simp: prefix_def)

lemma below_split:
  assumes ok: "ptree_ok pt st" and a: "pt a = Some ps" "nodes st a = Some p"
  shows "below ps pt = insert a (\<Union>c \<in> set (p_children p). below (the (pt c)) pt)"
proof
  show "below ps pt \<subseteq> insert a (\<Union>c \<in> set (p_children p). below (the (pt c)) pt)"
  proof
    fix b assume "b \<in> below ps pt"
    then obtain r where r: "pt b = Some (ps @ r)" by (auto simp: below_def prefix_def)
    show "b \<in> insert a (\<Union>c \<in> set (p_children p). below (the (pt c)) pt)"
    proof (cases r)
      case Nil
      then show ?thesis using ptree_okD(2) [OF ok a(1), of b] r by simp
    next
      case (Cons n r')
      then have "prefix (ps @ [n]) (ps @ r)" by simp
      from ptree_ok_prefix [OF ok r this] obtain c where c: "pt c = Some (ps @ [n])" by blast
      then have "c \<in> set (p_children p)"
        using ptree_ok_parent [OF ok c] ptree_okD(2) [OF ok a(1)] a(2) by (metis option.inject)
      moreover have "b \<in> below (the (pt c)) pt"
        using r Cons c by (simp add: below_def)
      ultimately show ?thesis by blast
    qed
  qed
  show "insert a (\<Union>c \<in> set (p_children p). below (the (pt c)) pt) \<subseteq> below ps pt"
  proof -
    have "below (the (pt c)) pt \<subseteq> below ps pt" if c: "c \<in> set (p_children p)" for c
    proof -
      obtain n where "pt c = Some (ps @ [n])" using ptree_ok_child [OF ok a(2,1) c] by metis
      then show ?thesis by (auto simp: below_def dest: append_prefixD)
    qed
    then show ?thesis using a by (auto simp: below_def)
  qed
qed

lemma weight_children:
  assumes ok: "ptree_ok pt st" and a: "pt a = Some ps" "nodes st a = Some p"
  shows "weight pt (p_children p) < weight pt [a]"
proof -
  let ?b = "\<lambda>c. below (the (pt c)) pt"
  let ?U = "\<Union>c \<in> set (p_children p). ?b c"
  have path: "\<exists>n. pt c = Some (ps @ [n])" if "c \<in> set (p_children p)" for c
    using ptree_ok_child [OF ok a(2,1) that] by metis
  have "?b c \<inter> ?b d = {}" if cd: "c \<in> set (p_children p)" "d \<in> set (p_children p)" "c \<noteq> d" for c d
  proof -
    obtain m n where mn: "pt c = Some (ps @ [m])" "pt d = Some (ps @ [n])" using path cd by blast
    have "m \<noteq> n" using mn cd(3) ptree_okD(2) [OF ok mn(1), of d] by auto
    with mn show ?thesis by (auto simp: below_def dest: same_length_prefix)
  qed
  then have "card ?U = (\<Sum>c \<in> set (p_children p). card (?b c))"
    by (intro card_UN_disjoint) (simp_all add: finite_below [OF ok])
  also have "\<dots> = weight pt (p_children p)"
    using ptree_okD(6) [OF ok a(2)] by (simp add: weight_def sum_list_distinct_conv_sum_set)
  finally have 1: "card ?U = weight pt (p_children p)" .
  have "a \<notin> ?U"
    using path a(1) by (fastforce simp: below_def)
  then have "card (below ps pt) = Suc (card ?U)"
    unfolding below_split [OF ok a] by (simp add: finite_below [OF ok])
  with 1 a(1) show ?thesis by (simp add: weight_def)
qed

lemma weight_append [simp]: "weight pt (xs @ ys) = weight pt xs + weight pt ys"
  by (simp add: weight_def)

lemma weight_step:
  assumes "ptree_ok pt st" "pt a = Some ps" "nodes st a = Some p"
  shows "weight pt (p_children p @ rest) < weight pt (a # rest)"
  using weight_children [OF assms] weight_append [of pt "[a]" rest] by simp

lemma nodes_under_step:
  assumes ok: "ptree_ok pt st" and a: "pt a = Some ps" "nodes st a = Some p"
  shows "nodes_under pt (a # rest) = insert a (nodes_under pt (p_children p @ rest))"
proof -
  have cons: "nodes_under pt (c # todo) = below cs pt \<union> nodes_under pt todo" if "pt c = Some cs" for c cs todo
    using that by (auto simp: nodes_under_def below_def)
  have "nodes_under pt todo = (\<Union>c \<in> set todo. below (the (pt c)) pt)" if "set todo \<subseteq> dom pt" for todo
    using that by (induction todo) (auto simp: nodes_under_def [of _ "[]"] cons)
  moreover have "nodes_under pt (a # rest) = below ps pt \<union> nodes_under pt rest"
    using cons [OF a(1)] .
  moreover have "nodes_under pt (p_children p @ rest) = nodes_under pt (p_children p) \<union> nodes_under pt rest"
    by (auto simp: nodes_under_def)
  moreover have "set (p_children p) \<subseteq> dom pt"
    using ptree_ok_child [OF ok a(2,1)] by (metis domI subsetI)
  ultimately show ?thesis
    unfolding below_split [OF ok a] by auto
qed

lemma disco_callback_helper_result:
  assumes "ptree_ok pt st" "set todo \<subseteq> dom pt"
  shows "(disco_callback_helper i todo st = Some st \<and>
            (\<forall>a \<in> nodes_under pt todo. \<forall>p. nodes st a = Some p \<longrightarrow> drop_callback i (p_callbacks p) = None)) \<or>
         (\<exists>a p cbs. a \<in> nodes_under pt todo \<and> nodes st a = Some p \<and> drop_callback i (p_callbacks p) = Some cbs \<and>
            disco_callback_helper i todo st = Some (set_node a (p\<lparr>p_callbacks := cbs\<rparr>) st))"
    (is "?none todo \<or> ?one todo")
  using assms(2)
proof (induction "weight pt todo" arbitrary: todo rule: less_induct)
  case less
  show ?case
  proof (cases todo)
    case Nil
    then show ?thesis by (subst (1 2) disco_callback_helper.simps) (simp add: nodes_under_def)
  next
    case (Cons a rest)
    then obtain ps where a: "pt a = Some ps" using less.prems by auto
    obtain p where p: "nodes st a = Some p" using ptree_ok_node [OF assms(1) a] .
    have sub: "set (p_children p @ rest) \<subseteq> dom pt"
      using less.prems Cons ptree_ok_child [OF assms(1) p a] by (auto intro: domI) (metis)
    have lt: "weight pt (p_children p @ rest) < weight pt todo"
      using weight_step [OF assms(1) a p] Cons by simp
    have un: "nodes_under pt todo = insert a (nodes_under pt (p_children p @ rest))"
      using nodes_under_step [OF assms(1) a p] Cons by simp
    show ?thesis
    proof (cases "drop_callback i (p_callbacks p)")
      case None
      have "disco_callback_helper i todo st = disco_callback_helper i (p_children p @ rest) st"
        unfolding Cons using p None by (subst disco_callback_helper.simps) simp
      with less.hyps [OF lt sub] None p show ?thesis unfolding un by auto
    next
      case (Some cbs)
      have "disco_callback_helper i todo st = Some (set_node a (p\<lparr>p_callbacks := cbs\<rparr>) st)"
        unfolding Cons using p Some by (subst disco_callback_helper.simps) simp
      with p Some show ?thesis unfolding un by blast
    qed
  qed
qed

definition without_handle :: "nat \<Rightarrow> purple_pref \<Rightarrow> purple_pref" where
  "without_handle h p = p\<lparr>p_callbacks := filter (\<lambda>cb. cb_handle cb \<noteq> h) (p_callbacks p)\<rparr>"

lemma without_handle_idem [simp]: "without_handle h (without_handle h p) = without_handle h p"
  by (simp add: without_handle_def)

lemma disco_callback_helper_handle_result:
  "\<lbrakk>ptree_ok pt st; set todo \<subseteq> dom pt\<rbrakk> \<Longrightarrow>
   disco_callback_helper_handle h todo st =
     Some (st\<lparr>nodes := \<lambda>a. if a \<in> nodes_under pt todo then map_option (without_handle h) (nodes st a)
                               else nodes st a\<rparr>)"
proof (induction "weight pt todo" arbitrary: todo st rule: less_induct)
  case less
  note ok = less.prems(1)
  show ?case
  proof (cases todo)
    case Nil
    then show ?thesis by (subst disco_callback_helper_handle.simps) (simp add: nodes_under_def)
  next
    case (Cons a rest)
    then obtain ps where a: "pt a = Some ps" using less.prems by auto
    obtain p where p: "nodes st a = Some p" using ptree_ok_node [OF ok a] .
    let ?st1 = "set_node a (without_handle h p) st"
    have "shape ?st1 = shape st" by (rule shape_set_node [OF p]) (simp_all add: without_handle_def)
    then have ok1: "ptree_ok pt ?st1" using ptree_ok_shape ok by blast
    have sub: "set (p_children p @ rest) \<subseteq> dom pt"
      using less.prems Cons ptree_ok_child [OF ok p a] by (auto intro: domI) (metis)
    have lt: "weight pt (p_children p @ rest) < weight pt todo"
      using weight_step [OF ok a p] Cons by simp
    have un: "nodes_under pt todo = insert a (nodes_under pt (p_children p @ rest))"
      using nodes_under_step [OF ok a p] Cons by simp
    have "disco_callback_helper_handle h todo st = disco_callback_helper_handle h (p_children p @ rest) ?st1"
      unfolding Cons using p by (subst disco_callback_helper_handle.simps) (simp add: without_handle_def)
    also have "\<dots> = Some (?st1\<lparr>nodes := \<lambda>b. if b \<in> nodes_under pt (p_children p @ rest)
        then map_option (without_handle h) (nodes ?st1 b) else nodes ?st1 b\<rparr>)"
      by (rule less.hyps [OF lt ok1 sub])
    also have "\<dots> = Some (st\<lparr>nodes := \<lambda>b. if b \<in> nodes_under pt todo
        then map_option (without_handle h) (nodes st b) else nodes st b\<rparr>)"
      unfolding un using p by (auto simp: set_node_def intro!: prefs.equality)
    finally show ?thesis .
  qed
qed

lemma root_todo: "ptree_ok pt st \<Longrightarrow> set [prefs_root] \<subseteq> dom pt"
  using ptree_okD(1) by auto

text \<open>A callback that takes itself off is gone from its node's list.\<close>

lemma disconnect_own:
  assumes wf: "prefs_wf st" and p: "nodes st a = Some p" and cb: "cb \<in> set (p_callbacks p)"
  shows "\<exists>cbs. purple_prefs_disconnect_callback (cb_id cb) st = Some (set_node a (p\<lparr>p_callbacks := cbs\<rparr>) st) \<and>
    next_callback (cb_id cb) cbs = None"
proof -
  obtain pt where ok: "ptree_ok pt st" and co: "callbacks_ok st" using wf by (auto simp: prefs_wf_def)
  have "a \<in> nodes_under pt [prefs_root]"
    using p ptree_okD(1) [OF ok] ptree_okD(4) [OF ok, of a] by (cases "pt a") (auto simp: nodes_under_def)
  moreover have "drop_callback (cb_id cb) (p_callbacks p) \<noteq> None" using cb by (auto simp: drop_callback_None)
  ultimately obtain b q cbs where b: "nodes st b = Some q" "drop_callback (cb_id cb) (p_callbacks q) = Some cbs"
      "disco_callback_helper (cb_id cb) [prefs_root] st = Some (set_node b (q\<lparr>p_callbacks := cbs\<rparr>) st)"
    using disco_callback_helper_result [OF ok root_todo [OF ok], of "cb_id cb"] p by metis
  obtain pre cb' post where s: "p_callbacks q = pre @ cb' # post" "cb_id cb' = cb_id cb" "cbs = pre @ post"
    using drop_callback_split [OF b(2)] by blast
  have "cb' \<in> set (p_callbacks q)" using s(1) by simp
  from callbacks_okD(3) [OF co p b(1) cb this] s(2) have "b = a" by simp
  moreover have "next_callback (cb_id cb) cbs = None"
    using callbacks_okD(1) [OF co b(1)] s by (intro next_callback_gone) force
  ultimately show ?thesis using b p by (auto simp: purple_prefs_disconnect_callback_def)
qed

subsection \<open>Callbacks walk up the tree\<close>

text \<open>
  \<open>do_callbacks\<close> follows the links of lists that the callbacks may change.  The walk is regular
  while a callback is \<open>calm\<close>: it may change the state as far as \<open>keeps\<close> allows, which is not the lists,
  the parents and the value.  A callback that disconnects itself frees the link on which the walk
  stands.
\<close>

definition drops_itself :: "prefs_env \<Rightarrow> pref_callback \<Rightarrow> bool" where
  "drops_itself E cb \<longleftrightarrow> cb_func cb \<noteq> PREFS_SAVE_CB \<and>
     (\<forall>n t v st. on_change E cb n t v st = purple_prefs_disconnect_callback (cb_id cb) st)"

locale callback_walk =
  fixes E :: prefs_env
    and calm :: "pref_callback \<Rightarrow> bool"
    and keeps :: "prefs \<Rightarrow> prefs \<Rightarrow> bool"
  assumes keeps_tree: "same_tree st st' \<Longrightarrow> keeps st st'"
    and keeps_trans: "keeps st st1 \<Longrightarrow> keeps st1 st2 \<Longrightarrow> keeps st st2"
    and keeps_wf: "keeps st st' \<Longrightarrow> prefs_wf st \<Longrightarrow> prefs_wf st'"
    and keeps_loaded: "keeps st st' \<Longrightarrow> prefs_loaded st' = prefs_loaded st"
    and keeps_node: "keeps st st' \<Longrightarrow> nodes st a = Some p \<Longrightarrow>
      \<exists>p'. nodes st' a = Some p' \<and> p_type p' = p_type p \<and> p_value p' = p_value p \<and>
        p_callbacks p' = p_callbacks p \<and> p_parent p' = p_parent p"
    and calm_call: "calm cb \<Longrightarrow> prefs_wf st \<Longrightarrow>
      \<exists>st'. on_change E cb n t v st = Some st' \<and> keeps st st' \<and> notified st' = notified st \<and>
        save_timer st' = save_timer st"
begin

definition regular :: "pref_callback \<Rightarrow> bool" where
  "regular cb \<longleftrightarrow> cb_func cb = PREFS_SAVE_CB \<or> calm cb"

text \<open>What a walk over \<open>cbs\<close> leaves when it comes through.\<close>

definition told :: "string \<Rightarrow> purple_pref \<Rightarrow> pref_callback list \<Rightarrow> prefs \<Rightarrow> prefs \<Rightarrow> bool" where
  "told name q cbs st st' \<longleftrightarrow> keeps st st' \<and> (save_timer st' \<longleftrightarrow> save_timer st \<or> saves st cbs) \<and>
     notified st' = notified st @ map (\<lambda>cb. (cb_id cb, name, p_type q, p_value q)) cbs"

lemma told_append:
  assumes "told name q xs st st1" "told name q' ys st1 st2" "p_type q' = p_type q" "p_value q' = p_value q"
  shows "told name q (xs @ ys) st st2"
  using assms keeps_trans keeps_loaded [of st st1] by (auto simp: told_def saves_def)

lemma run_regular:
  assumes "regular cb" "prefs_wf st" "nodes st pref = Some q"
  shows "\<exists>st'. run_callback E name pref cb st = Some st' \<and> told name q [cb] st st'"
proof -
  let ?st = "st\<lparr>notified := notified st @ [(cb_id cb, name, p_type q, p_value q)]\<rparr>"
  have same: "same_tree st ?st" by (simp add: same_tree_def)
  show ?thesis
  proof (cases "cb_func cb = PREFS_SAVE_CB")
    case True
    have "same_tree st (prefs_save_cb ?st)" by (simp add: same_tree_def)
    with True assms(3) keeps_tree show ?thesis by (auto simp: run_callback_def told_def saves_def)
  next
    case False
    with assms(1) have "calm cb" by (simp add: regular_def)
    from calm_call [OF this same_tree_wf [OF same assms(2)]] obtain st' where
      "on_change E cb name (p_type q) (p_value q) ?st = Some st'" "keeps ?st st'" "notified st' = notified ?st"
      "save_timer st' = save_timer ?st" by blast
    with False assms(3) keeps_trans [OF keeps_tree [OF same]] show ?thesis
      by (auto simp: run_callback_def told_def saves_def)
  qed
qed

lemma run_drops:
  assumes "drops_itself E cb" "prefs_wf st" "nodes st pref = Some q" "nodes st a = Some p" "cb \<in> set (p_callbacks p)"
  shows "node_callbacks E name pref a (Some cb) st = None"
proof -
  let ?st = "st\<lparr>notified := notified st @ [(cb_id cb, name, p_type q, p_value q)]\<rparr>"
  have "prefs_wf ?st" using assms(2) same_tree_wf [of st ?st] by (simp add: same_tree_def)
  then obtain cbs where cbs: "next_callback (cb_id cb) cbs = None"
      "purple_prefs_disconnect_callback (cb_id cb) ?st = Some (set_node a (p\<lparr>p_callbacks := cbs\<rparr>) ?st)"
    using disconnect_own [of ?st a p cb] assms(4,5) by auto
  then have "run_callback E name pref cb st = Some (set_node a (p\<lparr>p_callbacks := cbs\<rparr>) ?st)"
    using assms(1,3) by (simp add: run_callback_def drops_itself_def Let_def)
  with cbs(1) show ?thesis by (subst node_callbacks.simps) (simp add: set_node_def)
qed

lemma node_callbacks_result:
  "\<lbrakk>prefs_wf st; nodes st pref = Some q; nodes st a = Some p; p_callbacks p = pre @ cbs;
    \<forall>cb \<in> set cbs. regular cb \<or> drops_itself E cb\<rbrakk> \<Longrightarrow>
   if \<exists>cb \<in> set cbs. drops_itself E cb then node_callbacks E name pref a (first_callback cbs) st = None
   else \<exists>st'. node_callbacks E name pref a (first_callback cbs) st = Some st' \<and> told name q cbs st st'"
proof (induction cbs arbitrary: st p q pre)
  case Nil
  then show ?case
    by (subst node_callbacks.simps) (simp add: first_callback_def told_def saves_def keeps_tree)
next
  case (Cons cb cbs)
  show ?case
  proof (cases "drops_itself E cb")
    case True
    with Cons.prems run_drops [OF True, of st pref q a p name] show ?thesis
      by (auto simp: first_callback_def)
  next
    case False
    with Cons.prems have "regular cb" by simp
    from run_regular [OF this Cons.prems(1,2)] obtain st1 where
      st1: "run_callback E name pref cb st = Some st1" "told name q [cb] st st1" by blast
    then have k: "keeps st st1" by (simp add: told_def)
    obtain q1 where q1: "nodes st1 pref = Some q1" "p_type q1 = p_type q" "p_value q1 = p_value q"
      using keeps_node [OF k Cons.prems(2)] by blast
    obtain p1 where p1: "nodes st1 a = Some p1" "p_callbacks p1 = p_callbacks p"
      using keeps_node [OF k Cons.prems(3)] by blast
    have d: "distinct (map cb_id (pre @ cb # cbs))"
      using callbacks_okD(1) [OF _ Cons.prems(3)] Cons.prems(1,4) by (simp add: prefs_wf_def)
    have step: "node_callbacks E name pref a (first_callback (cb # cbs)) st =
        node_callbacks E name pref a (first_callback cbs) st1"
      using st1(1) p1 Cons.prems(4) next_callback_at [OF d]
      by (subst node_callbacks.simps) (simp add: first_callback_def)
    have l: "p_callbacks p1 = (pre @ [cb]) @ cbs" using p1(2) Cons.prems(4) by simp
    note ih = Cons.IH [OF keeps_wf [OF k Cons.prems(1)] q1(1) p1(1) l]
    have "\<exists>st'. node_callbacks E name pref a (first_callback cbs) st1 = Some st' \<and> told name q (cb # cbs) st st'"
      if "\<not> (\<exists>cb \<in> set cbs. drops_itself E cb)"
      using that ih Cons.prems(5) told_append [OF st1(2) _ q1(2,3), of cbs] by auto
    with False ih Cons.prems(5) show ?thesis unfolding step by auto
  qed
qed

text \<open>The walk to the root: \<open>st0\<close> is the state in which it began.\<close>

lemma do_callbacks_loop_result:
  "\<lbrakk>ptree_ok pt st0; pt a = Some ps; keeps st0 st; prefs_wf st; nodes st pref = Some q;
    \<forall>cb \<in> set (heard st0 (rev ps)). regular cb \<or> drops_itself E cb\<rbrakk> \<Longrightarrow>
   if \<exists>cb \<in> set (heard st0 (rev ps)). drops_itself E cb then do_callbacks_loop E name pref (Some a) st = None
   else \<exists>st'. do_callbacks_loop E name pref (Some a) st = Some st' \<and> told name q (heard st0 (rev ps)) st st'"
proof (induction ps arbitrary: a st q rule: rev_induct)
  case Nil
  obtain p0 where p0: "nodes st0 a = Some p0" "node_at pt a p0" using ptree_ok_node [OF Nil(1,2)] .
  have "p_parent p0 = None" using p0(2) Nil(2) by (auto simp: node_at_def split: option.splits)
  then obtain p where p: "nodes st a = Some p" "p_callbacks p = p_callbacks p0" "p_parent p = None"
    using keeps_node [OF Nil(3) p0(1)] by auto
  have h: "heard st0 (rev []) = p_callbacks p" using callbacks_at_node [OF Nil(1,2) p0(1)] p(2) by simp
  note r = node_callbacks_result [OF Nil(4,5) p(1), of "[]" "p_callbacks p" name]
  have "\<exists>p1. nodes st1 a = Some p1 \<and> p_parent p1 = None" if "told name q (p_callbacks p) st st1" for st1
    using that keeps_node [OF _ p(1), of st1] p(3) by (auto simp: told_def)
  then show ?case
    using r Nil(6) p(1) unfolding h
    by (subst (1 2) do_callbacks_loop.simps) (fastforce simp: do_callbacks_loop.simps [of E name pref None])
next
  case (snoc n ps)
  obtain p0 b where p0: "nodes st0 a = Some p0" "p_parent p0 = Some b" "pt b = Some ps"
    using ptree_ok_parent [OF snoc.prems(1,2)] by metis
  obtain p where p: "nodes st a = Some p" "p_callbacks p = p_callbacks p0" "p_parent p = Some b"
    using keeps_node [OF snoc.prems(3) p0(1)] p0(2) by auto
  have h: "heard st0 (rev (ps @ [n])) = p_callbacks p @ heard st0 (rev ps)"
    using callbacks_at_node [OF snoc.prems(1,2) p0(1)] p(2) by simp
  have cls: "\<forall>cb \<in> set (p_callbacks p). regular cb \<or> drops_itself E cb"
      "\<forall>cb \<in> set (heard st0 (rev ps)). regular cb \<or> drops_itself E cb"
    using snoc.prems(6) unfolding h by auto
  note r = node_callbacks_result [OF snoc.prems(4,5) p(1), of "[]" "p_callbacks p" name, OF _ cls(1), simplified]
  show ?case
  proof (cases "\<exists>cb \<in> set (p_callbacks p). drops_itself E cb")
    case True
    with r p(1) have "do_callbacks_loop E name pref (Some a) st = None"
      by (subst do_callbacks_loop.simps) simp
    with True show ?thesis unfolding h by auto
  next
    case False
    with r obtain st1 where st1: "node_callbacks E name pref a (first_callback (p_callbacks p)) st = Some st1"
        "told name q (p_callbacks p) st st1" by auto
    then have k: "keeps st st1" by (simp add: told_def)
    obtain q1 where q1: "nodes st1 pref = Some q1" "p_type q1 = p_type q" "p_value q1 = p_value q"
      using keeps_node [OF k snoc.prems(5)] by blast
    obtain p1 where p1: "nodes st1 a = Some p1" "p_parent p1 = Some b" using keeps_node [OF k p(1)] p(3) by auto
    have step: "do_callbacks_loop E name pref (Some a) st = do_callbacks_loop E name pref (Some b) st1"
      using st1(1) p(1) p1 by (subst do_callbacks_loop.simps) simp
    note ih = snoc.IH [OF snoc.prems(1) p0(3) keeps_trans [OF snoc.prems(3) k] keeps_wf [OF k snoc.prems(4)] q1(1) cls(2)]
    show ?thesis unfolding h step
      using ih False told_append [OF st1(2) _ q1(2,3)] by (auto split: if_splits)
  qed
qed

lemma do_callbacks_result:
  assumes "ptree_ok pt st" "callbacks_ok st" "pt a = Some ps" "nodes st a = Some p"
    and "\<forall>cb \<in> set (heard st (rev ps)). regular cb \<or> drops_itself E cb"
  shows "if \<exists>cb \<in> set (heard st (rev ps)). drops_itself E cb then do_callbacks E name a st = None
    else \<exists>st'. do_callbacks E name a st = Some st' \<and> told name p (heard st (rev ps)) st st'"
proof -
  have "prefs_wf st" using assms(1,2) by (auto simp: prefs_wf_def)
  from do_callbacks_loop_result [OF assms(1,3) keeps_tree [OF same_tree_refl] this assms(4,5)]
  show ?thesis by (simp add: do_callbacks_def)
qed

text \<open>Storing a value and telling the callbacks.\<close>

lemma change_value_walk:
  assumes ok: "ptree_ok pt st" and co: "callbacks_ok st" and a: "pt a = Some ps" and p: "nodes st a = Some p"
    and cls: "\<forall>cb \<in> set (heard st (rev ps)). regular cb \<or> drops_itself E cb"
  shows "if \<exists>cb \<in> set (heard st (rev ps)). drops_itself E cb then change_value E name a v st = None
    else \<exists>st'. change_value E name a v st = Some st' \<and>
      told name (p\<lparr>p_value := v\<rparr>) (heard st (rev ps)) (set_node a (p\<lparr>p_value := v\<rparr>) st) st'"
proof -
  let ?p = "p\<lparr>p_value := v\<rparr>"
  let ?st1 = "set_node a ?p st"
  have shape: "shape ?st1 = shape st" by (rule shape_set_node [OF p]) simp_all
  then have ok1: "ptree_ok pt ?st1" using ptree_ok_shape ok by blast
  have co1: "callbacks_ok ?st1" by (rule callbacks_ok_value [OF co p]) (simp_all add: set_node_def)
  have "callbacks_at ?st1 qs = callbacks_at st qs" for qs
    using p find_pref_cong [of ?st1 st] by (simp add: callbacks_at_def set_node_def split: option.splits)
  then have heard: "heard ?st1 rps = heard st rps" for rps
    by (induction rps) simp_all
  have p1: "nodes ?st1 a = Some ?p" by (simp add: set_node_def)
  have run: "change_value E name a v st = do_callbacks E name a ?st1"
    using p by (simp add: change_value_def set_value_def)
  show ?thesis
    using do_callbacks_result [OF ok1 co1 a p1, of name] cls unfolding heard run by blast
qed

end

text \<open>Callbacks that leave the preferences alone.\<close>

definition leaves_alone :: "prefs_env \<Rightarrow> pref_callback \<Rightarrow> bool" where
  "leaves_alone E cb \<longleftrightarrow> (\<forall>n t v st. on_change E cb n t v st = Some st)"

definition quiet_env :: "prefs_env \<Rightarrow> bool" where
  "quiet_env E \<longleftrightarrow> (\<forall>cb. leaves_alone E cb)"

interpretation alone: callback_walk E "leaves_alone E" same_tree for E
proof
  show "same_tree st st' \<Longrightarrow> prefs_wf st \<Longrightarrow> prefs_wf st'" for st st' by (rule same_tree_wf)
qed (auto simp: same_tree_def leaves_alone_def)

text \<open>Callbacks that may add preferences too.\<close>

definition keeps_prefs :: "prefs \<Rightarrow> prefs \<Rightarrow> bool" where
  "keeps_prefs st st' \<longleftrightarrow> (prefs_wf st \<longrightarrow> prefs_wf st') \<and> prefs_loaded st' = prefs_loaded st \<and>
     (\<forall>a p. nodes st a = Some p \<longrightarrow>
        (\<exists>p'. nodes st' a = Some p' \<and> p_type p' = p_type p \<and> p_value p' = p_value p \<and>
          p_callbacks p' = p_callbacks p \<and> p_parent p' = p_parent p))"

lemma keeps_prefs_trans:
  assumes "keeps_prefs st st1" "keeps_prefs st1 st2"
  shows "keeps_prefs st st2"
proof -
  have "\<exists>p'. nodes st2 a = Some p' \<and> p_type p' = p_type p \<and> p_value p' = p_value p \<and>
      p_callbacks p' = p_callbacks p \<and> p_parent p' = p_parent p" if p: "nodes st a = Some p" for a p
  proof -
    obtain p1 where p1: "nodes st1 a = Some p1" "p_type p1 = p_type p" "p_value p1 = p_value p"
        "p_callbacks p1 = p_callbacks p" "p_parent p1 = p_parent p"
      using assms(1) p unfolding keeps_prefs_def by blast
    obtain p2 where "nodes st2 a = Some p2" "p_type p2 = p_type p1" "p_value p2 = p_value p1"
        "p_callbacks p2 = p_callbacks p1" "p_parent p2 = p_parent p1"
      using assms(2) p1(1) unfolding keeps_prefs_def by blast
    with p1 show ?thesis by simp
  qed
  then show ?thesis using assms by (simp add: keeps_prefs_def)
qed

definition adds_only :: "prefs_env \<Rightarrow> pref_callback \<Rightarrow> bool" where
  "adds_only E cb \<longleftrightarrow> (\<forall>n t v st. prefs_wf st \<longrightarrow>
     (\<exists>st'. on_change E cb n t v st = Some st' \<and> keeps_prefs st st' \<and> notified st' = notified st \<and>
        save_timer st' = save_timer st))"

interpretation adding: callback_walk E "adds_only E" keeps_prefs for E
proof
  show "same_tree st st' \<Longrightarrow> keeps_prefs st st'" for st st'
    using same_tree_wf [of st st'] by (simp add: keeps_prefs_def same_tree_def)
  show "keeps_prefs st st1 \<Longrightarrow> keeps_prefs st1 st2 \<Longrightarrow> keeps_prefs st st2" for st st1 st2
    by (rule keeps_prefs_trans)
qed (simp_all add: keeps_prefs_def adds_only_def)

text \<open>A quiet environment: the tree stays, everybody is told.\<close>

lemma quiet_regular:
  assumes "quiet_env E"
  shows "alone.regular E cb" "prefs_wf st \<Longrightarrow> nodes st a = Some p \<Longrightarrow> cb \<in> set (p_callbacks p) \<Longrightarrow> \<not> drops_itself E cb"
proof -
  show "alone.regular E cb" using assms by (simp add: alone.regular_def quiet_env_def)
  assume wf: "prefs_wf st" and p: "nodes st a = Some p" and cb: "cb \<in> set (p_callbacks p)"
  show "\<not> drops_itself E cb"
  proof
    assume "drops_itself E cb"
    then have "purple_prefs_disconnect_callback (cb_id cb) st = Some st"
      using assms by (metis drops_itself_def leaves_alone_def quiet_env_def)
    moreover obtain cbs where cbs: "next_callback (cb_id cb) cbs = None"
        "purple_prefs_disconnect_callback (cb_id cb) st = Some (set_node a (p\<lparr>p_callbacks := cbs\<rparr>) st)"
      using disconnect_own [OF wf p cb] by blast
    ultimately have "nodes (set_node a (p\<lparr>p_callbacks := cbs\<rparr>) st) a = nodes st a" by simp
    then have "p\<lparr>p_callbacks := cbs\<rparr> = p" using p by (simp add: set_node_def)
    then have "p_callbacks p = cbs" by (metis purple_pref.select_convs(4) purple_pref.surjective purple_pref.update_convs(4))
    moreover obtain pre post where "p_callbacks p = pre @ cb # post" using split_list [OF cb] by blast
    moreover have "distinct (map cb_id (p_callbacks p))" using wf callbacks_okD(1) [OF _ p] by (simp add: prefs_wf_def)
    ultimately show False using cbs(1) next_callback_at [of pre cb post] by simp
  qed
qed

lemma heard_in_node:
  assumes "cb \<in> set (heard st rps)"
  obtains a p where "nodes st a = Some p" "cb \<in> set (p_callbacks p)"
proof -
  have at: "\<exists>a p. nodes st a = Some p \<and> cb \<in> set (p_callbacks p)" if "cb \<in> set (callbacks_at st ps)" for ps
  proof (cases "find_pref st (full_name ps)")
    case (Some a)
    with that show ?thesis by (cases "nodes st a") (auto simp: callbacks_at_def)
  qed (use that in \<open>simp add: callbacks_at_def\<close>)
  have "\<exists>a p. nodes st a = Some p \<and> cb \<in> set (p_callbacks p)"
    using assms by (induction rps) (use at in auto)
  then show thesis using that by blast
qed

lemma do_callbacks_quiet:
  assumes q: "quiet_env E" and ok: "ptree_ok pt st" and co: "callbacks_ok st" and a: "pt a = Some ps"
    and p: "nodes st a = Some p"
  shows "\<exists>st'. do_callbacks E name a st = Some st' \<and> same_tree st st'"
proof -
  have wf: "prefs_wf st" using ok co by (auto simp: prefs_wf_def)
  have none: "\<not> drops_itself E cb" if "cb \<in> set (heard st (rev ps))" for cb
    using heard_in_node [OF that] quiet_regular(2) [OF q wf] by metis
  have "\<forall>cb \<in> set (heard st (rev ps)). alone.regular E cb \<or> drops_itself E cb"
    using quiet_regular(1) [OF q] by blast
  from alone.do_callbacks_result [OF ok co a p this, of name] none show ?thesis
    by (auto simp: alone.told_def)
qed

lemma change_value_result:
  assumes q: "quiet_env E" and ok: "ptree_ok pt st" and co: "callbacks_ok st" and a: "pt a = Some ps"
    and p: "nodes st a = Some p"
  shows "\<exists>st'. change_value E name a v st = Some st' \<and> ptree_ok pt st' \<and> callbacks_ok st' \<and>
     nodes st' = (nodes st)(a \<mapsto> p\<lparr>p_value := v\<rparr>) \<and> prefs_hash st' = prefs_hash st \<and>
     prefs_loaded st' = prefs_loaded st \<and> last_cb_id st' = last_cb_id st"
proof -
  let ?st1 = "set_node a (p\<lparr>p_value := v\<rparr>) st"
  have shape: "shape ?st1 = shape st" by (rule shape_set_node [OF p]) simp_all
  then have ok1: "ptree_ok pt ?st1" using ptree_ok_shape ok by blast
  have co1: "callbacks_ok ?st1" by (rule callbacks_ok_value [OF co p]) (simp_all add: set_node_def)
  obtain st' where st': "do_callbacks E name a ?st1 = Some st'" "same_tree ?st1 st'"
    using do_callbacks_quiet [OF q ok1 co1 a, of "p\<lparr>p_value := v\<rparr>" name] by (auto simp: set_node_def)
  have "ptree_ok pt st'" using ptree_ok_shape [OF same_tree_shape [OF st'(2)]] ok1 by blast
  moreover have "callbacks_ok st'" using callbacks_ok_nodes [OF co1] st'(2) by (simp add: same_tree_def)
  ultimately show ?thesis
    using st' p by (simp add: change_value_def set_value_def same_tree_def set_node_def)
qed

end
