(* ===== verification/Purple_Prefs_Map.thy ===== *)
theory Purple_Prefs_Map
  imports Purple_Prefs_Ops
begin

section \<open>Preferences as a typed map from full names\<close>

text \<open>
  What a caller of \<open>prefs.h\<close> sees: a map from full names to a type and a value.  The calls of the
  interface are a datatype, each with its specification on the map; the tree of nodes implements
  them, and the member of the union in use always is the one of the node's type.
\<close>

subsection \<open>The abstract view\<close>

type_synonym pref_view = "string \<Rightarrow> (PurplePrefType \<times> pref_value) option"

definition pref_map :: "prefs \<Rightarrow> pref_view" where
  "pref_map st x =
     (case prefs_hash st x of
        None \<Rightarrow> None
      | Some a \<Rightarrow> map_option (\<lambda>p. (p_type p, p_value p)) (nodes st a))"

fun value_fits :: "PurplePrefType \<Rightarrow> pref_value \<Rightarrow> bool" where
  "value_fits PURPLE_PREF_NONE v = True"
| "value_fits PURPLE_PREF_BOOLEAN (Boolean b) = True"
| "value_fits PURPLE_PREF_INT (Integer i) = True"
| "value_fits PURPLE_PREF_STRING (String s) = True"
| "value_fits PURPLE_PREF_PATH (String s) = True"
| "value_fits PURPLE_PREF_STRING_LIST (Stringlist l) = True"
| "value_fits PURPLE_PREF_PATH_LIST (Stringlist l) = True"
| "value_fits _ _ = False"

definition prefs_typed :: "prefs \<Rightarrow> bool" where
  "prefs_typed st \<longleftrightarrow> (\<forall>a p. nodes st a = Some p \<longrightarrow> value_fits (p_type p) (p_value p))"

definition pref_name :: "string \<Rightarrow> bool" where
  "pref_name x \<longleftrightarrow> (\<exists>ps. ps \<noteq> [] \<and> list_all good_part ps \<and> x = full_name ps)"

definition spec_add :: "PurplePrefType \<Rightarrow> pref_value \<Rightarrow> string \<Rightarrow> pref_view \<Rightarrow> pref_view" where
  "spec_add t v x m =
     (if m x \<noteq> None \<or> get_path_dirname x \<noteq> ''/'' \<and> m (get_path_dirname x) = None then m
      else m(x \<mapsto> (t, v)))"

definition spec_set :: "PurplePrefType set \<Rightarrow> PurplePrefType \<Rightarrow> pref_value \<Rightarrow> string \<Rightarrow> pref_view \<Rightarrow> pref_view" where
  "spec_set ts t v x m =
     (case m x of
        None \<Rightarrow> spec_add t v x m
      | Some (t', v') \<Rightarrow> if t' \<in> ts then m(x \<mapsto> (t', v)) else m)"

definition spec_remove :: "string \<Rightarrow> pref_view \<Rightarrow> pref_view" where
  "spec_remove x m = (\<lambda>y. if x = ''/'' \<or> y = x \<or> prefix (x @ ''/'') y then None else m y)"

text \<open>The view of a well-formed tree, path by path.\<close>

lemma hash_path:
  assumes "ptree_ok pt st" "pt a = Some ps" "ps \<noteq> []"
  shows "prefs_hash st (full_name ps) = Some a"
  using ptree_okD(8) [OF assms(1)] assms(2,3) by blast

lemma pref_map_path:
  assumes "ptree_ok pt st" "pt a = Some ps" "ps \<noteq> []" "nodes st a = Some p"
  shows "pref_map st (full_name ps) = Some (p_type p, p_value p)"
  using hash_path [OF assms(1-3)] assms(4) by (simp add: pref_map_def)

lemma pref_map_None:
  assumes ok: "ptree_ok pt st" and g: "list_all good_part ps" "ps \<noteq> []"
  shows "pref_map st (full_name ps) = None \<longleftrightarrow> ps \<notin> ran pt"
proof
  assume "ps \<notin> ran pt"
  then have "prefs_hash st (full_name ps) = None"
    using ptree_okD(3,8) [OF ok] g full_name_inject by (metis not_None_eq ranI)
  then show "pref_map st (full_name ps) = None" by (simp add: pref_map_def)
next
  assume n: "pref_map st (full_name ps) = None"
  show "ps \<notin> ran pt"
  proof
    assume "ps \<in> ran pt"
    then obtain a where a: "pt a = Some ps" by (auto simp: ran_def)
    obtain p where "nodes st a = Some p" using ptree_ok_node [OF ok a] .
    from pref_map_path [OF ok a g(2) this] n show False by simp
  qed
qed

lemma pref_map_value:
  assumes ok: "ptree_ok pt st" and a: "pt a = Some ps" "ps \<noteq> []" "nodes st a = Some p"
    and st': "nodes st' = (nodes st)(a \<mapsto> p\<lparr>p_value := v\<rparr>)" "prefs_hash st' = prefs_hash st"
  shows "pref_map st' = (pref_map st)(full_name ps \<mapsto> (p_type p, v))"
proof
  fix x
  show "pref_map st' x = ((pref_map st)(full_name ps \<mapsto> (p_type p, v))) x"
  proof (cases "prefs_hash st x = Some a")
    case True
    then have "x = full_name ps" using ptree_okD(8) [OF ok] a(1) by auto
    with True st' show ?thesis by (simp add: pref_map_def)
  next
    case False
    with hash_path [OF ok a(1,2)] st' show ?thesis
      by (auto simp: pref_map_def split: option.splits)
  qed
qed

lemma pref_map_linked:
  assumes ok: "ptree_ok pt st" and pb: "nodes st b = Some pb" and a: "nodes st a = None"
  shows "pref_map (linked a b pb q x st) = (pref_map st)(x \<mapsto> (p_type q, p_value q))"
proof
  fix y
  have "prefs_hash st y \<noteq> Some a" using ptree_okD(4,8) [OF ok] a by (metis option.distinct(1))
  then show "pref_map (linked a b pb q x st) y = ((pref_map st)(x \<mapsto> (p_type q, p_value q))) y"
    using pb by (auto simp: pref_map_def linked_def split: option.splits)
qed

lemma pref_map_same: "nodes st' = nodes st \<Longrightarrow> prefs_hash st' = prefs_hash st \<Longrightarrow> pref_map st' = pref_map st"
  by (simp add: pref_map_def fun_eq_iff split: option.split)

subsection \<open>What a call leaves behind\<close>

text \<open>A call returned, kept the tree well formed and its values typed, and did what the
  specification says.\<close>

definition leads_to :: "prefs option \<Rightarrow> pref_view \<Rightarrow> bool" where
  "leads_to r m \<longleftrightarrow> (\<exists>st'. r = Some st' \<and> prefs_wf st' \<and> prefs_typed st' \<and> pref_map st' = m)"

lemma leads_to_same [simp]:
  "\<lbrakk>prefs_wf st; prefs_typed st\<rbrakk> \<Longrightarrow> leads_to (Some st) m \<longleftrightarrow> pref_map st = m"
  by (simp add: leads_to_def)

lemma add_with_value_result:
  assumes ok: "ptree_ok pt st" and g: "list_all good_part (ps @ [n])" and a: "nodes st a = None"
  shows "add_with_value a t (full_name (ps @ [n])) v st =
     (case find_pref st (full_name ps) of
        None \<Rightarrow> Some st
      | Some b \<Rightarrow>
          if ps @ [n] \<in> ran pt then Some st
          else Some (linked a b (the (nodes st b)) ((new_pref t n b)\<lparr>p_value := v\<rparr>) (full_name (ps @ [n])) st))"
  by (simp add: add_with_value_def add_pref_result [OF ok g] split: option.split)
     (auto simp: set_value_def linked_def set_node_def)

lemma linked_leads_to:
  assumes ok: "ptree_ok pt st" and co: "callbacks_ok st" and ty: "prefs_typed st" and g: "list_all good_part (ps @ [n])"
    and a: "nodes st a = None" and fits: "value_fits t v"
  shows "leads_to
     (case find_pref st (full_name ps) of
        None \<Rightarrow> Some st
      | Some b \<Rightarrow>
          if ps @ [n] \<in> ran pt then Some st
          else Some (linked a b (the (nodes st b)) ((new_pref t n b)\<lparr>p_value := v\<rparr>) (full_name (ps @ [n])) st))
     (spec_add t v (full_name (ps @ [n])) (pref_map st))"
proof -
  have wf: "prefs_wf st" using ok co by (auto simp: prefs_wf_def)
  have gp: "list_all good_part ps" "good_part n" using g by simp_all
  have dir: "get_path_dirname (full_name (ps @ [n])) = full_name ps"
    using gp by (simp add: full_name_snoc good_part_def full_name_join)
  have taken: "pref_map st (full_name (ps @ [n])) \<noteq> None \<longleftrightarrow> ps @ [n] \<in> ran pt"
    using pref_map_None [OF ok g] by simp
  have orphan: "find_pref st (full_name ps) = None \<longleftrightarrow>
      full_name ps \<noteq> ''/'' \<and> pref_map st (full_name ps) = None"
  proof (cases "ps = []")
    case True
    then show ?thesis by (simp add: full_name_join find_pref_def)
  next
    case False
    then show ?thesis using pref_map_None [OF ok gp(1) False] find_pref_None [OF ok gp(1)] gp by simp
  qed
  show ?thesis
  proof (cases "find_pref st (full_name ps)")
    case None
    with orphan wf ty show ?thesis by (simp add: spec_add_def dir)
  next
    case (Some b)
    then have b: "pt b = Some ps" using find_pref_full_name [OF ok gp(1)] by blast
    obtain pb where pb: "nodes st b = Some pb" using ptree_ok_node [OF ok b] .
    show ?thesis
    proof (cases "ps @ [n] \<in> ran pt")
      case True
      with Some taken wf ty show ?thesis by (simp add: spec_add_def)
    next
      case False
      let ?q = "(new_pref t n b)\<lparr>p_value := v\<rparr>"
      let ?st = "linked a b pb ?q (full_name (ps @ [n])) st"
      have "ptree_ok (pt(a \<mapsto> ps @ [n])) ?st"
        by (rule ptree_ok_linked [OF ok g b pb False a]) (simp_all add: new_pref_def)
      moreover have "callbacks_ok ?st"
        by (rule callbacks_ok_fewer [OF co]) (use pb in \<open>auto simp: linked_def new_pref_def split: if_splits\<close>)
      moreover have "prefs_typed ?st"
        using ty pb fits by (auto simp: prefs_typed_def linked_def new_pref_def)
      moreover have "pref_map ?st = spec_add t v (full_name (ps @ [n])) (pref_map st)"
        using pref_map_linked [OF ok pb a] orphan taken False Some
        by (auto simp: spec_add_def dir new_pref_def)
      ultimately show ?thesis
        using Some False pb by (auto simp: leads_to_def prefs_wf_def)
    qed
  qed
qed

lemma add_with_value_leads_to:
  assumes "prefs_wf st" "prefs_typed st" "pref_name x" "nodes st a = None" "value_fits t v"
  shows "leads_to (add_with_value a t x v st) (spec_add t v x (pref_map st))"
proof -
  obtain pt where ok: "ptree_ok pt st" and co: "callbacks_ok st" using assms(1) by (auto simp: prefs_wf_def)
  obtain ps n where x: "list_all good_part (ps @ [n])" "x = full_name (ps @ [n])"
    using assms(3) unfolding pref_name_def by (metis rev_exhaust)
  show ?thesis
    using linked_leads_to [OF ok co assms(2) x(1) assms(4,5)]
    by (simp add: x(2) add_with_value_result [OF ok x(1) assms(4)])
qed

lemma add_none_leads_to:
  assumes "prefs_wf st" "prefs_typed st" "pref_name x" "nodes st a = None"
  shows "leads_to (purple_prefs_add_none a x st) (spec_add PURPLE_PREF_NONE (Generic 0) x (pref_map st))"
proof -
  obtain pt where ok: "ptree_ok pt st" using assms(1) by (auto simp: prefs_wf_def)
  obtain ps n where x: "list_all good_part (ps @ [n])" "x = full_name (ps @ [n])"
    using assms(3) unfolding pref_name_def by (metis rev_exhaust)
  have "(new_pref PURPLE_PREF_NONE n b)\<lparr>p_value := Generic 0\<rparr> = new_pref PURPLE_PREF_NONE n b" for b
    by (simp add: new_pref_def)
  then have "purple_prefs_add_none a x st = add_with_value a PURPLE_PREF_NONE x (Generic 0) st"
    by (simp add: purple_prefs_add_none_def x(2) add_with_value_result [OF ok x(1) assms(4)]
        add_pref_result [OF ok x(1)] split: option.split)
  with add_with_value_leads_to [OF assms, of PURPLE_PREF_NONE "Generic 0"] show ?thesis by simp
qed

text \<open>Storing a value in a node of the right type, and the setters' shape.\<close>

lemma change_value_leads_to:
  assumes q: "quiet_env E" and ok: "ptree_ok pt st" and co: "callbacks_ok st" and ty: "prefs_typed st" and a: "pt a = Some ps" "ps \<noteq> []" "nodes st a = Some p"
    and fits: "value_fits (p_type p) v"
  shows "leads_to (change_value E x a v st) ((pref_map st)(full_name ps \<mapsto> (p_type p, v)))"
proof -
  obtain st' where st': "change_value E x a v st = Some st'" "ptree_ok pt st'"
      "nodes st' = (nodes st)(a \<mapsto> p\<lparr>p_value := v\<rparr>)" "prefs_hash st' = prefs_hash st" "callbacks_ok st'"
    using change_value_result [OF q ok co a(1,3)] by metis
  have "prefs_typed st'" using ty fits by (auto simp: prefs_typed_def st'(3))
  with st' pref_map_value [OF ok a st'(3,4)] show ?thesis by (auto simp: leads_to_def prefs_wf_def)
qed

lemma pref_name_cases:
  assumes wf: "prefs_wf st" and x: "pref_name x"
  obtains (missing) "find_pref st x = None" "pref_map st x = None"
  | (found) pt ps a p where "ptree_ok pt st" "pt a = Some ps" "ps \<noteq> []" "x = full_name ps"
      "find_pref st x = Some a" "nodes st a = Some p" "pref_map st x = Some (p_type p, p_value p)"
proof -
  obtain pt where ok: "ptree_ok pt st" using wf by (auto simp: prefs_wf_def)
  obtain ps where ps: "ps \<noteq> []" "list_all good_part ps" "x = full_name ps" using x by (auto simp: pref_name_def)
  show thesis
  proof (cases "find_pref st x")
    case None
    then show thesis
      using missing find_pref_None [OF ok ps(2)] pref_map_None [OF ok ps(2,1)] ps(3) by simp
  next
    case (Some a)
    then have a: "pt a = Some ps" using find_pref_full_name [OF ok ps(2)] ps(3) by simp
    obtain p where p: "nodes st a = Some p" using ptree_ok_node [OF ok a] .
    show thesis
      by (rule found [OF ok a ps(1,3) Some p]) (use pref_map_path [OF ok a ps(1) p] ps(3) in simp)
  qed
qed

text \<open>The pattern of the setters that look for a change, and of those that do not.\<close>

lemma set_leads_to:
  assumes q: "quiet_env E"
    and wf: "prefs_wf st" and ty: "prefs_typed st" and x: "pref_name x"
    and add: "leads_to add (spec_add t v x (pref_map st))"
    and fits: "\<forall>t' \<in> ts. value_fits t' v"
    and same: "\<And>p. p_type p \<in> ts \<Longrightarrow> skip p \<Longrightarrow> p_value p = v"
  shows "leads_to
    (case find_pref st x of
       None \<Rightarrow> add
     | Some a \<Rightarrow>
         (case nodes st a of
            None \<Rightarrow> None
          | Some p \<Rightarrow> if p_type p \<notin> ts then Some st else if \<not> skip p then change_value E x a v st else Some st))
    (spec_set ts t v x (pref_map st))"
  using wf x
proof (cases rule: pref_name_cases)
  case missing
  with add show ?thesis by (simp add: spec_set_def)
next
  case (found pt ps a p)
  show ?thesis
  proof (cases "p_type p \<in> ts")
    case False
    with found wf ty show ?thesis by (simp add: spec_set_def)
  next
    case True
    have "leads_to (change_value E x a v st) ((pref_map st)(x \<mapsto> (p_type p, v)))"
      using change_value_leads_to [OF q found(1) _ ty found(2,3,6)] wf fits True found(4) by (auto simp: prefs_wf_def)
    moreover have "pref_map st = (pref_map st)(x \<mapsto> (p_type p, v))" if "skip p"
      using same [OF True that] found(7) by auto
    ultimately show ?thesis
      using found True wf ty by (simp add: spec_set_def)
  qed
qed

subsection \<open>The calls of the interface\<close>

datatype pref_call =
    Add_none string | Add_bool string int | Add_int string int | Add_string string cstring
  | Add_string_list string "cstring list" | Add_path string cstring | Add_path_list string "cstring list"
  | Set_bool string int | Set_int string int | Set_string string cstring
  | Set_string_list string "cstring list" | Set_path string cstring | Set_path_list string "cstring list"
  | Set_generic string nat
  | Remove string | Trigger string | Connect nat string nat nat | Disconnect nat | Disconnect_by_handle nat

text \<open>A call run on the tree; \<open>a\<close> is the address the allocator would give to a new node.\<close>

fun run_call :: "prefs_env \<Rightarrow> addr \<Rightarrow> pref_call \<Rightarrow> prefs \<Rightarrow> prefs option" where
  "run_call E a (Add_none x) st = purple_prefs_add_none a x st"
| "run_call E a (Add_bool x v) st = purple_prefs_add_bool a x v st"
| "run_call E a (Add_int x v) st = purple_prefs_add_int a x v st"
| "run_call E a (Add_string x v) st = purple_prefs_add_string E a x v st"
| "run_call E a (Add_string_list x v) st = purple_prefs_add_string_list E a x v st"
| "run_call E a (Add_path x v) st = purple_prefs_add_path a x v st"
| "run_call E a (Add_path_list x v) st = purple_prefs_add_path_list a x v st"
| "run_call E a (Set_bool x v) st = purple_prefs_set_bool E a x v st"
| "run_call E a (Set_int x v) st = purple_prefs_set_int E a x v st"
| "run_call E a (Set_string x v) st = purple_prefs_set_string E a x v st"
| "run_call E a (Set_string_list x v) st = purple_prefs_set_string_list E a x v st"
| "run_call E a (Set_path x v) st = purple_prefs_set_path E a x v st"
| "run_call E a (Set_path_list x v) st = purple_prefs_set_path_list E a x v st"
| "run_call E a (Set_generic x v) st = purple_prefs_set_generic E x v st"
| "run_call E a (Remove x) st = purple_prefs_remove x st"
| "run_call E a (Trigger x) st = purple_prefs_trigger_callback E x st"
| "run_call E a (Connect h x f d) st = map_option snd (purple_prefs_connect_callback h x f d st)"
| "run_call E a (Disconnect i) st = purple_prefs_disconnect_callback i st"
| "run_call E a (Disconnect_by_handle h) st = purple_prefs_disconnect_by_handle h st"

text \<open>The same call on the map.\<close>

fun spec_call :: "prefs_env \<Rightarrow> pref_call \<Rightarrow> pref_view \<Rightarrow> pref_view" where
  "spec_call E (Add_none x) m = spec_add PURPLE_PREF_NONE (Generic 0) x m"
| "spec_call E (Add_bool x v) m = spec_add PURPLE_PREF_BOOLEAN (Boolean v) x m"
| "spec_call E (Add_int x v) m = spec_add PURPLE_PREF_INT (Integer v) x m"
| "spec_call E (Add_string x v) m =
     (if invalid_utf8 E v then m else spec_add PURPLE_PREF_STRING (String v) x m)"
| "spec_call E (Add_string_list x v) m =
     spec_add PURPLE_PREF_STRING_LIST (Stringlist (filter (\<lambda>s. \<not> invalid_utf8 E s) v)) x m"
| "spec_call E (Add_path x v) m = spec_add PURPLE_PREF_PATH (String v) x m"
| "spec_call E (Add_path_list x v) m = spec_add PURPLE_PREF_PATH_LIST (Stringlist v) x m"
| "spec_call E (Set_bool x v) m = spec_set {PURPLE_PREF_BOOLEAN} PURPLE_PREF_BOOLEAN (Boolean v) x m"
| "spec_call E (Set_int x v) m = spec_set {PURPLE_PREF_INT} PURPLE_PREF_INT (Integer v) x m"
| "spec_call E (Set_string x v) m =
     (if invalid_utf8 E v then m
      else spec_set {PURPLE_PREF_STRING, PURPLE_PREF_PATH} PURPLE_PREF_STRING (String v) x m)"
| "spec_call E (Set_string_list x v) m =
     spec_set {PURPLE_PREF_STRING_LIST} PURPLE_PREF_STRING_LIST
       (Stringlist (filter (\<lambda>s. \<not> invalid_utf8 E s) v)) x m"
| "spec_call E (Set_path x v) m = spec_set {PURPLE_PREF_PATH} PURPLE_PREF_PATH (String v) x m"
| "spec_call E (Set_path_list x v) m =
     spec_set {PURPLE_PREF_PATH_LIST} PURPLE_PREF_PATH_LIST (Stringlist v) x m"
| "spec_call E (Set_generic x v) m = (case m x of None \<Rightarrow> m | Some (t, w) \<Rightarrow> m(x \<mapsto> (t, Generic v)))"
| "spec_call E (Remove x) m = spec_remove x m"
| "spec_call E _ m = m"

text \<open>The names a call may use: full names, and the root where nothing is stored.\<close>

fun call_ok :: "pref_call \<Rightarrow> bool" where
  "call_ok (Add_none x) = pref_name x"
| "call_ok (Add_bool x v) = pref_name x"
| "call_ok (Add_int x v) = pref_name x"
| "call_ok (Add_string x v) = pref_name x"
| "call_ok (Add_string_list x v) = pref_name x"
| "call_ok (Add_path x v) = pref_name x"
| "call_ok (Add_path_list x v) = pref_name x"
| "call_ok (Set_bool x v) = pref_name x"
| "call_ok (Set_int x v) = pref_name x"
| "call_ok (Set_string x v) = pref_name x"
| "call_ok (Set_string_list x v) = pref_name x"
| "call_ok (Set_path x v) = pref_name x"
| "call_ok (Set_path_list x v) = pref_name x"
| "call_ok (Set_generic x v) = pref_name x"
| "call_ok (Remove x) = (x = ''/'' \<or> pref_name x)"
| "call_ok (Trigger x) = (x = ''/'' \<or> pref_name x)"
| "call_ok (Connect h x f d) = (x = ''/'' \<or> pref_name x)"
| "call_ok _ = True"

text \<open>A raw value may only go where no type says what it is.\<close>

fun generic_ok :: "pref_call \<Rightarrow> pref_view \<Rightarrow> bool" where
  "generic_ok (Set_generic x v) m = (case m x of None \<Rightarrow> True | Some (t, w) \<Rightarrow> t = PURPLE_PREF_NONE)"
| "generic_ok _ m = True"

fun calls_ok :: "prefs_env \<Rightarrow> pref_call list \<Rightarrow> pref_view \<Rightarrow> bool" where
  "calls_ok E [] m = True"
| "calls_ok E (c # cs) m = (call_ok c \<and> generic_ok c m \<and> calls_ok E cs (spec_call E c m))"

subsection \<open>Each call meets its specification\<close>

lemma kept_fields:
  "kept p' = kept p \<Longrightarrow> p_type p' = p_type p \<and> p_value p' = p_value p \<and> p_callbacks p' = p_callbacks p"
  by (cases p; cases p') (simp add: kept_def)

lemma spec_remove_without:
  assumes ok: "ptree_ok pt st" and g: "list_all good_part ps"
    and ok': "ptree_ok (without ps pt) st'" and fr: "frame_kept st st'"
  shows "pref_map st' = spec_remove (full_name ps) (pref_map st)"
proof
  fix y
  have hash': "prefs_hash st' y = Some a \<longleftrightarrow>
      (\<exists>qs. qs \<noteq> [] \<and> pt a = Some qs \<and> \<not> prefix ps qs \<and> y = full_name qs)" for a
    unfolding ptree_okD(8) [OF ok'] by auto
  have gone: "full_name ps = ''/'' \<or> full_name qs = full_name ps \<or> prefix (full_name ps @ ''/'') (full_name qs)
      \<longleftrightarrow> prefix ps qs" if "pt a = Some qs" "qs \<noteq> []" for a qs
    using prefix_full_name [OF g ptree_okD(3) [OF ok that(1)]] that(2) g by (cases "ps = []") auto
  show "pref_map st' y = spec_remove (full_name ps) (pref_map st) y"
  proof (cases "prefs_hash st' y")
    case None
    show ?thesis
    proof (cases "prefs_hash st y")
      case None
      with \<open>prefs_hash st' y = None\<close> show ?thesis by (simp add: pref_map_def spec_remove_def)
    next
      case (Some a)
      then obtain qs where qs: "qs \<noteq> []" "pt a = Some qs" "y = full_name qs" using ptree_okD(8) [OF ok] by blast
      then have "prefix ps qs" using hash' [of a] None by auto
      with gone [OF qs(2,1)] qs(3) None show ?thesis by (auto simp: pref_map_def spec_remove_def)
    qed
  next
    case (Some a)
    then obtain qs where qs: "qs \<noteq> []" "pt a = Some qs" "\<not> prefix ps qs" "y = full_name qs" using hash' by blast
    then have h: "prefs_hash st y = Some a" using hash_path [OF ok] by blast
    have "without ps pt a = Some qs" using qs by simp
    then obtain p' where p': "nodes st' a = Some p'" using ptree_ok_node [OF ok'] by metis
    then obtain p where p: "nodes st a = Some p" "kept p' = kept p" using fr unfolding frame_kept_def by blast
    from kept_fields [OF p(2)] have "p_type p' = p_type p" "p_value p' = p_value p" by simp_all
    with gone [OF qs(2,1)] qs h Some p p' show ?thesis by (auto simp: pref_map_def spec_remove_def)
  qed
qed

lemma prefs_typed_kept:
  assumes "prefs_typed st" "frame_kept st st'"
  shows "prefs_typed st'"
  unfolding prefs_typed_def
proof (intro allI impI)
  fix a p' assume "nodes st' a = Some p'"
  then obtain p where "nodes st a = Some p" "kept p' = kept p" using assms(2) unfolding frame_kept_def by blast
  with assms(1) kept_fields [of p' p] show "value_fits (p_type p') (p_value p')" by (auto simp: prefs_typed_def)
qed

lemma callbacks_ok_kept:
  assumes "callbacks_ok st" "frame_kept st st'"
  shows "callbacks_ok st'"
proof (rule callbacks_ok_fewer [OF assms(1)])
  show "last_cb_id st \<le> last_cb_id st'" using assms(2) by (simp add: frame_kept_def)
  show "p_callbacks p' = [] \<or> (\<exists>p. nodes st a = Some p \<and> subseq (p_callbacks p') (p_callbacks p))"
    if "nodes st' a = Some p'" for a p'
    using assms(2) that kept_fields unfolding frame_kept_def by (metis subseq_order.order_refl)
qed

lemma path_of_name:
  assumes "x = ''/'' \<or> pref_name x"
  obtains ps where "list_all good_part ps" "x = full_name ps"
proof (cases "x = ''/''")
  case True
  then show thesis using that [of "[]"] by (simp add: full_name_join)
next
  case False
  with assms show thesis using that by (auto simp: pref_name_def)
qed

lemma remove_leads_to:
  assumes wf: "prefs_wf st" and ty: "prefs_typed st" and x: "x = ''/'' \<or> pref_name x"
  shows "leads_to (purple_prefs_remove x st) (spec_remove x (pref_map st))"
proof -
  obtain pt where ok: "ptree_ok pt st" using wf by (auto simp: prefs_wf_def)
  obtain ps where ps: "list_all good_part ps" "x = full_name ps" using path_of_name [OF x] .
  show ?thesis
  proof (cases "find_pref st x")
    case None
    then have no: "ps \<notin> ran pt" using find_pref_None [OF ok ps(1)] ps(2) by simp
    have "without ps pt a = pt a" for a
      using ptree_ok_prefix [OF ok, of a _ ps] no by (auto simp: without_def ran_def split: option.splits)
    then have "without ps pt = pt" by blast
    with spec_remove_without [OF ok ps(1), of st] ok ps(2)
    have "pref_map st = spec_remove x (pref_map st)" by simp
    with None wf ty show ?thesis by (simp add: purple_prefs_remove_def)
  next
    case (Some a)
    then have "pt a = Some ps" using find_pref_full_name [OF ok ps(1)] ps(2) by simp
    from remove_pref_result [OF ok this] obtain st' where st': "remove_pref a st = Some st'"
        "ptree_ok (without ps pt) st'" "frame_kept st st'" by blast
    have "callbacks_ok st'"
      using wf callbacks_ok_kept [OF _ st'(3)] by (simp add: prefs_wf_def)
    with st' spec_remove_without [OF ok ps(1) st'(2,3)] prefs_typed_kept [OF ty st'(3)] Some ps(2)
    show ?thesis by (auto simp: leads_to_def purple_prefs_remove_def prefs_wf_def)
  qed
qed

lemma leads_to_shape:
  assumes "prefs_wf st" "prefs_typed st" "shape st' = shape st" "callbacks_ok st'"
    and "\<And>a p'. nodes st' a = Some p' \<Longrightarrow> \<exists>p. nodes st a = Some p \<and> p_type p' = p_type p \<and> p_value p' = p_value p"
  shows "leads_to (Some st') (pref_map st)"
proof -
  have h: "prefs_hash st' = prefs_hash st" using assms(3) by (simp add: shape_def)
  have n: "nodes st a = None \<longleftrightarrow> nodes st' a = None" for a
  proof -
    have "fst (shape st') a = fst (shape st) a" by (simp add: assms(3))
    then show ?thesis by (cases "nodes st a"; cases "nodes st' a") (simp_all add: shape_def)
  qed
  have "pref_map st' x = pref_map st x" for x
  proof (cases "prefs_hash st x")
    case None
    then show ?thesis by (simp add: pref_map_def h)
  next
    case (Some a)
    then show ?thesis
      using n [of a] assms(5) [of a] by (cases "nodes st' a") (auto simp: pref_map_def h)
  qed
  then have "pref_map st' = pref_map st" by blast
  moreover have "prefs_typed st'" unfolding prefs_typed_def
    using assms(2,5) unfolding prefs_typed_def by metis
  ultimately show ?thesis using assms(1) prefs_wf_shape [OF assms(3,4,1)] by (simp add: leads_to_def)
qed

lemma trigger_leads_to:
  assumes q: "quiet_env E" and wf: "prefs_wf st" and ty: "prefs_typed st" and x: "x = ''/'' \<or> pref_name x"
  shows "leads_to (purple_prefs_trigger_callback E x st) (pref_map st)"
proof (cases "find_pref st x")
  case None
  with wf ty show ?thesis by (simp add: purple_prefs_trigger_callback_def)
next
  case (Some a)
  obtain pt where ok: "ptree_ok pt st" using wf by (auto simp: prefs_wf_def)
  obtain ps where ps: "list_all good_part ps" "x = full_name ps" using path_of_name [OF x] .
  have a: "pt a = Some ps" using find_pref_full_name [OF ok ps(1)] ps(2) Some by simp
  obtain p where p: "nodes st a = Some p" using ptree_ok_node [OF ok a] .
  have co: "callbacks_ok st" using wf by (simp add: prefs_wf_def)
  from do_callbacks_quiet [OF q ok co a p] obtain st' where st': "do_callbacks E x a st = Some st'" "same_tree st st'"
    by blast
  then have "leads_to (Some st') (pref_map st)"
    using callbacks_ok_nodes [OF co] by (intro leads_to_shape [OF wf ty same_tree_shape]) (auto simp: same_tree_def)
  with st'(1) Some show ?thesis by (simp add: purple_prefs_trigger_callback_def)
qed

lemma callbacks_ok_connected:
  assumes ok: "callbacks_ok st" and p: "nodes st a = Some p" and cb: "cb_id cb = last_cb_id st + 1"
  shows "callbacks_ok ((set_node a (p\<lparr>p_callbacks := p_callbacks p @ [cb]\<rparr>) st)\<lparr>last_cb_id := last_cb_id st + 1\<rparr>)"
proof -
  have old: "cb_id c < cb_id cb" "cb_id c \<noteq> cb_id cb" if "nodes st b = Some q" "c \<in> set (p_callbacks q)" for b q c
    using callbacks_okD(2) [OF ok that] cb by simp_all
  have new: "cb_id cb \<notin> cb_id ` set (p_callbacks q)" if "nodes st b = Some q" for b q
    using old(2) [OF that] by force
  have other: "cb_id ` set (p_callbacks q) \<inter> cb_id ` set (p_callbacks r) = {}"
    if "nodes st b = Some q" "nodes st c = Some r" "b \<noteq> c" for b c q r
    using ok that unfolding callbacks_ok_def by blast
  show ?thesis
    unfolding callbacks_ok_def
  proof (intro conjI allI impI ballI)
    fix b q assume "nodes ((set_node a (p\<lparr>p_callbacks := p_callbacks p @ [cb]\<rparr>) st)\<lparr>last_cb_id := last_cb_id st + 1\<rparr>) b = Some q"
    then have q: "b = a \<and> p_callbacks q = p_callbacks p @ [cb] \<or> b \<noteq> a \<and> nodes st b = Some q"
      by (auto simp: set_node_def split: if_splits)
    then show "distinct (map cb_id (p_callbacks q))"
      using callbacks_okD(1) [OF ok] p new [OF p] by auto
    show "cb_id c \<le> last_cb_id ((set_node a (p\<lparr>p_callbacks := p_callbacks p @ [cb]\<rparr>) st)\<lparr>last_cb_id := last_cb_id st + 1\<rparr>)"
      if "c \<in> set (p_callbacks q)" for c
      using q that p cb callbacks_okD(2) [OF ok] by (fastforce simp: le_Suc_eq)
  next
    fix b c q r
    assume "nodes ((set_node a (p\<lparr>p_callbacks := p_callbacks p @ [cb]\<rparr>) st)\<lparr>last_cb_id := last_cb_id st + 1\<rparr>) b = Some q"
      "nodes ((set_node a (p\<lparr>p_callbacks := p_callbacks p @ [cb]\<rparr>) st)\<lparr>last_cb_id := last_cb_id st + 1\<rparr>) c = Some r" "b \<noteq> c"
    then have "b = a \<and> p_callbacks q = p_callbacks p @ [cb] \<and> nodes st c = Some r \<or>
        c = a \<and> p_callbacks r = p_callbacks p @ [cb] \<and> nodes st b = Some q \<or> nodes st b = Some q \<and> nodes st c = Some r"
      by (auto simp: set_node_def split: if_splits)
    then show "cb_id ` set (p_callbacks q) \<inter> cb_id ` set (p_callbacks r) = {}"
      using other p new \<open>b \<noteq> c\<close> by (elim disjE conjE) (simp_all add: Int_insert_left Int_insert_right)
  qed
qed

lemma connect_leads_to:
  assumes wf: "prefs_wf st" and ty: "prefs_typed st" and x: "x = ''/'' \<or> pref_name x"
  shows "leads_to (map_option snd (purple_prefs_connect_callback h x f d st)) (pref_map st)"
proof (cases "find_pref st x")
  case None
  with wf ty show ?thesis by (simp add: purple_prefs_connect_callback_def)
next
  case (Some a)
  obtain pt where ok: "ptree_ok pt st" using wf by (auto simp: prefs_wf_def)
  obtain ps where ps: "list_all good_part ps" "x = full_name ps" using path_of_name [OF x] .
  have a: "pt a = Some ps" using find_pref_full_name [OF ok ps(1)] ps(2) Some by simp
  obtain p where p: "nodes st a = Some p" using ptree_ok_node [OF ok a] .
  let ?p = "p\<lparr>p_callbacks := p_callbacks p @
    [\<lparr>cb_id = last_cb_id st + 1, cb_func = f, cb_data = d, cb_handle = h, cb_name = x\<rparr>]\<rparr>"
  have "shape (set_node a ?p st) = shape st" by (rule shape_set_node [OF p]) simp_all
  then have "leads_to (Some ((set_node a ?p st)\<lparr>last_cb_id := last_cb_id st + 1\<rparr>)) (pref_map st)"
    using p callbacks_ok_connected [of st a p] wf
    by (intro leads_to_shape [OF wf ty]) (auto simp: set_node_def prefs_wf_def split: if_splits)
  with Some p show ?thesis by (simp add: purple_prefs_connect_callback_def Let_def)
qed

lemma drop_callback_subseq: "drop_callback i cbs = Some cbs' \<Longrightarrow> subseq cbs' cbs"
  by (induction cbs arbitrary: cbs') (auto split: if_splits)

lemma callbacks_ok_without_handle:
  "callbacks_ok st \<Longrightarrow>
   callbacks_ok (st\<lparr>nodes := \<lambda>a. if a \<in> S then map_option (without_handle h) (nodes st a) else nodes st a\<rparr>)"
  by (rule callbacks_ok_fewer [of st]) (auto simp: without_handle_def split: if_splits)

lemma disconnect_leads_to:
  assumes wf: "prefs_wf st" and ty: "prefs_typed st"
  shows "leads_to (purple_prefs_disconnect_callback i st) (pref_map st)"
proof -
  obtain pt where ok: "ptree_ok pt st" using wf by (auto simp: prefs_wf_def)
  have "leads_to (Some (set_node a (p\<lparr>p_callbacks := cbs\<rparr>) st)) (pref_map st)"
    if p: "nodes st a = Some p" and cbs: "subseq cbs (p_callbacks p)" for a p cbs
  proof (rule leads_to_shape [OF wf ty])
    show "shape (set_node a (p\<lparr>p_callbacks := cbs\<rparr>) st) = shape st" by (rule shape_set_node [OF p]) simp_all
    show "callbacks_ok (set_node a (p\<lparr>p_callbacks := cbs\<rparr>) st)"
      by (rule callbacks_ok_fewer [of st])
         (use p cbs wf in \<open>auto simp: set_node_def prefs_wf_def split: if_splits\<close>)
  qed (use p in \<open>auto simp: set_node_def split: if_splits\<close>)
  with disco_callback_helper_result [OF ok root_todo [OF ok], of i] wf ty drop_callback_subseq show ?thesis
    by (auto simp: purple_prefs_disconnect_callback_def)
qed

lemma disconnect_by_handle_leads_to:
  assumes wf: "prefs_wf st" and ty: "prefs_typed st"
  shows "leads_to (purple_prefs_disconnect_by_handle h st) (pref_map st)"
proof -
  obtain pt where ok: "ptree_ok pt st" using wf by (auto simp: prefs_wf_def)
  let ?st = "st\<lparr>nodes := \<lambda>a. if a \<in> nodes_under pt [prefs_root] then map_option (without_handle h) (nodes st a)
                               else nodes st a\<rparr>"
  have "shape ?st = shape st"
    by (auto simp: shape_def fun_eq_iff option.map_comp without_handle_def comp_def)
  then have "leads_to (Some ?st) (pref_map st)"
    using wf by (intro leads_to_shape [OF wf ty] callbacks_ok_without_handle)
      (auto simp: prefs_wf_def without_handle_def split: if_splits)
  with wf ty disco_callback_helper_handle_result [OF ok root_todo [OF ok], of h] show ?thesis
    by (simp add: purple_prefs_disconnect_by_handle_def)
qed

lemma set_generic_leads_to:
  assumes q: "quiet_env E" and wf: "prefs_wf st" and ty: "prefs_typed st" and x: "pref_name x"
    and g: "generic_ok (Set_generic x v) (pref_map st)"
  shows "leads_to (purple_prefs_set_generic E x v st) (spec_call E (Set_generic x v) (pref_map st))"
  using wf x
proof (cases rule: pref_name_cases)
  case missing
  with wf ty show ?thesis by (simp add: purple_prefs_set_generic_def)
next
  case (found pt ps a p)
  have "value_fits (p_type p) (Generic v)" using g found(7) by simp
  from change_value_leads_to [OF q found(1) _ ty found(2,3,6) this] wf found(4,5,7) show ?thesis
    by (simp add: purple_prefs_set_generic_def prefs_wf_def)
qed

lemma fits_values [simp]:
  "value_fits PURPLE_PREF_BOOLEAN v \<longleftrightarrow> (\<exists>b. v = Boolean b)"
  "value_fits PURPLE_PREF_INT v \<longleftrightarrow> (\<exists>i. v = Integer i)"
  "value_fits PURPLE_PREF_STRING v \<longleftrightarrow> (\<exists>s. v = String s)"
  "value_fits PURPLE_PREF_PATH v \<longleftrightarrow> (\<exists>s. v = String s)"
  "value_fits PURPLE_PREF_STRING_LIST v \<longleftrightarrow> (\<exists>l. v = Stringlist l)"
  "value_fits PURPLE_PREF_PATH_LIST v \<longleftrightarrow> (\<exists>l. v = Stringlist l)"
  by (cases v; simp)+

lemmas add_defs = purple_prefs_add_bool_def purple_prefs_add_int_def purple_prefs_add_string_def
  purple_prefs_add_string_list_def purple_prefs_add_path_def purple_prefs_add_path_list_def

lemma call_leads_to:
  assumes q: "quiet_env E" and wf: "prefs_wf st" and ty: "prefs_typed st" and a: "nodes st a = None"
    and c: "call_ok c" "generic_ok c (pref_map st)"
  shows "leads_to (run_call E a c st) (spec_call E c (pref_map st))"
proof -
  note add = add_with_value_leads_to [OF wf ty _ a]
  note set_eq = set_leads_to [OF q wf ty, of _ _ _ _ _ "\<lambda>p. p_value p = v" for v]
  note set_always = set_leads_to [OF q wf ty, of _ _ _ _ _ "\<lambda>p. False"]
  show ?thesis
  proof (cases c)
    case (Add_none x)
    with add_none_leads_to [OF wf ty _ a] c show ?thesis by simp
  next
    case (Set_bool x v)
    with set_eq [of x "purple_prefs_add_bool a x v st" PURPLE_PREF_BOOLEAN "Boolean v" "{PURPLE_PREF_BOOLEAN}" "Boolean v"]
      add [of x PURPLE_PREF_BOOLEAN "Boolean v"] c
    show ?thesis by (simp add: purple_prefs_set_bool_def add_defs cong: option.case_cong if_cong)
  next
    case (Set_int x v)
    with set_eq [of x "purple_prefs_add_int a x v st" PURPLE_PREF_INT "Integer v" "{PURPLE_PREF_INT}" "Integer v"]
      add [of x PURPLE_PREF_INT "Integer v"] c
    show ?thesis by (simp add: purple_prefs_set_int_def add_defs cong: option.case_cong if_cong)
  next
    case (Set_path x v)
    with set_eq [of x "purple_prefs_add_path a x v st" PURPLE_PREF_PATH "String v" "{PURPLE_PREF_PATH}" "String v"]
      add [of x PURPLE_PREF_PATH "String v"] c
    show ?thesis by (simp add: purple_prefs_set_path_def add_defs cong: option.case_cong if_cong)
  next
    case (Set_string x v)
    show ?thesis
    proof (cases "invalid_utf8 E v")
      case True
      with Set_string wf ty show ?thesis by (simp add: purple_prefs_set_string_def)
    next
      case False
      with Set_string set_eq [of x "purple_prefs_add_string E a x v st" PURPLE_PREF_STRING "String v"
          "{PURPLE_PREF_STRING, PURPLE_PREF_PATH}" "String v"] add [of x PURPLE_PREF_STRING "String v"] c
      show ?thesis by (simp add: purple_prefs_set_string_def add_defs cong: option.case_cong if_cong)
    qed
  next
    case (Set_string_list x v)
    let ?v = "Stringlist (filter (\<lambda>s. \<not> invalid_utf8 E s) v)"
    from Set_string_list set_always [of x "purple_prefs_add_string_list E a x v st" PURPLE_PREF_STRING_LIST ?v
        "{PURPLE_PREF_STRING_LIST}"] add [of x PURPLE_PREF_STRING_LIST ?v] c
    show ?thesis by (simp add: purple_prefs_set_string_list_def add_defs cong: option.case_cong if_cong)
  next
    case (Set_path_list x v)
    with set_always [of x "purple_prefs_add_path_list a x v st" PURPLE_PREF_PATH_LIST "Stringlist v"
        "{PURPLE_PREF_PATH_LIST}"] add [of x PURPLE_PREF_PATH_LIST "Stringlist v"] c
    show ?thesis by (simp add: purple_prefs_set_path_list_def add_defs cong: option.case_cong if_cong)
  next
    case (Set_generic x v)
    with set_generic_leads_to [OF q wf ty] c show ?thesis by simp
  next
    case (Remove x)
    with remove_leads_to [OF wf ty] c show ?thesis by simp
  next
    case (Trigger x)
    with trigger_leads_to [OF q wf ty] c show ?thesis by simp
  next
    case (Connect h x f d)
    with connect_leads_to [OF wf ty] c show ?thesis by simp
  next
    case (Disconnect i)
    with disconnect_leads_to [OF wf ty] show ?thesis by simp
  next
    case (Disconnect_by_handle h)
    with disconnect_by_handle_leads_to [OF wf ty] show ?thesis by simp
  qed (use add c wf ty in \<open>simp_all add: add_defs\<close>)
qed

subsection \<open>Runs\<close>

text \<open>A program's calls, one after the other; \<open>alloc\<close> is the allocator.\<close>

fun run_calls :: "prefs_env \<Rightarrow> (prefs \<Rightarrow> addr) \<Rightarrow> pref_call list \<Rightarrow> prefs \<Rightarrow> prefs option" where
  "run_calls E alloc [] st = Some st"
| "run_calls E alloc (c # cs) st = Option.bind (run_call E (alloc st) c st) (run_calls E alloc cs)"

text \<open>What an allocator promises: an address not in use.\<close>

definition fresh_alloc :: "(prefs \<Rightarrow> addr) \<Rightarrow> bool" where
  "fresh_alloc alloc \<longleftrightarrow> (\<forall>st. finite (dom (nodes st)) \<longrightarrow> nodes st (alloc st) = None)"

lemma prefs_wf_finite: "prefs_wf st \<Longrightarrow> finite (dom (nodes st))"
proof -
  assume "prefs_wf st"
  then obtain pt where ok: "ptree_ok pt st" by (auto simp: prefs_wf_def)
  have "dom (nodes st) = dom pt" using ptree_okD(4) [OF ok] by (auto simp: dom_def)
  then show ?thesis using ptree_okD(9) [OF ok] by simp
qed

lemma prefs_wf_empty: "prefs_wf prefs_empty"
  unfolding prefs_wf_def
  by (intro conjI exI [of _ "[prefs_root \<mapsto> []]"])
     (auto simp: callbacks_ok_def ptree_ok_def paths_ok_def links_ok_def hash_ok_def prefs_empty_def node_at_def split: if_splits)

lemma prefs_typed_empty: "prefs_typed prefs_empty"
  by (simp add: prefs_typed_def prefs_empty_def)

lemma pref_map_empty: "pref_map prefs_empty = Map.empty"
  by (simp add: pref_map_def prefs_empty_def fun_eq_iff)

lemma run_calls_leads_to:
  "\<lbrakk>quiet_env E; fresh_alloc alloc; calls_ok E cs (pref_map st); prefs_wf st; prefs_typed st\<rbrakk> \<Longrightarrow>
   leads_to (run_calls E alloc cs st) (fold (spec_call E) cs (pref_map st))"
proof (induction cs arbitrary: st)
  case Nil
  then show ?case by simp
next
  case (Cons c cs)
  have "nodes st (alloc st) = None"
    using Cons.prems(2) prefs_wf_finite [OF Cons.prems(4)] by (simp add: fresh_alloc_def)
  from call_leads_to [OF Cons.prems(1,4,5) this, of c] Cons.prems(3)
  obtain st1 where st1: "run_call E (alloc st) c st = Some st1" "prefs_wf st1" "prefs_typed st1"
      "pref_map st1 = spec_call E c (pref_map st)"
    by (auto simp: leads_to_def)
  from Cons.IH [OF Cons.prems(1,2) _ st1(2,3)] Cons.prems(3) st1(1,4) show ?case by simp
qed

subsection \<open>Reading\<close>

lemma find_pref_node:
  assumes "prefs_wf st" "find_pref st x = Some a"
  obtains p where "nodes st a = Some p"
proof -
  obtain pt where ok: "ptree_ok pt st" using assms(1) by (auto simp: prefs_wf_def)
  have "pt a \<noteq> None"
    using assms(2) ptree_okD(1,8) [OF ok] by (auto simp: find_pref_def split: list.splits if_splits)
  then show thesis using ptree_ok_node [OF ok] that by (metis not_None_eq)
qed

lemma root_type:
  assumes "prefs_wf st" "nodes st prefs_root = Some p"
  shows "p_name p = None"
proof -
  obtain pt where ok: "ptree_ok pt st" using assms(1) by (auto simp: prefs_wf_def)
  show ?thesis using ptree_okD(1,5) [OF ok] assms(2) by (fastforce simp: node_at_def split: option.splits)
qed

text \<open>The getters never meet a freed node or the wrong member of the union.\<close>

definition reads_ok :: "prefs \<Rightarrow> string \<Rightarrow> bool" where
  "reads_ok st x \<longleftrightarrow>
     purple_prefs_get_type st x \<noteq> None \<and> purple_prefs_get_bool st x \<noteq> None \<and>
     purple_prefs_get_int st x \<noteq> None \<and> purple_prefs_get_string st x \<noteq> None \<and>
     purple_prefs_get_string_list st x \<noteq> None \<and> purple_prefs_get_path st x \<noteq> None \<and>
     purple_prefs_get_path_list st x \<noteq> None"

lemma reads_ok_typed:
  assumes wf: "prefs_wf st" and ty: "prefs_typed st"
  shows "reads_ok st x"
proof (cases "find_pref st x")
  case None
  then show ?thesis
    by (simp add: reads_ok_def get_node_def purple_prefs_get_type_def purple_prefs_get_bool_def
        purple_prefs_get_int_def purple_prefs_get_string_def purple_prefs_get_string_list_def
        purple_prefs_get_path_def purple_prefs_get_path_list_def)
next
  case (Some a)
  obtain p where p: "nodes st a = Some p" using find_pref_node [OF wf Some] .
  have "value_fits (p_type p) (p_value p)" using ty p by (simp add: prefs_typed_def)
  with Some p show ?thesis
    by (cases "p_type p")
       (auto simp: reads_ok_def get_node_def purple_prefs_get_type_def purple_prefs_get_bool_def
        purple_prefs_get_int_def purple_prefs_get_string_def purple_prefs_get_string_list_def
        purple_prefs_get_path_def purple_prefs_get_path_list_def)
qed

text \<open>What a getter returns is what the map holds, or the default of its type.\<close>

lemma get_int_view:
  assumes wf: "prefs_wf st" and ty: "prefs_typed st" and x: "pref_name x"
  shows "purple_prefs_get_int st x =
     Some (case pref_map st x of Some (PURPLE_PREF_INT, Integer i) \<Rightarrow> i | _ \<Rightarrow> 0)"
  using wf x
proof (cases rule: pref_name_cases)
  case missing
  then show ?thesis by (simp add: purple_prefs_get_int_def get_node_def)
next
  case (found pt ps a p)
  have "value_fits (p_type p) (p_value p)" using ty found(6) by (simp add: prefs_typed_def)
  with found show ?thesis
    by (cases "p_type p") (auto simp: purple_prefs_get_int_def get_node_def)
qed

subsection \<open>Properties\<close>

text \<open>The least address not in use, an allocator for the witnesses.\<close>

definition least_free :: "prefs \<Rightarrow> addr" where
  "least_free st = (LEAST a. nodes st a = None)"

lemma fresh_least_free: "fresh_alloc least_free"
  unfolding fresh_alloc_def least_free_def
proof (intro allI impI)
  fix st :: prefs
  assume "finite (dom (nodes st))"
  then obtain a where "a \<notin> dom (nodes st)" using ex_new_if_finite infinite_UNIV_nat by blast
  then have "nodes st a = None" by auto
  then show "nodes st (LEAST a. nodes st a = None) = None" by (rule LeastI)
qed

lemma pref_name_intro: "\<lbrakk>ps \<noteq> []; list_all good_part ps; x = full_name ps\<rbrakk> \<Longrightarrow> pref_name x"
  by (auto simp: pref_name_def)

lemma example_names [simp]:
  "pref_name ''/ui''" "pref_name ''/ui/width''"
  by (rule pref_name_intro [of "[''ui'']"]; simp add: good_part_def full_name_join)
     (rule pref_name_intro [of "[''ui'', ''width'']"]; simp add: good_part_def full_name_join)

text \<open>An environment in which every string is valid, file names are in UTF-8 and callbacks do nothing.\<close>

definition plain_env :: prefs_env where
  "plain_env = \<lparr>valid_utf8 = (\<lambda>s. True), filename_to_utf8 = Some, filename_from_utf8 = Some,
     on_change = (\<lambda>cb n t v st. Some st)\<rparr>"

lemma plain_env_quiet [simp]: "quiet_env plain_env" "leaves_alone plain_env cb"
  by (simp_all add: quiet_env_def leaves_alone_def plain_env_def)

text \<open>C19: Preferences are typed: every sequence of calls that add, set, remove, notify, connect and
  disconnect, started on the empty tree, returns (no freed node is used, every loop ends), and
  afterwards the value of each node is of the member of the union that its type names, so no getter
  reads another one.  The calls use full names (no empty component), raw values go to preferences
  without a type only, and the callbacks leave the preferences alone.\<close>

theorem prefs_calls_type_sound:
  assumes "quiet_env E" "fresh_alloc alloc" "calls_ok E cs Map.empty"
  shows "\<exists>st. run_calls E alloc cs prefs_empty = Some st \<and> prefs_wf st \<and> prefs_typed st \<and>
    (\<forall>x. reads_ok st x)"
  using run_calls_leads_to [OF assms(1,2) _ prefs_wf_empty prefs_typed_empty, of cs] assms(3) reads_ok_typed
  unfolding leads_to_def pref_map_empty by blast

theorem prefs_calls_type_sound_witness:
  "\<exists>st. run_calls plain_env least_free
       [Add_none ''/ui'', Set_generic ''/ui'' 9, Set_int ''/ui/width'' 5, Connect 1 ''/ui'' 2 3,
        Set_bool ''/ui/width'' 1, Remove ''/ui'']
       prefs_empty = Some st \<and> prefs_wf st \<and> prefs_typed st \<and> (\<forall>x. reads_ok st x)"
  by (rule prefs_calls_type_sound [OF _ fresh_least_free]) (simp_all add: spec_add_def get_path_dirname_def)

text \<open>C18: The tree of nodes implements a map from full names to types and values: after any sequence of
  calls that add, set, remove, notify, connect and disconnect its view is what the specifications
  of the calls make of the empty map.  The calls use full names (no empty component, so not //x), raw
  values go to preferences without a type only, and the callbacks leave the preferences alone;
  renaming and loading have theorems of their own.\<close>

theorem prefs_calls_refine:
  assumes "quiet_env E" "fresh_alloc alloc" "calls_ok E cs Map.empty"
  shows "map_option pref_map (run_calls E alloc cs prefs_empty) = Some (fold (spec_call E) cs Map.empty)"
  using run_calls_leads_to [OF assms(1,2) _ prefs_wf_empty prefs_typed_empty, of cs] assms(3)
  by (auto simp: leads_to_def pref_map_empty)

theorem prefs_calls_refine_witness:
  "map_option (\<lambda>st. pref_map st ''/ui/width'')
     (run_calls plain_env least_free
        [Add_none ''/ui'', Set_int ''/ui/width'' 5, Set_bool ''/ui/width'' 1, Set_int ''/ui/width'' 7] prefs_empty)
   = Some (Some (PURPLE_PREF_INT, Integer 7))"
proof -
  let ?cs = "[Add_none ''/ui'', Set_int ''/ui/width'' 5, Set_bool ''/ui/width'' 1, Set_int ''/ui/width'' 7]"
  have "map_option pref_map (run_calls plain_env least_free ?cs prefs_empty) =
      Some (fold (spec_call plain_env) ?cs Map.empty)"
    by (rule prefs_calls_refine [OF _ fresh_least_free]) simp_all
  moreover have "fold (spec_call plain_env) ?cs Map.empty ''/ui/width'' = Some (PURPLE_PREF_INT, Integer 7)"
    by (simp add: spec_set_def spec_add_def get_path_dirname_def)
  ultimately show ?thesis by auto
qed

text \<open>Without the condition on raw values the typing is lost: \<open>purple_prefs_set_generic\<close> does not look
  at the type, and the getter reads the wrong member.\<close>

theorem prefs_set_generic_untypes:
  "Option.bind (Option.bind (purple_prefs_add_int 1 ''/x'' 5 prefs_empty) (purple_prefs_set_generic plain_env ''/x'' 9))
     (\<lambda>st. Some (pref_map st ''/x'', purple_prefs_get_int st ''/x'')) =
   Some (Some (PURPLE_PREF_INT, Generic 9), None)"
  by (simp add: purple_prefs_add_int_def add_with_value_def add_pref_def find_pref_parent_def
      get_path_dirname_def get_path_basename_def prefs_empty_def set_node_def set_value_def prefs_root_def
      purple_prefs_set_generic_def find_pref_def change_value_def do_callbacks_def do_callbacks_loop.simps
      node_callbacks.simps first_callback_def pref_map_def purple_prefs_get_int_def get_node_def)

text \<open>C22: A change reaches everybody who listens and gets saved, or the walk over the listeners dies: storing
  another number under an existing name calls the callbacks of the node, then those of the nodes above
  it up to the root, each once, in the order they were connected and with the new value, and starts
  the save timer if the callback that saves is among them and the file has been read; but if one of
  them disconnects itself, the walk goes on from the link that this has freed.  Storing the same
  number calls nobody.  What this says nothing about are callbacks that do more to the preferences
  than adding some or disconnecting themselves.\<close>

theorem prefs_set_int_notifies:
  assumes wf: "prefs_wf st"
    and ps: "ps \<noteq> []" "list_all good_part ps" and x: "pref_map st (full_name ps) = Some (PURPLE_PREF_INT, Integer j)"
    and cbs: "\<forall>cb \<in> set (heard st (rev ps)). cb_func cb = PREFS_SAVE_CB \<or> adds_only E cb \<or> drops_itself E cb"
  shows "map_option (\<lambda>st'. (notified st', save_timer st')) (purple_prefs_set_int E new (full_name ps) i st) =
     (if i = j then Some (notified st, save_timer st)
      else if \<exists>cb \<in> set (heard st (rev ps)). drops_itself E cb then None
      else Some
        (notified st @ map (\<lambda>cb. (cb_id cb, full_name ps, PURPLE_PREF_INT, Integer i)) (heard st (rev ps)),
         save_timer st \<or> prefs_loaded st \<and> (\<exists>cb \<in> set (heard st (rev ps)). cb_func cb = PREFS_SAVE_CB)))"
proof -
  have "pref_name (full_name ps)" using ps by (auto simp: pref_name_def)
  with wf show ?thesis
  proof (cases rule: pref_name_cases)
    case missing
    with x show ?thesis by simp
  next
    case (found pt qs a p)
    have "qs = ps" using full_name_inject [OF ptree_okD(3) [OF found(1,2)] ps(2)] found(4) by simp
    then have a: "pt a = Some ps" using found(2) by simp
    have co: "callbacks_ok st" using wf by (simp add: prefs_wf_def)
    have "\<forall>cb \<in> set (heard st (rev ps)). adding.regular E cb \<or> drops_itself E cb"
      using cbs by (auto simp: adding.regular_def)
    note walk = adding.change_value_walk [OF found(1) co a found(6) this, of "full_name ps" "Integer i"]
    have t: "p_type p = PURPLE_PREF_INT" "p_value p = Integer j" using found(7) x by simp_all
    have run: "purple_prefs_set_int E new (full_name ps) i st =
        (if i = j then Some st else change_value E (full_name ps) a (Integer i) st)"
      using found(4-6) t by (auto simp: purple_prefs_set_int_def)
    show ?thesis
    proof (cases "\<exists>cb \<in> set (heard st (rev ps)). drops_itself E cb")
      case True
      with walk show ?thesis unfolding run by simp
    next
      case False
      with walk obtain st' where st': "change_value E (full_name ps) a (Integer i) st = Some st'"
          "adding.told (full_name ps) (p\<lparr>p_value := Integer i\<rparr>) (heard st (rev ps))
             (set_node a (p\<lparr>p_value := Integer i\<rparr>) st) st'" by auto
      then have "notified st' = notified st @ map (\<lambda>cb. (cb_id cb, full_name ps, PURPLE_PREF_INT, Integer i)) (heard st (rev ps))"
          "save_timer st' \<longleftrightarrow> save_timer st \<or> saves st (heard st (rev ps))"
        using t by (auto simp: adding.told_def set_node_def saves_def)
      with False st'(1) show ?thesis unfolding run by (simp add: saves_def)
    qed
  qed
qed

definition example_prefs :: prefs where
  "example_prefs = \<lparr>
     nodes = [0 \<mapsto> \<lparr>p_type = PURPLE_PREF_NONE, p_name = None, p_value = Generic 0,
                     p_callbacks = [\<lparr>cb_id = 2, cb_func = 0, cb_data = 0, cb_handle = 1, cb_name = ''/''\<rparr>],
                     p_parent = None, p_children = [1]\<rparr>,
              1 \<mapsto> \<lparr>p_type = PURPLE_PREF_INT, p_name = Some ''ui'', p_value = Integer 5,
                     p_callbacks = [\<lparr>cb_id = 1, cb_func = 7, cb_data = 0, cb_handle = 3, cb_name = ''/ui''\<rparr>],
                     p_parent = Some 0, p_children = []\<rparr>],
     prefs_hash = [''/ui'' \<mapsto> 1], prefs_loaded = True, save_timer = False, last_cb_id = 2, notified = []\<rparr>"

lemma example_prefs_wf: "prefs_wf example_prefs" "prefs_typed example_prefs"
proof -
  show "prefs_wf example_prefs"
    unfolding prefs_wf_def
    by (intro conjI exI [of _ "[0 \<mapsto> [], 1 \<mapsto> [''ui'']]"])
       (auto simp: callbacks_ok_def ptree_ok_def paths_ok_def links_ok_def hash_ok_def example_prefs_def node_at_def
          prefs_root_def good_part_def full_name_join split: if_splits)
  show "prefs_typed example_prefs" by (simp add: prefs_typed_def example_prefs_def)
qed

text \<open>The callback with the function 7 disconnects itself.\<close>

definition once_env :: prefs_env where
  "once_env = plain_env\<lparr>on_change := \<lambda>cb n t v st.
     if cb_func cb = 7 then purple_prefs_disconnect_callback (cb_id cb) st else Some st\<rparr>"

text \<open>A callback that adds preferences under full names, as \<open>initialize_profile\<close> of \<open>finch/gntsound.c\<close>,
  does nothing else to them.\<close>

lemma add_keeps:
  assumes wf: "prefs_wf st" and x: "pref_name x" and a: "nodes st a = None"
  shows "\<exists>st'. add_with_value a t x v st = Some st' \<and> keeps_prefs st st' \<and> notified st' = notified st \<and>
    save_timer st' = save_timer st"
proof -
  obtain pt where ok: "ptree_ok pt st" and co: "callbacks_ok st" using wf by (auto simp: prefs_wf_def)
  obtain ps n where g: "list_all good_part (ps @ [n])" "x = full_name (ps @ [n])"
    using x unfolding pref_name_def by (metis rev_exhaust)
  have refl: "keeps_prefs st st" by (simp add: keeps_prefs_def)
  note result = add_with_value_result [OF ok g(1) a, of t v, folded g(2)]
  show ?thesis
  proof (cases "find_pref st (full_name ps)")
    case None
    with result refl show ?thesis by simp
  next
    case (Some b)
    then have b: "pt b = Some ps" using find_pref_full_name [OF ok] g(1) by auto
    obtain pb where pb: "nodes st b = Some pb" using ptree_ok_node [OF ok b] .
    let ?st = "linked a b pb ((new_pref t n b)\<lparr>p_value := v\<rparr>) x st"
    show ?thesis
    proof (cases "ps @ [n] \<in> ran pt")
      case True
      with result Some refl show ?thesis by simp
    next
      case False
      have "ptree_ok (pt(a \<mapsto> ps @ [n])) ?st"
        unfolding g(2) by (rule ptree_ok_linked [OF ok g(1) b pb False a]) (simp_all add: new_pref_def)
      moreover have "callbacks_ok ?st"
        by (rule callbacks_ok_fewer [OF co]) (use pb in \<open>auto simp: linked_def new_pref_def split: if_splits\<close>)
      ultimately have "keeps_prefs st ?st"
        using pb a by (auto simp: keeps_prefs_def prefs_wf_def linked_def)
      then show ?thesis using result Some False pb by (simp add: linked_def)
    qed
  qed
qed

lemma adding_callback:
  assumes alloc: "fresh_alloc alloc" and xs: "list_all (\<lambda>(t, x, v). pref_name x) xs"
    and run: "\<And>n t v st. on_change E cb n t v st = prefs_seq (map (\<lambda>(t, x, v) st. add_with_value (alloc st) t x v st) xs) st"
  shows "adds_only E cb"
proof -
  have "\<exists>st'. prefs_seq (map (\<lambda>(t, x, v) st. add_with_value (alloc st) t x v st) xs) st = Some st' \<and>
      keeps_prefs st st' \<and> notified st' = notified st \<and> save_timer st' = save_timer st" if "prefs_wf st" for st
    using xs that
  proof (induction xs arbitrary: st)
    case Nil
    then show ?case by (simp add: keeps_prefs_def)
  next
    case (Cons e xs)
    obtain t x v where e: "e = (t, x, v)" by (cases e)
    have "nodes st (alloc st) = None" using alloc prefs_wf_finite Cons.prems(2) by (simp add: fresh_alloc_def)
    with Cons.prems e obtain st1 where st1: "add_with_value (alloc st) t x v st = Some st1" "keeps_prefs st st1"
        "notified st1 = notified st" "save_timer st1 = save_timer st" using add_keeps [of st x "alloc st" t v] by auto
    then have "prefs_wf st1" using Cons.prems(2) by (simp add: keeps_prefs_def)
    with Cons e obtain st2 where "prefs_seq (map (\<lambda>(t, x, v) st. add_with_value (alloc st) t x v st) xs) st1 = Some st2"
        "keeps_prefs st1 st2" "notified st2 = notified st1" "save_timer st2 = save_timer st1" by auto
    with st1 e keeps_prefs_trans [OF st1(2)] show ?case by auto
  qed
  then show ?thesis by (simp add: adds_only_def run)
qed

lemma leaves_alone_adds: "leaves_alone E cb \<Longrightarrow> adds_only E cb"
  by (simp add: leaves_alone_def adds_only_def keeps_prefs_def)

lemma example_heard:
  "heard example_prefs [''ui''] =
     [\<lparr>cb_id = 1, cb_func = 7, cb_data = 0, cb_handle = 3, cb_name = ''/ui''\<rparr>,
      \<lparr>cb_id = 2, cb_func = 0, cb_data = 0, cb_handle = 1, cb_name = ''/''\<rparr>]"
  by (simp add: full_name_join callbacks_at_def find_pref_def example_prefs_def prefs_root_def)

theorem prefs_set_int_notifies_witness:
  "map_option (\<lambda>st'. (notified st', save_timer st')) (purple_prefs_set_int plain_env 9 ''/ui'' 6 example_prefs) =
     Some ([(1, ''/ui'', PURPLE_PREF_INT, Integer 6), (2, ''/ui'', PURPLE_PREF_INT, Integer 6)], True) \<and>
   purple_prefs_set_int once_env 9 ''/ui'' 6 example_prefs = None"
proof
  have m: "pref_map example_prefs (full_name [''ui'']) = Some (PURPLE_PREF_INT, Integer 5)"
    by (simp add: pref_map_def example_prefs_def full_name_join)
  have g: "[''ui''] \<noteq> []" "list_all good_part [''ui'']" by (simp_all add: good_part_def)
  have plain: "\<not> drops_itself plain_env cb" if "cb \<in> set (heard example_prefs [''ui''])" for cb
    using heard_in_node [OF that] quiet_regular(2) [OF plain_env_quiet(1) example_prefs_wf(1)] by metis
  have "\<forall>cb \<in> set (heard example_prefs (rev [''ui''])).
      cb_func cb = PREFS_SAVE_CB \<or> adds_only plain_env cb \<or> drops_itself plain_env cb"
    using leaves_alone_adds by simp
  from prefs_set_int_notifies [OF example_prefs_wf(1) g m this, of 9 6] plain
  show "map_option (\<lambda>st'. (notified st', save_timer st')) (purple_prefs_set_int plain_env 9 ''/ui'' 6 example_prefs) =
     Some ([(1, ''/ui'', PURPLE_PREF_INT, Integer 6), (2, ''/ui'', PURPLE_PREF_INT, Integer 6)], True)"
    by (simp add: full_name_join example_heard PREFS_SAVE_CB_def del: heard.simps)
       (simp add: example_prefs_def)
  have once: "drops_itself once_env \<lparr>cb_id = 1, cb_func = 7, cb_data = 0, cb_handle = 3, cb_name = ''/ui''\<rparr>"
    by (simp add: drops_itself_def once_env_def PREFS_SAVE_CB_def)
  then have "\<forall>cb \<in> set (heard example_prefs (rev [''ui''])).
      cb_func cb = PREFS_SAVE_CB \<or> adds_only once_env cb \<or> drops_itself once_env cb"
    by (simp add: example_heard PREFS_SAVE_CB_def del: heard.simps)
  from prefs_set_int_notifies [OF example_prefs_wf(1) g m this, of 9 6] once
  show "purple_prefs_set_int once_env 9 ''/ui'' 6 example_prefs = None"
    by (simp add: full_name_join example_heard del: heard.simps)
qed

text \<open>Disconnecting by handle is complete: afterwards nobody of that handle hears of any change, and
  all the others hear of it as before, in the same order.\<close>

theorem prefs_disconnect_by_handle_complete:
  assumes wf: "prefs_wf st" and h: "h \<noteq> 0"
  shows "\<exists>st'. purple_prefs_disconnect_by_handle h st = Some st' \<and> prefs_wf st' \<and> pref_map st' = pref_map st \<and>
     (\<forall>rps. heard st' rps = filter (\<lambda>cb. cb_handle cb \<noteq> h) (heard st rps))"
proof -
  obtain pt where ok: "ptree_ok pt st" using wf by (auto simp: prefs_wf_def)
  let ?st = "st\<lparr>nodes := \<lambda>a. if a \<in> nodes_under pt [prefs_root] then map_option (without_handle h) (nodes st a)
                               else nodes st a\<rparr>"
  have run: "purple_prefs_disconnect_by_handle h st = Some ?st"
    using disco_callback_helper_handle_result [OF ok root_todo [OF ok], of h] h
    by (simp add: purple_prefs_disconnect_by_handle_def)
  have all: "nodes ?st a = map_option (without_handle h) (nodes st a)" for a
    using ptree_okD(1) [OF ok] ptree_okD(4) [OF ok, of a] by (cases "nodes st a") (auto simp: nodes_under_def)
  have "shape ?st = shape st"
    by (auto simp: shape_def fun_eq_iff option.map_comp without_handle_def comp_def)
  moreover have "callbacks_ok st" using wf by (simp add: prefs_wf_def)
  ultimately have "prefs_wf ?st"
    using wf by (intro prefs_wf_shape [of ?st st, OF _ callbacks_ok_without_handle])
  moreover have "pref_map ?st = pref_map st"
    using all by (auto simp: pref_map_def fun_eq_iff option.map_comp without_handle_def comp_def split: option.split)
  moreover have at: "callbacks_at ?st qs = filter (\<lambda>cb. cb_handle cb \<noteq> h) (callbacks_at st qs)" for qs
    using all find_pref_cong [of ?st st] by (auto simp: callbacks_at_def without_handle_def split: option.split)
  have "heard ?st rps = filter (\<lambda>cb. cb_handle cb \<noteq> h) (heard st rps)" for rps
    by (induction rps) (simp_all add: at)
  ultimately show ?thesis using run by blast
qed

theorem prefs_disconnect_by_handle_complete_witness:
  "\<exists>st'. purple_prefs_disconnect_by_handle 3 example_prefs = Some st' \<and> prefs_wf st' \<and>
     pref_map st' = pref_map example_prefs \<and>
     (\<forall>rps. heard st' rps = filter (\<lambda>cb. cb_handle cb \<noteq> 3) (heard example_prefs rps))"
  by (rule prefs_disconnect_by_handle_complete [OF example_prefs_wf(1)]) simp

end
