(* ===== verification/Purple_Prefs_File.thy ===== *)
theory Purple_Prefs_File
  imports Purple_Prefs_Map
begin

section \<open>Preferences: saving and loading\<close>

text \<open>
  The tree written as elements and read back through the parser's callbacks is the same map, up to
  what the file cannot tell apart; and what the reader does with elements it does not understand.
\<close>

subsection \<open>Numbers\<close>






subsection \<open>What the file keeps\<close>

definition of_paths :: "PurplePrefType \<Rightarrow> bool" where
  "of_paths t \<longleftrightarrow> t = PURPLE_PREF_PATH \<or> t = PURPLE_PREF_PATH_LIST"

text \<open>The value attribute written for a string (\<open>NULL\<close> is written as the empty string; a file name that
  cannot be converted has no attribute), and the string made from an attribute.\<close>

definition written :: "prefs_env \<Rightarrow> PurplePrefType \<Rightarrow> cstring \<Rightarrow> cstring" where
  "written E t s = (if of_paths t then filename_to_utf8 E (text_of s) else Some (text_of s))"

definition read_back :: "prefs_env \<Rightarrow> PurplePrefType \<Rightarrow> cstring \<Rightarrow> cstring" where
  "read_back E t v = (if of_paths t then Option.bind v (filename_from_utf8 E) else v)"

text \<open>The value after a save and a load: strings and file names go through the file, a preference
  without type has no value there.\<close>

fun saved :: "prefs_env \<Rightarrow> PurplePrefType \<times> pref_value \<Rightarrow> PurplePrefType \<times> pref_value" where
  "saved E (PURPLE_PREF_NONE, v) = (PURPLE_PREF_NONE, Generic 0)"
| "saved E (t, String s) = (t, String (read_back E t (written E t s)))"
| "saved E (t, Stringlist l) = (t, Stringlist (map (\<lambda>s. read_back E t (written E t s)) l))"
| "saved E (t, v) = (t, v)"




subsection \<open>The reader\<close>



lemma stack_name_rev: "stack_name (rev ps) = join ps"
proof -
  have "fold (\<lambda>s acc. CHR ''/'' # s @ acc) (rev ps) acc = join ps @ acc" for acc
    by (induction ps arbitrary: acc rule: rev_induct) simp_all
  then show ?thesis by (simp add: stack_name_def)
qed

lemma child_full_name_rev: "child_full_name (rev ps) n = full_name (ps @ [n])"
  using stack_name_rev [of "ps @ [n]"] by (simp add: child_full_name_def full_name_join)















subsection \<open>The whole file\<close>

definition name_at :: "(addr \<Rightarrow> string list option) \<Rightarrow> addr \<Rightarrow> string" where
  "name_at pt b = full_name (the (pt b))"

text \<open>The map read so far, with the nodes under \<open>todo\<close> added.\<close>

definition loaded :: "prefs_env \<Rightarrow> (addr \<Rightarrow> string list option) \<Rightarrow> prefs \<Rightarrow> addr set \<Rightarrow> pref_view \<Rightarrow> pref_view" where
  "loaded E pt st S m = (\<lambda>y. if y \<in> name_at pt ` S then map_option (saved E) (pref_map st y) else m y)"






lemma loaded_Nil [simp]: "loaded E pt st {} m = m"
  by (simp add: loaded_def)
















subsection \<open>On the way out\<close>




subsection \<open>Elements the reader does not know\<close>

definition known_type :: "string \<Rightarrow> bool" where
  "known_type x \<longleftrightarrow> x \<in> {''bool'', ''int'', ''string'', ''stringlist'', ''path'', ''pathlist''}"

text \<open>C24: An element of an unknown type unbalances the reader: its start tag is ignored, but its end tag
  takes the enclosing element off the stack, so what follows inside the enclosing element is stored
  one level too high.\<close>

theorem prefs_unknown_type_misplaces:
  assumes "\<not> known_type ty" "prefs_stack l = s # rest"
  shows "run_sax E alloc (sax_events (Xml ''pref'' [(''name'', n), (''type'', ty)] [])) l =
      Some (l\<lparr>prefs_stack := rest\<rparr>) \<and>
    child_full_name rest m \<noteq> child_full_name (prefs_stack l) m"
proof -
  have "stack_name rest @ CHR ''/'' # m \<noteq> stack_name rest @ CHR ''/'' # s @ CHR ''/'' # m" by simp
  moreover have "child_full_name (rev ps) m = stack_name (rev ps) @ CHR ''/'' # m" for ps
    by (simp add: child_full_name_rev full_name_join stack_name_rev)
  note this [of "rev rest"] this [of "rev (s # rest)"]
  moreover have "stack_name (s # rest) = stack_name rest @ CHR ''/'' # s"
    using stack_name_rev [of "rev (s # rest)"] stack_name_rev [of "rev rest"] by simp
  ultimately have "child_full_name rest m \<noteq> child_full_name (s # rest) m" by simp
  with assms show ?thesis
    by (simp add: known_type_def prefs_start_element_handler_def prefs_end_element_handler_def)
qed

theorem prefs_unknown_type_misplaces_witness:
  "run_sax plain_env least_free (sax_events (Xml ''pref'' [(''name'', ''b''), (''type'', ''float'')] []))
     \<lparr>l_prefs = prefs_empty, prefs_stack = [''a'']\<rparr> = Some \<lparr>l_prefs = prefs_empty, prefs_stack = []\<rparr> \<and>
   child_full_name [] ''c'' \<noteq> child_full_name [''a''] ''c''"
  using prefs_unknown_type_misplaces [of "''float''" "\<lparr>l_prefs = prefs_empty, prefs_stack = [''a'']\<rparr>" "''a''" "[]"
      plain_env least_free "''b''" "''c''"]
  by (simp add: known_type_def del: sax_events.simps)

end
