(* ===== verification/Purple_Prefs_Rename.thy ===== *)
theory Purple_Prefs_Rename
  imports Purple_Prefs_Map
begin

section \<open>Preferences: renaming, and names the tree does not expect\<close>

text \<open>
  \<open>purple_prefs_rename\<close> carries the value of an old preference over to a new one and drops the old.
  The theory also shows what a name with a doubled slash leaves in the hash table, and what the
  walk over the callbacks of the interface does to short lists.
\<close>

subsection \<open>Storing under a name that exists\<close>

text \<open>As \<open>leads_to\<close>, with the hash table untouched.\<close>

definition stores_to :: "prefs \<Rightarrow> prefs option \<Rightarrow> pref_view \<Rightarrow> bool" where
  "stores_to st r m \<longleftrightarrow> leads_to r m \<and> map_option prefs_hash r = Some (prefs_hash st)"

lemma change_value_stores:
  assumes "quiet_env E" "ptree_ok pt st" "callbacks_ok st" "prefs_typed st" "pt a = Some ps" "ps \<noteq> []" "nodes st a = Some p" "value_fits (p_type p) v"
  shows "stores_to st (change_value E x a v st) ((pref_map st)(full_name ps \<mapsto> (p_type p, v)))"
proof -
  obtain st' where st': "change_value E x a v st = Some st'" "prefs_hash st' = prefs_hash st"
    using change_value_result [OF assms(1,2,3,5,7)] by metis
  with change_value_leads_to [OF assms, of x] show ?thesis by (simp add: stores_to_def)
qed

text \<open>The values that the setters accept as they are.\<close>

definition valid_value :: "prefs_env \<Rightarrow> pref_value \<Rightarrow> bool" where
  "valid_value E v =
     (case v of
        String s \<Rightarrow> \<not> invalid_utf8 E s
      | Stringlist l \<Rightarrow> list_all (\<lambda>s. \<not> invalid_utf8 E s) l
      | _ \<Rightarrow> True)"

definition store_value ::
  "prefs_env \<Rightarrow> addr \<Rightarrow> string \<Rightarrow> PurplePrefType \<Rightarrow> pref_value \<Rightarrow> prefs \<Rightarrow> prefs option" where
  "store_value E newpref newname t v st =
     (case (t, v) of
        (PURPLE_PREF_NONE, _) \<Rightarrow> Some st
      | (PURPLE_PREF_BOOLEAN, Boolean b) \<Rightarrow> purple_prefs_set_bool E newpref newname b st
      | (PURPLE_PREF_INT, Integer i) \<Rightarrow> purple_prefs_set_int E newpref newname i st
      | (PURPLE_PREF_STRING, String s) \<Rightarrow> purple_prefs_set_string E newpref newname s st
      | (PURPLE_PREF_STRING_LIST, Stringlist l) \<Rightarrow> purple_prefs_set_string_list E newpref newname l st
      | (PURPLE_PREF_PATH, String s) \<Rightarrow> purple_prefs_set_path E newpref newname s st
      | (PURPLE_PREF_PATH_LIST, Stringlist l) \<Rightarrow> purple_prefs_set_path_list E newpref newname l st
      | _ \<Rightarrow> None)"

lemma store_value_stores:
  assumes q: "quiet_env E" and wf: "prefs_wf st" and ty: "prefs_typed st" and x: "pref_name x"
    and m: "pref_map st x = Some (t, w)" and fits: "value_fits t v" and u: "valid_value E v"
  shows "stores_to st (store_value E r x t v st) ((pref_map st)(x \<mapsto> (t, if t = PURPLE_PREF_NONE then w else v)))"
  using wf x
proof (cases rule: pref_name_cases)
  case missing
  with m show ?thesis by simp
next
  case (found pt ps a p)
  have p: "p_type p = t" "p_value p = w" using found(7) m by simp_all
  have ch: "stores_to st (change_value E x a v st) ((pref_map st)(x \<mapsto> (t, v)))"
    using change_value_stores [OF q found(1) _ ty found(2,3,6), of v x] fits p found(4) wf by (simp add: prefs_wf_def)
  have same: "stores_to st (Some st) ((pref_map st)(x \<mapsto> (t, w)))"
    using wf ty m by (simp add: stores_to_def fun_upd_idem)
  have filt: "filter (\<lambda>s. \<not> invalid_utf8 E s) l = l" if "v = Stringlist l" for l
    using u that by (simp add: valid_value_def list_all_iff)
  show ?thesis
    using fits ch same found(5,6) p u filt
    by (cases t)
       (auto simp: store_value_def valid_value_def purple_prefs_set_bool_def purple_prefs_set_int_def
          purple_prefs_set_string_def purple_prefs_set_string_list_def purple_prefs_set_path_def
          purple_prefs_set_path_list_def)
qed

subsection \<open>Renaming\<close>

lemma rename_leaf:
  assumes wf: "prefs_wf st" and old: "find_pref st x = Some a" "nodes st a = Some po" "p_children po = []"
    and new: "find_pref st y = Some b" "nodes st b = Some pn" "pref_full_name st b = Some y"
    and t: "p_type po = p_type pn"
  shows "purple_prefs_rename E x y st =
    Option.bind (store_value E b y (p_type po) (p_value po) st) (remove_pref a)"
proof -
  have "purple_prefs_rename E x y st = rename_finish E a b st"
    using old new by (simp add: purple_prefs_rename_def) (subst rename_children.simps, simp)
  then show ?thesis
    using old new t by (simp add: rename_finish_def store_value_def)
qed

lemma leaf_of_view:
  assumes ok: "ptree_ok pt st" and a: "pt a = Some ps" "ps \<noteq> []" and p: "nodes st a = Some p"
    and leaf: "\<And>z. prefix (full_name ps @ ''/'') z \<Longrightarrow> pref_map st z = None"
  shows "p_children p = []"
proof (rule ccontr)
  assume "p_children p \<noteq> []"
  then obtain c where c: "c \<in> set (p_children p)" by (meson ex_in_conv set_empty)
  obtain q n where q: "nodes st c = Some q" "pt c = Some (ps @ [n])" using ptree_ok_child [OF ok p a(1) c] by metis
  have "pref_map st (full_name (ps @ [n])) = Some (p_type q, p_value q)"
    by (rule pref_map_path [OF ok q(2) _ q(1)]) simp
  moreover have "prefix (full_name ps @ ''/'') (full_name (ps @ [n]))"
    using a(2) by (simp add: full_name_join)
  ultimately show False using leaf by simp
qed

text \<open>C23: Renaming moves a preference: when both names exist with one type and nothing hangs under the old
  name, the new name afterwards holds the old value (valid strings), the old name is gone and nothing
  else has changed, provided that the callbacks leave the preferences alone.\<close>

theorem prefs_rename_moves:
  assumes q: "quiet_env E" and wf: "prefs_wf st" and ty: "prefs_typed st" and names: "pref_name x" "pref_name y" "x \<noteq> y"
    and mx: "pref_map st x = Some (t, v)" and my: "pref_map st y = Some (t, w)"
    and leaf: "\<And>z. prefix (x @ ''/'') z \<Longrightarrow> pref_map st z = None" and u: "valid_value E v"
  shows "\<exists>st'. purple_prefs_rename E x y st = Some st' \<and> prefs_wf st' \<and> prefs_typed st' \<and>
    pref_map st' = (pref_map st)(y \<mapsto> (t, if t = PURPLE_PREF_NONE then w else v), x := None)"
  using wf names(1)
proof (cases rule: pref_name_cases)
  case missing
  with mx show ?thesis by simp
next
  case (found pt ps a po)
  note old = this
  have po: "p_type po = t" "p_value po = v" using old(7) mx by simp_all
  have kids: "p_children po = []" using leaf_of_view [OF old(1-3,6)] leaf old(4) by simp
  have fits: "value_fits t v" using ty old(6) po by (auto simp: prefs_typed_def)
  from wf names(2) show ?thesis
  proof (cases rule: pref_name_cases)
    case missing
    with my show ?thesis by simp
  next
    case (found pt' qs b pn)
    have pn: "p_type pn = t" using found(7) my by simp
    have "pref_full_name st b = Some y"
      using pref_full_name_result [OF ptree_ok_names [OF found(1)] found(2)] found(4) by simp
    then have run: "purple_prefs_rename E x y st = Option.bind (store_value E b y t v st) (remove_pref a)"
      using rename_leaf [OF wf old(5,6) kids found(5,6)] po pn by simp
    obtain st1 where st1: "store_value E b y t v st = Some st1" "prefs_wf st1" "prefs_typed st1"
        "prefs_hash st1 = prefs_hash st"
        "pref_map st1 = (pref_map st)(y \<mapsto> (t, if t = PURPLE_PREF_NONE then w else v))"
      using store_value_stores [OF q wf ty names(2) my fits u, of b] by (auto simp: stores_to_def leads_to_def)
    have "remove_pref a st1 = purple_prefs_remove x st1"
      using find_pref_cong [OF st1(4)] old(5) by (simp add: purple_prefs_remove_def)
    then obtain st2 where st2: "remove_pref a st1 = Some st2" "prefs_wf st2" "prefs_typed st2"
        "pref_map st2 = spec_remove x (pref_map st1)"
      using remove_leads_to [OF st1(2,3), of x] names(1) by (auto simp: leads_to_def)
    have "x \<noteq> ''/''" using old(3,4) ptree_okD(3) [OF old(1,2)] by simp
    moreover have "\<not> prefix (x @ ''/'') y" using leaf my by auto
    ultimately have "spec_remove x (pref_map st1) = (pref_map st1)(x := None)"
      using leaf by (auto simp: spec_remove_def st1(5) fun_eq_iff)
    with st2 st1 run show ?thesis by simp
  qed
qed

definition example_rename :: prefs where
  "example_rename = \<lparr>
     nodes = [0 \<mapsto> \<lparr>p_type = PURPLE_PREF_NONE, p_name = None, p_value = Generic 0, p_callbacks = [],
                     p_parent = None, p_children = [1, 2]\<rparr>,
              1 \<mapsto> \<lparr>p_type = PURPLE_PREF_INT, p_name = Some ''a'', p_value = Integer 5, p_callbacks = [],
                     p_parent = Some 0, p_children = []\<rparr>,
              2 \<mapsto> \<lparr>p_type = PURPLE_PREF_INT, p_name = Some ''b'', p_value = Integer 6, p_callbacks = [],
                     p_parent = Some 0, p_children = []\<rparr>],
     prefs_hash = [''/a'' \<mapsto> 1, ''/b'' \<mapsto> 2], prefs_loaded = True, save_timer = False,
     last_cb_id = 0, notified = []\<rparr>"

lemma example_rename_wf: "prefs_wf example_rename" "prefs_typed example_rename"
proof -
  show "prefs_wf example_rename"
    unfolding prefs_wf_def
    by (intro conjI exI [of _ "[0 \<mapsto> [], 1 \<mapsto> [''a''], 2 \<mapsto> [''b'']]"])
       (auto simp: callbacks_ok_def ptree_ok_def paths_ok_def links_ok_def hash_ok_def example_rename_def node_at_def
          prefs_root_def good_part_def full_name_join split: if_splits)
  show "prefs_typed example_rename" by (simp add: prefs_typed_def example_rename_def)
qed

theorem prefs_rename_moves_witness:
  "\<exists>st'. purple_prefs_rename plain_env ''/a'' ''/b'' example_rename = Some st' \<and> prefs_wf st' \<and>
     prefs_typed st' \<and> pref_map st' = (pref_map example_rename)(''/b'' \<mapsto> (PURPLE_PREF_INT, Integer 5), ''/a'' := None)"
proof -
  have n: "pref_name ''/a''" "pref_name ''/b''"
    by (rule pref_name_intro [of "[''a'']"]; simp add: good_part_def full_name_join)
       (rule pref_name_intro [of "[''b'']"]; simp add: good_part_def full_name_join)
  have m: "pref_map example_rename ''/a'' = Some (PURPLE_PREF_INT, Integer 5)"
      "pref_map example_rename ''/b'' = Some (PURPLE_PREF_INT, Integer 6)"
    by (simp_all add: pref_map_def example_rename_def)
  have "pref_map example_rename z = None" if "prefix (''/a'' @ ''/'') z" for z
    using that by (auto simp: pref_map_def example_rename_def prefix_def)
  from prefs_rename_moves [where E = plain_env, OF plain_env_quiet(1) example_rename_wf n _ m this] show ?thesis
    by (simp add: valid_value_def)
qed

subsection \<open>Doubled slashes\<close>

text \<open>A preference added as \<open>//x\<close> is found in the table under that name, but removing it takes the
  entry of its full name \<open>/x\<close> out: the table keeps a pointer to the freed node, and the next use
  of the name reads it.\<close>

theorem prefs_double_slash_dangles:
  "map_option (\<lambda>st. (nodes st 1, prefs_hash st ''//x'', purple_prefs_get_int st ''//x''))
     (Option.bind (purple_prefs_add_int 1 ''//x'' 5 prefs_empty) (purple_prefs_remove ''//x'')) =
   Some (None, Some 1, None)"
proof -
  let ?root = "\<lparr>p_type = PURPLE_PREF_NONE, p_name = None, p_value = Generic 0, p_callbacks = [],
                p_parent = None, p_children = [1]\<rparr>"
  let ?x = "\<lparr>p_type = PURPLE_PREF_INT, p_name = Some ''x'', p_value = Integer 5, p_callbacks = [],
             p_parent = Some 0, p_children = []\<rparr>"
  define st where "st = prefs_empty\<lparr>nodes := [0 \<mapsto> ?root, 1 \<mapsto> ?x], prefs_hash := [''//x'' \<mapsto> 1]\<rparr>"
  have "purple_prefs_add_int 1 ''//x'' 5 prefs_empty = Some st"
    by (simp add: purple_prefs_add_int_def add_with_value_def add_pref_def find_pref_parent_def
        get_path_dirname_def get_path_basename_def prefs_empty_def set_node_def set_value_def prefs_root_def st_def)
  moreover have "purple_prefs_remove ''//x'' st =
      Some (st\<lparr>nodes := [0 \<mapsto> ?root\<lparr>p_children := []\<rparr>]\<rparr>)"
    by (simp add: purple_prefs_remove_def find_pref_def st_def remove_pref.simps [of "Suc 0"] unlink_pref_def
        set_node_def pref_full_name_def full_name_loop.simps prefs_root_def prefs_empty_def fun_eq_iff)
  ultimately show ?thesis
    by (simp add: purple_prefs_get_int_def get_node_def find_pref_def st_def)
qed

subsection \<open>Callbacks of the interface\<close>

text \<open>The walk that takes the callbacks of a handle off follows a \<open>NULL\<close> pointer whenever exactly one
  callback is left to visit, whether it matches or not.\<close>

theorem disco_ui_callback_single_crashes:
  "disco_ui_callback_helper_handle h 0 [cb] = None"
  by (subst disco_ui_callback_helper_handle.simps) simp

end
