(* ===== verification/Yahoo_Packet.thy ===== *)
theory Yahoo_Packet
  imports Circ_Buffer Oscar_Bstream "HOL-Library.Signed_Division"
begin

section \<open>Yahoo packets (\<open>protocols/yahoo/yahoo_packet.c\<close>)\<close>

text \<open>
  A packet is a header and a list of pairs of a number and a string; on the wire every number and
  every string is followed by the bytes C0 80.  The buffer that \<open>yahoo_packet_build\<close> allocates is
  a list of its size, and a write outside it is the value \<open>None\<close>.  A string is its bytes before
  the NUL.  The reader works on the part of its data that is left; the position that runs past the
  end is the empty list.
\<close>

record yahoo_pair =
  pair_key :: int
  pair_value :: bytes

record yahoo_packet =
  pkt_service :: "16 word"
  pkt_status :: "32 word"
  pkt_id :: "32 word"
  pkt_hash :: "yahoo_pair list"

definition yahoo_packet_new :: "16 word \<Rightarrow> 32 word \<Rightarrow> 32 word \<Rightarrow> yahoo_packet" where
  "yahoo_packet_new service status ident =
     \<lparr>pkt_service = service, pkt_status = status, pkt_id = ident, pkt_hash = []\<rparr>"

subsection \<open>Numbers\<close>

text \<open>The format \<open>%d\<close>, and \<open>strtol\<close> in base 10 with its saturation.\<close>

fun dec_digits :: "nat \<Rightarrow> bytes" where
  "dec_digits n = (if n < 10 then [of_nat (48 + n)] else dec_digits (n div 10) @ [of_nat (48 + n mod 10)])"

declare dec_digits.simps [simp del]

definition printf_d :: "int \<Rightarrow> bytes" where
  "printf_d i = (if i < 0 then 45 # dec_digits (nat (- i)) else dec_digits (nat i))"

definition is_dec :: "byte \<Rightarrow> bool" where
  "is_dec b \<longleftrightarrow> 48 \<le> b \<and> b \<le> 57"

definition dec_value :: "int \<Rightarrow> bytes \<Rightarrow> int" where
  "dec_value acc ds = foldl (\<lambda>n d. 10 * n + (uint d - 48)) acc ds"

definition LONG_MAX :: int where
  "LONG_MAX = 2 ^ 63 - 1"

definition strtol10 :: "bytes \<Rightarrow> int" where
  "strtol10 s =
     (let t = dropWhile (\<lambda>b. b \<in> {9, 10, 11, 12, 13, 32}) s;
          neg = (t \<noteq> [] \<and> hd t = 45);
          u = (if t \<noteq> [] \<and> hd t \<in> {43, 45} then tl t else t);
          v = dec_value 0 (takeWhile is_dec u)
      in if neg then max (- LONG_MAX - 1) (- v) else min LONG_MAX v)"

text \<open>The conversion of a \<open>long\<close> to an \<open>int\<close>.\<close>

definition int_of_long :: "int \<Rightarrow> int" where
  "int_of_long x = (x + 2 ^ 31) mod 2 ^ 32 - 2 ^ 31"

subsection \<open>Filling a packet\<close>

definition yahoo_packet_hash_str :: "yahoo_packet \<Rightarrow> int \<Rightarrow> bytes option \<Rightarrow> yahoo_packet" where
  "yahoo_packet_hash_str pkt key value =
     (case value of
        None \<Rightarrow> pkt
      | Some v \<Rightarrow> pkt\<lparr>pkt_hash := \<lparr>pair_key = key, pair_value = v\<rparr> # pkt_hash pkt\<rparr>)"

definition yahoo_packet_hash_int :: "yahoo_packet \<Rightarrow> int \<Rightarrow> int \<Rightarrow> yahoo_packet" where
  "yahoo_packet_hash_int pkt key value =
     pkt\<lparr>pkt_hash := \<lparr>pair_key = key, pair_value = printf_d value\<rparr> # pkt_hash pkt\<rparr>"

text \<open>The variable arguments: numbers and strings.  \<open>None\<close> when they do not fit the format.\<close>

datatype va = VInt int | VStr "bytes option"

fun yahoo_packet_hash :: "yahoo_packet \<Rightarrow> string \<Rightarrow> va list \<Rightarrow> yahoo_packet option" where
  "yahoo_packet_hash pkt [] ap = Some pkt"
| "yahoo_packet_hash pkt (f # fmt) (VInt key # ap) =
     (if f = CHR ''i''
      then (case ap of VInt v # ap' \<Rightarrow> yahoo_packet_hash (yahoo_packet_hash_int pkt key v) fmt ap' | _ \<Rightarrow> None)
      else if f = CHR ''s''
      then (case ap of VStr v # ap' \<Rightarrow> yahoo_packet_hash (yahoo_packet_hash_str pkt key v) fmt ap' | _ \<Rightarrow> None)
      else yahoo_packet_hash pkt fmt ap)"
| "yahoo_packet_hash pkt (f # fmt) _ = None"

subsection \<open>Writing\<close>

text \<open>The loop over \<open>tmp /= 10\<close>, which rounds towards zero.\<close>

function key_length :: "int \<Rightarrow> nat" where
  "key_length tmp = (if tmp sdiv 10 = 0 then 1 else Suc (key_length (tmp sdiv 10)))"
  by pat_completeness auto

lemma sdiv_10_smaller: "tmp sdiv (10 :: int) \<noteq> 0 \<Longrightarrow> nat \<bar>tmp sdiv 10\<bar> < nat \<bar>tmp\<bar>"
  by (simp add: signed_divide_int_def abs_mult sgn_if split: if_splits)

termination key_length
  by (relation "measure (\<lambda>tmp. nat \<bar>tmp\<bar>)") (use sdiv_10_smaller in auto)

declare key_length.simps [simp del]

fun pairs_length :: "yahoo_pair list \<Rightarrow> nat" where
  "pairs_length [] = 0"
| "pairs_length (p # l) = key_length (pair_key p) + 2 + length (pair_value p) + 2 + pairs_length l"

definition yahoo_packet_length :: "yahoo_packet \<Rightarrow> nat" where
  "yahoo_packet_length pkt = pairs_length (pkt_hash pkt)"

definition store_at :: "nat \<Rightarrow> bytes \<Rightarrow> bytes \<Rightarrow> bytes option" where
  "store_at pos src data = (if pos + length src \<le> length data then Some (memcpy_at pos src data) else None)"

text \<open>\<open>strcpy\<close> writes the terminating NUL too, which the delimiter overwrites.\<close>

definition write_string :: "nat \<Rightarrow> bytes \<Rightarrow> bytes \<Rightarrow> bytes option" where
  "write_string pos s data = Option.bind (store_at pos (s @ [0]) data) (store_at (pos + length s) [0xC0, 0x80])"

fun write_pairs :: "yahoo_pair list \<Rightarrow> nat \<Rightarrow> bytes \<Rightarrow> bytes option" where
  "write_pairs [] pos data = Some data"
| "write_pairs (p # l) pos data =
     (let buf = printf_d (pair_key p) in
      Option.bind (write_string pos buf data) (\<lambda>data1.
        Option.bind (write_string (pos + length buf + 2) (pair_value p) data1)
          (write_pairs l (pos + length buf + 2 + length (pair_value p) + 2))))"

text \<open>The list is turned around in place.\<close>

definition yahoo_packet_write :: "yahoo_packet \<Rightarrow> nat \<Rightarrow> bytes \<Rightarrow> (yahoo_packet \<times> bytes) option" where
  "yahoo_packet_write pkt pos data =
     (let l = rev (pkt_hash pkt)
      in map_option (Pair (pkt\<lparr>pkt_hash := l\<rparr>)) (write_pairs l pos data))"

definition yahoo_put16 :: "16 word \<Rightarrow> bytes" where
  "yahoo_put16 d = [ucast (drop_bit 8 d) AND 0xff, ucast d AND 0xff]"

definition yahoo_put32 :: "32 word \<Rightarrow> bytes" where
  "yahoo_put32 d = [ucast (drop_bit 24 d) AND 0xff, ucast (drop_bit 16 d) AND 0xff,
                    ucast (drop_bit 8 d) AND 0xff, ucast d AND 0xff]"

definition YAHOO_WEBMESSENGER_PROTO_VER :: "16 word" where
  "YAHOO_WEBMESSENGER_PROTO_VER = 0x0065"

definition YAHOO_PROTO_VER :: "16 word" where
  "YAHOO_PROTO_VER = 0x0010"

definition YAHOO_PROTO_VER_JAPAN :: "16 word" where
  "YAHOO_PROTO_VER_JAPAN = 0x0010"

definition YAHOO_PACKET_HDRLEN :: nat where
  "YAHOO_PACKET_HDRLEN = 4 + 2 + 2 + 2 + 2 + 4 + 4"

definition YMSG :: bytes where
  "YMSG = [0x59, 0x4D, 0x53, 0x47]"

definition packet_header :: "yahoo_packet \<Rightarrow> nat \<Rightarrow> bool \<Rightarrow> bool \<Rightarrow> bytes" where
  "packet_header pkt paylen wm jp =
     YMSG @
     yahoo_put16 (if wm then YAHOO_WEBMESSENGER_PROTO_VER else if jp then YAHOO_PROTO_VER_JAPAN
                  else YAHOO_PROTO_VER) @
     yahoo_put16 0 @ yahoo_put16 (of_nat paylen) @ yahoo_put16 (pkt_service pkt) @
     yahoo_put32 (pkt_status pkt) @ yahoo_put32 (pkt_id pkt)"

text \<open>The length returned, the packet with its list turned, and the buffer of one byte more.\<close>

definition yahoo_packet_build ::
  "yahoo_packet \<Rightarrow> nat \<Rightarrow> bool \<Rightarrow> bool \<Rightarrow> (nat \<times> yahoo_packet \<times> bytes) option" where
  "yahoo_packet_build pkt pad wm jp =
     (let pktlen = yahoo_packet_length pkt;
          len = YAHOO_PACKET_HDRLEN + pktlen
      in Option.bind (store_at 0 (packet_header pkt (pktlen + pad) wm jp) (replicate (len + 1) 0)) (\<lambda>data.
           map_option (\<lambda>(pkt', data'). (len, pkt', data')) (yahoo_packet_write pkt YAHOO_PACKET_HDRLEN data)))"

subsection \<open>Reading\<close>

text \<open>The bytes of a key up to the delimiter, with the counter that goes on when the buffer of 64 is
  full; the loop stops when fewer than two bytes are left.\<close>

fun read_key :: "nat \<Rightarrow> bytes \<Rightarrow> bytes \<Rightarrow> nat \<times> bytes \<times> bytes" where
  "read_key x key (a # b # r) =
     (if a = 0xC0 \<and> b = 0x80 then (x, key, a # b # r)
      else if 63 \<le> x then read_key (x + 1) key (b # r)
      else read_key (x + 1) (key @ [a]) (b # r))"
| "read_key x key r = (x, key, r)"

text \<open>\<open>g_strstr_len\<close> for the delimiter, which also stops at a NUL: what stands before it, and the rest
  from it on.\<close>

fun find_delimiter :: "bytes \<Rightarrow> (bytes \<times> bytes) option" where
  "find_delimiter (a # b # r) =
     (if a = 0 then None
      else if a = 0xC0 \<and> b = 0x80 then Some ([], a # b # r)
      else map_option (\<lambda>(v, d). (a # v, d)) (find_delimiter (b # r)))"
| "find_delimiter _ = None"

lemma read_key_length: "read_key x key r = (x', key', r') \<Longrightarrow> length r' \<le> length r"
  by (induction x key r rule: read_key.induct) (auto split: if_splits)

lemma find_delimiter_length: "find_delimiter r = Some (v, d) \<Longrightarrow> length d \<le> length r"
  by (induction r arbitrary: v rule: find_delimiter.induct) (auto split: if_splits)

text \<open>One byte is skipped in packets that begin with a 9.\<close>

definition skip_garbage :: "byte \<Rightarrow> bytes \<Rightarrow> bytes" where
  "skip_garbage first r = (if r \<noteq> [] \<and> first = 57 \<and> hd r = 1 then tl r else r)"

lemma skip_garbage_length: "length (skip_garbage first r) \<le> length r"
  by (simp add: skip_garbage_def)

text \<open>One turn of the loop: the pair if there is one, and what is left; \<open>None\<close> for the end.\<close>

definition read_pair :: "byte \<Rightarrow> bytes \<Rightarrow> (yahoo_pair option \<times> bytes) option" where
  "read_pair first data =
     (if length data < 2 \<or> hd data = 0 then None
      else
        case read_key 0 [] data of
          (x, key, rest) \<Rightarrow>
            let x = (if 63 \<le> x then 0 else x);
                key = int_of_long (strtol10 (take x key));
                rest = drop 2 rest
            in if x \<noteq> 0 \<and> rest \<noteq> []
               then (case find_delimiter rest of
                       None \<Rightarrow> Some (None, [])
                     | Some (v, d) \<Rightarrow>
                         Some (Some \<lparr>pair_key = key, pair_value = v\<rparr>, skip_garbage first (drop 2 d)))
               else Some (None, skip_garbage first (drop 2 rest)))"

lemma read_pair_length: "read_pair first data = Some (p, r) \<Longrightarrow> length r < length data"
  by (auto simp: read_pair_def Let_def split: if_splits option.splits prod.splits
      dest!: read_key_length find_delimiter_length intro!: le_less_trans [OF skip_garbage_length])

function read_pairs :: "byte \<Rightarrow> bytes \<Rightarrow> yahoo_pair list \<Rightarrow> yahoo_pair list" where
  "read_pairs first data acc =
     (case read_pair first data of
        None \<Rightarrow> acc
      | Some (None, r) \<Rightarrow> read_pairs first r acc
      | Some (Some p, r) \<Rightarrow> read_pairs first r (p # acc))"
  by pat_completeness auto
termination
  by (relation "measure (\<lambda>(first, data, acc). length data)") (auto dest: read_pair_length)

declare read_pairs.simps [simp del]

definition yahoo_packet_read :: "yahoo_packet \<Rightarrow> bytes \<Rightarrow> yahoo_packet" where
  "yahoo_packet_read pkt data =
     pkt\<lparr>pkt_hash := rev (read_pairs (if data = [] then 0 else hd data) data (pkt_hash pkt))\<rparr>"

subsection \<open>Packets out of a stream (\<open>yahoo_pending\<close> of \<open>libymsg.c\<close>)\<close>

definition yahoo_get16 :: "bytes \<Rightarrow> 16 word" where
  "yahoo_get16 b = (push_bit 8 (ucast (b ! 0)) AND 0xff00) + (ucast (b ! 1) AND 0xff)"

definition yahoo_get32 :: "bytes \<Rightarrow> 32 word" where
  "yahoo_get32 b =
     (push_bit 24 (ucast (b ! 0)) AND 0xff000000) + (push_bit 16 (ucast (b ! 1)) AND 0x00ff0000) +
     (push_bit 8 (ucast (b ! 2)) AND 0x0000ff00) + (ucast (b ! 3) AND 0x000000ff)"

text \<open>One turn of the loop over the queue of received bytes: wait for more, throw bytes away up to the
  next Y, or take a packet out.\<close>

datatype frame = Wait | Resync bytes | Packet yahoo_packet bytes

definition next_frame :: "bytes \<Rightarrow> frame" where
  "next_frame q =
     (if length q < YAHOO_PACKET_HDRLEN then Wait
      else if take 4 q \<noteq> YMSG then Resync (dropWhile (\<lambda>b. b \<noteq> 0x59) (tl q))
      else
        let pktlen = unat (yahoo_get16 (drop 8 q)) in
        if length q < YAHOO_PACKET_HDRLEN + pktlen then Wait
        else Packet
               (yahoo_packet_read
                  (yahoo_packet_new (yahoo_get16 (drop 10 q)) (yahoo_get32 (drop 12 q)) (yahoo_get32 (drop 16 q)))
                  (take pktlen (drop YAHOO_PACKET_HDRLEN q)))
               (drop (YAHOO_PACKET_HDRLEN + pktlen) q))"

lemma next_frame_shrinks:
  "next_frame q = Resync r \<Longrightarrow> length r < length q"
  "next_frame q = Packet p r \<Longrightarrow> length r < length q"
  by (auto simp: next_frame_def Let_def YAHOO_PACKET_HDRLEN_def split: if_splits
      intro: le_less_trans [OF length_dropWhile_le])

function yahoo_frames :: "bytes \<Rightarrow> yahoo_packet list \<Rightarrow> yahoo_packet list \<times> bytes" where
  "yahoo_frames q acc =
     (case next_frame q of
        Wait \<Rightarrow> (acc, q)
      | Resync r \<Rightarrow> if r = [] then (acc, []) else yahoo_frames r acc
      | Packet p r \<Rightarrow> yahoo_frames r (acc @ [p]))"
  by pat_completeness auto
termination
  by (relation "measure (\<lambda>(q, acc). length q)") (auto dest: next_frame_shrinks)

declare yahoo_frames.simps [simp del]

text \<open>The receiving side of a connection, with the packets handed to \<open>yahoo_packet_process\<close> in order
  (which is taken to leave the queue alone).\<close>

datatype read_result = Got bytes | Read_again | Read_error

record yahoo_rx =
  rxqueue :: bytes
  processed :: "yahoo_packet list"
  rx_error :: bool

definition yahoo_pending :: "read_result \<Rightarrow> yahoo_rx \<Rightarrow> yahoo_rx" where
  "yahoo_pending r yd =
     (case r of
        Read_again \<Rightarrow> yd
      | Read_error \<Rightarrow> yd\<lparr>rx_error := True\<rparr>
      | Got buf \<Rightarrow>
          if buf = [] then yd\<lparr>rx_error := True\<rparr>
          else
            (case yahoo_frames (rxqueue yd @ buf) (processed yd) of
               (ps, q) \<Rightarrow> yd\<lparr>rxqueue := q, processed := ps\<rparr>))"

end
