(* ===== verification/Yahoo_Wire.thy ===== *)
theory Yahoo_Wire
  imports Yahoo_Packet "HOL-Library.Sublist"
begin

section \<open>Yahoo packets on the wire\<close>

text \<open>
  What the builder writes fits its buffer (up to one negative key), and is read back; a stream of
  packets is cut into the same packets however the network has split it.
\<close>

subsection \<open>Numbers\<close>

lemma dec_digit:
  assumes "n < 10"
  shows "is_dec (of_nat (48 + n)) \<and> uint (of_nat (48 + n) :: byte) = 48 + int n"
proof -
  have "unat (of_nat (48 + n) :: byte) = 48 + n"
    using assms by (simp add: unat_of_nat del: of_nat_add)
  then show ?thesis using assms by (simp only: is_dec_def word_le_nat_alt uint_nat) simp
qed

lemma dec_digits_digits: "list_all is_dec (dec_digits n) \<and> dec_digits n \<noteq> []"
proof (induction n rule: dec_digits.induct)
  case (1 n)
  have "is_dec (of_nat (48 + n mod 10))" using dec_digit [of "n mod 10"] by simp
  with 1 dec_digit [of n] show ?case by (subst (1 2) dec_digits.simps) simp
qed

lemma dec_value_digits: "dec_value 0 (dec_digits n) = int n"
proof (induction n rule: dec_digits.induct)
  case (1 n)
  show ?case
  proof (cases "n < 10")
    case True
    with dec_digit [of n] show ?thesis by (subst dec_digits.simps) (simp add: dec_value_def)
  next
    case False
    with 1 dec_digit [of "n mod 10"] show ?thesis
      by (subst dec_digits.simps) (simp add: dec_value_def zdiv_int zmod_int)
  qed
qed

lemma key_length_digits: "key_length (int n) = length (dec_digits n)"
proof (induction n rule: dec_digits.induct)
  case (1 n)
  have "int n sdiv 10 = int (n div 10)" by (simp add: signed_divide_int_def sgn_if zdiv_int)
  with 1 show ?case by (subst key_length.simps, subst dec_digits.simps) auto
qed

lemma key_length_minus: "key_length (- i) = key_length i"
proof (induction "nat \<bar>i\<bar>" arbitrary: i rule: less_induct)
  case less
  have "(- i) sdiv 10 = - (i sdiv 10)" by (rule minus_sdiv_eq)
  with less sdiv_10_smaller [of i] show ?case by (subst (1 2) key_length.simps) auto
qed

text \<open>The sign is not counted.\<close>

lemma length_printf_d: "length (printf_d i) = key_length i + (if i < 0 then 1 else 0)"
proof (cases "i < 0")
  case True
  with key_length_digits [of "nat (- i)"] key_length_minus [of i] show ?thesis by (simp add: printf_d_def)
next
  case False
  with key_length_digits [of "nat i"] show ?thesis by (simp add: printf_d_def)
qed

lemma dec_digits_short: "n < 10 ^ Suc k \<Longrightarrow> length (dec_digits n) \<le> Suc k"
proof (induction k arbitrary: n)
  case 0
  then show ?case by (subst dec_digits.simps) simp
next
  case (Suc k)
  show ?case
  proof (cases "n < 10")
    case True
    then show ?thesis by (subst dec_digits.simps) simp
  next
    case False
    have "n div 10 < 10 ^ Suc k" using Suc.prems by (simp add: less_mult_imp_div_less mult.commute)
    from Suc.IH [OF this] False show ?thesis by (subst dec_digits.simps) simp
  qed
qed

lemma is_dec_simps [simp]: "\<not> is_dec 0xC0" "\<not> is_dec 0" "\<not> is_dec 1"
  by (simp_all add: is_dec_def word_le_nat_alt)

lemma strtol10_digits:
  assumes "int n \<le> LONG_MAX"
  shows "strtol10 (dec_digits n) = int n"
proof -
  obtain d ds where d: "dec_digits n = d # ds" "is_dec d" "list_all is_dec ds"
    using dec_digits_digits [of n] by (cases "dec_digits n") auto
  have "\<not> is_dec 9" "\<not> is_dec 10" "\<not> is_dec 11" "\<not> is_dec 12" "\<not> is_dec 13" "\<not> is_dec 32"
    "\<not> is_dec 43" "\<not> is_dec 45" by (simp_all add: is_dec_def)
  with d(2) have "d \<notin> {9, 10, 11, 12, 13, 32}" "d \<noteq> 43" "d \<noteq> 45" by auto
  moreover have t: "takeWhile is_dec (d # ds) = d # ds"
    using d(2,3) by (simp add: list_all_iff takeWhile_eq_all_conv del: takeWhile.simps)
  ultimately show ?thesis
    using assms dec_value_digits [of n] by (simp add: strtol10_def Let_def d(1) t del: takeWhile.simps)
qed

subsection \<open>Writing\<close>

definition pair_bytes :: "yahoo_pair \<Rightarrow> bytes" where
  "pair_bytes p = printf_d (pair_key p) @ [0xC0, 0x80] @ pair_value p @ [0xC0, 0x80]"

definition payload :: "yahoo_pair list \<Rightarrow> bytes" where
  "payload l = concat (map pair_bytes l)"

lemma payload_simps [simp]: "payload [] = []" "payload (p # l) = pair_bytes p @ payload l"
  "payload (l @ m) = payload l @ payload m"
  by (simp_all add: payload_def)

definition negative_keys :: "yahoo_pair list \<Rightarrow> nat" where
  "negative_keys l = length (filter (\<lambda>p. pair_key p < 0) l)"

lemma length_payload: "length (payload l) = pairs_length l + negative_keys l"
  by (induction l) (simp_all add: pair_bytes_def length_printf_d negative_keys_def)

lemma pairs_length_rev: "pairs_length (rev l) = pairs_length l" "negative_keys (rev l) = negative_keys l"
proof -
  have "pairs_length (a @ b) = pairs_length a + pairs_length b" for a b by (induction a) simp_all
  then show "pairs_length (rev l) = pairs_length l" by (induction l) simp_all
  show "negative_keys (rev l) = negative_keys l" by (simp add: negative_keys_def rev_filter [symmetric])
qed

lemma write_string_result:
  "write_string pos s data =
     (if pos + length s + 2 \<le> length data then Some (memcpy_at pos (s @ [0xC0, 0x80]) data) else None)"
proof (cases "pos + length s + 2 \<le> length data")
  case True
  then have "memcpy_at (pos + length s) [0xC0, 0x80] (memcpy_at pos (s @ [0]) data) = memcpy_at pos (s @ [0xC0, 0x80]) data"
    by (simp add: memcpy_at_def min_def)
  with True show ?thesis by (simp add: write_string_def store_at_def)
next
  case False
  then show ?thesis by (auto simp: write_string_def store_at_def)
qed

lemma write_pairs_result:
  "pos \<le> length data \<Longrightarrow> write_pairs l pos data =
     (if pos + length (payload l) \<le> length data then Some (memcpy_at pos (payload l) data) else None)"
proof (induction l arbitrary: pos data)
  case Nil
  then show ?case by simp
next
  case (Cons p l)
  let ?k = "printf_d (pair_key p)" and ?v = "pair_value p"
  show ?case
  proof (cases "pos + length (pair_bytes p) \<le> length data")
    case False
    then show ?thesis
      by (auto simp: write_string_result pair_bytes_def Let_def)
  next
    case True
    have two: "memcpy_at (pos + length ?k + 2) (?v @ [0xC0, 0x80]) (memcpy_at pos (?k @ [0xC0, 0x80]) data) =
        memcpy_at pos (pair_bytes p) data"
      using True memcpy_at_append [of pos "?k @ [0xC0, 0x80]" "?v @ [0xC0, 0x80]" data]
      by (simp add: pair_bytes_def)
    have "write_pairs (p # l) pos data =
        write_pairs l (pos + length (pair_bytes p)) (memcpy_at pos (pair_bytes p) data)"
      using True two by (simp add: write_string_result pair_bytes_def Let_def ac_simps)
    also have "\<dots> = (if pos + length (payload (p # l)) \<le> length data
        then Some (memcpy_at pos (payload (p # l)) data) else None)"
      using Cons.IH [of "pos + length (pair_bytes p)" "memcpy_at pos (pair_bytes p) data"] True
        memcpy_at_append [of pos "pair_bytes p" "payload l" data]
      by (auto simp: ac_simps)
    finally show ?thesis .
  qed
qed

text \<open>The header, and the packet as it goes out.\<close>

definition wire_bytes :: "yahoo_packet \<Rightarrow> nat \<Rightarrow> bool \<Rightarrow> bool \<Rightarrow> bytes" where
  "wire_bytes pkt pad wm jp =
     packet_header pkt (yahoo_packet_length pkt + pad) wm jp @ payload (rev (pkt_hash pkt))"

lemma length_packet_header [simp]: "length (packet_header pkt n wm jp) = YAHOO_PACKET_HDRLEN"
  by (simp add: packet_header_def YAHOO_PACKET_HDRLEN_def YMSG_def yahoo_put16_def yahoo_put32_def)

text \<open>The buffer has one byte more than the length that \<open>yahoo_packet_length\<close> computes; that length
  does not count the sign of a key.\<close>

lemma build_result:
  "yahoo_packet_build pkt pad wm jp =
     (if negative_keys (pkt_hash pkt) \<le> 1
      then Some (YAHOO_PACKET_HDRLEN + yahoo_packet_length pkt, pkt\<lparr>pkt_hash := rev (pkt_hash pkt)\<rparr>,
                 wire_bytes pkt pad wm jp @ replicate (1 - negative_keys (pkt_hash pkt)) 0)
      else None)"
proof -
  let ?h = "packet_header pkt (yahoo_packet_length pkt + pad) wm jp" and ?l = "rev (pkt_hash pkt)"
  let ?data = "?h @ replicate (yahoo_packet_length pkt + 1) 0"
  have len: "length (payload ?l) = yahoo_packet_length pkt + negative_keys (pkt_hash pkt)"
    by (simp add: length_payload pairs_length_rev yahoo_packet_length_def)
  have store: "store_at 0 ?h (replicate (YAHOO_PACKET_HDRLEN + yahoo_packet_length pkt + 1) 0) = Some ?data"
  proof -
    have "drop YAHOO_PACKET_HDRLEN (replicate (YAHOO_PACKET_HDRLEN + yahoo_packet_length pkt + 1) (0 :: byte)) =
        replicate (yahoo_packet_length pkt + 1) 0"
      by (simp only: drop_replicate diff_add_inverse add.assoc)
    then show ?thesis by (simp add: store_at_def memcpy_at_def del: replicate_Suc)
  qed
  have "write_pairs ?l YAHOO_PACKET_HDRLEN ?data =
      (if negative_keys (pkt_hash pkt) \<le> 1
       then Some (?h @ payload ?l @ replicate (1 - negative_keys (pkt_hash pkt)) 0) else None)"
    using write_pairs_result [of YAHOO_PACKET_HDRLEN ?data ?l] len memcpy_at_end [of ?h "payload ?l"]
    by (auto simp del: replicate_Suc)
  then show ?thesis
    by (simp add: yahoo_packet_build_def Let_def store [simplified] yahoo_packet_write_def wire_bytes_def)
qed

subsection \<open>Reading\<close>

text \<open>Values the delimiter does not occur in.\<close>

fun no_delimiter :: "bytes \<Rightarrow> bool" where
  "no_delimiter (a # b # r) \<longleftrightarrow> \<not> (a = 0xC0 \<and> b = 0x80) \<and> no_delimiter (b # r)"
| "no_delimiter _ \<longleftrightarrow> True"

definition pair_ok :: "yahoo_pair \<Rightarrow> bool" where
  "pair_ok p \<longleftrightarrow> 0 \<le> pair_key p \<and> pair_key p < 2 ^ 31 \<and> 0 \<notin> set (pair_value p) \<and> no_delimiter (pair_value p)"

lemma find_delimiter_value:
  "\<lbrakk>0 \<notin> set v; no_delimiter v\<rbrakk> \<Longrightarrow> find_delimiter (v @ 0xC0 # 0x80 # r) = Some (v, 0xC0 # 0x80 # r)"
proof (induction v)
  case Nil
  then show ?case by simp
next
  case (Cons a v)
  then have v: "find_delimiter (v @ 0xC0 # 0x80 # r) = Some (v, 0xC0 # 0x80 # r)" by (cases v) auto
  obtain b s where b: "v @ 0xC0 # 0x80 # r = b # s" by (cases v) auto
  have "\<not> (a = 0xC0 \<and> b = 0x80)" using b Cons.prems(2) by (cases v) auto
  with v b Cons.prems(1) show ?case by auto
qed

lemma read_key_digits:
  "\<lbrakk>list_all is_dec ds; x + length ds < 63\<rbrakk> \<Longrightarrow>
   read_key x key (ds @ 0xC0 # 0x80 # r) = (x + length ds, key @ ds, 0xC0 # 0x80 # r)"
proof (induction ds arbitrary: x key)
  case Nil
  then show ?case by simp
next
  case (Cons d ds)
  obtain b s where b: "ds @ 0xC0 # 0x80 # r = b # s" by (cases ds) auto
  have "d \<noteq> 0xC0" using Cons.prems(1) by auto
  with Cons b show ?case by auto
qed

lemma dec_key:
  assumes "0 \<le> i" "i < 2 ^ 31"
  shows "printf_d i = dec_digits (nat i)" "length (dec_digits (nat i)) < 63"
    "int_of_long (strtol10 (dec_digits (nat i))) = i"
proof -
  show "printf_d i = dec_digits (nat i)" using assms by (simp add: printf_d_def)
  have "nat i < 10 ^ Suc 9" using assms by simp
  from dec_digits_short [OF this] show "length (dec_digits (nat i)) < 63" by simp
  have "int (nat i) \<le> LONG_MAX" using assms by (simp add: LONG_MAX_def)
  from strtol10_digits [OF this] assms show "int_of_long (strtol10 (dec_digits (nat i))) = i"
    by (simp add: int_of_long_def)
qed

lemma read_pair_written:
  assumes p: "pair_ok p" and r: "r = [] \<or> is_dec (hd r)"
  shows "read_pair first (pair_bytes p @ r) = Some (Some p, r)"
proof -
  let ?ds = "dec_digits (nat (pair_key p))" and ?v = "pair_value p"
  have i: "0 \<le> pair_key p" "pair_key p < 2 ^ 31" using p by (simp_all add: pair_ok_def)
  obtain d ds where d: "?ds = d # ds" "is_dec d"
    using dec_digits_digits [of "nat (pair_key p)"] by (cases ?ds) auto
  let ?rest = "?v @ 0xC0 # 0x80 # r"
  have eq: "pair_bytes p @ r = ?ds @ 0xC0 # 0x80 # ?rest" by (simp add: pair_bytes_def dec_key [OF i])
  have key: "read_key 0 [] (pair_bytes p @ r) = (length ?ds, ?ds, 0xC0 # 0x80 # ?rest)"
    unfolding eq using read_key_digits [of ?ds 0 "[]"] dec_digits_digits dec_key(2) [OF i] by simp
  have "find_delimiter ?rest = Some (?v, 0xC0 # 0x80 # r)"
    using p by (intro find_delimiter_value) (simp_all add: pair_ok_def)
  moreover have "skip_garbage first r = r" using r by (auto simp: skip_garbage_def)
  moreover have "\<not> (length (pair_bytes p @ r) < 2 \<or> hd (pair_bytes p @ r) = 0)"
    using d by (auto simp: eq)
  ultimately show ?thesis
    using key dec_key(2,3) [OF i] d(1) by (simp add: read_pair_def Let_def)
qed

lemma payload_hd: "payload l = [] \<or> is_dec (hd (payload l))" if "list_all pair_ok l"
proof (cases l)
  case Nil
  then show ?thesis by simp
next
  case (Cons p m)
  with that have "printf_d (pair_key p) = dec_digits (nat (pair_key p))" by (simp add: pair_ok_def dec_key)
  with Cons dec_digits_digits [of "nat (pair_key p)"] show ?thesis
    by (cases "dec_digits (nat (pair_key p))") (auto simp: pair_bytes_def)
qed

lemma read_pairs_written:
  "list_all pair_ok l \<Longrightarrow> read_pairs first (payload l) acc = rev l @ acc"
proof (induction l arbitrary: acc)
  case Nil
  then show ?case by (subst read_pairs.simps) (simp add: read_pair_def)
next
  case (Cons p l)
  then show ?case
    using read_pair_written [of p "payload l" first] payload_hd [of l] by (subst read_pairs.simps) simp
qed

lemma read_written:
  "list_all pair_ok l \<Longrightarrow>
   yahoo_packet_read (yahoo_packet_new s st i) (payload l) =
     \<lparr>pkt_service = s, pkt_status = st, pkt_id = i, pkt_hash = l\<rparr>"
  by (simp add: yahoo_packet_read_def yahoo_packet_new_def read_pairs_written)

subsection \<open>Packets in a stream\<close>

lemma yahoo_get_put:
  "yahoo_get16 (yahoo_put16 v @ xs) = v" "yahoo_get32 (yahoo_put32 w @ xs) = w"
proof -
  have "yahoo_get16 = aimutil_get16" "yahoo_put16 = aimutil_put16" "yahoo_get32 = aimutil_get32" "yahoo_put32 = aimutil_put32"
    by (simp_all add: fun_eq_iff yahoo_get16_def aimutil_get16_def yahoo_put16_def aimutil_put16_def
        yahoo_get32_def aimutil_get32_def yahoo_put32_def aimutil_put32_def)
  then show "yahoo_get16 (yahoo_put16 v @ xs) = v" "yahoo_get32 (yahoo_put32 w @ xs) = w"
    by (simp_all add: c16.dec_enc c32.dec_enc)
qed

text \<open>Packets the format can carry, and what the other side makes of one: the list turned around.\<close>

definition sendable :: "yahoo_packet \<Rightarrow> bool" where
  "sendable pkt \<longleftrightarrow> list_all pair_ok (pkt_hash pkt) \<and> yahoo_packet_length pkt < 2 ^ 16"

definition received :: "yahoo_packet \<Rightarrow> yahoo_packet" where
  "received pkt = pkt\<lparr>pkt_hash := rev (pkt_hash pkt)\<rparr>"

lemma sendable_nonneg: "sendable pkt \<Longrightarrow> negative_keys (pkt_hash pkt) = 0"
  by (auto simp: sendable_def pair_ok_def negative_keys_def list_all_iff filter_empty_conv)

lemma sendable_payload:
  "sendable pkt \<Longrightarrow> length (payload (rev (pkt_hash pkt))) = yahoo_packet_length pkt"
  using sendable_nonneg [of pkt] by (simp add: length_payload pairs_length_rev yahoo_packet_length_def)

lemma length_wire_bytes:
  "sendable pkt \<Longrightarrow> length (wire_bytes pkt 0 wm jp) = YAHOO_PACKET_HDRLEN + yahoo_packet_length pkt"
  by (simp add: wire_bytes_def sendable_payload)

lemma header_fields:
  "take 4 (packet_header pkt n wm jp @ xs) = YMSG"
  "yahoo_get16 (drop 8 (packet_header pkt n wm jp @ xs)) = of_nat n"
  "yahoo_get16 (drop 10 (packet_header pkt n wm jp @ xs)) = pkt_service pkt"
  "yahoo_get32 (drop 12 (packet_header pkt n wm jp @ xs)) = pkt_status pkt"
  "yahoo_get32 (drop 16 (packet_header pkt n wm jp @ xs)) = pkt_id pkt"
  "drop YAHOO_PACKET_HDRLEN (packet_header pkt n wm jp @ xs) = xs"
proof -
  have len: "length (yahoo_put16 v) = 2" "length (yahoo_put32 w) = 4" "length YMSG = 4" for v w
    by (simp_all add: yahoo_put16_def yahoo_put32_def YMSG_def)
  show "take 4 (packet_header pkt n wm jp @ xs) = YMSG"
    "yahoo_get16 (drop 8 (packet_header pkt n wm jp @ xs)) = of_nat n"
    "yahoo_get16 (drop 10 (packet_header pkt n wm jp @ xs)) = pkt_service pkt"
    "yahoo_get32 (drop 12 (packet_header pkt n wm jp @ xs)) = pkt_status pkt"
    "yahoo_get32 (drop 16 (packet_header pkt n wm jp @ xs)) = pkt_id pkt"
    by (simp_all add: packet_header_def len yahoo_get_put)
  show "drop YAHOO_PACKET_HDRLEN (packet_header pkt n wm jp @ xs) = xs" by simp
qed

lemma frame_complete:
  assumes s: "sendable pkt"
  shows "next_frame (wire_bytes pkt 0 wm jp @ rest) = Packet (received pkt) rest"
proof -
  let ?n = "yahoo_packet_length pkt" and ?h = "packet_header pkt (yahoo_packet_length pkt) wm jp"
  let ?p = "payload (rev (pkt_hash pkt))"
  have n: "unat (of_nat ?n :: 16 word) = ?n" using s by (simp add: sendable_def unat_of_nat)
  have "list_all pair_ok (rev (pkt_hash pkt))" using s by (simp add: sendable_def)
  from read_written [OF this, of "pkt_service pkt" "pkt_status pkt" "pkt_id pkt"]
  have "yahoo_packet_read (yahoo_packet_new (pkt_service pkt) (pkt_status pkt) (pkt_id pkt)) ?p = received pkt"
    by (simp add: received_def)
  moreover have "drop (YAHOO_PACKET_HDRLEN + ?n) (?h @ ?p @ rest) = rest" using sendable_payload [OF s] by simp
  ultimately show ?thesis
    using sendable_payload [OF s] header_fields [of pkt ?n wm jp "?p @ rest"]
    by (simp add: next_frame_def wire_bytes_def n Let_def)
qed

lemma frame_partial:
  assumes s: "sendable pkt" and q: "strict_prefix q (wire_bytes pkt 0 wm jp)"
  shows "next_frame q = Wait"
proof (cases "length q < YAHOO_PACKET_HDRLEN")
  case True
  then show ?thesis by (simp add: next_frame_def)
next
  case False
  let ?n = "yahoo_packet_length pkt" and ?h = "packet_header pkt (yahoo_packet_length pkt) wm jp"
  have n: "unat (of_nat ?n :: 16 word) = ?n" using s by (simp add: sendable_def unat_of_nat)
  have "prefix q (?h @ payload (rev (pkt_hash pkt)))" using q by (simp add: wire_bytes_def)
  then have "\<exists>r. q = ?h @ r"
  proof (rule prefix_append [THEN iffD1, THEN disjE])
    assume "prefix q ?h"
    then obtain s where s: "?h = q @ s" by (auto simp: prefix_def)
    then have "length q + length s = YAHOO_PACKET_HDRLEN" by (metis length_append length_packet_header)
    with False have "length s = 0" by linarith
    with s show ?thesis by simp
  qed blast
  then obtain r where r: "q = ?h @ r" by blast
  have "length q < YAHOO_PACKET_HDRLEN + ?n"
    using prefix_length_less [OF q] length_wire_bytes [OF s, of wm jp] by simp
  then show ?thesis
    using header_fields [of pkt ?n wm jp r] by (simp add: next_frame_def r n Let_def)
qed

definition stream :: "bool \<Rightarrow> bool \<Rightarrow> yahoo_packet list \<Rightarrow> bytes" where
  "stream wm jp ps = concat (map (\<lambda>p. wire_bytes p 0 wm jp) ps)"

lemma stream_simps [simp]: "stream wm jp [] = []" "stream wm jp (p # ps) = wire_bytes p 0 wm jp @ stream wm jp ps"
  "stream wm jp (ps @ qs) = stream wm jp ps @ stream wm jp qs"
  by (simp_all add: stream_def)

text \<open>What may be left in the queue when packets \<open>ps\<close> are still to come.\<close>

definition partial :: "bool \<Rightarrow> bool \<Rightarrow> yahoo_packet list \<Rightarrow> bytes \<Rightarrow> bool" where
  "partial wm jp ps r \<longleftrightarrow> (case ps of [] \<Rightarrow> r = [] | p # _ \<Rightarrow> strict_prefix r (wire_bytes p 0 wm jp))"

lemma frames_wait: "next_frame q = Wait \<Longrightarrow> yahoo_frames q acc = (acc, q)"
  by (subst yahoo_frames.simps) simp

lemma frames_stream:
  "\<lbrakk>list_all sendable ps; prefix x (stream wm jp ps)\<rbrakk> \<Longrightarrow>
   \<exists>out todo r. ps = out @ todo \<and> x = stream wm jp out @ r \<and> partial wm jp todo r \<and>
     yahoo_frames x acc = (acc @ map received out, r)"
proof (induction ps arbitrary: x acc)
  case Nil
  then have "x = []" by simp
  moreover have "yahoo_frames [] acc = (acc, [])"
    by (rule frames_wait) (simp add: next_frame_def YAHOO_PACKET_HDRLEN_def)
  ultimately show ?case by (auto simp: partial_def)
next
  case (Cons p ps)
  have p: "sendable p" using Cons.prems by simp
  from Cons.prems(2) consider (part) "strict_prefix x (wire_bytes p 0 wm jp)"
    | (whole) y where "x = wire_bytes p 0 wm jp @ y" "prefix y (stream wm jp ps)"
  proof (cases "strict_prefix x (wire_bytes p 0 wm jp)")
    case True
    then show thesis by (rule part)
  next
    case False
    with Cons.prems(2) have "x = wire_bytes p 0 wm jp \<or> (\<exists>y. x = wire_bytes p 0 wm jp @ y \<and> prefix y (stream wm jp ps))"
      by (auto simp: prefix_append strict_prefix_def)
    then show thesis using whole [of "[]"] whole by auto
  qed
  then show ?case
  proof cases
    case part
    then have "yahoo_frames x acc = (acc, x)" using frames_wait frame_partial [OF p] by blast
    with part show ?thesis
      by (intro exI [of _ "[]"] exI [of _ "p # ps"] exI [of _ x]) (simp add: partial_def)
  next
    case whole
    have "list_all sendable ps" using Cons.prems(1) by simp
    from Cons.IH [OF this whole(2), of "acc @ [received p]"] obtain out todo r where
      o: "ps = out @ todo" "y = stream wm jp out @ r" "partial wm jp todo r"
         "yahoo_frames y (acc @ [received p]) = (acc @ received p # map received out, r)"
      by auto
    have "yahoo_frames x acc = yahoo_frames y (acc @ [received p])"
      using frame_complete [OF p] whole(1) by (subst yahoo_frames.simps) simp
    with o whole(1) show ?thesis
      by (intro exI [of _ "p # out"] exI [of _ todo] exI [of _ r]) simp
  qed
qed

lemma partial_whole: "partial wm jp ps (stream wm jp ps) \<Longrightarrow> ps = []"
  by (cases ps) (auto simp: partial_def strict_prefix_def)

subsection \<open>Any way of splitting the stream\<close>

definition rx_init :: yahoo_rx where
  "rx_init = \<lparr>rxqueue = [], processed = [], rx_error = False\<rparr>"

fun got :: "read_result \<Rightarrow> bytes" where
  "got (Got b) = b"
| "got _ = []"

text \<open>Reads that bring bytes or ask to try again.\<close>

fun read_ok :: "read_result \<Rightarrow> bool" where
  "read_ok (Got b) \<longleftrightarrow> b \<noteq> []"
| "read_ok Read_again \<longleftrightarrow> True"
| "read_ok Read_error \<longleftrightarrow> False"

definition bytes_got :: "read_result list \<Rightarrow> bytes" where
  "bytes_got rs = concat (map got rs)"

definition rx_at :: "bool \<Rightarrow> bool \<Rightarrow> yahoo_packet list \<Rightarrow> bytes \<Rightarrow> yahoo_rx \<Rightarrow> bool" where
  "rx_at wm jp ps x yd \<longleftrightarrow> \<not> rx_error yd \<and>
     (\<exists>out todo. ps = out @ todo \<and> x = stream wm jp out @ rxqueue yd \<and> partial wm jp todo (rxqueue yd) \<and>
        processed yd = map received out)"

lemma pending_step:
  assumes s: "list_all sendable ps" and at: "rx_at wm jp ps x yd" and r: "read_ok r"
    and x: "prefix (x @ got r) (stream wm jp ps)"
  shows "rx_at wm jp ps (x @ got r) (yahoo_pending r yd)"
proof (cases r)
  case (Got b)
  obtain out todo where o: "ps = out @ todo" "x = stream wm jp out @ rxqueue yd" "processed yd = map received out"
    using at by (auto simp: rx_at_def)
  have "prefix (rxqueue yd @ b) (stream wm jp todo)" using x Got o by simp
  moreover have "list_all sendable todo" using s o(1) by simp
  ultimately obtain out' todo' q where
    f: "todo = out' @ todo'" "rxqueue yd @ b = stream wm jp out' @ q" "partial wm jp todo' q"
       "yahoo_frames (rxqueue yd @ b) (processed yd) = (processed yd @ map received out', q)"
    using frames_stream [of todo "rxqueue yd @ b" wm jp "processed yd"] by blast
  have "ps = (out @ out') @ todo'" "x @ b = stream wm jp (out @ out') @ q" using o f by simp_all
  moreover have "yahoo_pending r yd = yd\<lparr>rxqueue := q, processed := map received (out @ out')\<rparr>"
    using Got r f(4) o(3) by (simp add: yahoo_pending_def)
  ultimately show ?thesis
    using Got at f(3) unfolding rx_at_def by (intro conjI exI [of _ "out @ out'"] exI [of _ todo']) simp_all
next
  case Read_again
  with at show ?thesis by (simp add: yahoo_pending_def)
next
  case Read_error
  with r show ?thesis by simp
qed

lemma pending_run:
  assumes s: "list_all sendable ps"
  shows "\<lbrakk>rx_at wm jp ps x yd; list_all read_ok rs; prefix (x @ bytes_got rs) (stream wm jp ps)\<rbrakk> \<Longrightarrow>
    rx_at wm jp ps (x @ bytes_got rs) (fold yahoo_pending rs yd)"
proof (induction rs arbitrary: x yd)
  case Nil
  then show ?case by (simp add: bytes_got_def)
next
  case (Cons r rs)
  have "prefix (x @ got r) (stream wm jp ps)"
    using Cons.prems(3) by (simp add: bytes_got_def) (metis append_prefixD append.assoc)
  from pending_step [OF s Cons.prems(1) _ this] Cons.prems(2)
  have "rx_at wm jp ps (x @ got r) (yahoo_pending r yd)" by simp
  from Cons.IH [OF this] Cons.prems show ?case by (simp add: bytes_got_def)
qed

lemma rx_at_init: "list_all sendable ps \<Longrightarrow> rx_at wm jp ps [] rx_init"
  by (cases ps) (auto simp: rx_at_def rx_init_def partial_def strict_prefix_def wire_bytes_def packet_header_def YMSG_def)

lemma pending_stream:
  assumes "list_all sendable ps" "list_all read_ok rs" "prefix (bytes_got rs) (stream wm jp ps)"
  shows "\<exists>out todo. ps = out @ todo \<and> processed (fold yahoo_pending rs rx_init) = map received out \<and>
    \<not> rx_error (fold yahoo_pending rs rx_init) \<and> (bytes_got rs = stream wm jp ps \<longrightarrow> todo = [])"
proof -
  have "rx_at wm jp ps (bytes_got rs) (fold yahoo_pending rs rx_init)"
    using pending_run [OF assms(1) rx_at_init [OF assms(1)] assms(2)] assms(3) by simp
  then obtain out todo where o: "ps = out @ todo" "bytes_got rs = stream wm jp out @ rxqueue (fold yahoo_pending rs rx_init)"
      "partial wm jp todo (rxqueue (fold yahoo_pending rs rx_init))"
      "processed (fold yahoo_pending rs rx_init) = map received out" "\<not> rx_error (fold yahoo_pending rs rx_init)"
    by (auto simp: rx_at_def)
  have "todo = []" if "bytes_got rs = stream wm jp ps"
    using that o(1,2,3) partial_whole by simp
  with o show ?thesis by blast
qed

end
