(* ===== verification/Yahoo_Tx.thy ===== *)
theory Yahoo_Tx
  imports Yahoo_Wire Jabber_Tx
begin

section \<open>A Yahoo connection from end to end\<close>

text \<open>
  \<open>yahoo_packet_send\<close> writes a packet to the socket and queues what the socket did not take,
  \<open>yahoo_packet_send_can_write\<close> drains the queue.  A result of \<open>write\<close> is chosen by the environment
  (\<open>sock_result\<close>), \<open>tx_wire\<close> holds what the socket has accepted.  Composed with the framing of
  \<open>Yahoo_Wire\<close>: the packets that one side sends are the packets that the other side processes.
\<close>

record yahoo_tx =
  tx_fd :: int
  txbuf :: circ_buffer
  txhandler :: nat
  tx_error :: bool
  tx_wire :: bytes
  tx_wm :: bool
  tx_jp :: bool

definition yahoo_packet_send_can_write :: "yahoo_tx \<Rightarrow> sock_result \<Rightarrow> yahoo_tx" where
  "yahoo_packet_send_can_write yd r =
     (let writelen = purple_circ_buffer_get_max_read (txbuf yd) in
      if writelen = 0 then yd\<lparr>txhandler := 0\<rparr>
      else case r of
        Again \<Rightarrow> yd
      | SockError \<Rightarrow> yd\<lparr>tx_error := True\<rparr>
      | Wrote ret \<Rightarrow>
          yd\<lparr>tx_wire := tx_wire yd @ take ret (outptr_bytes (txbuf yd) writelen),
             txbuf := snd (purple_circ_buffer_mark_read (txbuf yd) ret)\<rparr>)"

text \<open>The returned number, the packet with its list turned, the connection.\<close>

definition yahoo_packet_send ::
  "(nat \<Rightarrow> byte) \<Rightarrow> nat \<Rightarrow> yahoo_packet \<Rightarrow> yahoo_tx \<Rightarrow> sock_result \<Rightarrow> (int \<times> yahoo_packet \<times> yahoo_tx) option" where
  "yahoo_packet_send junk handle pkt yd r =
     (if tx_fd yd < 0 then Some (- 1, pkt, yd)
      else
        (case yahoo_packet_build pkt 0 (tx_wm yd) (tx_jp yd) of
           None \<Rightarrow> None
         | Some (len, pkt', data) \<Rightarrow>
             (case (if txhandler yd = 0 then r else Again) of
                SockError \<Rightarrow> Some (- 1, pkt', yd)
              | res \<Rightarrow>
                  let ret = (case res of Wrote n \<Rightarrow> n | _ \<Rightarrow> 0) in
                  if res \<noteq> Again \<and> ret = 0 then Some (0, pkt', yd)
                  else
                    let yd1 = yd\<lparr>tx_wire := tx_wire yd @ take ret data\<rparr>
                    in if ret < len
                       then map_option
                              (\<lambda>buf. (int ret, pkt', yd1\<lparr>txhandler := (if txhandler yd = 0 then handle else txhandler yd),
                                                       txbuf := buf\<rparr>))
                              (purple_circ_buffer_append junk (txbuf yd) (drop ret (take len data)))
                       else Some (int ret, pkt', yd1))))"

text \<open>The runs of a connection.  \<open>sent\<close> collects the packets that were not refused: the socket was
  busy, or it took at least one byte.  The side condition on the queue is the one of
  \<open>circbuffer.c\<close>.\<close>

definition yahoo_tx_init :: "int \<Rightarrow> bool \<Rightarrow> bool \<Rightarrow> yahoo_tx" where
  "yahoo_tx_init fd wm jp =
     \<lparr>tx_fd = fd, txbuf = purple_circ_buffer_new 0, txhandler = 0, tx_error = False, tx_wire = [],
      tx_wm = wm, tx_jp = jp\<rparr>"

definition taken :: "yahoo_tx \<Rightarrow> sock_result \<Rightarrow> bool" where
  "taken yd r \<longleftrightarrow> 0 \<le> tx_fd yd \<and> (txhandler yd \<noteq> 0 \<or> r \<noteq> SockError \<and> r \<noteq> Wrote 0)"

inductive ytx_reach :: "bool \<Rightarrow> bool \<Rightarrow> yahoo_tx \<Rightarrow> yahoo_packet list \<Rightarrow> bool" for wm jp where
  ytx_init: "ytx_reach wm jp (yahoo_tx_init fd wm jp) []"
| ytx_send: "ytx_reach wm jp yd sent \<Longrightarrow> handle \<noteq> 0 \<Longrightarrow> sendable pkt \<Longrightarrow>
    (\<And>n. r = Wrote n \<Longrightarrow> n \<le> length (wire_bytes pkt 0 wm jp)) \<Longrightarrow>
    circ_accepts (txbuf yd) (wire_bytes pkt 0 wm jp) \<Longrightarrow>
    yahoo_packet_send junk handle pkt yd r = Some (ret, pkt', yd') \<Longrightarrow>
    ytx_reach wm jp yd' (if taken yd r then sent @ [pkt] else sent)"
| ytx_write: "ytx_reach wm jp yd sent \<Longrightarrow>
    (\<And>n. r = Wrote n \<Longrightarrow> n \<le> purple_circ_buffer_get_max_read (txbuf yd)) \<Longrightarrow>
    ytx_reach wm jp (yahoo_packet_send_can_write yd r) sent"

definition ytx_inv :: "bool \<Rightarrow> bool \<Rightarrow> yahoo_tx \<Rightarrow> yahoo_packet list \<Rightarrow> bool" where
  "ytx_inv wm jp yd sent \<longleftrightarrow> tx_wm yd = wm \<and> tx_jp yd = jp \<and> list_all sendable sent \<and>
     circ_wf (txbuf yd) \<and> tx_wire yd @ contents (txbuf yd) = stream wm jp sent \<and>
     (txhandler yd = 0 \<longrightarrow> contents (txbuf yd) = [])"

lemma can_write_inv:
  assumes inv: "ytx_inv wm jp yd sent"
    and r: "\<And>n. r = Wrote n \<Longrightarrow> n \<le> purple_circ_buffer_get_max_read (txbuf yd)"
  shows "ytx_inv wm jp (yahoo_packet_send_can_write yd r) sent"
proof -
  let ?b = "txbuf yd"
  have wf: "circ_wf ?b" using inv by (simp add: ytx_inv_def)
  show ?thesis
  proof (cases "purple_circ_buffer_get_max_read ?b = 0")
    case True
    with inv cb.max_read_progress [OF wf] show ?thesis
      by (simp add: ytx_inv_def yahoo_packet_send_can_write_def Let_def)
  next
    case False
    then have ne: "contents ?b \<noteq> []" using cb.max_read_progress [OF wf] by simp
    show ?thesis
    proof (cases r)
      case (Wrote n)
      with r have n: "n \<le> purple_circ_buffer_get_max_read ?b" by simp
      have "take n (outptr_bytes ?b (purple_circ_buffer_get_max_read ?b)) = outptr_bytes ?b n"
        using n by (simp add: outptr_bytes_def min_def)
      with Wrote False inv ne cb.peek_mark_read [OF wf n surjective_pairing] show ?thesis
        by (auto simp: ytx_inv_def yahoo_packet_send_can_write_def Let_def)
    qed (use inv False in \<open>simp_all add: ytx_inv_def yahoo_packet_send_can_write_def Let_def\<close>)
  qed
qed

lemma build_sendable:
  assumes "sendable pkt"
  shows "yahoo_packet_build pkt 0 wm jp =
    Some (length (wire_bytes pkt 0 wm jp), received pkt, wire_bytes pkt 0 wm jp @ [0])"
  using build_result [of pkt 0 wm jp] sendable_nonneg [OF assms] length_wire_bytes [OF assms]
  by (simp add: received_def)

lemma send_inv:
  assumes inv: "ytx_inv wm jp yd sent" and h: "handle \<noteq> 0" and s: "sendable pkt"
    and r: "\<And>n. r = Wrote n \<Longrightarrow> n \<le> length (wire_bytes pkt 0 wm jp)"
    and acc: "circ_accepts (txbuf yd) (wire_bytes pkt 0 wm jp)"
    and step: "yahoo_packet_send junk handle pkt yd r = Some (ret, pkt', yd')"
  shows "ytx_inv wm jp yd' (if taken yd r then sent @ [pkt] else sent)"
proof -
  have wf: "circ_wf (txbuf yd)" using inv by (simp add: ytx_inv_def)
  have b: "yahoo_packet_build pkt 0 (tx_wm yd) (tx_jp yd) =
      Some (length (wire_bytes pkt 0 wm jp), received pkt, wire_bytes pkt 0 wm jp @ [0])"
    using inv build_sendable [OF s] by (simp add: ytx_inv_def)
  note app = cb.append_result [OF wf acc] cb.append_result [OF wf circ_accepts_drop [OF acc]]
  define w where "w = wire_bytes pkt 0 wm jp"
  have st: "stream wm jp (sent @ [pkt]) = stream wm jp sent @ w" by (simp add: w_def)
  note step' = step [unfolded yahoo_packet_send_def b option.case prod.case, folded w_def]
  show ?thesis
    using step' inv r [folded w_def] h s app [folded w_def]
    by (cases r; cases "txhandler yd = 0"; cases "tx_fd yd < 0")
       (auto simp: ytx_inv_def taken_def Let_def st simp del: stream_simps split: if_splits)
qed

lemma ytx_reach_inv: "ytx_reach wm jp yd sent \<Longrightarrow> ytx_inv wm jp yd sent"
proof (induction rule: ytx_reach.induct)
  case (ytx_init fd)
  show ?case by (simp add: ytx_inv_def yahoo_tx_init_def)
next
  case (ytx_send yd sent handle pkt r junk ret pkt' yd')
  then show ?case by (blast intro: send_inv)
next
  case (ytx_write yd sent r)
  then show ?case by (blast intro: can_write_inv)
qed

subsection \<open>Properties\<close>

text \<open>C15: What one side sends the other side gets, as long as every packet sent is one the format can carry
  (keys from 0 and below 2^31, values without NUL and delimiter, less than 2^16 bytes of pairs) and no
  packet that is longer than the free part of the queue meets it drained, which \<open>circbuffer.c\<close> would
  reorder: however the socket cuts the writes and the network the reads, the packets that the receiver
  has handed on are an initial part of the packets taken for sending, in order and with their pairs,
  and all of them once the queue is empty and every byte that was written has arrived.\<close>

theorem yahoo_end_to_end:
  assumes run: "ytx_reach wm jp yd sent" and rs: "list_all read_ok rs" and b: "prefix (bytes_got rs) (tx_wire yd)"
  shows "prefix (processed (fold yahoo_pending rs rx_init)) (map received sent) \<and>
    \<not> rx_error (fold yahoo_pending rs rx_init) \<and>
    (contents (txbuf yd) = [] \<and> bytes_got rs = tx_wire yd \<longrightarrow>
       processed (fold yahoo_pending rs rx_init) = map received sent)"
proof -
  have inv: "list_all sendable sent" "tx_wire yd @ contents (txbuf yd) = stream wm jp sent"
    using ytx_reach_inv [OF run] by (simp_all add: ytx_inv_def)
  have "prefix (bytes_got rs) (stream wm jp sent)" using b inv(2) by (metis prefix_prefix)
  from pending_stream [OF inv(1) rs this] obtain out todo where o: "sent = out @ todo"
      "processed (fold yahoo_pending rs rx_init) = map received out"
      "\<not> rx_error (fold yahoo_pending rs rx_init)" "bytes_got rs = stream wm jp sent \<longrightarrow> todo = []" by blast
  then show ?thesis using inv(2) by auto
qed

definition example_packet :: yahoo_packet where
  "example_packet = \<lparr>pkt_service = 6, pkt_status = 0, pkt_id = 7,
     pkt_hash = [\<lparr>pair_key = 14, pair_value = [104, 105]\<rparr>, \<lparr>pair_key = 5, pair_value = []\<rparr>]\<rparr>"

lemma example_keys: "key_length 14 = 2" "key_length 5 = 1"
  by (simp_all add: key_length.simps [of 14] key_length.simps [of 1] key_length.simps [of 5] signed_divide_int_def)

lemma example_sendable: "sendable example_packet"
  by (simp add: sendable_def example_packet_def pair_ok_def yahoo_packet_length_def example_keys)

lemma example_wire_length: "length (wire_bytes example_packet 0 wm jp) = 33"
  using length_wire_bytes [OF example_sendable, of wm jp]
  by (simp add: example_packet_def yahoo_packet_length_def example_keys YAHOO_PACKET_HDRLEN_def)

definition example_tx :: yahoo_tx where
  "example_tx = (yahoo_tx_init 3 False False)\<lparr>tx_wire := wire_bytes example_packet 0 False False\<rparr>"

lemma example_tx_reach: "ytx_reach False False example_tx [example_packet]"
proof -
  let ?yd = "yahoo_tx_init 3 False False"
  have step: "yahoo_packet_send (\<lambda>_. 0) 9 example_packet ?yd (Wrote 33) = Some (33, received example_packet, example_tx)"
    using build_sendable [OF example_sendable, of False False] example_wire_length [of False False]
    by (simp add: yahoo_packet_send_def yahoo_tx_init_def example_tx_def)
  have "circ_accepts (txbuf ?yd) (wire_bytes example_packet 0 False False)"
    by (simp add: circ_accepts_def yahoo_tx_init_def purple_circ_buffer_new_def drained_def)
  from ytx_send [OF ytx_init _ example_sendable _ this step] show ?thesis
    by (simp add: taken_def yahoo_tx_init_def example_wire_length)
qed

theorem yahoo_end_to_end_witness:
  "processed (fold yahoo_pending
      [Got (take 21 (wire_bytes example_packet 0 False False)), Read_again,
       Got (drop 21 (wire_bytes example_packet 0 False False))] rx_init) = [received example_packet]"
proof -
  let ?w = "wire_bytes example_packet 0 False False"
  let ?rs = "[Got (take 21 ?w), Read_again, Got (drop 21 ?w)]"
  have len: "length ?w = 33" by (rule example_wire_length)
  have "take 21 ?w \<noteq> []" "drop 21 ?w \<noteq> []" using len by auto
  then have "list_all read_ok ?rs" by simp
  moreover have "bytes_got ?rs = tx_wire example_tx"
    by (simp add: bytes_got_def example_tx_def)
  moreover have "contents (txbuf example_tx) = []"
    using ytx_reach_inv [OF example_tx_reach] by (simp add: ytx_inv_def example_tx_def yahoo_tx_init_def)
  ultimately show ?thesis using yahoo_end_to_end [OF example_tx_reach, of ?rs] by simp
qed

text \<open>C16: A packet that the format can carry is read back as it was built: when its keys are at least 0 and
  below 2^31, its values hold neither NUL nor delimiter and its pairs take less than 2^16 bytes, its
  service, status and number come from the header and its pairs come back in the order in which
  they were added.\<close>

theorem yahoo_build_read:
  assumes "sendable pkt"
  shows "\<exists>len pkt' data. yahoo_packet_build pkt 0 wm jp = Some (len, pkt', data) \<and> pkt' = received pkt \<and>
    next_frame (take len data) = Packet (received pkt) [] \<and>
    yahoo_packet_read (yahoo_packet_new (pkt_service pkt) (pkt_status pkt) (pkt_id pkt))
      (drop YAHOO_PACKET_HDRLEN (take len data)) = received pkt"
proof -
  have "yahoo_packet_read (yahoo_packet_new (pkt_service pkt) (pkt_status pkt) (pkt_id pkt))
      (payload (rev (pkt_hash pkt))) = received pkt"
    using assms read_written [of "rev (pkt_hash pkt)"] by (simp add: sendable_def received_def)
  then show ?thesis
    using build_sendable [OF assms, of wm jp] frame_complete [OF assms, of wm jp "[]"]
    by (simp add: wire_bytes_def)
qed

theorem yahoo_build_read_witness:
  "next_frame (take 33 (snd (snd (the (yahoo_packet_build example_packet 0 True False))))) =
     Packet \<lparr>pkt_service = 6, pkt_status = 0, pkt_id = 7,
       pkt_hash = [\<lparr>pair_key = 5, pair_value = []\<rparr>, \<lparr>pair_key = 14, pair_value = [104, 105]\<rparr>]\<rparr> []"
  using yahoo_build_read [OF example_sendable, of True False] build_sendable [OF example_sendable, of True False]
    example_wire_length [of True False]
  by (auto simp: received_def example_packet_def)

text \<open>C17: The buffer of a packet is too small for two negative keys: the length is computed without the
  signs, and one byte is spare, so that building writes past the end of the allocation exactly
  when at least two keys are negative.\<close>

theorem yahoo_build_overflows_iff:
  "yahoo_packet_build pkt pad wm jp = None \<longleftrightarrow> 2 \<le> length (filter (\<lambda>p. pair_key p < 0) (pkt_hash pkt))"
  unfolding build_result negative_keys_def by auto

end
