(* ===== verification/Spec2Isabelle.thy ===== *)
theory Spec2Isabelle
  imports Jabber_Tx Cipher_Rc4 Cipher_Des Cipher_Hmac Oscar_Tlv Purple_Privacy Purple_Imgstore
    Purple_Stringref Purple_Signals Purple_Status Util_Codecs Purple_Cmds Purple_Blist_Contract Purple_Ft_Life
    Purple_Prefs_File Purple_Prefs_Rename Yahoo_Tx
begin

text \<open>
  A verification library for libpurple, the core of the Pidgin instant messenger.

  The program.  libpurple keeps accounts, buddies, privacy lists, statuses and images in
  memory, connects its parts by a signal bus, and talks to the networks through protocol
  plugins; those write through output queues, frame binary data in byte streams and TLV
  chains, and authenticate with the ciphers of the library.  The user interfaces are separate
  programs on top.  The theories model the parts that carry logic of their own, in the order
  below; each keeps the names of its C file.

  \<^item> \<open>Purple_Base\<close>: what all theories share: C strings, byte lists, \<open>memcpy\<close>, the sorted
    insertion of GLib and the contract \<open>ranked_cmp\<close> of comparison functions.
  \<^item> \<open>Circ_Buffer\<close> (\<open>libpurple/circbuffer.c\<close>): the output queue, a ring over two pointers; refined
    to a byte queue by the locale \<open>byte_queue\<close>.  \<open>Jabber_Tx\<close> (\<open>do_jabber_send_raw\<close> and
    \<open>jabber_send_cb\<close> of \<open>libpurple/protocols/jabber/jabber.c\<close>): its use by the XMPP plugin as a
    step relation of sends and socket callbacks; the theorem is that no byte is lost or reordered
    unless a send meets a drained queue that has to grow.
  \<^item> \<open>Cipher_Rc4\<close>, \<open>Cipher_Des\<close>, \<open>Cipher_Md4\<close>, \<open>Cipher_Hmac\<close> (\<open>libpurple/ciphers/*.c\<close>, and of
    \<open>libpurple/cipher.c\<close> the dispatchers that \<open>hmac.c\<close> calls).  RC4 and DES are shown to
    decrypt what they encrypted (the locale \<open>block_cipher\<close> gives the batch modes for DES and
    Triple-DES at once); MD4 and HMAC, fed in any number of pieces, compute the digests that
    RFC 1320 and RFC 2104 define over one string (the locale \<open>hash_cipher\<close> is what HMAC
    relies on, interpreted by MD4).
  \<^item> \<open>Oscar_Bstream\<close>, \<open>Oscar_Tlv\<close> (\<open>bstream.c\<close>, \<open>tlv.c\<close> and the integer macros of \<open>oscar.h\<close> in
    \<open>libpurple/protocols/oscar\<close>, and one reader of \<open>family_icbm.c\<close>): the wire format of AIM and
    ICQ.  The locale \<open>wire_codec\<close> states what a fixed-width field promises and is interpreted
    by the six widths and byte orders; chains are written and read back, and the behaviour
    of the three readers on malformed input is characterised.
  \<^item> \<open>Purple_Privacy\<close> (\<open>libpurple/privacy.c\<close>): the two lists and five modes that decide who may
    contact the user; the locale \<open>privacy_list\<close> is the contract of both lists.
  \<^item> \<open>Purple_Imgstore\<close>, \<open>Purple_Stringref\<close> (\<open>libpurple/imgstore.c\<close>, \<open>stringref.c\<close>): two kinds of
    reference-counted heap objects, over a heap that is a map from addresses.
  \<^item> \<open>Purple_Signals\<close> (\<open>libpurple/signals.c\<close>): the signal bus; callbacks are functions on the
    state of the bus, so that they may connect and disconnect while an emission runs.
  \<^item> \<open>Purple_Status\<close> (\<open>libpurple/status.c\<close>): status types, statuses and presences; setting a status
    refines the choice of one exclusive status among any number of independent ones.
  \<^item> \<open>Util_Codecs\<close>, \<open>Util_Markup\<close> (\<open>libpurple/util.c\<close>): hexadecimal, quoted-printable and
    percent-escaped text, string helpers, and slices of marked-up text; what an encoder wrote
    is read back (the locale \<open>escaper\<close> for the two escape tables).
  \<^item> \<open>Purple_Cmds\<close> (\<open>libpurple/cmds.c\<close>): the commands a user types: registry, argument parser and
    dispatcher, the latter against a specification by filters.

  \<^item> \<open>Purple_Blist\<close> (\<open>libpurple/blist.c\<close>, \<open>blist.h\<close>): the buddy list, a tree of groups, contacts,
    chats and buddies threaded through a heap of nodes, with its counters and hash tables.
    \<open>Blist_Links\<close> relates sibling pointers to lists of children, \<open>Blist_Counts\<close> the counters on two
    levels to what they count; \<open>Purple_Blist_Wf\<close> states the invariant \<open>blist_ok\<close> and proves it for the
    removals, \<open>Purple_Blist_Add\<close>, \<open>Purple_Blist_New\<close>, \<open>Purple_Blist_Groups\<close> and \<open>Purple_Blist_Move\<close>
    for allocation and for adding and moving nodes, \<open>Purple_Blist_Accounts\<close> for whole contacts,
    statuses and accounts that come and go; \<open>Purple_Blist_Contract\<close> states what the operations promise.
  \<^item> \<open>Purple_Ft\<close> (\<open>libpurple/ft.c\<close>, \<open>ft.h\<close>): file transfers: requests and their dialogs, reference
    counts, status, the transfer loop with its buffer of unsent bytes, cancellation.  One
    call from outside runs in a \<open>world\<close>: what callbacks do, what sockets and files answer.
    \<open>Purple_Ft_Quiet\<close> has the frame lemmas for callbacks that do not call back,
    \<open>Purple_Ft_Stream\<close> shows that what crosses the connection is the file and that the loop ends
    (the locale \<open>transfer_loop\<close>, interpreted for sending and for receiving), \<open>Purple_Ft_Life\<close>
    treats the operations as steps of a relation and shows that the reference counts protect every
    callback, and what goes wrong without the guards the code does not have.
  \<^item> \<open>Purple_Prefs\<close> (\<open>libpurple/prefs.c\<close>, \<open>prefs.h\<close>): preferences: a tree of typed nodes behind a hash
    table of full names, callbacks that hear of changes below them, renaming, and the file.
    \<open>Purple_Prefs_Wf\<close> relates names to paths, states the invariant \<open>ptree_ok\<close> and proves it for adding
    and for the recursive removal, which ends; \<open>Purple_Prefs_Ops\<close> follows changes up the tree and the
    walks that disconnect callbacks down it.  Callbacks are functions on the preferences, and the
    walk over them rereads every link after each call; the locale \<open>callback_walk\<close> says what a callback
    may do for the walk to reach everybody (interpreted for callbacks that leave the preferences
    alone and for those that also add some), and a callback that disconnects itself ends the
    walk at a freed link.  \<open>Purple_Prefs_Map\<close> gives each call of the interface its
    specification on a map from names to types and values and shows that runs of calls meet it and
    keep every value of the type of its node (raw values excepted); \<open>Purple_Prefs_File\<close> reads back
    what was saved, file names as their conversions make them; \<open>Purple_Prefs_Rename\<close> treats renaming
    and names with doubled slashes.
  \<^item> \<open>Yahoo_Packet\<close> (\<open>yahoo_packet.c\<close> and \<open>yahoo_pending\<close> of \<open>libymsg.c\<close> in
    \<open>libpurple/protocols/yahoo\<close>): packets of pairs of a number and a string, their bytes, and the loop
    that cuts the received bytes into packets. \<open>Yahoo_Wire\<close> shows that what was built is read back,
    whole or in pieces; \<open>Yahoo_Tx\<close> adds the sending side over the queue of \<open>Circ_Buffer\<close> and
    composes the two ends of a connection: packets that the format can carry arrive as they were
    sent, with the condition of \<open>Jabber_Tx\<close> on the queue.

  State and effects.  A C struct is a record with the names of its fields, a table of GLib a
  partial map, a list of GLib a list.  A failing guard (\<open>g_return_if_fail\<close>) returns the value the
  code returns.  A pointer is an offset into its allocation (\<open>Circ_Buffer\<close>), an address of an
  explicit heap (\<open>Purple_Imgstore\<close>, \<open>Purple_Stringref\<close>) or the number of a list node
  (\<open>Purple_Signals\<close>) or an address with one function per field (\<open>Purple_Blist\<close>); an access to something freed is a value of its own (\<open>None\<close>, or
  \<open>Use_after_free\<close>), so that its absence is a theorem.  Integers whose width matters are words.

  Bounds.  No definition has fuel.  A loop whose end is not obvious (the growing loop of the
  queue, the key loop of RC4, the search for a free image id, the readers of TLV chains, the
  emission loops, the walks over the tree of preferences and over its callbacks) is a \<open>partial_function\<close> whose value \<open>None\<close> means that it does not return; for
  each of them a theorem says when it does.

  Parameters.  Code outside the sources is an argument: the bytes that fresh memory happens to
  hold (\<open>junk\<close>), the addresses the allocator returns, the results of the socket, the string
  normalisation and the server calls of the protocol plugin (\<open>priv_env\<close>), the callbacks of the
  bus, and for the preferences the validity of UTF-8, the conversions of file names and what each callback
  does (\<open>prefs_env\<close>).  What is relied on of them is a named predicate or a premise: \<open>env_ok\<close> (normalising
  twice is normalising once), \<open>collate_exact\<close> (only for \<open>privacy_frame\<close>), \<open>quiet_env\<close> (callbacks leave the
  preferences alone), \<open>adds_only\<close> and \<open>drops_itself\<close> (what else a callback of a preference may do).

  Deviations.  Where the code does not do what its comments or its contract say, the theorem
  states what it does: the drained queue that grows, the reported length of a padded cipher
  text, the backward move in a byte stream and the file name that depends on it, the length
  byte of a long asset, the slice of a final command argument, the two TLV readers on malformed input, the 8-bit reference count, the
  emission that walks into a freed node, the count of signals, the total of a group that loses
  contacts, the account that comes online unseen, the two callbacks that survive the
  cancellation of a transfer, the failed write that reads the buffer of a transfer just freed (the
  theorems on sending name it as an outcome, those on life cycles exclude it by a guard), the callback of
  a preference that disconnects itself, the raw value stored whatever the type, the element of the preference file that moves its siblings one level up,
  the walk over callbacks of the interface that runs past the end of the list, and the Yahoo packet
  whose buffer is too small for two negative keys.

  Not modelled: user interfaces, the network and resolver code, file formats, glue to
  outside libraries (GStreamer, libgadu, SILC, D-Bus), and the protocols apart from the
  parts named above.  Of the buddy list the operations \<open>add_contact\<close> on a
  contact that moves between groups, \<open>merge_contact\<close>, \<open>rename_buddy\<close> and the alias routines are
  modelled without theorems; renaming a group is not modelled (it uses a contact that may have
  been freed).  Of a file transfer the list of all transfers and the texts shown to the
  user are left out, and the theorems about runs assume callbacks that keep to their own data.
  Of the preferences the store that an interface may put in place of the tree is left out; the file
  is its tree of elements (the printer and the parser of XML are outside), and the start-up sequence and
  the conversion of old names are modelled without theorems.
  Of the Yahoo protocol the handlers of the services are left out: a packet is handed on, and its
  processing is taken to leave the receive queue alone.
  Next in the plan: chat rooms, the rest of \<open>util.c\<close> and NTLM over the ciphers.
\<close>

end
